(* ===== verification/Lg_Prelude.thy ===== *)
theory Lg_Prelude
  imports Main "HOL-Library.Word"
begin

text \<open>
  Shared vocabulary of the lgnome development: the machine types of the C code, the
  collections the component theories add their facts to, and the generic lemmas on
  fixed-capacity ring buffers.  Every queue of the program (evdev events, LVGL key
  presses, camera access units, jitter samples) is an array with a head index and a
  count, read at \<open>(head + i) % CAP\<close>; \<open>ring_list\<close> is the list such a ring holds, and the
  lemmas below say what a write at the tail, a write inside and a step of the head do to it.
\<close>

type_synonym u8 = "8 word"
type_synonym u16 = "16 word"
type_synonym u32 = "32 word"
type_synonym u64 = "64 word"
type_synonym i16 = "16 word" \<comment> \<open>two's complement, read with \<open>sint\<close>\<close>
type_synonym i32 = "32 word" \<comment> \<open>two's complement, read with \<open>sint\<close>\<close>
type_synonym bytes = "8 word list"

named_theorems ring_simps \<open>reading and writing ring buffers\<close>
named_theorems inv_pres \<open>operations keep their component's invariant\<close>

section \<open>Ring buffers\<close>

definition ring_list :: "nat \<Rightarrow> 'a list \<Rightarrow> nat \<Rightarrow> nat \<Rightarrow> 'a list" where
  "ring_list cap xs h n = map (\<lambda>i. xs ! ((h + i) mod cap)) [0..<n]"

lemma length_ring_list [simp]: "length (ring_list cap xs h n) = n"
  by (simp add: ring_list_def)

lemma ring_list_0 [simp]: "ring_list cap xs h 0 = []"
  by (simp add: ring_list_def)

lemma nth_ring_list [ring_simps]: "i < n \<Longrightarrow> ring_list cap xs h n ! i = xs ! ((h + i) mod cap)"
  by (simp add: ring_list_def)

lemma ring_list_Suc: "ring_list cap xs h (Suc n) = ring_list cap xs h n @ [xs ! ((h + n) mod cap)]"
  by (simp add: ring_list_def)

lemma ring_index_inj:
  assumes "(h + i) mod cap = (h + j) mod cap" "i < cap" "j < (cap::nat)"
  shows "i = j"
proof -
  have "i mod cap = j mod cap"
    using assms(1) by (simp add: nat_mod_eq_iff)
  then show ?thesis using assms(2,3) by simp
qed

lemma ring_list_write_other:
  assumes "m < cap" "n \<le> m"
  shows "ring_list cap (xs[(h + m) mod cap := v]) h n = ring_list cap xs h n"
proof (rule nth_equalityI)
  fix i assume "i < length (ring_list cap (xs[(h + m) mod cap := v]) h n)"
  then have i: "i < n" by simp
  then have "(h + m) mod cap \<noteq> (h + i) mod cap"
    using ring_index_inj [of h m cap i] assms by auto
  with i show "ring_list cap (xs[(h + m) mod cap := v]) h n ! i = ring_list cap xs h n ! i"
    by (simp add: ring_simps)
qed simp

lemma ring_list_write_tail [ring_simps]:
  assumes "length xs = cap" "n < cap"
  shows "ring_list cap (xs[(h + n) mod cap := v]) h (Suc n) = ring_list cap xs h n @ [v]"
  using assms by (simp add: ring_list_Suc ring_list_write_other)

lemma ring_list_write_inside [ring_simps]:
  assumes "length xs = cap" "m < n" "n \<le> cap"
  shows "ring_list cap (xs[(h + m) mod cap := v]) h n = (ring_list cap xs h n)[m := v]"
proof (rule nth_equalityI)
  fix i assume "i < length (ring_list cap (xs[(h + m) mod cap := v]) h n)"
  then have i: "i < n" by simp
  have pos: "0 < cap" using assms by simp
  then have lt: "(h + m) mod cap < length xs" using assms by simp
  show "ring_list cap (xs[(h + m) mod cap := v]) h n ! i = (ring_list cap xs h n)[m := v] ! i"
  proof (cases "i = m")
    case True
    with i lt show ?thesis by (simp add: ring_simps)
  next
    case False
    then have "(h + m) mod cap \<noteq> (h + i) mod cap"
      using ring_index_inj [of h m cap i] assms i by auto
    with False i show ?thesis by (simp add: ring_simps)
  qed
qed simp

lemma ring_list_head [ring_simps]:
  assumes "0 < n" "h < cap"
  shows "ring_list cap xs h n = xs ! h # ring_list cap xs ((h + 1) mod cap) (n - 1)"
proof (rule nth_equalityI)
  fix i assume i: "i < length (ring_list cap xs h n)"
  have eq: "((h + 1) mod cap + j) mod cap = (h + Suc j) mod cap" for j
    by (simp add: mod_add_left_eq)
  from i show "ring_list cap xs h n ! i = (xs ! h # ring_list cap xs ((h + 1) mod cap) (n - 1)) ! i"
    using assms(2) by (cases i) (auto simp: ring_simps eq[simplified])
qed (use assms in simp)

section \<open>Finite case splits\<close>

text \<open>The numbers below a numeral, one disjunct each; \<open>below_simps\<close> unfolds it.\<close>

primrec below :: "nat \<Rightarrow> nat \<Rightarrow> bool" where
  "below 0 n \<longleftrightarrow> False"
| "below (Suc k) n \<longleftrightarrow> n = k \<or> below k n"

lemma below_iff: "below k n \<longleftrightarrow> n < k"
  by (induction k) auto

lemma below_numeral: "below (numeral k) n \<longleftrightarrow> n = pred_numeral k \<or> below (pred_numeral k) n"
  by (simp only: numeral_eq_Suc below.simps)

lemma below_1: "below 1 n \<longleftrightarrow> n = 0"
  by (simp add: below_iff)

lemmas below_simps = below_numeral below_1

end
