(* ===== verification/Event_Queue.thy ===== *)
theory Event_Queue
  imports Lg_Prelude "HOL-Library.Multiset"
begin

text \<open>
  The evdev event queue, \<open>native/src/input_event_queue.c\<close> and its header: a ring of 1024
  timestamped events kept in kernel time order across devices, an overflow that voids the
  history until the consumer has released all held input, and a publication bound that hides
  events of an unfinished device sweep.
\<close>

section \<open>Data\<close>

datatype NativeMouseEvKind = NATIVE_MOUSE_EV_MOTION | NATIVE_MOUSE_EV_BUTTON | NATIVE_MOUSE_EV_WHEEL

record NativeMouseEv =
  me_kind :: NativeMouseEvKind
  me_dx :: i32
  me_dy :: i32
  me_sdl_button :: u8
  me_down :: bool
  me_wheel_x :: i32
  me_wheel_y :: i32

record NativeKeyboardEv =
  ke_code :: u16
  ke_down :: bool
  ke_from_remote :: bool

datatype NativeEventKind =
  NATIVE_EVENT_NONE | NATIVE_EVENT_MOUSE | NATIVE_EVENT_KEYBOARD | NATIVE_EVENT_RESET

text \<open>The C union of the event payloads; the tag that selects the member is \<open>ev_kind\<close>.\<close>

datatype NativeEventData = EvMouse NativeMouseEv | EvKeyboard NativeKeyboardEv

record NativeEvent =
  ev_time :: u64
  ev_kind :: NativeEventKind
  ev_data :: NativeEventData

definition NATIVE_EVENT_QUEUE_CAPACITY :: nat where
  "NATIVE_EVENT_QUEUE_CAPACITY = 1024"

record NativeEventQueue =
  eq_events :: "NativeEvent list"
  eq_head :: nat
  eq_count :: nat
  eq_reset_pending :: bool
  eq_publication_bounded :: bool
  eq_published_before :: u64

section \<open>Operations\<close>

definition native_event_queue_publish_before :: "NativeEventQueue \<Rightarrow> u64 \<Rightarrow> NativeEventQueue" where
  "native_event_queue_publish_before q t =
     q\<lparr>eq_publication_bounded := True, eq_published_before := t\<rparr>"

definition native_event_queue_reset :: "NativeEventQueue \<Rightarrow> NativeEventQueue" where
  "native_event_queue_reset q = q\<lparr>eq_head := 0, eq_count := 0, eq_reset_pending := True\<rparr>"

text \<open>The insertion loop of push: moves later events one place up, from position \<open>pos\<close> down.\<close>

fun push_shift :: "NativeEvent list \<Rightarrow> nat \<Rightarrow> nat \<Rightarrow> u64 \<Rightarrow> NativeEvent list \<times> nat" where
  "push_shift evs h 0 t = (evs, 0)"
| "push_shift evs h (Suc pos) t =
     (let prev = (h + Suc pos - 1) mod NATIVE_EVENT_QUEUE_CAPACITY in
      if ev_time (evs ! prev) \<le> t then (evs, Suc pos)
      else push_shift (evs[(h + Suc pos) mod NATIVE_EVENT_QUEUE_CAPACITY := evs ! prev]) h pos t)"

definition native_event_queue_push :: "NativeEventQueue \<Rightarrow> NativeEvent \<Rightarrow> NativeEventQueue" where
  "native_event_queue_push q e =
     (if eq_reset_pending q then q
      else if eq_count q = NATIVE_EVENT_QUEUE_CAPACITY then native_event_queue_reset q
      else (let (evs, pos) = push_shift (eq_events q) (eq_head q) (eq_count q) (ev_time e) in
        q\<lparr>eq_events := evs[(eq_head q + pos) mod NATIVE_EVENT_QUEUE_CAPACITY := e],
          eq_count := eq_count q + 1\<rparr>))"

definition native_event_queue_next_kind :: "NativeEventQueue \<Rightarrow> NativeEventKind" where
  "native_event_queue_next_kind q =
     (if eq_reset_pending q then NATIVE_EVENT_RESET
      else if eq_count q = 0 \<or>
              (eq_publication_bounded q \<and> ev_time (eq_events q ! eq_head q) \<ge> eq_published_before q)
      then NATIVE_EVENT_NONE
      else ev_kind (eq_events q ! eq_head q))"

definition native_event_queue_pop ::
    "NativeEventQueue \<Rightarrow> NativeEventKind \<Rightarrow> (NativeEvent \<times> NativeEventQueue) option" where
  "native_event_queue_pop q k =
     (if k = NATIVE_EVENT_NONE \<or> k = NATIVE_EVENT_RESET \<or> native_event_queue_next_kind q \<noteq> k
      then None
      else Some (eq_events q ! eq_head q,
                 q\<lparr>eq_head := (eq_head q + 1) mod NATIVE_EVENT_QUEUE_CAPACITY,
                   eq_count := eq_count q - 1\<rparr>))"

definition native_event_queue_take_reset :: "NativeEventQueue \<Rightarrow> bool \<times> NativeEventQueue" where
  "native_event_queue_take_reset q = (eq_reset_pending q, q\<lparr>eq_reset_pending := False\<rparr>)"


section \<open>Abstraction and invariant\<close>

definition eq_list :: "NativeEventQueue \<Rightarrow> NativeEvent list" where
  "eq_list q = ring_list NATIVE_EVENT_QUEUE_CAPACITY (eq_events q) (eq_head q) (eq_count q)"

definition eq_wf :: "NativeEventQueue \<Rightarrow> bool" where
  "eq_wf q \<longleftrightarrow> length (eq_events q) = NATIVE_EVENT_QUEUE_CAPACITY \<and>
     eq_head q < NATIVE_EVENT_QUEUE_CAPACITY \<and> eq_count q \<le> NATIVE_EVENT_QUEUE_CAPACITY"

definition eq_inv :: "NativeEventQueue \<Rightarrow> bool" where
  "eq_inv q \<longleftrightarrow> eq_wf q \<and> sorted (map ev_time (eq_list q))"

text \<open>What push means on the list: after every event not later than it, before the others.\<close>

definition insert_by_time :: "NativeEvent \<Rightarrow> NativeEvent list \<Rightarrow> NativeEvent list" where
  "insert_by_time e xs =
     filter (\<lambda>x. ev_time x \<le> ev_time e) xs @ [e] @ filter (\<lambda>x. \<not> ev_time x \<le> ev_time e) xs"

lemma cap_pos [simp]:
  "0 < NATIVE_EVENT_QUEUE_CAPACITY" "NATIVE_EVENT_QUEUE_CAPACITY \<noteq> 0"
  "0 \<noteq> NATIVE_EVENT_QUEUE_CAPACITY"
  by (simp_all add: NATIVE_EVENT_QUEUE_CAPACITY_def)

lemma length_eq_list [simp]: "length (eq_list q) = eq_count q"
  by (simp add: eq_list_def)

lemma push_shift_ring:
  assumes "push_shift evs h pos t = (evs', k)"
    and "length evs = NATIVE_EVENT_QUEUE_CAPACITY" "pos \<le> n" "n < NATIVE_EVENT_QUEUE_CAPACITY"
    and "L = ring_list NATIVE_EVENT_QUEUE_CAPACITY evs h (Suc n)"
  shows "length evs' = NATIVE_EVENT_QUEUE_CAPACITY \<and> k \<le> pos \<and>
     (\<forall>i. k \<le> i \<and> i < pos \<longrightarrow> t < ev_time (L ! i)) \<and>
     (0 < k \<longrightarrow> ev_time (L ! (k - 1)) \<le> t) \<and>
     (\<forall>i \<le> n. i \<noteq> k \<longrightarrow> ring_list NATIVE_EVENT_QUEUE_CAPACITY evs' h (Suc n) ! i =
        (if k < i \<and> i \<le> pos then L ! (i - 1) else L ! i))"
  using assms
proof (induction pos arbitrary: evs L)
  case 0
  then show ?case by auto
next
  case (Suc pos)
  let ?C = NATIVE_EVENT_QUEUE_CAPACITY
  have lp: "L ! pos = evs ! ((h + pos) mod ?C)"
    using Suc.prems by (simp add: ring_simps)
  show ?case
  proof (cases "ev_time (L ! pos) \<le> t")
    case True
    then have "evs' = evs \<and> k = Suc pos" using Suc.prems(1) lp by (simp add: Let_def)
    with True Suc.prems show ?thesis by auto
  next
    case False
    let ?evs = "evs[(h + Suc pos) mod ?C := L ! pos]"
    let ?L = "ring_list ?C ?evs h (Suc n)"
    have run: "push_shift ?evs h pos t = (evs', k)"
      using False Suc.prems(1) lp by (simp add: Let_def)
    have L2: "?L = L[Suc pos := L ! pos]"
      using Suc.prems(2-) ring_list_write_inside [of evs ?C "Suc pos" "Suc n" h "L ! pos"] by simp
    have len: "length L = Suc n" using Suc.prems by simp
    have IH: "length evs' = ?C \<and> k \<le> pos \<and>
       (\<forall>i. k \<le> i \<and> i < pos \<longrightarrow> t < ev_time (?L ! i)) \<and>
       (0 < k \<longrightarrow> ev_time (?L ! (k - 1)) \<le> t) \<and>
       (\<forall>i \<le> n. i \<noteq> k \<longrightarrow> ring_list ?C evs' h (Suc n) ! i =
          (if k < i \<and> i \<le> pos then ?L ! (i - 1) else ?L ! i))"
      using Suc.prems by (intro Suc.IH [OF run _ _ _ refl]) auto
    have same: "?L ! i = L ! i" if "i \<noteq> Suc pos" for i
      using that unfolding L2 by simp
    have moved: "?L ! Suc pos = L ! pos"
      using len Suc.prems unfolding L2 by simp
    have "\<forall>i. k \<le> i \<and> i < Suc pos \<longrightarrow> t < ev_time (L ! i)"
      using IH False same less_Suc_eq by (auto simp: not_le)
    moreover have "\<forall>i \<le> n. i \<noteq> k \<longrightarrow> ring_list ?C evs' h (Suc n) ! i =
        (if k < i \<and> i \<le> Suc pos then L ! (i - 1) else L ! i)"
    proof (intro allI impI)
      fix i assume i: "i \<le> n" "i \<noteq> k"
      consider "i \<le> pos" | "i = Suc pos" | "Suc pos < i" by linarith
      then show "ring_list ?C evs' h (Suc n) ! i =
          (if k < i \<and> i \<le> Suc pos then L ! (i - 1) else L ! i)"
        using IH i same moved by cases auto
    qed
    moreover have "0 < k \<longrightarrow> ev_time (L ! (k - 1)) \<le> t"
      using IH same by auto
    ultimately show ?thesis using IH by auto
  qed
qed

lemma sorted_split_filter:
  assumes "sorted (map f xs)" "k \<le> length xs"
    and "\<forall>i. k \<le> i \<and> i < length xs \<longrightarrow> t < f (xs ! i)"
    and "0 < k \<longrightarrow> f (xs ! (k - 1)) \<le> (t :: 'b :: linorder)"
  shows "filter (\<lambda>x. f x \<le> t) xs = take k xs \<and> filter (\<lambda>x. \<not> f x \<le> t) xs = drop k xs"
proof -
  have lo: "\<forall>x \<in> set (take k xs). f x \<le> t"
  proof
    fix x assume "x \<in> set (take k xs)"
    then obtain i where i: "i < k" "i < length xs" "x = xs ! i"
      by (auto simp: in_set_conv_nth)
    then have "f (xs ! i) \<le> f (xs ! (k - 1))"
      using sorted_nth_mono [OF assms(1), of i "k - 1"] assms(2) by simp
    with i assms(4) show "f x \<le> t" by auto
  qed
  have hi: "\<forall>x \<in> set (drop k xs). \<not> f x \<le> t"
    using assms(2,3) by (auto simp: in_set_conv_nth not_le)
  have "filter P xs = filter P (take k xs) @ filter P (drop k xs)" for P
    by (metis append_take_drop_id filter_append)
  with lo hi show ?thesis
    by (simp add: filter_id_conv filter_empty_conv)
qed

section \<open>What push and pop do to the list\<close>

lemma push_wf:
  assumes "eq_wf q" shows "eq_wf (native_event_queue_push q e)"
proof -
  obtain evs k where ps: "push_shift (eq_events q) (eq_head q) (eq_count q) (ev_time e) = (evs, k)"
    by fastforce
  show ?thesis
  proof (cases "eq_reset_pending q \<or> eq_count q = NATIVE_EVENT_QUEUE_CAPACITY")
    case True
    with assms show ?thesis
      by (auto simp: native_event_queue_push_def native_event_queue_reset_def eq_wf_def)
  next
    case False
    then have "length evs = NATIVE_EVENT_QUEUE_CAPACITY"
      using push_shift_ring [OF ps _ le_refl _ refl] assms by (auto simp: eq_wf_def)
    with False ps assms show ?thesis
      by (auto simp: native_event_queue_push_def eq_wf_def)
  qed
qed

lemma push_list:
  assumes inv: "eq_inv q" and free: "\<not> eq_reset_pending q" "eq_count q < NATIVE_EVENT_QUEUE_CAPACITY"
  shows "eq_list (native_event_queue_push q e) = insert_by_time e (eq_list q)"
proof -
  let ?C = NATIVE_EVENT_QUEUE_CAPACITY and ?n = "eq_count q" and ?h = "eq_head q"
  let ?L = "ring_list ?C (eq_events q) ?h (Suc ?n)"
  obtain evs k where ps: "push_shift (eq_events q) ?h ?n (ev_time e) = (evs, k)"
    by fastforce
  have wf: "length (eq_events q) = ?C" using inv by (simp add: eq_inv_def eq_wf_def)
  note sh = push_shift_ring [OF ps wf le_refl free(2) refl]
  have k: "k \<le> ?n" and len: "length evs = ?C" using sh by auto
  have same: "?L ! i = eq_list q ! i" if "i < ?n" for i
    using that by (simp add: eq_list_def ring_simps)
  have split: "filter (\<lambda>x. ev_time x \<le> ev_time e) (eq_list q) = take k (eq_list q) \<and>
      filter (\<lambda>x. \<not> ev_time x \<le> ev_time e) (eq_list q) = drop k (eq_list q)"
    using inv sh same k by (intro sorted_split_filter) (auto simp: eq_inv_def)
  have "eq_list (native_event_queue_push q e) = (ring_list ?C evs ?h (Suc ?n))[k := e]"
    using free ps len k ring_list_write_inside [of evs ?C k "Suc ?n" ?h e]
    by (simp add: native_event_queue_push_def eq_list_def)
  also have "\<dots> = take k (eq_list q) @ [e] @ drop k (eq_list q)"
  proof (rule nth_equalityI)
    fix i assume "i < length ((ring_list ?C evs ?h (Suc ?n))[k := e])"
    then have i: "i \<le> ?n" by simp
    consider "i < k" | "i = k" | "k < i" by linarith
    then show "(ring_list ?C evs ?h (Suc ?n))[k := e] ! i =
        (take k (eq_list q) @ [e] @ drop k (eq_list q)) ! i"
    proof cases
      case 3
      then have "i - 1 = k + (i - Suc k)" by simp
      then show ?thesis using 3 i k sh same [of "i - 1"]
        by (auto simp: nth_append nth_Cons' split: if_splits)
    qed (use i k sh same in \<open>auto simp: nth_append\<close>)
  qed (use k in simp)
  finally show ?thesis using split by (simp add: insert_by_time_def)
qed

lemma sorted_insert_by_time:
  "sorted (map ev_time xs) \<Longrightarrow> sorted (map ev_time (insert_by_time e xs))"
  by (auto simp: insert_by_time_def sorted_append sorted_filter)

lemma filter_same_time_sort:
  "filter (\<lambda>y. t = ev_time y) (sort_key ev_time xs) = filter (\<lambda>y. t = ev_time y) xs"
  using sort_key_stable [of ev_time t xs] by (simp add: eq_commute)

lemma filter_same_time_insert:
  "filter (\<lambda>y. t = ev_time y) (insert_by_time e xs) =
     filter (\<lambda>y. t = ev_time y) xs @ (if t = ev_time e then [e] else [])"
proof -
  have "filter (\<lambda>y. t = ev_time y) (filter (\<lambda>x. ev_time x \<le> ev_time e) xs) =
      (if t \<le> ev_time e then filter (\<lambda>y. t = ev_time y) xs else [])"
    by (auto simp: filter_empty_conv intro: filter_cong)
  moreover have "filter (\<lambda>y. t = ev_time y) (filter (\<lambda>x. \<not> ev_time x \<le> ev_time e) xs) =
      (if t \<le> ev_time e then [] else filter (\<lambda>y. t = ev_time y) xs)"
    by (auto simp: filter_empty_conv intro: filter_cong)
  ultimately show ?thesis by (auto simp: insert_by_time_def)
qed

lemma insert_by_time_sort_key:
  "insert_by_time e (sort_key ev_time xs) = sort_key ev_time (xs @ [e])"
proof (rule properties_for_sort_key [symmetric])
  show "mset (insert_by_time e (sort_key ev_time xs)) = mset (xs @ [e])"
    by (simp add: insert_by_time_def mset_filter multiset_partition [symmetric])
next
  fix x assume "x \<in> set (insert_by_time e (sort_key ev_time xs))"
  show "filter (\<lambda>y. ev_time x = ev_time y) (insert_by_time e (sort_key ev_time xs)) =
      filter (\<lambda>y. ev_time x = ev_time y) (xs @ [e])"
    by (simp add: filter_same_time_insert filter_same_time_sort)
next
  show "sorted (map ev_time (insert_by_time e (sort_key ev_time xs)))"
    by (rule sorted_insert_by_time) simp
qed

lemma push_cases:
  "native_event_queue_push q e =
     (if eq_reset_pending q then q
      else if eq_count q = NATIVE_EVENT_QUEUE_CAPACITY then native_event_queue_reset q
      else native_event_queue_push q e)"
  by (simp add: native_event_queue_push_def)

lemma pop_list:
  assumes "eq_wf q" "native_event_queue_pop q k = Some (e, q')"
  shows "eq_list q = e # eq_list q' \<and> eq_wf q' \<and> ev_kind e = k \<and>
     (eq_publication_bounded q \<longrightarrow> ev_time e < eq_published_before q)"
  using assms
  by (auto simp: native_event_queue_pop_def native_event_queue_next_kind_def eq_list_def eq_wf_def
      ring_list_head not_le split: if_splits)

section \<open>Runs of the queue\<close>

text \<open>
  One consumer and one producer under the caller's lock: a run is a list of calls, and
  \<open>eq_run\<close> returns the events the consumer received, in the order it received them.
\<close>

datatype EqOp =
  EqPublish u64 | EqReset | EqPush NativeEvent | EqPop NativeEventKind | EqTakeReset

fun eq_step :: "NativeEventQueue \<Rightarrow> EqOp \<Rightarrow> NativeEvent list \<times> NativeEventQueue" where
  "eq_step q (EqPublish t) = ([], native_event_queue_publish_before q t)"
| "eq_step q EqReset = ([], native_event_queue_reset q)"
| "eq_step q (EqPush e) = ([], native_event_queue_push q e)"
| "eq_step q (EqPop k) =
     (case native_event_queue_pop q k of None \<Rightarrow> ([], q) | Some (e, q') \<Rightarrow> ([e], q'))"
| "eq_step q EqTakeReset = ([], snd (native_event_queue_take_reset q))"

fun eq_run :: "NativeEventQueue \<Rightarrow> EqOp list \<Rightarrow> NativeEvent list \<times> NativeEventQueue" where
  "eq_run q [] = ([], q)"
| "eq_run q (x # xs) =
     (let (out, q') = eq_step q x; (out', q'') = eq_run q' xs in (out @ out', q''))"

text \<open>A queue of zeroed memory, as the evdev reader starts with.\<close>

definition eq_zero_event :: NativeEvent where
  "eq_zero_event = \<lparr>ev_time = 0, ev_kind = NATIVE_EVENT_NONE,
     ev_data = EvMouse \<lparr>me_kind = NATIVE_MOUSE_EV_MOTION, me_dx = 0, me_dy = 0, me_sdl_button = 0,
       me_down = False, me_wheel_x = 0, me_wheel_y = 0\<rparr>\<rparr>"

definition eq_empty :: NativeEventQueue where
  "eq_empty = \<lparr>eq_events = replicate NATIVE_EVENT_QUEUE_CAPACITY eq_zero_event, eq_head = 0,
     eq_count = 0, eq_reset_pending = False, eq_publication_bounded = False,
     eq_published_before = 0\<rparr>"

lemma eq_empty_inv: "eq_inv eq_empty" and eq_empty_list: "eq_list eq_empty = []"
  by (simp_all add: eq_inv_def eq_wf_def eq_list_def eq_empty_def)

lemma push_inv [inv_pres]: "eq_inv q \<Longrightarrow> eq_inv (native_event_queue_push q e)"
proof (cases "eq_reset_pending q \<or> eq_count q = NATIVE_EVENT_QUEUE_CAPACITY")
  case True
  then show "eq_inv q \<Longrightarrow> ?thesis"
    by (auto simp: native_event_queue_push_def native_event_queue_reset_def eq_inv_def eq_wf_def
        eq_list_def)
next
  case False
  assume inv: "eq_inv q"
  then have "eq_list (native_event_queue_push q e) = insert_by_time e (eq_list q)"
    using False by (intro push_list) (auto simp: eq_inv_def eq_wf_def)
  with inv push_wf [of q e] show ?thesis
    by (simp add: eq_inv_def sorted_insert_by_time)
qed

lemma eq_reset_inv [inv_pres]: "eq_inv q \<Longrightarrow> eq_inv (native_event_queue_reset q)"
  by (simp add: native_event_queue_reset_def eq_inv_def eq_wf_def eq_list_def)

lemma pop_inv [inv_pres]: "eq_inv q \<Longrightarrow> native_event_queue_pop q k = Some (e, q') \<Longrightarrow> eq_inv q'"
  using pop_list [of q k e q'] by (simp add: eq_inv_def)

lemma publish_inv [inv_pres]: "eq_inv q \<Longrightarrow> eq_inv (native_event_queue_publish_before q t)"
  by (simp add: native_event_queue_publish_before_def eq_inv_def eq_wf_def eq_list_def)

lemma take_reset_inv [inv_pres]: "eq_inv q \<Longrightarrow> eq_inv (snd (native_event_queue_take_reset q))"
  by (simp add: native_event_queue_take_reset_def eq_inv_def eq_wf_def eq_list_def)

lemma eq_step_inv: "eq_inv q \<Longrightarrow> eq_inv (snd (eq_step q x))"
  by (cases x) (auto simp: inv_pres split: option.splits dest: pop_inv)

lemma eq_run_inv: "eq_inv q \<Longrightarrow> eq_inv (snd (eq_run q xs))"
proof (induction xs arbitrary: q)
  case (Cons x xs)
  then show ?case using eq_step_inv [of q x] by (simp add: Let_def case_prod_beta)
qed simp

text \<open>While a reset is pending nothing comes out and nothing goes in.\<close>

lemma pending_step:
  assumes "eq_reset_pending q" "eq_count q = 0" "x \<noteq> EqTakeReset"
  shows "fst (eq_step q x) = [] \<and> eq_reset_pending (snd (eq_step q x)) \<and>
     eq_count (snd (eq_step q x)) = 0"
  using assms
  by (cases x) (auto simp: native_event_queue_publish_before_def native_event_queue_reset_def
      native_event_queue_push_def native_event_queue_pop_def native_event_queue_next_kind_def)

lemma pending_run:
  "eq_reset_pending q \<Longrightarrow> eq_count q = 0 \<Longrightarrow> EqTakeReset \<notin> set xs \<Longrightarrow>
   fst (eq_run q xs) = [] \<and> eq_reset_pending (snd (eq_run q xs)) \<and> eq_count (snd (eq_run q xs)) = 0"
proof (induction xs arbitrary: q)
  case (Cons x xs)
  then have "x \<noteq> EqTakeReset" by auto
  with Cons show ?case using pending_step [of q x] by (simp add: Let_def case_prod_beta)
qed simp

lemma push_state:
  assumes "\<not> eq_reset_pending q" "eq_count q < NATIVE_EVENT_QUEUE_CAPACITY"
  shows "eq_count (native_event_queue_push q e) = Suc (eq_count q)"
    and "\<not> eq_reset_pending (native_event_queue_push q e)"
  using assms by (auto simp: native_event_queue_push_def split: prod.splits)

lemma push_all_sorts:
  "length es \<le> NATIVE_EVENT_QUEUE_CAPACITY \<Longrightarrow>
   eq_list (foldl native_event_queue_push eq_empty es) = sort_key ev_time es \<and>
   eq_inv (foldl native_event_queue_push eq_empty es) \<and>
   \<not> eq_reset_pending (foldl native_event_queue_push eq_empty es)"
proof (induction es rule: rev_induct)
  case Nil
  show ?case by (simp add: eq_empty_inv eq_empty_list) (simp add: eq_empty_def)
next
  case (snoc e es)
  let ?q = "foldl native_event_queue_push eq_empty es"
  have IH: "eq_list ?q = sort_key ev_time es" "eq_inv ?q" "\<not> eq_reset_pending ?q"
    using snoc by auto
  have "eq_count ?q = length es"
    using arg_cong [OF IH(1), of length] by simp
  then have free: "eq_count ?q < NATIVE_EVENT_QUEUE_CAPACITY" using snoc.prems by simp
  with IH show ?case
    by (simp add: push_list push_state push_inv insert_by_time_sort_key del: sort_key_simps)
qed

section \<open>Properties\<close>

text \<open>
  C1: pushing any batch of at most 1024 events into the empty queue leaves exactly the stable
  sort of the batch by kernel time: order across devices follows the clock, and events with
  equal timestamps keep their arrival order.
\<close>

theorem push_batch_is_stable_sort:
  assumes "length es \<le> NATIVE_EVENT_QUEUE_CAPACITY"
  shows "eq_list (foldl native_event_queue_push eq_empty es) = sort_key ev_time es"
  using push_all_sorts [OF assms] by blast

theorem push_batch_is_stable_sort_witness:
  "eq_list (foldl native_event_queue_push eq_empty
      [eq_zero_event\<lparr>ev_time := 9\<rparr>, eq_zero_event\<lparr>ev_time := 4\<rparr>, eq_zero_event\<lparr>ev_time := 4\<rparr>]) =
    [eq_zero_event\<lparr>ev_time := 4\<rparr>, eq_zero_event\<lparr>ev_time := 4\<rparr>, eq_zero_event\<lparr>ev_time := 9\<rparr>]"
  by (subst push_batch_is_stable_sort) (simp_all add: NATIVE_EVENT_QUEUE_CAPACITY_def)

text \<open>
  C2: in every state any sequence of queue calls can reach, the indices stay inside the
  1024-element array and the queued events are in nondecreasing kernel time order.
\<close>

theorem queue_always_sorted_and_bounded:
  "eq_wf (snd (eq_run eq_empty xs)) \<and> sorted (map ev_time (eq_list (snd (eq_run eq_empty xs))))"
  using eq_run_inv [OF eq_empty_inv] by (simp add: eq_inv_def)

text \<open>
  C3: after an overflow no event reaches the consumer, whatever is pushed, published or asked
  for, until the consumer has taken the reset (and so has released all held input); the
  incomplete history is gone by then.
\<close>

theorem overflow_blocks_replay:
  assumes "\<not> eq_reset_pending q" "eq_count q = NATIVE_EVENT_QUEUE_CAPACITY"
    and "EqTakeReset \<notin> set xs"
  shows "fst (eq_run (native_event_queue_push q e) xs) = [] \<and>
     native_event_queue_next_kind (snd (eq_run (native_event_queue_push q e) xs)) =
       NATIVE_EVENT_RESET \<and>
     eq_list (snd (native_event_queue_take_reset (snd (eq_run (native_event_queue_push q e) xs)))) = []"
proof -
  let ?q = "native_event_queue_push q e"
  have "eq_reset_pending ?q" "eq_count ?q = 0"
    using assms by (simp_all add: native_event_queue_push_def native_event_queue_reset_def)
  from pending_run [OF this assms(3)] show ?thesis
    by (simp add: native_event_queue_next_kind_def native_event_queue_take_reset_def eq_list_def)
qed

theorem overflow_blocks_replay_witness:
  "fst (eq_run (native_event_queue_push (eq_empty\<lparr>eq_count := NATIVE_EVENT_QUEUE_CAPACITY\<rparr>)
     eq_zero_event) [EqPush eq_zero_event, EqPop NATIVE_EVENT_MOUSE]) = []"
  using overflow_blocks_replay [of "eq_empty\<lparr>eq_count := NATIVE_EVENT_QUEUE_CAPACITY\<rparr>"
      "[EqPush eq_zero_event, EqPop NATIVE_EVENT_MOUSE]" eq_zero_event]
  by (simp add: eq_empty_def)

text \<open>
  What pop hands out is the head of the queue: of the kind asked for, not later than any
  event still queued, and older than the start of the last completed device sweep.
\<close>

theorem pop_is_earliest_published:
  assumes "eq_inv q" "native_event_queue_pop q k = Some (e, q')"
  shows "eq_list q = e # eq_list q' \<and> ev_kind e = k \<and>
     (\<forall>x \<in> set (eq_list q'). ev_time e \<le> ev_time x) \<and>
     (eq_publication_bounded q \<longrightarrow> ev_time e < eq_published_before q) \<and> eq_inv q'"
proof -
  have "eq_list q = e # eq_list q' \<and> ev_kind e = k \<and>
      (eq_publication_bounded q \<longrightarrow> ev_time e < eq_published_before q)"
    using pop_list [of q k e q'] assms by (simp add: eq_inv_def)
  with assms pop_inv [OF assms] show ?thesis by (auto simp: eq_inv_def)
qed

theorem pop_is_earliest_published_witness:
  "\<exists>e q'. native_event_queue_pop (native_event_queue_push eq_empty
       (eq_zero_event\<lparr>ev_time := 3, ev_kind := NATIVE_EVENT_MOUSE\<rparr>)) NATIVE_EVENT_MOUSE = Some (e, q') \<and>
     ev_kind e = NATIVE_EVENT_MOUSE \<and> eq_inv q'"
proof -
  let ?q = "native_event_queue_push eq_empty (eq_zero_event\<lparr>ev_time := 3, ev_kind := NATIVE_EVENT_MOUSE\<rparr>)"
  have "\<exists>e q'. native_event_queue_pop ?q NATIVE_EVENT_MOUSE = Some (e, q')"
    by (simp add: native_event_queue_pop_def native_event_queue_next_kind_def
        native_event_queue_push_def eq_empty_def)
  then obtain e q' where p: "native_event_queue_pop ?q NATIVE_EVENT_MOUSE = Some (e, q')"
    by blast
  from pop_is_earliest_published [OF push_inv [OF eq_empty_inv] p] p show ?thesis by blast
qed

end
