(* ===== verification/Fifo.thy ===== *)
theory Fifo
  imports Lg_Prelude
begin

text \<open>
  The contract the program's bounded queues promise their callers: what a queue holds is a
  list, an accepted element goes to its end, an element taken comes from its front, and a
  take fails exactly when the list is empty.  The key queue of the configurator and the access
  unit queue of the camera stream are shown to meet it; the drain and the interleaving lemmas
  are proved here once.
\<close>

text \<open>Takes elements until the queue refuses, at most \<open>n\<close> of them.\<close>

fun drain :: "('q \<Rightarrow> ('a \<times> 'q) option) \<Rightarrow> nat \<Rightarrow> 'q \<Rightarrow> 'a list \<times> 'q" where
  "drain deq 0 q = ([], q)"
| "drain deq (Suc n) q =
     (case deq q of None \<Rightarrow> ([], q)
      | Some (x, q') \<Rightarrow> (case drain deq n q' of (xs, q'') \<Rightarrow> (x # xs, q'')))"

locale bounded_fifo =
  fixes content :: "'q \<Rightarrow> 'a list"
    and inv :: "'q \<Rightarrow> bool"
    and room :: "'q \<Rightarrow> 'a \<Rightarrow> bool"
    and enq :: "'q \<Rightarrow> 'a \<Rightarrow> 'q"
    and deq :: "'q \<Rightarrow> ('a \<times> 'q) option"
  assumes enq_content: "inv q \<Longrightarrow> room q x \<Longrightarrow> content (enq q x) = content q @ [x]"
    and enq_inv: "inv q \<Longrightarrow> inv (enq q x)"
    and deq_None: "inv q \<Longrightarrow> deq q = None \<longleftrightarrow> content q = []"
    and deq_Some: "inv q \<Longrightarrow> deq q = Some (x, q') \<Longrightarrow> content q = x # content q' \<and> inv q'"
begin

lemma drain_all:
  assumes "inv q" "length (content q) \<le> n"
  shows "fst (drain deq n q) = content q \<and> content (snd (drain deq n q)) = [] \<and>
     inv (snd (drain deq n q))"
  using assms
proof (induction n arbitrary: q)
  case 0
  then show ?case by simp
next
  case (Suc n)
  show ?case
  proof (cases "deq q")
    case None
    with Suc.prems deq_None [of q] show ?thesis by simp
  next
    case (Some p)
    obtain x q' where p: "p = (x, q')" by (cases p)
    from deq_Some [of q x q'] Some p Suc.prems
    have "content q = x # content q'" "inv q'" "length (content q') \<le> n" by auto
    with Suc.IH [of q'] Some p show ?thesis by (simp add: case_prod_beta)
  qed
qed

text \<open>Elements accepted one after the other come out in the order they went in.\<close>

lemma enq_then_drain:
  assumes "inv q" "\<forall>i < length xs. room (foldl enq q (take i xs)) (xs ! i)"
  shows "content (foldl enq q xs) = content q @ xs \<and> inv (foldl enq q xs) \<and>
     fst (drain deq (length (content q) + length xs) (foldl enq q xs)) = content q @ xs"
proof -
  have "content (foldl enq q xs) = content q @ xs \<and> inv (foldl enq q xs)"
    using assms
  proof (induction xs rule: rev_induct)
    case (snoc x xs)
    have "\<forall>i < length xs. room (foldl enq q (take i xs)) (xs ! i)"
    proof (intro allI impI)
      fix i assume "i < length xs"
      with snoc.prems(2) [rule_format, of i]
      show "room (foldl enq q (take i xs)) (xs ! i)" by (simp add: nth_append)
    qed
    with snoc have IH: "content (foldl enq q xs) = content q @ xs" "inv (foldl enq q xs)" by auto
    have "room (foldl enq q xs) x" using snoc.prems(2) [rule_format, of "length xs"] by simp
    with IH show ?case by (simp add: enq_content enq_inv)
  qed simp
  then show ?thesis using drain_all [of "foldl enq q xs" "length (content q) + length xs"] by simp
qed

end

end
