(* ===== verification/Key_Queue.thy ===== *)
theory Key_Queue
  imports Fifo
begin

text \<open>
  The key queue of the configurator, \<open>native/src/ui_key_queue.c\<close>: a ring of 1023 slots between
  the SDL event filter and LVGL's keypad driver, with a latch that refuses the rest of a burst
  once one key did not fit, until the caller clears the queue.
\<close>

section \<open>Data and operations\<close>

definition NATIVE_UI_KEY_QUEUE_CAP :: nat where
  "NATIVE_UI_KEY_QUEUE_CAP = 1023"

record NativeUiQueuedKey =
  uk_key :: u32
  uk_state :: u32

record NativeUiKeyQueue =
  kq_events :: "NativeUiQueuedKey list"
  kq_head :: nat
  kq_tail :: nat
  kq_overflowed :: bool

definition native_ui_key_queue_empty :: "NativeUiKeyQueue \<Rightarrow> bool" where
  "native_ui_key_queue_empty q \<longleftrightarrow> kq_head q = kq_tail q"

definition native_ui_key_queue_clear :: "NativeUiKeyQueue \<Rightarrow> NativeUiKeyQueue" where
  "native_ui_key_queue_clear q = q\<lparr>kq_head := 0, kq_tail := 0, kq_overflowed := False\<rparr>"

definition native_ui_key_queue_enqueue ::
    "NativeUiKeyQueue \<Rightarrow> u32 \<Rightarrow> u32 \<Rightarrow> bool \<times> NativeUiKeyQueue" where
  "native_ui_key_queue_enqueue q key state =
     (if kq_overflowed q then (False, q)
      else let next_tail = (kq_tail q + 1) mod NATIVE_UI_KEY_QUEUE_CAP in
        if next_tail = kq_head q then (False, q\<lparr>kq_overflowed := True\<rparr>)
        else (True, q\<lparr>kq_events := (kq_events q)[kq_tail q := \<lparr>uk_key = key, uk_state = state\<rparr>],
                      kq_tail := next_tail\<rparr>))"

definition native_ui_key_queue_dequeue ::
    "NativeUiKeyQueue \<Rightarrow> (NativeUiQueuedKey \<times> NativeUiKeyQueue) option" where
  "native_ui_key_queue_dequeue q =
     (if native_ui_key_queue_empty q then None
      else Some (kq_events q ! kq_head q,
                 q\<lparr>kq_head := (kq_head q + 1) mod NATIVE_UI_KEY_QUEUE_CAP\<rparr>))"

section \<open>Content and invariant\<close>

definition kq_count :: "NativeUiKeyQueue \<Rightarrow> nat" where
  "kq_count q =
     (kq_tail q + NATIVE_UI_KEY_QUEUE_CAP - kq_head q) mod NATIVE_UI_KEY_QUEUE_CAP"

definition kq_content :: "NativeUiKeyQueue \<Rightarrow> NativeUiQueuedKey list" where
  "kq_content q = ring_list NATIVE_UI_KEY_QUEUE_CAP (kq_events q) (kq_head q) (kq_count q)"

definition kq_inv :: "NativeUiKeyQueue \<Rightarrow> bool" where
  "kq_inv q \<longleftrightarrow> length (kq_events q) = NATIVE_UI_KEY_QUEUE_CAP \<and>
     kq_head q < NATIVE_UI_KEY_QUEUE_CAP \<and> kq_tail q < NATIVE_UI_KEY_QUEUE_CAP"

definition kq_room :: "NativeUiKeyQueue \<Rightarrow> bool" where
  "kq_room q \<longleftrightarrow> \<not> kq_overflowed q \<and> kq_count q < NATIVE_UI_KEY_QUEUE_CAP - 1"

definition kq_put :: "NativeUiKeyQueue \<Rightarrow> NativeUiQueuedKey \<Rightarrow> NativeUiKeyQueue" where
  "kq_put q k = snd (native_ui_key_queue_enqueue q (uk_key k) (uk_state k))"

text \<open>Index arithmetic of the ring, with the tail stored instead of the count.\<close>

lemma kq_count_cases:
  assumes "kq_inv q"
  shows "kq_count q = (if kq_head q \<le> kq_tail q then kq_tail q - kq_head q
     else kq_tail q + NATIVE_UI_KEY_QUEUE_CAP - kq_head q)"
proof (cases "kq_head q \<le> kq_tail q")
  case True
  then have "kq_tail q + NATIVE_UI_KEY_QUEUE_CAP - kq_head q =
      (kq_tail q - kq_head q) + NATIVE_UI_KEY_QUEUE_CAP" by simp
  then have "kq_count q = (kq_tail q - kq_head q) mod NATIVE_UI_KEY_QUEUE_CAP"
    by (simp only: kq_count_def mod_add_self2)
  with True assms show ?thesis by (simp add: kq_inv_def less_imp_diff_less)
next
  case False
  with assms have "kq_tail q + NATIVE_UI_KEY_QUEUE_CAP - kq_head q < NATIVE_UI_KEY_QUEUE_CAP"
    unfolding kq_inv_def by linarith
  with False show ?thesis by (simp add: kq_count_def)
qed

lemma wrap_step:
  "t < NATIVE_UI_KEY_QUEUE_CAP \<Longrightarrow> (t + 1) mod NATIVE_UI_KEY_QUEUE_CAP =
     (if t = NATIVE_UI_KEY_QUEUE_CAP - 1 then 0 else t + 1)"
  by (auto simp: NATIVE_UI_KEY_QUEUE_CAP_def)

lemma wrap_count_put:
  "h < NATIVE_UI_KEY_QUEUE_CAP \<Longrightarrow> t < NATIVE_UI_KEY_QUEUE_CAP \<Longrightarrow>
   (t + 1) mod NATIVE_UI_KEY_QUEUE_CAP \<noteq> h \<Longrightarrow>
   (if h \<le> (t + 1) mod NATIVE_UI_KEY_QUEUE_CAP then (t + 1) mod NATIVE_UI_KEY_QUEUE_CAP - h
    else (t + 1) mod NATIVE_UI_KEY_QUEUE_CAP + NATIVE_UI_KEY_QUEUE_CAP - h) =
   Suc (if h \<le> t then t - h else t + NATIVE_UI_KEY_QUEUE_CAP - h)"
  unfolding wrap_step by (cases "t = NATIVE_UI_KEY_QUEUE_CAP - 1") auto

lemma wrap_count_get:
  "h < NATIVE_UI_KEY_QUEUE_CAP \<Longrightarrow> t < NATIVE_UI_KEY_QUEUE_CAP \<Longrightarrow> h \<noteq> t \<Longrightarrow>
   (if (h + 1) mod NATIVE_UI_KEY_QUEUE_CAP \<le> t then t - (h + 1) mod NATIVE_UI_KEY_QUEUE_CAP
    else t + NATIVE_UI_KEY_QUEUE_CAP - (h + 1) mod NATIVE_UI_KEY_QUEUE_CAP) =
   (if h \<le> t then t - h else t + NATIVE_UI_KEY_QUEUE_CAP - h) - 1 \<and>
   0 < (if h \<le> t then t - h else t + NATIVE_UI_KEY_QUEUE_CAP - h)"
  unfolding wrap_step by (cases "h = NATIVE_UI_KEY_QUEUE_CAP - 1") auto

lemma kq_room_iff:
  "kq_inv q \<Longrightarrow> \<not> kq_overflowed q \<Longrightarrow>
   kq_room q \<longleftrightarrow> (kq_tail q + 1) mod NATIVE_UI_KEY_QUEUE_CAP \<noteq> kq_head q"
  using kq_count_cases [of q] wrap_step [of "kq_tail q"]
  by (auto simp: kq_room_def kq_inv_def NATIVE_UI_KEY_QUEUE_CAP_def split: if_splits)

lemma kq_tail_index:
  "kq_inv q \<Longrightarrow> (kq_head q + kq_count q) mod NATIVE_UI_KEY_QUEUE_CAP = kq_tail q"
  using kq_count_cases [of q] by (auto simp: kq_inv_def split: if_splits)

lemma kq_put_room:
  assumes "kq_inv q" "kq_room q"
  shows "kq_content (kq_put q k) = kq_content q @ [k]"
proof -
  have tl: "(kq_tail q + 1) mod NATIVE_UI_KEY_QUEUE_CAP \<noteq> kq_head q"
    using assms kq_room_iff kq_room_def by blast
  let ?q = "kq_put q k"
  have put: "?q = q\<lparr>kq_events := (kq_events q)[kq_tail q := k],
      kq_tail := (kq_tail q + 1) mod NATIVE_UI_KEY_QUEUE_CAP\<rparr>"
    using tl assms by (cases k) (simp add: kq_put_def native_ui_key_queue_enqueue_def kq_room_def)
  have inv: "kq_inv ?q" using assms put by (simp add: kq_inv_def)
  have ends: "kq_tail ?q = (kq_tail q + 1) mod NATIVE_UI_KEY_QUEUE_CAP" "kq_head ?q = kq_head q"
    "kq_events ?q = (kq_events q)[kq_tail q := k]" by (simp_all add: put)
  have cnt: "kq_count ?q = Suc (kq_count q)"
    using wrap_count_put tl assms(1)
    unfolding kq_count_cases [OF inv] kq_count_cases [OF assms(1)] ends kq_inv_def by blast
  have "kq_count q < NATIVE_UI_KEY_QUEUE_CAP" using assms(2) by (auto simp: kq_room_def)
  then have "ring_list NATIVE_UI_KEY_QUEUE_CAP ((kq_events q)[kq_tail q := k]) (kq_head q)
      (Suc (kq_count q)) = kq_content q @ [k]"
    using ring_list_write_tail [of "kq_events q" NATIVE_UI_KEY_QUEUE_CAP "kq_count q" "kq_head q" k]
      assms kq_tail_index [OF assms(1)] by (simp add: kq_content_def kq_inv_def kq_room_def)
  then show ?thesis by (simp only: kq_content_def [of ?q] cnt ends)
qed

lemma kq_put_inv [inv_pres]: "kq_inv q \<Longrightarrow> kq_inv (kq_put q k)"
  by (auto simp: kq_put_def native_ui_key_queue_enqueue_def kq_inv_def Let_def)

lemma kq_empty_iff: "kq_inv q \<Longrightarrow> native_ui_key_queue_empty q \<longleftrightarrow> kq_content q = []"
proof -
  assume inv: "kq_inv q"
  have "kq_content q = [] \<longleftrightarrow> kq_count q = 0"
    by (simp add: kq_content_def flip: length_0_conv)
  also have "\<dots> \<longleftrightarrow> kq_head q = kq_tail q"
    using kq_count_cases [OF inv] inv by (auto simp: kq_inv_def split: if_splits)
  finally show ?thesis by (simp add: native_ui_key_queue_empty_def)
qed

lemma kq_get:
  assumes "kq_inv q" "native_ui_key_queue_dequeue q = Some (k, q')"
  shows "kq_content q = k # kq_content q' \<and> kq_inv q'"
proof -
  have ne: "kq_head q \<noteq> kq_tail q" and k: "k = kq_events q ! kq_head q"
    and q': "q' = q\<lparr>kq_head := (kq_head q + 1) mod NATIVE_UI_KEY_QUEUE_CAP\<rparr>"
    using assms(2)
    by (auto simp: native_ui_key_queue_dequeue_def native_ui_key_queue_empty_def split: if_splits)
  have inv: "kq_inv q'" using assms(1) q' by (simp add: kq_inv_def)
  have ends: "kq_tail q' = kq_tail q" "kq_events q' = kq_events q"
    "kq_head q' = (kq_head q + 1) mod NATIVE_UI_KEY_QUEUE_CAP" by (simp_all add: q')
  have cnt: "kq_count q' = kq_count q - 1 \<and> 0 < kq_count q"
    using wrap_count_get ne assms(1)
    unfolding kq_count_cases [OF inv] kq_count_cases [OF assms(1)] ends kq_inv_def by blast
  have "kq_content q = kq_events q ! kq_head q #
      ring_list NATIVE_UI_KEY_QUEUE_CAP (kq_events q) ((kq_head q + 1) mod NATIVE_UI_KEY_QUEUE_CAP)
        (kq_count q - 1)"
    unfolding kq_content_def using cnt assms(1) by (intro ring_list_head) (simp_all add: kq_inv_def)
  with inv show ?thesis by (simp only: kq_content_def [of q'] cnt ends k)
qed

text \<open>The key queue keeps the contract of a bounded queue.\<close>

interpretation keyq: bounded_fifo kq_content kq_inv "\<lambda>q _. kq_room q" kq_put native_ui_key_queue_dequeue
proof unfold_locales
  show "kq_inv q \<Longrightarrow> native_ui_key_queue_dequeue q = None \<longleftrightarrow> kq_content q = []" for q
    using kq_empty_iff [of q] by (auto simp: native_ui_key_queue_dequeue_def)
qed (auto simp: kq_put_room inv_pres dest: kq_get)

definition kq_zero :: NativeUiKeyQueue where
  "kq_zero = \<lparr>kq_events = replicate NATIVE_UI_KEY_QUEUE_CAP \<lparr>uk_key = 0, uk_state = 0\<rparr>,
     kq_head = 0, kq_tail = 0, kq_overflowed = False\<rparr>"

lemma kq_zero_inv: "kq_inv kq_zero"
  by (simp add: kq_zero_def kq_inv_def NATIVE_UI_KEY_QUEUE_CAP_def)

lemma kq_zero_content: "kq_content kq_zero = []"
  by (simp add: kq_zero_def kq_content_def kq_count_def)

section \<open>Properties\<close>

lemma length_kq_content [simp]: "length (kq_content q) = kq_count q"
  by (simp add: kq_content_def)

lemma kq_put_refused:
  assumes "kq_inv q" "\<not> kq_room q" "kq_count q \<le> NATIVE_UI_KEY_QUEUE_CAP - 1"
  shows "kq_content (kq_put q k) = kq_content q \<and> kq_overflowed (kq_put q k)"
  using assms kq_room_iff [of q]
  by (auto simp: kq_put_def native_ui_key_queue_enqueue_def kq_content_def kq_count_def)

lemma kq_put_latch: "kq_room q \<Longrightarrow> kq_inv q \<Longrightarrow> \<not> kq_overflowed (kq_put q k)"
  using kq_room_iff [of q]
  by (auto simp: kq_put_def native_ui_key_queue_enqueue_def Let_def kq_room_def)

lemma kq_burst:
  "kq_inv (foldl kq_put kq_zero ks) \<and>
   kq_content (foldl kq_put kq_zero ks) = take (NATIVE_UI_KEY_QUEUE_CAP - 1) ks \<and>
   (kq_overflowed (foldl kq_put kq_zero ks) \<longleftrightarrow> NATIVE_UI_KEY_QUEUE_CAP - 1 < length ks)"
proof (induction ks rule: rev_induct)
  case Nil
  then show ?case by (simp add: kq_zero_inv kq_zero_content) (simp add: kq_zero_def)
next
  case (snoc k ks)
  let ?q = "foldl kq_put kq_zero ks"
  have IH: "kq_inv ?q" "kq_content ?q = take (NATIVE_UI_KEY_QUEUE_CAP - 1) ks"
    "kq_overflowed ?q \<longleftrightarrow> NATIVE_UI_KEY_QUEUE_CAP - 1 < length ks" using snoc by auto
  have cnt: "kq_count ?q = min (NATIVE_UI_KEY_QUEUE_CAP - 1) (length ks)"
    using arg_cong [OF IH(2), of length] by (simp add: min.commute)
  show ?case
  proof (cases "kq_room ?q")
    case True
    then have "length ks < NATIVE_UI_KEY_QUEUE_CAP - 1" using cnt by (auto simp: kq_room_def min_def split: if_splits)
    then show ?thesis
      using True IH kq_put_room [OF IH(1) True] kq_put_latch [OF True IH(1)] by (simp add: kq_put_inv)
  next
    case False
    then have "NATIVE_UI_KEY_QUEUE_CAP - 1 \<le> length ks" using cnt IH(3) by (auto simp: kq_room_def)
    then show ?thesis
      using False IH cnt kq_put_refused [OF IH(1) False, of k] by (simp add: kq_put_inv)
  qed
qed

text \<open>
  A burst of keys into the empty key queue leaves exactly its first 1022 keys queued, in
  order, and nothing after the first key that did not fit; the overflow latch is set exactly
  when a key was refused.
\<close>

lemma key_burst_keeps_prefix:
  "kq_content (foldl kq_put kq_zero ks) = take (NATIVE_UI_KEY_QUEUE_CAP - 1) ks \<and>
   (kq_overflowed (foldl kq_put kq_zero ks) \<longleftrightarrow> NATIVE_UI_KEY_QUEUE_CAP - 1 < length ks)"
  using kq_burst by blast

text \<open>
  Whatever the key queue holds, repeated dequeue hands out its keys first in, first out,
  empties it, and then refuses; no array index leaves the 1023 slots.
\<close>

theorem key_queue_drains_in_order:
  assumes "kq_inv q"
  shows "fst (drain native_ui_key_queue_dequeue (kq_count q) q) = kq_content q \<and>
     native_ui_key_queue_dequeue (snd (drain native_ui_key_queue_dequeue (kq_count q) q)) = None"
  using keyq.drain_all [OF assms, of "kq_count q"]
    keyq.deq_None [of "snd (drain native_ui_key_queue_dequeue (kq_count q) q)"] by simp

theorem key_queue_drains_in_order_witness:
  "fst (drain native_ui_key_queue_dequeue (kq_count (kq_put kq_zero \<lparr>uk_key = 13, uk_state = 1\<rparr>))
     (kq_put kq_zero \<lparr>uk_key = 13, uk_state = 1\<rparr>)) = [\<lparr>uk_key = 13, uk_state = 1\<rparr>]"
  using key_queue_drains_in_order [OF kq_put_inv [OF kq_zero_inv], of "\<lparr>uk_key = 13, uk_state = 1\<rparr>"]
    kq_burst [of "[\<lparr>uk_key = 13, uk_state = 1\<rparr>]"]
  by (simp add: NATIVE_UI_KEY_QUEUE_CAP_def)

end
