(* ===== verification/Au_Snapshot.thy ===== *)
theory Au_Snapshot
  imports Lg_Prelude
begin

text \<open>
  The compressed access-unit cache of a background session, \<open>native/src/au_snapshot.c\<close>: the
  newest decoder seed and every access unit after it, packed into one 8 MiB buffer, so that a
  switch back to the session can rebuild the decoder.  The buffer that \<open>malloc\<close> returns (or
  NULL) is an argument of arm; everything else is computed as in the code.
\<close>

section \<open>Data and operations\<close>

definition NATIVE_AU_SNAPSHOT_MAX_BYTES :: nat where
  "NATIVE_AU_SNAPSHOT_MAX_BYTES = 8 * 1024 * 1024"

definition NATIVE_AU_SNAPSHOT_MAX_AUS :: nat where
  "NATIVE_AU_SNAPSHOT_MAX_AUS = 512"

record NativeAuSnapshotEntry =
  ae_offset :: nat
  ae_len :: nat
  ae_pts90k :: u64

record NativeAuSnapshot =
  as_buf :: "bytes option"
  as_used :: nat
  as_entries :: "NativeAuSnapshotEntry list"
  as_count :: nat
  as_armed :: bool
  as_has_decoder_seed :: bool

definition native_au_snapshot_reset :: "NativeAuSnapshot \<Rightarrow> NativeAuSnapshot" where
  "native_au_snapshot_reset s =
     s\<lparr>as_buf := None, as_used := 0, as_count := 0, as_armed := False, as_has_decoder_seed := False\<rparr>"

definition native_au_snapshot_arm ::
    "bytes option \<Rightarrow> NativeAuSnapshot \<Rightarrow> bool \<times> NativeAuSnapshot" where
  "native_au_snapshot_arm mem s =
     (let s = (native_au_snapshot_reset s)\<lparr>as_buf := mem\<rparr> in
      case mem of None \<Rightarrow> (False, s) | Some _ \<Rightarrow> (True, s\<lparr>as_armed := True\<rparr>))"

text \<open>\<open>memcpy(buf + off, data, len)\<close>.\<close>

definition blit :: "bytes \<Rightarrow> nat \<Rightarrow> bytes \<Rightarrow> bytes" where
  "blit buf off data = take off buf @ data @ drop (off + length data) buf"

text \<open>The tail of append: room check, copy, new entry.\<close>

definition snapshot_store ::
    "NativeAuSnapshot \<Rightarrow> bytes \<Rightarrow> u64 \<Rightarrow> bool \<times> NativeAuSnapshot" where
  "snapshot_store s data pts =
     (if length data > NATIVE_AU_SNAPSHOT_MAX_BYTES - as_used s \<or>
         as_count s \<ge> NATIVE_AU_SNAPSHOT_MAX_AUS
      then (False, native_au_snapshot_reset s)
      else (True, s\<lparr>
        as_buf := map_option (\<lambda>b. blit b (as_used s) data) (as_buf s),
        as_entries := (as_entries s)[as_count s :=
          \<lparr>ae_offset = as_used s, ae_len = length data, ae_pts90k = pts\<rparr>],
        as_used := as_used s + length data,
        as_count := as_count s + 1\<rparr>))"

definition native_au_snapshot_append ::
    "NativeAuSnapshot \<Rightarrow> bytes option \<Rightarrow> bool \<Rightarrow> bool \<Rightarrow> u64 \<Rightarrow> bool \<times> NativeAuSnapshot" where
  "native_au_snapshot_append s data valid_au decoder_seed pts =
     (if \<not> as_armed s then (False, s)
      else if \<not> valid_au \<or> data = None \<or> data = Some [] then
        (if \<not> as_has_decoder_seed s then (True, s) else (False, native_au_snapshot_reset s))
      else if decoder_seed then
        snapshot_store (s\<lparr>as_used := 0, as_count := 0, as_has_decoder_seed := True\<rparr>) (the data) pts
      else if \<not> as_has_decoder_seed s then (True, s)
      else snapshot_store s (the data) pts)"

definition native_au_snapshot_ready :: "NativeAuSnapshot \<Rightarrow> bool" where
  "native_au_snapshot_ready s \<longleftrightarrow> as_armed s \<and> as_has_decoder_seed s \<and> as_count s > 0"

section \<open>The chain a replay feeds to the decoder\<close>

definition entry_bytes :: "bytes \<Rightarrow> NativeAuSnapshotEntry \<Rightarrow> bytes" where
  "entry_bytes b e = take (ae_len e) (drop (ae_offset e) b)"

definition snap_chain :: "NativeAuSnapshot \<Rightarrow> (bytes \<times> u64) list" where
  "snap_chain s = (case as_buf s of None \<Rightarrow> []
     | Some b \<Rightarrow> map (\<lambda>e. (entry_bytes b e, ae_pts90k e)) (take (as_count s) (as_entries s)))"

definition snap_inv :: "NativeAuSnapshot \<Rightarrow> bool" where
  "snap_inv s \<longleftrightarrow> length (as_entries s) = NATIVE_AU_SNAPSHOT_MAX_AUS \<and>
     as_count s \<le> NATIVE_AU_SNAPSHOT_MAX_AUS \<and> as_used s \<le> NATIVE_AU_SNAPSHOT_MAX_BYTES \<and>
     (as_has_decoder_seed s \<longleftrightarrow> as_count s > 0) \<and>
     (as_armed s \<longleftrightarrow> as_buf s \<noteq> None) \<and>
     (\<not> as_armed s \<longrightarrow> as_count s = 0 \<and> as_used s = 0) \<and>
     (\<forall>b. as_buf s = Some b \<longrightarrow> length b = NATIVE_AU_SNAPSHOT_MAX_BYTES) \<and>
     (\<forall>i < as_count s. ae_offset (as_entries s ! i) + ae_len (as_entries s ! i) \<le> as_used s) \<and>
     as_used s = sum_list (map ae_len (take (as_count s) (as_entries s)))"

lemma snap_inv_entry:
  "snap_inv s \<Longrightarrow> i < as_count s \<Longrightarrow> ae_offset (as_entries s ! i) + ae_len (as_entries s ! i) \<le> as_used s"
  and snap_inv_max: "snap_inv s \<Longrightarrow> as_used s \<le> NATIVE_AU_SNAPSHOT_MAX_BYTES"
  and snap_inv_len: "snap_inv s \<Longrightarrow> length (as_entries s) = NATIVE_AU_SNAPSHOT_MAX_AUS"
  unfolding snap_inv_def by blast+

text \<open>What append promises: a chain (None when disarmed) and how one access unit changes it.\<close>

definition snap_abs :: "NativeAuSnapshot \<Rightarrow> (bytes \<times> u64) list option" where
  "snap_abs s = (if as_armed s then Some (snap_chain s) else None)"

definition chain_bytes :: "(bytes \<times> u64) list \<Rightarrow> nat" where
  "chain_bytes c = sum_list (map (length \<circ> fst) c)"

definition chain_append :: "(bytes \<times> u64) list option \<Rightarrow> bytes \<Rightarrow> bool \<Rightarrow> bool \<Rightarrow> u64 \<Rightarrow>
    bool \<times> (bytes \<times> u64) list option" where
  "chain_append c d valid seed pts =
     (case c of None \<Rightarrow> (False, None)
      | Some c \<Rightarrow>
        if \<not> valid \<or> d = [] then (if c = [] then (True, Some []) else (False, None))
        else if \<not> seed \<and> c = [] then (True, Some [])
        else let c' = (if seed then [] else c) in
          if chain_bytes c' + length d \<le> NATIVE_AU_SNAPSHOT_MAX_BYTES \<and>
             length c' < NATIVE_AU_SNAPSHOT_MAX_AUS
          then (True, Some (c' @ [(d, pts)])) else (False, None))"

lemma length_blit: "off + length d \<le> length b \<Longrightarrow> length (blit b off d) = length b"
  by (simp add: blit_def)

lemma entry_bytes_blit_new:
  "off \<le> length b \<Longrightarrow> entry_bytes (blit b off d) \<lparr>ae_offset = off, ae_len = length d, ae_pts90k = p\<rparr> = d"
  by (simp add: entry_bytes_def blit_def)

lemma entry_bytes_blit_old:
  assumes "ae_offset e + ae_len e \<le> off" "off \<le> length b"
  shows "entry_bytes (blit b off d) e = entry_bytes b e"
proof -
  have "drop (ae_offset e) (blit b off d) = drop (ae_offset e) (take off b) @ d @ drop (off + length d) b"
    using assms by (simp add: blit_def)
  moreover have "ae_len e \<le> length (drop (ae_offset e) (take off b))" using assms by simp
  ultimately show ?thesis using assms by (simp add: entry_bytes_def drop_take min_def)
qed

lemma snapshot_store_ok:
  assumes inv: "snap_inv (s\<lparr>as_has_decoder_seed := 0 < as_count s\<rparr>)" and arm: "as_armed s"
    and seed: "as_has_decoder_seed s" and d: "d \<noteq> []"
    and fits: "length d \<le> NATIVE_AU_SNAPSHOT_MAX_BYTES - as_used s"
      "as_count s < NATIVE_AU_SNAPSHOT_MAX_AUS"
  shows "\<exists>s'. snapshot_store s d pts = (True, s') \<and> snap_inv s' \<and> as_armed s' \<and>
     snap_chain s' = snap_chain s @ [(d, pts)]"
proof -
  obtain b where b: "as_buf s = Some b" "length b = NATIVE_AU_SNAPSHOT_MAX_BYTES"
    using inv arm by (auto simp: snap_inv_def)
  let ?s = "snd (snapshot_store s d pts)"
  let ?new = "\<lparr>ae_offset = as_used s, ae_len = length d, ae_pts90k = pts\<rparr>"
  have st: "snapshot_store s d pts = (True, ?s)" using fits by (simp add: snapshot_store_def)
  have f: "as_buf ?s = Some (blit b (as_used s) d)" "as_entries ?s = (as_entries s)[as_count s := ?new]"
    "as_used ?s = as_used s + length d" "as_count ?s = Suc (as_count s)" "as_armed ?s"
    "as_has_decoder_seed ?s"
    using fits b arm seed by (simp_all add: snapshot_store_def)
  have le: "as_used s + length d \<le> NATIVE_AU_SNAPSHOT_MAX_BYTES" "as_used s \<le> length b"
    using fits inv b by (auto simp: snap_inv_def)
  have tk: "take (as_count ?s) (as_entries ?s) = take (as_count s) (as_entries s) @ [?new]"
    using fits inv by (simp add: f take_Suc_conv_app_nth snap_inv_def)
  have old: "\<forall>i < as_count s. ae_offset (as_entries s ! i) + ae_len (as_entries s ! i) \<le> as_used s"
    using snap_inv_entry [OF inv] by simp
  then have "map (\<lambda>e. (entry_bytes (blit b (as_used s) d) e, ae_pts90k e)) (take (as_count s) (as_entries s))
      = map (\<lambda>e. (entry_bytes b e, ae_pts90k e)) (take (as_count s) (as_entries s))"
    using le inv by (auto simp: in_set_conv_nth entry_bytes_blit_old snap_inv_def)
  then have ch: "snap_chain ?s = snap_chain s @ [(d, pts)]"
    using entry_bytes_blit_new [OF le(2), of d pts] by (simp add: snap_chain_def f(1) tk b(1))
  have sm: "as_used ?s = sum_list (map ae_len (take (as_count ?s) (as_entries ?s)))"
    using inv by (simp add: tk f(3)) (simp add: snap_inv_def)
  have "\<forall>i < as_count ?s. ae_offset (as_entries ?s ! i) + ae_len (as_entries ?s ! i) \<le> as_used ?s"
    using old fits inv by (auto simp: f less_Suc_eq nth_list_update snap_inv_def)
  then have "snap_inv ?s" unfolding snap_inv_def
    using inv b fits le sm f length_blit [of "as_used s" d b] by (auto simp: snap_inv_def)
  with st ch f show ?thesis by blast
qed

lemma chain_bytes_used:
  assumes "snap_inv s" shows "as_armed s \<Longrightarrow> chain_bytes (snap_chain s) = as_used s"
    and "length (snap_chain s) = as_count s"
proof -
  assume "as_armed s"
  then obtain b where b: "as_buf s = Some b" "length b = NATIVE_AU_SNAPSHOT_MAX_BYTES"
    using assms by (auto simp: snap_inv_def)
  have "min (length b - ae_offset (as_entries s ! i)) (ae_len (as_entries s ! i)) =
      ae_len (as_entries s ! i)" if "i < as_count s" for i
    using snap_inv_entry [OF assms that] snap_inv_max [OF assms] b by simp
  then have "map (length \<circ> fst) (snap_chain s) = map ae_len (take (as_count s) (as_entries s))"
    using b snap_inv_len [OF assms] by (auto simp: snap_chain_def entry_bytes_def in_set_conv_nth)
  then show "chain_bytes (snap_chain s) = as_used s"
    using assms by (simp add: chain_bytes_def snap_inv_def)
qed (use assms in \<open>auto simp: snap_chain_def snap_inv_def split: option.splits\<close>)

lemma snap_reset_inv: "snap_inv s \<Longrightarrow> snap_inv (native_au_snapshot_reset s)"
  by (simp add: snap_inv_def native_au_snapshot_reset_def)

lemma reset_abs [simp]: "snap_abs (native_au_snapshot_reset s) = None"
  by (simp add: snap_abs_def native_au_snapshot_reset_def)

lemma arm_inv:
  assumes "snap_inv s" "mem = Some b \<longrightarrow> length b = NATIVE_AU_SNAPSHOT_MAX_BYTES"
    "mem = None \<or> mem = Some b"
  shows "snap_inv (snd (native_au_snapshot_arm mem s)) \<and>
     snap_abs (snd (native_au_snapshot_arm mem s)) = (if mem = None then None else Some []) \<and>
     fst (native_au_snapshot_arm mem s) = (mem \<noteq> None)"
  using assms snap_reset_inv [OF assms(1)]
  by (auto simp: native_au_snapshot_arm_def snap_inv_def snap_abs_def snap_chain_def
      native_au_snapshot_reset_def)

lemma chain_empty_iff: "snap_inv s \<Longrightarrow> as_armed s \<Longrightarrow> snap_chain s = [] \<longleftrightarrow> \<not> as_has_decoder_seed s"
  using chain_bytes_used(2) [of s] by (auto simp: snap_inv_def)

lemma store_refines:
  assumes "snap_inv (s\<lparr>as_has_decoder_seed := 0 < as_count s\<rparr>)" "as_armed s" "as_has_decoder_seed s"
    "d \<noteq> []"
  shows "snap_inv (snd (snapshot_store s d p)) \<and>
    (fst (snapshot_store s d p), snap_abs (snd (snapshot_store s d p))) =
     (if as_used s + length d \<le> NATIVE_AU_SNAPSHOT_MAX_BYTES \<and> as_count s < NATIVE_AU_SNAPSHOT_MAX_AUS
      then (True, Some (snap_chain s @ [(d, p)])) else (False, None))"
proof (cases "as_used s + length d \<le> NATIVE_AU_SNAPSHOT_MAX_BYTES \<and>
    as_count s < NATIVE_AU_SNAPSHOT_MAX_AUS")
  case True
  then have "length d \<le> NATIVE_AU_SNAPSHOT_MAX_BYTES - as_used s" by linarith
  then obtain s' where "snapshot_store s d p = (True, s') \<and> snap_inv s' \<and> as_armed s' \<and>
      snap_chain s' = snap_chain s @ [(d, p)]"
    using snapshot_store_ok [OF assms, of p] True by blast
  with True show ?thesis by (simp add: snap_abs_def)
next
  case False
  then have "snapshot_store s d p = (False, native_au_snapshot_reset s)"
    using snap_inv_max [OF assms(1)] by (auto simp: snapshot_store_def)
  with False snap_reset_inv [OF assms(1)] show ?thesis
    by (simp add: reset_abs) (simp add: native_au_snapshot_reset_def)
qed

lemma append_refines:
  assumes "snap_inv s"
  shows "snap_inv (snd (native_au_snapshot_append s (Some d) valid seed pts)) \<and>
    (fst (native_au_snapshot_append s (Some d) valid seed pts),
     snap_abs (snd (native_au_snapshot_append s (Some d) valid seed pts))) =
    chain_append (snap_abs s) d valid seed pts"
proof -
  consider "\<not> as_armed s" | "as_armed s" "\<not> valid \<or> d = []"
    | "as_armed s" "valid" "d \<noteq> []" "\<not> seed" "\<not> as_has_decoder_seed s"
    | "as_armed s" "valid" "d \<noteq> []" "seed \<or> as_has_decoder_seed s" by blast
  then show ?thesis
  proof cases
    case 1
    then show ?thesis using assms
      by (simp add: native_au_snapshot_append_def chain_append_def snap_abs_def)
  next
    case 2
    then show ?thesis using assms snap_reset_inv [OF assms] chain_empty_iff [OF assms]
      by (auto simp: native_au_snapshot_append_def chain_append_def snap_abs_def [of s])
  next
    case 3
    then show ?thesis using assms chain_empty_iff [OF assms]
      by (simp add: native_au_snapshot_append_def chain_append_def snap_abs_def)
  next
    case 4
    define t where "t = (if seed then s\<lparr>as_used := 0, as_count := 0, as_has_decoder_seed := True\<rparr> else s)"
    have app: "native_au_snapshot_append s (Some d) valid seed pts = snapshot_store t d pts"
      using 4 by (auto simp: native_au_snapshot_append_def t_def)
    have inv: "snap_inv (t\<lparr>as_has_decoder_seed := 0 < as_count t\<rparr>)"
      using assms 4 by (auto simp: snap_inv_def t_def)
    have ch: "snap_chain t = (if seed then [] else snap_chain s)" "as_armed t" "as_has_decoder_seed t"
      using 4 by (auto simp: snap_chain_def t_def split: option.splits)
    have used: "as_used t = chain_bytes (snap_chain t)" "as_count t = length (snap_chain t)"
      using chain_bytes_used [OF assms] 4 ch(1) by (auto simp: chain_bytes_def t_def)
    have spec: "chain_append (snap_abs s) d valid seed pts =
        (if as_used t + length d \<le> NATIVE_AU_SNAPSHOT_MAX_BYTES \<and> as_count t < NATIVE_AU_SNAPSHOT_MAX_AUS
         then (True, Some (snap_chain t @ [(d, pts)])) else (False, None))"
      using 4 chain_empty_iff [OF assms] unfolding used ch(1)
      by (cases seed) (simp_all add: chain_append_def snap_abs_def Let_def)
    show ?thesis
      using store_refines [OF inv ch(2,3) 4(3), of pts] unfolding app spec by simp
  qed
qed

lemma append_ok:
  assumes "snap_inv s" "chain_append (snap_abs s) d v seed p = (True, Some c)"
  shows "\<exists>s'. native_au_snapshot_append s (Some d) v seed p = (True, s') \<and> snap_inv s' \<and>
    snap_abs s' = Some c"
  using append_refines [OF assms(1), of d v seed p] assms(2)
  by (metis prod.collapse prod.inject)


definition snap_zero :: NativeAuSnapshot where
  "snap_zero = \<lparr>as_buf = None, as_used = 0,
     as_entries = replicate NATIVE_AU_SNAPSHOT_MAX_AUS \<lparr>ae_offset = 0, ae_len = 0, ae_pts90k = 0\<rparr>,
     as_count = 0, as_armed = False, as_has_decoder_seed = False\<rparr>"

lemma snap_zero_inv: "snap_inv snap_zero"
  by (simp add: snap_inv_def snap_zero_def)


text \<open>A background worker's appends, one access unit (bytes, is seed, timestamp) after another.\<close>

fun append_all :: "NativeAuSnapshot \<Rightarrow> (bytes \<times> bool \<times> u64) list \<Rightarrow> bool \<times> NativeAuSnapshot" where
  "append_all s [] = (True, s)"
| "append_all s ((d, seed, pts) # aus) =
     (case native_au_snapshot_append s (Some d) True seed pts of
        (False, s') \<Rightarrow> (False, s')
      | (True, s') \<Rightarrow> append_all s' aus)"

definition no_seed :: "(bytes \<times> bool \<times> u64) list \<Rightarrow> bool" where
  "no_seed aus \<longleftrightarrow> list_all (\<lambda>(d, seed, p). \<not> seed) aus"

definition chain_of :: "(bytes \<times> bool \<times> u64) list \<Rightarrow> (bytes \<times> u64) list" where
  "chain_of aus = map (\<lambda>(d, seed, p). (d, p)) aus"

lemma no_seed_simps [simp]: "no_seed []" "no_seed ((d, seed, p) # aus) \<longleftrightarrow> \<not> seed \<and> no_seed aus"
  and chain_of_simps [simp]: "chain_of [] = []" "chain_of ((d, seed, p) # aus) = (d, p) # chain_of aus"
  by (simp_all add: no_seed_def chain_of_def)

lemma append_all_chain:
  assumes "snap_inv s" "as_armed s" "append_all s aus = (True, s')" "\<forall>(d, _) \<in> set aus. d \<noteq> []"
  shows "as_armed s' \<and> snap_inv s' \<and>
    (snap_chain s' = snap_chain s @ chain_of aus \<and> snap_chain s \<noteq> [] \<and> no_seed aus \<or>
     snap_chain s' = [] \<and> snap_chain s = [] \<and> no_seed aus \<or>
     (\<exists>pre d p post. aus = pre @ (d, True, p) # post \<and> no_seed post \<and>
       snap_chain s' = (d, p) # chain_of post))"
  using assms
proof (induction aus arbitrary: s)
  case Nil
  then show ?case by auto
next
  case (Cons a aus)
  obtain d seed p where a: "a = (d, seed, p)" by (cases a)
  let ?r = "native_au_snapshot_append s (Some d) True seed p"
  define t where "t = snd ?r"
  have r: "?r = (True, t)" "append_all t aus = (True, s')" "d \<noteq> []" "\<forall>(d, _) \<in> set aus. d \<noteq> []"
    using Cons.prems a by (auto simp: t_def split: prod.splits bool.splits)
  have inv: "snap_inv t" and arm: "as_armed t"
    and ch: "snap_chain t = (if \<not> seed \<and> snap_chain s = [] then []
       else (if seed then [] else snap_chain s) @ [(d, p)])"
    using append_refines [OF Cons.prems(1), of d True seed p] r(1,3) Cons.prems(2)
    by (auto simp: chain_append_def snap_abs_def Let_def split: if_splits)
  note IH = Cons.IH [OF inv arm r(2,4)]
  show ?case
  proof (cases "\<exists>pre d p post. aus = pre @ (d, True, p) # post \<and> no_seed post \<and>
       snap_chain s' = (d, p) # chain_of post")
    case True
    then have "\<exists>pre d p post. a # aus = pre @ (d, True, p) # post \<and> no_seed post \<and>
       snap_chain s' = (d, p) # chain_of post" by (metis append_Cons)
    then show ?thesis using IH by blast
  next
    case False
    with IH have both: "no_seed aus" "as_armed s'" "snap_inv s'"
      "snap_chain s' = (if snap_chain t = [] then [] else snap_chain t @ chain_of aus)" by auto
    show ?thesis
    proof (cases seed)
      case True
      then have "a # aus = [] @ (d, True, p) # aus" "snap_chain s' = (d, p) # chain_of aus"
        using both ch a by auto
      then show ?thesis using both by blast
    next
      case False
      then show ?thesis using both ch a by auto
    qed
  qed
qed

text \<open>
  C8: what a replay feeds the decoder.  After any sequence of well-formed access units that did
  not void an armed snapshot, the cached chain is empty if no unit was a seed, and otherwise it
  is byte for byte the latest seed followed by every unit received after it.
\<close>

theorem snapshot_replays_since_latest_seed:
  assumes "snap_inv s" "as_armed s" "snap_chain s = []"
    and "append_all s aus = (True, s')" "\<forall>(d, _) \<in> set aus. d \<noteq> []"
  shows "(snap_chain s' = [] \<and> \<not> native_au_snapshot_ready s' \<and> no_seed aus) \<or>
    (\<exists>pre d p post. aus = pre @ (d, True, p) # post \<and> no_seed post \<and>
       native_au_snapshot_ready s' \<and> snap_chain s' = (d, p) # chain_of post)"
proof -
  note c = append_all_chain [OF assms(1,2,4,5)]
  then have s': "snap_inv s'" "as_armed s'" by auto
  have "native_au_snapshot_ready s' \<longleftrightarrow> snap_chain s' \<noteq> []"
    using chain_empty_iff [OF s'] s' by (auto simp: native_au_snapshot_ready_def snap_inv_def)
  with c assms(3) show ?thesis by auto
qed

theorem snapshot_replays_since_latest_seed_witness:
  "\<exists>s'. append_all (snd (native_au_snapshot_arm (Some (replicate NATIVE_AU_SNAPSHOT_MAX_BYTES 0)) snap_zero))
      [([1], False, 1), ([2], True, 2), ([3], False, 3)] = (True, s') \<and>
    snap_chain s' = [([2], 2), ([3], 3)]"
proof -
  let ?s = "snd (native_au_snapshot_arm (Some (replicate NATIVE_AU_SNAPSHOT_MAX_BYTES 0)) snap_zero)"
  have s: "snap_inv ?s" "snap_abs ?s = Some []"
    using arm_inv [OF snap_zero_inv, of _ "replicate NATIVE_AU_SNAPSHOT_MAX_BYTES 0"] by auto
  have big: "2 \<le> NATIVE_AU_SNAPSHOT_MAX_BYTES" "2 \<le> NATIVE_AU_SNAPSHOT_MAX_AUS"
    by (simp_all add: NATIVE_AU_SNAPSHOT_MAX_BYTES_def NATIVE_AU_SNAPSHOT_MAX_AUS_def)
  obtain s1 where s1: "native_au_snapshot_append ?s (Some [1]) True False 1 = (True, s1)"
    "snap_inv s1" "snap_abs s1 = Some []"
    using append_ok [OF s(1), of "[1]" True False 1 "[]"] s(2) by (auto simp: chain_append_def)
  obtain s2 where s2: "native_au_snapshot_append s1 (Some [2]) True True 2 = (True, s2)"
    "snap_inv s2" "snap_abs s2 = Some [([2], 2)]"
    using append_ok [OF s1(2), of "[2]" True True 2 "[([2], 2)]"] s1(3) big
    by (auto simp: chain_append_def chain_bytes_def)
  obtain s3 where s3: "native_au_snapshot_append s2 (Some [3]) True False 3 = (True, s3)"
    "snap_inv s3" "snap_abs s3 = Some [([2], 2), ([3], 3)]"
    using append_ok [OF s2(2), of "[3]" True False 3 "[([2], 2), ([3], 3)]"] s2(3) big
    by (auto simp: chain_append_def chain_bytes_def)
  have run: "append_all ?s [([1], False, 1), ([2], True, 2), ([3], False, 3)] = (True, s3)"
    using s1 s2 s3 by simp
  have "as_armed ?s" "snap_chain ?s = []" using s(2) by (auto simp: snap_abs_def split: if_splits)
  from snapshot_replays_since_latest_seed [OF s(1) this run] s3(3) run show ?thesis
    by (auto simp: snap_abs_def split: if_splits)
qed

end
