(* ===== verification/Start_Code.thy ===== *)
theory Start_Code
  imports Lg_Prelude
begin

text \<open>
  Annex-B start codes, and the contract both start-code finders of the program meet (the H.264
  and the HEVC scanner carry a copy of the same pair of functions): the finder returns the first
  position from \<open>pos\<close> on at which a three- or four-byte start code begins.
\<close>

section \<open>Start codes, on lists\<close>

text \<open>The first start code of a list: its offset and length, three-byte codes first.\<close>

fun sc_list :: "bytes \<Rightarrow> (nat \<times> nat) option" where
  "sc_list [] = None"
| "sc_list (x # xs) =
     (if take 3 (x # xs) = [0, 0, 1] then Some (0, 3)
      else if take 4 (x # xs) = [0, 0, 0, 1] then Some (0, 4)
      else map_option (\<lambda>(o', n). (Suc o', n)) (sc_list xs))"

text \<open>No three-byte start code inside (and so no four-byte one).\<close>

definition start_code_free :: "bytes \<Rightarrow> bool" where
  "start_code_free n \<longleftrightarrow> (\<nexists>a b. n = a @ [0, 0, 1] @ b)"

lemma take_eq_nth:
  "length ys = k \<Longrightarrow> take k xs = ys \<longleftrightarrow> k \<le> length xs \<and> (\<forall>i < k. xs ! i = ys ! i)"
  by (auto simp: list_eq_iff_nth_eq min_def)

lemma all_less_4: "(\<forall>i < 4. P i) \<longleftrightarrow> P 0 \<and> P 1 \<and> P 2 \<and> P (3::nat)"
  and all_less_3: "(\<forall>i < 3. P i) \<longleftrightarrow> P 0 \<and> P 1 \<and> P (2::nat)"
  by (auto simp: numeral_eq_Suc less_Suc_eq)

lemma sc_list_short: "length xs < 3 \<Longrightarrow> sc_list xs = None"
  by (induction xs) auto

lemma start_code_free_Cons:
  "start_code_free (x # n) \<longleftrightarrow> take 3 (x # n) \<noteq> [0, 0, 1] \<and> start_code_free n"
proof -
  have "(\<exists>a b. x # n = a @ [0, 0, 1] @ b) \<longleftrightarrow>
      (\<exists>b. x # n = [0, 0, 1] @ b) \<or> (\<exists>a b. n = a @ [0, 0, 1] @ b)"
    by (auto simp: Cons_eq_append_conv)
  moreover have "(\<exists>b. x # n = [0, 0, 1] @ b) \<longleftrightarrow> take 3 (x # n) = [0, 0, 1]"
  proof
    assume "take 3 (x # n) = [0, 0, 1]"
    then have "x # n = [0, 0, 1] @ drop 3 (x # n)" using append_take_drop_id [of 3 "x # n"] by simp
    then show "\<exists>b. x # n = [0, 0, 1] @ b" by blast
  qed auto
  ultimately show ?thesis unfolding start_code_free_def by blast
qed

lemma sc_list_None: "sc_list n = None \<longleftrightarrow> start_code_free n"
proof (induction n)
  case Nil
  show ?case by (simp add: start_code_free_def)
next
  case (Cons x n)
  have "take 4 (x # n) = [0, 0, 0, 1] \<Longrightarrow> \<not> start_code_free n"
    by (cases n) (auto simp: start_code_free_Cons)
  with Cons show ?case by (auto simp: start_code_free_Cons)
qed

lemma sc_list_append_code:
  "sc_list n = None \<Longrightarrow> sc_list (n @ [0, 0, 0, 1] @ rest) = Some (length n, 4)"
proof (induction n)
  case (Cons x n)
  have "take 3 (x # n @ [0, 0, 0, 1] @ rest) \<noteq> [0, 0, 1] \<and>
      take 4 (x # n @ [0, 0, 0, 1] @ rest) \<noteq> [0, 0, 0, 1]"
  proof (cases "3 \<le> length n")
    case True
    then show ?thesis using Cons.prems by (simp add: take_Cons' split: if_splits)
  next
    case False
    then consider "n = []" | y where "n = [y]" | y z where "n = [y, z]"
      by (cases n; cases "tl n"; cases "tl (tl n)") auto
    then show ?thesis using Cons.prems by cases auto
  qed
  with Cons show ?case by (simp split: if_splits)
qed simp

lemma last_split:
  "(\<exists>b i a. ns @ [n] = b @ i # a \<and> P b i) \<longleftrightarrow> P ns n \<or> (\<exists>b i a. ns = b @ i # a \<and> P b i)"
proof
  assume "\<exists>b i a. ns @ [n] = b @ i # a \<and> P b i"
  then obtain b i a where e: "ns @ [n] = b @ i # a" "P b i" by blast
  then show "P ns n \<or> (\<exists>b i a. ns = b @ i # a \<and> P b i)"
    by (cases a rule: rev_cases) (auto simp flip: append_assoc append_Cons)
qed (use append_Cons append_assoc in \<open>metis append_Nil\<close>)

section \<open>The finder's contract\<close>

locale annexb_finder =
  fixes prefix_at :: "bytes \<Rightarrow> nat \<Rightarrow> nat option"
    and find_prefix :: "bytes \<Rightarrow> nat \<Rightarrow> (nat \<times> nat) option"
  assumes prefix_at_eq: "prefix_at data pos =
      (if pos + 3 \<le> length data \<and> data ! pos = 0 \<and> data ! (pos + 1) = 0 \<and> data ! (pos + 2) = 1
       then Some 3
       else if pos + 4 \<le> length data \<and> data ! pos = 0 \<and> data ! (pos + 1) = 0 \<and>
               data ! (pos + 2) = 0 \<and> data ! (pos + 3) = 1
       then Some 4 else None)"
    and find_eq: "find_prefix data pos =
      (if pos + 3 \<le> length data then
         case prefix_at data pos of Some n \<Rightarrow> Some (pos, n) | None \<Rightarrow> find_prefix data (pos + 1)
       else None)"
begin

lemma prefix_at_drop:
  "prefix_at data pos =
     (if take 3 (drop pos data) = [0, 0, 1] then Some 3
      else if take 4 (drop pos data) = [0, 0, 0, 1] then Some 4 else None)"
  by (auto simp: prefix_at_eq take_eq_nth all_less_3 all_less_4 less_diff_conv le_diff_conv2)

lemma find_is_sc_list:
  "find_prefix data pos = map_option (\<lambda>(o', n). (pos + o', n)) (sc_list (drop pos data))"
proof (induction "length data - pos" arbitrary: pos rule: less_induct)
  case less
  show ?case
  proof (cases "pos + 3 \<le> length data")
    case False
    then show ?thesis by (subst find_eq) (simp add: sc_list_short)
  next
    case True
    then have x: "drop pos data = data ! pos # drop (Suc pos) data"
      by (intro Cons_nth_drop_Suc [symmetric]) simp
    show ?thesis using True less [of "pos + 1"]
      by (subst find_eq) (auto simp: prefix_at_drop x option.map_comp comp_def case_prod_unfold)
  qed
qed

lemma find_bounds:
  assumes "find_prefix data pos = Some (p, n)"
  shows "pos \<le> p \<and> p + n \<le> length data \<and> 3 \<le> n"
proof -
  have sc: "sc_list xs = Some (q, n) \<Longrightarrow> q + n \<le> length xs \<and> 3 \<le> n" for xs q
  proof (induction xs arbitrary: q)
    case (Cons x xs)
    have "length (take 3 (x # xs)) = 3 \<Longrightarrow> 3 \<le> Suc (length xs)"
      "length (take 4 (x # xs)) = 4 \<Longrightarrow> 4 \<le> Suc (length xs)" by auto
    with Cons show ?case by (fastforce split: if_splits)
  qed simp
  from assms obtain q where q: "sc_list (drop pos data) = Some (q, n)" "p = pos + q"
    by (auto simp: find_is_sc_list)
  from sc [OF q(1)] have "q + n \<le> length data - pos" "3 \<le> n" by simp_all
  then show ?thesis using q(2) by linarith
qed

lemma find_at_code:
  "data = pre @ [0, 0, 0, 1] @ rest \<Longrightarrow> find_prefix data (length pre) = Some (length pre, 4)"
  by (simp add: find_is_sc_list)

lemma find_at_end: "find_prefix data (length data) = None"
  by (simp add: find_is_sc_list)

text \<open>The bound of a NAL that begins right after a start code, in a framed sequence.\<close>

lemma next_bound:
  assumes "data = pre @ n @ rest" "start_code_free n" "rest = [] \<or> (\<exists>r. rest = [0, 0, 0, 1] @ r)"
  shows "(case find_prefix data (length pre) of Some (p, _) \<Rightarrow> p | None \<Rightarrow> length data) =
    length pre + length n"
  using assms sc_list_append_code [of n] sc_list_None [of n]
  by (auto simp: find_is_sc_list)

end

end
