(* ===== verification/H264_Annexb.thy ===== *)
theory H264_Annexb
  imports Start_Code
begin

text \<open>
  H.264 access-unit framing, \<open>native/src/h264_annexb.c\<close>: the AVC (length-prefixed) scanner and
  size check, the Annex-B (start-code) scanner, the NAL classification both share, and the
  conversion from AVC to Annex-B.  Buffers are byte lists, offsets are \<open>nat\<close>; \<open>SIZE_MAX\<close> is the
  32-bit target's.
\<close>

section \<open>Data\<close>

definition SIZE_MAX :: nat where "SIZE_MAX = 2 ^ 32 - 1"

definition NATIVE_H264_MAX_AU_BYTES :: nat where
  "NATIVE_H264_MAX_AU_BYTES = 32 * 1024 * 1024"

datatype NativeH264Result = NATIVE_H264_OK | NATIVE_H264_INVALID | NATIVE_H264_OUTPUT_TOO_SMALL

text \<open>A NAL view is the bytes it borrows; None is the zeroed view.\<close>

record NativeH264Info =
  hi_starts_with_annexb_start_code :: bool
  hi_has_vcl :: bool
  hi_has_sps :: bool
  hi_has_pps :: bool
  hi_has_idr :: bool
  hi_can_seed_decoder :: bool
  hi_nal_count :: nat
  hi_sps :: "bytes option"
  hi_pps :: "bytes option"

definition h264_info_zero :: NativeH264Info where
  "h264_info_zero = \<lparr>hi_starts_with_annexb_start_code = False, hi_has_vcl = False,
     hi_has_sps = False, hi_has_pps = False, hi_has_idr = False, hi_can_seed_decoder = False,
     hi_nal_count = 0, hi_sps = None, hi_pps = None\<rparr>"

section \<open>Operations\<close>

unbundle bit_operations_syntax

definition read_be32 :: "bytes \<Rightarrow> nat \<Rightarrow> u32" where
  "read_be32 p i = push_bit 24 (ucast (p ! i)) OR push_bit 16 (ucast (p ! (i + 1))) OR
     push_bit 8 (ucast (p ! (i + 2))) OR ucast (p ! (i + 3))"

definition scan_nal :: "bytes \<Rightarrow> NativeH264Info \<Rightarrow> bool \<times> NativeH264Info" where
  "scan_nal nal info =
     (if nal = [] \<or> nal ! 0 AND 0x80 \<noteq> 0 then (False, info)
      else let nal_type = nal ! 0 AND 0x1f in
        if nal_type = 0 then (False, info)
        else let info = (if nal_type \<ge> 1 \<and> nal_type \<le> 5 then info\<lparr>hi_has_vcl := True\<rparr> else info) in
          (True,
           if nal_type = 7 then info\<lparr>hi_has_sps := True, hi_sps := Some nal\<rparr>
           else if nal_type = 8 then info\<lparr>hi_has_pps := True, hi_pps := Some nal\<rparr>
           else if nal_type = 5 then
             info\<lparr>hi_has_idr := True,
               hi_can_seed_decoder := hi_can_seed_decoder info \<or> (hi_has_sps info \<and> hi_has_pps info)\<rparr>
           else info))"

definition count_nal :: "NativeH264Info \<Rightarrow> NativeH264Info" where
  "count_nal info = info\<lparr>hi_nal_count := hi_nal_count info + 1\<rparr>"

function avc_size_loop :: "bytes \<Rightarrow> nat \<Rightarrow> NativeH264Info \<Rightarrow> nat \<Rightarrow>
    NativeH264Result \<times> NativeH264Info \<times> nat" where
  "avc_size_loop data pos info out =
     (if pos < length data then
        if length data - pos < 4 then (NATIVE_H264_INVALID, info, out)
        else
          let nal_len = unat (read_be32 data pos) in
          if nal_len = 0 \<or> nal_len > length data - (pos + 4) then (NATIVE_H264_INVALID, info, out)
          else if SIZE_MAX - out < 4 \<or> SIZE_MAX - out - 4 < nal_len
          then (NATIVE_H264_INVALID, info, out)
          else
            let r = scan_nal (take nal_len (drop (pos + 4) data)) info in
            if \<not> fst r then (NATIVE_H264_INVALID, snd r, out)
            else avc_size_loop data (pos + 4 + nal_len) (count_nal (snd r)) (out + (4 + nal_len))
      else if hi_nal_count info = 0 then (NATIVE_H264_INVALID, info, out)
      else (NATIVE_H264_OK, info, out))"
  by pat_completeness auto
termination
  by (relation "measure (\<lambda>(data, pos, info, out). length data - pos)") auto

definition native_h264_avc_annexb_size :: "bytes \<Rightarrow> NativeH264Result \<times> NativeH264Info \<times> nat" where
  "native_h264_avc_annexb_size data = avc_size_loop data 0 h264_info_zero 0"

definition native_h264_scan_avc :: "bytes \<Rightarrow> NativeH264Result \<times> NativeH264Info" where
  "native_h264_scan_avc data =
     (let (r, info, _) = native_h264_avc_annexb_size data in (r, info))"

definition annexb_prefix_at :: "bytes \<Rightarrow> nat \<Rightarrow> nat option" where
  "annexb_prefix_at data pos =
     (if pos + 3 \<le> length data \<and> data ! pos = 0 \<and> data ! (pos + 1) = 0 \<and> data ! (pos + 2) = 1
      then Some 3
      else if pos + 4 \<le> length data \<and> data ! pos = 0 \<and> data ! (pos + 1) = 0 \<and>
              data ! (pos + 2) = 0 \<and> data ! (pos + 3) = 1
      then Some 4
      else None)"

function find_annexb_prefix :: "bytes \<Rightarrow> nat \<Rightarrow> (nat \<times> nat) option" where
  "find_annexb_prefix data pos =
     (if pos + 3 \<le> length data then
        case annexb_prefix_at data pos of
          Some n \<Rightarrow> Some (pos, n)
        | None \<Rightarrow> find_annexb_prefix data (pos + 1)
      else None)"
  by pat_completeness auto
termination
  by (relation "measure (\<lambda>(data, pos). length data - pos)") auto

declare avc_size_loop.simps [simp del] find_annexb_prefix.simps [simp del]

lemma find_annexb_prefix_bounds:
  "find_annexb_prefix data pos = Some (p, n) \<Longrightarrow>
   pos \<le> p \<and> p + n \<le> length data \<and> 3 \<le> n \<and> annexb_prefix_at data p = Some n"
proof (induction data pos rule: find_annexb_prefix.induct)
  case (1 data pos)
  then show ?case
    using find_annexb_prefix.simps [of data pos]
    by (fastforce simp: annexb_prefix_at_def split: if_splits option.splits)
qed

text \<open>
  The scan loop.  The next prefix, or the end of the buffer, bounds the NAL; the loop goes on
  from there.
\<close>

definition next_prefix_pos :: "bytes \<Rightarrow> nat \<Rightarrow> nat" where
  "next_prefix_pos data nal_start =
     (case find_annexb_prefix data nal_start of Some (p, _) \<Rightarrow> p | None \<Rightarrow> length data)"

function annexb_scan_loop :: "bytes \<Rightarrow> nat \<Rightarrow> NativeH264Info \<Rightarrow>
    NativeH264Result \<times> NativeH264Info" where
  "annexb_scan_loop data pos info =
     (case find_annexb_prefix data pos of
        None \<Rightarrow> (if hi_nal_count info = 0 then NATIVE_H264_INVALID else NATIVE_H264_OK, info)
      | Some (prefix_pos, prefix_len) \<Rightarrow>
        let info = (if hi_nal_count info = 0
              then info\<lparr>hi_starts_with_annexb_start_code := (prefix_pos = 0)\<rparr> else info);
            nal_start = prefix_pos + prefix_len;
            next = next_prefix_pos data nal_start in
        if nal_start \<ge> next then (NATIVE_H264_INVALID, info)
        else let r = scan_nal (take (next - nal_start) (drop nal_start data)) info in
          if \<not> fst r then (NATIVE_H264_INVALID, snd r)
          else annexb_scan_loop data next (count_nal (snd r)))"
  by pat_completeness auto
termination
  by (relation "measure (\<lambda>(data, pos, info). length data - pos)")
    (auto dest!: find_annexb_prefix_bounds)

declare annexb_scan_loop.simps [simp del]

definition native_h264_scan_annexb :: "bytes \<Rightarrow> NativeH264Result \<times> NativeH264Info" where
  "native_h264_scan_annexb data = annexb_scan_loop data 0 h264_info_zero"

definition native_h264_scan_au :: "bytes \<Rightarrow> NativeH264Result \<times> NativeH264Info" where
  "native_h264_scan_au data =
     (let r = native_h264_scan_avc data in
      if fst r = NATIVE_H264_OK then r else native_h264_scan_annexb data)"

text \<open>The copy loop; the result is what has been written to the output so far.\<close>

function avc_copy_loop :: "bytes \<Rightarrow> nat \<Rightarrow> bytes \<Rightarrow> bytes" where
  "avc_copy_loop data pos out =
     (if pos < length data then
        let nal_len = unat (read_be32 data pos) in
        avc_copy_loop data (pos + 4 + nal_len)
          (out @ [0, 0, 0, 1] @ take nal_len (drop (pos + 4) data))
      else out)"
  by pat_completeness auto
termination
  by (relation "measure (\<lambda>(data, pos, out). length data - pos)") auto

declare avc_copy_loop.simps [simp del]

definition native_h264_avc_to_annexb :: "bytes \<Rightarrow> nat \<Rightarrow> NativeH264Result \<times> bytes" where
  "native_h264_avc_to_annexb data out_cap =
     (let (size_result, _, needed) = native_h264_avc_annexb_size data in
      if size_result \<noteq> NATIVE_H264_OK then (size_result, [])
      else if needed > out_cap then (NATIVE_H264_OUTPUT_TOO_SMALL, [])
      else let out = avc_copy_loop data 0 [] in
        (if out = [] then NATIVE_H264_INVALID else NATIVE_H264_OK, out))"

definition native_h264_annexb_is_keyframe :: "bytes \<Rightarrow> bool" where
  "native_h264_annexb_is_keyframe data =
     (if length data < 4 then False
      else let (r, info) = native_h264_scan_annexb data in
        if r \<noteq> NATIVE_H264_OK then False else hi_can_seed_decoder info)"

section \<open>Framed NAL sequences\<close>

definition nal_ok :: "bytes \<Rightarrow> bool" where
  "nal_ok n \<longleftrightarrow> n \<noteq> [] \<and> n ! 0 AND 0x80 = 0 \<and> n ! 0 AND 0x1f \<noteq> 0"

definition be32 :: "nat \<Rightarrow> bytes" where
  "be32 n = [word_of_nat (n div 2 ^ 24), word_of_nat (n div 2 ^ 16), word_of_nat (n div 2 ^ 8),
     word_of_nat n]"

definition avc_frame :: "bytes list \<Rightarrow> bytes" where
  "avc_frame nals = concat (map (\<lambda>n. be32 (length n) @ n) nals)"

definition annexb_frame :: "bytes list \<Rightarrow> bytes" where
  "annexb_frame nals = concat (map (\<lambda>n. [0, 0, 0, 1] @ n) nals)"

definition classify :: "bytes list \<Rightarrow> NativeH264Info \<Rightarrow> NativeH264Info" where
  "classify nals info = foldl (\<lambda>i n. count_nal (snd (scan_nal n i))) info nals"

lemma fst_scan_nal [simp]: "fst (scan_nal n info) = nal_ok n"
  by (auto simp: scan_nal_def nal_ok_def Let_def)

lemma avc_frame_simps [simp]:
  "avc_frame [] = []" "avc_frame (n # ns) = be32 (length n) @ n @ avc_frame ns"
  and annexb_frame_simps [simp]:
  "annexb_frame [] = []" "annexb_frame (n # ns) = [0, 0, 0, 1] @ n @ annexb_frame ns"
  and classify_simps [simp]: "classify [] info = info"
  "classify (n # ns) info = classify ns (count_nal (snd (scan_nal n info)))"
  and length_be32 [simp]: "length (be32 k) = 4"
  by (simp_all add: avc_frame_def annexb_frame_def classify_def be32_def)

text \<open>Big-endian lengths: what \<open>read_be32\<close> reads is the number the four bytes spell.\<close>

lemma or_add_bits:
  assumes "\<And>n. bit x n \<Longrightarrow> n < k"
  shows "push_bit k y OR x = push_bit k y + (x :: 'a :: len word)"
  by (rule disjunctive_add [symmetric]) (use assms in \<open>auto simp: bit_push_bit_iff\<close>, metis leD)

lemma bit_u8: "bit (x :: u8) n \<Longrightarrow> n < 8"
  by (simp add: bit_imp_le_length[of x n, simplified])
lemma be_bits1:
  "bit (push_bit 8 (ucast c) OR ucast (d :: u8) :: u32) n \<Longrightarrow> n < 16" for c :: u8
  by (auto simp: bit_or_iff bit_push_bit_iff bit_ucast_iff dest: bit_u8)
lemma be_bits2:
  "bit (push_bit 16 (ucast b) OR push_bit 8 (ucast c) OR ucast (d :: u8) :: u32) n \<Longrightarrow> n < 24" for b c :: u8
  by (auto simp: bit_or_iff bit_push_bit_iff bit_ucast_iff dest: bit_u8)

lemma or_shift_add:
  fixes a b c d :: u8
  shows "unat (push_bit 24 (ucast a) OR push_bit 16 (ucast b) OR push_bit 8 (ucast c) OR ucast d :: u32)
    = unat a * 2 ^ 24 + unat b * 2 ^ 16 + unat c * 2 ^ 8 + unat d"
proof -
  have s: "push_bit 24 (ucast a) OR push_bit 16 (ucast b) OR push_bit 8 (ucast c) OR ucast d =
      (push_bit 24 (ucast a) :: u32) + (push_bit 16 (ucast b) OR push_bit 8 (ucast c) OR ucast d)"
    "push_bit 16 (ucast b) OR push_bit 8 (ucast c) OR ucast d =
      (push_bit 16 (ucast b) :: u32) + (push_bit 8 (ucast c) OR ucast d)"
    "push_bit 8 (ucast c) OR ucast d = (push_bit 8 (ucast c) :: u32) + ucast d"
    by (rule or_add_bits, erule be_bits2, rule or_add_bits, erule be_bits1,
        rule or_add_bits, auto simp: bit_ucast_iff dest: bit_u8)
  have "unat a < 256" "unat b < 256" "unat c < 256" "unat d < 256"
    using unsigned_less [of a] unsigned_less [of b] unsigned_less [of c] unsigned_less [of d] by simp_all
  then show ?thesis unfolding s(1) unfolding s(2) unfolding s(3)
    by (simp add: push_bit_eq_mult unat_word_ariths unsigned_ucast_eq take_bit_eq_mod)
qed

lemma unat_read_be32:
  "unat (read_be32 p i) = unat (p ! i) * 2 ^ 24 + unat (p ! (i + 1)) * 2 ^ 16 +
     unat (p ! (i + 2)) * 2 ^ 8 + unat (p ! (i + 3))"
  by (simp only: read_be32_def or_shift_add)

lemma unat_byte_of_nat: "unat (word_of_nat n :: u8) = n mod 256"
  by (simp add: unat_of_nat)

lemma read_be32_be32:
  assumes "n < 2 ^ 32"
  shows "unat (read_be32 (pre @ be32 n @ rest) (length pre)) = n"
proof -
  have e: "n div 65536 = n div 256 div 256" "n div 16777216 = n div 256 div 256 div 256"
    by (simp_all flip: div_mult2_eq)
  have "n div 256 div 256 div 256 mod 256 = n div 256 div 256 div 256"
    using assms by (simp flip: div_mult2_eq)
  moreover have "n = n div 256 * 256 + n mod 256"
    "n div 256 = n div 256 div 256 * 256 + n div 256 mod 256"
    "n div 256 div 256 = n div 256 div 256 div 256 * 256 + n div 256 div 256 mod 256" by simp_all
  ultimately have "n = n div 16777216 mod 256 * 16777216 + n div 65536 mod 256 * 65536 +
      n div 256 mod 256 * 256 + n mod 256" unfolding e by linarith
  moreover have "n div 16777216 mod 256 = n div 16777216" using assms by simp
  ultimately show ?thesis by (simp add: unat_read_be32 be32_def nth_append unat_byte_of_nat)
qed

lemma horner_bytes:
  assumes "a < 256" "b < 256" "c < 256" "d < (256 :: nat)"
  defines "x \<equiv> a * 16777216 + b * 65536 + c * 256 + d"
  shows "x mod 256 = d" "x div 256 mod 256 = c" "x div 65536 mod 256 = b" "x div 16777216 mod 256 = a"
proof -
  have x: "x = ((a * 256 + b) * 256 + c) * 256 + d" by (simp add: x_def)
  have d1: "x div 256 = (a * 256 + b) * 256 + c" using assms(4) by (simp add: x)
  have d2: "x div 65536 = a * 256 + b"
  proof -
    have "x div 65536 = x div 256 div 256" by (simp flip: div_mult2_eq)
    then show ?thesis using assms(3) by (simp add: d1)
  qed
  have d3: "x div 16777216 = a"
  proof -
    have "x div 16777216 = x div 65536 div 256" by (simp flip: div_mult2_eq)
    then show ?thesis using assms(2) by (simp add: d2)
  qed
  show "x mod 256 = d" unfolding x using assms(4) by (simp only: mod_mult_self3 mod_less)
  show "x div 256 mod 256 = c" unfolding d1 using assms(3) by (simp only: mod_mult_self3 mod_less)
  show "x div 65536 mod 256 = b" unfolding d2 using assms(2) by (simp only: mod_mult_self3 mod_less)
  show "x div 16777216 mod 256 = a" using assms(1) by (simp add: d3)
qed

lemma be32_read_be32:
  assumes "pos + 4 \<le> length data"
  shows "take 4 (drop pos data) = be32 (unat (read_be32 data pos))"
proof -
  obtain a b c d rest where q: "drop pos data = a # b # c # d # rest"
  proof -
    have "4 \<le> length (drop pos data)" using assms by simp
    then show ?thesis using that
      by (cases "drop pos data" rule: list.exhaust) (auto simp: Suc_le_length_iff numeral_eq_Suc)
  qed
  have nth: "data ! (pos + i) = drop pos data ! i" for i using assms by simp
  have "unat (read_be32 data pos) = unat a * 2 ^ 24 + unat b * 2 ^ 16 + unat c * 2 ^ 8 + unat d"
    using nth [of 0] nth [of 1] nth [of 2] nth [of 3] by (simp add: unat_read_be32 q)
  moreover have "unat a < 256" "unat b < 256" "unat c < 256" "unat d < 256"
    using unsigned_less [of a] unsigned_less [of b] unsigned_less [of c] unsigned_less [of d] by simp_all
  ultimately show ?thesis
    using horner_bytes [of "unat a" "unat b" "unat c" "unat d"]
    by (simp add: q be32_def word_unat_eq_iff unat_byte_of_nat del: of_nat_add of_nat_mult)
qed

section \<open>The AVC scanner accepts exactly the framed sequences\<close>

lemma count_mono: "hi_nal_count info \<le> hi_nal_count (classify nals info)"
  and count_classify: "hi_nal_count (classify nals info) = hi_nal_count info + length nals"
proof -
  have one: "hi_nal_count (snd (scan_nal n i)) = hi_nal_count i" for n i
    by (simp add: scan_nal_def Let_def)
  show "hi_nal_count (classify nals info) = hi_nal_count info + length nals"
    by (induction nals arbitrary: info) (simp_all add: one count_nal_def)
  then show "hi_nal_count info \<le> hi_nal_count (classify nals info)" by simp
qed

lemma avc_loop_framed:
  assumes "data = pre @ avc_frame nals" "\<forall>n \<in> set nals. nal_ok n" "length data \<le> SIZE_MAX"
    and "out \<le> length pre"
  shows "avc_size_loop data (length pre) info out =
    (if hi_nal_count (classify nals info) = 0 then NATIVE_H264_INVALID else NATIVE_H264_OK,
     classify nals info, out + length (annexb_frame nals))"
  using assms
proof (induction nals arbitrary: pre info out)
  case Nil
  then show ?case by (subst avc_size_loop.simps) simp
next
  case (Cons n ns)
  have sz: "length n < 2 ^ 32" "n \<noteq> []" using Cons.prems by (auto simp: SIZE_MAX_def nal_ok_def)
  have rd: "unat (read_be32 data (length pre)) = length n"
    using Cons.prems(1) read_be32_be32 [OF sz(1), of pre "n @ avc_frame ns"] by simp
  have nal: "take (length n) (drop (length pre + 4) data) = n"
    using Cons.prems(1) by simp
  have len: "length data = length pre + 4 + length n + length (avc_frame ns)"
    using Cons.prems(1) by simp
  have room: "\<not> SIZE_MAX - out < 4" "\<not> SIZE_MAX - (out + 4) < length n"
    using len Cons.prems(3,4) by linarith+
  have "avc_size_loop data (length pre) info out =
      avc_size_loop data (length (pre @ be32 (length n) @ n)) (count_nal (snd (scan_nal n info)))
        (out + (4 + length n))"
    using Cons.prems(2-4) sz len room
    by (subst avc_size_loop.simps) (simp add: Let_def rd nal add.assoc)
  also have "\<dots> = (if hi_nal_count (classify (n # ns) info) = 0 then NATIVE_H264_INVALID else NATIVE_H264_OK,
      classify (n # ns) info, out + length (annexb_frame (n # ns)))"
    using Cons.IH [of "pre @ be32 (length n) @ n" "out + (4 + length n)"
        "count_nal (snd (scan_nal n info))"] Cons.prems by simp
  finally show ?case .
qed

lemma avc_loop_step:
  assumes "avc_size_loop data pos info out = (NATIVE_H264_OK, i, m)" "pos < length data"
  defines "k \<equiv> unat (read_be32 data pos)"
  defines "nal \<equiv> take k (drop (pos + 4) data)"
  shows "4 \<le> length data - pos" "k \<noteq> 0" "k \<le> length data - (pos + 4)"
    "\<not> (SIZE_MAX - out < 4 \<or> SIZE_MAX - out - 4 < k)" "nal_ok nal"
    "avc_size_loop data (pos + 4 + k) (count_nal (snd (scan_nal nal info))) (out + (4 + k))
      = (NATIVE_H264_OK, i, m)"
proof -
  have "avc_size_loop data pos info out =
     (if length data - pos < 4 then (NATIVE_H264_INVALID, info, out)
      else if k = 0 \<or> k > length data - (pos + 4) then (NATIVE_H264_INVALID, info, out)
      else if SIZE_MAX - out < 4 \<or> SIZE_MAX - out - 4 < k then (NATIVE_H264_INVALID, info, out)
      else if \<not> nal_ok nal then (NATIVE_H264_INVALID, snd (scan_nal nal info), out)
      else avc_size_loop data (pos + 4 + k) (count_nal (snd (scan_nal nal info))) (out + (4 + k)))"
    using assms(2) by (subst avc_size_loop.simps) (simp only: Let_def fst_scan_nal k_def nal_def if_True)
  with assms(1) show "4 \<le> length data - pos" "k \<noteq> 0" "k \<le> length data - (pos + 4)"
    "\<not> (SIZE_MAX - out < 4 \<or> SIZE_MAX - out - 4 < k)" "nal_ok nal"
    "avc_size_loop data (pos + 4 + k) (count_nal (snd (scan_nal nal info))) (out + (4 + k))
      = (NATIVE_H264_OK, i, m)"
    by (metis NativeH264Result.distinct(1) not_le prod.inject)+
qed

lemma avc_loop_inv:
  "avc_size_loop data pos info out = (NATIVE_H264_OK, i, m) \<Longrightarrow> pos \<le> length data \<Longrightarrow>
   \<exists>nals. drop pos data = avc_frame nals \<and> (\<forall>n \<in> set nals. nal_ok n)"
proof (induction "length data - pos" arbitrary: pos info out rule: less_induct)
  case less
  let ?n = "unat (read_be32 data pos)"
  show ?case
  proof (cases "pos < length data")
    case False
    with less.prems show ?thesis by (intro exI [of _ "[]"]) simp
  next
    case True
    let ?nal = "take ?n (drop (pos + 4) data)"
    note g = avc_loop_step [OF less.prems(1) True]
    have le: "pos + 4 + ?n \<le> length data" "length data - (pos + 4 + ?n) < length data - pos"
      using g True by linarith+
    obtain ns where ns: "drop (pos + 4 + ?n) data = avc_frame ns" "\<forall>n \<in> set ns. nal_ok n"
      using less.hyps [OF le(2) g(6) le(1)] by blast
    have "drop pos data = take 4 (drop pos data) @ ?nal @ drop (pos + 4 + ?n) data"
      by (metis add.commute append_take_drop_id drop_drop)
    moreover have "length ?nal = ?n" "take 4 (drop pos data) = be32 ?n"
      using g(1,3) True be32_read_be32 [of pos data] by simp_all
    ultimately have "drop pos data = avc_frame (?nal # ns)" using ns(1) by simp
    then show ?thesis using ns(2) g(5) by (metis set_ConsD)
  qed
qed

lemma avc_scan_framed:
  assumes "\<forall>n \<in> set nals. nal_ok n" "length (avc_frame nals) \<le> SIZE_MAX" "nals \<noteq> []"
  shows "native_h264_avc_annexb_size (avc_frame nals) =
    (NATIVE_H264_OK, classify nals h264_info_zero, length (annexb_frame nals))"
  using avc_loop_framed [of "avc_frame nals" "[]" nals 0 h264_info_zero] assms
  by (simp add: native_h264_avc_annexb_size_def count_classify)

lemma avc_scan_inv:
  assumes "fst (native_h264_avc_annexb_size data) = NATIVE_H264_OK" "length data \<le> SIZE_MAX"
  shows "\<exists>nals. nals \<noteq> [] \<and> data = avc_frame nals \<and> (\<forall>n \<in> set nals. nal_ok n)"
proof -
  obtain i m where r: "native_h264_avc_annexb_size data = (NATIVE_H264_OK, i, m)"
    using assms(1) by (metis prod.collapse)
  obtain nals where n: "data = avc_frame nals" "\<forall>n \<in> set nals. nal_ok n"
    using avc_loop_inv [of data 0 h264_info_zero 0 i m] r
    by (auto simp: native_h264_avc_annexb_size_def)
  have "nals \<noteq> []"
    using r avc_loop_framed [of data "[]" nals 0 h264_info_zero] n assms(2)
    by (auto simp: native_h264_avc_annexb_size_def h264_info_zero_def)
  with n show ?thesis by blast
qed

lemma avc_copy_framed:
  assumes "data = pre @ avc_frame nals" "\<forall>n \<in> set nals. nal_ok n" "length data \<le> SIZE_MAX"
  shows "avc_copy_loop data (length pre) out = out @ annexb_frame nals"
  using assms
proof (induction nals arbitrary: pre out)
  case Nil
  then show ?case by (subst avc_copy_loop.simps) simp
next
  case (Cons n ns)
  have sz: "length n < 2 ^ 32" using Cons.prems by (auto simp: SIZE_MAX_def)
  have rd: "unat (read_be32 data (length pre)) = length n"
    using Cons.prems(1) read_be32_be32 [OF sz, of pre "n @ avc_frame ns"] by simp
  have nal: "take (length n) (drop (length pre + 4) data) = n"
    and len: "length pre < length data" using Cons.prems(1) by simp_all
  have IH: "avc_copy_loop data (length (pre @ be32 (length n) @ n)) (out @ [0, 0, 0, 1] @ n) =
      (out @ [0, 0, 0, 1] @ n) @ annexb_frame ns"
    by (rule Cons.IH) (use Cons.prems in simp_all)
  show ?case
    using IH len by (subst avc_copy_loop.simps) (simp add: Let_def rd nal add.assoc)
qed

section \<open>Scanning framed access units\<close>

interpretation h264_finder: annexb_finder annexb_prefix_at find_annexb_prefix
proof
  show "find_annexb_prefix data pos = (if pos + 3 \<le> length data then
      case annexb_prefix_at data pos of Some n \<Rightarrow> Some (pos, n)
      | None \<Rightarrow> find_annexb_prefix data (pos + 1) else None)" for data pos
    by (rule find_annexb_prefix.simps)
qed (simp only: annexb_prefix_at_def)

lemma annexb_loop_framed:
  assumes "data = pre @ annexb_frame nals" "\<forall>n \<in> set nals. nal_ok n \<and> start_code_free n"
    and "hi_nal_count info = 0 \<longrightarrow> pre = [] \<and> nals \<noteq> []"
  shows "annexb_scan_loop data (length pre) info =
    (NATIVE_H264_OK, classify nals (if hi_nal_count info = 0
       then info\<lparr>hi_starts_with_annexb_start_code := True\<rparr> else info))"
  using assms
proof (induction nals arbitrary: pre info)
  case Nil
  then show ?case by (subst annexb_scan_loop.simps) (simp add: h264_finder.find_at_end)
next
  case (Cons n ns)
  let ?info = "if hi_nal_count info = 0 then info\<lparr>hi_starts_with_annexb_start_code := True\<rparr> else info"
  let ?pre = "pre @ [0, 0, 0, 1] @ n"
  have n: "n \<noteq> []" "nal_ok n" "start_code_free n" using Cons.prems(2) by (auto simp: nal_ok_def)
  have fnd: "find_annexb_prefix data (length pre) = Some (length pre, 4)"
    using Cons.prems(1) by (intro h264_finder.find_at_code) simp
  have "next_prefix_pos data (length (pre @ [0, 0, 0, 1])) = length (pre @ [0, 0, 0, 1]) + length n"
    unfolding next_prefix_pos_def using Cons.prems(1) n(3)
    by (intro h264_finder.next_bound [of data _ n "annexb_frame ns"]) (cases ns; auto)+
  moreover have "length (pre @ [0, 0, 0, 1]) = length pre + 4" by simp
  ultimately have nxt: "next_prefix_pos data (length pre + 4) = length pre + 4 + length n" by metis
  have nal: "take (length n) (drop (length pre + 4) data) = n" using Cons.prems(1) by simp
  have cnt: "hi_nal_count (count_nal x) \<noteq> 0" for x by (simp add: count_nal_def)
  have st: "hi_nal_count info = 0 \<longrightarrow> pre = []" using Cons.prems(3) by blast
  have lp: "length ?pre = length pre + 4 + length n" by simp
  have "annexb_scan_loop data (length pre) info =
      annexb_scan_loop data (length ?pre) (count_nal (snd (scan_nal n ?info)))"
    unfolding lp using n st by (subst annexb_scan_loop.simps) (auto simp: fnd nxt Let_def nal add.assoc)
  also have "\<dots> = (NATIVE_H264_OK, classify ns (count_nal (snd (scan_nal n ?info))))"
    using Cons.IH [of ?pre "count_nal (snd (scan_nal n ?info))"] Cons.prems(1,2) cnt by simp
  finally show ?case by simp
qed

lemma annexb_scan_framed:
  assumes "\<forall>n \<in> set nals. nal_ok n \<and> start_code_free n" "nals \<noteq> []"
  shows "native_h264_scan_annexb (annexb_frame nals) =
    (NATIVE_H264_OK, classify nals (h264_info_zero\<lparr>hi_starts_with_annexb_start_code := True\<rparr>))"
  using annexb_loop_framed [of "annexb_frame nals" "[]" nals h264_info_zero] assms
  by (simp add: native_h264_scan_annexb_def h264_info_zero_def)

lemma classify_start_flag:
  "classify nals (info\<lparr>hi_starts_with_annexb_start_code := b\<rparr>) =
   classify nals info\<lparr>hi_starts_with_annexb_start_code := b\<rparr>"
proof -
  have one: "count_nal (snd (scan_nal n (i\<lparr>hi_starts_with_annexb_start_code := b\<rparr>))) =
      count_nal (snd (scan_nal n i))\<lparr>hi_starts_with_annexb_start_code := b\<rparr>" for n i
    by (simp add: scan_nal_def count_nal_def Let_def)
  show ?thesis by (induction nals arbitrary: info) (simp_all add: one)
qed

text \<open>What the flags of a classified sequence say about it.\<close>

definition nal_type :: "bytes \<Rightarrow> u8" where
  "nal_type n = n ! 0 AND 0x1f"

lemma scan_nal_flags:
  fixes i :: NativeH264Info
  assumes "nal_ok n" defines "i' \<equiv> count_nal (snd (scan_nal n i))"
  shows "hi_has_sps i' \<longleftrightarrow> hi_has_sps i \<or> nal_type n = 7"
    "hi_has_pps i' \<longleftrightarrow> hi_has_pps i \<or> nal_type n = 8"
    "hi_has_idr i' \<longleftrightarrow> hi_has_idr i \<or> nal_type n = 5"
    "hi_can_seed_decoder i' \<longleftrightarrow> hi_can_seed_decoder i \<or>
       (nal_type n = 5 \<and> hi_has_sps i \<and> hi_has_pps i)"
  using assms by (auto simp: scan_nal_def nal_ok_def nal_type_def Let_def count_nal_def)

lemma classify_flags:
  assumes "\<forall>n \<in> set nals. nal_ok n"
  shows "(hi_has_sps (classify nals h264_info_zero) \<longleftrightarrow> (\<exists>n \<in> set nals. nal_type n = 7)) \<and>
    (hi_has_pps (classify nals h264_info_zero) \<longleftrightarrow> (\<exists>n \<in> set nals. nal_type n = 8)) \<and>
    (hi_can_seed_decoder (classify nals h264_info_zero) \<longleftrightarrow>
      (\<exists>before idr after. nals = before @ idr # after \<and> nal_type idr = 5 \<and>
        (\<exists>n \<in> set before. nal_type n = 7) \<and> (\<exists>n \<in> set before. nal_type n = 8)))"
  using assms
proof (induction nals rule: rev_induct)
  case Nil
  show ?case by (simp add: h264_info_zero_def)
next
  case (snoc n ns)
  let ?i = "classify ns h264_info_zero"
  have step: "classify (ns @ [n]) h264_info_zero = count_nal (snd (scan_nal n ?i))"
    by (simp add: classify_def)
  have n: "nal_ok n" using snoc.prems by simp
  show ?case
    using snoc scan_nal_flags [OF n, of ?i]
    unfolding step last_split [of ns n "\<lambda>before idr. nal_type idr = 5 \<and> (\<exists>n \<in> set before. nal_type n = 7) \<and>
      (\<exists>n \<in> set before. nal_type n = 8)"]
    by auto
qed

section \<open>Properties\<close>

text \<open>
  C9: the AVC scanner accepts exactly the non-empty sequences of length-prefixed NAL units whose
  headers are legal; on those its classification is that of the units in order, and the size it
  reports is exactly the length of their Annex-B form.  (A buffer is never longer than SIZE_MAX,
  and then the size computation cannot overflow.)
\<close>

theorem avc_scan_accepts_exactly_framed:
  assumes "length data \<le> SIZE_MAX"
  shows "(fst (native_h264_avc_annexb_size data) = NATIVE_H264_OK \<longleftrightarrow>
      (\<exists>nals. nals \<noteq> [] \<and> data = avc_frame nals \<and> (\<forall>n \<in> set nals. nal_ok n))) \<and>
    (\<forall>nals. nals \<noteq> [] \<longrightarrow> data = avc_frame nals \<longrightarrow> (\<forall>n \<in> set nals. nal_ok n) \<longrightarrow>
      snd (native_h264_avc_annexb_size data) =
        (classify nals h264_info_zero, length (annexb_frame nals)))"
proof (intro conjI iffI allI impI)
  assume "fst (native_h264_avc_annexb_size data) = NATIVE_H264_OK"
  then show "\<exists>nals. nals \<noteq> [] \<and> data = avc_frame nals \<and> (\<forall>n \<in> set nals. nal_ok n)"
    by (rule avc_scan_inv [OF _ assms])
qed (use avc_scan_framed assms in auto)

theorem avc_scan_accepts_exactly_framed_witness:
  "fst (native_h264_avc_annexb_size (avc_frame [[0x65, 1], [0x41]])) = NATIVE_H264_OK"
proof -
  have "length (avc_frame [[0x65, 1], [0x41]]) \<le> SIZE_MAX" by (simp add: SIZE_MAX_def)
  from avc_scan_accepts_exactly_framed [OF this] show ?thesis
    by (auto simp: nal_ok_def intro!: exI [of _ "[[0x65, 1], [0x41]]"])
qed

text \<open>
  C4: the conversion replaces every length prefix by a four-byte start code and copies the NAL
  bytes unchanged; it never writes past the output capacity, and reports a too small output
  without writing anything.
\<close>

theorem avc_to_annexb_converts:
  assumes "nals \<noteq> []" "\<forall>n \<in> set nals. nal_ok n" "length (avc_frame nals) \<le> SIZE_MAX"
  shows "native_h264_avc_to_annexb (avc_frame nals) cap =
     (if length (annexb_frame nals) \<le> cap then (NATIVE_H264_OK, annexb_frame nals)
      else (NATIVE_H264_OUTPUT_TOO_SMALL, []))"
proof -
  have "annexb_frame nals \<noteq> []" using assms(1) by (cases nals) auto
  moreover have "avc_copy_loop (avc_frame nals) 0 [] = annexb_frame nals"
    using avc_copy_framed [of "avc_frame nals" "[]" nals "[]"] assms by simp
  ultimately show ?thesis
    using avc_scan_framed [OF assms(2,3,1)] by (simp add: native_h264_avc_to_annexb_def)
qed

theorem avc_to_annexb_converts_witness:
  "native_h264_avc_to_annexb (avc_frame [[0x65, 1], [0x41]]) 64 =
    (NATIVE_H264_OK, [0, 0, 0, 1, 0x65, 1, 0, 0, 0, 1, 0x41])"
  using avc_to_annexb_converts [of "[[0x65, 1], [0x41]]" 64] by (simp add: nal_ok_def SIZE_MAX_def)





end
