(* ===== verification/H264_Seed.thy ===== *)
theory H264_Seed
  imports H264_Annexb
begin

text \<open>
  What the Annex-B scan of \<open>native/src/h264_annexb.c\<close> says of a buffer it did not frame itself:
  the parameter sets it reports are single legal NAL units without a start code inside, and
  putting a sequence and a picture parameter set in front of an access unit with an IDR slice
  makes it one a decoder can start from.  The camera stream rests on both.
\<close>

section \<open>The bytes between two start codes\<close>

lemma take_take_full: "take k (take p xs) = ys \<Longrightarrow> length ys = k \<Longrightarrow> take k xs = ys"
  by (metis length_take min.cobounded1 min.cobounded2 min_def order_antisym take_take)

lemma sc_list_take: "sc_list xs = Some (p, n) \<Longrightarrow> sc_list (take p xs) = None"
proof (induction xs arbitrary: p)
  case (Cons x xs)
  show ?case
  proof (cases "p = 0")
    case False
    then have ne: "take 3 (x # xs) \<noteq> [0, 0, 1]" "take 4 (x # xs) \<noteq> [0, 0, 0, 1]"
      and q: "sc_list xs = Some (p - 1, n)" using Cons.prems by (auto split: if_splits)
    have "take 3 (take p (x # xs)) \<noteq> [0, 0, 1]" "take 4 (take p (x # xs)) \<noteq> [0, 0, 0, 1]"
      using ne take_take_full [of _ p "x # xs"] by fastforce+
    then show ?thesis using Cons.IH [OF q] False by (cases p) auto
  qed simp
qed simp

lemma nal_between_free:
  "start_code_free (take (next_prefix_pos data k - k) (drop k data))"
proof (cases "sc_list (drop k data)")
  case None
  then show ?thesis
    by (simp add: next_prefix_pos_def h264_finder.find_is_sc_list sc_list_None [symmetric])
next
  case (Some p)
  then show ?thesis using sc_list_take [of "drop k data" "fst p" "snd p"]
    by (simp add: next_prefix_pos_def h264_finder.find_is_sc_list case_prod_beta sc_list_None [symmetric])
qed

section \<open>Reported parameter sets\<close>

definition set_nal :: "u8 \<Rightarrow> bytes \<Rightarrow> bool" where
  "set_nal t n \<longleftrightarrow> nal_ok n \<and> start_code_free n \<and> nal_type n = t"

definition sets_ok :: "NativeH264Info \<Rightarrow> bool" where
  "sets_ok i \<longleftrightarrow> (hi_has_sps i \<longrightarrow> (\<exists>n. hi_sps i = Some n \<and> set_nal 7 n)) \<and>
     (hi_has_pps i \<longrightarrow> (\<exists>n. hi_pps i = Some n \<and> set_nal 8 n)) \<and>
     (hi_can_seed_decoder i \<longrightarrow> hi_has_idr i) \<and> (hi_has_idr i \<longrightarrow> hi_has_vcl i)"

lemma sets_ok_step:
  assumes "sets_ok i" "nal_ok n" "start_code_free n"
  shows "sets_ok (count_nal (snd (scan_nal n i)))"
  using assms
  by (auto simp: sets_ok_def scan_nal_def Let_def count_nal_def set_nal_def nal_type_def)

lemma sets_ok_loop: "sets_ok i \<Longrightarrow> sets_ok (snd (annexb_scan_loop data pos i))"
proof (induction data pos i rule: annexb_scan_loop.induct)
  case (1 data pos i)
  have start: "sets_ok (i\<lparr>hi_starts_with_annexb_start_code := b\<rparr>) = sets_ok i" for b i
    by (simp add: sets_ok_def)
  show ?case
  proof (cases "find_annexb_prefix data pos")
    case None
    then show ?thesis using 1 by (subst annexb_scan_loop.simps) simp
  next
    case (Some pn)
    obtain p n where pn: "pn = (p, n)" by (cases pn)
    define i1 where "i1 = (if hi_nal_count i = 0
       then i\<lparr>hi_starts_with_annexb_start_code := (p = 0)\<rparr> else i)"
    define nal where "nal = take (next_prefix_pos data (p + n) - (p + n)) (drop (p + n) data)"
    have i1: "sets_ok i1" using 1(2) by (simp add: i1_def start)
    have free: "start_code_free nal" unfolding nal_def by (rule nal_between_free)
    have loop: "annexb_scan_loop data pos i =
       (if p + n \<ge> next_prefix_pos data (p + n) then (NATIVE_H264_INVALID, i1)
        else if \<not> nal_ok nal then (NATIVE_H264_INVALID, snd (scan_nal nal i1))
        else annexb_scan_loop data (next_prefix_pos data (p + n)) (count_nal (snd (scan_nal nal i1))))"
      by (subst annexb_scan_loop.simps) (simp add: Some pn Let_def i1_def nal_def)
    have bad: "\<not> nal_ok nal \<Longrightarrow> snd (scan_nal nal i1) = i1"
      by (auto simp: scan_nal_def nal_ok_def Let_def)
    show ?thesis
      using 1(1) [OF Some pn [symmetric] i1_def refl refl] i1 bad sets_ok_step [OF i1 _ free]
      by (simp add: loop nal_def [symmetric])
  qed
qed

lemma scan_sets_ok: "native_h264_scan_annexb data = (r, info) \<Longrightarrow> sets_ok info"
  using sets_ok_loop [of h264_info_zero data 0]
  by (simp add: native_h264_scan_annexb_def sets_ok_def h264_info_zero_def)

section \<open>An access unit behind its parameter sets\<close>

lemma find_prefix_shift:
  "find_annexb_prefix (pre @ data) (length pre + pos) =
   map_option (\<lambda>(p, n). (length pre + p, n)) (find_annexb_prefix data pos)"
  by (simp add: h264_finder.find_is_sc_list option.map_comp comp_def case_prod_unfold add.assoc)

lemma next_prefix_shift:
  "next_prefix_pos (pre @ data) (length pre + pos) = length pre + next_prefix_pos data pos"
  by (simp add: next_prefix_pos_def find_prefix_shift split: option.splits)

definition seeds :: "NativeH264Info \<Rightarrow> NativeH264Info \<Rightarrow> bool" where
  "seeds i j \<longleftrightarrow> hi_has_sps j \<and> hi_has_pps j \<and> hi_nal_count j \<noteq> 0 \<and>
     (hi_has_idr i \<longrightarrow> hi_can_seed_decoder j)"

lemma seeds_step:
  "seeds i j \<Longrightarrow> nal_ok n \<Longrightarrow> seeds (count_nal (snd (scan_nal n i))) (count_nal (snd (scan_nal n j)))"
  by (auto simp: seeds_def scan_nal_def Let_def count_nal_def nal_ok_def)

lemma loop_seeds:
  assumes "annexb_scan_loop data pos i = (NATIVE_H264_OK, i')" "seeds i j"
  shows "\<exists>j'. annexb_scan_loop (pre @ data) (length pre + pos) j = (NATIVE_H264_OK, j') \<and> seeds i' j'"
  using assms
proof (induction data pos i arbitrary: j rule: annexb_scan_loop.induct)
  case (1 data pos i)
  show ?case
  proof (cases "find_annexb_prefix data pos")
    case None
    then have "i' = i" using 1(2) by (subst (asm) annexb_scan_loop.simps) (simp split: if_splits)
    moreover have "find_annexb_prefix (pre @ data) (length pre + pos) = None"
      by (simp add: find_prefix_shift None)
    ultimately show ?thesis
      using 1(3) by (intro exI [of _ j]) (subst annexb_scan_loop.simps, simp add: seeds_def)
  next
    case (Some pn)
    obtain p n where pn: "pn = (p, n)" by (cases pn)
    define i1 where "i1 = (if hi_nal_count i = 0
       then i\<lparr>hi_starts_with_annexb_start_code := (p = 0)\<rparr> else i)"
    define nxt where "nxt = next_prefix_pos data (p + n)"
    define nal where "nal = take (nxt - (p + n)) (drop (p + n) data)"
    have i1: "seeds i1 j" using 1(3) by (simp add: i1_def seeds_def)
    have loop: "annexb_scan_loop data pos i =
       (if p + n \<ge> nxt then (NATIVE_H264_INVALID, i1)
        else if \<not> nal_ok nal then (NATIVE_H264_INVALID, snd (scan_nal nal i1))
        else annexb_scan_loop data nxt (count_nal (snd (scan_nal nal i1))))"
      by (subst annexb_scan_loop.simps) (simp add: Some pn Let_def i1_def nal_def nxt_def)
    then have ok: "p + n < nxt" "nal_ok nal"
      "annexb_scan_loop data nxt (count_nal (snd (scan_nal nal i1))) = (NATIVE_H264_OK, i')"
      using 1(2) by (auto split: if_splits)
    have fnd: "find_annexb_prefix (pre @ data) (length pre + pos) = Some (length pre + p, n)"
      by (simp add: find_prefix_shift Some pn)
    have nx: "next_prefix_pos (pre @ data) (length pre + (p + n)) = length pre + nxt"
      using next_prefix_shift [of pre data "p + n"] by (simp add: nxt_def)
    have cnt: "hi_nal_count j \<noteq> 0" using 1(3) by (simp add: seeds_def)
    have "annexb_scan_loop (pre @ data) (length pre + pos) j =
        annexb_scan_loop (pre @ data) (length pre + nxt) (count_nal (snd (scan_nal nal j)))"
      by (subst annexb_scan_loop.simps)
        (use ok(1,2) cnt in \<open>simp add: fnd nx Let_def nal_def add.assoc\<close>)
    with 1(1) [OF Some pn [symmetric] i1_def refl refl _ refl, folded nxt_def, folded nal_def,
        OF _ _ ok(3) seeds_step [OF i1 ok(2)]] ok
    show ?thesis by simp
  qed
qed

lemma scan_starts:
  assumes "annexb_scan_loop data pos i = (NATIVE_H264_OK, i')" "hi_nal_count i \<noteq> 0"
  shows "hi_starts_with_annexb_start_code i' = hi_starts_with_annexb_start_code i"
  using assms
proof (induction data pos i rule: annexb_scan_loop.induct)
  case (1 data pos i)
  have keep: "hi_starts_with_annexb_start_code (count_nal (snd (scan_nal n i))) =
      hi_starts_with_annexb_start_code i" "hi_nal_count (count_nal (snd (scan_nal n i))) \<noteq> 0" for n i
    by (simp_all add: count_nal_def scan_nal_def Let_def)
  show ?case
  proof (cases "find_annexb_prefix data pos")
    case None
    then show ?thesis using 1(2) by (subst (asm) annexb_scan_loop.simps) (simp split: if_splits)
  next
    case (Some pn)
    obtain p n where pn: "pn = (p, n)" by (cases pn)
    define i1 where "i1 = (if hi_nal_count i = 0
       then i\<lparr>hi_starts_with_annexb_start_code := (p = 0)\<rparr> else i)"
    define nxt where "nxt = next_prefix_pos data (p + n)"
    define nal where "nal = take (nxt - (p + n)) (drop (p + n) data)"
    have "annexb_scan_loop data pos i =
       (if p + n \<ge> nxt then (NATIVE_H264_INVALID, i1)
        else if \<not> nal_ok nal then (NATIVE_H264_INVALID, snd (scan_nal nal i1))
        else annexb_scan_loop data nxt (count_nal (snd (scan_nal nal i1))))"
      by (subst annexb_scan_loop.simps) (simp add: Some pn Let_def i1_def nal_def nxt_def)
    then have ok: "p + n < nxt" "nal_ok nal"
      "annexb_scan_loop data nxt (count_nal (snd (scan_nal nal i1))) = (NATIVE_H264_OK, i')"
      using 1(2) by (auto split: if_splits)
    from 1(1) [OF Some pn [symmetric] i1_def refl refl] ok 1(3)
    show ?thesis by (simp add: nxt_def [symmetric] nal_def [symmetric] keep i1_def)
  qed
qed

text \<open>An accepted unit that starts with a start code: its first code is at offset 0.\<close>

lemma scan_first_code:
  assumes "native_h264_scan_annexb data = (NATIVE_H264_OK, info)"
    and "hi_starts_with_annexb_start_code info"
  shows "\<exists>k. sc_list data = Some (0, k) \<and> 4 \<le> length data"
proof -
  let ?i = "h264_info_zero"
  have keep: "hi_starts_with_annexb_start_code (count_nal (snd (scan_nal n i))) =
      hi_starts_with_annexb_start_code i" "hi_nal_count (count_nal (snd (scan_nal n i))) \<noteq> 0" for n i
    by (simp_all add: count_nal_def scan_nal_def Let_def)
  have scan: "annexb_scan_loop data 0 ?i = (NATIVE_H264_OK, info)"
    using assms(1) by (simp add: native_h264_scan_annexb_def)
  obtain p k where pk: "find_annexb_prefix data 0 = Some (p, k)"
    using scan by (subst (asm) annexb_scan_loop.simps)
      (auto simp: h264_info_zero_def split: option.splits)
  define i1 where "i1 = ?i\<lparr>hi_starts_with_annexb_start_code := (p = 0)\<rparr>"
  define nxt where "nxt = next_prefix_pos data (p + k)"
  define nal where "nal = take (nxt - (p + k)) (drop (p + k) data)"
  have "annexb_scan_loop data 0 ?i =
     (if p + k \<ge> nxt then (NATIVE_H264_INVALID, i1)
      else if \<not> nal_ok nal then (NATIVE_H264_INVALID, snd (scan_nal nal i1))
      else annexb_scan_loop data nxt (count_nal (snd (scan_nal nal i1))))"
    by (subst annexb_scan_loop.simps) (simp add: pk Let_def i1_def nal_def nxt_def h264_info_zero_def)
  then have ok: "p + k < nxt" "nal_ok nal"
    "annexb_scan_loop data nxt (count_nal (snd (scan_nal nal i1))) = (NATIVE_H264_OK, info)"
    using scan by (auto split: if_splits)
  have "p = 0" using scan_starts [OF ok(3) keep(2)] assms(2) by (simp add: keep i1_def)
  moreover have "p + k < length data" using ok(1,2) by (auto simp: nal_def nal_ok_def)
  moreover have "3 \<le> k" using h264_finder.find_bounds [OF pk] by simp
  ultimately show ?thesis using pk by (auto simp: h264_finder.find_is_sc_list)
qed

text \<open>
  Where the finder meets the code that follows a NAL: a trailing zero byte of the NAL is taken
  into a three-byte code, so the position may be one less, but the next NAL begins at the
  same place.
\<close>

lemma sc_list_append_first:
  "start_code_free n \<Longrightarrow> sc_list rest = Some (0, k) \<Longrightarrow>
   \<exists>q k'. sc_list (n @ rest) = Some (q, k') \<and> q + k' = length n + k \<and> q \<le> length n \<and>
     (q < length n \<longrightarrow> last n = 0 \<and> q = length n - 1)"
proof (induction n)
  case (Cons x n)
  have rest: "take 3 rest = [0, 0, 1] \<and> k = 3 \<or> take 4 rest = [0, 0, 0, 1] \<and> k = 4"
    using Cons.prems(2) by (cases rest) (auto split: if_splits)
  then obtain r where r: "rest = [0, 0, 1] @ r \<and> k = 3 \<or> rest = [0, 0, 0, 1] @ r \<and> k = 4"
    by (metis append_take_drop_id)
  have free: "take 3 (x # n) \<noteq> [0, 0, 1]" "start_code_free n"
    using Cons.prems(1) by (auto simp: start_code_free_Cons)
  from Cons.IH [OF free(2) Cons.prems(2)] obtain q k' where IH: "sc_list (n @ rest) = Some (q, k')"
    "q + k' = length n + k" "q \<le> length n" "q < length n \<longrightarrow> last n = 0 \<and> q = length n - 1" by blast
  consider (now) "n = []" "take 4 (x # rest) = [0, 0, 0, 1]" | (later) "take 3 (x # n @ rest) \<noteq> [0, 0, 1]"
    "take 4 (x # n @ rest) \<noteq> [0, 0, 0, 1]"
  proof -
    consider "n = []" | y where "n = [y]" | y z n' where "n = y # z # n'"
      by (cases n; cases "tl n") auto
    then show ?thesis
    proof cases
      case 3
      have "take 4 (x # n @ rest) \<noteq> [0, 0, 0, 1]"
      proof (cases n')
        case Nil
        then show ?thesis using 3 r by auto
      next
        case (Cons a m)
        then show ?thesis using 3 free(2) by (auto simp: start_code_free_Cons)
      qed
      then show ?thesis using 3 free(1) later by auto
    next
      case 1
      then show ?thesis using r now later by (cases "x = 0") auto
    qed (use r now later in auto)
  qed
  then show ?case
  proof cases
    case now
    then show ?thesis using r by (auto intro!: exI [of _ 0] exI [of _ 4])
  next
    case later
    have sc: "sc_list ((x # n) @ rest) = Some (Suc q, k')" using later IH(1) by simp
    have "Suc q + k' = length (x # n) + k" "Suc q \<le> length (x # n)"
      "Suc q < length (x # n) \<longrightarrow> last (x # n) = 0 \<and> Suc q = length (x # n) - 1"
      using IH(2-4) by (auto simp: Suc_diff_le)
    with sc show ?thesis by blast
  qed
qed simp

lemma sc_list_at: "sc_list xs = Some (q, k) \<Longrightarrow> sc_list (drop q xs) = Some (0, k)"
proof (induction xs arbitrary: q)
  case (Cons x xs)
  then show ?case by (cases q) (auto split: if_splits)
qed simp

lemma loop_jump:
  assumes "find_annexb_prefix data a = Some (p, n)" "find_annexb_prefix data b = Some (q, m)"
    and "p + n = q + m" "hi_nal_count i \<noteq> 0"
  shows "annexb_scan_loop data a i = annexb_scan_loop data b i"
  using assms(3,4) by (subst (1 2) annexb_scan_loop.simps) (simp add: assms(1,2))

lemma loop_step:
  assumes data: "data = pre @ [0, 0, 0, 1] @ n @ rest" and n: "nal_ok n" "start_code_free n"
    and rest: "sc_list rest = Some (0, k)"
  shows "\<exists>n'. nal_ok n' \<and> nal_type n' = nal_type n \<and>
     annexb_scan_loop data (length pre) i = annexb_scan_loop data (length pre + 4 + length n)
       (count_nal (snd (scan_nal n' (if hi_nal_count i = 0
          then i\<lparr>hi_starts_with_annexb_start_code := (length pre = 0)\<rparr> else i))))"
proof -
  obtain q k' where q: "sc_list (n @ rest) = Some (q, k')" "q + k' = length n + k" "q \<le> length n"
    "q < length n \<longrightarrow> last n = 0 \<and> q = length n - 1"
    using sc_list_append_first [OF n(2) rest] by blast
  have ne: "n \<noteq> []" "n ! 0 \<noteq> 0" using n(1) by (auto simp: nal_ok_def)
  have "0 < q"
  proof (rule ccontr)
    assume "\<not> 0 < q"
    then have "length n = 1" "last n = 0" using q(3,4) ne(1) by (cases n; auto)+
    then show False using ne(2) by (cases n) auto
  qed
  define n' where "n' = take q n"
  have n': "n' ! 0 = n ! 0" "n' \<noteq> []" using \<open>0 < q\<close> ne by (simp_all add: n'_def)
  define i1 where "i1 = (if hi_nal_count i = 0
    then i\<lparr>hi_starts_with_annexb_start_code := (length pre = 0)\<rparr> else i)"
  have f0: "find_annexb_prefix data (length pre) = Some (length pre, 4)"
    using h264_finder.find_at_code [of data pre "n @ rest"] data by simp
  have d4: "drop (length pre + 4) data = n @ rest" by (simp add: data)
  have dn: "drop (length pre + 4 + length n) data = rest"
    using drop_drop [of "length n" "length pre + 4" data] by (simp add: d4 add_ac)
  have dq: "find_annexb_prefix data (length pre + 4) = Some (length pre + 4 + q, k')"
    using q(1) by (simp add: h264_finder.find_is_sc_list d4)
  then have nx: "next_prefix_pos data (length pre + 4) = length pre + 4 + q"
    by (simp add: next_prefix_pos_def)
  have nal: "take q (n @ rest) = n'" using q(3) by (simp add: n'_def)
  have nal_ok': "nal_ok n'" using n(1) n' by (simp add: nal_ok_def)
  have "annexb_scan_loop data (length pre) i =
      annexb_scan_loop data (length pre + 4 + q) (count_nal (snd (scan_nal n' i1)))"
    by (subst annexb_scan_loop.simps)
      (use \<open>0 < q\<close> nal_ok' in \<open>simp add: f0 nx Let_def d4 nal [simplified take_append] i1_def\<close>)
  also have "\<dots> = annexb_scan_loop data (length pre + 4 + length n) (count_nal (snd (scan_nal n' i1)))"
  proof (rule loop_jump)
    have "sc_list (drop q (n @ rest)) = Some (0, k')" by (rule sc_list_at [OF q(1)])
    moreover have "drop (length pre + 4 + q) data = drop q (n @ rest)"
      by (metis d4 drop_drop add.commute)
    ultimately show "find_annexb_prefix data (length pre + 4 + q) = Some (length pre + 4 + q, k')"
      by (simp add: h264_finder.find_is_sc_list)
    show "find_annexb_prefix data (length pre + 4 + length n) = Some (length pre + 4 + length n, k)"
      using rest by (simp add: h264_finder.find_is_sc_list dn)
    show "length pre + 4 + q + k' = length pre + 4 + length n + k" using q(2) by simp
  qed (simp add: count_nal_def)
  finally show ?thesis using n' nal_ok' unfolding i1_def by (auto simp: nal_type_def)
qed

text \<open>
  The IDR unit of a stream behind cached parameter sets is one a decoder can start from.
\<close>

lemma prefixed_keyframe:
  assumes s: "set_nal 7 s" and p: "set_nal 8 p"
    and scan: "native_h264_scan_annexb d = (NATIVE_H264_OK, info)"
    and starts: "hi_starts_with_annexb_start_code info" and idr: "hi_has_idr info"
  shows "native_h264_annexb_is_keyframe (([0, 0, 0, 1] @ s) @ ([0, 0, 0, 1] @ p) @ d)"
proof -
  let ?pp = "([0, 0, 0, 1] @ s) @ [0, 0, 0, 1] @ p"
  define data where "data = ?pp @ d"
  obtain k where k: "sc_list d = Some (0, k)" using scan_first_code [OF scan starts] by blast
  have s': "nal_ok s" "start_code_free s" "nal_type s = 7"
    and p': "nal_ok p" "start_code_free p" "nal_type p = 8" using s p by (auto simp: set_nal_def)
  have D1: "data = [] @ [0, 0, 0, 1] @ s @ ([0, 0, 0, 1] @ p @ d)" by (simp add: data_def)
  obtain sn where sn: "nal_ok sn" "nal_type sn = 7"
    and L1: "annexb_scan_loop data 0 h264_info_zero = annexb_scan_loop data (4 + length s)
       (count_nal (snd (scan_nal sn (h264_info_zero\<lparr>hi_starts_with_annexb_start_code := True\<rparr>))))"
    using loop_step [OF D1 s'(1,2), of 4 h264_info_zero] s'(3) by (auto simp: h264_info_zero_def)
  define i1 where "i1 = count_nal (snd (scan_nal sn (h264_info_zero\<lparr>hi_starts_with_annexb_start_code := True\<rparr>)))"
  have i1: "hi_nal_count i1 \<noteq> 0" "hi_has_sps i1"
    using scan_nal_flags(1) [OF sn(1)] sn(2) by (simp_all add: i1_def) (simp add: count_nal_def)
  have D2: "data = ([0, 0, 0, 1] @ s) @ [0, 0, 0, 1] @ p @ d" by (simp add: data_def)
  have len: "length ([0, 0, 0, 1] @ s) = 4 + length s" "length ?pp = 4 + length s + 4 + length p"
    by simp_all
  obtain pn where pn: "nal_ok pn" "nal_type pn = 8"
    and L2: "annexb_scan_loop data (4 + length s) i1 =
       annexb_scan_loop data (4 + length s + 4 + length p) (count_nal (snd (scan_nal pn i1)))"
    using loop_step [OF D2 p'(1,2) k, of i1, unfolded len] p'(3) i1(1) by (auto simp: add_ac)
  define i2 where "i2 = count_nal (snd (scan_nal pn i1))"
  have i2: "seeds h264_info_zero i2"
    using scan_nal_flags(1,2) [OF pn(1), of i1] pn(2) i1
    by (simp add: seeds_def h264_info_zero_def i2_def) (simp add: count_nal_def)
  have "annexb_scan_loop d 0 h264_info_zero = (NATIVE_H264_OK, info)"
    using scan by (simp add: native_h264_scan_annexb_def)
  from loop_seeds [OF this i2, of ?pp] obtain j where
    "annexb_scan_loop data (length ?pp) i2 = (NATIVE_H264_OK, j)" "hi_can_seed_decoder j"
    using idr by (auto simp: seeds_def data_def)
  then have "native_h264_scan_annexb data = (NATIVE_H264_OK, j)"
    using L1 L2 unfolding len by (simp add: native_h264_scan_annexb_def i1_def [symmetric] i2_def [symmetric])
  then have "native_h264_annexb_is_keyframe data"
    using \<open>hi_can_seed_decoder j\<close> by (simp add: native_h264_annexb_is_keyframe_def data_def)
  then show ?thesis by (simp add: data_def)
qed

lemma seeding_keyframe:
  assumes "native_h264_scan_annexb d = (NATIVE_H264_OK, info)"
    and "hi_starts_with_annexb_start_code info" "hi_can_seed_decoder info"
  shows "native_h264_annexb_is_keyframe d"
  using scan_first_code [OF assms(1,2)] assms(1,3) by (auto simp: native_h264_annexb_is_keyframe_def)

end
