(* ===== verification/Hevc_Annexb.thy ===== *)
theory Hevc_Annexb
  imports Start_Code
begin

text \<open>
  The HEVC Annex-B scanner, \<open>native/src/hevc_annexb.c\<close>: NAL classification by the two-byte HEVC
  header, and the rule that a decoder can start at an IRAP picture once VPS, SPS and PPS have
  been seen in the access unit.
\<close>

section \<open>Data and operations\<close>

datatype NativeHevcResult = NATIVE_HEVC_OK | NATIVE_HEVC_INVALID

record NativeHevcInfo =
  hv_has_vps :: bool
  hv_has_sps :: bool
  hv_has_pps :: bool
  hv_has_irap :: bool
  hv_can_seed_decoder :: bool
  hv_nal_count :: nat

definition hevc_info_zero :: NativeHevcInfo where
  "hevc_info_zero = \<lparr>hv_has_vps = False, hv_has_sps = False, hv_has_pps = False,
     hv_has_irap = False, hv_can_seed_decoder = False, hv_nal_count = 0\<rparr>"

unbundle bit_operations_syntax

definition hevc_annexb_prefix_at :: "bytes \<Rightarrow> nat \<Rightarrow> nat option" where
  "hevc_annexb_prefix_at data pos =
     (if pos + 3 \<le> length data \<and> data ! pos = 0 \<and> data ! (pos + 1) = 0 \<and> data ! (pos + 2) = 1
      then Some 3
      else if pos + 4 \<le> length data \<and> data ! pos = 0 \<and> data ! (pos + 1) = 0 \<and>
              data ! (pos + 2) = 0 \<and> data ! (pos + 3) = 1
      then Some 4
      else None)"

function hevc_find_annexb_prefix :: "bytes \<Rightarrow> nat \<Rightarrow> (nat \<times> nat) option" where
  "hevc_find_annexb_prefix data pos =
     (if pos + 3 \<le> length data then
        case hevc_annexb_prefix_at data pos of
          Some n \<Rightarrow> Some (pos, n)
        | None \<Rightarrow> hevc_find_annexb_prefix data (pos + 1)
      else None)"
  by pat_completeness auto
termination
  by (relation "measure (\<lambda>(data, pos). length data - pos)") auto

declare hevc_find_annexb_prefix.simps [simp del]

interpretation hevc_finder: annexb_finder hevc_annexb_prefix_at hevc_find_annexb_prefix
proof
  show "hevc_find_annexb_prefix data pos = (if pos + 3 \<le> length data then
      case hevc_annexb_prefix_at data pos of Some n \<Rightarrow> Some (pos, n)
      | None \<Rightarrow> hevc_find_annexb_prefix data (pos + 1) else None)" for data pos
    by (rule hevc_find_annexb_prefix.simps)
qed (simp only: hevc_annexb_prefix_at_def)

definition hevc_type :: "u8 \<Rightarrow> u8" where
  "hevc_type nal_header = drop_bit 1 nal_header AND 0x3f"

definition scan_nal_type :: "u8 \<Rightarrow> NativeHevcInfo \<Rightarrow> NativeHevcInfo" where
  "scan_nal_type nal_header info =
     (let nal_type = hevc_type nal_header in
      if nal_type = 32 then info\<lparr>hv_has_vps := True\<rparr>
      else if nal_type = 33 then info\<lparr>hv_has_sps := True\<rparr>
      else if nal_type = 34 then info\<lparr>hv_has_pps := True\<rparr>
      else if nal_type \<ge> 16 \<and> nal_type \<le> 21 then
        info\<lparr>hv_has_irap := True,
          hv_can_seed_decoder := hv_can_seed_decoder info \<or>
            (hv_has_vps info \<and> hv_has_sps info \<and> hv_has_pps info)\<rparr>
      else info)"

definition hevc_count_nal :: "NativeHevcInfo \<Rightarrow> NativeHevcInfo" where
  "hevc_count_nal info = info\<lparr>hv_nal_count := hv_nal_count info + 1\<rparr>"

function hevc_scan_loop :: "bytes \<Rightarrow> nat \<Rightarrow> NativeHevcInfo \<Rightarrow> NativeHevcResult \<times> NativeHevcInfo" where
  "hevc_scan_loop data pos info =
     (case hevc_find_annexb_prefix data pos of
        None \<Rightarrow> (if hv_nal_count info = 0 then NATIVE_HEVC_INVALID else NATIVE_HEVC_OK, info)
      | Some (prefix_pos, prefix_len) \<Rightarrow>
        let nal_start = prefix_pos + prefix_len;
            next = (case hevc_find_annexb_prefix data nal_start of
                      Some (p, _) \<Rightarrow> p | None \<Rightarrow> length data) in
        if next - nal_start < 2 \<or> data ! nal_start AND 0x80 \<noteq> 0 \<or> data ! (nal_start + 1) AND 7 = 0
        then (NATIVE_HEVC_INVALID, info)
        else hevc_scan_loop data next (hevc_count_nal (scan_nal_type (data ! nal_start) info)))"
  by pat_completeness auto
termination
  by (relation "measure (\<lambda>(data, pos, info). length data - pos)")
    (auto dest!: hevc_finder.find_bounds)

declare hevc_scan_loop.simps [simp del]

definition native_hevc_scan_annexb :: "bytes \<Rightarrow> NativeHevcResult \<times> NativeHevcInfo" where
  "native_hevc_scan_annexb data = hevc_scan_loop data 0 hevc_info_zero"

section \<open>Framed access units\<close>

definition hevc_nal_ok :: "bytes \<Rightarrow> bool" where
  "hevc_nal_ok n \<longleftrightarrow> 2 \<le> length n \<and> n ! 0 AND 0x80 = 0 \<and> n ! 1 AND 7 \<noteq> 0 \<and> start_code_free n"

definition hevc_frame :: "bytes list \<Rightarrow> bytes" where
  "hevc_frame nals = concat (map (\<lambda>n. [0, 0, 0, 1] @ n) nals)"

definition hevc_classify :: "bytes list \<Rightarrow> NativeHevcInfo \<Rightarrow> NativeHevcInfo" where
  "hevc_classify nals info = foldl (\<lambda>i n. hevc_count_nal (scan_nal_type (n ! 0) i)) info nals"

lemma hevc_frame_simps [simp]:
  "hevc_frame [] = []" "hevc_frame (n # ns) = [0, 0, 0, 1] @ n @ hevc_frame ns"
  and hevc_classify_simps [simp]: "hevc_classify [] info = info"
  "hevc_classify (n # ns) info = hevc_classify ns (hevc_count_nal (scan_nal_type (n ! 0) info))"
  by (simp_all add: hevc_frame_def hevc_classify_def)

lemma hevc_loop_framed:
  assumes "data = pre @ hevc_frame nals" "\<forall>n \<in> set nals. hevc_nal_ok n"
    and "hv_nal_count info = 0 \<longrightarrow> nals \<noteq> []"
  shows "hevc_scan_loop data (length pre) info = (NATIVE_HEVC_OK, hevc_classify nals info)"
  using assms
proof (induction nals arbitrary: pre info)
  case Nil
  then show ?case by (subst hevc_scan_loop.simps) (simp add: hevc_finder.find_at_end)
next
  case (Cons n ns)
  let ?pre = "pre @ [0, 0, 0, 1] @ n"
  have n: "2 \<le> length n" "n ! 0 AND 0x80 = 0" "n ! 1 AND 7 \<noteq> 0" "start_code_free n"
    using Cons.prems(2) by (auto simp: hevc_nal_ok_def)
  have fnd: "hevc_find_annexb_prefix data (length pre) = Some (length pre, 4)"
    using Cons.prems(1) by (intro hevc_finder.find_at_code) simp
  have "(case hevc_find_annexb_prefix data (length (pre @ [0, 0, 0, 1])) of
      Some (p, _) \<Rightarrow> p | None \<Rightarrow> length data) = length (pre @ [0, 0, 0, 1]) + length n"
    using Cons.prems(1) n(4)
    by (intro hevc_finder.next_bound [of data _ n "hevc_frame ns"]) (cases ns; auto)+
  moreover have "length (pre @ [0, 0, 0, 1]) = length pre + 4" by simp
  ultimately have nxt: "(case hevc_find_annexb_prefix data (length pre + 4) of
      Some (p, _) \<Rightarrow> p | None \<Rightarrow> length data) = length pre + 4 + length n" by metis
  have hdr: "data ! (length pre + 4) = n ! 0" "data ! (length pre + 4 + 1) = n ! 1"
    using Cons.prems(1) n(1) by (auto simp: nth_append)
  have lp: "length ?pre = length pre + 4 + length n" by simp
  have "hevc_scan_loop data (length pre) info =
      hevc_scan_loop data (length ?pre) (hevc_count_nal (scan_nal_type (n ! 0) info))"
    unfolding lp using n(1-3) hdr nxt by (subst hevc_scan_loop.simps) (simp add: fnd Let_def)
  also have "\<dots> = (NATIVE_HEVC_OK, hevc_classify (n # ns) info)"
    using Cons.IH [of ?pre "hevc_count_nal (scan_nal_type (n ! 0) info)"] Cons.prems(1,2)
    by (simp add: hevc_count_nal_def)
  finally show ?case .
qed

definition hevc_irap :: "bytes \<Rightarrow> bool" where
  "hevc_irap n \<longleftrightarrow> 16 \<le> hevc_type (n ! 0) \<and> hevc_type (n ! 0) \<le> 21"

lemma hevc_classify_seed:
  "(hv_has_vps (hevc_classify nals hevc_info_zero) \<longleftrightarrow> (\<exists>n \<in> set nals. hevc_type (n ! 0) = 32)) \<and>
   (hv_has_sps (hevc_classify nals hevc_info_zero) \<longleftrightarrow> (\<exists>n \<in> set nals. hevc_type (n ! 0) = 33)) \<and>
   (hv_has_pps (hevc_classify nals hevc_info_zero) \<longleftrightarrow> (\<exists>n \<in> set nals. hevc_type (n ! 0) = 34)) \<and>
   (hv_can_seed_decoder (hevc_classify nals hevc_info_zero) \<longleftrightarrow>
      (\<exists>before irap after. nals = before @ irap # after \<and> hevc_irap irap \<and>
        (\<forall>t \<in> {32, 33, 34}. \<exists>n \<in> set before. hevc_type (n ! 0) = t)))"
proof (induction nals rule: rev_induct)
  case Nil
  show ?case by (simp add: hevc_info_zero_def)
next
  case (snoc n ns)
  let ?i = "hevc_classify ns hevc_info_zero"
  have step: "hevc_classify (ns @ [n]) hevc_info_zero = hevc_count_nal (scan_nal_type (n ! 0) ?i)"
    by (simp add: hevc_classify_def)
  have "hevc_irap n \<Longrightarrow> hevc_type (n ! 0) \<notin> {32, 33, 34}"
    by (auto simp: hevc_irap_def)
  then show ?case
    using snoc unfolding step last_split [of ns n "\<lambda>before irap. hevc_irap irap \<and>
        (\<forall>t \<in> {32, 33, 34}. \<exists>n \<in> set before. hevc_type (n ! 0) = t)"]
    by (auto simp: scan_nal_type_def hevc_count_nal_def Let_def hevc_irap_def)
qed



end
