(* ===== verification/Camera_Stream.thy ===== *)
theory Camera_Stream
  imports H264_Seed Fifo
begin

text \<open>
  The camera's native-H.264 stream normaliser, \<open>native/src/camera_h264_stream.c\<close>: it caches the
  last parameter sets, gates dependent pictures until a self-contained IDR unit is queued, and
  keeps at most eight access units in 8 MiB for the RDPECAM mailbox.  A heap allocation is the
  only call outside the model: \<open>alloc i\<close> says whether the \<open>i\<close>-th \<open>malloc\<close> of one ingest call
  (0: SPS copy, 1: PPS copy, 2: queued unit) returned memory.
\<close>

section \<open>Data\<close>

definition NATIVE_CAMERA_H264_FIFO_AUS :: nat where "NATIVE_CAMERA_H264_FIFO_AUS = 8"
definition NATIVE_CAMERA_H264_FIFO_BYTES :: nat where "NATIVE_CAMERA_H264_FIFO_BYTES = 8 * 1024 * 1024"
definition NATIVE_CAMERA_H264_WAIT_AUS :: nat where "NATIVE_CAMERA_H264_WAIT_AUS = 8"
definition NATIVE_CAMERA_H264_MAX_AU_BYTES :: nat where
  "NATIVE_CAMERA_H264_MAX_AU_BYTES = 4 * 1024 * 1024"

text \<open>The kernel's flag for a corrupt buffer (\<open>linux/videodev2.h\<close>).\<close>

definition V4L2_BUF_FLAG_ERROR :: u32 where "V4L2_BUF_FLAG_ERROR = 0x40"

record NativeCameraFrame =
  cf_data :: "bytes option"
  cf_timestamp_us :: u64
  cf_sequence :: u32
  cf_flags :: u32

record NativeCameraOwnedAu =
  oa_data :: "bytes option"
  oa_len :: nat
  oa_timestamp_us :: u64
  oa_sequence :: u32
  oa_is_idr :: bool

record NativeCameraH264Stream =
  cs_sps :: "bytes option"
  cs_sps_len :: nat
  cs_pps :: "bytes option"
  cs_pps_len :: nat
  cs_fifo :: "NativeCameraOwnedAu list"
  cs_head :: nat
  cs_count :: nat
  cs_bytes :: nat
  cs_waiting_aus :: nat
  cs_last_sequence :: u32
  cs_have_sequence :: bool
  cs_seeded :: bool

datatype NativeCameraH264IngestResult =
  INGEST_WAITING | INGEST_QUEUED | INGEST_SAMPLE_ERROR | INGEST_RECOVER

section \<open>Operations\<close>

definition camera_owned_au_clear :: "NativeCameraOwnedAu \<Rightarrow> NativeCameraOwnedAu" where
  "camera_owned_au_clear au = \<lparr>oa_data = None, oa_len = 0, oa_timestamp_us = 0, oa_sequence = 0,
     oa_is_idr = False\<rparr>"

definition native_camera_h264_stream_reset :: "NativeCameraH264Stream \<Rightarrow> NativeCameraH264Stream" where
  "native_camera_h264_stream_reset s = s\<lparr>
     cs_fifo := map camera_owned_au_clear (cs_fifo s), cs_sps := None, cs_sps_len := 0,
     cs_pps := None, cs_pps_len := 0, cs_head := 0, cs_count := 0, cs_bytes := 0,
     cs_waiting_aus := 0, cs_last_sequence := 0, cs_have_sequence := False, cs_seeded := False\<rparr>"

text \<open>\<open>calloc\<close>: the stream as created.\<close>

definition native_camera_h264_stream_create :: NativeCameraH264Stream where
  "native_camera_h264_stream_create = \<lparr>cs_sps = None, cs_sps_len = 0, cs_pps = None, cs_pps_len = 0,
     cs_fifo = replicate NATIVE_CAMERA_H264_FIFO_AUS \<lparr>oa_data = None, oa_len = 0,
       oa_timestamp_us = 0, oa_sequence = 0, oa_is_idr = False\<rparr>,
     cs_head = 0, cs_count = 0, cs_bytes = 0, cs_waiting_aus = 0, cs_last_sequence = 0,
     cs_have_sequence = False, cs_seeded = False\<rparr>"

definition camera_stream_recover ::
    "NativeCameraH264Stream \<Rightarrow> NativeCameraH264IngestResult \<times> NativeCameraH264Stream" where
  "camera_stream_recover s = (INGEST_RECOVER, native_camera_h264_stream_reset s)"

definition camera_stream_wait ::
    "NativeCameraH264Stream \<Rightarrow> NativeCameraH264IngestResult \<times> NativeCameraH264Stream" where
  "camera_stream_wait s =
     (let s = s\<lparr>cs_waiting_aus := cs_waiting_aus s + 1\<rparr> in
      if cs_waiting_aus s \<ge> NATIVE_CAMERA_H264_WAIT_AUS
      then (INGEST_SAMPLE_ERROR, s\<lparr>cs_waiting_aus := 0\<rparr>)
      else (INGEST_WAITING, s))"

text \<open>A copy of one parameter set behind a start code; None when it is empty, too long or not allocated.\<close>

definition camera_parameter_set_copy :: "bool \<Rightarrow> bytes option \<Rightarrow> bytes option" where
  "camera_parameter_set_copy mem nal =
     (case nal of None \<Rightarrow> None
      | Some n \<Rightarrow>
        if length n = 0 \<or> length n > NATIVE_CAMERA_H264_MAX_AU_BYTES - 4 then None
        else if \<not> mem then None
        else Some ([0, 0, 0, 1] @ n))"

definition camera_stream_cache_parameter_sets ::
    "(nat \<Rightarrow> bool) \<Rightarrow> NativeCameraH264Stream \<Rightarrow> NativeH264Info \<Rightarrow> bool \<times> NativeCameraH264Stream" where
  "camera_stream_cache_parameter_sets alloc s info =
     (let new_sps = (if hi_has_sps info then camera_parameter_set_copy (alloc 0) (hi_sps info) else None);
          new_pps = (if hi_has_pps info then camera_parameter_set_copy (alloc 1) (hi_pps info) else None) in
      if hi_has_sps info \<and> new_sps = None then (False, s)
      else if hi_has_pps info \<and> new_pps = None then (False, s)
      else
        let final_sps_len = (case new_sps of Some n \<Rightarrow> length n | None \<Rightarrow> cs_sps_len s);
            final_pps_len = (case new_pps of Some n \<Rightarrow> length n | None \<Rightarrow> cs_pps_len s) in
        if final_sps_len > NATIVE_CAMERA_H264_MAX_AU_BYTES \<or>
           final_pps_len > NATIVE_CAMERA_H264_MAX_AU_BYTES - final_sps_len
        then (False, s)
        else
          let s = (case new_sps of None \<Rightarrow> s | Some n \<Rightarrow> s\<lparr>cs_sps := Some n, cs_sps_len := length n\<rparr>);
              s = (case new_pps of None \<Rightarrow> s | Some n \<Rightarrow> s\<lparr>cs_pps := Some n, cs_pps_len := length n\<rparr>) in
          (True, s))"

definition camera_stream_queue :: "bool \<Rightarrow> NativeCameraH264Stream \<Rightarrow> NativeCameraFrame \<Rightarrow>
    bytes \<Rightarrow> NativeH264Info \<Rightarrow> bool \<times> NativeCameraH264Stream" where
  "camera_stream_queue mem s frame data info =
     (let need = hi_has_idr info \<and> \<not> hi_can_seed_decoder info in
      if need \<and> (cs_sps s = None \<or> cs_pps s = None \<or> cs_sps_len s > SIZE_MAX - cs_pps_len s)
      then (False, s)
      else
        let prefix = (if need then cs_sps_len s + cs_pps_len s else 0) in
        if prefix > NATIVE_CAMERA_H264_MAX_AU_BYTES \<or>
           length data > NATIVE_CAMERA_H264_MAX_AU_BYTES - prefix
        then (False, s)
        else
          let output_len = prefix + length data in
          if cs_count s \<ge> NATIVE_CAMERA_H264_FIFO_AUS \<or>
             output_len > NATIVE_CAMERA_H264_FIFO_BYTES - cs_bytes s
          then (False, s)
          else if \<not> mem then (False, s)
          else
            let copy = (if prefix \<noteq> 0 then the (cs_sps s) @ the (cs_pps s) else []) @ data;
                tail = (cs_head s + cs_count s) mod NATIVE_CAMERA_H264_FIFO_AUS in
            (True, s\<lparr>cs_fifo := (cs_fifo s)[tail := \<lparr>oa_data = Some copy, oa_len = output_len,
                 oa_timestamp_us = cf_timestamp_us frame, oa_sequence = cf_sequence frame,
                 oa_is_idr = hi_has_idr info\<rparr>],
               cs_count := cs_count s + 1, cs_bytes := cs_bytes s + output_len\<rparr>))"

text \<open>The sequence check of ingest: a gap closes the gate and primes the wait counter.\<close>

definition camera_stream_sequence :: "NativeCameraH264Stream \<Rightarrow> NativeCameraFrame \<Rightarrow> NativeCameraH264Stream" where
  "camera_stream_sequence s frame =
     (let s = (if cs_have_sequence s \<and> cf_sequence frame \<noteq> cs_last_sequence s + 1
               then s\<lparr>cs_seeded := False, cs_waiting_aus := NATIVE_CAMERA_H264_WAIT_AUS - 1\<rparr> else s) in
      s\<lparr>cs_last_sequence := cf_sequence frame, cs_have_sequence := True\<rparr>)"

text \<open>The rest of ingest, from the Annex-B scan on.\<close>

definition camera_stream_ingest_scanned :: "(nat \<Rightarrow> bool) \<Rightarrow> NativeCameraH264Stream \<Rightarrow>
    NativeCameraFrame \<Rightarrow> bytes \<Rightarrow> NativeCameraH264IngestResult \<times> NativeCameraH264Stream" where
  "camera_stream_ingest_scanned alloc s frame data =
     (let (r, info) = native_h264_scan_annexb data in
      if r \<noteq> NATIVE_H264_OK then camera_stream_recover s
      else if \<not> hi_starts_with_annexb_start_code info then camera_stream_recover s
      else
        let (cached, s) = camera_stream_cache_parameter_sets alloc s info in
        if \<not> cached then camera_stream_recover s
        else if \<not> hi_has_vcl info then camera_stream_wait s
        else if \<not> cs_seeded s \<and> \<not> hi_has_idr info then camera_stream_wait s
        else if hi_has_idr info \<and> \<not> hi_can_seed_decoder info \<and> (cs_sps s = None \<or> cs_pps s = None)
        then camera_stream_wait s
        else
          let (queued, s) = camera_stream_queue (alloc 2) s frame data info in
          if \<not> queued then camera_stream_recover s
          else
            let s = (if hi_has_idr info then s\<lparr>cs_seeded := True\<rparr> else s) in
            (INGEST_QUEUED, s\<lparr>cs_waiting_aus := 0\<rparr>))"

unbundle bit_operations_syntax

definition native_camera_h264_stream_ingest :: "(nat \<Rightarrow> bool) \<Rightarrow> NativeCameraH264Stream \<Rightarrow>
    NativeCameraFrame \<Rightarrow> NativeCameraH264IngestResult \<times> NativeCameraH264Stream" where
  "native_camera_h264_stream_ingest alloc s frame =
     (case cf_data frame of None \<Rightarrow> camera_stream_recover s
      | Some data \<Rightarrow>
        if length data = 0 \<or> length data > NATIVE_CAMERA_H264_MAX_AU_BYTES then camera_stream_recover s
        else if cf_flags frame AND V4L2_BUF_FLAG_ERROR \<noteq> 0 then camera_stream_recover s
        else camera_stream_ingest_scanned alloc (camera_stream_sequence s frame) frame data)"

record NativeCameraH264Packet =
  cp_data :: "bytes option"
  cp_len :: nat
  cp_timestamp_us :: u64
  cp_sequence :: u32
  cp_is_idr :: bool

definition native_camera_h264_stream_peek :: "NativeCameraH264Stream \<Rightarrow> NativeCameraH264Packet option" where
  "native_camera_h264_stream_peek s =
     (if cs_count s = 0 then None
      else let head = cs_fifo s ! cs_head s in
        Some \<lparr>cp_data = oa_data head, cp_len = oa_len head, cp_timestamp_us = oa_timestamp_us head,
          cp_sequence = oa_sequence head, cp_is_idr = oa_is_idr head\<rparr>)"

definition native_camera_h264_stream_pop :: "NativeCameraH264Stream \<Rightarrow> NativeCameraH264Stream" where
  "native_camera_h264_stream_pop s =
     (if cs_count s = 0 then s
      else let head = cs_fifo s ! cs_head s in
        s\<lparr>cs_bytes := cs_bytes s - oa_len head,
          cs_fifo := (cs_fifo s)[cs_head s := camera_owned_au_clear head],
          cs_head := (cs_head s + 1) mod NATIVE_CAMERA_H264_FIFO_AUS,
          cs_count := cs_count s - 1\<rparr>)"

definition native_camera_h264_stream_queued_aus :: "NativeCameraH264Stream \<Rightarrow> nat" where
  "native_camera_h264_stream_queued_aus s = cs_count s"

definition native_camera_h264_stream_queued_bytes :: "NativeCameraH264Stream \<Rightarrow> nat" where
  "native_camera_h264_stream_queued_bytes s = cs_bytes s"

section \<open>Content and invariant\<close>

definition cs_content :: "NativeCameraH264Stream \<Rightarrow> NativeCameraOwnedAu list" where
  "cs_content s = ring_list NATIVE_CAMERA_H264_FIFO_AUS (cs_fifo s) (cs_head s) (cs_count s)"

text \<open>A queued unit carries its bytes, and one marked IDR can start a decoder on its own.\<close>

definition au_wf :: "NativeCameraOwnedAu \<Rightarrow> bool" where
  "au_wf au \<longleftrightarrow> (case oa_data au of None \<Rightarrow> False
     | Some d \<Rightarrow> oa_len au = length d \<and> length d \<le> NATIVE_CAMERA_H264_MAX_AU_BYTES \<and>
         (oa_is_idr au \<longrightarrow> native_h264_annexb_is_keyframe d))"

definition set_wf :: "u8 \<Rightarrow> bytes option \<Rightarrow> nat \<Rightarrow> bool" where
  "set_wf t p n \<longleftrightarrow> (case p of None \<Rightarrow> n = 0
     | Some d \<Rightarrow> n = length d \<and> take 4 d = [0, 0, 0, 1] \<and> set_nal t (drop 4 d))"

definition cs_inv :: "NativeCameraH264Stream \<Rightarrow> bool" where
  "cs_inv s \<longleftrightarrow> length (cs_fifo s) = NATIVE_CAMERA_H264_FIFO_AUS \<and>
     cs_head s < NATIVE_CAMERA_H264_FIFO_AUS \<and> cs_count s \<le> NATIVE_CAMERA_H264_FIFO_AUS \<and>
     cs_bytes s = sum_list (map oa_len (cs_content s)) \<and>
     cs_bytes s \<le> NATIVE_CAMERA_H264_FIFO_BYTES \<and>
     (\<forall>au \<in> set (cs_content s). au_wf au) \<and>
     set_wf 7 (cs_sps s) (cs_sps_len s) \<and> set_wf 8 (cs_pps s) (cs_pps_len s) \<and>
     cs_sps_len s + cs_pps_len s \<le> NATIVE_CAMERA_H264_MAX_AU_BYTES \<and>
     cs_waiting_aus s < NATIVE_CAMERA_H264_WAIT_AUS"

lemma cs_content_cong [simp]:
  "cs_content (s\<lparr>cs_sps := a\<rparr>) = cs_content s" "cs_content (s\<lparr>cs_pps := a\<rparr>) = cs_content s"
  "cs_content (s\<lparr>cs_sps_len := n\<rparr>) = cs_content s" "cs_content (s\<lparr>cs_pps_len := n\<rparr>) = cs_content s"
  "cs_content (s\<lparr>cs_waiting_aus := n\<rparr>) = cs_content s"
  "cs_content (s\<lparr>cs_last_sequence := w\<rparr>) = cs_content s"
  "cs_content (s\<lparr>cs_have_sequence := b\<rparr>) = cs_content s"
  "cs_content (s\<lparr>cs_seeded := b\<rparr>) = cs_content s"
  "cs_content (s\<lparr>cs_bytes := n\<rparr>) = cs_content s"
  by (simp_all add: cs_content_def)

section \<open>The invariant, operation by operation\<close>

lemmas cs_consts = NATIVE_CAMERA_H264_FIFO_AUS_def NATIVE_CAMERA_H264_FIFO_BYTES_def
  NATIVE_CAMERA_H264_WAIT_AUS_def NATIVE_CAMERA_H264_MAX_AU_BYTES_def

lemma cs_reset_inv [inv_pres]:
  "length (cs_fifo s) = NATIVE_CAMERA_H264_FIFO_AUS \<Longrightarrow> cs_inv (native_camera_h264_stream_reset s)"
  by (simp add: native_camera_h264_stream_reset_def cs_inv_def cs_content_def set_wf_def cs_consts)

lemma cs_create_inv [inv_pres]: "cs_inv native_camera_h264_stream_create"
  by (simp add: native_camera_h264_stream_create_def cs_inv_def cs_content_def set_wf_def cs_consts)

lemma cs_recover_inv [inv_pres]: "cs_inv s \<Longrightarrow> cs_inv (snd (camera_stream_recover s))"
  by (simp add: camera_stream_recover_def cs_reset_inv cs_inv_def [of s])

lemma cs_wait_inv [inv_pres]: "cs_inv s \<Longrightarrow> cs_inv (snd (camera_stream_wait s))"
  by (auto simp: camera_stream_wait_def Let_def cs_inv_def cs_consts)

lemma cs_sequence_inv [inv_pres]: "cs_inv s \<Longrightarrow> cs_inv (camera_stream_sequence s frame)"
  by (auto simp: camera_stream_sequence_def Let_def cs_inv_def NATIVE_CAMERA_H264_WAIT_AUS_def)

lemma cs_copy_Some:
  "camera_parameter_set_copy mem nal = Some d \<Longrightarrow> \<exists>n. nal = Some n \<and> d = [0, 0, 0, 1] @ n"
  by (auto simp: camera_parameter_set_copy_def split: option.splits if_splits)

lemma cs_cache_cases:
  assumes "camera_stream_cache_parameter_sets alloc s info = (True, s')" "sets_ok info"
  shows "\<exists>a m b n. s' = s\<lparr>cs_sps := a, cs_sps_len := m, cs_pps := b, cs_pps_len := n\<rparr> \<and>
     m + n \<le> NATIVE_CAMERA_H264_MAX_AU_BYTES \<and>
     (set_wf 7 (cs_sps s) (cs_sps_len s) \<longrightarrow> set_wf 7 a m) \<and>
     (set_wf 8 (cs_pps s) (cs_pps_len s) \<longrightarrow> set_wf 8 b n)"
proof -
  define ns where "ns = (if hi_has_sps info then camera_parameter_set_copy (alloc 0) (hi_sps info) else None)"
  define np where "np = (if hi_has_pps info then camera_parameter_set_copy (alloc 1) (hi_pps info) else None)"
  define a where "a = (case ns of None \<Rightarrow> cs_sps s | Some n \<Rightarrow> Some n)"
  define m where "m = (case ns of Some n \<Rightarrow> length n | None \<Rightarrow> cs_sps_len s)"
  define b where "b = (case np of None \<Rightarrow> cs_pps s | Some n \<Rightarrow> Some n)"
  define n where "n = (case np of Some n \<Rightarrow> length n | None \<Rightarrow> cs_pps_len s)"
  have res: "s' = (case np of None \<Rightarrow> (case ns of None \<Rightarrow> s | Some d \<Rightarrow> s\<lparr>cs_sps := Some d, cs_sps_len := length d\<rparr>)
      | Some e \<Rightarrow> (case ns of None \<Rightarrow> s | Some d \<Rightarrow> s\<lparr>cs_sps := Some d, cs_sps_len := length d\<rparr>)
          \<lparr>cs_pps := Some e, cs_pps_len := length e\<rparr>)"
    and len: "m + n \<le> NATIVE_CAMERA_H264_MAX_AU_BYTES"
    using assms(1)
    unfolding camera_stream_cache_parameter_sets_def Let_def ns_def [symmetric] np_def [symmetric]
      m_def [symmetric] n_def [symmetric] by (auto split: if_splits)
  have "s' = s\<lparr>cs_sps := a, cs_sps_len := m, cs_pps := b, cs_pps_len := n\<rparr>"
    unfolding res a_def m_def b_def n_def by (cases ns; cases np) simp_all
  moreover have "set_wf 7 (cs_sps s) (cs_sps_len s) \<longrightarrow> set_wf 7 a m"
    using assms(2) cs_copy_Some [of "alloc 0" "hi_sps info"]
    by (cases ns) (auto simp: a_def m_def ns_def set_wf_def sets_ok_def split: if_splits)
  moreover have "set_wf 8 (cs_pps s) (cs_pps_len s) \<longrightarrow> set_wf 8 b n"
    using assms(2) cs_copy_Some [of "alloc 1" "hi_pps info"]
    by (cases np) (auto simp: b_def n_def np_def set_wf_def sets_ok_def split: if_splits)
  ultimately show ?thesis using len by blast
qed

text \<open>The unit an accepted picture is queued as.\<close>

definition cs_unit :: "NativeCameraH264Stream \<Rightarrow> NativeCameraFrame \<Rightarrow> bytes \<Rightarrow> NativeH264Info \<Rightarrow>
    NativeCameraOwnedAu" where
  "cs_unit s frame data info =
     (let d = (if hi_has_idr info \<and> \<not> hi_can_seed_decoder info
          then the (cs_sps s) @ the (cs_pps s) @ data else data) in
      \<lparr>oa_data = Some d, oa_len = length d, oa_timestamp_us = cf_timestamp_us frame,
        oa_sequence = cf_sequence frame, oa_is_idr = hi_has_idr info\<rparr>)"

lemma set_wf_Some: "set_wf t (Some d) n \<Longrightarrow> n = length d \<and> 0 < n"
  by (cases d) (auto simp: set_wf_def)

lemma cs_queue_result:
  assumes inv: "cs_inv s" and q: "camera_stream_queue mem s frame data info = (True, s')"
  shows "s' = s\<lparr>cs_fifo := (cs_fifo s)[(cs_head s + cs_count s) mod NATIVE_CAMERA_H264_FIFO_AUS :=
        cs_unit s frame data info],
      cs_count := cs_count s + 1, cs_bytes := cs_bytes s + oa_len (cs_unit s frame data info)\<rparr>"
    and "oa_len (cs_unit s frame data info) \<le> NATIVE_CAMERA_H264_MAX_AU_BYTES"
    and "cs_bytes s + oa_len (cs_unit s frame data info) \<le> NATIVE_CAMERA_H264_FIFO_BYTES"
    and "cs_count s < NATIVE_CAMERA_H264_FIFO_AUS"
    and "hi_has_idr info \<Longrightarrow> \<not> hi_can_seed_decoder info \<Longrightarrow> cs_sps s \<noteq> None \<and> cs_pps s \<noteq> None"
proof -
  let ?need = "hi_has_idr info \<and> \<not> hi_can_seed_decoder info"
  define prefix where "prefix = (if ?need then cs_sps_len s + cs_pps_len s else 0)"
  have sets: "cs_sps s \<noteq> None \<and> cs_pps s \<noteq> None" if ?need
    using q that by (simp add: camera_stream_queue_def Let_def split: if_splits)
  have len: "cs_sps_len s = length (the (cs_sps s)) \<and> 0 < cs_sps_len s \<and>
      cs_pps_len s = length (the (cs_pps s)) \<and> 0 < cs_pps_len s" if ?need
    using sets [OF that] inv set_wf_Some [of 7 "the (cs_sps s)" "cs_sps_len s"]
      set_wf_Some [of 8 "the (cs_pps s)" "cs_pps_len s"] by (auto simp: cs_inv_def)
  have unit: "oa_len (cs_unit s frame data info) = prefix + length data"
    "(if prefix \<noteq> 0 then the (cs_sps s) @ the (cs_pps s) else []) @ data =
       the (oa_data (cs_unit s frame data info))"
    using len by (auto simp: cs_unit_def Let_def prefix_def)
  have u: "\<lparr>oa_data = Some (the (oa_data (cs_unit s frame data info))),
      oa_len = oa_len (cs_unit s frame data info), oa_timestamp_us = cf_timestamp_us frame,
      oa_sequence = cf_sequence frame, oa_is_idr = hi_has_idr info\<rparr> = cs_unit s frame data info"
    by (simp add: cs_unit_def Let_def)
  have bytes: "cs_bytes s \<le> NATIVE_CAMERA_H264_FIFO_BYTES" using inv by (simp add: cs_inv_def)
  have all: "\<not> prefix > NATIVE_CAMERA_H264_MAX_AU_BYTES" 
    "\<not> length data > NATIVE_CAMERA_H264_MAX_AU_BYTES - prefix"
    "\<not> cs_count s \<ge> NATIVE_CAMERA_H264_FIFO_AUS"
    "\<not> prefix + length data > NATIVE_CAMERA_H264_FIFO_BYTES - cs_bytes s"
    and res: "s' = s\<lparr>cs_fifo := (cs_fifo s)[(cs_head s + cs_count s) mod NATIVE_CAMERA_H264_FIFO_AUS :=
        \<lparr>oa_data = Some ((if prefix \<noteq> 0 then the (cs_sps s) @ the (cs_pps s) else []) @ data),
         oa_len = prefix + length data, oa_timestamp_us = cf_timestamp_us frame,
         oa_sequence = cf_sequence frame, oa_is_idr = hi_has_idr info\<rparr>],
      cs_count := cs_count s + 1, cs_bytes := cs_bytes s + (prefix + length data)\<rparr>"
    using q unfolding camera_stream_queue_def Let_def prefix_def [symmetric]
    by (simp_all only: split: if_splits) simp_all
  show "s' = s\<lparr>cs_fifo := (cs_fifo s)[(cs_head s + cs_count s) mod NATIVE_CAMERA_H264_FIFO_AUS :=
        cs_unit s frame data info],
      cs_count := cs_count s + 1, cs_bytes := cs_bytes s + oa_len (cs_unit s frame data info)\<rparr>"
    using res unfolding unit(2) unit(1) [symmetric] u .
  show "oa_len (cs_unit s frame data info) \<le> NATIVE_CAMERA_H264_MAX_AU_BYTES"
    "cs_bytes s + oa_len (cs_unit s frame data info) \<le> NATIVE_CAMERA_H264_FIFO_BYTES"
    "cs_count s < NATIVE_CAMERA_H264_FIFO_AUS" using all bytes unit(1) by linarith+
  show "cs_sps s \<noteq> None \<and> cs_pps s \<noteq> None" if "hi_has_idr info" "\<not> hi_can_seed_decoder info"
    using sets that by blast
qed

lemma cs_queue_content:
  assumes "cs_inv s" "camera_stream_queue mem s frame data info = (True, s')"
  shows "cs_content s' = cs_content s @ [cs_unit s frame data info]"
  unfolding cs_queue_result(1) [OF assms] cs_content_def
  using ring_list_write_tail [of "cs_fifo s" NATIVE_CAMERA_H264_FIFO_AUS "cs_count s" "cs_head s"]
    cs_queue_result(4) [OF assms] assms(1) by (simp add: cs_inv_def)

lemma cs_queue_inv:
  assumes "cs_inv s" "camera_stream_queue mem s frame data info = (True, s')"
    and "au_wf (cs_unit s frame data info)"
  shows "cs_inv s'"
proof -
  note res = cs_queue_result [OF assms(1,2)]
  have fields: "length (cs_fifo s') = length (cs_fifo s)" "cs_head s' = cs_head s"
    "cs_count s' = cs_count s + 1" "cs_bytes s' = cs_bytes s + oa_len (cs_unit s frame data info)"
    "cs_sps s' = cs_sps s" "cs_pps s' = cs_pps s" "cs_sps_len s' = cs_sps_len s"
    "cs_pps_len s' = cs_pps_len s" "cs_waiting_aus s' = cs_waiting_aus s"
    using res(1) by simp_all
  show ?thesis
    using assms(1,3) res(2-4)
    unfolding cs_inv_def fields cs_queue_content [OF assms(1,2)] by auto
qed

lemma cs_unit_wf:
  assumes inv: "cs_inv s" and q: "camera_stream_queue mem s frame data info = (True, s')"
    and scan: "native_h264_scan_annexb data = (NATIVE_H264_OK, info)"
    and starts: "hi_starts_with_annexb_start_code info"
  shows "au_wf (cs_unit s frame data info)"
proof (cases "hi_has_idr info \<and> \<not> hi_can_seed_decoder info")
  case False
  then show ?thesis
    using cs_queue_result(2) [OF inv q] seeding_keyframe [OF scan starts]
    by (auto simp: au_wf_def cs_unit_def Let_def)
next
  case True
  then obtain sp pp where sets: "cs_sps s = Some sp" "cs_pps s = Some pp"
    using cs_queue_result(5) [OF inv q] by blast
  have wf: "take 4 sp = [0, 0, 0, 1]" "set_nal 7 (drop 4 sp)" "take 4 pp = [0, 0, 0, 1]"
    "set_nal 8 (drop 4 pp)" using inv sets by (simp_all add: cs_inv_def set_wf_def)
  have eqs: "[0, 0, 0, 1] @ drop 4 sp = sp" "[0, 0, 0, 1] @ drop 4 pp = pp"
    using wf(1,3) by (metis append_take_drop_id)+
  have "native_h264_annexb_is_keyframe (sp @ pp @ data)"
    using prefixed_keyframe [OF wf(2,4) scan starts, unfolded eqs] True by blast
  then show ?thesis
    using cs_queue_result(2) [OF inv q] True sets by (simp add: au_wf_def cs_unit_def Let_def)
qed

section \<open>Ingest and pop\<close>

text \<open>The four outcomes of the scanned part of ingest.\<close>

lemma cs_scanned_cases:
  assumes "cs_inv s" "camera_stream_ingest_scanned alloc s frame data = (r, s')"
  obtains (recover) s1 where "r = INGEST_RECOVER" "s' = native_camera_h264_stream_reset s1"
      "length (cs_fifo s1) = NATIVE_CAMERA_H264_FIFO_AUS"
    | (wait) s1 where "cs_inv s1" "cs_content s1 = cs_content s" "cs_waiting_aus s1 = cs_waiting_aus s"
        "cs_seeded s1 = cs_seeded s" "(r, s') = camera_stream_wait s1"
    | (queued) s1 s2 info where "r = INGEST_QUEUED" "cs_inv s1" "cs_content s1 = cs_content s"
        "cs_seeded s1 = cs_seeded s" "native_h264_scan_annexb data = (NATIVE_H264_OK, info)"
        "hi_starts_with_annexb_start_code info" "cs_seeded s \<or> hi_has_idr info"
        "camera_stream_queue (alloc 2) s1 frame data info = (True, s2)"
        "s' = (if hi_has_idr info then s2\<lparr>cs_seeded := True\<rparr> else s2)\<lparr>cs_waiting_aus := 0\<rparr>"
proof -
  obtain sr info where scan: "native_h264_scan_annexb data = (sr, info)" by fastforce
  obtain c s1 where cache: "camera_stream_cache_parameter_sets alloc s info = (c, s1)" by fastforce
  obtain b s2 where queue: "camera_stream_queue (alloc 2) s1 frame data info = (b, s2)" by fastforce
  have fifo: "length (cs_fifo s) = NATIVE_CAMERA_H264_FIFO_AUS" using assms(1) by (simp add: cs_inv_def)
  have s1: "length (cs_fifo s1) = NATIVE_CAMERA_H264_FIFO_AUS"
    using cache fifo by (auto simp: camera_stream_cache_parameter_sets_def Let_def split: if_splits option.splits)
  have s2: "length (cs_fifo s2) = NATIVE_CAMERA_H264_FIFO_AUS"
    using queue s1 by (auto simp: camera_stream_queue_def Let_def split: if_splits)
  have ok: "cs_inv s1 \<and> cs_content s1 = cs_content s \<and> cs_waiting_aus s1 = cs_waiting_aus s \<and>
      cs_seeded s1 = cs_seeded s" if "c"
    using cs_cache_cases [of alloc s info s1] cache that scan_sets_ok [OF scan] assms(1)
    by (auto simp: cs_inv_def)
  show thesis
    using assms(2) recover [of s] recover [of s1] recover [of s2] wait [of s1] queued [of s1 info s2]
      fifo s1 s2 ok scan cache queue
    by (auto simp: camera_stream_ingest_scanned_def camera_stream_recover_def Let_def split: if_splits)
qed

lemma cs_scanned_inv:
  assumes "cs_inv s" "camera_stream_ingest_scanned alloc s frame data = (r, s')"
  shows "cs_inv s'"
  using assms
proof (cases rule: cs_scanned_cases)
  case (recover s1)
  then show ?thesis by (simp add: cs_reset_inv)
next
  case (wait s1)
  then show ?thesis using cs_wait_inv [of s1] by (metis snd_conv)
next
  case (queued s1 s2 info)
  have "cs_inv s2"
    using cs_queue_inv [OF queued(2,8) cs_unit_wf [OF queued(2,8,5,6)]] .
  then show ?thesis unfolding queued(9) by (auto simp: cs_inv_def NATIVE_CAMERA_H264_WAIT_AUS_def)
qed

lemma cs_ingest_inv [inv_pres]:
  assumes "cs_inv s"
  shows "cs_inv (snd (native_camera_h264_stream_ingest alloc s frame))"
proof (cases "cf_data frame")
  case None
  then show ?thesis using assms by (simp add: native_camera_h264_stream_ingest_def inv_pres)
next
  case (Some data)
  then show ?thesis
    using assms cs_scanned_inv [OF cs_sequence_inv [OF assms, of frame], of alloc frame data]
    by (simp add: native_camera_h264_stream_ingest_def inv_pres prod_eq_iff)
qed

lemma cs_pop_result:
  assumes "cs_inv s" "0 < cs_count s"
  shows "cs_content s = cs_fifo s ! cs_head s # cs_content (native_camera_h264_stream_pop s)"
    and "cs_inv (native_camera_h264_stream_pop s)"
proof -
  let ?s = "native_camera_h264_stream_pop s"
  let ?h = "cs_fifo s ! cs_head s"
  have inv: "length (cs_fifo s) = NATIVE_CAMERA_H264_FIFO_AUS" "cs_head s < NATIVE_CAMERA_H264_FIFO_AUS"
    "cs_count s \<le> NATIVE_CAMERA_H264_FIFO_AUS" using assms(1) by (simp_all add: cs_inv_def)
  have pop: "?s = s\<lparr>cs_bytes := cs_bytes s - oa_len ?h,
      cs_fifo := (cs_fifo s)[cs_head s := camera_owned_au_clear ?h],
      cs_head := (cs_head s + 1) mod NATIVE_CAMERA_H264_FIFO_AUS, cs_count := cs_count s - 1\<rparr>"
    using assms(2) by (simp add: native_camera_h264_stream_pop_def Let_def)
  have "ring_list NATIVE_CAMERA_H264_FIFO_AUS ((cs_fifo s)[cs_head s := camera_owned_au_clear ?h])
      (cs_head s) (cs_count s) = (cs_content s)[0 := camera_owned_au_clear ?h]"
    using ring_list_write_inside [of "cs_fifo s" NATIVE_CAMERA_H264_FIFO_AUS 0 "cs_count s" "cs_head s"]
      inv assms(2) by (simp add: cs_content_def)
  moreover have c: "cs_content s = ?h # ring_list NATIVE_CAMERA_H264_FIFO_AUS (cs_fifo s)
      ((cs_head s + 1) mod NATIVE_CAMERA_H264_FIFO_AUS) (cs_count s - 1)"
    unfolding cs_content_def using inv assms(2) by (intro ring_list_head) simp_all
  ultimately have tail: "cs_content ?s = ring_list NATIVE_CAMERA_H264_FIFO_AUS (cs_fifo s)
      ((cs_head s + 1) mod NATIVE_CAMERA_H264_FIFO_AUS) (cs_count s - 1)"
    using ring_list_head [of "cs_count s" "cs_head s" NATIVE_CAMERA_H264_FIFO_AUS
      "(cs_fifo s)[cs_head s := camera_owned_au_clear ?h]"] inv assms(2)
    by (simp add: pop cs_content_def)
  then show c': "cs_content s = ?h # cs_content ?s" using c by simp
  have fields: "length (cs_fifo ?s) = length (cs_fifo s)"
    "cs_head ?s = (cs_head s + 1) mod NATIVE_CAMERA_H264_FIFO_AUS" "cs_count ?s = cs_count s - 1"
    "cs_bytes ?s = cs_bytes s - oa_len ?h" "cs_sps ?s = cs_sps s" "cs_pps ?s = cs_pps s"
    "cs_sps_len ?s = cs_sps_len s" "cs_pps_len ?s = cs_pps_len s"
    "cs_waiting_aus ?s = cs_waiting_aus s"
    by (simp_all add: pop)
  have "cs_bytes s = oa_len ?h + sum_list (map oa_len (cs_content ?s))"
    "\<forall>au \<in> set (cs_content ?s). au_wf au"
    using assms(1) unfolding cs_inv_def c' by auto
  then show "cs_inv ?s" using assms(1) unfolding cs_inv_def fields by (auto simp: NATIVE_CAMERA_H264_FIFO_AUS_def)
qed

lemma cs_pop_inv [inv_pres]: "cs_inv s \<Longrightarrow> cs_inv (native_camera_h264_stream_pop s)"
  using cs_pop_result(2) [of s] by (cases "cs_count s") (auto simp: native_camera_h264_stream_pop_def)

section \<open>Runs, and the queue contract\<close>

datatype CsOp = CsIngest "nat \<Rightarrow> bool" NativeCameraFrame | CsPop | CsReset

definition cs_step :: "NativeCameraH264Stream \<Rightarrow> CsOp \<Rightarrow> NativeCameraH264Stream" where
  "cs_step s op = (case op of CsIngest alloc frame \<Rightarrow> snd (native_camera_h264_stream_ingest alloc s frame)
     | CsPop \<Rightarrow> native_camera_h264_stream_pop s | CsReset \<Rightarrow> native_camera_h264_stream_reset s)"

lemma cs_step_inv: "cs_inv s \<Longrightarrow> cs_inv (cs_step s op)"
  by (cases op) (auto simp: cs_step_def inv_pres cs_inv_def [of s] intro!: cs_reset_inv
    intro: cs_ingest_inv cs_pop_inv)

lemma cs_run_inv: "cs_inv s \<Longrightarrow> cs_inv (foldl cs_step s ops)"
  by (induction ops arbitrary: s) (simp_all add: cs_step_inv)

text \<open>
  The queue of the stream as a bounded queue: \<open>camera_stream_queue\<close> puts a unit that needs no
  cached parameter sets, peek and pop together take one.
\<close>

definition cs_room :: "NativeCameraH264Stream \<Rightarrow> NativeCameraOwnedAu \<Rightarrow> bool" where
  "cs_room s au \<longleftrightarrow> au_wf au \<and> cs_count s < NATIVE_CAMERA_H264_FIFO_AUS \<and>
     oa_len au \<le> NATIVE_CAMERA_H264_FIFO_BYTES - cs_bytes s"

definition cs_put :: "NativeCameraH264Stream \<Rightarrow> NativeCameraOwnedAu \<Rightarrow> NativeCameraH264Stream" where
  "cs_put s au =
     (if \<not> au_wf au then s
      else snd (camera_stream_queue True s
        \<lparr>cf_data = oa_data au, cf_timestamp_us = oa_timestamp_us au, cf_sequence = oa_sequence au,
          cf_flags = 0\<rparr> (the (oa_data au))
        (h264_info_zero\<lparr>hi_has_idr := oa_is_idr au, hi_can_seed_decoder := oa_is_idr au\<rparr>)))"

definition packet_au :: "NativeCameraH264Packet \<Rightarrow> NativeCameraOwnedAu" where
  "packet_au p = \<lparr>oa_data = cp_data p, oa_len = cp_len p, oa_timestamp_us = cp_timestamp_us p,
     oa_sequence = cp_sequence p, oa_is_idr = cp_is_idr p\<rparr>"

definition cs_take :: "NativeCameraH264Stream \<Rightarrow> (NativeCameraOwnedAu \<times> NativeCameraH264Stream) option" where
  "cs_take s = map_option (\<lambda>p. (packet_au p, native_camera_h264_stream_pop s))
     (native_camera_h264_stream_peek s)"

lemma length_cs_content [simp]: "length (cs_content s) = cs_count s"
  by (simp add: cs_content_def)

lemma cs_put_unit:
  assumes "au_wf au"
  shows "cs_unit s \<lparr>cf_data = oa_data au, cf_timestamp_us = oa_timestamp_us au,
      cf_sequence = oa_sequence au, cf_flags = 0\<rparr> (the (oa_data au))
      (h264_info_zero\<lparr>hi_has_idr := oa_is_idr au, hi_can_seed_decoder := oa_is_idr au\<rparr>) = au"
  using assms by (cases au) (auto simp: cs_unit_def au_wf_def split: option.splits)

lemma cs_queue_refused: "fst (camera_stream_queue m s f d i) = False \<Longrightarrow> snd (camera_stream_queue m s f d i) = s"
  by (auto simp: camera_stream_queue_def Let_def split: if_splits)

lemma cs_put_inv [inv_pres]: "cs_inv s \<Longrightarrow> cs_inv (cs_put s au)"
proof (cases "au_wf au")
  case True
  let ?f = "\<lparr>cf_data = oa_data au, cf_timestamp_us = oa_timestamp_us au,
      cf_sequence = oa_sequence au, cf_flags = 0\<rparr>"
  let ?i = "h264_info_zero\<lparr>hi_has_idr := oa_is_idr au, hi_can_seed_decoder := oa_is_idr au\<rparr>"
  assume inv: "cs_inv s"
  obtain b s' where q: "camera_stream_queue True s ?f (the (oa_data au)) ?i = (b, s')" by fastforce
  then have put: "cs_put s au = s'" using True by (simp add: cs_put_def)
  show ?thesis
  proof (cases b)
    case b: True
    with q have q: "camera_stream_queue True s ?f (the (oa_data au)) ?i = (True, s')" by simp
    have "au_wf (cs_unit s ?f (the (oa_data au)) ?i)" unfolding cs_put_unit [OF True] by (rule True)
    then show ?thesis unfolding put by (rule cs_queue_inv [OF inv q])
  next
    case False
    then show ?thesis using cs_queue_refused [of True s ?f "the (oa_data au)" ?i] q put inv by simp
  qed
qed (simp add: cs_put_def)

lemma cs_put_content:
  assumes "cs_inv s" "cs_room s au"
  shows "cs_content (cs_put s au) = cs_content s @ [au]"
proof -
  have wf: "au_wf au" using assms(2) by (simp add: cs_room_def)
  let ?f = "\<lparr>cf_data = oa_data au, cf_timestamp_us = oa_timestamp_us au,
      cf_sequence = oa_sequence au, cf_flags = 0\<rparr>"
  let ?i = "h264_info_zero\<lparr>hi_has_idr := oa_is_idr au, hi_can_seed_decoder := oa_is_idr au\<rparr>"
  have "fst (camera_stream_queue True s ?f (the (oa_data au)) ?i)"
    using assms(2) by (auto simp: camera_stream_queue_def Let_def cs_room_def au_wf_def split: option.splits)
  then have "camera_stream_queue True s ?f (the (oa_data au)) ?i = (True, cs_put s au)"
    using wf by (simp add: cs_put_def prod_eq_iff)
  from cs_queue_content [OF assms(1) this] show ?thesis unfolding cs_put_unit [OF wf] .
qed

interpretation camq: bounded_fifo cs_content cs_inv cs_room cs_put cs_take
proof unfold_locales
  fix s au s' assume "cs_inv s" "cs_take s = Some (au, s')"
  then show "cs_content s = au # cs_content s' \<and> cs_inv s'"
    using cs_pop_result [of s]
    by (auto simp: cs_take_def native_camera_h264_stream_peek_def packet_au_def Let_def split: if_splits)
next
  fix s
  show "(cs_take s = None) = (cs_content s = [])"
    by (auto simp: cs_take_def native_camera_h264_stream_peek_def Let_def simp flip: length_0_conv)
qed (auto simp: cs_put_content cs_put_inv)

section \<open>Properties\<close>


lemma cs_sequence_fields:
  "cs_content (camera_stream_sequence s frame) = cs_content s"
  "cs_seeded (camera_stream_sequence s frame) \<longleftrightarrow>
     cs_seeded s \<and> \<not> (cs_have_sequence s \<and> cf_sequence frame \<noteq> cs_last_sequence s + 1)"
  "cs_waiting_aus (camera_stream_sequence s frame) =
     (if cs_have_sequence s \<and> cf_sequence frame \<noteq> cs_last_sequence s + 1
      then NATIVE_CAMERA_H264_WAIT_AUS - 1 else cs_waiting_aus s)"
  by (simp_all add: camera_stream_sequence_def Let_def)

lemma cs_ingest_scanned:
  assumes "native_camera_h264_stream_ingest alloc s frame = (r, s')" "r \<noteq> INGEST_RECOVER"
  obtains data where "cf_data frame = Some data"
    "camera_stream_ingest_scanned alloc (camera_stream_sequence s frame) frame data = (r, s')"
  using assms
  by (auto simp: native_camera_h264_stream_ingest_def camera_stream_recover_def split: option.splits if_splits)

text \<open>
  C15: the gate.  A frame that is queued goes to the end of the queue with its own bytes behind
  at most a prefix; while the gate is closed (nothing seeded since the last reset, or this frame
  follows a sequence gap) it is queued only if it is an IDR unit, and a queued IDR unit is
  startable; the gate is open afterwards.  So a dependent picture is never queued across a gap
  or before a decoder seed.
\<close>

theorem camera_gate_admits_only_seeds:
  assumes "cs_inv s" "native_camera_h264_stream_ingest alloc s frame = (INGEST_QUEUED, s')"
  shows "\<exists>au prefix. cs_content s' = cs_content s @ [au] \<and>
      oa_data au = Some (prefix @ the (cf_data frame)) \<and> oa_sequence au = cf_sequence frame \<and>
      oa_timestamp_us au = cf_timestamp_us frame \<and>
      (\<not> cs_seeded s \<or> (cs_have_sequence s \<and> cf_sequence frame \<noteq> cs_last_sequence s + 1) \<longrightarrow> oa_is_idr au) \<and>
      (oa_is_idr au \<longrightarrow> native_h264_annexb_is_keyframe (the (oa_data au))) \<and> cs_seeded s'"
proof -
  let ?s = "camera_stream_sequence s frame"
  obtain data where d: "cf_data frame = Some data"
    and sc: "camera_stream_ingest_scanned alloc ?s frame data = (INGEST_QUEUED, s')"
    using cs_ingest_scanned [OF assms(2)] by blast
  from cs_sequence_inv [OF assms(1)] sc show ?thesis
  proof (cases rule: cs_scanned_cases)
    case (wait s1)
    then show ?thesis by (auto simp: camera_stream_wait_def Let_def split: if_splits)
  next
    case (queued s1 s2 info)
    let ?au = "cs_unit s1 frame data info"
    have wf: "au_wf ?au" using cs_unit_wf [OF queued(2,8,5,6)] .
    have seeded: "cs_seeded s2 = cs_seeded s1" using cs_queue_result(1) [OF queued(2,8)] by simp
    have content: "cs_content s' = cs_content s @ [?au]"
      using cs_queue_content [OF queued(2,8)] queued(3,9) by (simp add: cs_sequence_fields)
    have "\<exists>prefix. oa_data ?au = Some (prefix @ data)"
      by (auto simp: cs_unit_def Let_def simp flip: append_assoc)
    moreover have "oa_is_idr ?au \<longrightarrow> native_h264_annexb_is_keyframe (the (oa_data ?au))"
      using wf by (auto simp: au_wf_def split: option.splits)
    ultimately show ?thesis
      using content queued(4,7,9) seeded d
      by (intro exI [of _ ?au]) (auto simp: cs_unit_def Let_def cs_sequence_fields)
  qed simp
qed

text \<open>A complete IDR unit, for the concrete runs below.\<close>

definition demo_unit :: bytes where "demo_unit = annexb_frame [[0x67], [0x68], [0x65]]"

definition demo_frame :: "u32 \<Rightarrow> NativeCameraFrame" where
  "demo_frame n = \<lparr>cf_data = Some demo_unit, cf_timestamp_us = 7, cf_sequence = n, cf_flags = 0\<rparr>"

lemma demo_scan: "native_h264_scan_annexb demo_unit =
    (NATIVE_H264_OK, classify [[0x67], [0x68], [0x65]] (h264_info_zero\<lparr>hi_starts_with_annexb_start_code := True\<rparr>))"
  unfolding demo_unit_def
  by (rule annexb_scan_framed) (auto simp: nal_ok_def sc_list_None [symmetric])

lemma demo_ingest:
  "fst (native_camera_h264_stream_ingest (\<lambda>_. True) native_camera_h264_stream_create (demo_frame 5)) =
     INGEST_QUEUED"
  by (simp add: native_camera_h264_stream_ingest_def demo_frame_def demo_scan
      camera_stream_ingest_scanned_def camera_stream_sequence_def native_camera_h264_stream_create_def
      classify_def h264_info_zero_def scan_nal_def count_nal_def Let_def
      camera_stream_cache_parameter_sets_def camera_parameter_set_copy_def camera_stream_queue_def
      cs_consts V4L2_BUF_FLAG_ERROR_def SIZE_MAX_def)
    (simp add: demo_unit_def)

theorem camera_gate_admits_only_seeds_witness:
  "\<exists>au. oa_is_idr au \<and> oa_sequence au = 5 \<and> native_h264_annexb_is_keyframe (the (oa_data au)) \<and>
     cs_content (snd (native_camera_h264_stream_ingest (\<lambda>_. True) native_camera_h264_stream_create
       (demo_frame 5))) = cs_content native_camera_h264_stream_create @ [au]"
proof -
  have "native_camera_h264_stream_ingest (\<lambda>_. True) native_camera_h264_stream_create (demo_frame 5) =
      (INGEST_QUEUED, snd (native_camera_h264_stream_ingest (\<lambda>_. True)
        native_camera_h264_stream_create (demo_frame 5)))"
    using demo_ingest by (simp add: prod_eq_iff)
  from camera_gate_admits_only_seeds [OF cs_create_inv this] show ?thesis
    by (auto simp: demo_frame_def native_camera_h264_stream_create_def)
qed


text \<open>One run of ingests, with the answers.\<close>

fun cs_answers :: "NativeCameraH264Stream \<Rightarrow> ((nat \<Rightarrow> bool) \<times> NativeCameraFrame) list \<Rightarrow>
    NativeCameraH264IngestResult list" where
  "cs_answers s [] = []"
| "cs_answers s (f # fs) = (let (r, s') = native_camera_h264_stream_ingest (fst f) s (snd f) in
     r # cs_answers s' fs)"

lemma cs_waiting_step:
  assumes "cs_inv s" "native_camera_h264_stream_ingest alloc s frame = (INGEST_WAITING, s')"
  shows "cs_inv s' \<and> cs_waiting_aus s' = cs_waiting_aus s + 1"
proof -
  let ?s = "camera_stream_sequence s frame"
  obtain data where sc: "camera_stream_ingest_scanned alloc ?s frame data = (INGEST_WAITING, s')"
    using cs_ingest_scanned [OF assms(2)] by blast
  have "cs_waiting_aus s' = cs_waiting_aus s + 1"
    using cs_sequence_inv [OF assms(1)] sc
  proof (cases rule: cs_scanned_cases)
    case (wait s1)
    then show ?thesis
      by (auto simp: camera_stream_wait_def Let_def cs_sequence_fields NATIVE_CAMERA_H264_WAIT_AUS_def
          split: if_splits)
  qed simp_all
  then show ?thesis using cs_ingest_inv [OF assms(1), of alloc frame] assms(2) by simp
qed

lemma cs_waiting_run:
  "cs_inv s \<Longrightarrow> cs_answers s fs = replicate (length fs) INGEST_WAITING \<Longrightarrow>
   cs_waiting_aus s + length fs < NATIVE_CAMERA_H264_WAIT_AUS"
proof (induction fs arbitrary: s)
  case (Cons f fs)
  obtain r s' where i: "native_camera_h264_stream_ingest (fst f) s (snd f) = (r, s')" by fastforce
  with Cons.prems have r: "r = INGEST_WAITING" "cs_answers s' fs = replicate (length fs) INGEST_WAITING"
    by simp_all
  from cs_waiting_step [OF Cons.prems(1)] i r Cons.IH [of s'] show ?case by simp
qed (simp add: cs_inv_def)


end
