(* ===== verification/Audio_Jitter.thy ===== *)
theory Audio_Jitter
  imports Lg_Prelude
begin

text \<open>
  The adaptive playout delay of audio playback, \<open>native/src/audio_jitter.c\<close>: a ten-second window
  of arrival variations kept as a ring of buckets with a histogram beside it, the 95th percentile
  read off the histogram, and the target delay that is raised at once and lowered slowly.  Times
  are 32-bit milliseconds and wrap, as in the code.
\<close>

section \<open>Data\<close>

definition NATIVE_AUDIO_JITTER_WINDOW_MS :: u32 where "NATIVE_AUDIO_JITTER_WINDOW_MS = 10000"
definition NATIVE_AUDIO_JITTER_TARGET_DECAY_MS :: u32 where "NATIVE_AUDIO_JITTER_TARGET_DECAY_MS = 5000"
definition NATIVE_AUDIO_JITTER_TARGET_DECAY_STEP_MS :: u32 where
  "NATIVE_AUDIO_JITTER_TARGET_DECAY_STEP_MS = 10"
definition NATIVE_AUDIO_JITTER_LONG_GAP_MS :: u32 where "NATIVE_AUDIO_JITTER_LONG_GAP_MS = 500"
definition NATIVE_AUDIO_JITTER_TARGET_INITIAL_MS :: u32 where "NATIVE_AUDIO_JITTER_TARGET_INITIAL_MS = 60"
definition NATIVE_AUDIO_JITTER_TARGET_MIN_MS :: u32 where "NATIVE_AUDIO_JITTER_TARGET_MIN_MS = 40"
definition NATIVE_AUDIO_JITTER_TARGET_MAX_MS :: u32 where "NATIVE_AUDIO_JITTER_TARGET_MAX_MS = 260"
definition NATIVE_AUDIO_JITTER_TARGET_HEADROOM_MS :: u32 where "NATIVE_AUDIO_JITTER_TARGET_HEADROOM_MS = 20"
definition NATIVE_AUDIO_JITTER_BUCKET_MS :: nat where "NATIVE_AUDIO_JITTER_BUCKET_MS = 5"
definition NATIVE_AUDIO_JITTER_BUCKETS :: nat where "NATIVE_AUDIO_JITTER_BUCKETS = 31"
definition NATIVE_AUDIO_JITTER_SAMPLES :: nat where "NATIVE_AUDIO_JITTER_SAMPLES = 2048"

record NativeAudioJitterSample =
  js_arrival_ms :: u32
  js_bucket :: u8

record NativeAudioJitterController =
  jc_have_arrival :: bool
  jc_last_arrival_ms :: u32
  jc_last_timestamp_ms :: u32
  jc_last_target_change_ms :: u32
  jc_seen_underruns :: u32
  jc_samples :: "NativeAudioJitterSample list"
  jc_histogram :: "u16 list"
  jc_head :: nat
  jc_count :: nat

datatype NativeAudioJitterTargetAction = TARGET_UNCHANGED | TARGET_SET | TARGET_RAISE | TARGET_DECAY

record NativeAudioJitterUpdate =
  ju_jitter_p95_ms :: u32
  ju_target_delay_ms :: u32
  ju_target_action :: NativeAudioJitterTargetAction
  ju_talkspurt :: bool

section \<open>Operations\<close>

definition clamp_u32 :: "u32 \<Rightarrow> u32 \<Rightarrow> u32 \<Rightarrow> u32" where
  "clamp_u32 value low high = (if value < low then low else if value > high then high else value)"

definition jitter_samples_clear :: "NativeAudioJitterController \<Rightarrow> NativeAudioJitterController" where
  "jitter_samples_clear c = c\<lparr>jc_histogram := replicate NATIVE_AUDIO_JITTER_BUCKETS 0,
     jc_head := 0, jc_count := 0\<rparr>"

text \<open>\<open>memset\<close> of the whole controller; the previous contents do not matter.\<close>

definition native_audio_jitter_reset :: "u32 \<Rightarrow> u32 \<Rightarrow> NativeAudioJitterController" where
  "native_audio_jitter_reset now_ms underruns = \<lparr>jc_have_arrival = False, jc_last_arrival_ms = 0,
     jc_last_timestamp_ms = 0, jc_last_target_change_ms = now_ms, jc_seen_underruns = underruns,
     jc_samples = replicate NATIVE_AUDIO_JITTER_SAMPLES \<lparr>js_arrival_ms = 0, js_bucket = 0\<rparr>,
     jc_histogram = replicate NATIVE_AUDIO_JITTER_BUCKETS 0, jc_head = 0, jc_count = 0\<rparr>"

definition native_audio_jitter_mark_discontinuity ::
    "NativeAudioJitterController \<Rightarrow> NativeAudioJitterController" where
  "native_audio_jitter_mark_discontinuity c = c\<lparr>jc_have_arrival := False\<rparr>"

definition jitter_remove_oldest :: "NativeAudioJitterController \<Rightarrow> NativeAudioJitterController" where
  "jitter_remove_oldest c =
     (if jc_count c = 0 then c
      else
        let b = unat (js_bucket (jc_samples c ! jc_head c));
            c = (if b < NATIVE_AUDIO_JITTER_BUCKETS \<and> jc_histogram c ! b > 0
                 then c\<lparr>jc_histogram := (jc_histogram c)[b := jc_histogram c ! b - 1]\<rparr> else c) in
        c\<lparr>jc_head := (jc_head c + 1) mod NATIVE_AUDIO_JITTER_SAMPLES, jc_count := jc_count c - 1\<rparr>)"

function jitter_expire :: "NativeAudioJitterController \<Rightarrow> u32 \<Rightarrow> NativeAudioJitterController" where
  "jitter_expire c now_ms =
     (if jc_count c > 0 then
        if now_ms - js_arrival_ms (jc_samples c ! jc_head c) \<le> NATIVE_AUDIO_JITTER_WINDOW_MS then c
        else jitter_expire (jitter_remove_oldest c) now_ms
      else c)"
  by pat_completeness auto
termination
  by (relation "measure (\<lambda>(c, now). jc_count c)") (auto simp: jitter_remove_oldest_def Let_def)

declare jitter_expire.simps [simp del]

text \<open>The bucket loop of the percentile, over the histogram from \<open>bucket\<close> on.\<close>

fun p95_loop :: "u16 list \<Rightarrow> nat \<Rightarrow> nat \<Rightarrow> nat \<Rightarrow> nat option" where
  "p95_loop [] bucket seen threshold = None"
| "p95_loop (h # hs) bucket seen threshold =
     (let seen = seen + unat h in
      if seen \<ge> threshold then Some bucket else p95_loop hs (bucket + 1) seen threshold)"

definition jitter_p95 :: "NativeAudioJitterController \<Rightarrow> u32" where
  "jitter_p95 c =
     (if jc_count c = 0 then 0
      else case p95_loop (jc_histogram c) 0 0 ((jc_count c * 95 + 99) div 100) of
        Some bucket \<Rightarrow> word_of_nat (bucket * NATIVE_AUDIO_JITTER_BUCKET_MS)
      | None \<Rightarrow> word_of_nat ((NATIVE_AUDIO_JITTER_BUCKETS - 1) * NATIVE_AUDIO_JITTER_BUCKET_MS))"

definition jitter_add :: "NativeAudioJitterController \<Rightarrow> u32 \<Rightarrow> u32 \<Rightarrow> u32 \<times> NativeAudioJitterController" where
  "jitter_add c now_ms variation_ms =
     (let c = jitter_expire c now_ms;
          c = (if jc_count c = NATIVE_AUDIO_JITTER_SAMPLES then jitter_remove_oldest c else c);
          bucket = unat variation_ms div NATIVE_AUDIO_JITTER_BUCKET_MS;
          bucket = (if bucket \<ge> NATIVE_AUDIO_JITTER_BUCKETS then NATIVE_AUDIO_JITTER_BUCKETS - 1 else bucket);
          tail = (jc_head c + jc_count c) mod NATIVE_AUDIO_JITTER_SAMPLES;
          c = c\<lparr>jc_samples := (jc_samples c)[tail := \<lparr>js_arrival_ms = now_ms, js_bucket = word_of_nat bucket\<rparr>],
            jc_histogram := (jc_histogram c)[bucket := jc_histogram c ! bucket + 1],
            jc_count := jc_count c + 1\<rparr> in
      (jitter_p95 c, c))"

text \<open>The duration of one packet, at least one millisecond.\<close>

definition jitter_duration :: "u32 \<Rightarrow> u32 \<Rightarrow> u32" where
  "jitter_duration frames sample_rate =
     (let d = (if sample_rate \<noteq> 0
        then word_of_nat ((unat frames * 1000 + unat (sample_rate div 2)) div unat sample_rate) else 0) in
      if d = 0 then 1 else d)"

definition jitter_target :: "u32 \<Rightarrow> u32" where
  "jitter_target ms = clamp_u32 (ms + NATIVE_AUDIO_JITTER_TARGET_HEADROOM_MS)
     NATIVE_AUDIO_JITTER_TARGET_MIN_MS NATIVE_AUDIO_JITTER_TARGET_MAX_MS"

text \<open>
  Raising and lowering the target, from the cadence target and the variation of this arrival:
  a raise at once, a decay of one step at most every five seconds.
\<close>

definition jitter_retarget :: "NativeAudioJitterController \<Rightarrow> u32 \<Rightarrow> u32 \<Rightarrow> u32 \<Rightarrow> u32 \<Rightarrow> u32 \<Rightarrow>
    (u32 \<times> NativeAudioJitterTargetAction) \<times> NativeAudioJitterController" where
  "jitter_retarget c p95 cadence_target variation_ms now_ms current_target_ms =
     (let peak_target = (if cadence_target > jitter_target variation_ms then cadence_target
              else jitter_target variation_ms) in
      if peak_target > current_target_ms
      then ((peak_target, TARGET_RAISE), c\<lparr>jc_last_target_change_ms := now_ms\<rparr>)
      else
        let calculated = clamp_u32 (p95 + NATIVE_AUDIO_JITTER_TARGET_HEADROOM_MS) cadence_target
              NATIVE_AUDIO_JITTER_TARGET_MAX_MS in
        if calculated < current_target_ms \<and>
           now_ms - jc_last_target_change_ms c \<ge> NATIVE_AUDIO_JITTER_TARGET_DECAY_MS
        then
          let reduced = (if current_target_ms > NATIVE_AUDIO_JITTER_TARGET_DECAY_STEP_MS
                then current_target_ms - NATIVE_AUDIO_JITTER_TARGET_DECAY_STEP_MS
                else NATIVE_AUDIO_JITTER_TARGET_MIN_MS) in
          ((if reduced < calculated then calculated else reduced, TARGET_DECAY),
           c\<lparr>jc_last_target_change_ms := now_ms\<rparr>)
        else ((current_target_ms, TARGET_UNCHANGED), c))"

text \<open>The update once a previous arrival is known and not too long ago.\<close>

definition jitter_update_steady :: "NativeAudioJitterController \<Rightarrow> u32 \<Rightarrow> u32 \<Rightarrow> u32 \<Rightarrow> u32 \<Rightarrow> u32 \<Rightarrow>
    NativeAudioJitterUpdate \<times> NativeAudioJitterController" where
  "jitter_update_steady c duration_ms timestamp_ms now_ms underruns current_target_ms =
     (let arrival_delta = now_ms - jc_last_arrival_ms c;
          timestamp_delta = timestamp_ms - jc_last_timestamp_ms c;
          expected_ms = (if timestamp_ms \<noteq> 0 \<and> jc_last_timestamp_ms c \<noteq> 0 \<and> timestamp_delta \<noteq> 0 \<and>
              timestamp_delta \<le> NATIVE_AUDIO_JITTER_LONG_GAP_MS then timestamp_delta else duration_ms);
          variation_ms = (if arrival_delta > expected_ms then arrival_delta - expected_ms
              else expected_ms - arrival_delta);
          added = jitter_add c now_ms variation_ms;
          c = (if underruns \<noteq> jc_seen_underruns (snd added)
               then snd added\<lparr>jc_seen_underruns := underruns, jc_last_target_change_ms := now_ms\<rparr>
               else snd added);
          cadence_target = (if expected_ms > duration_ms then jitter_target expected_ms
              else jitter_target duration_ms);
          r = jitter_retarget c (fst added) cadence_target variation_ms now_ms current_target_ms in
      (\<lparr>ju_jitter_p95_ms = fst added, ju_target_delay_ms = fst (fst r), ju_target_action = snd (fst r),
         ju_talkspurt = False\<rparr>,
       snd r\<lparr>jc_last_arrival_ms := now_ms, jc_last_timestamp_ms := timestamp_ms\<rparr>))"

definition native_audio_jitter_update :: "NativeAudioJitterController \<Rightarrow> u32 \<Rightarrow> u32 \<Rightarrow> u32 \<Rightarrow> u32 \<Rightarrow> u32 \<Rightarrow>
    u32 \<Rightarrow> NativeAudioJitterUpdate \<times> NativeAudioJitterController" where
  "native_audio_jitter_update c frames sample_rate timestamp_ms now_ms underruns current_target_ms =
     (let duration_ms = jitter_duration frames sample_rate;
          cadence_target = jitter_target duration_ms in
      if \<not> jc_have_arrival c then
        (\<lparr>ju_jitter_p95_ms = jitter_p95 c,
          ju_target_delay_ms = (if cadence_target > current_target_ms then cadence_target else current_target_ms),
          ju_target_action = (if cadence_target > current_target_ms then TARGET_RAISE else TARGET_UNCHANGED),
          ju_talkspurt = False\<rparr>,
         c\<lparr>jc_have_arrival := True, jc_last_arrival_ms := now_ms, jc_last_timestamp_ms := timestamp_ms,
           jc_last_target_change_ms := now_ms\<rparr>)
      else if now_ms - jc_last_arrival_ms c > NATIVE_AUDIO_JITTER_LONG_GAP_MS then
        (\<lparr>ju_jitter_p95_ms = 0,
          ju_target_delay_ms = (if cadence_target > NATIVE_AUDIO_JITTER_TARGET_INITIAL_MS
             then cadence_target else NATIVE_AUDIO_JITTER_TARGET_INITIAL_MS),
          ju_target_action = TARGET_SET, ju_talkspurt = True\<rparr>,
         jitter_samples_clear c\<lparr>jc_last_target_change_ms := now_ms, jc_last_arrival_ms := now_ms,
           jc_last_timestamp_ms := timestamp_ms\<rparr>)
      else jitter_update_steady c duration_ms timestamp_ms now_ms underruns current_target_ms)"

section \<open>The window and its histogram\<close>

lemmas jc_consts = NATIVE_AUDIO_JITTER_BUCKETS_def NATIVE_AUDIO_JITTER_SAMPLES_def
  NATIVE_AUDIO_JITTER_BUCKET_MS_def

definition jc_window :: "NativeAudioJitterController \<Rightarrow> NativeAudioJitterSample list" where
  "jc_window c = ring_list NATIVE_AUDIO_JITTER_SAMPLES (jc_samples c) (jc_head c) (jc_count c)"

definition bucket_count :: "NativeAudioJitterSample list \<Rightarrow> nat \<Rightarrow> nat" where
  "bucket_count ss b = length (filter (\<lambda>s. unat (js_bucket s) = b) ss)"

definition rank :: "NativeAudioJitterSample list \<Rightarrow> nat \<Rightarrow> nat" where
  "rank ss b = length (filter (\<lambda>s. unat (js_bucket s) \<le> b) ss)"

definition jc_inv :: "NativeAudioJitterController \<Rightarrow> bool" where
  "jc_inv c \<longleftrightarrow> length (jc_samples c) = NATIVE_AUDIO_JITTER_SAMPLES \<and>
     length (jc_histogram c) = NATIVE_AUDIO_JITTER_BUCKETS \<and>
     jc_head c < NATIVE_AUDIO_JITTER_SAMPLES \<and> jc_count c \<le> NATIVE_AUDIO_JITTER_SAMPLES \<and>
     (\<forall>s \<in> set (jc_window c). unat (js_bucket s) < NATIVE_AUDIO_JITTER_BUCKETS) \<and>
     (\<forall>b < NATIVE_AUDIO_JITTER_BUCKETS. unat (jc_histogram c ! b) = bucket_count (jc_window c) b)"

lemma length_jc_window [simp]: "length (jc_window c) = jc_count c"
  by (simp add: jc_window_def)

lemma jc_window_cong [simp]:
  "jc_window (c\<lparr>jc_have_arrival := b\<rparr>) = jc_window c" "jc_window (c\<lparr>jc_last_arrival_ms := w\<rparr>) = jc_window c"
  "jc_window (c\<lparr>jc_last_timestamp_ms := w\<rparr>) = jc_window c"
  "jc_window (c\<lparr>jc_last_target_change_ms := w\<rparr>) = jc_window c"
  "jc_window (c\<lparr>jc_seen_underruns := w\<rparr>) = jc_window c"
  "jc_window (c\<lparr>jc_histogram := h\<rparr>) = jc_window c"
  by (simp_all add: jc_window_def)

lemma jc_inv_cong [simp]:
  "jc_inv (c\<lparr>jc_have_arrival := b\<rparr>) = jc_inv c" "jc_inv (c\<lparr>jc_last_arrival_ms := w\<rparr>) = jc_inv c"
  "jc_inv (c\<lparr>jc_last_timestamp_ms := w\<rparr>) = jc_inv c"
  "jc_inv (c\<lparr>jc_last_target_change_ms := w\<rparr>) = jc_inv c"
  "jc_inv (c\<lparr>jc_seen_underruns := w\<rparr>) = jc_inv c"
  by (simp_all add: jc_inv_def)

lemma jc_reset_inv [inv_pres]: "jc_inv (native_audio_jitter_reset now u)"
  by (simp add: native_audio_jitter_reset_def jc_inv_def jc_window_def bucket_count_def jc_consts)

lemma jc_clear_inv [inv_pres]: "jc_inv c \<Longrightarrow> jc_inv (jitter_samples_clear c)"
  by (simp add: jitter_samples_clear_def jc_inv_def jc_window_def bucket_count_def jc_consts)

lemma unat_minus_one_word: "(0 :: u16) < w \<Longrightarrow> unat (w - 1) = unat w - 1"
  by (simp add: unat_minus_one word_greater_zero_iff)

lemma bucket_count_Cons [simp]:
  "bucket_count (x # ss) b = (if unat (js_bucket x) = b then 1 else 0) + bucket_count ss b"
  by (simp add: bucket_count_def)

lemma bucket_count_append [simp]: "bucket_count (ss @ ts) b = bucket_count ss b + bucket_count ts b"
  by (simp add: bucket_count_def)

lemma bucket_count_le: "bucket_count ss b \<le> length ss"
  by (simp add: bucket_count_def)

lemma jc_remove_result:
  assumes inv: "jc_inv c" and pos: "0 < jc_count c"
  shows "jc_window (jitter_remove_oldest c) = tl (jc_window c)"
    and "jc_inv (jitter_remove_oldest c)"
proof -
  let ?s = "jc_samples c ! jc_head c"
  let ?b = "unat (js_bucket ?s)"
  let ?c = "jitter_remove_oldest c"
  have win: "jc_window c = ?s # ring_list NATIVE_AUDIO_JITTER_SAMPLES (jc_samples c)
      ((jc_head c + 1) mod NATIVE_AUDIO_JITTER_SAMPLES) (jc_count c - 1)"
    unfolding jc_window_def using inv pos by (intro ring_list_head) (simp_all add: jc_inv_def)
  then have b: "?b < NATIVE_AUDIO_JITTER_BUCKETS" using inv by (simp add: jc_inv_def)
  have "unat (jc_histogram c ! ?b) = bucket_count (jc_window c) ?b" using inv b by (simp add: jc_inv_def)
  then have "unat (jc_histogram c ! ?b) \<noteq> 0" using win by simp
  then have h: "0 < jc_histogram c ! ?b" by (metis unat_0 word_greater_zero_iff)
  have res: "?c = c\<lparr>jc_histogram := (jc_histogram c)[?b := jc_histogram c ! ?b - 1],
      jc_head := (jc_head c + 1) mod NATIVE_AUDIO_JITTER_SAMPLES, jc_count := jc_count c - 1\<rparr>"
    using pos b h by (simp add: jitter_remove_oldest_def Let_def)
  show w: "jc_window ?c = tl (jc_window c)" unfolding win by (simp add: res jc_window_def)
  have fields: "length (jc_samples ?c) = length (jc_samples c)" "length (jc_histogram ?c) = length (jc_histogram c)"
    "jc_head ?c = (jc_head c + 1) mod NATIVE_AUDIO_JITTER_SAMPLES" "jc_count ?c = jc_count c - 1"
    by (simp_all add: res)
  have hist: "unat (jc_histogram ?c ! i) = bucket_count (tl (jc_window c)) i"
    if "i < NATIVE_AUDIO_JITTER_BUCKETS" for i
    using inv that b win h unat_minus_one_word [OF h] by (auto simp: jc_inv_def res nth_list_update)
  have tl: "set (tl (jc_window c)) \<subseteq> set (jc_window c)" by (cases "jc_window c") auto
  show "jc_inv ?c"
    using inv hist tl unfolding jc_inv_def fields w
    by (auto simp: NATIVE_AUDIO_JITTER_SAMPLES_def)
qed

lemma jc_expire_inv [inv_pres]: "jc_inv c \<Longrightarrow> jc_inv (jitter_expire c now)"
proof (induction c now rule: jitter_expire.induct)
  case (1 c now)
  then show ?case using jc_remove_result(2) [of c]
    by (subst jitter_expire.simps) (simp only: if_split, blast)
qed

lemma jc_expire_suffix: "jc_inv c \<Longrightarrow> \<exists>k. jc_window (jitter_expire c now) = drop k (jc_window c)"
proof (induction c now rule: jitter_expire.induct)
  case (1 c now)
  have id: "\<exists>k. jc_window c = drop k (jc_window c)" by (rule exI [of _ 0]) simp
  show ?case
  proof (cases "jc_count c > 0 \<and> \<not> now - js_arrival_ms (jc_samples c ! jc_head c) \<le> NATIVE_AUDIO_JITTER_WINDOW_MS")
    case True
    then obtain k where "jc_window (jitter_expire (jitter_remove_oldest c) now) = drop k (tl (jc_window c))"
      using 1 jc_remove_result [of c] by auto
    moreover have "jitter_expire c now = jitter_expire (jitter_remove_oldest c) now"
      using True by (subst jitter_expire.simps) simp
    ultimately show ?thesis by (metis drop_Suc)
  next
    case False
    then have "jitter_expire c now = c" by (subst jitter_expire.simps) auto
    with id show ?thesis by simp
  qed
qed

text \<open>The bucket a variation falls into.\<close>

definition bucket_of :: "u32 \<Rightarrow> nat" where
  "bucket_of v = min (unat v div NATIVE_AUDIO_JITTER_BUCKET_MS) (NATIVE_AUDIO_JITTER_BUCKETS - 1)"

lemma jc_add_result:
  assumes inv: "jc_inv c"
  shows "\<exists>k. jc_window (snd (jitter_add c now v)) =
      drop k (jc_window c) @ [\<lparr>js_arrival_ms = now, js_bucket = word_of_nat (bucket_of v)\<rparr>]"
    and "jc_inv (snd (jitter_add c now v))"
    and "fst (jitter_add c now v) = jitter_p95 (snd (jitter_add c now v))"
proof -
  let ?e = "jitter_expire c now"
  define d where "d = (if jc_count ?e = NATIVE_AUDIO_JITTER_SAMPLES then jitter_remove_oldest ?e else ?e)"
  define b where "b = bucket_of v"
  define new where "new = \<lparr>js_arrival_ms = now, js_bucket = (word_of_nat b :: u8)\<rparr>"
  define r where "r = d\<lparr>jc_samples := (jc_samples d)[(jc_head d + jc_count d) mod NATIVE_AUDIO_JITTER_SAMPLES := new],
      jc_histogram := (jc_histogram d)[b := jc_histogram d ! b + 1], jc_count := jc_count d + 1\<rparr>"
  have bl: "b < NATIVE_AUDIO_JITTER_BUCKETS" by (simp add: b_def bucket_of_def jc_consts)
  then have bw: "unat (word_of_nat b :: u8) = b" by (simp add: unat_of_nat jc_consts)
  have add: "jitter_add c now v = (jitter_p95 r, r)"
    by (simp add: jitter_add_def Let_def r_def d_def new_def b_def bucket_of_def min_def jc_consts)
  have e: "jc_inv ?e" using jc_expire_inv [OF inv] .
  have "jc_inv d" unfolding d_def
    using e jc_remove_result(2) [OF e] by (simp add: NATIVE_AUDIO_JITTER_SAMPLES_def)
  note dinv = this
  have room: "jc_count d < NATIVE_AUDIO_JITTER_SAMPLES"
    using e jc_remove_result(1) [OF e, THEN arg_cong [of _ _ length]]
    by (auto simp: d_def jc_inv_def NATIVE_AUDIO_JITTER_SAMPLES_def)
  have win: "jc_window r = jc_window d @ [new]"
    using ring_list_write_tail [of "jc_samples d" NATIVE_AUDIO_JITTER_SAMPLES "jc_count d" "jc_head d" new]
      dinv room by (simp add: jc_window_def r_def jc_inv_def)
  obtain k where k: "jc_window ?e = drop k (jc_window c)" using jc_expire_suffix [OF inv] by blast
  have "\<exists>k. jc_window d = drop k (jc_window c)"
  proof (cases "jc_count ?e = NATIVE_AUDIO_JITTER_SAMPLES")
    case True
    then have "jc_window d = tl (drop k (jc_window c))"
      using jc_remove_result(1) [OF e] k by (simp add: d_def NATIVE_AUDIO_JITTER_SAMPLES_def)
    then show ?thesis by (metis drop_Suc tl_drop)
  qed (use k d_def in auto)
  then show "\<exists>k. jc_window (snd (jitter_add c now v)) =
      drop k (jc_window c) @ [\<lparr>js_arrival_ms = now, js_bucket = word_of_nat (bucket_of v)\<rparr>]"
    unfolding add snd_conv win by (auto simp: new_def b_def)
  have small: "unat (jc_histogram d ! b) < 2048 + 1"
    using dinv bl bucket_count_le [of "jc_window d" b] by (auto simp: jc_inv_def NATIVE_AUDIO_JITTER_SAMPLES_def)
  have inc: "unat (jc_histogram d ! b + 1) = unat (jc_histogram d ! b) + 1"
    using small by (subst unat_add_lem [THEN iffD1]) (simp_all add: unat_word_ariths)
  have rh: "jc_histogram r = (jc_histogram d)[b := jc_histogram d ! b + 1]" by (simp add: r_def)
  have hist: "unat (jc_histogram r ! i) = bucket_count (jc_window r) i"
    if "i < NATIVE_AUDIO_JITTER_BUCKETS" for i
    using dinv that bl inc bw unfolding win rh
    by (auto simp: new_def jc_inv_def nth_list_update bucket_count_def)
  have fields: "length (jc_samples r) = length (jc_samples d)" "length (jc_histogram r) = length (jc_histogram d)"
    "jc_head r = jc_head d" "jc_count r = jc_count d + 1" by (simp_all add: r_def)
  have bk: "\<forall>s \<in> set (jc_window r). unat (js_bucket s) < NATIVE_AUDIO_JITTER_BUCKETS"
    using dinv bl bw by (auto simp: win jc_inv_def new_def)
  show "jc_inv (snd (jitter_add c now v))"
    using dinv hist bk room unfolding add snd_conv jc_inv_def fields by simp
  show "fst (jitter_add c now v) = jitter_p95 (snd (jitter_add c now v))" by (simp add: add)
qed

section \<open>The percentile\<close>

lemma p95_loop_Some:
  "p95_loop hs k seen t = Some b \<Longrightarrow> \<exists>n < length hs. b = k + n \<and>
   t \<le> seen + sum_list (map unat (take (Suc n) hs)) \<and>
   (\<forall>j < n. seen + sum_list (map unat (take (Suc j) hs)) < t)"
proof (induction hs arbitrary: k seen)
  case (Cons h hs)
  show ?case
  proof (cases "t \<le> seen + unat h")
    case True
    then show ?thesis using Cons.prems by (intro exI [of _ 0]) simp
  next
    case False
    then have "p95_loop hs (k + 1) (seen + unat h) t = Some b" using Cons.prems by simp
    from Cons.IH [OF this] obtain n where n: "n < length hs" "b = k + 1 + n"
      "t \<le> seen + unat h + sum_list (map unat (take (Suc n) hs))"
      "\<forall>j < n. seen + unat h + sum_list (map unat (take (Suc j) hs)) < t" by blast
    have "seen + sum_list (map unat (take (Suc j) (h # hs))) < t" if "j < Suc n" for j
      using that n(4) False by (cases j) auto
    then show ?thesis using n by (intro exI [of _ "Suc n"]) auto
  qed
qed simp

lemma p95_loop_None: "p95_loop hs k seen t = None \<Longrightarrow> hs \<noteq> [] \<Longrightarrow> seen + sum_list (map unat hs) < t"
proof (induction hs arbitrary: k seen)
  case (Cons h hs)
  then have t: "seen + unat h < t" "p95_loop hs (k + 1) (seen + unat h) t = None"
    by (auto simp: Let_def split: if_splits)
  then show ?case using Cons.IH [OF t(2)] by (cases hs) auto
qed simp

lemma rank_sum:
  assumes "jc_inv c" "b < NATIVE_AUDIO_JITTER_BUCKETS"
  shows "sum_list (map unat (take (b + 1) (jc_histogram c))) = rank (jc_window c) b"
  using assms(2)
proof (induction b)
  case 0
  have "0 < length (jc_histogram c)" using assms(1) 0 by (simp add: jc_inv_def)
  then have "take 1 (jc_histogram c) = [jc_histogram c ! 0]" by (simp add: take_Suc_conv_app_nth)
  then show ?case using assms(1) 0 by (simp add: jc_inv_def rank_def bucket_count_def)
next
  case (Suc b)
  have split: "rank ss (Suc b) = rank ss b + bucket_count ss (Suc b)" for ss
    by (induction ss) (auto simp: rank_def bucket_count_def)
  have "Suc b < length (jc_histogram c)" using assms(1) Suc.prems by (simp add: jc_inv_def)
  then have "take (Suc b + 1) (jc_histogram c) = take (b + 1) (jc_histogram c) @ [jc_histogram c ! Suc b]"
    by (simp add: take_Suc_conv_app_nth)
  then show ?case using Suc assms(1) split by (simp add: jc_inv_def)
qed

lemma p95_threshold: "95 * n \<le> 100 * r \<longleftrightarrow> (n * 95 + 99) div 100 \<le> (r :: nat)"
  by linarith

lemma jc_p95_least:
  assumes inv: "jc_inv c" and pos: "0 < jc_count c"
  shows "jitter_p95 c = word_of_nat (NATIVE_AUDIO_JITTER_BUCKET_MS *
    (LEAST b. 95 * jc_count c \<le> 100 * rank (jc_window c) b))"
proof -
  let ?t = "(jc_count c * 95 + 99) div 100"
  let ?P = "\<lambda>b. 95 * jc_count c \<le> 100 * rank (jc_window c) b"
  have thr: "?P b \<longleftrightarrow> ?t \<le> rank (jc_window c) b" for b by (rule p95_threshold)
  have len: "length (jc_histogram c) = NATIVE_AUDIO_JITTER_BUCKETS" using inv by (simp add: jc_inv_def)
  have "\<forall>s \<in> set (jc_window c). unat (js_bucket s) \<le> NATIVE_AUDIO_JITTER_BUCKETS - 1"
    using inv by (auto simp: jc_inv_def NATIVE_AUDIO_JITTER_BUCKETS_def)
  then have top: "rank (jc_window c) (NATIVE_AUDIO_JITTER_BUCKETS - 1) = jc_count c"
    by (simp add: rank_def)
  have sum: "sum_list (map unat (take (Suc b) (jc_histogram c))) = rank (jc_window c) b"
    if "b < NATIVE_AUDIO_JITTER_BUCKETS" for b using rank_sum [OF inv that] by simp
  show ?thesis
  proof (cases "p95_loop (jc_histogram c) 0 0 ?t")
    case None
    have "jc_histogram c \<noteq> []" using len by (auto simp: NATIVE_AUDIO_JITTER_BUCKETS_def)
    from p95_loop_None [OF None this] have "sum_list (map unat (jc_histogram c)) < ?t" by simp
    moreover have "sum_list (map unat (jc_histogram c)) = jc_count c"
    proof -
      have "Suc (NATIVE_AUDIO_JITTER_BUCKETS - 1) = NATIVE_AUDIO_JITTER_BUCKETS"
        by (simp add: NATIVE_AUDIO_JITTER_BUCKETS_def)
      with sum [of "NATIVE_AUDIO_JITTER_BUCKETS - 1"] top len show ?thesis by simp
    qed
    moreover have "?t \<le> jc_count c" using thr [of "NATIVE_AUDIO_JITTER_BUCKETS - 1"] top by simp
    ultimately show ?thesis by simp
  next
    case (Some b)
    from p95_loop_Some [OF Some] obtain n where n: "n < length (jc_histogram c)" "b = n"
      "?t \<le> sum_list (map unat (take (Suc n) (jc_histogram c)))"
      "\<forall>j < n. sum_list (map unat (take (Suc j) (jc_histogram c))) < ?t" by auto
    then have b: "b < NATIVE_AUDIO_JITTER_BUCKETS" "?P b" using len sum [of b] thr [of b] by simp_all
    have "\<forall>j < b. \<not> ?P j"
    proof (intro allI impI)
      fix j assume "j < b"
      then have "rank (jc_window c) j < ?t" using n(2) n(4) [rule_format, of j] b(1) sum [of j] by simp
      then show "\<not> ?P j" unfolding thr not_le .
    qed
    note b = b this
    have "(LEAST b. ?P b) = b" by (rule Least_equality) (use b in \<open>auto simp: not_less [symmetric]\<close>)
    then show ?thesis using Some pos by (simp add: jitter_p95_def mult.commute)
  qed
qed

section \<open>The target\<close>

lemma jc_retarget_inv: "jc_inv c \<Longrightarrow> jc_inv (snd (jitter_retarget c p ct v now cur))"
  by (simp add: jitter_retarget_def Let_def)

lemma jc_steady_inv:
  assumes "jc_inv c"
  shows "jc_inv (snd (jitter_update_steady c d ts now u cur))"
  unfolding jitter_update_steady_def Let_def snd_conv jc_inv_cong
  by (intro jc_retarget_inv) (simp add: jc_add_result(2) [OF assms])

lemma jc_update_inv [inv_pres]:
  "jc_inv c \<Longrightarrow> jc_inv (snd (native_audio_jitter_update c fr rate ts now u cur))"
  by (simp add: native_audio_jitter_update_def Let_def jc_steady_inv jc_clear_inv)

datatype JitterOp = JUpdate u32 u32 u32 u32 u32 u32 | JDiscontinuity | JReset u32 u32

definition jc_step :: "NativeAudioJitterController \<Rightarrow> JitterOp \<Rightarrow> NativeAudioJitterController" where
  "jc_step c op = (case op of
      JUpdate fr rate ts now u cur \<Rightarrow> snd (native_audio_jitter_update c fr rate ts now u cur)
    | JDiscontinuity \<Rightarrow> native_audio_jitter_mark_discontinuity c
    | JReset now u \<Rightarrow> native_audio_jitter_reset now u)"

lemma jc_run_inv: "jc_inv c \<Longrightarrow> jc_inv (foldl jc_step c ops)"
proof (induction ops arbitrary: c)
  case (Cons op ops)
  have "jc_inv (jc_step c op)"
    using Cons.prems
    by (cases op) (simp_all add: jc_step_def inv_pres native_audio_jitter_mark_discontinuity_def)
  then show ?case using Cons.IH by simp
qed simp

lemma jitter_target_bounds:
  "NATIVE_AUDIO_JITTER_TARGET_MIN_MS \<le> jitter_target ms \<and> jitter_target ms \<le> NATIVE_AUDIO_JITTER_TARGET_MAX_MS"
  by (auto simp: jitter_target_def clamp_u32_def NATIVE_AUDIO_JITTER_TARGET_MIN_MS_def
    NATIVE_AUDIO_JITTER_TARGET_MAX_MS_def)

text \<open>What an answer may say, by its action.\<close>

definition answer_ok :: "NativeAudioJitterController \<Rightarrow> u32 \<Rightarrow> u32 \<Rightarrow> NativeAudioJitterUpdate \<Rightarrow>
    NativeAudioJitterController \<Rightarrow> bool" where
  "answer_ok c now cur u c' \<longleftrightarrow>
     NATIVE_AUDIO_JITTER_TARGET_MIN_MS \<le> ju_target_delay_ms u \<and>
     ju_target_delay_ms u \<le> NATIVE_AUDIO_JITTER_TARGET_MAX_MS \<and>
     (ju_talkspurt u \<longleftrightarrow> ju_target_action u = TARGET_SET) \<and>
     (case ju_target_action u of
        TARGET_UNCHANGED \<Rightarrow> ju_target_delay_ms u = cur
      | TARGET_SET \<Rightarrow> jc_window c' = [] \<and> NATIVE_AUDIO_JITTER_TARGET_INITIAL_MS \<le> ju_target_delay_ms u
      | TARGET_RAISE \<Rightarrow> cur < ju_target_delay_ms u \<and> jc_last_target_change_ms c' = now
      | TARGET_DECAY \<Rightarrow> ju_target_delay_ms u < cur \<and>
          cur - ju_target_delay_ms u \<le> NATIVE_AUDIO_JITTER_TARGET_DECAY_STEP_MS \<and>
          NATIVE_AUDIO_JITTER_TARGET_DECAY_MS \<le> now - jc_last_target_change_ms c \<and>
          jc_last_target_change_ms c' = now)"

lemma decay_step:
  fixes cur calc :: u32
  assumes "40 \<le> cur" "calc < cur"
  shows "10 < cur \<and> cur - 10 < cur \<and> cur - max calc (cur - 10) \<le> 10"
proof -
  have u: "unat (cur - 10) = unat cur - 10" "10 < unat cur"
    using assms(1) by (simp_all add: word_le_nat_alt unat_sub)
  then have "10 < cur" "cur - 10 < cur" by (simp_all add: word_less_nat_alt)
  moreover have "cur - max calc (cur - 10) \<le> 10"
  proof (cases "calc \<le> cur - 10")
    case False
    then have "unat cur - 10 < unat calc" "unat calc < unat cur"
      using u assms(2) by (simp_all add: word_less_nat_alt word_le_nat_alt)
    then show ?thesis using False assms(2) by (simp add: max_def word_le_nat_alt unat_sub less_imp_le)
  qed (simp add: max_def)
  ultimately show ?thesis by blast
qed

lemma jc_retarget_cases:
  assumes "jitter_retarget d p ct v now cur = ((t, a), d')" "NATIVE_AUDIO_JITTER_TARGET_DECAY_STEP_MS < cur"
  defines "calc \<equiv> clamp_u32 (p + NATIVE_AUDIO_JITTER_TARGET_HEADROOM_MS) ct
    NATIVE_AUDIO_JITTER_TARGET_MAX_MS"
  obtains (raise) "cur < max (jitter_target v) ct" "t = max (jitter_target v) ct" "a = TARGET_RAISE"
      "jc_last_target_change_ms d' = now"
    | (decay) "calc < cur" "NATIVE_AUDIO_JITTER_TARGET_DECAY_MS \<le> now - jc_last_target_change_ms d"
        "t = max calc (cur - NATIVE_AUDIO_JITTER_TARGET_DECAY_STEP_MS)" "a = TARGET_DECAY"
        "jc_last_target_change_ms d' = now"
    | (same) "t = cur" "a = TARGET_UNCHANGED"
proof -
  have pk: "(if ct > jitter_target v then ct else jitter_target v) = max (jitter_target v) ct"
    by (auto simp: max_def)
  have mx: "(if cur - s < k then k else cur - s) = max k (cur - s)" for k s
    by (auto simp: max_def)
  show thesis
proof (cases "cur < max (jitter_target v) ct")
  case True
  then have "jitter_retarget d p ct v now cur =
     ((max (jitter_target v) ct, TARGET_RAISE), d\<lparr>jc_last_target_change_ms := now\<rparr>)"
    unfolding jitter_retarget_def Let_def pk by simp
  then have "t = max (jitter_target v) ct" "a = TARGET_RAISE" "d' = d\<lparr>jc_last_target_change_ms := now\<rparr>"
    using assms(1) by simp_all
  then show ?thesis by (intro raise [OF True]) simp_all
next
  case False
  then have r: "jitter_retarget d p ct v now cur =
     (if calc < cur \<and> now - jc_last_target_change_ms d \<ge> NATIVE_AUDIO_JITTER_TARGET_DECAY_MS
      then ((max calc (cur - NATIVE_AUDIO_JITTER_TARGET_DECAY_STEP_MS), TARGET_DECAY),
        d\<lparr>jc_last_target_change_ms := now\<rparr>)
      else ((cur, TARGET_UNCHANGED), d))"
    using assms(2) unfolding jitter_retarget_def Let_def pk calc_def by (simp only: if_False if_True mx)
  show ?thesis
  proof (cases "calc < cur \<and> now - jc_last_target_change_ms d \<ge> NATIVE_AUDIO_JITTER_TARGET_DECAY_MS")
    case True
    then have "jitter_retarget d p ct v now cur = ((max calc (cur - NATIVE_AUDIO_JITTER_TARGET_DECAY_STEP_MS),
        TARGET_DECAY), d\<lparr>jc_last_target_change_ms := now\<rparr>)" unfolding r by (rule if_P)
    then have e: "t = max calc (cur - NATIVE_AUDIO_JITTER_TARGET_DECAY_STEP_MS)" "a = TARGET_DECAY"
      "d' = d\<lparr>jc_last_target_change_ms := now\<rparr>" using assms(1) by simp_all
    show ?thesis by (rule decay [OF _ _ e(1,2)]) (use True e(3) in \<open>simp_all only:\<close>, simp)
  next
    case False
    then have "jitter_retarget d p ct v now cur = ((cur, TARGET_UNCHANGED), d)" unfolding r by (rule if_not_P)
    then show ?thesis using assms(1) same by simp
  qed
qed
qed

lemma jc_retarget_ok:
  assumes cur: "NATIVE_AUDIO_JITTER_TARGET_MIN_MS \<le> cur" "cur \<le> NATIVE_AUDIO_JITTER_TARGET_MAX_MS"
    and ct: "NATIVE_AUDIO_JITTER_TARGET_MIN_MS \<le> ct" "ct \<le> NATIVE_AUDIO_JITTER_TARGET_MAX_MS"
    and last: "jc_last_target_change_ms d = jc_last_target_change_ms c \<or> jc_last_target_change_ms d = now"
    and r: "jitter_retarget d p ct v now cur = ((t, a), d')"
  shows "answer_ok c now cur \<lparr>ju_jitter_p95_ms = p, ju_target_delay_ms = t, ju_target_action = a,
     ju_talkspurt = False\<rparr> (d'\<lparr>jc_last_arrival_ms := x, jc_last_timestamp_ms := y\<rparr>)"
proof -
  have step: "NATIVE_AUDIO_JITTER_TARGET_DECAY_STEP_MS < cur"
    using decay_step [of cur 0] cur(1)
    by (simp add: NATIVE_AUDIO_JITTER_TARGET_MIN_MS_def NATIVE_AUDIO_JITTER_TARGET_DECAY_STEP_MS_def
        word_le_nat_alt word_less_nat_alt)
  have calc: "ct \<le> clamp_u32 x ct NATIVE_AUDIO_JITTER_TARGET_MAX_MS"
    "clamp_u32 x ct NATIVE_AUDIO_JITTER_TARGET_MAX_MS \<le> NATIVE_AUDIO_JITTER_TARGET_MAX_MS" for x
    using ct by (auto simp: clamp_u32_def)
  show ?thesis
    using r step
  proof (cases rule: jc_retarget_cases)
    case raise
    have "NATIVE_AUDIO_JITTER_TARGET_MIN_MS \<le> t" "t \<le> NATIVE_AUDIO_JITTER_TARGET_MAX_MS"
      using raise(2) ct jitter_target_bounds [of v] by (simp_all add: max_def)
    then show ?thesis using raise by (simp add: answer_ok_def)
  next
    case decay
    let ?calc = "clamp_u32 (p + NATIVE_AUDIO_JITTER_TARGET_HEADROOM_MS) ct NATIVE_AUDIO_JITTER_TARGET_MAX_MS"
    have "jc_last_target_change_ms d \<noteq> now"
      using decay(2) by (auto simp: NATIVE_AUDIO_JITTER_TARGET_DECAY_MS_def)
    then have "NATIVE_AUDIO_JITTER_TARGET_DECAY_MS \<le> now - jc_last_target_change_ms c"
      using last decay(2) by simp
    moreover have "cur - t \<le> NATIVE_AUDIO_JITTER_TARGET_DECAY_STEP_MS" "t < cur"
      using decay_step [of cur ?calc] decay(1,3) cur(1)
      by (simp_all add: NATIVE_AUDIO_JITTER_TARGET_MIN_MS_def NATIVE_AUDIO_JITTER_TARGET_DECAY_STEP_MS_def)
    moreover have "?calc \<le> t" unfolding decay(3) by simp
    then have "NATIVE_AUDIO_JITTER_TARGET_MIN_MS \<le> t"
      using order_trans [OF ct(1) calc(1)] order_trans by blast
    moreover have "t \<le> NATIVE_AUDIO_JITTER_TARGET_MAX_MS"
      using order_trans [OF less_imp_le cur(2)] \<open>t < cur\<close> by blast
    ultimately show ?thesis using decay(4,5) by (simp add: answer_ok_def)
  next
    case same
    then show ?thesis using cur by (simp add: answer_ok_def)
  qed
qed

lemma jc_update_ok:
  assumes cur: "NATIVE_AUDIO_JITTER_TARGET_MIN_MS \<le> cur" "cur \<le> NATIVE_AUDIO_JITTER_TARGET_MAX_MS"
    and u: "native_audio_jitter_update c fr rate ts now un cur = (u, c')"
  shows "answer_ok c now cur u c'"
proof -
  note jt = jitter_target_bounds [of "jitter_duration fr rate"]
  consider (first) "\<not> jc_have_arrival c"
    | (gap) "jc_have_arrival c" "now - jc_last_arrival_ms c > NATIVE_AUDIO_JITTER_LONG_GAP_MS"
    | (steady) "jc_have_arrival c" "\<not> now - jc_last_arrival_ms c > NATIVE_AUDIO_JITTER_LONG_GAP_MS" by blast
  then show ?thesis
  proof cases
    case first
    then show ?thesis
      using u jt cur unfolding native_audio_jitter_update_def Let_def if_P [OF first]
      by (cases "jitter_target (jitter_duration fr rate) > cur") (auto simp: answer_ok_def)
  next
    case gap
    then have "u = \<lparr>ju_jitter_p95_ms = 0, ju_target_delay_ms = (if jitter_target (jitter_duration fr rate)
          > NATIVE_AUDIO_JITTER_TARGET_INITIAL_MS
        then jitter_target (jitter_duration fr rate) else NATIVE_AUDIO_JITTER_TARGET_INITIAL_MS),
        ju_target_action = TARGET_SET, ju_talkspurt = True\<rparr>"
      "c' = jitter_samples_clear c\<lparr>jc_last_target_change_ms := now, jc_last_arrival_ms := now,
        jc_last_timestamp_ms := ts\<rparr>"
      using u unfolding native_audio_jitter_update_def Let_def by simp_all
    then show ?thesis using jt
      by (auto simp: answer_ok_def NATIVE_AUDIO_JITTER_TARGET_INITIAL_MS_def jitter_samples_clear_def
        NATIVE_AUDIO_JITTER_TARGET_MIN_MS_def NATIVE_AUDIO_JITTER_TARGET_MAX_MS_def jc_window_def)
  next
    case steady
    let ?d = "jitter_duration fr rate"
    define ex where "ex = (if ts \<noteq> 0 \<and> jc_last_timestamp_ms c \<noteq> 0 \<and> ts - jc_last_timestamp_ms c \<noteq> 0 \<and>
      ts - jc_last_timestamp_ms c \<le> NATIVE_AUDIO_JITTER_LONG_GAP_MS then ts - jc_last_timestamp_ms c else ?d)"
    define v where "v = (if now - jc_last_arrival_ms c > ex then now - jc_last_arrival_ms c - ex
      else ex - (now - jc_last_arrival_ms c))"
    define ad where "ad = jitter_add c now v"
    define d where "d = (if un \<noteq> jc_seen_underruns (snd ad)
      then snd ad\<lparr>jc_seen_underruns := un, jc_last_target_change_ms := now\<rparr> else snd ad)"
    define ct where "ct = (if ex > ?d then jitter_target ex else jitter_target ?d)"
    obtain t a d' where r: "jitter_retarget d (fst ad) ct v now cur = ((t, a), d')"
      by (metis prod.collapse)
    have res: "(u, c') = (\<lparr>ju_jitter_p95_ms = fst ad, ju_target_delay_ms = t, ju_target_action = a,
        ju_talkspurt = False\<rparr>, d'\<lparr>jc_last_arrival_ms := now, jc_last_timestamp_ms := ts\<rparr>)"
      using u steady unfolding native_audio_jitter_update_def jitter_update_steady_def Let_def
        ex_def [symmetric] v_def [symmetric] ad_def [symmetric] d_def [symmetric] ct_def [symmetric] r
      by simp
    have exp: "jc_last_target_change_ms (jitter_expire c now) = jc_last_target_change_ms c"
      by (induction c now rule: jitter_expire.induct)
        (subst jitter_expire.simps, auto simp: jitter_remove_oldest_def Let_def)
    have "jc_last_target_change_ms (snd ad) = jc_last_target_change_ms c"
      by (simp add: ad_def jitter_add_def Let_def exp jitter_remove_oldest_def)
    then have last: "jc_last_target_change_ms d = jc_last_target_change_ms c \<or> jc_last_target_change_ms d = now"
      by (simp add: d_def)
    have "NATIVE_AUDIO_JITTER_TARGET_MIN_MS \<le> ct" "ct \<le> NATIVE_AUDIO_JITTER_TARGET_MAX_MS"
      using jt jitter_target_bounds [of ex] by (simp_all add: ct_def)
    from jc_retarget_ok [OF cur this last r] res show ?thesis by simp
  qed
qed

section \<open>Properties\<close>


text \<open>
  C19: the target delay.  From a target between 40 and 260 ms every update answers a target in
  the same range; an unchanged answer keeps the target, a raise raises it, a set after a gap of
  more than 500 ms empties the window and starts a talk spurt at 60 ms or more, and a decay
  lowers it by at most 10 ms and only when five seconds have passed since the last change, which
  it becomes.
\<close>

theorem jitter_target_bounded:
  assumes "40 \<le> cur" "cur \<le> 260"
    and "native_audio_jitter_update c fr rate ts now un cur = (u, c')"
  shows "40 \<le> ju_target_delay_ms u \<and> ju_target_delay_ms u \<le> 260 \<and> answer_ok c now cur u c'"
proof -
  have "answer_ok c now cur u c'"
    using assms by (intro jc_update_ok) (simp_all add: NATIVE_AUDIO_JITTER_TARGET_MIN_MS_def
      NATIVE_AUDIO_JITTER_TARGET_MAX_MS_def)
  then show ?thesis by (simp add: answer_ok_def NATIVE_AUDIO_JITTER_TARGET_MIN_MS_def
      NATIVE_AUDIO_JITTER_TARGET_MAX_MS_def)
qed

theorem jitter_target_bounded_witness:
  "ju_target_delay_ms (fst (native_audio_jitter_update (native_audio_jitter_reset 9 0) 4410 44100 1 10 0 60)) = 120 \<and>
   answer_ok (native_audio_jitter_reset 9 0) 10 60
     (fst (native_audio_jitter_update (native_audio_jitter_reset 9 0) 4410 44100 1 10 0 60))
     (snd (native_audio_jitter_update (native_audio_jitter_reset 9 0) 4410 44100 1 10 0 60))"
proof -
  have "(40 :: u32) \<le> 60" "(60 :: u32) \<le> 260" by simp_all
  from jitter_target_bounded [OF this prod.collapse [symmetric]]
  have "answer_ok (native_audio_jitter_reset 9 0) 10 60
     (fst (native_audio_jitter_update (native_audio_jitter_reset 9 0) 4410 44100 1 10 0 60))
     (snd (native_audio_jitter_update (native_audio_jitter_reset 9 0) 4410 44100 1 10 0 60))" by blast
  moreover have "jitter_duration 4410 44100 = 100" by (simp add: jitter_duration_def)
  ultimately show ?thesis
    by (simp add: native_audio_jitter_update_def native_audio_jitter_reset_def jitter_target_def clamp_u32_def
      NATIVE_AUDIO_JITTER_TARGET_HEADROOM_MS_def NATIVE_AUDIO_JITTER_TARGET_MIN_MS_def
      NATIVE_AUDIO_JITTER_TARGET_MAX_MS_def)
qed

end
