(* ===== verification/Audio_Pcm.thy ===== *)
theory Audio_Pcm
  imports Lg_Prelude "HOL-Library.Signed_Division"
begin

text \<open>
  The microphone's streaming resampler and packetizer, \<open>native/src/audio_input_pcm.c\<close>: 16-bit mono
  or stereo at any rate from 8 to 192 kHz in, 44.1 kHz stereo packets out, by linear
  interpolation on exact 64-bit rational time stamps.  Sample arithmetic is C's (truncating
  division, \<open>sdiv\<close>); it never leaves 64 bits, so it is done on \<open>int\<close>.  The counters are 64-bit
  words.  The packet callback is the log of the packets it was called with.  The decibel
  conversion (\<open>powf\<close>, \<open>lroundf\<close>) is the parameter \<open>gain_of\<close>, and \<open>mem\<close> says whether the two
  allocations succeed.
\<close>

section \<open>Data\<close>

definition NATIVE_AUDIO_INPUT_WIRE_RATE :: nat where "NATIVE_AUDIO_INPUT_WIRE_RATE = 44100"
definition NATIVE_AUDIO_INPUT_WIRE_CHANNELS :: nat where "NATIVE_AUDIO_INPUT_WIRE_CHANNELS = 2"

record NativeAudioInputPcmImpl =
  pi_input_rate :: u32
  pi_input_channels :: nat
  pi_frames_per_packet :: nat
  pi_gain_q15 :: int
  pi_packet_samples :: "i16 list"
  pi_packet_frames :: nat
  pi_input_index :: u64
  pi_next_output_numerator :: u64
  pi_previous_left :: i16
  pi_previous_right :: i16
  pi_have_previous :: bool
  pi_packets :: "i16 list list" \<comment> \<open>the arguments of the calls of \<open>packet\<close>, oldest first\<close>

section \<open>Operations\<close>

definition clamp_s16 :: "int \<Rightarrow> i16" where
  "clamp_s16 sample = (if sample > 32767 then 32767 else if sample < -32768 then -32768
     else word_of_int sample)"

definition apply_gain :: "int \<Rightarrow> int \<Rightarrow> i16" where
  "apply_gain gain_q15 sample =
     (let scaled = sample * gain_q15;
          scaled = (if scaled \<ge> 0 then scaled + 16384 else scaled - 16384) in
      clamp_s16 (scaled sdiv 32768))"

definition emit_frame :: "NativeAudioInputPcmImpl \<Rightarrow> i16 \<Rightarrow> i16 \<Rightarrow> NativeAudioInputPcmImpl" where
  "emit_frame impl left right =
     (let offset = pi_packet_frames impl * NATIVE_AUDIO_INPUT_WIRE_CHANNELS;
          impl = impl\<lparr>pi_packet_samples := (pi_packet_samples impl)
            [offset := apply_gain (pi_gain_q15 impl) (sint left),
             offset + 1 := apply_gain (pi_gain_q15 impl) (sint right)]\<rparr>;
          impl = impl\<lparr>pi_packet_frames := pi_packet_frames impl + 1\<rparr> in
      if pi_packet_frames impl = pi_frames_per_packet impl
      then impl\<lparr>pi_packets := pi_packets impl @
             [take (pi_packet_frames impl * NATIVE_AUDIO_INPUT_WIRE_CHANNELS) (pi_packet_samples impl)],
           pi_packet_frames := 0\<rparr>
      else impl)"

definition native_audio_input_pcm_init :: "(int \<Rightarrow> int) \<Rightarrow> bool \<Rightarrow> u32 \<Rightarrow> nat \<Rightarrow> nat \<Rightarrow> int \<Rightarrow>
    NativeAudioInputPcmImpl option" where
  "native_audio_input_pcm_init gain_of mem input_rate input_channels frames_per_packet gain_db =
     (if input_rate < 8000 \<or> input_rate > 192000 \<or> (input_channels \<noteq> 1 \<and> input_channels \<noteq> 2) \<or>
         frames_per_packet = 0 \<or> frames_per_packet > 4096 \<or> gain_db < -12 \<or> gain_db > 18
      then None
      else if \<not> mem then None
      else Some \<lparr>pi_input_rate = input_rate, pi_input_channels = input_channels,
        pi_frames_per_packet = frames_per_packet, pi_gain_q15 = gain_of gain_db,
        pi_packet_samples = replicate (frames_per_packet * NATIVE_AUDIO_INPUT_WIRE_CHANNELS) 0,
        pi_packet_frames = 0, pi_input_index = 0, pi_next_output_numerator = 0,
        pi_previous_left = 0, pi_previous_right = 0, pi_have_previous = False, pi_packets = []\<rparr>)"

text \<open>One interpolated channel.\<close>

definition interpolate :: "i16 \<Rightarrow> i16 \<Rightarrow> nat \<Rightarrow> int" where
  "interpolate previous current fraction =
     (sint previous * int (NATIVE_AUDIO_INPUT_WIRE_RATE - fraction) + sint current * int fraction)
       sdiv int NATIVE_AUDIO_INPUT_WIRE_RATE"

text \<open>The output pair at the next output time: on the line from the previous frame to this one.\<close>

definition pcm_output_pair :: "NativeAudioInputPcmImpl \<Rightarrow> i16 \<Rightarrow> i16 \<Rightarrow> int \<times> int" where
  "pcm_output_pair impl left right =
     (if pi_input_index impl > 0 then
        let previous_numerator = (pi_input_index impl - 1) * word_of_nat NATIVE_AUDIO_INPUT_WIRE_RATE;
            fraction = pi_next_output_numerator impl - previous_numerator;
            fraction = (if fraction > word_of_nat NATIVE_AUDIO_INPUT_WIRE_RATE
               then word_of_nat NATIVE_AUDIO_INPUT_WIRE_RATE else fraction) in
        (interpolate (pi_previous_left impl) left (unat fraction),
         interpolate (pi_previous_right impl) right (unat fraction))
      else (sint left, sint right))"

text \<open>
  The output loop of one input frame.  The 64-bit numerator could in principle wrap and the loop
  not end, so it is a partial function; \<open>None\<close> is a loop that does not return.
\<close>

partial_function (option) pcm_output_loop :: "u64 \<Rightarrow> i16 \<Rightarrow> i16 \<Rightarrow> NativeAudioInputPcmImpl \<Rightarrow>
    NativeAudioInputPcmImpl option" where
  "pcm_output_loop current_numerator left right impl =
     (if pi_next_output_numerator impl \<le> current_numerator then
        let out = pcm_output_pair impl left right;
            impl = emit_frame impl (word_of_int (fst out)) (word_of_int (snd out)) in
        pcm_output_loop current_numerator left right
          (impl\<lparr>pi_next_output_numerator := pi_next_output_numerator impl + ucast (pi_input_rate impl)\<rparr>)
      else Some impl)"

definition pcm_push_frame :: "NativeAudioInputPcmImpl \<Rightarrow> i16 \<Rightarrow> i16 \<Rightarrow> NativeAudioInputPcmImpl option" where
  "pcm_push_frame impl left right =
     (let current_numerator = pi_input_index impl * word_of_nat NATIVE_AUDIO_INPUT_WIRE_RATE;
          impl = (if \<not> pi_have_previous impl
            then impl\<lparr>pi_previous_left := left, pi_previous_right := right, pi_have_previous := True\<rparr>
            else impl) in
      case pcm_output_loop current_numerator left right impl of
        None \<Rightarrow> None
      | Some impl \<Rightarrow> Some (impl\<lparr>pi_previous_left := left, pi_previous_right := right,
          pi_input_index := pi_input_index impl + 1\<rparr>))"

text \<open>The frame loop, over the frame indices still to do.\<close>

fun pcm_push_loop :: "i16 list \<Rightarrow> nat list \<Rightarrow> NativeAudioInputPcmImpl \<Rightarrow> NativeAudioInputPcmImpl option" where
  "pcm_push_loop samples [] impl = Some impl"
| "pcm_push_loop samples (frame # frames) impl =
     (let left = samples ! (frame * pi_input_channels impl);
          right = (if pi_input_channels impl = 1 then left
             else samples ! (frame * pi_input_channels impl + 1)) in
      case pcm_push_frame impl left right of
        None \<Rightarrow> None
      | Some impl \<Rightarrow> pcm_push_loop samples frames impl)"

definition native_audio_input_pcm_push :: "NativeAudioInputPcmImpl \<Rightarrow> i16 list \<Rightarrow> nat \<Rightarrow>
    NativeAudioInputPcmImpl option" where
  "native_audio_input_pcm_push impl samples frames = pcm_push_loop samples [0..<frames] impl"

section \<open>Specification\<close>

text \<open>All samples handed out so far: the packets, and the part of the packet under way.\<close>

definition pcm_out :: "NativeAudioInputPcmImpl \<Rightarrow> i16 list" where
  "pcm_out impl = concat (pi_packets impl) @
     take (pi_packet_frames impl * NATIVE_AUDIO_INPUT_WIRE_CHANNELS) (pi_packet_samples impl)"

text \<open>
  Output frame \<open>k\<close> of an ideal resampler: at time \<open>k * rate / 44100\<close> (in input frames), on the line
  between the two neighbouring input frames.
\<close>

definition resampled :: "nat \<Rightarrow> int \<Rightarrow> (i16 \<times> i16) list \<Rightarrow> nat \<Rightarrow> i16 list" where
  "resampled rate gain fs k =
     (let t = k * rate; i = (t + 44099) div 44100; f = t - (i - 1) * 44100;
          line = (\<lambda>ch. if i = 0 then sint (ch (fs ! 0)) else interpolate (ch (fs ! (i - 1))) (ch (fs ! i)) f) in
      [apply_gain gain (line fst), apply_gain gain (line snd)])"

text \<open>How many output frames lie at or before input frame \<open>n - 1\<close>.\<close>

definition out_count :: "nat \<Rightarrow> nat \<Rightarrow> nat" where
  "out_count rate n = (if n = 0 then 0 else (n - 1) * 44100 div rate + 1)"

definition stereo_frames :: "nat \<Rightarrow> i16 list \<Rightarrow> nat \<Rightarrow> (i16 \<times> i16) list" where
  "stereo_frames ch samples n = map (\<lambda>f. (samples ! (f * ch),
     if ch = 1 then samples ! (f * ch) else samples ! (f * ch + 1))) [0..<n]"

section \<open>Arithmetic\<close>

lemma sdiv_nonneg: "0 < w \<Longrightarrow> 0 \<le> a \<Longrightarrow> a sdiv w = a div (w :: int)"
  by (cases "a = 0") (simp_all add: signed_divide_int_def)

lemma sdiv_neg: "0 < w \<Longrightarrow> a < 0 \<Longrightarrow> a sdiv w = - ((- a) div (w :: int))"
  by (simp add: signed_divide_int_def)

lemma sdiv_between:
  fixes a w lo hi :: int
  assumes "0 < w" "lo * w \<le> a" "a \<le> hi * w"
  shows "lo \<le> a sdiv w \<and> a sdiv w \<le> hi"
proof (cases "0 \<le> a")
  case True
  then have s: "a sdiv w = a div w" using assms(1) by (simp add: sdiv_nonneg)
  have "lo \<le> a div w" using assms(1) zdiv_mono1 [OF assms(2,1)] by simp
  moreover have "a div w \<le> hi" using zdiv_mono1 [OF assms(3,1)] assms(1) by simp
  ultimately show ?thesis using s by simp
next
  case False
  then have s: "a sdiv w = - ((- a) div w)" using assms(1) by (simp add: sdiv_neg)
  have "(- a) div w \<le> - lo" using zdiv_mono1 [of "- a" "- lo * w" w] nonzero_mult_div_cancel_right [of w "- lo"] assms by simp
  moreover have "- hi \<le> (- a) div w" using zdiv_mono1 [of "- hi * w" "- a" w] nonzero_mult_div_cancel_right [of w "- hi"] assms by simp
  ultimately show ?thesis using s by simp
qed

lemma sint_i16: "- 32768 \<le> sint (w :: i16)" "sint (w :: i16) \<le> 32767"
  using sint_ge [of w] sint_lt [of w] by simp_all

lemma interpolate_between:
  assumes "f \<le> NATIVE_AUDIO_INPUT_WIRE_RATE"
  shows "min (sint p) (sint c) \<le> interpolate p c f \<and> interpolate p c f \<le> max (sint p) (sint c)"
proof -
  define w where "w = int NATIVE_AUDIO_INPUT_WIRE_RATE"
  define x where "x = int f"
  have wf: "int (NATIVE_AUDIO_INPUT_WIRE_RATE - f) = w - x" "0 \<le> w - x" "0 \<le> x" "0 < w"
    using assms by (simp_all add: w_def x_def of_nat_diff NATIVE_AUDIO_INPUT_WIRE_RATE_def)
  let ?lo = "min (sint p) (sint c)" and ?hi = "max (sint p) (sint c)"
  have "?lo * (w - x) + ?lo * x \<le> sint p * (w - x) + sint c * x"
    "sint p * (w - x) + sint c * x \<le> ?hi * (w - x) + ?hi * x"
    using wf by (intro add_mono mult_right_mono; simp)+
  then have "?lo * w \<le> sint p * (w - x) + sint c * x" "sint p * (w - x) + sint c * x \<le> ?hi * w"
    by (simp_all add: algebra_simps)
  from sdiv_between [OF wf(4) this] show ?thesis
    unfolding interpolate_def wf(1) by (simp add: w_def [symmetric] x_def [symmetric])
qed

lemma i16_fits: "- 32768 \<le> x \<Longrightarrow> x \<le> 32767 \<Longrightarrow> sint (word_of_int x :: i16) = x"
  by (simp add: sint_sbintrunc' signed_take_bit_int_eq_self)

lemma interpolate_fits:
  "f \<le> NATIVE_AUDIO_INPUT_WIRE_RATE \<Longrightarrow> sint (word_of_int (interpolate p c f) :: i16) = interpolate p c f"
  using interpolate_between [of f p c] sint_i16 [of p] sint_i16 [of c] by (intro i16_fits) (auto simp: min_def max_def split: if_splits)

lemma interpolate_end: "interpolate p c NATIVE_AUDIO_INPUT_WIRE_RATE = sint c"
  using sdiv_between [of "int NATIVE_AUDIO_INPUT_WIRE_RATE" "sint c" "sint c * int NATIVE_AUDIO_INPUT_WIRE_RATE" "sint c"]
  by (simp add: interpolate_def NATIVE_AUDIO_INPUT_WIRE_RATE_def)

lemma clamp_s16_sint: "sint (clamp_s16 x) = max (- 32768) (min 32767 x)"
proof -
  have "sint (32767 :: i16) = 32767" "sint (- 32768 :: i16) = - 32768" by simp_all
  then show ?thesis using i16_fits [of x] by (auto simp: clamp_s16_def)
qed

lemma apply_gain_unity: "apply_gain 32768 (sint x) = x"
proof -
  define s where "s = sint x"
  have "(if s * 32768 \<ge> 0 then s * 32768 + 16384 else s * 32768 - 16384) sdiv 32768 = s"
  proof (cases "s * 32768 \<ge> 0")
    case True
    have "(s * 32768 + 16384) div 32768 = s + 16384 div 32768" by (rule div_mult_self3) simp
    then have "(s * 32768 + 16384) div 32768 = s" by simp
    moreover have "(s * 32768 + 16384) sdiv 32768 = (s * 32768 + 16384) div 32768"
      by (rule sdiv_nonneg) (use True in simp_all)
    ultimately show ?thesis using True by (simp only: if_True)
  next
    case False
    have "(- s * 32768 + 16384) div 32768 = - s + 16384 div 32768" by (rule div_mult_self3) simp
    moreover have "- (s * 32768 - 16384) = - s * 32768 + 16384" by simp
    ultimately have "(- (s * 32768 - 16384)) div 32768 = - s" by simp
    moreover have "(s * 32768 - 16384) sdiv 32768 = - ((- (s * 32768 - 16384)) div 32768)"
      by (rule sdiv_neg) (use False in simp_all)
    ultimately show ?thesis using False by (simp only: if_False)
  qed
  then have "apply_gain 32768 s = clamp_s16 s" unfolding apply_gain_def Let_def by (simp only:)
  also have "\<dots> = x" using sint_i16 [of x] by (simp add: clamp_s16_def s_def)
  finally show ?thesis by (simp add: s_def)
qed

text \<open>Rounding half away from zero, then saturation.\<close>

lemma apply_gain_saturates:
  "sint (apply_gain g x) = max (- 32768) (min 32767
     (sgn (x * g) * ((\<bar>x * g\<bar> + 16384) div 32768)))"
proof -
  define y where "y = x * g"
  have "(if y \<ge> 0 then y + 16384 else y - 16384) sdiv 32768 = sgn y * ((\<bar>y\<bar> + 16384) div 32768)"
    by (auto simp: sdiv_nonneg sdiv_neg sgn_if abs_if)
  then show ?thesis unfolding apply_gain_def Let_def clamp_s16_sint y_def by (simp only:)
qed

section \<open>Packetizing\<close>

definition pcm_inv :: "NativeAudioInputPcmImpl \<Rightarrow> bool" where
  "pcm_inv impl \<longleftrightarrow>
     length (pi_packet_samples impl) = pi_frames_per_packet impl * NATIVE_AUDIO_INPUT_WIRE_CHANNELS \<and>
     pi_packet_frames impl < pi_frames_per_packet impl \<and>
     list_all (\<lambda>p. length p = pi_frames_per_packet impl * NATIVE_AUDIO_INPUT_WIRE_CHANNELS) (pi_packets impl)"

lemma take_two_updates:
  "2 * n + 1 < length xs \<Longrightarrow> take (2 * n + 2) (xs[2 * n := a, 2 * n + 1 := b]) = take (2 * n) xs @ [a, b]"
  by (rule nth_equalityI) (auto simp: nth_append nth_list_update less_Suc_eq nth_Cons')

lemma emit_frame_out:
  assumes "pcm_inv impl"
  shows "pcm_out (emit_frame impl l r) =
      pcm_out impl @ [apply_gain (pi_gain_q15 impl) (sint l), apply_gain (pi_gain_q15 impl) (sint r)]"
    and "pcm_inv (emit_frame impl l r)"
proof -
  let ?n = "pi_packet_frames impl"
  let ?g = "apply_gain (pi_gain_q15 impl)"
  let ?buf = "(pi_packet_samples impl)[2 * ?n := ?g (sint l), 2 * ?n + 1 := ?g (sint r)]"
  have len: "length (pi_packet_samples impl) = 2 * pi_frames_per_packet impl"
    "?n < pi_frames_per_packet impl" using assms by (simp_all add: pcm_inv_def NATIVE_AUDIO_INPUT_WIRE_CHANNELS_def)
  then have tk: "take (2 * ?n + 2) ?buf = take (2 * ?n) (pi_packet_samples impl) @ [?g (sint l), ?g (sint r)]"
    by (intro take_two_updates) simp
  have e: "emit_frame impl l r = (if ?n + 1 = pi_frames_per_packet impl
     then impl\<lparr>pi_packet_samples := ?buf, pi_packet_frames := 0,
       pi_packets := pi_packets impl @ [take (2 * ?n + 2) ?buf]\<rparr>
     else impl\<lparr>pi_packet_samples := ?buf, pi_packet_frames := ?n + 1\<rparr>)"
  proof -
    have c: "Suc ?n = pi_frames_per_packet impl \<Longrightarrow> pi_frames_per_packet impl * 2 = Suc (Suc (?n * 2))" by simp
    show ?thesis by (simp add: emit_frame_def Let_def NATIVE_AUDIO_INPUT_WIRE_CHANNELS_def mult.commute)
       (auto simp: c)
  qed
  show "pcm_out (emit_frame impl l r) = pcm_out impl @ [?g (sint l), ?g (sint r)]"
    unfolding e using tk by (simp add: pcm_out_def NATIVE_AUDIO_INPUT_WIRE_CHANNELS_def mult.commute)
  show "pcm_inv (emit_frame impl l r)"
    using assms len unfolding e
    by (auto simp: pcm_inv_def NATIVE_AUDIO_INPUT_WIRE_CHANNELS_def)
qed

lemma emit_frame_fields [simp]:
  "pi_input_rate (emit_frame impl l r) = pi_input_rate impl"
  "pi_input_channels (emit_frame impl l r) = pi_input_channels impl"
  "pi_gain_q15 (emit_frame impl l r) = pi_gain_q15 impl"
  "pi_frames_per_packet (emit_frame impl l r) = pi_frames_per_packet impl"
  "pi_input_index (emit_frame impl l r) = pi_input_index impl"
  "pi_next_output_numerator (emit_frame impl l r) = pi_next_output_numerator impl"
  "pi_previous_left (emit_frame impl l r) = pi_previous_left impl"
  "pi_previous_right (emit_frame impl l r) = pi_previous_right impl"
  "pi_have_previous (emit_frame impl l r) = pi_have_previous impl"
  by (simp_all add: emit_frame_def Let_def)

section \<open>Refinement of the resampler\<close>

definition i16_of :: "int \<Rightarrow> i16" where "i16_of x = word_of_int x"

text \<open>The state after the input frames \<open>fs\<close>, at output frame \<open>k\<close> of the frame under way.\<close>

definition pcm_at :: "u32 \<Rightarrow> int \<Rightarrow> (i16 \<times> i16) list \<Rightarrow> nat \<Rightarrow> NativeAudioInputPcmImpl \<Rightarrow> bool" where
  "pcm_at rate gain fs k impl \<longleftrightarrow> pcm_inv impl \<and> pi_input_rate impl = rate \<and> pi_gain_q15 impl = gain \<and>
     unat (pi_next_output_numerator impl) = k * unat rate \<and>
     pcm_out impl = concat (map (resampled (unat rate) gain fs) [0..<k])"

definition pcm_good :: "u32 \<Rightarrow> int \<Rightarrow> (i16 \<times> i16) list \<Rightarrow> NativeAudioInputPcmImpl \<Rightarrow> bool" where
  "pcm_good rate gain fs impl \<longleftrightarrow> pcm_at rate gain fs (out_count (unat rate) (length fs)) impl \<and>
     unat (pi_input_index impl) = length fs \<and> (pi_have_previous impl \<longleftrightarrow> fs \<noteq> []) \<and>
     (fs \<noteq> [] \<longrightarrow> pi_previous_left impl = fst (last fs) \<and> pi_previous_right impl = snd (last fs))"

lemma ceil_index:
  assumes "(n - 1) * 44100 < k * r \<or> n = 0" "k * r \<le> n * (44100 :: nat)"
  shows "(k * r + 44099) div 44100 = n"
proof (cases n)
  case 0
  then show ?thesis using assms by simp
next
  case (Suc m)
  then have "m * 44100 + 44100 \<le> k * r + 44099" "k * r + 44099 < (m + 1) * 44100 + 44100" using assms by simp_all
  then show ?thesis unfolding Suc
    by (intro div_nat_eqI) (simp_all add: algebra_simps)
qed

text \<open>The interpolated pair of the code is the output frame of the specification.\<close>

lemma loop_output:
  assumes at: "unat (pi_next_output_numerator impl) = k * r" and idx: "unat (pi_input_index impl) = n"
    and n: "n = length fs" and prev: "fs \<noteq> [] \<longrightarrow> p = last fs"
    and between: "n = 0 \<or> (n - 1) * 44100 < k * r" "k * r \<le> n * 44100" and big: "n * 44100 < 2 ^ 64"
    and left: "pi_previous_left impl = fst p" "pi_previous_right impl = snd p"
  defines "frac \<equiv> pi_next_output_numerator impl -
      (pi_input_index impl - 1) * word_of_nat NATIVE_AUDIO_INPUT_WIRE_RATE"
  defines "f \<equiv> (if frac > word_of_nat NATIVE_AUDIO_INPUT_WIRE_RATE then word_of_nat NATIVE_AUDIO_INPUT_WIRE_RATE
      else frac)"
  shows "(if pi_input_index impl > 0 then interpolate (pi_previous_left impl) (fst c) (unat f) else sint (fst c)) =
      (let i = (k * r + 44099) div 44100 in if i = 0 then sint (fst ((fs @ [c]) ! 0))
       else interpolate (fst ((fs @ [c]) ! (i - 1))) (fst ((fs @ [c]) ! i)) (k * r - (i - 1) * 44100))"
    and "(if pi_input_index impl > 0 then interpolate (pi_previous_right impl) (snd c) (unat f) else sint (snd c)) =
      (let i = (k * r + 44099) div 44100 in if i = 0 then sint (snd ((fs @ [c]) ! 0))
       else interpolate (snd ((fs @ [c]) ! (i - 1))) (snd ((fs @ [c]) ! i)) (k * r - (i - 1) * 44100))"
proof -
  have i: "(k * r + 44099) div 44100 = n" using between by (intro ceil_index) auto
  have wire: "unat (word_of_nat NATIVE_AUDIO_INPUT_WIRE_RATE :: u64) = 44100"
    by (simp add: NATIVE_AUDIO_INPUT_WIRE_RATE_def)
  have zero: "pi_input_index impl > 0 \<longleftrightarrow> n \<noteq> 0"
    using idx by (simp add: word_greater_zero_iff unat_gt_0 flip: unat_eq_zero)
  have f: "unat f = k * r - (n - 1) * 44100" if "n \<noteq> 0"
  proof -
    have m: "unat (pi_input_index impl - 1) = n - 1"
      using idx that zero by (simp add: unat_minus_one word_greater_zero_iff)
    have pm: "unat ((pi_input_index impl - 1) * word_of_nat NATIVE_AUDIO_INPUT_WIRE_RATE) = (n - 1) * 44100"
      unfolding unat_word_ariths m wire using big that by (cases n) simp_all
    then have fr: "unat frac = k * r - (n - 1) * 44100"
      unfolding frac_def using between(1) that at pm by (subst unat_sub) (simp_all add: word_le_nat_alt)
    have "k * r - (n - 1) * 44100 \<le> 44100" using between(2) that by (cases n) simp_all
    then have "\<not> frac > word_of_nat NATIVE_AUDIO_INPUT_WIRE_RATE"
      using fr wire by (simp add: word_less_nat_alt)
    then show ?thesis using fr by (simp add: f_def)
  qed
  have last: "fs \<noteq> [] \<Longrightarrow> (fs @ [c]) ! (n - 1) = p" and cur: "(fs @ [c]) ! n = c"
    using prev n by (auto simp: nth_append last_conv_nth)
  show "(if pi_input_index impl > 0 then interpolate (pi_previous_left impl) (fst c) (unat f) else sint (fst c)) =
      (let i = (k * r + 44099) div 44100 in if i = 0 then sint (fst ((fs @ [c]) ! 0))
       else interpolate (fst ((fs @ [c]) ! (i - 1))) (fst ((fs @ [c]) ! i)) (k * r - (i - 1) * 44100))"
    "(if pi_input_index impl > 0 then interpolate (pi_previous_right impl) (snd c) (unat f) else sint (snd c)) =
      (let i = (k * r + 44099) div 44100 in if i = 0 then sint (snd ((fs @ [c]) ! 0))
       else interpolate (snd ((fs @ [c]) ! (i - 1))) (snd ((fs @ [c]) ! i)) (k * r - (i - 1) * 44100))"
    unfolding i Let_def zero using f last cur n left by (cases "n = 0"; simp)+
qed

lemma unat_u64: "unat (ucast (w :: u32) :: u64) = unat w"
proof -
  have "unat w < 2 ^ 64" using unsigned_less [of w, where 'a = nat] by simp
  then show ?thesis by (simp add: unsigned_ucast_eq take_bit_nat_eq_self_iff)
qed

lemma loop_runs:
  assumes "pcm_at rate gain (fs @ [c]) k impl" "unat (pi_input_index impl) = length fs"
    and "0 < unat rate" "length fs = 0 \<or> (length fs - 1) * 44100 < k * unat rate"
    and "k \<le> out_count (unat rate) (length fs + 1)" "length fs * 44100 + unat rate < 2 ^ 64"
    and "fs \<noteq> [] \<longrightarrow> p = last fs" "pi_previous_left impl = fst p" "pi_previous_right impl = snd p"
  shows "\<exists>impl'. pcm_output_loop (pi_input_index impl * word_of_nat NATIVE_AUDIO_INPUT_WIRE_RATE) (fst c) (snd c) impl
       = Some impl' \<and> pcm_at rate gain (fs @ [c]) (out_count (unat rate) (length fs + 1)) impl' \<and>
     pi_input_index impl' = pi_input_index impl \<and> pi_have_previous impl' = pi_have_previous impl"
  using assms(1,2,4,5,8,9)
proof (induction "out_count (unat rate) (length fs + 1) - k" arbitrary: k impl rule: less_induct)
  case less
  let ?r = "unat rate" and ?n = "length fs"
  let ?cur = "pi_input_index impl * word_of_nat NATIVE_AUDIO_INPUT_WIRE_RATE :: u64"
  have nxt: "unat (pi_next_output_numerator impl) = k * ?r" using less(2) by (simp add: pcm_at_def)
  have wire: "unat (word_of_nat NATIVE_AUDIO_INPUT_WIRE_RATE :: u64) = 44100"
    by (simp add: NATIVE_AUDIO_INPUT_WIRE_RATE_def)
  have cur: "unat ?cur = ?n * 44100"
    unfolding unat_word_ariths less(3) wire using assms(6) by simp
  have cond: "pi_next_output_numerator impl \<le> ?cur \<longleftrightarrow> k * ?r \<le> ?n * 44100"
    using nxt cur by (simp add: word_le_nat_alt)
  have oc: "out_count ?r (?n + 1) = ?n * 44100 div ?r + 1" by (simp add: out_count_def)
  show ?case
  proof (cases "k * ?r \<le> ?n * 44100")
    case False
    then have "?n * 44100 div ?r < k" using assms(3) by (simp add: div_less_iff_less_mult)
    then have "k = out_count ?r (?n + 1)" using less(5) oc by simp
    then show ?thesis using False cond less(2) by (subst pcm_output_loop.simps) simp
  next
    case True
    define frac where "frac = pi_next_output_numerator impl -
      (pi_input_index impl - 1) * word_of_nat NATIVE_AUDIO_INPUT_WIRE_RATE"
    define f where "f = (if frac > word_of_nat NATIVE_AUDIO_INPUT_WIRE_RATE
      then word_of_nat NATIVE_AUDIO_INPUT_WIRE_RATE else frac)"
    define ol where "ol = (if pi_input_index impl > 0
      then interpolate (pi_previous_left impl) (fst c) (unat f) else sint (fst c))"
    define orr where "orr = (if pi_input_index impl > 0
      then interpolate (pi_previous_right impl) (snd c) (unat f) else sint (snd c))"
    have big: "?n * 44100 < 2 ^ 64" using assms(6) by simp
    note out = loop_output(1,2) [where c = c, OF nxt less(3) refl assms(7) less(4) True big less(6,7),
        folded frac_def, folded f_def]
    have f: "unat f \<le> NATIVE_AUDIO_INPUT_WIRE_RATE"
      using wire by (auto simp: f_def word_less_nat_alt NATIVE_AUDIO_INPUT_WIRE_RATE_def not_less)
    have fits: "sint (word_of_int ol :: i16) = ol" "sint (word_of_int orr :: i16) = orr"
      using interpolate_fits [OF f] by (simp_all add: ol_def orr_def)
    have spec: "[apply_gain gain ol, apply_gain gain orr] = resampled ?r gain (fs @ [c]) k"
      unfolding ol_def orr_def out(1,2) resampled_def Let_def by simp
    define e where "e = emit_frame impl (word_of_int ol) (word_of_int orr)"
    define i2 where "i2 = e\<lparr>pi_next_output_numerator := pi_next_output_numerator impl + ucast rate\<rparr>"
    have rt: "pi_input_rate impl = rate" "pi_gain_q15 impl = gain" "pcm_inv impl" using less(2) by (simp_all add: pcm_at_def)
    have pair: "pcm_output_pair impl (fst c) (snd c) = (ol, orr)"
      unfolding pcm_output_pair_def Let_def frac_def [symmetric] f_def [symmetric]
      by (simp add: ol_def orr_def)
    have loop: "pcm_output_loop ?cur (fst c) (snd c) impl = pcm_output_loop ?cur (fst c) (snd c) i2"
      using True cond rt by (subst pcm_output_loop.simps) (simp add: pair Let_def i2_def e_def)
    have out2: "pcm_out i2 = pcm_out impl @ resampled ?r gain (fs @ [c]) k" and inv2: "pcm_inv i2"
      using emit_frame_out [OF rt(3), of "word_of_int ol" "word_of_int orr"] fits spec rt
      by (simp_all add: i2_def e_def pcm_out_def pcm_inv_def)
    have "k * ?r + ?r < 2 ^ 64" using True assms(6) by linarith
    then have "unat (pi_next_output_numerator impl + ucast rate) = (k + 1) * ?r"
      using nxt by (subst unat_add_lem [THEN iffD1]) (simp_all add: unat_u64)
    then have at: "pcm_at rate gain (fs @ [c]) (k + 1) i2"
      using out2 inv2 less(2) rt by (simp add: pcm_at_def i2_def e_def)
    have "k \<le> ?n * 44100 div ?r" using True assms(3) by (simp add: less_eq_div_iff_mult_less_eq)
    then have k: "k + 1 \<le> out_count ?r (?n + 1)" "out_count ?r (?n + 1) - (k + 1) < out_count ?r (?n + 1) - k"
      using oc by simp_all
    have lower: "?n = 0 \<or> (?n - 1) * 44100 < (k + 1) * ?r" using less(4) by auto
    have keep: "pi_input_index i2 = pi_input_index impl" "pi_have_previous i2 = pi_have_previous impl"
      "pi_previous_left i2 = pi_previous_left impl" "pi_previous_right i2 = pi_previous_right impl"
      by (simp_all add: i2_def e_def)
    from less(1) [OF k(2) at _ lower k(1)] less(3,6,7) show ?thesis
      unfolding loop keep by simp
  qed
qed

lemma resampled_append:
  "(k * r + 44099) div 44100 < length fs \<Longrightarrow> resampled r g (fs @ gs) k = resampled r g fs k"
  by (auto simp: resampled_def Let_def nth_append)

lemma out_count_inside:
  assumes "0 < r" "k < out_count r n"
  shows "(k * r + 44099) div 44100 < n"
proof -
  have n: "0 < n" and "k \<le> (n - 1) * 44100 div r" using assms by (auto simp: out_count_def split: if_splits)
  then have "k * r \<le> (n - 1) * 44100" using assms(1) by (simp add: less_eq_div_iff_mult_less_eq)
  then have "k * r + 44099 < (n - 1) * 44100 + 44100" by simp
  also have "\<dots> = n * 44100" using n by (cases n) simp_all
  finally show ?thesis by (simp add: div_less_iff_less_mult)
qed

lemma push_frame_good:
  assumes good: "pcm_good rate gain fs impl" and r: "0 < unat rate"
    and big: "length fs * 44100 + unat rate < 2 ^ 64"
  shows "\<exists>impl'. pcm_push_frame impl (fst c) (snd c) = Some impl' \<and> pcm_good rate gain (fs @ [c]) impl'"
proof -
  let ?r = "unat rate" and ?n = "length fs"
  let ?k = "out_count ?r ?n"
  define i1 where "i1 = (if \<not> pi_have_previous impl
    then impl\<lparr>pi_previous_left := fst c, pi_previous_right := snd c, pi_have_previous := True\<rparr> else impl)"
  define p where "p = (if fs = [] then c else last fs)"
  have at: "pcm_at rate gain fs ?k impl" and idx: "unat (pi_input_index impl) = ?n"
    and prev: "pi_have_previous impl \<longleftrightarrow> fs \<noteq> []"
      "fs \<noteq> [] \<Longrightarrow> pi_previous_left impl = fst (last fs) \<and> pi_previous_right impl = snd (last fs)"
    using good by (auto simp: pcm_good_def)
  have same: "map (resampled ?r gain (fs @ [c])) [0..<?k] = map (resampled ?r gain fs) [0..<?k]"
    using out_count_inside [OF r] by (intro map_cong refl resampled_append) auto
  have at1: "pcm_at rate gain (fs @ [c]) ?k i1"
    using at unfolding pcm_at_def same by (simp add: i1_def pcm_out_def pcm_inv_def)
  have idx1: "pi_input_index i1 = pi_input_index impl" by (simp add: i1_def)
  have have1: "pi_have_previous i1" using prev by (simp add: i1_def)
  have p1: "pi_previous_left i1 = fst p" "pi_previous_right i1 = snd p" "fs \<noteq> [] \<longrightarrow> p = last fs"
    using prev by (auto simp: i1_def p_def)
  have lower: "?n = 0 \<or> (?n - 1) * 44100 < ?k * ?r"
  proof (cases "?n = 0")
    case False
    have "(?n - 1) * 44100 < ((?n - 1) * 44100 div ?r + 1) * ?r"
      using dividend_less_div_times [OF r, of "(?n - 1) * 44100"] by (simp add: algebra_simps)
    then show ?thesis using False by (simp add: out_count_def)
  qed simp
  have upper: "?k \<le> out_count ?r (?n + 1)"
    by (auto simp: out_count_def intro!: div_le_mono)
  from loop_runs [OF at1 _ r lower upper big p1(3,1,2)] idx idx1
  obtain i2 where i2: "pcm_output_loop (pi_input_index impl * word_of_nat NATIVE_AUDIO_INPUT_WIRE_RATE)
      (fst c) (snd c) i1 = Some i2" "pcm_at rate gain (fs @ [c]) (out_count ?r (?n + 1)) i2"
    "pi_input_index i2 = pi_input_index impl" "pi_have_previous i2" using have1 by auto
  define i3 where "i3 = i2\<lparr>pi_previous_left := fst c, pi_previous_right := snd c,
    pi_input_index := pi_input_index i2 + 1\<rparr>"
  have push: "pcm_push_frame impl (fst c) (snd c) = Some i3"
    unfolding pcm_push_frame_def Let_def i1_def [symmetric] by (simp add: i2(1) i3_def)
  have "?n + 1 < 2 ^ 64" using big r by simp
  then have idx3: "unat (pi_input_index i3) = ?n + 1"
    using idx by (simp add: i3_def i2(3)) (subst unat_add_lem [THEN iffD1], simp_all)
  have "pcm_good rate gain (fs @ [c]) i3"
    using i2(2,4) idx3 by (simp add: pcm_good_def i3_def pcm_at_def pcm_out_def pcm_inv_def)
  with push show ?thesis by blast
qed

lemma stereo_frames_Suc:
  "stereo_frames ch samples (Suc n) = stereo_frames ch samples n @ [(samples ! (n * ch),
     if ch = 1 then samples ! (n * ch) else samples ! (n * ch + 1))]"
  by (simp add: stereo_frames_def)

lemma push_frame_channels: "pcm_push_frame impl l r = Some impl' \<Longrightarrow> pi_input_channels impl' = pi_input_channels impl"
proof -
  have loop: "pcm_output_loop n l r i = Some i' \<Longrightarrow> pi_input_channels i' = pi_input_channels i" for n i i'
    by (rule pcm_output_loop.raw_induct [where P = "\<lambda>n l r i i'. pi_input_channels i' = pi_input_channels i"])
      (fastforce simp: Let_def split: if_splits)+
  assume "pcm_push_frame impl l r = Some impl'"
  then show ?thesis by (auto simp: pcm_push_frame_def Let_def split: option.splits if_splits dest!: loop)
qed

lemma push_loop_append:
  "pcm_push_loop samples (xs @ ys) impl =
   (case pcm_push_loop samples xs impl of None \<Rightarrow> None | Some impl \<Rightarrow> pcm_push_loop samples ys impl)"
  by (induction xs arbitrary: impl) (auto simp: Let_def split: option.splits)

lemma push_good:
  assumes "pcm_good rate gain fs impl" "0 < unat rate" "pi_input_channels impl = ch"
    and "(length fs + n) * 44100 + unat rate < 2 ^ 64"
  shows "\<exists>impl'. native_audio_input_pcm_push impl samples n = Some impl' \<and>
     pcm_good rate gain (fs @ stereo_frames ch samples n) impl' \<and> pi_input_channels impl' = ch"
  using assms(4)
proof (induction n)
  case 0
  then show ?case using assms by (simp add: native_audio_input_pcm_push_def stereo_frames_def)
next
  case (Suc n)
  then obtain i1 where i1: "pcm_push_loop samples [0..<n] impl = Some i1"
    "pcm_good rate gain (fs @ stereo_frames ch samples n) i1" "pi_input_channels i1 = ch"
    by (auto simp: native_audio_input_pcm_push_def)
  let ?c = "(samples ! (n * ch), if ch = 1 then samples ! (n * ch) else samples ! (n * ch + 1))"
  have "length (fs @ stereo_frames ch samples n) * 44100 + unat rate < 2 ^ 64"
    using Suc.prems by (simp add: stereo_frames_def)
  from push_frame_good [OF i1(2) assms(2) this, of ?c] obtain i2 where
    i2: "pcm_push_frame i1 (fst ?c) (snd ?c) = Some i2"
    "pcm_good rate gain (fs @ stereo_frames ch samples (Suc n)) i2"
    by (auto simp: stereo_frames_Suc)
  have "pcm_push_loop samples [n] i1 = Some i2"
    using i2(1) unfolding fst_conv snd_conv by (simp only: pcm_push_loop.simps Let_def i1(3) option.case)
  then have "native_audio_input_pcm_push impl samples (Suc n) = Some i2"
    using i1(1) by (simp add: native_audio_input_pcm_push_def push_loop_append)
  moreover have "pi_input_channels i2 = ch" using push_frame_channels [OF i2(1)] i1(3) by simp
  ultimately show ?case using i2(2) by blast
qed

text \<open>A capture session: the blocks the capture thread pushes, one after the other.\<close>

fun pcm_push_all :: "NativeAudioInputPcmImpl \<Rightarrow> (i16 list \<times> nat) list \<Rightarrow> NativeAudioInputPcmImpl option" where
  "pcm_push_all impl [] = Some impl"
| "pcm_push_all impl ((samples, n) # blocks) =
     (case native_audio_input_pcm_push impl samples n of
        None \<Rightarrow> None | Some impl \<Rightarrow> pcm_push_all impl blocks)"

definition all_frames :: "nat \<Rightarrow> (i16 list \<times> nat) list \<Rightarrow> (i16 \<times> i16) list" where
  "all_frames ch blocks = concat (map (\<lambda>(samples, n). stereo_frames ch samples n) blocks)"

lemma push_all_good:
  "pcm_good rate gain fs impl \<Longrightarrow> 0 < unat rate \<Longrightarrow> pi_input_channels impl = ch \<Longrightarrow>
   (length fs + length (all_frames ch blocks)) * 44100 + unat rate < 2 ^ 64 \<Longrightarrow>
   \<exists>impl'. pcm_push_all impl blocks = Some impl' \<and> pcm_good rate gain (fs @ all_frames ch blocks) impl'"
proof (induction blocks arbitrary: fs impl)
  case Nil
  then show ?case by (simp add: all_frames_def)
next
  case (Cons b blocks)
  obtain samples n where b: "b = (samples, n)" by (cases b)
  have len: "length (stereo_frames ch samples n) = n" by (simp add: stereo_frames_def)
  have "(length fs + n) * 44100 + unat rate < 2 ^ 64"
    using Cons.prems(4) b len by (simp add: all_frames_def)
  from push_good [OF Cons.prems(1-3) this] obtain i1 where
    i1: "native_audio_input_pcm_push impl samples n = Some i1"
    "pcm_good rate gain (fs @ stereo_frames ch samples n) i1" "pi_input_channels i1 = ch" by blast
  have "(length (fs @ stereo_frames ch samples n) + length (all_frames ch blocks)) * 44100 + unat rate < 2 ^ 64"
    using Cons.prems(4) b len by (simp add: all_frames_def add.assoc)
  from Cons.IH [OF i1(2) Cons.prems(2) i1(3) this] i1(1) b show ?case by (auto simp: all_frames_def)
qed

lemma init_good:
  assumes "native_audio_input_pcm_init gain_of mem rate ch fpp db = Some impl"
  shows "pcm_good rate (gain_of db) [] impl" "0 < unat rate" "pi_input_channels impl = ch"
    "pi_frames_per_packet impl = fpp"
proof -
  have "\<not> rate < 8000" and fpp: "fpp \<noteq> 0" using assms by (auto simp: native_audio_input_pcm_init_def split: if_splits)
  then show "0 < unat rate" by (simp add: word_less_nat_alt)
  show "pi_input_channels impl = ch" "pi_frames_per_packet impl = fpp"
    using assms by (auto simp: native_audio_input_pcm_init_def split: if_splits)
  show "pcm_good rate (gain_of db) [] impl"
    using assms fpp by (auto simp: native_audio_input_pcm_init_def pcm_good_def pcm_at_def pcm_inv_def pcm_out_def
      out_count_def split: if_splits)
qed

section \<open>Properties\<close>

text \<open>
  C20: the streaming converter refines the ideal resampler.  However the input is cut into
  blocks, pushing them returns, and all that has been handed out is exactly output frames
  0, 1, 2, ... of the linear interpolation of the whole input, up to the last one that lies at
  or before its last frame: nothing depends on the block boundaries, and no frame is lost or
  repeated.  (Bound: the 64-bit time stamps last for 2^64 / 44100 input frames.)
\<close>

theorem pcm_stream_is_resampled:
  assumes "native_audio_input_pcm_init gain_of mem rate ch fpp db = Some impl"
    and "length (all_frames ch blocks) * 44100 + unat rate < 2 ^ 64"
  shows "\<exists>impl'. pcm_push_all impl blocks = Some impl' \<and>
    pcm_out impl' = concat (map (resampled (unat rate) (gain_of db) (all_frames ch blocks))
      [0..<out_count (unat rate) (length (all_frames ch blocks))])"
  using push_all_good [OF init_good(1-3) [OF assms(1)], of blocks] assms(2)
  by (auto simp: pcm_good_def pcm_at_def)

theorem pcm_stream_is_resampled_witness:
  "\<exists>impl'. pcm_push_all \<lparr>pi_input_rate = 8000, pi_input_channels = 1, pi_frames_per_packet = 3,
      pi_gain_q15 = 32768, pi_packet_samples = replicate 6 0, pi_packet_frames = 0, pi_input_index = 0,
      pi_next_output_numerator = 0, pi_previous_left = 0, pi_previous_right = 0,
      pi_have_previous = False, pi_packets = []\<rparr> [([5], 1), ([7, 9], 2)] = Some impl' \<and>
    length (pcm_out impl') = 24"
proof -
  let ?i = "\<lparr>pi_input_rate = 8000, pi_input_channels = 1, pi_frames_per_packet = 3,
      pi_gain_q15 = 32768, pi_packet_samples = replicate 6 0, pi_packet_frames = 0, pi_input_index = 0,
      pi_next_output_numerator = 0, pi_previous_left = 0, pi_previous_right = 0,
      pi_have_previous = False, pi_packets = []\<rparr>"
  have "native_audio_input_pcm_init (\<lambda>_. 32768) True 8000 1 3 0 = Some ?i"
    by (simp add: native_audio_input_pcm_init_def NATIVE_AUDIO_INPUT_WIRE_CHANNELS_def)
  moreover have "length (all_frames 1 [([5], 1), ([7, 9], 2)]) = 3"
    by (simp add: all_frames_def stereo_frames_def)
  moreover have "length (concat (map (resampled r g fs) [0..<n])) = 2 * n" for r g fs n
    by (induction n) (simp_all add: resampled_def Let_def)
  ultimately show ?thesis
    using pcm_stream_is_resampled [of "\<lambda>_. 32768" True 8000 1 3 0 ?i "[([5], 1), ([7, 9], 2)]"]
    by (auto simp: out_count_def)
qed

lemma resampled_identity:
  assumes "k < length fs"
  shows "resampled 44100 32768 fs k = [fst (fs ! k), snd (fs ! k)]"
proof -
  have "(k * 44100 + 44099) div 44100 = k" by simp
  moreover have "k \<noteq> 0 \<Longrightarrow> k * 44100 - (k - 1) * 44100 = NATIVE_AUDIO_INPUT_WIRE_RATE"
    by (cases k) (simp_all add: NATIVE_AUDIO_INPUT_WIRE_RATE_def)
  ultimately show ?thesis
    by (cases "k = 0") (simp_all add: resampled_def Let_def interpolate_end apply_gain_unity)
qed

text \<open>
  At 44.1 kHz and unity gain the converter is transparent: every input frame comes out
  unchanged, once, in order (a mono frame on both channels), cut into full packets of
  \<open>frames_per_packet\<close> stereo frames and the part of the packet under way.
\<close>

theorem pcm_unity_is_transparent:
  assumes "native_audio_input_pcm_init gain_of mem 44100 ch fpp db = Some impl" "gain_of db = 32768"
    and "length (all_frames ch blocks) < 2 ^ 48"
  shows "\<exists>impl'. pcm_push_all impl blocks = Some impl' \<and>
    pcm_out impl' = concat (map (\<lambda>(l, r). [l, r]) (all_frames ch blocks)) \<and> pcm_inv impl'"
proof -
  let ?fs = "all_frames ch blocks"
  have "length ?fs * 44100 + unat (44100 :: u32) < 2 ^ 64" using assms(3) by simp
  from push_all_good [OF init_good(1-3) [OF assms(1)], of blocks] this
  obtain impl' where r: "pcm_push_all impl blocks = Some impl'" "pcm_inv impl'"
    "pcm_out impl' = concat (map (resampled 44100 32768 ?fs) [0..<out_count 44100 (length ?fs)])"
    using assms(2) by (auto simp: pcm_good_def pcm_at_def)
  have n: "out_count 44100 m = m" for m by (cases m) (simp_all add: out_count_def)
  have "map (resampled 44100 32768 ?fs) [0..<length ?fs] = map (\<lambda>k. [fst (?fs ! k), snd (?fs ! k)]) [0..<length ?fs]"
    by (intro map_cong refl resampled_identity) simp
  also have "\<dots> = map (\<lambda>(l, r). [l, r]) ?fs"
    by (rule nth_equalityI) (simp_all add: case_prod_beta)
  finally show ?thesis using r n by auto
qed

theorem pcm_unity_is_transparent_witness:
  "\<exists>impl'. pcm_push_all \<lparr>pi_input_rate = 44100, pi_input_channels = 2, pi_frames_per_packet = 3,
      pi_gain_q15 = 32768, pi_packet_samples = replicate 6 0, pi_packet_frames = 0, pi_input_index = 0,
      pi_next_output_numerator = 0, pi_previous_left = 0, pi_previous_right = 0,
      pi_have_previous = False, pi_packets = []\<rparr> [([5, 6], 1), ([7, 9], 1)] = Some impl' \<and>
    pcm_out impl' = [5, 6, 7, 9]"
proof -
  let ?i = "\<lparr>pi_input_rate = 44100, pi_input_channels = 2, pi_frames_per_packet = 3,
      pi_gain_q15 = 32768, pi_packet_samples = replicate 6 0, pi_packet_frames = 0, pi_input_index = 0,
      pi_next_output_numerator = 0, pi_previous_left = 0, pi_previous_right = 0,
      pi_have_previous = False, pi_packets = []\<rparr>"
  have "native_audio_input_pcm_init (\<lambda>_. 32768) True 44100 2 3 0 = Some ?i"
    by (simp add: native_audio_input_pcm_init_def NATIVE_AUDIO_INPUT_WIRE_CHANNELS_def)
  moreover have "all_frames 2 [([5, 6], 1), ([7, 9], 1)] = [(5, 6), (7, 9)]"
    by (simp add: all_frames_def stereo_frames_def)
  ultimately show ?thesis
    using pcm_unity_is_transparent [of "\<lambda>_. 32768" True 2 3 0 ?i "[([5, 6], 1), ([7, 9], 1)]"] by auto
qed

end
