(* ===== verification/Native_Json.thy ===== *)
theory Native_Json
  imports Lg_Prelude "HOL-Library.Sublist"
begin

text \<open>
  The allocation-free JSON scanner, \<open>native/src/native_json.c\<close>.  A C string is the list of its
  characters up to the terminating NUL, a cursor is the list still to read: \<open>ch0 p\<close> is \<open>*p\<close>
  (NUL at the end), \<open>tl p\<close> is \<open>p + 1\<close>.  A failed read (\<open>NULL\<close>, \<open>-1\<close>) is a value of the result.
\<close>

section \<open>Characters\<close>

definition ch0 :: "string \<Rightarrow> char" where
  "ch0 p = (case p of [] \<Rightarrow> CHR 0x00 | c # _ \<Rightarrow> c)"

lemma ch0_simps [simp]: "ch0 [] = CHR 0x00" "ch0 (c # p) = c"
  by (simp_all add: ch0_def)

definition code :: "char \<Rightarrow> nat" where "code c = of_char c"

definition ws :: "char \<Rightarrow> bool" where
  "ws c \<longleftrightarrow> c = CHR '' '' \<or> c = CHR 0x09 \<or> c = CHR 0x0D \<or> c = CHR 0x0A"

definition digit :: "char \<Rightarrow> bool" where
  "digit c \<longleftrightarrow> code c \<ge> code (CHR ''0'') \<and> code c \<le> code (CHR ''9'')"

section \<open>Strings\<close>

fun native_json_skip_ws :: "string \<Rightarrow> string" where
  "native_json_skip_ws [] = []"
| "native_json_skip_ws (c # p) = (if ws c then native_json_skip_ws p else c # p)"

definition hex_value :: "char \<Rightarrow> nat option" where
  "hex_value c =
     (if code c \<ge> code (CHR ''0'') \<and> code c \<le> code (CHR ''9'') then Some (code c - code (CHR ''0''))
      else if code c \<ge> code (CHR ''a'') \<and> code c \<le> code (CHR ''f'') then Some (code c - code (CHR ''a'') + 10)
      else if code c \<ge> code (CHR ''A'') \<and> code c \<le> code (CHR ''F'') then Some (code c - code (CHR ''A'') + 10)
      else None)"

unbundle bit_operations_syntax

text \<open>The loop of \<open>read_hex4\<close>, over the digits still to read.\<close>

fun read_hex :: "nat \<Rightarrow> u32 \<Rightarrow> string \<Rightarrow> (u32 \<times> string) option" where
  "read_hex 0 value p = Some (value, p)"
| "read_hex (Suc n) value p =
     (case hex_value (ch0 p) of
        None \<Rightarrow> None
      | Some d \<Rightarrow> read_hex n (push_bit 4 value OR word_of_nat d) (tl p))"

definition read_hex4 :: "string \<Rightarrow> (u32 \<times> string) option" where
  "read_hex4 p = read_hex 4 0 p"

text \<open>A code point as UTF-8, one to four bytes.\<close>

definition byte :: "u32 \<Rightarrow> char" where "byte w = char_of (unat (ucast w :: u8))"

definition utf8 :: "u32 \<Rightarrow> string" where
  "utf8 cp =
     (if cp < 0x80 then [byte cp]
      else if cp < 0x800 then [byte (0xc0 OR drop_bit 6 cp), byte (0x80 OR (cp AND 0x3f))]
      else if cp < 0x10000 then
        [byte (0xe0 OR drop_bit 12 cp), byte (0x80 OR (drop_bit 6 cp AND 0x3f)), byte (0x80 OR (cp AND 0x3f))]
      else [byte (0xf0 OR drop_bit 18 cp), byte (0x80 OR (drop_bit 12 cp AND 0x3f)),
        byte (0x80 OR (drop_bit 6 cp AND 0x3f)), byte (0x80 OR (cp AND 0x3f))])"

text \<open>The \<open>\u\<close> escape, after the \<open>u\<close>: a code point, or a pair of surrogates.\<close>

definition read_unicode :: "string \<Rightarrow> (string \<times> string) option" where
  "read_unicode p =
     (case read_hex4 p of
        None \<Rightarrow> None
      | Some (codepoint, p) \<Rightarrow>
        if codepoint = 0 then None
        else if codepoint \<ge> 0xd800 \<and> codepoint \<le> 0xdbff then
          if ch0 p \<noteq> CHR 0x5C \<or> ch0 (tl p) \<noteq> CHR ''u'' then None
          else (case read_hex4 (tl (tl p)) of
              None \<Rightarrow> None
            | Some (low, p) \<Rightarrow>
              if low < 0xdc00 \<or> low > 0xdfff then None
              else Some (utf8 (0x10000 + push_bit 10 (codepoint - 0xd800) + low - 0xdc00), p))
        else if codepoint \<ge> 0xdc00 \<and> codepoint \<le> 0xdfff then None
        else Some (utf8 codepoint, p))"

text \<open>An escape, after the backslash: the bytes it stands for and the rest.\<close>

definition read_escape :: "string \<Rightarrow> (string \<times> string) option" where
  "read_escape p =
     (let c = ch0 p; p = tl p in
      if c = CHR 0x22 \<or> c = CHR 0x5C \<or> c = CHR ''/'' then Some ([c], p)
      else if c = CHR ''b'' then Some ([CHR 0x08], p)
      else if c = CHR ''f'' then Some ([CHR 0x0C], p)
      else if c = CHR ''n'' then Some ([CHR 0x0A], p)
      else if c = CHR ''r'' then Some ([CHR 0x0D], p)
      else if c = CHR ''t'' then Some ([CHR 0x09], p)
      else if c = CHR ''u'' then read_unicode p
      else None)"

lemma read_hex_length: "read_hex n v p = Some (w, q) \<Longrightarrow> length q \<le> length p"
  by (induction n v p rule: read_hex.induct) (auto split: option.splits)

lemma read_escape_length: "read_escape p = Some (b, q) \<Longrightarrow> length q \<le> length p"
  by (force simp: read_escape_def read_unicode_def read_hex4_def Let_def dest!: read_hex_length
      split: if_splits option.splits)

text \<open>
  The character loop: \<open>cap\<close> is None when the caller passed no buffer; the result is what has been
  written and the rest from the closing quote on.
\<close>

function read_string_loop :: "nat option \<Rightarrow> string \<Rightarrow> string \<Rightarrow> (string \<times> string) option" where
  "read_string_loop cap written p =
     (if p = [] \<or> ch0 p = CHR 0x22 then Some (written, p)
      else if code (ch0 p) < 0x20 then None
      else
        case (if ch0 p = CHR 0x5C then read_escape (tl p) else Some ([ch0 p], tl p)) of
          None \<Rightarrow> None
        | Some (bytes, q) \<Rightarrow>
          if (case cap of None \<Rightarrow> False
              | Some n \<Rightarrow> length written \<ge> n \<or> length bytes \<ge> n - length written) then None
          else read_string_loop cap (written @ bytes) q)"
  by pat_completeness auto
termination
  by (relation "measure (\<lambda>(cap, written, p). length p)")
    (auto dest!: read_escape_length simp: neq_Nil_conv split: if_splits)

declare read_string_loop.simps [simp del]

definition read_string :: "nat option \<Rightarrow> string \<Rightarrow> (string \<times> string) option" where
  "read_string cap p =
     (if ch0 p \<noteq> CHR 0x22 then None
      else case read_string_loop cap [] (tl p) of
          None \<Rightarrow> None
        | Some (out, q) \<Rightarrow>
          if ch0 q \<noteq> CHR 0x22 then None
          else if (case cap of None \<Rightarrow> False | Some n \<Rightarrow> length out \<ge> n) then None
          else Some (out, tl q))"

section \<open>Values\<close>

fun skip_digits :: "string \<Rightarrow> string" where
  "skip_digits [] = []"
| "skip_digits (c # p) = (if digit c then skip_digits p else c # p)"

definition number_end :: "string \<Rightarrow> string option" where
  "number_end p =
     (let p = (if ch0 p = CHR ''-'' then tl p else p) in
      if ch0 p \<noteq> CHR ''0'' \<and> (code (ch0 p) < code (CHR ''1'') \<or> code (ch0 p) > code (CHR ''9'')) then None
      else
        let p = (if ch0 p = CHR ''0'' then tl p else skip_digits p) in
        if ch0 p = CHR ''.'' \<and> \<not> digit (ch0 (tl p)) then None
        else
          let p = (if ch0 p = CHR ''.'' then skip_digits (tl p) else p) in
          if ch0 p = CHR ''e'' \<or> ch0 p = CHR ''E'' then
            let p = tl p;
                p = (if ch0 p = CHR ''+'' \<or> ch0 p = CHR ''-'' then tl p else p) in
            if \<not> digit (ch0 p) then None else Some (skip_digits p)
          else Some p)"

text \<open>
  The element loop of an object or array; \<open>elem\<close> finds the end of one nested value.  A nested
  value never ends before it begins (\<open>value_end_length\<close> below), which the guard on the lengths
  only restates so that the recursion is well founded.
\<close>

function members_end :: "(string \<Rightarrow> string option) \<Rightarrow> bool \<Rightarrow> char \<Rightarrow> string \<Rightarrow> string option" where
  "members_end elem object close p =
     (case (if object then
              case read_string None p of
                None \<Rightarrow> None
              | Some (_, q) \<Rightarrow>
                let q = native_json_skip_ws q in
                if ch0 q \<noteq> CHR '':'' then None else Some (tl q)
            else Some p) of
        None \<Rightarrow> None
      | Some q \<Rightarrow>
        case elem q of
          None \<Rightarrow> None
        | Some q \<Rightarrow>
          let q = native_json_skip_ws q in
          if ch0 q = close then Some (tl q)
          else if ch0 q \<noteq> CHR '','' then None
          else if length (native_json_skip_ws (tl q)) < length p
          then members_end elem object close (native_json_skip_ws (tl q))
          else None)"
  by pat_completeness auto
termination
  by (relation "measure (\<lambda>(elem, object, close, p). length p)") auto

declare members_end.simps [simp del]

text \<open>The three literals: the rest behind the one the text begins with.\<close>

definition literal_end :: "string \<Rightarrow> string option" where
  "literal_end p =
     (if take 4 p = ''true'' then Some (drop 4 p)
      else if take 5 p = ''false'' then Some (drop 5 p)
      else if take 4 p = ''null'' then Some (drop 4 p)
      else None)"

text \<open>
  \<open>value_end n\<close> is the C function at depth \<open>33 - n\<close>: at \<open>n = 0\<close> the nesting is deeper than 32.
\<close>

fun value_end :: "nat \<Rightarrow> string \<Rightarrow> string option" where
  "value_end 0 p = None"
| "value_end (Suc n) p =
     (let p = native_json_skip_ws p in
      if ch0 p = CHR 0x22 then map_option snd (read_string None p)
      else if ch0 p = CHR ''{'' \<or> ch0 p = CHR ''['' then
        let object = (ch0 p = CHR ''{'');
            close = (if object then CHR ''}'' else CHR '']'');
            p = native_json_skip_ws (tl p) in
        if ch0 p = close then Some (tl p)
        else members_end (value_end n) object close p
      else case literal_end p of Some q \<Rightarrow> Some q | None \<Rightarrow> number_end p)"

definition native_json_validate_object :: "string \<Rightarrow> bool" where
  "native_json_validate_object json =
     (let p = native_json_skip_ws json in
      if ch0 p \<noteq> CHR ''{'' then False
      else case value_end 33 p of None \<Rightarrow> False | Some q \<Rightarrow> native_json_skip_ws q = [])"

section \<open>Lookup and typed reads\<close>

definition member_start :: "string \<Rightarrow> string option" where
  "member_start q =
     (let q = native_json_skip_ws q in
      if ch0 q \<noteq> CHR '':'' then None else Some (native_json_skip_ws (tl q)))"

text \<open>The member loop of the lookup, with the same guard on the lengths as above.\<close>

function find_member :: "string \<Rightarrow> string \<Rightarrow> string option" where
  "find_member key p =
     (if p = [] \<or> ch0 p = CHR ''}'' then None
      else
        let field = read_string (Some 64) p;
            matches = (case field of Some (k, _) \<Rightarrow> k = key | None \<Rightarrow> False) in
        case (case field of None \<Rightarrow> read_string None p | f \<Rightarrow> f) of
          None \<Rightarrow> None
        | Some (_, q) \<Rightarrow>
          case member_start q of
            None \<Rightarrow> None
          | Some v \<Rightarrow>
            if matches then Some v
            else case value_end 33 v of
                None \<Rightarrow> None
              | Some q \<Rightarrow>
                let q = native_json_skip_ws q in
                if ch0 q \<noteq> CHR '','' then None
                else if length (native_json_skip_ws (tl q)) < length p
                then find_member key (native_json_skip_ws (tl q))
                else None)"
  by pat_completeness auto
termination
  by (relation "measure (\<lambda>(key, p). length p)") auto

declare find_member.simps [simp del]

definition native_json_find_value :: "string \<Rightarrow> string \<Rightarrow> string option" where
  "native_json_find_value json key =
     (let p = native_json_skip_ws json in
      if ch0 p \<noteq> CHR ''{'' then None else find_member key (native_json_skip_ws (tl p)))"

definition scalar_end :: "string \<Rightarrow> bool" where
  "scalar_end p =
     (let p = native_json_skip_ws p in
      p = [] \<or> ch0 p = CHR '','' \<or> ch0 p = CHR ''}'' \<or> ch0 p = CHR '']'')"

text \<open>The tri-state result: 0 absent, -1 invalid, 1 read.\<close>

datatype 'a json_read = JAbsent | JInvalid | JRead 'a

definition native_json_read_string :: "string \<Rightarrow> string \<Rightarrow> nat \<Rightarrow> string json_read" where
  "native_json_read_string json key cap =
     (case native_json_find_value json key of
        None \<Rightarrow> JAbsent
      | Some p \<Rightarrow>
        case read_string (Some cap) p of
          None \<Rightarrow> JInvalid
        | Some (out, q) \<Rightarrow> if scalar_end q then JRead out else JInvalid)"

definition integer_end :: "string \<Rightarrow> bool \<Rightarrow> bool" where
  "integer_end p allow_negative =
     (let p = (if allow_negative \<and> ch0 p = CHR ''-'' then tl p else p) in
      if \<not> digit (ch0 p) \<or> (ch0 p = CHR ''0'' \<and> digit (ch0 (tl p))) then False
      else scalar_end (skip_digits p))"

text \<open>
  \<open>strtoul\<close> and \<open>strtol\<close> on text that begins with an optional sign and digits; None is \<open>ERANGE\<close>
  (32-bit \<open>long\<close>).
\<close>

fun digits_value :: "nat \<Rightarrow> string \<Rightarrow> nat" where
  "digits_value v [] = v"
| "digits_value v (c # p) = (if digit c then digits_value (10 * v + (code c - code (CHR ''0''))) p else v)"

definition strtoul :: "string \<Rightarrow> nat option" where
  "strtoul p = (let v = digits_value 0 p in if v > 2 ^ 32 - 1 then None else Some v)"

definition strtol :: "string \<Rightarrow> int option" where
  "strtol p =
     (let v = (if ch0 p = CHR ''-'' then - int (digits_value 0 (tl p)) else int (digits_value 0 p)) in
      if v < - (2 ^ 31) \<or> v > 2 ^ 31 - 1 then None else Some v)"

definition native_json_read_u16 :: "string \<Rightarrow> string \<Rightarrow> nat \<Rightarrow> nat \<Rightarrow> nat json_read" where
  "native_json_read_u16 json key min_value max_value =
     (case native_json_find_value json key of
        None \<Rightarrow> JAbsent
      | Some p \<Rightarrow>
        if \<not> integer_end p False then JInvalid
        else case strtoul p of
            None \<Rightarrow> JInvalid
          | Some value \<Rightarrow> if value < min_value \<or> value > max_value then JInvalid else JRead value)"

definition native_json_read_i16 :: "string \<Rightarrow> string \<Rightarrow> int \<Rightarrow> int \<Rightarrow> int json_read" where
  "native_json_read_i16 json key min_value max_value =
     (case native_json_find_value json key of
        None \<Rightarrow> JAbsent
      | Some p \<Rightarrow>
        if \<not> integer_end p True then JInvalid
        else case strtol p of
            None \<Rightarrow> JInvalid
          | Some value \<Rightarrow> if value < min_value \<or> value > max_value then JInvalid else JRead value)"

definition native_json_read_bool :: "string \<Rightarrow> string \<Rightarrow> bool json_read" where
  "native_json_read_bool json key =
     (case native_json_find_value json key of
        None \<Rightarrow> JAbsent
      | Some p \<Rightarrow>
        if take 4 p = ''true'' \<and> scalar_end (drop 4 p) then JRead True
        else if take 5 p = ''false'' \<and> scalar_end (drop 5 p) then JRead False
        else JInvalid)"

section \<open>The scanner goes forward\<close>

lemma skip_ws_length: "length (native_json_skip_ws p) \<le> length p"
  by (induction p rule: native_json_skip_ws.induct) auto

lemma skip_digits_length: "length (skip_digits p) \<le> length p"
  by (induction p rule: skip_digits.induct) auto

lemma read_string_loop_length: "read_string_loop cap w p = Some (out, q) \<Longrightarrow> length q \<le> length p"
proof (induction cap w p rule: read_string_loop.induct)
  case (1 cap w p)
  show ?case
  proof (cases "p = [] \<or> ch0 p = CHR 0x22 \<or> code (ch0 p) < 0x20")
    case True
    then show ?thesis using 1(2) by (subst (asm) read_string_loop.simps) (auto split: if_splits)
  next
    case False
    define e where "e = (if ch0 p = CHR 0x5C then read_escape (tl p) else Some ([ch0 p], tl p))"
    have loop: "read_string_loop cap w p = (case e of None \<Rightarrow> None
        | Some (bytes, q) \<Rightarrow>
          if (case cap of None \<Rightarrow> False | Some n \<Rightarrow> length w \<ge> n \<or> length bytes \<ge> n - length w) then None
          else read_string_loop cap (w @ bytes) q)"
      using False unfolding e_def by (subst read_string_loop.simps) (simp only: if_False de_Morgan_disj simp_thms)
    then obtain b r where e: "e = Some (b, r)" "read_string_loop cap (w @ b) r = Some (out, q)"
      "\<not> (case cap of None \<Rightarrow> False | Some n \<Rightarrow> length w \<ge> n \<or> length b \<ge> n - length w)"
      using 1(2) by (auto split: option.splits if_splits)
    have "length r \<le> length (tl p)"
      using e(1) read_escape_length [of "tl p" b r] by (auto simp: e_def split: if_splits)
    moreover have "length q \<le> length r"
      using 1(1) [OF _ _ e(1) [unfolded e_def] refl e(3) e(2)] False by blast
    ultimately show ?thesis by simp
  qed
qed

lemma read_string_length: "read_string cap p = Some (out, q) \<Longrightarrow> length q < length p"
proof -
  assume r: "read_string cap p = Some (out, q)"
  then obtain x where "read_string_loop cap [] (tl p) = Some (out, x)" "q = tl x" "ch0 x = CHR 0x22" "ch0 p = CHR 0x22"
    by (auto simp: read_string_def split: if_splits option.splits)
  with read_string_loop_length [OF this(1)] show ?thesis by (cases p; cases x) auto
qed

lemma number_end_length: "number_end p = Some q \<Longrightarrow> length q < length p"
proof -
  assume n: "number_end p = Some q"
  define a where "a = (if ch0 p = CHR ''-'' then tl p else p)"
  define b where "b = (if ch0 a = CHR ''0'' then tl a else skip_digits a)"
  define c where "c = (if ch0 b = CHR ''.'' then skip_digits (tl b) else b)"
  have "ch0 a = CHR ''0'' \<or> code (CHR ''1'') \<le> code (ch0 a) \<and> code (ch0 a) \<le> code (CHR ''9'')"
    using n unfolding number_end_def Let_def a_def [symmetric] by (auto split: if_splits)
  then have a0: "a \<noteq> []" "ch0 a = CHR ''0'' \<or> digit (ch0 a)" by (auto simp: code_def digit_def)
  have "length b < length a"
  proof (cases "ch0 a = CHR ''0''")
    case True
    then show ?thesis using a0(1) by (simp add: b_def)
  next
    case False
    then show ?thesis using a0 skip_digits_length [of "tl a"] by (cases a) (auto simp: b_def)
  qed
  moreover have "length a \<le> length p" by (simp add: a_def)
  moreover have "length c \<le> length b" using skip_digits_length [of "tl b"] by (auto simp: c_def)
  moreover have "length q \<le> length c"
    using n skip_digits_length [of "tl c"] skip_digits_length [of "tl (tl c)"]
    unfolding number_end_def Let_def a_def [symmetric] b_def [symmetric] c_def [symmetric]
    by (auto split: if_splits)
  ultimately show ?thesis by linarith
qed

text \<open>The start of an element: behind the key and the colon of a member, or right here.\<close>

definition member_value :: "bool \<Rightarrow> string \<Rightarrow> string option" where
  "member_value object p =
     (if object then
        case read_string None p of
          None \<Rightarrow> None
        | Some (_, q) \<Rightarrow>
          let q = native_json_skip_ws q in
          if ch0 q \<noteq> CHR '':'' then None else Some (tl q)
      else Some p)"

lemma member_value_length: "member_value object p = Some q \<Longrightarrow> length q \<le> length p"
proof (cases object)
  case True
  assume "member_value object p = Some q"
  then obtain k r where "read_string None p = Some (k, r)" "q = tl (native_json_skip_ws r)"
    using True by (auto simp: member_value_def Let_def split: option.splits if_splits)
  with read_string_length [of None p k r] skip_ws_length [of r] show ?thesis by simp
qed (simp add: member_value_def)

lemma members_end_eq:
  "members_end elem object close p =
     (case member_value object p of
        None \<Rightarrow> None
      | Some q \<Rightarrow>
        case elem q of
          None \<Rightarrow> None
        | Some q \<Rightarrow>
          let q = native_json_skip_ws q in
          if ch0 q = close then Some (tl q)
          else if ch0 q \<noteq> CHR '','' then None
          else if length (native_json_skip_ws (tl q)) < length p
          then members_end elem object close (native_json_skip_ws (tl q))
          else None)"
  by (subst members_end.simps) (simp only: member_value_def)

lemma members_end_length:
  assumes "\<And>p q. elem p = Some q \<Longrightarrow> length q < length p"
  shows "members_end elem object close p = Some q \<Longrightarrow> length q < length p"
proof (induction "length p" arbitrary: p rule: less_induct)
  case less
  then obtain s e where s: "member_value object p = Some s" and e: "elem s = Some e"
    by (subst (asm) members_end_eq) (auto split: option.splits)
  let ?w = "native_json_skip_ws e"
  have len: "length ?w < length p"
    using member_value_length [OF s] assms [OF e] skip_ws_length [of e] by simp
  consider "ch0 ?w = close" "q = tl ?w"
    | "length (native_json_skip_ws (tl ?w)) < length p"
      "members_end elem object close (native_json_skip_ws (tl ?w)) = Some q"
    using less.prems by (subst (asm) members_end_eq) (auto simp: s e Let_def split: if_splits)
  then show ?case
  proof cases
    case 1
    then show ?thesis using len by simp
  next
    case 2
    then show ?thesis using less.hyps [OF 2] by simp
  qed
qed

lemma literal_end_length: "literal_end p = Some q \<Longrightarrow> length q < length p"
  by (cases p) (auto simp: literal_end_def split: if_splits)

lemma value_end_length: "value_end n p = Some q \<Longrightarrow> length q < length p"
proof (induction n arbitrary: p q)
  case (Suc n)
  let ?p = "native_json_skip_ws p"
  have len: "length ?p \<le> length p" by (rule skip_ws_length)
  have tl: "ch0 ?p \<noteq> CHR 0x00 \<Longrightarrow> length (tl ?p) < length p" using len by (cases ?p) auto
  have m: "members_end (value_end n) ob cl x = Some r \<Longrightarrow> length r < length x" for ob cl x r
    using members_end_length [OF Suc.IH] by blast
  consider (str) "ch0 ?p = CHR 0x22" | (obj) "ch0 ?p = CHR ''{'' \<or> ch0 ?p = CHR ''[''"
    | (scalar) "ch0 ?p \<noteq> CHR 0x22" "\<not> (ch0 ?p = CHR ''{'' \<or> ch0 ?p = CHR ''['')" by blast
  then have "length q < length ?p"
  proof cases
    case str
    then show ?thesis using Suc.prems read_string_length [of None ?p _ q] by (auto simp: Let_def)
  next
    case obj
    let ?t = "native_json_skip_ws (tl ?p)"
    have ne: "?p \<noteq> []" using obj by auto
    have "q = tl ?t \<or> (\<exists>ob cl. members_end (value_end n) ob cl ?t = Some q)"
      using Suc.prems obj by (auto simp: Let_def split: if_splits)
    then have "length q \<le> length ?t" using m [of _ _ ?t q] by fastforce
    also have "\<dots> < length ?p" using ne skip_ws_length [of "tl ?p"] by (cases ?p) auto
    finally show ?thesis .
  next
    case scalar
    then show ?thesis
      using Suc.prems number_end_length [of ?p q] literal_end_length [of ?p q]
      by (auto simp: Let_def split: option.splits)
  qed
  then show ?case using len by simp
qed simp

text \<open>So the guards of the two loops always hold.\<close>

lemma members_end_step:
  assumes "member_value object p = Some s" "elem s = Some e" "length e < length s"
  shows "members_end elem object close p =
     (let q = native_json_skip_ws e in
      if ch0 q = close then Some (tl q)
      else if ch0 q \<noteq> CHR '','' then None
      else members_end elem object close (native_json_skip_ws (tl q)))"
proof -
  have "length (native_json_skip_ws (tl (native_json_skip_ws e))) < length p"
    using member_value_length [OF assms(1)] assms(3) skip_ws_length [of e]
      skip_ws_length [of "tl (native_json_skip_ws e)"] by simp
  then show ?thesis by (subst members_end_eq) (simp add: assms(1,2) Let_def)
qed

lemma member_start_length: "member_start q = Some v \<Longrightarrow> length v \<le> length q"
  using skip_ws_length [of q] skip_ws_length [of "tl (native_json_skip_ws q)"]
  by (auto simp: member_start_def Let_def split: if_splits)

lemma find_member_step:
  assumes "read_string (Some 64) p = Some (k, q)" "member_start q = Some v"
  shows "find_member key p =
     (if k = key then Some v
      else case value_end 33 v of
          None \<Rightarrow> None
        | Some q \<Rightarrow>
          let q = native_json_skip_ws q in
          if ch0 q \<noteq> CHR '','' then None else find_member key (native_json_skip_ws (tl q)))"
proof -
  have p: "p \<noteq> []" "ch0 p \<noteq> CHR ''}''" using assms(1) by (auto simp: read_string_def split: if_splits)
  have len: "length v < length p"
    using read_string_length [OF assms(1)] member_start_length [OF assms(2)] by simp
  have "length (native_json_skip_ws (tl (native_json_skip_ws e))) < length p" if "value_end 33 v = Some e" for e
    using value_end_length [OF that] len skip_ws_length [of e]
      skip_ws_length [of "tl (native_json_skip_ws e)"] by simp
  then show ?thesis using p
    by (subst find_member.simps) (auto simp: assms Let_def split: option.splits)
qed

lemma find_member_length: "find_member key p = Some v \<Longrightarrow> length v < length p"
proof (induction key p rule: find_member.induct)
  case (1 key p)
  define field where "field = read_string (Some 64) p"
  define any where "any = (case field of None \<Rightarrow> read_string None p | f \<Rightarrow> f)"
  have p: "\<not> (p = [] \<or> ch0 p = CHR ''}'')" using 1(2) by (subst (asm) find_member.simps) (auto split: if_splits)
  have eq: "find_member key p = (case any of None \<Rightarrow> None
      | Some (_, q) \<Rightarrow>
        case member_start q of None \<Rightarrow> None
        | Some v \<Rightarrow>
          if (case field of Some (k, _) \<Rightarrow> k = key | None \<Rightarrow> False) then Some v
          else case value_end 33 v of None \<Rightarrow> None
            | Some q \<Rightarrow>
              if ch0 (native_json_skip_ws q) \<noteq> CHR '','' then None
              else if length (native_json_skip_ws (tl (native_json_skip_ws q))) < length p
              then find_member key (native_json_skip_ws (tl (native_json_skip_ws q)))
              else None)"
    using p by (subst find_member.simps) (simp only: if_False Let_def any_def field_def)
  obtain k q w where q: "any = Some (k, q)" "member_start q = Some w"
    using 1(2) unfolding eq by (auto split: option.splits)
  have len: "length w < length p"
    using q(1) member_start_length [OF q(2)] read_string_length [of None p k q] read_string_length [of "Some 64" p k q]
    by (auto simp: any_def field_def split: option.splits)
  show ?case
  proof (cases "case field of Some (k, _) \<Rightarrow> k = key | None \<Rightarrow> False")
    case True
    then show ?thesis using 1(2) len unfolding eq by (simp add: q)
  next
    case False
    then obtain e where e: "value_end 33 w = Some e" "ch0 (native_json_skip_ws e) = CHR '',''"
      "length (native_json_skip_ws (tl (native_json_skip_ws e))) < length p"
      "find_member key (native_json_skip_ws (tl (native_json_skip_ws e))) = Some v"
      using 1(2) unfolding eq by (auto simp: q split: option.splits if_splits)
    have "length v < length (native_json_skip_ws (tl (native_json_skip_ws e)))"
      by (rule 1(1) [OF p refl refl q(1) [unfolded any_def field_def] refl q(2)
          False [unfolded field_def] e(1) refl _ e(3,4)]) (simp add: e(2))
    then show ?thesis using e(3) by simp
  qed
qed

lemma find_value_length: "native_json_find_value json key = Some v \<Longrightarrow> length v < length json"
proof -
  assume f: "native_json_find_value json key = Some v"
  then have "find_member key (native_json_skip_ws (tl (native_json_skip_ws json))) = Some v"
    by (auto simp: native_json_find_value_def Let_def split: if_splits)
  from find_member_length [OF this] show ?thesis
    using skip_ws_length [of json] skip_ws_length [of "tl (native_json_skip_ws json)"] by simp
qed

section \<open>UTF-8 output holds no NUL\<close>

lemma char_nul: "char_of n = CHR 0x00 \<Longrightarrow> n mod 256 = (0::nat)"
proof -
  assume a: "char_of n = CHR 0x00"
  have "of_char (char_of n) = n mod (256::nat)" by (rule of_char_of)
  then show ?thesis unfolding a by simp
qed
lemma byte_nul: "byte w = CHR 0x00 \<Longrightarrow> (ucast w :: u8) = 0"
proof -
  assume a: "byte w = CHR 0x00"
  have "unat (ucast w :: u8) < 256" using unsigned_less [of "ucast w :: u8", where 'a = nat] by simp
  with char_nul [OF a [unfolded byte_def]] have "unat (ucast w :: u8) = 0" by simp
  then show ?thesis by (simp add: unat_eq_zero)
qed
lemma byte_high: "bit w 7 \<Longrightarrow> byte w \<noteq> CHR 0x00"
proof
  assume b: "bit w 7" and "byte w = CHR 0x00"
  from byte_nul [OF this(2)] have "\<not> bit (ucast w :: u8) 7" by simp
  then show False using b by (simp add: bit_ucast_iff)
qed
lemma byte_high_or: "bit k 7 \<Longrightarrow> byte (k OR w) \<noteq> CHR 0x00"
  by (intro byte_high) (simp add: bit_or_iff)
lemma utf8_no_nul: "cp \<noteq> 0 \<Longrightarrow> CHR 0x00 \<notin> set (utf8 cp)"
proof -
  assume nz: "cp \<noteq> 0"
  have hi: "bit (0xc0 :: u32) 7" "bit (0xe0 :: u32) 7" "bit (0xf0 :: u32) 7" "bit (0x80 :: u32) 7"
    by simp_all
  have "byte cp \<noteq> CHR 0x00" if "cp < 0x80"
  proof
    assume "byte cp = CHR 0x00"
    then have "(ucast cp :: u8) = 0" by (rule byte_nul)
    then have "unat (ucast cp :: u8) = 0" by simp
    then have "take_bit 8 (unat cp) = 0" by (simp add: unsigned_ucast_eq)
    moreover have "unat cp < 256" using that by (simp add: word_less_nat_alt)
    ultimately show False using nz take_bit_nat_eq_self [of "unat cp" 8] by (simp add: unat_eq_zero)
  qed
  then show ?thesis using byte_high_or [OF hi(1)] byte_high_or [OF hi(2)] byte_high_or [OF hi(3)]
      byte_high_or [OF hi(4)] unfolding utf8_def by (auto dest: sym)
qed
section \<open>The scanner stays inside the text\<close>

lemma suffix_skip_ws: "suffix (native_json_skip_ws p) p"
  by (induction p rule: native_json_skip_ws.induct) (auto intro: suffix_ConsI)

lemma suffix_skip_digits: "suffix (skip_digits p) p"
  by (induction p rule: skip_digits.induct) (auto intro: suffix_ConsI)

lemma suffix_read_hex: "read_hex n v p = Some (w, q) \<Longrightarrow> suffix q p"
  by (induction n v p rule: read_hex.induct)
    (auto split: option.splits intro: suffix_order.trans [OF _ suffix_tl])

lemma suffix_read_unicode: "read_unicode p = Some (b, q) \<Longrightarrow> suffix q p \<and> CHR 0x00 \<notin> set b"
proof -
  assume u: "read_unicode p = Some (b, q)"
  then obtain cp r where cp: "read_hex 4 0 p = Some (cp, r)" "cp \<noteq> 0"
    by (auto simp: read_unicode_def read_hex4_def split: option.splits if_splits)
  note r = suffix_read_hex [OF cp(1)]
  show ?thesis
  proof (cases "cp \<ge> 0xd800 \<and> cp \<le> 0xdbff")
    case False
    then show ?thesis using u cp r utf8_no_nul [OF cp(2)]
      by (auto simp: read_unicode_def read_hex4_def split: if_splits)
  next
    case True
    then obtain low where low: "read_hex 4 0 (tl (tl r)) = Some (low, q)" "0xdc00 \<le> low" "low \<le> 0xdfff"
      "b = utf8 (0x10000 + push_bit 10 (cp - 0xd800) + low - 0xdc00)"
      using u cp by (auto simp: read_unicode_def read_hex4_def not_less split: option.splits if_splits)
    have "suffix q p"
      using suffix_read_hex [OF low(1)] r by (meson suffix_order.trans suffix_tl)
    moreover have "0x10000 + push_bit 10 (cp - 0xd800) + low - 0xdc00 \<noteq> 0"
    proof -
      have "unat (cp - 0xd800) = unat cp - 0xd800" "unat cp \<le> 0xdbff"
        "unat (low - 0xdc00) = unat low - 0xdc00" "unat low \<le> 0xdfff"
        using True low(2,3) by (simp_all add: word_le_nat_alt unat_sub)
      then have a: "unat (cp - 0xd800) < 0x400" and b: "unat (low - 0xdc00) < 0x400" by linarith+
      have p: "unat (push_bit 10 (cp - 0xd800)) = unat (cp - 0xd800) * 1024"
        using a by (simp add: unsigned_push_bit_eq take_bit_nat_eq_self_iff push_bit_nat_def)
      have s1: "unat (0x10000 + push_bit 10 (cp - 0xd800)) = 0x10000 + unat (cp - 0xd800) * 1024"
        using a p by (subst unat_add_lem [THEN iffD1]) simp_all
      have "unat (0x10000 + push_bit 10 (cp - 0xd800) + (low - 0xdc00)) =
          0x10000 + unat (cp - 0xd800) * 1024 + unat (low - 0xdc00)"
        using a b s1 by (subst unat_add_lem [THEN iffD1]) simp_all
      then have "unat (0x10000 + push_bit 10 (cp - 0xd800) + (low - 0xdc00)) \<noteq> 0" by simp
      then have "0x10000 + push_bit 10 (cp - 0xd800) + (low - 0xdc00) \<noteq> 0" by (metis unat_0)
      then show ?thesis by (simp add: add_diff_eq)
    qed
    ultimately show ?thesis using low(4) utf8_no_nul by blast
  qed
qed

lemma suffix_read_escape: "read_escape p = Some (b, q) \<Longrightarrow> suffix q p \<and> CHR 0x00 \<notin> set b"
  using suffix_read_unicode [of "tl p" b q] suffix_tl [of p]
  by (auto simp: read_escape_def Let_def split: if_splits intro: suffix_order.trans)

lemma suffix_read_string_loop:
  "read_string_loop cap w p = Some (out, q) \<Longrightarrow> CHR 0x00 \<notin> set p \<Longrightarrow> CHR 0x00 \<notin> set w \<Longrightarrow>
   suffix q p \<and> CHR 0x00 \<notin> set out"
proof (induction cap w p rule: read_string_loop.induct)
  case (1 cap w p)
  show ?case
  proof (cases "p = [] \<or> ch0 p = CHR 0x22 \<or> code (ch0 p) < 0x20")
    case True
    then show ?thesis using 1(2-4) by (subst (asm) read_string_loop.simps) (auto split: if_splits)
  next
    case False
    define e where "e = (if ch0 p = CHR 0x5C then read_escape (tl p) else Some ([ch0 p], tl p))"
    have loop: "read_string_loop cap w p = (case e of None \<Rightarrow> None
        | Some (bytes, q) \<Rightarrow>
          if (case cap of None \<Rightarrow> False | Some n \<Rightarrow> length w \<ge> n \<or> length bytes \<ge> n - length w) then None
          else read_string_loop cap (w @ bytes) q)"
      using False unfolding e_def by (subst read_string_loop.simps) (simp only: if_False de_Morgan_disj simp_thms)
    then obtain b r where e: "e = Some (b, r)" "read_string_loop cap (w @ b) r = Some (out, q)"
      "\<not> (case cap of None \<Rightarrow> False | Some n \<Rightarrow> length w \<ge> n \<or> length b \<ge> n - length w)"
      using 1(2) by (auto split: option.splits if_splits)
    have "ch0 p \<in> set p" using False by (cases p) auto
    then have r: "suffix r (tl p)" "CHR 0x00 \<notin> set b"
      using e(1) suffix_read_escape [of "tl p" b r] 1(3) by (auto simp: e_def split: if_splits)
    then have rp: "suffix r p" by (meson suffix_order.trans suffix_tl)
    then have "CHR 0x00 \<notin> set r" using 1(3) set_mono_suffix by blast
    then have "suffix q r \<and> CHR 0x00 \<notin> set out"
      using 1(1) [OF _ _ e(1) [unfolded e_def] refl e(3) e(2)] False 1(4) r(2) by auto
    then show ?thesis using rp suffix_order.trans by blast
  qed
qed

lemma suffix_read_string:
  "read_string cap p = Some (out, q) \<Longrightarrow> CHR 0x00 \<notin> set p \<Longrightarrow>
   suffix q p \<and> CHR 0x00 \<notin> set out \<and> (\<forall>n. cap = Some n \<longrightarrow> length out < n)"
proof -
  assume r: "read_string cap p = Some (out, q)" "CHR 0x00 \<notin> set p"
  then obtain x where x: "read_string_loop cap [] (tl p) = Some (out, x)" "q = tl x"
    by (auto simp: read_string_def split: if_splits option.splits)
  have "CHR 0x00 \<notin> set (tl p)" using r(2) by (cases p) auto
  from suffix_read_string_loop [OF x(1) this] have "suffix x (tl p)" "CHR 0x00 \<notin> set out" by auto
  then have "suffix q p" unfolding x(2) by (meson suffix_order.trans suffix_tl)
  moreover have "\<forall>n. cap = Some n \<longrightarrow> length out < n" using r(1) x by (auto simp: read_string_def split: if_splits)
  ultimately show ?thesis using \<open>CHR 0x00 \<notin> set out\<close> by blast
qed

lemma suffix_through:
  "suffix x p \<Longrightarrow> suffix (tl x) p" "suffix x p \<Longrightarrow> suffix (skip_digits x) p"
  "suffix x p \<Longrightarrow> suffix (native_json_skip_ws x) p" "suffix x p \<Longrightarrow> suffix (drop n x) p"
  using suffix_tl suffix_skip_digits suffix_skip_ws suffix_drop suffix_order.trans by metis+

lemma suffix_number_end: "number_end p = Some q \<Longrightarrow> suffix q p"
  unfolding number_end_def Let_def by (auto simp: suffix_through split: if_splits)

lemma suffix_literal_end: "literal_end p = Some q \<Longrightarrow> suffix q p"
  by (auto simp: literal_end_def suffix_drop split: if_splits)

lemma suffix_nul: "suffix q p \<Longrightarrow> CHR 0x00 \<notin> set p \<Longrightarrow> CHR 0x00 \<notin> set q"
  using set_mono_suffix by blast

lemma suffix_member_value: "member_value object p = Some q \<Longrightarrow> CHR 0x00 \<notin> set p \<Longrightarrow> suffix q p"
proof (cases object)
  case True
  assume "member_value object p = Some q" and nul: "CHR 0x00 \<notin> set p"
  then obtain k r where "read_string None p = Some (k, r)" "q = tl (native_json_skip_ws r)"
    using True by (auto simp: member_value_def Let_def split: option.splits if_splits)
  with suffix_read_string [of None p k r] nul show ?thesis by (auto simp: suffix_through)
qed (simp add: member_value_def)

lemma suffix_members_end:
  assumes "\<And>p q. elem p = Some q \<Longrightarrow> CHR 0x00 \<notin> set p \<Longrightarrow> suffix q p"
  shows "members_end elem object close p = Some q \<Longrightarrow> CHR 0x00 \<notin> set p \<Longrightarrow> suffix q p"
proof (induction "length p" arbitrary: p rule: less_induct)
  case less
  then obtain s e where s: "member_value object p = Some s" and e: "elem s = Some e"
    by (subst (asm) members_end_eq) (auto split: option.splits)
  let ?w = "native_json_skip_ws e"
  note sp = suffix_member_value [OF s less.prems(2)]
  have "suffix e p" using assms [OF e suffix_nul [OF sp less.prems(2)]] sp suffix_order.trans by blast
  then have w: "suffix (tl ?w) p" by (simp add: suffix_through)
  consider "q = tl ?w"
    | "length (native_json_skip_ws (tl ?w)) < length p"
      "members_end elem object close (native_json_skip_ws (tl ?w)) = Some q"
    using less.prems(1) by (subst (asm) members_end_eq) (auto simp: s e Let_def split: if_splits)
  then show ?case
  proof cases
    case 1
    then show ?thesis using w by simp
  next
    case 2
    have sw: "suffix (native_json_skip_ws (tl ?w)) p" using w by (simp add: suffix_through)
    from less.hyps [OF 2 suffix_nul [OF sw less.prems(2)]] show ?thesis using sw suffix_order.trans by blast
  qed
qed

lemma suffix_value_end: "value_end n p = Some q \<Longrightarrow> CHR 0x00 \<notin> set p \<Longrightarrow> suffix q p"
proof (induction n arbitrary: p q)
  case (Suc n)
  let ?p = "native_json_skip_ws p"
  have m: "members_end (value_end n) ob cl x = Some r \<Longrightarrow> CHR 0x00 \<notin> set x \<Longrightarrow> suffix r x" for ob cl x r
    using suffix_members_end [OF Suc.IH] by blast
  have np: "CHR 0x00 \<notin> set ?p" "CHR 0x00 \<notin> set (native_json_skip_ws (tl ?p))"
    using Suc.prems(2) suffix_nul suffix_through suffix_order.refl by metis+
  consider (str) "ch0 ?p = CHR 0x22" | (obj) "ch0 ?p = CHR ''{'' \<or> ch0 ?p = CHR ''[''"
    | (scalar) "ch0 ?p \<noteq> CHR 0x22" "\<not> (ch0 ?p = CHR ''{'' \<or> ch0 ?p = CHR ''['')" by blast
  then have "suffix q ?p"
  proof cases
    case str
    then show ?thesis using Suc.prems(1) suffix_read_string [of None ?p _ q] np by (auto simp: Let_def)
  next
    case obj
    let ?t = "native_json_skip_ws (tl ?p)"
    have "q = tl ?t \<or> (\<exists>ob cl. members_end (value_end n) ob cl ?t = Some q)"
      using Suc.prems(1) obj by (auto simp: Let_def split: if_splits)
    then have "suffix q ?t" using m [of _ _ ?t q] np(2) by (auto simp: suffix_tl)
    moreover have "suffix ?t ?p" by (simp add: suffix_through)
    ultimately show ?thesis using suffix_order.trans by blast
  next
    case scalar
    then show ?thesis
      using Suc.prems(1) suffix_number_end [of ?p q] suffix_literal_end [of ?p q]
      by (auto simp: Let_def split: option.splits)
  qed
  then show ?case using suffix_skip_ws suffix_order.trans by blast
qed simp

lemma suffix_find_member: "find_member key p = Some v \<Longrightarrow> CHR 0x00 \<notin> set p \<Longrightarrow> suffix v p"
proof (induction "length p" arbitrary: p rule: less_induct)
  case less
  obtain cap k q w where q: "read_string cap p = Some (k, q)" "member_start q = Some w"
    and c: "w = v \<or> (\<exists>e. value_end 33 w = Some e \<and>
      length (native_json_skip_ws (tl (native_json_skip_ws e))) < length p \<and>
      find_member key (native_json_skip_ws (tl (native_json_skip_ws e))) = Some v)"
    using less.prems(1)
    by (subst (asm) find_member.simps) (auto simp: Let_def split: option.splits if_splits)
  have "suffix q p" using suffix_read_string [OF q(1) less.prems(2)] by blast
  moreover have "suffix w q"
    using q(2) by (auto simp: member_start_def Let_def suffix_through split: if_splits)
  ultimately have wp: "suffix w p" using suffix_order.trans by blast
  from c show ?case
  proof
    assume "\<exists>e. value_end 33 w = Some e \<and>
      length (native_json_skip_ws (tl (native_json_skip_ws e))) < length p \<and>
      find_member key (native_json_skip_ws (tl (native_json_skip_ws e))) = Some v"
    then obtain e where e: "value_end 33 w = Some e"
      "length (native_json_skip_ws (tl (native_json_skip_ws e))) < length p"
      "find_member key (native_json_skip_ws (tl (native_json_skip_ws e))) = Some v" by blast
    have "suffix e p"
      using suffix_value_end [OF e(1) suffix_nul [OF wp less.prems(2)]] wp suffix_order.trans by blast
    then have sw: "suffix (native_json_skip_ws (tl (native_json_skip_ws e))) p" by (simp add: suffix_through)
    from less.hyps [OF e(2,3) suffix_nul [OF sw less.prems(2)]] show ?thesis using sw suffix_order.trans by blast
  qed (use wp in simp)
qed

lemma suffix_find_value:
  "native_json_find_value json key = Some v \<Longrightarrow> CHR 0x00 \<notin> set json \<Longrightarrow> suffix v json"
proof -
  assume f: "native_json_find_value json key = Some v" and nul: "CHR 0x00 \<notin> set json"
  let ?p = "native_json_skip_ws (tl (native_json_skip_ws json))"
  have m: "find_member key ?p = Some v" using f by (auto simp: native_json_find_value_def Let_def split: if_splits)
  have p: "suffix ?p json" by (simp add: suffix_through)
  from suffix_find_member [OF m suffix_nul [OF p nul]] p show ?thesis using suffix_order.trans by blast
qed

text \<open>A string that was read fits its buffer and holds no NUL.\<close>

lemma read_string_ok:
  "native_json_read_string json key cap = JRead s \<Longrightarrow> CHR 0x00 \<notin> set json \<Longrightarrow>
   length s < cap \<and> CHR 0x00 \<notin> set s"
proof -
  assume r: "native_json_read_string json key cap = JRead s" and nul: "CHR 0x00 \<notin> set json"
  then obtain p q where "native_json_find_value json key = Some p" "read_string (Some cap) p = Some (s, q)"
    by (auto simp: native_json_read_string_def split: option.splits if_splits)
  with suffix_read_string [OF this(2)] suffix_nul [OF suffix_find_value nul] nul show ?thesis by blast
qed

section \<open>Properties\<close>



end
