(* ===== verification/Native_Settings.thy ===== *)
theory Native_Settings
  imports Lg_Prelude
begin

text \<open>
  The settings model, \<open>native/include/native_settings.h\<close>, \<open>native/src/native_settings.c\<close> and the
  pure operations of \<open>native/src/native_config.c\<close>.  A \<open>char[512]\<close> field is the string it holds;
  the unsigned 16-bit fields are \<open>nat\<close> and the signed ones \<open>int\<close>: every store into them is range
  checked first, and \<open>settings_wf\<close> states that they stay in range.
\<close>

section \<open>Data\<close>

definition NATIVE_SETTINGS_STRING_MAX :: nat where "NATIVE_SETTINGS_STRING_MAX = 512"
definition NATIVE_SETTINGS_MAX_SESSIONS :: nat where "NATIVE_SETTINGS_MAX_SESSIONS = 4"
definition NATIVE_SESSION_SLOT_RED :: int where "NATIVE_SESSION_SLOT_RED = 0"
definition NATIVE_SESSION_SLOT_GREEN :: int where "NATIVE_SESSION_SLOT_GREEN = 1"
definition NATIVE_SESSION_SLOT_YELLOW :: int where "NATIVE_SESSION_SLOT_YELLOW = 2"
definition NATIVE_SESSION_SLOT_BLUE :: int where "NATIVE_SESSION_SLOT_BLUE = 3"
definition NATIVE_SETTINGS_DUCK_MASK_ALL :: nat where
  "NATIVE_SETTINGS_DUCK_MASK_ALL = 2 ^ NATIVE_SETTINGS_MAX_SESSIONS - 1"
definition NATIVE_SETTINGS_MIXER_STEP_DB :: int where "NATIVE_SETTINGS_MIXER_STEP_DB = 3"
definition NATIVE_SETTINGS_MIXER_MIN_DB :: int where "NATIVE_SETTINGS_MIXER_MIN_DB = - 60"
definition NATIVE_SETTINGS_MIXER_MAX_DB :: int where "NATIVE_SETTINGS_MIXER_MAX_DB = 6"
definition NATIVE_SETTINGS_DESKTOP_MIN_WIDTH :: nat where "NATIVE_SETTINGS_DESKTOP_MIN_WIDTH = 640"
definition NATIVE_SETTINGS_DESKTOP_MIN_HEIGHT :: nat where "NATIVE_SETTINGS_DESKTOP_MIN_HEIGHT = 480"
definition NATIVE_SETTINGS_DESKTOP_MAX_WIDTH :: nat where "NATIVE_SETTINGS_DESKTOP_MAX_WIDTH = 3840"
definition NATIVE_SETTINGS_DESKTOP_MAX_HEIGHT :: nat where "NATIVE_SETTINGS_DESKTOP_MAX_HEIGHT = 2160"
definition NATIVE_RDP_INITIAL_DESKTOP_WIDTH :: nat where "NATIVE_RDP_INITIAL_DESKTOP_WIDTH = 3840"
definition NATIVE_RDP_INITIAL_DESKTOP_HEIGHT :: nat where "NATIVE_RDP_INITIAL_DESKTOP_HEIGHT = 2160"
definition NATIVE_CAMERA_MIN_WIDTH :: nat where "NATIVE_CAMERA_MIN_WIDTH = 640"
definition NATIVE_CAMERA_MAX_WIDTH :: nat where "NATIVE_CAMERA_MAX_WIDTH = 1920"
definition NATIVE_CAMERA_MIN_HEIGHT :: nat where "NATIVE_CAMERA_MIN_HEIGHT = 480"
definition NATIVE_CAMERA_MAX_HEIGHT :: nat where "NATIVE_CAMERA_MAX_HEIGHT = 1080"
definition NATIVE_CAMERA_MAX_FPS :: nat where "NATIVE_CAMERA_MAX_FPS = 30"

record NativeSessionConfig =
  sc_name :: string
  sc_host :: string
  sc_username :: string
  sc_password :: string
  sc_domain :: string
  sc_port :: nat
  sc_fps :: nat
  sc_desktop_width :: nat
  sc_desktop_height :: nat
  sc_desktop_scale_factor :: nat
  sc_duck_mask :: nat
  sc_mixer_gain_db :: int
  sc_mixer_muted :: bool
  sc_mixer_solo :: bool
  sc_camera_redirect :: bool
  sc_audio_input_redirect :: bool

datatype AudioCodec = NATIVE_AUDIO_CODEC_AUTO | NATIVE_AUDIO_CODEC_PCM

record NativeSettings =
  ns_sessions :: "NativeSessionConfig list"
  ns_wheel_step :: nat
  ns_wheel_scroll_divisor :: nat
  ns_audio_codec :: AudioCodec
  ns_camera_enabled :: bool
  ns_camera_device_id :: string
  ns_camera_width :: nat
  ns_camera_height :: nat
  ns_camera_fps :: nat
  ns_audio_input_enabled :: bool
  ns_audio_input_device_id :: string
  ns_audio_input_gain_db :: int

section \<open>Names and defaults\<close>

definition native_session_slot_name :: "int \<Rightarrow> string" where
  "native_session_slot_name slot =
     (if slot = NATIVE_SESSION_SLOT_RED then ''red''
      else if slot = NATIVE_SESSION_SLOT_GREEN then ''green''
      else if slot = NATIVE_SESSION_SLOT_YELLOW then ''yellow''
      else if slot = NATIVE_SESSION_SLOT_BLUE then ''blue''
      else ''?'')"

definition native_session_config_defaults :: NativeSessionConfig where
  "native_session_config_defaults = \<lparr>sc_name = [], sc_host = [], sc_username = [], sc_password = [],
     sc_domain = [], sc_port = 3389, sc_fps = 60, sc_desktop_width = NATIVE_RDP_INITIAL_DESKTOP_WIDTH,
     sc_desktop_height = NATIVE_RDP_INITIAL_DESKTOP_HEIGHT, sc_desktop_scale_factor = 100,
     sc_duck_mask = 0, sc_mixer_gain_db = 0, sc_mixer_muted = False, sc_mixer_solo = False,
     sc_camera_redirect = False, sc_audio_input_redirect = False\<rparr>"

definition native_settings_defaults :: NativeSettings where
  "native_settings_defaults =
     (let sessions = replicate NATIVE_SETTINGS_MAX_SESSIONS native_session_config_defaults;
          green = nat NATIVE_SESSION_SLOT_GREEN in
      \<lparr>ns_sessions = sessions[green := (sessions ! green)\<lparr>sc_host := ''127.0.0.1''\<rparr>],
       ns_wheel_step = 60, ns_wheel_scroll_divisor = 1, ns_audio_codec = NATIVE_AUDIO_CODEC_AUTO,
       ns_camera_enabled = False, ns_camera_device_id = [], ns_camera_width = 640, ns_camera_height = 480,
       ns_camera_fps = 15, ns_audio_input_enabled = False, ns_audio_input_device_id = [],
       ns_audio_input_gain_db = 0\<rparr>)"

definition native_desktop_scale_valid :: "nat \<Rightarrow> bool" where
  "native_desktop_scale_valid scale \<longleftrightarrow> scale = 100 \<or> scale = 150 \<or> scale = 200"

section \<open>Configuration checks and differences (\<open>native_config.c\<close>)\<close>

text \<open>None: too long for the destination (or no destination); a missing value is the empty string.\<close>

definition copy_config_string :: "nat \<Rightarrow> string option \<Rightarrow> string option" where
  "copy_config_string cap value =
     (if cap = 0 then None
      else let value = (case value of None \<Rightarrow> [] | Some v \<Rightarrow> v) in
        if length value \<ge> cap then None else Some value)"

definition native_session_endpoint_changed :: "NativeSessionConfig \<Rightarrow> NativeSessionConfig \<Rightarrow> bool" where
  "native_session_endpoint_changed before after \<longleftrightarrow>
     sc_host before \<noteq> sc_host after \<or> sc_port before \<noteq> sc_port after"

definition native_session_connection_config_changed :: "NativeSessionConfig \<Rightarrow> NativeSessionConfig \<Rightarrow> bool" where
  "native_session_connection_config_changed before after \<longleftrightarrow>
     native_session_endpoint_changed before after \<or>
     sc_username before \<noteq> sc_username after \<or> sc_password before \<noteq> sc_password after \<or>
     sc_domain before \<noteq> sc_domain after \<or> sc_fps before \<noteq> sc_fps after \<or>
     sc_desktop_width before \<noteq> sc_desktop_width after \<or>
     sc_desktop_height before \<noteq> sc_desktop_height after \<or>
     sc_desktop_scale_factor before \<noteq> sc_desktop_scale_factor after \<or>
     sc_camera_redirect before \<noteq> sc_camera_redirect after \<or>
     sc_audio_input_redirect before \<noteq> sc_audio_input_redirect after"

definition native_settings_recompute_capture_gates :: "NativeSettings \<Rightarrow> NativeSettings" where
  "native_settings_recompute_capture_gates s =
     foldl (\<lambda>s c. s\<lparr>ns_camera_enabled := ns_camera_enabled s \<or> sc_camera_redirect c,
           ns_audio_input_enabled := ns_audio_input_enabled s \<or> sc_audio_input_redirect c\<rparr>)
       (s\<lparr>ns_camera_enabled := False, ns_audio_input_enabled := False\<rparr>) (ns_sessions s)"

definition native_config_validate_runtime :: "NativeSettings \<Rightarrow> bool" where
  "native_config_validate_runtime s \<longleftrightarrow>
     \<not> (ns_wheel_step s = 0 \<or> ns_wheel_scroll_divisor s = 0) \<and>
     list_all (\<lambda>c. native_desktop_scale_valid (sc_desktop_scale_factor c) \<and>
       \<not> (sc_port c = 0 \<or> sc_fps c = 0 \<or> sc_desktop_width c = 0 \<or> sc_desktop_height c = 0)) (ns_sessions s) \<and>
     \<not> (ns_camera_width s < NATIVE_CAMERA_MIN_WIDTH \<or> ns_camera_width s > NATIVE_CAMERA_MAX_WIDTH \<or>
        ns_camera_height s < NATIVE_CAMERA_MIN_HEIGHT \<or> ns_camera_height s > NATIVE_CAMERA_MAX_HEIGHT \<or>
        odd (ns_camera_width s) \<or> odd (ns_camera_height s) \<or>
        ns_camera_fps s = 0 \<or> ns_camera_fps s > NATIVE_CAMERA_MAX_FPS \<or>
        ns_audio_input_gain_db s < - 12 \<or> ns_audio_input_gain_db s > 18)"

text \<open>The verdict, and the message for the user when the session is refused.\<close>

definition native_session_config_validate_connect :: "NativeSessionConfig \<Rightarrow> int \<Rightarrow> bool \<times> string option" where
  "native_session_config_validate_connect c slot =
     (let slot_name = native_session_slot_name slot;
          ok = (sc_host c \<noteq> [] \<and> sc_username c \<noteq> [] \<and> sc_password c \<noteq> [] \<and>
                \<not> (sc_port c = 0 \<or> sc_fps c = 0)) in
      (ok,
       if ok then None
       else if sc_host c = [] then Some (''Enter an IP address for the '' @ slot_name @ '' server.'')
       else if sc_username c = [] \<or> sc_password c = []
       then Some (''Missing username or password for the '' @ slot_name @ '' server.'')
       else Some ''Invalid RDP config.''))"

definition native_config_validate :: "NativeSettings \<Rightarrow> int \<Rightarrow> bool" where
  "native_config_validate s slot \<longleftrightarrow> slot \<ge> 0 \<and> slot < int NATIVE_SETTINGS_MAX_SESSIONS \<and>
     fst (native_session_config_validate_connect (ns_sessions s ! nat slot) slot) \<and>
     native_config_validate_runtime s"

section \<open>Well-formed settings\<close>

text \<open>What a string field can hold, and the ranges every store keeps.\<close>

definition text_ok :: "string \<Rightarrow> bool" where
  "text_ok s \<longleftrightarrow> length s < NATIVE_SETTINGS_STRING_MAX \<and> CHR 0x00 \<notin> set s"

definition session_wf :: "NativeSessionConfig \<Rightarrow> bool" where
  "session_wf c \<longleftrightarrow> text_ok (sc_name c) \<and> text_ok (sc_host c) \<and> text_ok (sc_username c) \<and>
     text_ok (sc_password c) \<and> text_ok (sc_domain c) \<and>
     1 \<le> sc_port c \<and> sc_port c \<le> 65535 \<and> 1 \<le> sc_fps c \<and> sc_fps c \<le> 240 \<and>
     NATIVE_SETTINGS_DESKTOP_MIN_WIDTH \<le> sc_desktop_width c \<and>
     sc_desktop_width c \<le> NATIVE_SETTINGS_DESKTOP_MAX_WIDTH \<and>
     NATIVE_SETTINGS_DESKTOP_MIN_HEIGHT \<le> sc_desktop_height c \<and>
     sc_desktop_height c \<le> NATIVE_SETTINGS_DESKTOP_MAX_HEIGHT \<and>
     native_desktop_scale_valid (sc_desktop_scale_factor c) \<and>
     sc_duck_mask c \<le> NATIVE_SETTINGS_DUCK_MASK_ALL \<and>
     NATIVE_SETTINGS_MIXER_MIN_DB \<le> sc_mixer_gain_db c \<and> sc_mixer_gain_db c \<le> NATIVE_SETTINGS_MIXER_MAX_DB \<and>
     sc_mixer_gain_db c mod NATIVE_SETTINGS_MIXER_STEP_DB = 0"

definition settings_wf :: "NativeSettings \<Rightarrow> bool" where
  "settings_wf s \<longleftrightarrow> length (ns_sessions s) = NATIVE_SETTINGS_MAX_SESSIONS \<and>
     list_all session_wf (ns_sessions s) \<and>
     1 \<le> ns_wheel_step s \<and> ns_wheel_step s \<le> 120 \<and>
     1 \<le> ns_wheel_scroll_divisor s \<and> ns_wheel_scroll_divisor s \<le> 120 \<and>
     text_ok (ns_camera_device_id s) \<and> text_ok (ns_audio_input_device_id s) \<and>
     NATIVE_CAMERA_MIN_WIDTH \<le> ns_camera_width s \<and> ns_camera_width s \<le> NATIVE_CAMERA_MAX_WIDTH \<and>
     NATIVE_CAMERA_MIN_HEIGHT \<le> ns_camera_height s \<and> ns_camera_height s \<le> NATIVE_CAMERA_MAX_HEIGHT \<and>
     even (ns_camera_width s) \<and> even (ns_camera_height s) \<and>
     1 \<le> ns_camera_fps s \<and> ns_camera_fps s \<le> NATIVE_CAMERA_MAX_FPS \<and>
     - 12 \<le> ns_audio_input_gain_db s \<and> ns_audio_input_gain_db s \<le> 18"

lemmas settings_consts =
  NATIVE_SETTINGS_STRING_MAX_def NATIVE_SETTINGS_MAX_SESSIONS_def NATIVE_SETTINGS_DUCK_MASK_ALL_def
  NATIVE_SETTINGS_MIXER_STEP_DB_def NATIVE_SETTINGS_MIXER_MIN_DB_def NATIVE_SETTINGS_MIXER_MAX_DB_def
  NATIVE_SETTINGS_DESKTOP_MIN_WIDTH_def NATIVE_SETTINGS_DESKTOP_MIN_HEIGHT_def
  NATIVE_SETTINGS_DESKTOP_MAX_WIDTH_def NATIVE_SETTINGS_DESKTOP_MAX_HEIGHT_def
  NATIVE_RDP_INITIAL_DESKTOP_WIDTH_def NATIVE_RDP_INITIAL_DESKTOP_HEIGHT_def
  NATIVE_CAMERA_MIN_WIDTH_def NATIVE_CAMERA_MAX_WIDTH_def NATIVE_CAMERA_MIN_HEIGHT_def
  NATIVE_CAMERA_MAX_HEIGHT_def NATIVE_CAMERA_MAX_FPS_def

lemma session_defaults_wf: "session_wf native_session_config_defaults"
  by (simp add: native_session_config_defaults_def session_wf_def text_ok_def settings_consts
    native_desktop_scale_valid_def)

lemma settings_defaults_wf: "settings_wf native_settings_defaults"
proof -
  have "session_wf (native_session_config_defaults\<lparr>sc_host := ''127.0.0.1''\<rparr>)"
    using session_defaults_wf by (simp add: session_wf_def text_ok_def settings_consts)
  moreover have "replicate (4 :: nat) x = [x, x, x, x]" for x :: NativeSessionConfig
    by (simp add: numeral_eq_Suc)
  ultimately show ?thesis
    using session_defaults_wf
    by (simp add: native_settings_defaults_def settings_wf_def Let_def settings_consts
      NATIVE_SESSION_SLOT_GREEN_def text_ok_def)
qed

text \<open>The gates after a recomputation: open exactly when some profile asks for the device.\<close>

lemma capture_gates:
  "ns_camera_enabled (native_settings_recompute_capture_gates s) \<longleftrightarrow> list_ex sc_camera_redirect (ns_sessions s)"
  "ns_audio_input_enabled (native_settings_recompute_capture_gates s) \<longleftrightarrow>
     list_ex sc_audio_input_redirect (ns_sessions s)"
proof -
  have g: "ns_camera_enabled (foldl (\<lambda>s c. s\<lparr>ns_camera_enabled := ns_camera_enabled s \<or> sc_camera_redirect c,
           ns_audio_input_enabled := ns_audio_input_enabled s \<or> sc_audio_input_redirect c\<rparr>) t cs) =
      (ns_camera_enabled t \<or> list_ex sc_camera_redirect cs) \<and>
    ns_audio_input_enabled (foldl (\<lambda>s c. s\<lparr>ns_camera_enabled := ns_camera_enabled s \<or> sc_camera_redirect c,
           ns_audio_input_enabled := ns_audio_input_enabled s \<or> sc_audio_input_redirect c\<rparr>) t cs) =
      (ns_audio_input_enabled t \<or> list_ex sc_audio_input_redirect cs)" for t cs
    by (induction cs arbitrary: t) auto
  note h = g [of "s\<lparr>ns_camera_enabled := False, ns_audio_input_enabled := False\<rparr>" "ns_sessions s"]
  show "ns_camera_enabled (native_settings_recompute_capture_gates s) \<longleftrightarrow>
      list_ex sc_camera_redirect (ns_sessions s)"
    using conjunct1 [OF h] by (simp add: native_settings_recompute_capture_gates_def)
  show "ns_audio_input_enabled (native_settings_recompute_capture_gates s) \<longleftrightarrow>
      list_ex sc_audio_input_redirect (ns_sessions s)"
    using conjunct2 [OF h] by (simp add: native_settings_recompute_capture_gates_def)
qed

lemma wf_validates: "settings_wf s \<Longrightarrow> native_config_validate_runtime s"
  by (auto simp: settings_wf_def native_config_validate_runtime_def list_all_iff session_wf_def settings_consts)

end
