(* ===== verification/Settings_Json.thy ===== *)
theory Settings_Json
  imports Native_Json Native_Settings "HOL-Library.Monad_Syntax"
begin

text \<open>
  Reading and writing the settings document, \<open>native/src/settings_json.c\<close>.  A reader returns None
  where the C function returns false.  The writer is the text it writes when no write to the
  file fails (the first failed write makes the C functions return false).  The allocation of the
  \<open>i\<close>-th session object's copy is the parameter \<open>alloc i\<close>.
\<close>

section \<open>Reading fields\<close>

definition apply_json_string :: "string \<Rightarrow> string \<Rightarrow> nat \<Rightarrow> string \<Rightarrow> string option" where
  "apply_json_string json key cap dest =
     (case native_json_read_string json key cap of
        JInvalid \<Rightarrow> None | JAbsent \<Rightarrow> Some dest | JRead v \<Rightarrow> Some v)"

definition apply_session_name_json :: "NativeSessionConfig \<Rightarrow> string \<Rightarrow> NativeSessionConfig option" where
  "apply_session_name_json session json =
     (case native_json_find_value json ''name'' of
        None \<Rightarrow> Some session
      | Some value \<Rightarrow>
        if ch0 value \<noteq> CHR 0x22 then Some session
        else do { v \<leftarrow> apply_json_string json ''name'' NATIVE_SETTINGS_STRING_MAX (sc_name session);
                  Some (session\<lparr>sc_name := v\<rparr>) })"

definition apply_json_u16 :: "string \<Rightarrow> string \<Rightarrow> nat \<Rightarrow> nat \<Rightarrow> nat \<Rightarrow> nat option" where
  "apply_json_u16 json key min_value max_value dest =
     (case native_json_read_u16 json key min_value max_value of
        JInvalid \<Rightarrow> None | JAbsent \<Rightarrow> Some dest | JRead v \<Rightarrow> Some v)"

definition apply_json_i16 :: "string \<Rightarrow> string \<Rightarrow> int \<Rightarrow> int \<Rightarrow> int \<Rightarrow> int option" where
  "apply_json_i16 json key min_value max_value dest =
     (case native_json_read_i16 json key min_value max_value of
        JInvalid \<Rightarrow> None | JAbsent \<Rightarrow> Some dest | JRead v \<Rightarrow> Some v)"

definition apply_json_bool :: "string \<Rightarrow> string \<Rightarrow> bool \<Rightarrow> bool option" where
  "apply_json_bool json key dest =
     (case native_json_read_bool json key of
        JInvalid \<Rightarrow> None | JAbsent \<Rightarrow> Some dest | JRead v \<Rightarrow> Some v)"

text \<open>C's \<open>%\<close> is zero exactly when \<open>mod\<close> is.\<close>

definition apply_mixer_gain_json :: "NativeSessionConfig \<Rightarrow> string \<Rightarrow> NativeSessionConfig option" where
  "apply_mixer_gain_json session json = do {
     v \<leftarrow> apply_json_i16 json ''mixerGainDb'' NATIVE_SETTINGS_MIXER_MIN_DB NATIVE_SETTINGS_MIXER_MAX_DB
       (sc_mixer_gain_db session);
     if v mod NATIVE_SETTINGS_MIXER_STEP_DB \<noteq> 0 then None else Some (session\<lparr>sc_mixer_gain_db := v\<rparr>) }"

definition apply_desktop_scale_json :: "NativeSessionConfig \<Rightarrow> string \<Rightarrow> NativeSessionConfig option" where
  "apply_desktop_scale_json session json = do {
     v \<leftarrow> apply_json_u16 json ''desktopScaleFactor'' 100 200 (sc_desktop_scale_factor session);
     if \<not> native_desktop_scale_valid v then None else Some (session\<lparr>sc_desktop_scale_factor := v\<rparr>) }"

definition apply_session_json :: "NativeSessionConfig \<Rightarrow> string \<Rightarrow> NativeSessionConfig option" where
  "apply_session_json s json = do {
     s \<leftarrow> apply_session_name_json s json;
     s \<leftarrow> apply_desktop_scale_json s json;
     v \<leftarrow> apply_json_string json ''host'' NATIVE_SETTINGS_STRING_MAX (sc_host s);
     let s = s\<lparr>sc_host := v\<rparr>;
     v \<leftarrow> apply_json_string json ''username'' NATIVE_SETTINGS_STRING_MAX (sc_username s);
     let s = s\<lparr>sc_username := v\<rparr>;
     v \<leftarrow> apply_json_string json ''password'' NATIVE_SETTINGS_STRING_MAX (sc_password s);
     let s = s\<lparr>sc_password := v\<rparr>;
     v \<leftarrow> apply_json_string json ''domain'' NATIVE_SETTINGS_STRING_MAX (sc_domain s);
     let s = s\<lparr>sc_domain := v\<rparr>;
     v \<leftarrow> apply_json_u16 json ''port'' 1 65535 (sc_port s);
     let s = s\<lparr>sc_port := v\<rparr>;
     v \<leftarrow> apply_json_u16 json ''fps'' 1 240 (sc_fps s);
     let s = s\<lparr>sc_fps := v\<rparr>;
     v \<leftarrow> apply_json_u16 json ''desktopWidth'' NATIVE_SETTINGS_DESKTOP_MIN_WIDTH
       NATIVE_SETTINGS_DESKTOP_MAX_WIDTH (sc_desktop_width s);
     let s = s\<lparr>sc_desktop_width := v\<rparr>;
     v \<leftarrow> apply_json_u16 json ''desktopHeight'' NATIVE_SETTINGS_DESKTOP_MIN_HEIGHT
       NATIVE_SETTINGS_DESKTOP_MAX_HEIGHT (sc_desktop_height s);
     let s = s\<lparr>sc_desktop_height := v\<rparr>;
     v \<leftarrow> apply_json_u16 json ''duckTriggers'' 0 NATIVE_SETTINGS_DUCK_MASK_ALL (sc_duck_mask s);
     let s = s\<lparr>sc_duck_mask := v\<rparr>;
     s \<leftarrow> apply_mixer_gain_json s json;
     v \<leftarrow> apply_json_bool json ''mixerMuted'' (sc_mixer_muted s);
     let s = s\<lparr>sc_mixer_muted := v\<rparr>;
     v \<leftarrow> apply_json_bool json ''mixerSolo'' (sc_mixer_solo s);
     let s = s\<lparr>sc_mixer_solo := v\<rparr>;
     v \<leftarrow> apply_json_bool json ''cameraRedirect'' (sc_camera_redirect s);
     let s = s\<lparr>sc_camera_redirect := v\<rparr>;
     v \<leftarrow> apply_json_bool json ''audioInputRedirect'' (sc_audio_input_redirect s);
     Some (s\<lparr>sc_audio_input_redirect := v\<rparr>) }"

definition apply_audio_codec_json :: "NativeSettings \<Rightarrow> string \<Rightarrow> NativeSettings option" where
  "apply_audio_codec_json settings json =
     (case native_json_read_string json ''audioCodec'' 16 of
        JAbsent \<Rightarrow> Some settings
      | JRead codec \<Rightarrow>
          if codec = ''auto'' \<or> codec = ''opus'' then Some (settings\<lparr>ns_audio_codec := NATIVE_AUDIO_CODEC_AUTO\<rparr>)
          else if codec = ''pcm'' then Some (settings\<lparr>ns_audio_codec := NATIVE_AUDIO_CODEC_PCM\<rparr>)
          else None
      | JInvalid \<Rightarrow> None)"

definition apply_global_json :: "NativeSettings \<Rightarrow> string \<Rightarrow> NativeSettings option" where
  "apply_global_json s json = do {
     v \<leftarrow> apply_json_u16 json ''wheelStep'' 1 120 (ns_wheel_step s);
     let s = s\<lparr>ns_wheel_step := v\<rparr>;
     v \<leftarrow> apply_json_u16 json ''wheelScrollDivisor'' 1 120 (ns_wheel_scroll_divisor s);
     let s = s\<lparr>ns_wheel_scroll_divisor := v\<rparr>;
     s \<leftarrow> apply_audio_codec_json s json;
     v \<leftarrow> apply_json_bool json ''cameraEnabled'' (ns_camera_enabled s);
     let s = s\<lparr>ns_camera_enabled := v\<rparr>;
     v \<leftarrow> apply_json_string json ''cameraDeviceId'' NATIVE_SETTINGS_STRING_MAX (ns_camera_device_id s);
     let s = s\<lparr>ns_camera_device_id := v\<rparr>;
     v \<leftarrow> apply_json_u16 json ''cameraWidth'' NATIVE_CAMERA_MIN_WIDTH NATIVE_CAMERA_MAX_WIDTH (ns_camera_width s);
     let s = s\<lparr>ns_camera_width := v\<rparr>;
     v \<leftarrow> apply_json_u16 json ''cameraHeight'' NATIVE_CAMERA_MIN_HEIGHT NATIVE_CAMERA_MAX_HEIGHT (ns_camera_height s);
     let s = s\<lparr>ns_camera_height := v\<rparr>;
     v \<leftarrow> apply_json_u16 json ''cameraFps'' 1 NATIVE_CAMERA_MAX_FPS (ns_camera_fps s);
     let s = s\<lparr>ns_camera_fps := v\<rparr>;
     v \<leftarrow> apply_json_bool json ''audioInputEnabled'' (ns_audio_input_enabled s);
     let s = s\<lparr>ns_audio_input_enabled := v\<rparr>;
     v \<leftarrow> apply_json_string json ''audioInputDeviceId'' NATIVE_SETTINGS_STRING_MAX (ns_audio_input_device_id s);
     let s = s\<lparr>ns_audio_input_device_id := v\<rparr>;
     v \<leftarrow> apply_json_i16 json ''audioInputGainDb'' (- 12) 18 (ns_audio_input_gain_db s);
     let s = s\<lparr>ns_audio_input_gain_db := v\<rparr>;
     if odd (ns_camera_width s) \<or> odd (ns_camera_height s) then None else Some s }"

section \<open>The sessions array\<close>

text \<open>The rest behind the brace that closes an object, None when the text ends first.\<close>

fun object_end :: "int \<Rightarrow> bool \<Rightarrow> string \<Rightarrow> string option" where
  "object_end depth in_string [] = None"
| "object_end depth in_string (c # p) =
     (if in_string then
        if c = CHR 0x5C \<and> p \<noteq> [] then object_end depth True (tl p)
        else if c = CHR 0x22 then object_end depth False p
        else object_end depth True p
      else if c = CHR 0x22 then object_end depth True p
      else if c = CHR ''{'' then object_end (depth + 1) False p
      else if c = CHR ''}'' then if depth - 1 = 0 then Some p else object_end (depth - 1) False p
      else object_end depth False p)"

lemma object_end_length: "object_end d b p = Some q \<Longrightarrow> length q < length p"
proof (induction d b p rule: object_end.induct)
  case (2 d b c p)
  then show ?case by (force split: if_splits)
qed simp

datatype FoundObject = FoundEnd | FoundMalformed | FoundObject string

function session_object_loop :: "nat \<Rightarrow> nat \<Rightarrow> string \<Rightarrow> FoundObject" where
  "session_object_loop current index p =
     (if ch0 p = CHR '']'' then FoundEnd
      else if ch0 p \<noteq> CHR ''{'' then FoundMalformed
      else case object_end 0 False p of
          None \<Rightarrow> FoundMalformed
        | Some q \<Rightarrow>
          if current = index then FoundObject (take (length p - length q) p)
          else
            let q = native_json_skip_ws q in
            if ch0 q = CHR '','' then session_object_loop (current + 1) index (native_json_skip_ws (tl q))
            else if ch0 q \<noteq> CHR '']'' then FoundMalformed
            else session_object_loop (current + 1) index q)"
  by pat_completeness auto

termination session_object_loop
proof (relation "measure (\<lambda>(current, index, p). length p)", goal_cases)
  case (2 current index p q x)
  from object_end_length [OF 2(3)] show ?case
    using skip_ws_length [of q] skip_ws_length [of "tl (native_json_skip_ws q)"] 2(5) by simp
next
  case (3 current index p q x)
  from object_end_length [OF 3(3)] show ?case using skip_ws_length [of q] 3(5) by simp
qed simp

declare session_object_loop.simps [simp del]

definition find_session_object :: "string \<Rightarrow> nat \<Rightarrow> FoundObject" where
  "find_session_object json index =
     (case native_json_find_value json ''sessions'' of
        None \<Rightarrow> FoundMalformed
      | Some p \<Rightarrow>
        if ch0 p \<noteq> CHR ''['' then FoundMalformed
        else session_object_loop 0 index (native_json_skip_ws (tl p)))"

text \<open>The slot an entry is for: None for a tag that is not known or not readable.\<close>

definition session_slot_from_object :: "string \<Rightarrow> nat \<Rightarrow> nat option" where
  "session_slot_from_object object_json fallback_index =
     (case native_json_read_string object_json ''slot'' 16 of
        JRead slot_name \<Rightarrow>
          List.find (\<lambda>slot. slot_name = native_session_slot_name (int slot)) [0..<NATIVE_SETTINGS_MAX_SESSIONS]
      | JInvalid \<Rightarrow> None
      | JAbsent \<Rightarrow> if fallback_index < NATIVE_SETTINGS_MAX_SESSIONS then Some fallback_index else None)"

lemma session_object_bound:
  "session_object_loop current index p = FoundObject x \<Longrightarrow> current \<le> index \<Longrightarrow> index < current + length p"
proof (induction current index p rule: session_object_loop.induct)
  case (1 current index p)
  note IH = 1(1,2) and res = 1(3)
  show ?case
  proof (cases "object_end 0 False p")
    case None
    then show ?thesis using 1(3) by (subst (asm) session_object_loop.simps) (auto split: if_splits)
  next
    case (Some q)
    have c: "ch0 p \<noteq> CHR '']''" "\<not> ch0 p \<noteq> CHR ''{''"
      using 1(3) by (subst (asm) session_object_loop.simps, auto split: if_splits)+
    then have pos: "0 < length p" by auto
    let ?q = "native_json_skip_ws q"
    have len: "length ?q < length p" using object_end_length [OF Some] skip_ws_length [of q] by simp
    show ?thesis
    proof (cases "current = index")
      case True
      then show ?thesis using pos by simp
    next
      case False
      then have lt: "current + 1 \<le> index" using 1(4) by simp
      have eq: "session_object_loop current index p =
         (if ch0 ?q = CHR '','' then session_object_loop (current + 1) index (native_json_skip_ws (tl ?q))
          else if ch0 ?q \<noteq> CHR '']'' then FoundMalformed
          else session_object_loop (current + 1) index ?q)"
        using False c Some by (subst session_object_loop.simps) (simp add: Let_def)
      consider "ch0 ?q = CHR '',''" | "ch0 ?q = CHR '']''" "ch0 ?q \<noteq> CHR '',''"
        using 1(3) unfolding eq by (auto split: if_splits)
      then show ?thesis
      proof cases
        case 1
        then have "index < current + 1 + length (native_json_skip_ws (tl ?q))"
          using res lt
            IH(1) [OF c Some False refl] unfolding eq by simp
        then show ?thesis using len skip_ws_length [of "tl ?q"] by simp
      next
        case 2
        then have "index < current + 1 + length ?q"
          using res lt
            IH(2) [OF c Some False refl] unfolding eq by simp
        then show ?thesis using len by simp
      qed
    qed
  qed
qed

lemma find_session_bound: "find_session_object json index = FoundObject x \<Longrightarrow> index < length json"
proof -
  assume f: "find_session_object json index = FoundObject x"
  then obtain p where p: "native_json_find_value json ''sessions'' = Some p"
    "session_object_loop 0 index (native_json_skip_ws (tl p)) = FoundObject x"
    by (auto simp: find_session_object_def split: option.splits if_splits)
  from session_object_bound [OF p(2)] find_value_length [OF p(1)] skip_ws_length [of "tl p"]
  show ?thesis by simp
qed

function apply_sessions_array :: "(nat \<Rightarrow> bool) \<Rightarrow> nat \<Rightarrow> NativeSettings \<Rightarrow> string \<Rightarrow> NativeSettings option" where
  "apply_sessions_array alloc index settings json =
     (case find_session_object json index of
        FoundEnd \<Rightarrow> Some settings
      | FoundMalformed \<Rightarrow> None
      | FoundObject object_json \<Rightarrow>
        if \<not> alloc index then None
        else
          case session_slot_from_object object_json index of
            None \<Rightarrow> apply_sessions_array alloc (index + 1) settings json
          | Some slot \<Rightarrow>
            (case apply_session_json (ns_sessions settings ! slot) object_json of
               None \<Rightarrow> None
             | Some session \<Rightarrow>
               apply_sessions_array alloc (index + 1)
                 (settings\<lparr>ns_sessions := (ns_sessions settings)[slot := session]\<rparr>) json))"
  by pat_completeness auto
termination
  by (relation "measure (\<lambda>(alloc, index, settings, json). length json - index)")
    (auto dest: find_session_bound)

declare apply_sessions_array.simps [simp del]

definition rdp_keys :: "string list" where
  "rdp_keys = [''sessions'', ''host'', ''username'', ''password'', ''domain'', ''port'',
     ''fps'', ''desktopWidth'', ''desktopHeight'', ''desktopScaleFactor'', ''wheelStep'',
     ''wheelScrollDivisor'', ''audioCodec'', ''duckTriggers'', ''mixerGainDb'', ''mixerMuted'',
     ''mixerSolo'', ''cameraEnabled'', ''cameraDeviceId'', ''cameraWidth'', ''cameraHeight'',
     ''cameraFps'', ''cameraRedirect'', ''audioInputEnabled'', ''audioInputDeviceId'',
     ''audioInputGainDb'', ''audioInputRedirect'']"

definition native_settings_json_has_rdp_key :: "string \<Rightarrow> bool" where
  "native_settings_json_has_rdp_key json \<longleftrightarrow>
     list_ex (\<lambda>k. native_json_find_value json k \<noteq> None) rdp_keys \<or>
     (case native_json_find_value json ''name'' of None \<Rightarrow> False | Some v \<Rightarrow> ch0 v = CHR 0x22)"

text \<open>The verdict and the settings afterwards: they change only when all of the document was read.\<close>

definition native_settings_apply_json :: "(nat \<Rightarrow> bool) \<Rightarrow> NativeSettings \<Rightarrow> string \<Rightarrow> bool \<times> NativeSettings" where
  "native_settings_apply_json alloc settings json =
     (if \<not> native_json_validate_object json then (False, settings)
      else
        let updated = settings;
            sessions_value = native_json_find_value json ''sessions'' in
        case sessions_value of
          Some v \<Rightarrow>
            if ch0 v \<noteq> CHR ''['' then (False, settings)
            else
              (case (case apply_sessions_array alloc 0 updated json of
                       None \<Rightarrow> None | Some updated \<Rightarrow> apply_global_json updated json) of
                 None \<Rightarrow> (False, settings)
               | Some updated \<Rightarrow> (True, updated))
        | None \<Rightarrow>
            let green = nat NATIVE_SESSION_SLOT_GREEN in
            (case apply_session_json (ns_sessions updated ! green) json of
               None \<Rightarrow> (False, settings)
             | Some session \<Rightarrow>
               (case apply_global_json (updated\<lparr>ns_sessions := (ns_sessions updated)[green := session]\<rparr>) json of
                  None \<Rightarrow> (False, settings)
                | Some updated \<Rightarrow> (True, updated))))"

end
