(* ===== verification/Json_Text.thy ===== *)
theory Json_Text
  imports Native_Json
begin

text \<open>
  Text the JSON scanner reads back: the string writer of \<open>native/src/settings_json.c\<close>, numbers as
  \<open>printf\<close> prints them, and objects and arrays laid out from them.  The lemmas say what the
  scanner of \<open>native/src/native_json.c\<close> does on such text: a written string reads back, a value
  ends where it was written to end, a member lookup finds the value written for the key.
\<close>

section \<open>The string writer\<close>

definition hex_digit :: "nat \<Rightarrow> char" where
  "hex_digit n = ''0123456789abcdef'' ! n"

text \<open>One character; the default branch writes \<open>\u%04x\<close> for a control character.\<close>

definition write_char :: "char \<Rightarrow> string" where
  "write_char c =
     (if c = CHR 0x22 then [CHR 0x5C, CHR 0x22]
      else if c = CHR 0x5C then [CHR 0x5C, CHR 0x5C]
      else if c = CHR 0x08 then [CHR 0x5C, CHR ''b'']
      else if c = CHR 0x0C then [CHR 0x5C, CHR ''f'']
      else if c = CHR 0x0A then [CHR 0x5C, CHR ''n'']
      else if c = CHR 0x0D then [CHR 0x5C, CHR ''r'']
      else if c = CHR 0x09 then [CHR 0x5C, CHR ''t'']
      else if code c < 0x20 then
        [CHR 0x5C, CHR ''u'', CHR ''0'', CHR ''0'', hex_digit (code c div 16), hex_digit (code c mod 16)]
      else [c])"

definition write_json_string :: "string \<Rightarrow> string" where
  "write_json_string value = [CHR 0x22] @ concat (map write_char value) @ [CHR 0x22]"

text \<open>\<open>%u\<close> and \<open>%d\<close>.\<close>

fun dec :: "nat \<Rightarrow> string" where
  "dec n = (if n < 10 then [''0123456789'' ! n] else dec (n div 10) @ [''0123456789'' ! (n mod 10)])"

declare dec.simps [simp del]

definition idec :: "int \<Rightarrow> string" where
  "idec i = (if i < 0 then CHR ''-'' # dec (nat (- i)) else dec (nat i))"

definition jbool :: "bool \<Rightarrow> string" where
  "jbool b = (if b then ''true'' else ''false'')"

section \<open>Strings read back\<close>

lemma code_less: "code c < 256"
  by (simp add: code_def)

lemma char_of_code: "char_of (code c) = c"
  by (simp add: code_def)

lemma read_control_hex:
  assumes "0 < n" "n < 32"
  shows "read_hex4 (CHR ''0'' # CHR ''0'' # hex_digit (n div 16) # hex_digit (n mod 16) # r) =
     Some (word_of_nat n, r)"
proof -
  have four: "(4 :: nat) = Suc (Suc (Suc (Suc 0)))" by simp
  have "below 32 n" using assms(2) by (simp add: below_iff)
  with assms(1) show ?thesis
    unfolding read_hex4_def four
    by (simp add: below_simps) (elim disjE; simp add: hex_digit_def hex_value_def code_def)
qed

lemma read_control:
  assumes "0 < n" "n < 32"
  shows "read_unicode (CHR ''0'' # CHR ''0'' # hex_digit (n div 16) # hex_digit (n mod 16) # r) =
     Some ([char_of n], r)"
proof -
  let ?w = "word_of_nat n :: u32"
  have u: "unat ?w = n" "unat (ucast ?w :: u8) = n"
    using assms by (simp_all add: unat_of_nat unsigned_ucast_eq take_bit_nat_eq_self_iff)
  have "?w \<noteq> 0" "\<not> ?w \<ge> 0xd800" "\<not> ?w \<ge> 0xdc00" "?w < 0x80"
    using u(1) assms by (auto simp: word_le_nat_alt word_less_nat_alt)
  then show ?thesis using u by (simp add: read_unicode_def read_control_hex [OF assms] utf8_def byte_def)
qed

lemma write_char_read:
  assumes "c \<noteq> CHR 0x00"
  shows "\<exists>x t. write_char c @ r = x # t \<and> x \<noteq> CHR 0x22 \<and> \<not> code x < 0x20 \<and>
    (if x = CHR 0x5C then read_escape t else Some ([x], t)) = Some ([c], r)"
proof -
  consider (special) "c \<in> {CHR 0x22, CHR 0x5C, CHR 0x08, CHR 0x0C, CHR 0x0A, CHR 0x0D, CHR 0x09}"
    | (control) "c \<notin> {CHR 0x22, CHR 0x5C, CHR 0x08, CHR 0x0C, CHR 0x0A, CHR 0x0D, CHR 0x09}" "code c < 0x20"
    | (plain) "c \<notin> {CHR 0x22, CHR 0x5C, CHR 0x08, CHR 0x0C, CHR 0x0A, CHR 0x0D, CHR 0x09}" "\<not> code c < 0x20"
    by blast
  then show ?thesis
  proof cases
    case special
    then show ?thesis by (auto simp: write_char_def read_escape_def code_def)
  next
    case control
    have "code c \<noteq> code (CHR 0x00)" using assms char_of_code by metis
    then have "0 < code c" by (simp add: code_def)
    from read_control [OF this, of r] control show ?thesis
      by (simp add: write_char_def read_escape_def char_of_code) (simp add: code_def)
  next
    case plain
    then show ?thesis by (simp add: write_char_def)
  qed
qed

lemma read_string_loop_step:
  assumes "p \<noteq> []" "ch0 p \<noteq> CHR 0x22" "\<not> code (ch0 p) < 0x20"
    and "(if ch0 p = CHR 0x5C then read_escape (tl p) else Some ([ch0 p], tl p)) = Some (b, q)"
    and "\<not> (case cap of None \<Rightarrow> False | Some n \<Rightarrow> length w \<ge> n \<or> length b \<ge> n - length w)"
  shows "read_string_loop cap w p = read_string_loop cap (w @ b) q"
  by (subst read_string_loop.simps) (simp only: assms if_False simp_thms option.case prod.case)

lemma loop_writes:
  assumes "CHR 0x00 \<notin> set s" "case cap of None \<Rightarrow> True | Some n \<Rightarrow> length w + length s < n"
  shows "read_string_loop cap w (concat (map write_char s) @ CHR 0x22 # r) = Some (w @ s, CHR 0x22 # r)"
  using assms
proof (induction s arbitrary: w)
  case Nil
  then show ?case by (subst read_string_loop.simps) simp
next
  case (Cons c s)
  have c: "c \<noteq> CHR 0x00" using Cons.prems(1) by auto
  let ?r = "concat (map write_char s) @ CHR 0x22 # r"
  obtain x t where x: "write_char c @ ?r = x # t" "x \<noteq> CHR 0x22" "\<not> code x < 0x20"
    "(if x = CHR 0x5C then read_escape t else Some ([x], t)) = Some ([c], ?r)"
    using write_char_read [OF c, of ?r] by blast
  have room: "\<not> (case cap of None \<Rightarrow> False | Some n \<Rightarrow> length w \<ge> n \<or> length [c] \<ge> n - length w)"
    using Cons.prems(2) by (auto split: option.splits)
  have "read_string_loop cap w (x # t) = read_string_loop cap (w @ [c]) ?r"
    by (rule read_string_loop_step) (use x room in \<open>auto split: if_splits\<close>)
  also have "\<dots> = Some ((w @ [c]) @ s, CHR 0x22 # r)"
    using Cons.prems by (intro Cons.IH) (auto split: option.splits)
  finally show ?case using x(1) by simp
qed

lemma read_written:
  assumes "CHR 0x00 \<notin> set s" "case cap of None \<Rightarrow> True | Some n \<Rightarrow> length s < n"
  shows "read_string cap (write_json_string s @ r) = Some (s, r)"
  using loop_writes [where s = s and cap = cap and w = "[]"] assms by (auto simp: read_string_def write_json_string_def split: option.splits)

lemma write_json_ch0 [simp]: "ch0 (write_json_string s @ r) = CHR 0x22"
  by (simp add: write_json_string_def)

section \<open>Tokens\<close>

text \<open>What may follow a written value: blanks, and then a separator or a closing bracket.\<close>

definition vend :: "string \<Rightarrow> bool" where
  "vend r \<longleftrightarrow> (\<exists>w c t. r = w @ c # t \<and> list_all (\<lambda>x. x = CHR '' '' \<or> x = CHR 0x0A) w \<and>
     c \<in> {CHR '','', CHR ''}'', CHR '']''})"

lemma skip_blanks: "list_all (\<lambda>x. x = CHR '' '' \<or> x = CHR 0x0A) w \<Longrightarrow> native_json_skip_ws (w @ r) = native_json_skip_ws r"
  by (induction w) (auto simp: ws_def)

lemma vend_scalar: "vend r \<Longrightarrow> scalar_end r"
  by (auto simp: vend_def scalar_end_def skip_blanks ws_def)

lemma vend_ch0: "vend r \<Longrightarrow> ch0 r \<in> {CHR '' '', CHR 0x0A, CHR '','', CHR ''}'', CHR '']''}"
proof -
  assume "vend r"
  then obtain w c t where "r = w @ c # t" "list_all (\<lambda>x. x = CHR '' '' \<or> x = CHR 0x0A) w"
    "c \<in> {CHR '','', CHR ''}'', CHR '']''}" by (auto simp: vend_def)
  then show ?thesis by (cases w) auto
qed

lemma vend_stop: "vend r \<Longrightarrow> \<not> digit (ch0 r) \<and> ch0 r \<noteq> CHR ''.'' \<and> ch0 r \<noteq> CHR ''e'' \<and> ch0 r \<noteq> CHR ''E''"
  using vend_ch0 [of r] by (auto simp: digit_def code_def)

text \<open>A value at any depth: it does not begin with a blank, and it ends where it was written to end.\<close>

definition jtok :: "nat \<Rightarrow> string \<Rightarrow> bool" where
  "jtok n v \<longleftrightarrow> (\<forall>r. \<not> ws (ch0 (v @ r))) \<and> v \<noteq> [] \<and> (\<forall>r. vend r \<longrightarrow> value_end n (v @ r) = Some r)"

lemma skip_ws_id: "\<not> ws (ch0 p) \<Longrightarrow> native_json_skip_ws p = p"
  by (cases p) auto

lemma jtok_string: "CHR 0x00 \<notin> set s \<Longrightarrow> jtok (Suc n) (write_json_string s)"
proof -
  assume "CHR 0x00 \<notin> set s"
  then have r: "read_string None (write_json_string s @ r) = Some (s, r)" for r by (simp add: read_written)
  have nws: "\<not> ws (ch0 (write_json_string s @ r))" for r by (simp add: ws_def)
  show ?thesis unfolding jtok_def
  proof (intro conjI allI impI)
    show "write_json_string s \<noteq> []" by (simp add: write_json_string_def)
    show "value_end (Suc n) (write_json_string s @ x) = Some x" for x
      by (simp add: skip_ws_id [OF nws] r)
  qed (rule nws)
qed

lemma nth_digits: "n < 10 \<Longrightarrow> digit (''0123456789'' ! n) \<and> code (''0123456789'' ! n) = 48 + n"
proof -
  assume "n < 10"
  then have "below 10 n" by (simp add: below_iff)
  then show ?thesis by (simp add: below_simps) (elim disjE; simp add: digit_def code_def)
qed

lemma dec_digits: "list_all digit (dec n) \<and> dec n \<noteq> []"
proof (induction n rule: less_induct)
  case (less n)
  show ?case
  proof (cases "n < 10")
    case True
    then show ?thesis using nth_digits [OF True] by (subst (1 2) dec.simps) simp
  next
    case False
    then show ?thesis using less [of "n div 10"] nth_digits [of "n mod 10"] by (subst (1 2) dec.simps) simp
  qed
qed

lemma dec_lead: "0 < n \<Longrightarrow> ch0 (dec n) \<noteq> CHR ''0''"
proof (induction n rule: less_induct)
  case (less n)
  show ?case
  proof (cases "n < 10")
    case True
    have "code (''0123456789'' ! n) \<noteq> code (CHR ''0'')" using nth_digits [OF True] less(2) by (simp add: code_def)
    then have "''0123456789'' ! n \<noteq> CHR ''0''" by metis
    then show ?thesis using True by (subst dec.simps) simp
  next
    case False
    have "ch0 (dec n) = ch0 (dec (n div 10))"
      using False dec_digits [of "n div 10"] by (subst dec.simps) (cases "dec (n div 10)"; simp)
    then show ?thesis using less(1) [of "n div 10"] False by simp
  qed
qed

lemma skip_all_digits: "list_all digit ds \<Longrightarrow> \<not> digit (ch0 r) \<Longrightarrow> skip_digits (ds @ r) = r"
proof (induction ds)
  case Nil
  then show ?case by (cases r) auto
qed simp

lemma digits_value_append:
  "list_all digit ds \<Longrightarrow> digits_value v (ds @ r) = digits_value (digits_value v ds) r"
  by (induction ds arbitrary: v) auto

lemma digits_value_dec: "digits_value 0 (dec n) = n"
proof (induction n rule: less_induct)
  case (less n)
  have d: "digits_value v [''0123456789'' ! k] = 10 * v + k" if "k < 10" for v k
    using nth_digits [OF that] by (simp add: code_def)
  show ?case
  proof (cases "n < 10")
    case True
    then show ?thesis using d [OF True, of 0] by (subst dec.simps) simp
  next
    case False
    then have "digits_value 0 (dec n) = digits_value (digits_value 0 (dec (n div 10))) [''0123456789'' ! (n mod 10)]"
      using dec_digits by (subst dec.simps) (simp add: digits_value_append)
    also have "\<dots> = 10 * (n div 10) + n mod 10" using less [of "n div 10"] False d [of "n mod 10"] by simp
    finally show ?thesis by simp
  qed
qed

lemma digits_value_stop: "\<not> digit (ch0 r) \<Longrightarrow> digits_value v r = v"
  by (cases r) auto

lemma value_dec: "\<not> digit (ch0 r) \<Longrightarrow> digits_value 0 (dec n @ r) = n"
  using dec_digits [of n] by (simp add: digits_value_append digits_value_dec digits_value_stop)

lemma dec_cases: obtains "n = 0" "dec n = ''0''"
  | c ds where "dec n = c # ds" "digit c" "c \<noteq> CHR ''0''" "list_all digit ds"
proof (cases n)
  case 0
  then show ?thesis using that(1) by (simp add: dec.simps)
next
  case (Suc m)
  then show ?thesis using that(2) dec_digits [of n] dec_lead [of n] by (cases "dec n") auto
qed

lemma digit_codes: "digit c \<Longrightarrow> 48 \<le> code c \<and> code c \<le> 57"
  by (simp add: digit_def code_def)

lemma digit_not:
  "digit c \<Longrightarrow> \<not> ws c \<and> c \<notin> {CHR ''-'', CHR 0x22, CHR ''{'', CHR ''['', CHR ''t'', CHR ''f'', CHR ''n'', CHR ''}''}"
  by (auto simp: digit_def code_def ws_def)

lemma number_end_dec: "vend r \<Longrightarrow> number_end (dec n @ r) = Some r"
proof (cases rule: dec_cases [of n])
  case 1
  assume "vend r"
  then show ?thesis using 1 vend_stop [of r] by (simp add: number_end_def Let_def)
next
  case (2 c ds)
  assume r: "vend r"
  have zero: "char_of (48 :: nat) = CHR ''0''" using char_of_code [of "CHR ''0''"] by (simp add: code_def)
  have "code c \<noteq> 48"
  proof
    assume "code c = 48"
    then have "c = char_of (48 :: nat)" using char_of_code [of c] by metis
    then show False using 2(3) zero by simp
  qed
  then have c: "\<not> code c < code (CHR ''1'')" "\<not> code c > code (CHR ''9'')" "c \<noteq> CHR ''-''"
    using digit_codes [OF 2(2)] digit_not [OF 2(2)] by (auto simp: code_def)
  have "skip_digits (c # ds @ r) = r" using skip_all_digits [of "c # ds" r] 2 vend_stop [OF r] by simp
  then show ?thesis using 2 c vend_stop [OF r] by (simp add: number_end_def Let_def)
qed

lemma dec_ch0: "digit (ch0 (dec n @ r))"
  using dec_digits [of n] by (cases "dec n") auto

lemma literal_end_digit: "c \<notin> {CHR ''t'', CHR ''f'', CHR ''n''} \<Longrightarrow> literal_end (c # p) = None"
  by (auto simp: literal_end_def take_Cons')

lemma jtok_dec: "jtok (Suc n) (dec k)"
proof -
  have d: "digit (ch0 (dec k @ r))" for r by (rule dec_ch0)
  have l: "literal_end (dec k @ r) = None" for r
    using literal_end_digit [of "ch0 (dec k @ r)" "tl (dec k @ r)"] digit_not [OF d [of r]] dec_digits [of k]
    by (cases "dec k") auto
  show ?thesis unfolding jtok_def
  proof (intro conjI allI impI)
    show "\<not> ws (ch0 (dec k @ r))" for r using digit_not [OF d] by blast
    show "dec k \<noteq> []" using dec_digits by blast
    show "value_end (Suc n) (dec k @ r) = Some r" if "vend r" for r
      using number_end_dec [OF that] l [of r] digit_not [OF d [of r]] by (simp add: skip_ws_id Let_def)
  qed
qed

lemma jtok_idec: "jtok (Suc n) (idec i)"
proof (cases "i < 0")
  case False
  then show ?thesis using jtok_dec by (simp add: idec_def)
next
  case True
  let ?v = "CHR ''-'' # dec (nat (- i))"
  have "number_end (?v @ r) = Some r" if "vend r" for r
  proof -
    have "ch0 (dec (nat (- i)) @ r) \<noteq> CHR ''-''" using digit_not [OF dec_ch0 [of "nat (- i)" r]] by blast
    then have "number_end (?v @ r) = number_end (dec (nat (- i)) @ r)" by (simp add: number_end_def Let_def)
    then show ?thesis using number_end_dec [OF that] by simp
  qed
  then show ?thesis
    using True by (auto simp: jtok_def idec_def ws_def Let_def literal_end_def)
qed

lemma jtok_bool: "jtok (Suc n) (jbool b)"
  by (cases b) (auto simp: jtok_def jbool_def ws_def Let_def literal_end_def)

text \<open>Reading the scalars back.\<close>

lemma integer_end_dec: "vend r \<Longrightarrow> integer_end (dec n @ r) neg"
proof (cases rule: dec_cases [of n])
  case 1
  assume "vend r"
  then show ?thesis using 1 vend_stop [of r] vend_scalar [of r]
    by (cases r) (auto simp: integer_end_def Let_def digit_def code_def)
next
  case (2 c ds)
  assume r: "vend r"
  have "skip_digits (c # ds @ r) = r" using skip_all_digits [of "c # ds" r] 2 vend_stop [OF r] by simp
  then show ?thesis using 2 digit_not [OF 2(2)] vend_scalar [OF r] by (simp add: integer_end_def Let_def)
qed

lemma strtoul_dec: "vend r \<Longrightarrow> n < 2 ^ 32 \<Longrightarrow> strtoul (dec n @ r) = Some n"
  using value_dec [of r n] vend_stop [of r] by (simp add: strtoul_def)

lemma integer_end_idec: "vend r \<Longrightarrow> integer_end (idec i @ r) True"
proof (cases "i < 0")
  case True
  assume r: "vend r"
  have "ch0 (dec (nat (- i)) @ r) \<noteq> CHR ''-''" using digit_not [OF dec_ch0 [of "nat (- i)" r]] by blast
  then show ?thesis using integer_end_dec [OF r, of "nat (- i)" True] True
    by (simp add: integer_end_def idec_def)
qed (simp add: idec_def integer_end_dec)

lemma strtol_idec: "vend r \<Longrightarrow> - (2 ^ 31) \<le> i \<Longrightarrow> i < 2 ^ 31 \<Longrightarrow> strtol (idec i @ r) = Some i"
proof (cases "i < 0")
  case True
  assume "vend r" "- (2 ^ 31) \<le> i" "i < 2 ^ 31"
  then show ?thesis using True value_dec [of r "nat (- i)"] vend_stop [of r]
    by (simp add: strtol_def idec_def)
next
  case False
  assume "vend r" "- (2 ^ 31) \<le> i" "i < 2 ^ 31"
  then show ?thesis using False value_dec [of r "nat i"] vend_stop [of r] digit_not [OF dec_ch0 [of "nat i" r]]
    by (simp add: strtol_def idec_def)
qed

section \<open>Objects\<close>

text \<open>Members \<open>"key": value\<close>, with the same separator between any two of them.\<close>

definition fld :: "string \<Rightarrow> string \<Rightarrow> string" where
  "fld k v = write_json_string k @ '': '' @ v"

fun ftext :: "string \<Rightarrow> (string \<times> string) list \<Rightarrow> string \<Rightarrow> string" where
  "ftext sep [] tail = tail"
| "ftext sep [(k, v)] tail = fld k v @ tail"
| "ftext sep ((k, v) # f # fs) tail = fld k v @ sep @ ftext sep (f # fs) tail"

definition key_ok :: "string \<Rightarrow> bool" where
  "key_ok k \<longleftrightarrow> CHR 0x00 \<notin> set k \<and> length k < 64"

definition sep_ok :: "string \<Rightarrow> bool" where
  "sep_ok sep \<longleftrightarrow> (\<exists>w. sep = CHR '','' # w \<and> list_all (\<lambda>x. x = CHR '' '' \<or> x = CHR 0x0A) w)"

lemma sep_vend: "sep_ok sep \<Longrightarrow> vend (sep @ r)"
  unfolding vend_def sep_ok_def by (elim exE conjE) (intro exI [of _ "[]"], auto)

lemma fld_read:
  assumes "key_ok k"
  shows "read_string (Some 64) (fld k v @ r) = Some (k, '': '' @ v @ r)"
    "read_string None (fld k v @ r) = Some (k, '': '' @ v @ r)"
  using assms by (simp_all add: fld_def key_ok_def read_written)

lemma fld_start: "\<not> ws (ch0 (v @ r)) \<Longrightarrow> member_start ('': '' @ v @ r) = Some (v @ r)"
  by (simp add: member_start_def ws_def Let_def skip_ws_id)

lemma fld_value: "key_ok k \<Longrightarrow> member_value True (fld k v @ r) = Some (CHR '' '' # v @ r)"
  using fld_read(2) [of k v r] by (simp add: member_value_def ws_def Let_def)

lemma ftext_Cons: "fs \<noteq> [] \<Longrightarrow> ftext sep ((k, v) # fs) tail = fld k v @ sep @ ftext sep fs tail"
  by (cases fs) auto

lemma ftext_skip: "fs \<noteq> [] \<Longrightarrow> native_json_skip_ws (ftext sep fs tail) = ftext sep fs tail"
proof (cases fs)
  case (Cons f fs')
  have "ch0 (ftext sep fs tail) = CHR 0x22"
    using Cons by (cases f; cases fs') (auto simp: fld_def)
  then show ?thesis by (intro skip_ws_id) (simp add: ws_def)
qed simp

text \<open>The lookup finds the value of the first member with the key.\<close>

lemma find_member_ftext:
  assumes "sep_ok sep" "vend tail" "ch0 (native_json_skip_ws tail) \<noteq> CHR '',''"
    and "\<forall>(k, v) \<in> set fs. key_ok k \<and> jtok 33 v" "fs \<noteq> []"
  shows "case map_of fs key of
      Some v \<Rightarrow> (\<exists>r. find_member key (ftext sep fs tail) = Some (v @ r) \<and> vend r)
    | None \<Rightarrow> find_member key (ftext sep fs tail) = None"
  using assms(4,5)
proof (induction fs)
  case (Cons f fs)
  obtain k v where f: "f = (k, v)" by (cases f)
  define more where "more = (if fs = [] then tail else sep @ ftext sep fs tail)"
  have txtq: "ftext sep (f # fs) tail = fld k v @ more"
    by (cases fs) (simp_all add: f more_def)
  have kv: "key_ok k" "jtok 33 v" using Cons.prems f by auto
  have vr: "vend more" using assms(1,2) by (simp add: more_def sep_vend)
  have nws: "\<not> ws (ch0 (v @ more))" using kv(2) by (simp add: jtok_def)
  have ve: "value_end 33 (v @ more) = Some more" using kv(2) vr by (simp add: jtok_def)
  have step: "find_member key (ftext sep (f # fs) tail) =
      (if k = key then Some (v @ more)
       else if ch0 (native_json_skip_ws more) \<noteq> CHR '','' then None
       else find_member key (native_json_skip_ws (tl (native_json_skip_ws more))))"
    unfolding txtq find_member_step [OF fld_read(1) [OF kv(1)] fld_start [OF nws]] ve by (simp add: Let_def)
  show ?case
  proof (cases "k = key")
    case True
    then show ?thesis using step vr f by auto
  next
    case False
    show ?thesis
    proof (cases "fs = []")
      case True
      then show ?thesis using False step assms(3) f by (simp add: more_def)
    next
      case ne: False
      obtain w where w: "sep = CHR '','' # w" "list_all (\<lambda>x. x = CHR '' '' \<or> x = CHR 0x0A) w"
        using assms(1) by (auto simp: sep_ok_def)
      have "native_json_skip_ws more = CHR '','' # w @ ftext sep fs tail"
        using ne w by (simp add: more_def ws_def)
      then have "find_member key (ftext sep (f # fs) tail) = find_member key (ftext sep fs tail)"
        unfolding step using False skip_blanks [OF w(2), of "ftext sep fs tail"] ftext_skip [OF ne] by simp
      then show ?thesis using Cons.IH [OF _ ne] Cons.prems False f by (auto split: option.splits)
    qed
  qed
qed simp

lemma members_end_ftext:
  assumes "sep_ok sep" "list_all (\<lambda>x. x = CHR '' '' \<or> x = CHR 0x0A) w"
    and "\<forall>(k, v) \<in> set fs. key_ok k \<and> jtok n v" "fs \<noteq> []"
  shows "members_end (value_end n) True (CHR ''}'') (ftext sep fs (w @ CHR ''}'' # r)) = Some r"
  using assms(3,4)
proof (induction fs)
  case (Cons f fs)
  obtain k v where f: "f = (k, v)" by (cases f)
  let ?tail = "w @ CHR ''}'' # r"
  define more where "more = (if fs = [] then ?tail else sep @ ftext sep fs ?tail)"
  have txtq: "ftext sep (f # fs) ?tail = fld k v @ more"
    by (cases fs) (simp_all add: f more_def)
  have kv: "key_ok k" "jtok n v" using Cons.prems f by auto
  have vt: "vend ?tail" using assms(2) by (auto simp: vend_def)
  then have vr: "vend more" using assms(1) by (simp add: more_def sep_vend)
  have nws: "\<not> ws (ch0 (v @ more))" and ve: "value_end n (v @ more) = Some more"
    using kv(2) vr by (simp_all add: jtok_def)
  have n: "n \<noteq> 0" using ve by (cases n) auto
  have ve': "value_end n (CHR '' '' # v @ more) = Some more"
    using ve n nws by (cases n) (simp_all add: ws_def skip_ws_id)
  have len: "length more < length (CHR '' '' # v @ more)" by simp
  have step: "members_end (value_end n) True (CHR ''}'') (ftext sep (f # fs) ?tail) =
     (let q = native_json_skip_ws more in
      if ch0 q = CHR ''}'' then Some (tl q)
      else if ch0 q \<noteq> CHR '','' then None
      else members_end (value_end n) True (CHR ''}'') (native_json_skip_ws (tl q)))"
    unfolding txtq by (rule members_end_step [where elem = "value_end n", OF fld_value [OF kv(1)] ve' len])
  show ?case
  proof (cases "fs = []")
    case True
    have "native_json_skip_ws ?tail = CHR ''}'' # r" using skip_blanks [OF assms(2)] by (simp add: ws_def)
    then show ?thesis unfolding step using True by (simp add: more_def Let_def)
  next
    case ne: False
    obtain u where u: "sep = CHR '','' # u" "list_all (\<lambda>x. x = CHR '' '' \<or> x = CHR 0x0A) u"
      using assms(1) by (auto simp: sep_ok_def)
    have "native_json_skip_ws more = CHR '','' # u @ ftext sep fs ?tail"
      using ne u by (simp add: more_def ws_def)
    then show ?thesis
      unfolding step using Cons.IH [OF _ ne] Cons.prems skip_blanks [OF u(2), of "ftext sep fs ?tail"]
        ftext_skip [OF ne] by (simp add: Let_def)
  qed
qed simp

definition obj_text :: "string \<Rightarrow> string \<Rightarrow> string \<Rightarrow> (string \<times> string) list \<Rightarrow> string" where
  "obj_text w0 sep w1 fs = CHR ''{'' # w0 @ ftext sep fs (w1 @ ''}'')"

definition blank :: "string \<Rightarrow> bool" where
  "blank w \<longleftrightarrow> list_all (\<lambda>x. x = CHR '' '' \<or> x = CHR 0x0A) w"

lemma ftext_append: "ftext sep fs (t @ r) = ftext sep fs t @ r"
proof (induction fs)
  case (Cons f fs)
  then show ?case by (cases f; cases fs) simp_all
qed simp

lemma ftext_ch0: "fs \<noteq> [] \<Longrightarrow> ch0 (ftext sep fs tail) = CHR 0x22"
proof (cases fs)
  case (Cons f fs')
  then show ?thesis by (cases f; cases fs') (auto simp: fld_def)
qed simp

lemma object_value_end:
  assumes "blank w0" "blank w1" "sep_ok sep" "\<forall>(k, v) \<in> set fs. key_ok k \<and> jtok n v" "fs \<noteq> []"
  shows "value_end (Suc n) (obj_text w0 sep w1 fs @ r) = Some r"
proof -
  have "native_json_skip_ws (w0 @ ftext sep fs (w1 @ CHR ''}'' # r)) = ftext sep fs (w1 @ CHR ''}'' # r)"
    using assms(1,5) by (simp add: blank_def skip_blanks ftext_skip)
  then show ?thesis
    using members_end_ftext [OF assms(3) _ assms(4,5), of w1 r] assms(2) ftext_ch0 [OF assms(5)]
    by (simp add: obj_text_def ws_def Let_def blank_def flip: ftext_append)
qed

lemma jtok_object:
  assumes "blank w0" "blank w1" "sep_ok sep" "\<forall>(k, v) \<in> set fs. key_ok k \<and> jtok n v" "fs \<noteq> []"
  shows "jtok (Suc n) (obj_text w0 sep w1 fs)"
  using object_value_end [OF assms] by (simp add: jtok_def) (simp add: obj_text_def ws_def)

text \<open>Lookup in a written object.\<close>

lemma find_value_object:
  assumes "blank w0" "blank w1" "sep_ok sep" "\<forall>(k, v) \<in> set fs. key_ok k \<and> jtok 33 v" "fs \<noteq> []"
  shows "case map_of fs key of
      Some v \<Rightarrow> (\<exists>r. native_json_find_value (obj_text w0 sep w1 fs @ x) key = Some (v @ r) \<and> vend r)
    | None \<Rightarrow> native_json_find_value (obj_text w0 sep w1 fs @ x) key = None"
proof -
  let ?tail = "w1 @ CHR ''}'' # x"
  have "vend ?tail" using assms(2) by (auto simp: vend_def blank_def)
  moreover have "ch0 (native_json_skip_ws ?tail) \<noteq> CHR '',''"
    using assms(2) by (simp add: blank_def skip_blanks ws_def)
  ultimately have "case map_of fs key of
      Some v \<Rightarrow> (\<exists>r. find_member key (ftext sep fs ?tail) = Some (v @ r) \<and> vend r)
    | None \<Rightarrow> find_member key (ftext sep fs ?tail) = None"
    using find_member_ftext [OF assms(3)] assms(4,5) by blast
  moreover have "native_json_find_value (obj_text w0 sep w1 fs @ x) key = find_member key (ftext sep fs ?tail)"
    using assms(1) by (simp add: native_json_find_value_def obj_text_def ws_def Let_def blank_def skip_blanks
        ftext_skip [OF assms(5)] flip: ftext_append)
  ultimately show ?thesis by (simp only:)
qed

section \<open>Arrays\<close>

fun atext :: "string \<Rightarrow> string list \<Rightarrow> string \<Rightarrow> string" where
  "atext sep [] tail = tail"
| "atext sep [v] tail = v @ tail"
| "atext sep (v # u # vs) tail = v @ sep @ atext sep (u # vs) tail"

definition arr_text :: "string \<Rightarrow> string \<Rightarrow> string \<Rightarrow> string list \<Rightarrow> string" where
  "arr_text w0 sep w1 vs = CHR ''['' # w0 @ atext sep vs (w1 @ '']'')"

lemma atext_append: "atext sep vs (t @ r) = atext sep vs t @ r"
proof (induction vs)
  case (Cons v vs)
  then show ?case by (cases vs) simp_all
qed simp

lemma atext_ch0: "\<forall>v \<in> set vs. ch0 v = CHR ''{'' \<Longrightarrow> vs \<noteq> [] \<Longrightarrow> ch0 (atext sep vs tail) = CHR ''{''"
proof (cases vs)
  case (Cons v vs')
  assume "\<forall>v \<in> set vs. ch0 v = CHR ''{''"
  then show ?thesis using Cons by (cases v; cases vs') auto
qed simp

lemma atext_skip:
  "\<forall>v \<in> set vs. ch0 v = CHR ''{'' \<Longrightarrow> vs \<noteq> [] \<Longrightarrow> native_json_skip_ws (atext sep vs tail) = atext sep vs tail"
  by (rule skip_ws_id) (simp add: atext_ch0 ws_def)

lemma members_end_atext:
  assumes "sep_ok sep" "blank w" "\<forall>v \<in> set vs. jtok n v \<and> ch0 v = CHR ''{''" "vs \<noteq> []"
  shows "members_end (value_end n) False (CHR '']'') (atext sep vs (w @ CHR '']'' # r)) = Some r"
  using assms(3,4)
proof (induction vs)
  case (Cons v vs)
  let ?tail = "w @ CHR '']'' # r"
  define more where "more = (if vs = [] then ?tail else sep @ atext sep vs ?tail)"
  have txtq: "atext sep (v # vs) ?tail = v @ more" by (cases vs) (simp_all add: more_def)
  have v: "jtok n v" using Cons.prems by simp
  have "vend ?tail" using assms(2) by (auto simp: vend_def blank_def)
  then have vr: "vend more" using assms(1) by (simp add: more_def sep_vend)
  have ve: "value_end n (v @ more) = Some more" and len: "length more < length (v @ more)"
    using v vr by (simp_all add: jtok_def)
  have mv: "member_value False (v @ more) = Some (v @ more)" by (simp add: member_value_def)
  have step: "members_end (value_end n) False (CHR '']'') (atext sep (v # vs) ?tail) =
     (let q = native_json_skip_ws more in
      if ch0 q = CHR '']'' then Some (tl q)
      else if ch0 q \<noteq> CHR '','' then None
      else members_end (value_end n) False (CHR '']'') (native_json_skip_ws (tl q)))"
    unfolding txtq by (rule members_end_step [where elem = "value_end n", OF mv ve len])
  show ?case
  proof (cases "vs = []")
    case True
    have "native_json_skip_ws ?tail = CHR '']'' # r" using assms(2) by (simp add: blank_def skip_blanks ws_def)
    then show ?thesis unfolding step using True by (simp add: more_def Let_def)
  next
    case ne: False
    obtain u where u: "sep = CHR '','' # u" "list_all (\<lambda>x. x = CHR '' '' \<or> x = CHR 0x0A) u"
      using assms(1) by (auto simp: sep_ok_def)
    have "native_json_skip_ws more = CHR '','' # u @ atext sep vs ?tail"
      using ne u by (simp add: more_def ws_def)
    then show ?thesis
      unfolding step using Cons.IH [OF _ ne] Cons.prems skip_blanks [OF u(2), of "atext sep vs ?tail"]
        atext_skip [OF _ ne] by (simp add: Let_def)
  qed
qed simp

lemma jtok_array:
  assumes "blank w0" "blank w1" "sep_ok sep" "\<forall>v \<in> set vs. jtok n v \<and> ch0 v = CHR ''{''" "vs \<noteq> []"
  shows "jtok (Suc n) (arr_text w0 sep w1 vs)"
proof -
  have ne: "\<forall>v \<in> set vs. ch0 v = CHR ''{''" using assms(4) by blast
  have "value_end (Suc n) (arr_text w0 sep w1 vs @ r) = Some r" for r
  proof -
    have "native_json_skip_ws (w0 @ atext sep vs (w1 @ CHR '']'' # r)) = atext sep vs (w1 @ CHR '']'' # r)"
      using assms(1,5) ne by (simp add: blank_def skip_blanks atext_skip)
    then show ?thesis
      using members_end_atext [OF assms(3,2,4,5), of r] atext_ch0 [OF ne assms(5)]
      by (simp add: arr_text_def ws_def Let_def flip: atext_append)
  qed
  then show ?thesis by (simp add: jtok_def arr_text_def ws_def)
qed

end
