(* ===== verification/Settings_Text.thy ===== *)
theory Settings_Text
  imports Settings_Json Json_Text
begin

text \<open>
  Writing the settings document (\<open>native/src/settings_json.c\<close>) and reading it back: the round trip,
  and what reading any document does to the settings.
\<close>

section \<open>The writer\<close>

text \<open>The double quote and the line feed of C's string literals.\<close>

abbreviation (input) dq :: string where "dq \<equiv> [CHR 0x22]"
abbreviation (input) nl :: string where "nl \<equiv> [CHR 0x0A]"

text \<open>\<open>"key": \<close> as it stands in the format strings.\<close>

definition key_text :: "string \<Rightarrow> string" where
  "key_text k = dq @ k @ dq @ '': ''"

definition write_session_json :: "NativeSessionConfig \<Rightarrow> nat \<Rightarrow> string" where
  "write_session_json c slot =
     ''    { '' @ key_text ''slot'' @ dq @ native_session_slot_name (int slot) @ dq @
     '', '' @ key_text ''name'' @ write_json_string (sc_name c) @
     '', '' @ key_text ''host'' @ write_json_string (sc_host c) @
     '', '' @ key_text ''port'' @ dec (sc_port c) @
     '', '' @ key_text ''username'' @ write_json_string (sc_username c) @
     '', '' @ key_text ''password'' @ write_json_string (sc_password c) @
     '', '' @ key_text ''domain'' @ write_json_string (sc_domain c) @
     '', '' @ key_text ''fps'' @ dec (sc_fps c) @
     '', '' @ key_text ''desktopWidth'' @ dec (sc_desktop_width c) @
     '', '' @ key_text ''desktopHeight'' @ dec (sc_desktop_height c) @
     '', '' @ key_text ''desktopScaleFactor'' @ dec (sc_desktop_scale_factor c) @
     '', '' @ key_text ''duckTriggers'' @ dec (sc_duck_mask c) @
     '', '' @ key_text ''mixerGainDb'' @ idec (sc_mixer_gain_db c) @
     '', '' @ key_text ''mixerMuted'' @ jbool (sc_mixer_muted c) @
     '', '' @ key_text ''mixerSolo'' @ jbool (sc_mixer_solo c) @
     '', '' @ key_text ''cameraRedirect'' @ jbool (sc_camera_redirect c) @
     '', '' @ key_text ''audioInputRedirect'' @ jbool (sc_audio_input_redirect c) @ '' }''"

definition native_settings_write_json :: "NativeSettings \<Rightarrow> string" where
  "native_settings_write_json s =
     ''{'' @ nl @ ''  '' @ key_text ''sessions'' @ ''['' @ nl @
     concat (map (\<lambda>slot. write_session_json (ns_sessions s ! slot) slot @
         (if slot + 1 < NATIVE_SETTINGS_MAX_SESSIONS then '','' else []) @ nl)
       [0..<NATIVE_SETTINGS_MAX_SESSIONS]) @
     ''  ],'' @ nl @ ''  '' @ key_text ''wheelStep'' @ dec (ns_wheel_step s) @
     '','' @ nl @ ''  '' @ key_text ''wheelScrollDivisor'' @ dec (ns_wheel_scroll_divisor s) @
     '','' @ nl @ ''  '' @ key_text ''audioCodec'' @ dq @
       (if ns_audio_codec s = NATIVE_AUDIO_CODEC_PCM then ''pcm'' else ''auto'') @ dq @
     '','' @ nl @ ''  '' @ key_text ''cameraEnabled'' @ jbool (ns_camera_enabled s) @
     '','' @ nl @ ''  '' @ key_text ''cameraDeviceId'' @ write_json_string (ns_camera_device_id s) @
     '','' @ nl @ ''  '' @ key_text ''cameraWidth'' @ dec (ns_camera_width s) @
     '','' @ nl @ ''  '' @ key_text ''cameraHeight'' @ dec (ns_camera_height s) @
     '','' @ nl @ ''  '' @ key_text ''cameraFps'' @ dec (ns_camera_fps s) @
     '','' @ nl @ ''  '' @ key_text ''audioInputEnabled'' @ jbool (ns_audio_input_enabled s) @
     '','' @ nl @ ''  '' @ key_text ''audioInputDeviceId'' @ write_json_string (ns_audio_input_device_id s) @
     '','' @ nl @ ''  '' @ key_text ''audioInputGainDb'' @ idec (ns_audio_input_gain_db s) @ nl @ ''}'' @ nl"

section \<open>The text as members\<close>

definition session_fields :: "NativeSessionConfig \<Rightarrow> nat \<Rightarrow> (string \<times> string) list" where
  "session_fields c slot =
    [(''slot'', write_json_string (native_session_slot_name (int slot))), (''name'', write_json_string (sc_name c)),
     (''host'', write_json_string (sc_host c)), (''port'', dec (sc_port c)),
     (''username'', write_json_string (sc_username c)), (''password'', write_json_string (sc_password c)),
     (''domain'', write_json_string (sc_domain c)), (''fps'', dec (sc_fps c)),
     (''desktopWidth'', dec (sc_desktop_width c)), (''desktopHeight'', dec (sc_desktop_height c)),
     (''desktopScaleFactor'', dec (sc_desktop_scale_factor c)), (''duckTriggers'', dec (sc_duck_mask c)),
     (''mixerGainDb'', idec (sc_mixer_gain_db c)), (''mixerMuted'', jbool (sc_mixer_muted c)),
     (''mixerSolo'', jbool (sc_mixer_solo c)), (''cameraRedirect'', jbool (sc_camera_redirect c)),
     (''audioInputRedirect'', jbool (sc_audio_input_redirect c))]"

definition session_text :: "NativeSessionConfig \<Rightarrow> nat \<Rightarrow> string" where
  "session_text c slot = obj_text '' '' '', '' '' '' (session_fields c slot)"

definition plain_key :: "string \<Rightarrow> bool" where
  "plain_key k \<longleftrightarrow> list_all (\<lambda>c. c \<notin> {CHR 0x22, CHR 0x5C} \<and> \<not> code c < 0x20) k"

lemma write_plain: "plain_key k \<Longrightarrow> write_json_string k = dq @ k @ dq"
proof -
  assume k: "plain_key k"
  have "write_char c = [c]" if "c \<notin> {CHR 0x22, CHR 0x5C}" "\<not> code c < 0x20" for c
    using that by (auto simp: write_char_def code_def)
  then have "concat (map write_char k) = k"
    using k by (induction k) (auto simp: plain_key_def)
  then show ?thesis by (simp add: write_json_string_def)
qed

lemma fld_key_text: "plain_key k \<Longrightarrow> fld k v = key_text k @ v"
  by (simp add: fld_def write_plain key_text_def)

lemma plain_keys:
  "list_all (\<lambda>(k, v). plain_key k \<and> key_ok k) (session_fields c slot)"
  by (simp add: session_fields_def plain_key_def key_ok_def code_def)

lemma plain_slot_name: "plain_key (native_session_slot_name slot)"
  by (simp add: native_session_slot_name_def plain_key_def code_def)

lemma write_session_text: "write_session_json c slot = ''    '' @ session_text c slot"
proof -
  have k: "plain_key k \<Longrightarrow> fld k v @ r = key_text k @ v @ r" for k v r by (simp add: fld_key_text)
  have p: "plain_key ''slot''" "plain_key ''name''" "plain_key ''host''" "plain_key ''port''"
    "plain_key ''username''" "plain_key ''password''" "plain_key ''domain''" "plain_key ''fps''"
    "plain_key ''desktopWidth''" "plain_key ''desktopHeight''" "plain_key ''desktopScaleFactor''"
    "plain_key ''duckTriggers''" "plain_key ''mixerGainDb''" "plain_key ''mixerMuted''"
    "plain_key ''mixerSolo''" "plain_key ''cameraRedirect''" "plain_key ''audioInputRedirect''"
    using plain_keys [of c slot] by (simp_all add: session_fields_def)
  have s: "write_json_string (native_session_slot_name (int slot)) = dq @ native_session_slot_name (int slot) @ dq"
    by (rule write_plain [OF plain_slot_name])
  show ?thesis
    unfolding write_session_json_def session_text_def obj_text_def session_fields_def ftext.simps
    by (simp only: k p append_assoc s append_Cons append_Nil)
qed

text \<open>Every member of a session object is a value at every depth.\<close>

lemma slot_name_text: "CHR 0x00 \<notin> set (native_session_slot_name slot)"
  by (simp add: native_session_slot_name_def)

lemma session_fields_ok:
  assumes "session_wf c"
  shows "\<forall>(k, v) \<in> set (session_fields c slot). key_ok k \<and> jtok (Suc n) v"
proof -
  have t: "CHR 0x00 \<notin> set (sc_name c)" "CHR 0x00 \<notin> set (sc_host c)" "CHR 0x00 \<notin> set (sc_username c)"
    "CHR 0x00 \<notin> set (sc_password c)" "CHR 0x00 \<notin> set (sc_domain c)"
    using assms by (simp_all add: session_wf_def text_ok_def)
  have "list_all (\<lambda>(k, v). jtok (Suc n) v) (session_fields c slot)"
    by (simp add: session_fields_def jtok_string t slot_name_text jtok_dec jtok_idec jtok_bool)
  then show ?thesis using plain_keys [of c slot] by (auto simp: list_all_iff)
qed

lemma blanks: "blank []" "blank '' ''" "sep_ok '', ''"
  by (simp_all add: blank_def sep_ok_def)

lemma session_fields_ne: "session_fields c slot \<noteq> []"
  by (simp add: session_fields_def)

lemma session_jtok: "session_wf c \<Longrightarrow> jtok (Suc (Suc n)) (session_text c slot)"
  unfolding session_text_def
  by (rule jtok_object [OF blanks(2,2,3) session_fields_ok session_fields_ne])

lemma session_find:
  assumes "session_wf c" "map_of (session_fields c slot) key = Some v"
  shows "\<exists>r. native_json_find_value (session_text c slot) key = Some (v @ r) \<and> vend r"
proof -
  have "\<forall>(k, v) \<in> set (session_fields c slot). key_ok k \<and> jtok 33 v"
    using session_fields_ok [OF assms(1), of slot 32] by simp
  from find_value_object [OF blanks(2,2,3) this session_fields_ne, of "[]" key] assms(2)
  show ?thesis by (simp add: session_text_def)
qed

section \<open>Typed reads of written members\<close>

lemma read_string_member:
  assumes "native_json_find_value json key = Some (write_json_string s @ r)" "vend r"
    and "CHR 0x00 \<notin> set s" "length s < cap"
  shows "native_json_read_string json key cap = JRead s"
  using assms read_written [of s "Some cap" r] vend_scalar by (simp add: native_json_read_string_def)

lemma read_u16_member:
  assumes "native_json_find_value json key = Some (dec n @ r)" "vend r" "lo \<le> n" "n \<le> hi" "hi \<le> 65535"
  shows "native_json_read_u16 json key lo hi = JRead n"
proof -
  have "n < 2 ^ 32" using assms(4,5) by simp
  then show ?thesis
    using assms integer_end_dec [OF assms(2), of n False] strtoul_dec [OF assms(2), of n]
    by (simp add: native_json_read_u16_def)
qed

lemma read_i16_member:
  assumes "native_json_find_value json key = Some (idec n @ r)" "vend r" "lo \<le> n" "n \<le> hi"
    and "- 32768 \<le> lo" "hi \<le> 32767"
  shows "native_json_read_i16 json key lo hi = JRead n"
proof -
  have "- (2 ^ 31) \<le> n" "n < 2 ^ 31" using assms(3-6) by simp_all
  then show ?thesis
    using assms integer_end_idec [OF assms(2), of n] strtol_idec [OF assms(2), of n]
    by (simp add: native_json_read_i16_def)
qed

lemma read_bool_member:
  "native_json_find_value json key = Some (jbool b @ r) \<Longrightarrow> vend r \<Longrightarrow> native_json_read_bool json key = JRead b"
  using vend_scalar [of r] by (cases b) (simp_all add: native_json_read_bool_def jbool_def)

text \<open>
  A document in which the lookup of a key finds the written value; the typed fields read from it.
\<close>

definition holds :: "string \<Rightarrow> string \<Rightarrow> string \<Rightarrow> bool" where
  "holds json key v \<longleftrightarrow> (\<exists>r. native_json_find_value json key = Some (v @ r) \<and> vend r)"

lemma apply_string_holds:
  "holds j k (write_json_string v) \<Longrightarrow> text_ok v \<Longrightarrow>
   apply_json_string j k NATIVE_SETTINGS_STRING_MAX d = Some v"
  using read_string_member [of j k v _ NATIVE_SETTINGS_STRING_MAX]
  by (auto simp: apply_json_string_def text_ok_def holds_def)

lemma apply_u16_holds:
  "holds j k (dec v) \<Longrightarrow> lo \<le> v \<Longrightarrow> v \<le> hi \<Longrightarrow> hi \<le> 65535 \<Longrightarrow> apply_json_u16 j k lo hi d = Some v"
  using read_u16_member [of j k v _ lo hi] by (auto simp: apply_json_u16_def holds_def)

lemma apply_i16_holds:
  "holds j k (idec v) \<Longrightarrow> lo \<le> v \<Longrightarrow> v \<le> hi \<Longrightarrow> - 32768 \<le> lo \<Longrightarrow> hi \<le> 32767 \<Longrightarrow>
   apply_json_i16 j k lo hi d = Some v"
  using read_i16_member [of j k v _ lo hi] by (auto simp: apply_json_i16_def holds_def)

lemma apply_bool_holds: "holds j k (jbool v) \<Longrightarrow> apply_json_bool j k d = Some v"
  using read_bool_member [of j k v] by (auto simp: apply_json_bool_def holds_def)

text \<open>One session object, read into any session: every field is overwritten.\<close>

lemma apply_written_session:
  assumes wf: "session_wf c"
  shows "apply_session_json old (session_text c slot) = Some c"
proof -
  let ?j = "session_text c slot"
  have t: "text_ok (sc_name c)" "text_ok (sc_host c)" "text_ok (sc_username c)" "text_ok (sc_password c)"
    "text_ok (sc_domain c)" using wf by (simp_all add: session_wf_def)
  have h: "holds ?j k v" if "map_of (session_fields c slot) k = Some v" for k v
    using session_find [OF wf that] by (simp add: holds_def)
  have f: "holds ?j ''name'' (write_json_string (sc_name c))"
    "holds ?j ''host'' (write_json_string (sc_host c))"
    "holds ?j ''username'' (write_json_string (sc_username c))"
    "holds ?j ''password'' (write_json_string (sc_password c))"
    "holds ?j ''domain'' (write_json_string (sc_domain c))"
    "holds ?j ''port'' (dec (sc_port c))" "holds ?j ''fps'' (dec (sc_fps c))"
    "holds ?j ''desktopWidth'' (dec (sc_desktop_width c))"
    "holds ?j ''desktopHeight'' (dec (sc_desktop_height c))"
    "holds ?j ''desktopScaleFactor'' (dec (sc_desktop_scale_factor c))"
    "holds ?j ''duckTriggers'' (dec (sc_duck_mask c))"
    "holds ?j ''mixerGainDb'' (idec (sc_mixer_gain_db c))"
    "holds ?j ''mixerMuted'' (jbool (sc_mixer_muted c))" "holds ?j ''mixerSolo'' (jbool (sc_mixer_solo c))"
    "holds ?j ''cameraRedirect'' (jbool (sc_camera_redirect c))"
    "holds ?j ''audioInputRedirect'' (jbool (sc_audio_input_redirect c))"
    by (rule h, simp add: session_fields_def)+
  have nm: "apply_session_name_json s ?j = Some (s\<lparr>sc_name := sc_name c\<rparr>)" for s
  proof -
    obtain r where "native_json_find_value ?j ''name'' = Some (write_json_string (sc_name c) @ r)"
      using f(1) by (auto simp: holds_def)
    then show ?thesis using apply_string_holds [OF f(1) t(1)] by (simp add: apply_session_name_json_def)
  qed
  have ranges: "1 \<le> sc_port c" "sc_port c \<le> 65535" "1 \<le> sc_fps c" "sc_fps c \<le> 240"
    "NATIVE_SETTINGS_DESKTOP_MIN_WIDTH \<le> sc_desktop_width c"
    "sc_desktop_width c \<le> NATIVE_SETTINGS_DESKTOP_MAX_WIDTH"
    "NATIVE_SETTINGS_DESKTOP_MIN_HEIGHT \<le> sc_desktop_height c"
    "sc_desktop_height c \<le> NATIVE_SETTINGS_DESKTOP_MAX_HEIGHT"
    "native_desktop_scale_valid (sc_desktop_scale_factor c)"
    "sc_duck_mask c \<le> NATIVE_SETTINGS_DUCK_MASK_ALL"
    "NATIVE_SETTINGS_MIXER_MIN_DB \<le> sc_mixer_gain_db c" "sc_mixer_gain_db c \<le> NATIVE_SETTINGS_MIXER_MAX_DB"
    "sc_mixer_gain_db c mod NATIVE_SETTINGS_MIXER_STEP_DB = 0"
    using wf by (simp_all add: session_wf_def)
  have scale: "100 \<le> sc_desktop_scale_factor c" "sc_desktop_scale_factor c \<le> 200"
    using ranges(9) by (auto simp: native_desktop_scale_valid_def)
  have hi: "NATIVE_SETTINGS_DESKTOP_MAX_WIDTH \<le> 65535" "NATIVE_SETTINGS_DESKTOP_MAX_HEIGHT \<le> 65535"
    "NATIVE_SETTINGS_DUCK_MASK_ALL \<le> 65535" "- 32768 \<le> NATIVE_SETTINGS_MIXER_MIN_DB"
    "NATIVE_SETTINGS_MIXER_MAX_DB \<le> 32767" "(200::nat) \<le> 65535" "(240::nat) \<le> 65535"
    by (simp_all add: settings_consts)
  have sc: "apply_desktop_scale_json s ?j = Some (s\<lparr>sc_desktop_scale_factor := sc_desktop_scale_factor c\<rparr>)" for s
    using apply_u16_holds [OF f(10) scale hi(6)] ranges(9) by (simp add: apply_desktop_scale_json_def)
  have mg: "apply_mixer_gain_json s ?j = Some (s\<lparr>sc_mixer_gain_db := sc_mixer_gain_db c\<rparr>)" for s
    using apply_i16_holds [OF f(12) ranges(11,12) hi(4,5)] ranges(13) by (simp add: apply_mixer_gain_json_def)
  show ?thesis
    unfolding apply_session_json_def
    by (simp add: nm sc mg apply_string_holds [OF f(2) t(2)] apply_string_holds [OF f(3) t(3)]
        apply_string_holds [OF f(4) t(4)] apply_string_holds [OF f(5) t(5)]
        apply_u16_holds [OF f(6) ranges(1,2) order_refl, simplified]
        apply_u16_holds [OF f(7) ranges(3,4) hi(7), simplified]
        apply_u16_holds [OF f(8) ranges(5,6) hi(1)] apply_u16_holds [OF f(9) ranges(7,8) hi(2)]
        apply_u16_holds [OF f(11) le0 ranges(10) hi(3)] apply_bool_holds [OF f(13)]
        apply_bool_holds [OF f(14)] apply_bool_holds [OF f(15)] apply_bool_holds [OF f(16)] Let_def)
qed

section \<open>Finding the session objects\<close>

text \<open>Text the brace matcher passes over without a change of its state.\<close>

definition bskip :: "string \<Rightarrow> bool" where
  "bskip t \<longleftrightarrow> (\<forall>d r. object_end d False (t @ r) = object_end d False r)"

lemma bskip_append: "bskip a \<Longrightarrow> bskip b \<Longrightarrow> bskip (a @ b)"
  by (simp add: bskip_def)

lemma bskip_plain: "list_all (\<lambda>c. c \<notin> {CHR 0x22, CHR ''{'', CHR ''}''}) t \<Longrightarrow> bskip t"
  by (induction t) (auto simp: bskip_def)

lemma hex_digit_plain: "n < 16 \<Longrightarrow> hex_digit n \<noteq> CHR 0x22 \<and> hex_digit n \<noteq> CHR 0x5C"
proof -
  assume "n < 16"
  then have "below 16 n" by (simp add: below_iff)
  then show ?thesis by (simp add: below_simps) (elim disjE; simp add: hex_digit_def)
qed

lemma object_end_char: "object_end d True (write_char c @ x # r) = object_end d True (x # r)"
proof (cases "code c < 0x20 \<and> c \<notin> {CHR 0x22, CHR 0x5C, CHR 0x08, CHR 0x0C, CHR 0x0A, CHR 0x0D, CHR 0x09}")
  case True
  have "code c div 16 < 16" using code_less [of c] by linarith
  then have "hex_digit (code c div 16) \<noteq> CHR 0x22 \<and> hex_digit (code c div 16) \<noteq> CHR 0x5C"
    "hex_digit (code c mod 16) \<noteq> CHR 0x22 \<and> hex_digit (code c mod 16) \<noteq> CHR 0x5C"
    by (auto simp: hex_digit_plain)
  then show ?thesis using True by (simp add: write_char_def)
next
  case False
  then show ?thesis by (auto simp: write_char_def)
qed

lemma bskip_string: "bskip (write_json_string s)"
proof -
  have "object_end d True (concat (map write_char s) @ CHR 0x22 # r) = object_end d False r" for d r
  proof (induction s)
    case (Cons c s)
    obtain x t where "concat (map write_char s) @ CHR 0x22 # r = x # t"
      by (cases "concat (map write_char s) @ CHR 0x22 # r") auto
    with Cons show ?case using object_end_char [of d c x t] by simp
  qed simp
  then show ?thesis by (simp add: bskip_def write_json_string_def)
qed

lemma bskip_dec: "bskip (dec n)"
proof (rule bskip_plain)
  have "c \<notin> {CHR 0x22, CHR ''{'', CHR ''}''}" if "digit c" for c using digit_not [OF that] by blast
  then show "list_all (\<lambda>c. c \<notin> {CHR 0x22, CHR ''{'', CHR ''}''}) (dec n)"
    using dec_digits [of n] by (auto simp: list_all_iff)
qed

lemma bskip_idec: "bskip (idec i)"
  using bskip_append [OF bskip_plain [of "''-''"] bskip_dec] bskip_dec by (simp add: idec_def)

lemma bskip_bool: "bskip (jbool b)"
  by (rule bskip_plain) (simp add: jbool_def)

lemma bskip_fields:
  "list_all (\<lambda>(k, v). bskip v) fs \<Longrightarrow> bskip sep \<Longrightarrow> object_end d False (ftext sep fs t) = object_end d False t"
proof (induction fs)
  case (Cons f fs)
  have f: "bskip (fld k v)" if "bskip v" for k v
    unfolding fld_def by (intro bskip_append bskip_string that bskip_plain) simp
  obtain k v where kv: "f = (k, v)" by (cases f)
  have "bskip (fld k v)" using Cons.prems kv by (intro f) simp
  then show ?case
  proof (cases "fs = []")
    case True
    then show ?thesis using \<open>bskip (fld k v)\<close> by (simp add: kv bskip_def)
  next
    case False
    then have "ftext sep (f # fs) t = (fld k v @ sep) @ ftext sep fs t" by (simp add: kv ftext_Cons)
    moreover have "bskip (fld k v @ sep)" using \<open>bskip (fld k v)\<close> Cons.prems(2) by (rule bskip_append)
    ultimately show ?thesis using Cons by (simp add: bskip_def del: append_assoc)
  qed
qed simp

lemma session_object_end: "object_end 0 False (session_text c slot @ r) = Some r"
proof -
  have b: "list_all (\<lambda>(k, v). bskip v) (session_fields c slot)"
    by (simp add: session_fields_def bskip_string bskip_dec bskip_idec bskip_bool)
  have "bskip '', ''" by (rule bskip_plain) simp
  from bskip_fields [OF b this, of 1 "'' }'' @ r"] show ?thesis
    by (simp add: session_text_def obj_text_def flip: ftext_append)
qed

lemma session_text_ch0 [simp]: "ch0 (session_text c slot @ r) = CHR ''{''" "ch0 (session_text c slot) = CHR ''{''"
  by (simp_all add: session_text_def obj_text_def)

lemma session_loop:
  assumes "\<forall>v \<in> set vs. ch0 v = CHR ''{'' \<and> (\<forall>r. object_end 0 False (v @ r) = Some r)"
    and "sep_ok sep" "blank w" "cur \<le> i"
  shows "session_object_loop cur i (atext sep vs (w @ CHR '']'' # r)) =
     (if i - cur < length vs then FoundObject (vs ! (i - cur))
      else if vs = [] \<and> w \<noteq> [] then FoundMalformed else FoundEnd)"
  using assms(1,4)
proof (induction vs arbitrary: cur)
  case Nil
  have "w \<noteq> [] \<Longrightarrow> ch0 (w @ CHR '']'' # r) \<in> {CHR '' '', CHR 0x0A}"
    using assms(3) by (cases w) (auto simp: blank_def)
  then show ?case by (cases w; subst session_object_loop.simps) auto
next
  case (Cons v vs)
  let ?tail = "w @ CHR '']'' # r"
  define more where "more = (if vs = [] then ?tail else sep @ atext sep vs ?tail)"
  have txtq: "atext sep (v # vs) ?tail = v @ more" by (cases vs) (simp_all add: more_def)
  have v: "ch0 v = CHR ''{''" "object_end 0 False (v @ more) = Some more" using Cons.prems(1) by simp_all
  then have hv: "ch0 (v @ more) = CHR ''{''" by (cases v) auto
  have tk: "take (length (v @ more) - length more) (v @ more) = v" by simp
  show ?case
  proof (cases "cur = i")
    case True
    then show ?thesis unfolding txtq using hv v(2) tk by (subst session_object_loop.simps) simp
  next
    case False
    then have lt: "cur + 1 \<le> i" "i - cur = Suc (i - (cur + 1))" using Cons.prems(2) by simp_all
    have step: "session_object_loop cur i (v @ more) =
       (let q = native_json_skip_ws more in
        if ch0 q = CHR '','' then session_object_loop (cur + 1) i (native_json_skip_ws (tl q))
        else if ch0 q \<noteq> CHR '']'' then FoundMalformed
        else session_object_loop (cur + 1) i q)"
      using hv v(2) False by (subst session_object_loop.simps) simp
    show ?thesis
    proof (cases "vs = []")
      case True
      have "native_json_skip_ws ?tail = CHR '']'' # r" using assms(3) by (simp add: blank_def skip_blanks ws_def)
      moreover have "session_object_loop (cur + 1) i (CHR '']'' # r) = FoundEnd"
        by (subst session_object_loop.simps) simp
      ultimately show ?thesis unfolding txtq step using True lt by (simp add: more_def Let_def)
    next
      case ne: False
      obtain u where u: "sep = CHR '','' # u" "list_all (\<lambda>x. x = CHR '' '' \<or> x = CHR 0x0A) u"
        using assms(2) by (auto simp: sep_ok_def)
      have "native_json_skip_ws more = CHR '','' # u @ atext sep vs ?tail"
        using ne u by (simp add: more_def ws_def)
      moreover have "native_json_skip_ws (u @ atext sep vs ?tail) = atext sep vs ?tail"
        using Cons.prems(1) ne by (simp add: skip_blanks [OF u(2)] atext_skip)
      ultimately show ?thesis
        unfolding txtq step using Cons.IH [of "cur + 1"] Cons.prems(1) ne lt by (simp add: Let_def)
    qed
  qed
qed

section \<open>The whole document\<close>

definition settings_fields :: "NativeSettings \<Rightarrow> (string \<times> string) list" where
  "settings_fields s =
    [(''sessions'', arr_text (nl @ ''    '') ('','' @ nl @ ''    '') (nl @ ''  '')
        (map (\<lambda>slot. session_text (ns_sessions s ! slot) slot) [0, 1, 2, 3])),
     (''wheelStep'', dec (ns_wheel_step s)), (''wheelScrollDivisor'', dec (ns_wheel_scroll_divisor s)),
     (''audioCodec'', write_json_string (if ns_audio_codec s = NATIVE_AUDIO_CODEC_PCM then ''pcm'' else ''auto'')),
     (''cameraEnabled'', jbool (ns_camera_enabled s)),
     (''cameraDeviceId'', write_json_string (ns_camera_device_id s)),
     (''cameraWidth'', dec (ns_camera_width s)), (''cameraHeight'', dec (ns_camera_height s)),
     (''cameraFps'', dec (ns_camera_fps s)), (''audioInputEnabled'', jbool (ns_audio_input_enabled s)),
     (''audioInputDeviceId'', write_json_string (ns_audio_input_device_id s)),
     (''audioInputGainDb'', idec (ns_audio_input_gain_db s))]"

definition settings_text :: "NativeSettings \<Rightarrow> string" where
  "settings_text s = obj_text (nl @ ''  '') ('','' @ nl @ ''  '') nl (settings_fields s)"

lemma write_settings_text: "native_settings_write_json s = settings_text s @ nl"
proof -
  have k: "plain_key k \<Longrightarrow> fld k v @ r = key_text k @ v @ r" for k v r by (simp add: fld_key_text)
  have p: "plain_key ''sessions''" "plain_key ''wheelStep''" "plain_key ''wheelScrollDivisor''"
    "plain_key ''audioCodec''" "plain_key ''cameraEnabled''" "plain_key ''cameraDeviceId''"
    "plain_key ''cameraWidth''" "plain_key ''cameraHeight''" "plain_key ''cameraFps''"
    "plain_key ''audioInputEnabled''" "plain_key ''audioInputDeviceId''" "plain_key ''audioInputGainDb''"
    by (simp_all add: plain_key_def code_def)
  have c: "write_json_string (if b then ''pcm'' else ''auto'') = dq @ (if b then ''pcm'' else ''auto'') @ dq" for b
    by (rule write_plain) (simp add: plain_key_def code_def)
  have four: "[0..<NATIVE_SETTINGS_MAX_SESSIONS] = [0, 1, 2, 3]" by (simp add: settings_consts upt_rec)
  have last: "(3 + 1 < NATIVE_SETTINGS_MAX_SESSIONS) = False" "(0 + 1 < NATIVE_SETTINGS_MAX_SESSIONS) = True"
    "(1 + 1 < NATIVE_SETTINGS_MAX_SESSIONS) = True" "(2 + 1 < NATIVE_SETTINGS_MAX_SESSIONS) = True"
    by (simp_all add: settings_consts)
  show ?thesis
    unfolding native_settings_write_json_def settings_text_def obj_text_def settings_fields_def ftext.simps
      arr_text_def four list.map atext.simps last if_True if_False concat.simps write_session_text
    by (simp only: k p append_assoc c append_Cons append_Nil)
qed

lemma sessions_all:
  assumes "settings_wf s"
  shows "slot \<in> {0, 1, 2, 3} \<Longrightarrow> session_wf (ns_sessions s ! slot)"
  using assms by (auto simp: settings_wf_def list_all_length settings_consts)

lemma settings_fields_ok:
  assumes "settings_wf s"
  shows "\<forall>(k, v) \<in> set (settings_fields s). key_ok k \<and> jtok (Suc (Suc (Suc (Suc n)))) v"
proof -
  have t: "CHR 0x00 \<notin> set (ns_camera_device_id s)" "CHR 0x00 \<notin> set (ns_audio_input_device_id s)"
    using assms by (simp_all add: settings_wf_def text_ok_def)
  have "\<forall>v \<in> set (map (\<lambda>slot. session_text (ns_sessions s ! slot) slot) [0, 1, 2, 3]).
      jtok (Suc (Suc (Suc n))) v \<and> ch0 v = CHR ''{''"
    using session_jtok [OF sessions_all [OF assms]] by auto
  then have "jtok (Suc (Suc (Suc (Suc n)))) (arr_text (nl @ ''    '') ('','' @ nl @ ''    '') (nl @ ''  '')
        (map (\<lambda>slot. session_text (ns_sessions s ! slot) slot) [0, 1, 2, 3]))"
    by (intro jtok_array) (simp_all add: blank_def sep_ok_def)
  then have "list_all (\<lambda>(k, v). jtok (Suc (Suc (Suc (Suc n)))) v) (settings_fields s)"
    by (simp add: settings_fields_def jtok_string t jtok_dec jtok_idec jtok_bool)
  moreover have "list_all (\<lambda>(k, v). key_ok k) (settings_fields s)"
    by (simp add: settings_fields_def key_ok_def)
  ultimately show ?thesis by (auto simp: list_all_iff)
qed

lemma settings_fields_ne: "settings_fields s \<noteq> []"
  by (simp add: settings_fields_def)

lemma settings_blanks: "blank (nl @ ''  '')" "blank nl" "sep_ok ('','' @ nl @ ''  '')"
  by (simp_all add: blank_def sep_ok_def)

lemma settings_holds:
  assumes "settings_wf s" "map_of (settings_fields s) key = Some v"
  shows "holds (native_settings_write_json s) key v"
proof -
  have "\<forall>(k, v) \<in> set (settings_fields s). key_ok k \<and> jtok 33 v"
    using settings_fields_ok [OF assms(1), of 29] by simp
  from find_value_object [OF settings_blanks this settings_fields_ne, of nl key] assms(2)
  show ?thesis by (simp add: settings_text_def write_settings_text holds_def)
qed

lemma settings_valid:
  assumes "settings_wf s"
  shows "native_json_validate_object (native_settings_write_json s)"
proof -
  have "value_end (Suc 32) (settings_text s @ nl) = Some nl"
    unfolding settings_text_def
    by (rule object_value_end [OF settings_blanks])
      (use settings_fields_ok [OF assms, of 28] settings_fields_ne in simp_all)
  moreover have "native_json_skip_ws (settings_text s @ nl) = settings_text s @ nl"
    "ch0 (settings_text s @ nl) = CHR ''{''"
    by (simp_all add: settings_text_def obj_text_def ws_def)
  ultimately show ?thesis
    by (simp add: native_json_validate_object_def write_settings_text ws_def)
qed

lemma find_session:
  assumes wf: "settings_wf s" and i: "i \<le> 4"
  shows "find_session_object (native_settings_write_json s) i =
     (if i < 4 then FoundObject (session_text (ns_sessions s ! i) i) else FoundEnd)"
proof -
  let ?vs = "map (\<lambda>slot. session_text (ns_sessions s ! slot) slot) [0, 1, 2, 3]"
  let ?sep = "'','' @ nl @ ''    ''"
  let ?w = "nl @ ''  ''"
  obtain r where f: "native_json_find_value (native_settings_write_json s) ''sessions'' =
      Some (arr_text (nl @ ''    '') ?sep ?w ?vs @ r)"
    using settings_holds [OF wf, of "''sessions''"] by (auto simp: settings_fields_def holds_def)
  have b: "blank (nl @ ''    '')" "blank ?w" "sep_ok ?sep" by (simp_all add: blank_def sep_ok_def)
  have vs: "\<forall>v \<in> set ?vs. ch0 v = CHR ''{'' \<and> (\<forall>r. object_end 0 False (v @ r) = Some r)"
    by (auto simp: session_object_end)
  have "native_json_skip_ws (nl @ ''    '' @ atext ?sep ?vs (?w @ CHR '']'' # r)) =
      atext ?sep ?vs (?w @ CHR '']'' # r)"
    using skip_blanks [of "nl @ ''    ''"] atext_skip [of ?vs ?sep] vs by (simp del: atext.simps list.map)
  then have "native_json_skip_ws (tl (arr_text (nl @ ''    '') ?sep ?w ?vs @ r)) =
      atext ?sep ?vs (?w @ CHR '']'' # r)"
    by (simp add: arr_text_def del: atext.simps list.map flip: atext_append)
  then have "find_session_object (native_settings_write_json s) i =
      session_object_loop 0 i (atext ?sep ?vs (?w @ CHR '']'' # r))"
    unfolding find_session_object_def f option.case by (simp add: arr_text_def)
  also have "\<dots> = (if i < 4 then FoundObject (?vs ! i) else FoundEnd)"
    using session_loop [OF vs b(3,2), of 0 i r] i by simp
  finally show ?thesis
  proof -
    assume e: "find_session_object (native_settings_write_json s) i =
        (if i < 4 then FoundObject (?vs ! i) else FoundEnd)"
    have "i < 4 \<Longrightarrow> i = 0 \<or> i = 1 \<or> i = 2 \<or> i = 3" by presburger
    then show ?thesis unfolding e by auto
  qed
qed

lemma slot_of_session:
  assumes "session_wf c" "slot < 4"
  shows "session_slot_from_object (session_text c slot) i = Some slot"
proof -
  have "map_of (session_fields c slot) ''slot'' = Some (write_json_string (native_session_slot_name (int slot)))"
    by (simp add: session_fields_def)
  then obtain r where r: "native_json_find_value (session_text c slot) ''slot'' =
      Some (write_json_string (native_session_slot_name (int slot)) @ r)" "vend r"
    using session_find [OF assms(1)] by blast
  have "length (native_session_slot_name (int slot)) < 16" by (simp add: native_session_slot_name_def)
  from read_string_member [OF r slot_name_text this]
  have n: "native_json_read_string (session_text c slot) ''slot'' 16 = JRead (native_session_slot_name (int slot))" .
  have four: "[0..<NATIVE_SETTINGS_MAX_SESSIONS] = [0, 1, 2, 3]" by (simp add: settings_consts upt_rec)
  have "slot = 0 \<or> slot = 1 \<or> slot = 2 \<or> slot = 3" using assms(2) by presburger
  then show ?thesis unfolding session_slot_from_object_def n four
    by (auto simp: native_session_slot_name_def NATIVE_SESSION_SLOT_RED_def NATIVE_SESSION_SLOT_GREEN_def
        NATIVE_SESSION_SLOT_YELLOW_def NATIVE_SESSION_SLOT_BLUE_def)
qed

lemma apply_written_sessions:
  assumes wf: "settings_wf s" and len: "length (ns_sessions st) = 4"
  shows "apply_sessions_array (\<lambda>_. True) 0 st (native_settings_write_json s) =
     Some (st\<lparr>ns_sessions := ns_sessions s\<rparr>)"
proof -
  let ?j = "native_settings_write_json s"
  have step: "apply_sessions_array (\<lambda>_. True) i st ?j =
      apply_sessions_array (\<lambda>_. True) (i + 1) (st\<lparr>ns_sessions := (ns_sessions st)[i := ns_sessions s ! i]\<rparr>) ?j"
    if "i < 4" for i st
  proof -
    have "i = 0 \<or> i = 1 \<or> i = 2 \<or> i = 3" using that by presburger
    then have c: "session_wf (ns_sessions s ! i)" using sessions_all [OF wf] by blast
    show ?thesis
      using that by (subst apply_sessions_array.simps)
        (simp add: find_session [OF wf] slot_of_session [OF c that] apply_written_session [OF c])
  qed
  have fin: "apply_sessions_array (\<lambda>_. True) 4 st ?j = Some st" for st
    by (subst apply_sessions_array.simps) (simp add: find_session [OF wf])
  have four: "length (ns_sessions s) = 4" using wf by (simp add: settings_wf_def settings_consts)
  have "apply_sessions_array (\<lambda>_. True) 0 st ?j = Some (st\<lparr>ns_sessions := (ns_sessions st)
      [0 := ns_sessions s ! 0, 1 := ns_sessions s ! 1, 2 := ns_sessions s ! 2, 3 := ns_sessions s ! 3]\<rparr>)"
    using step [of 0] step [of 1] step [of 2] step [of 3] fin by (simp add: eval_nat_numeral)
  also have "(ns_sessions st) [0 := ns_sessions s ! 0, 1 := ns_sessions s ! 1, 2 := ns_sessions s ! 2,
      3 := ns_sessions s ! 3] = ns_sessions s"
  proof (rule nth_equalityI)
    fix i assume "i < length ((ns_sessions st) [0 := ns_sessions s ! 0, 1 := ns_sessions s ! 1,
      2 := ns_sessions s ! 2, 3 := ns_sessions s ! 3])"
    then have "i = 0 \<or> i = 1 \<or> i = 2 \<or> i = 3" using len by simp presburger
    then show "(ns_sessions st) [0 := ns_sessions s ! 0, 1 := ns_sessions s ! 1,
      2 := ns_sessions s ! 2, 3 := ns_sessions s ! 3] ! i = ns_sessions s ! i" using len by auto
  qed (simp add: len four)
  finally show ?thesis .
qed

lemma apply_written_globals:
  assumes wf: "settings_wf s"
  shows "apply_global_json st (native_settings_write_json s) = Some (s\<lparr>ns_sessions := ns_sessions st\<rparr>)"
proof -
  let ?j = "native_settings_write_json s"
  have h: "holds ?j k v" if "map_of (settings_fields s) k = Some v" for k v
    using settings_holds [OF wf that] .
  have f: "holds ?j ''wheelStep'' (dec (ns_wheel_step s))"
    "holds ?j ''wheelScrollDivisor'' (dec (ns_wheel_scroll_divisor s))"
    "holds ?j ''audioCodec'' (write_json_string (if ns_audio_codec s = NATIVE_AUDIO_CODEC_PCM then ''pcm'' else ''auto''))"
    "holds ?j ''cameraEnabled'' (jbool (ns_camera_enabled s))"
    "holds ?j ''cameraDeviceId'' (write_json_string (ns_camera_device_id s))"
    "holds ?j ''cameraWidth'' (dec (ns_camera_width s))" "holds ?j ''cameraHeight'' (dec (ns_camera_height s))"
    "holds ?j ''cameraFps'' (dec (ns_camera_fps s))"
    "holds ?j ''audioInputEnabled'' (jbool (ns_audio_input_enabled s))"
    "holds ?j ''audioInputDeviceId'' (write_json_string (ns_audio_input_device_id s))"
    "holds ?j ''audioInputGainDb'' (idec (ns_audio_input_gain_db s))"
    by (rule h, simp add: settings_fields_def)+
  have r: "1 \<le> ns_wheel_step s" "ns_wheel_step s \<le> 120" "1 \<le> ns_wheel_scroll_divisor s"
    "ns_wheel_scroll_divisor s \<le> 120" "text_ok (ns_camera_device_id s)" "text_ok (ns_audio_input_device_id s)"
    "NATIVE_CAMERA_MIN_WIDTH \<le> ns_camera_width s" "ns_camera_width s \<le> NATIVE_CAMERA_MAX_WIDTH"
    "NATIVE_CAMERA_MIN_HEIGHT \<le> ns_camera_height s" "ns_camera_height s \<le> NATIVE_CAMERA_MAX_HEIGHT"
    "even (ns_camera_width s)" "even (ns_camera_height s)"
    "1 \<le> ns_camera_fps s" "ns_camera_fps s \<le> NATIVE_CAMERA_MAX_FPS"
    "- 12 \<le> ns_audio_input_gain_db s" "ns_audio_input_gain_db s \<le> 18"
    using wf by (simp_all add: settings_wf_def)
  have hi: "(120::nat) \<le> 65535" "NATIVE_CAMERA_MAX_WIDTH \<le> 65535" "NATIVE_CAMERA_MAX_HEIGHT \<le> 65535"
    "NATIVE_CAMERA_MAX_FPS \<le> 65535" "(- 32768::int) \<le> - 12" "(18::int) \<le> 32767"
    by (simp_all add: settings_consts)
  let ?codec = "if ns_audio_codec s = NATIVE_AUDIO_CODEC_PCM then ''pcm'' else ''auto''"
  have "native_json_read_string ?j ''audioCodec'' 16 = JRead ?codec"
    using f(3) by (auto simp: holds_def intro!: read_string_member)
  then have codec: "apply_audio_codec_json st ?j = Some (st\<lparr>ns_audio_codec := ns_audio_codec s\<rparr>)" for st
    by (cases "ns_audio_codec s") (simp_all add: apply_audio_codec_json_def)
  show ?thesis
    unfolding apply_global_json_def
    by (simp add: codec apply_string_holds [OF f(5) r(5)] apply_string_holds [OF f(10) r(6)]
        apply_u16_holds [OF f(1) r(1,2) hi(1), simplified] apply_u16_holds [OF f(2) r(3,4) hi(1), simplified]
        apply_u16_holds [OF f(6) r(7,8) hi(2)] apply_u16_holds [OF f(7) r(9,10) hi(3)]
        apply_u16_holds [OF f(8) r(13,14) hi(4), simplified] apply_i16_holds [OF f(11) r(15,16) hi(5,6)]
        apply_bool_holds [OF f(4)] apply_bool_holds [OF f(9)] r(11,12) Let_def)
qed

section \<open>Reading any document keeps the settings well formed\<close>

lemma apply_string_ok:
  "apply_json_string json key NATIVE_SETTINGS_STRING_MAX d = Some v \<Longrightarrow> CHR 0x00 \<notin> set json \<Longrightarrow> text_ok d \<Longrightarrow> text_ok v"
  using read_string_ok [of json key NATIVE_SETTINGS_STRING_MAX v]
  by (auto simp: apply_json_string_def text_ok_def split: json_read.splits)

lemma apply_u16_ok:
  "apply_json_u16 json key lo hi d = Some v \<Longrightarrow> lo \<le> d \<and> d \<le> hi \<Longrightarrow> lo \<le> v \<and> v \<le> hi"
  by (auto simp: apply_json_u16_def native_json_read_u16_def split: json_read.splits option.splits if_splits)

lemma apply_i16_ok:
  "apply_json_i16 json key lo hi d = Some v \<Longrightarrow> lo \<le> d \<and> d \<le> hi \<Longrightarrow> lo \<le> v \<and> v \<le> hi"
  by (auto simp: apply_json_i16_def native_json_read_i16_def split: json_read.splits option.splits if_splits)

lemma apply_session_ok:
  assumes "apply_session_json c json = Some c'" "session_wf c" "CHR 0x00 \<notin> set json"
  shows "session_wf c'"
proof -
  have nm: "\<exists>v. t = s\<lparr>sc_name := v\<rparr> \<and> text_ok v"
    if "apply_session_name_json s json = Some t" "text_ok (sc_name s)" for s t
  proof -
    have "t = s \<or> (\<exists>v. t = s\<lparr>sc_name := v\<rparr> \<and>
        apply_json_string json ''name'' NATIVE_SETTINGS_STRING_MAX (sc_name s) = Some v)"
      using that(1) by (auto simp: apply_session_name_json_def bind_eq_Some_conv split: option.splits if_splits)
    then show ?thesis
    proof
      assume "t = s"
      then show ?thesis using that(2) by (intro exI [of _ "sc_name s"]) simp
    qed (use apply_string_ok [OF _ assms(3) that(2)] in blast)
  qed
  have sc: "\<exists>v. t = s\<lparr>sc_desktop_scale_factor := v\<rparr> \<and> native_desktop_scale_valid v"
    if "apply_desktop_scale_json s json = Some t" for s t
    using that by (auto simp: apply_desktop_scale_json_def bind_eq_Some_conv split: if_splits)
  have mg: "\<exists>v. t = s\<lparr>sc_mixer_gain_db := v\<rparr> \<and> NATIVE_SETTINGS_MIXER_MIN_DB \<le> v \<and> v \<le> NATIVE_SETTINGS_MIXER_MAX_DB \<and>
      v mod NATIVE_SETTINGS_MIXER_STEP_DB = 0"
    if "apply_mixer_gain_json s json = Some t"
      "NATIVE_SETTINGS_MIXER_MIN_DB \<le> sc_mixer_gain_db s \<and> sc_mixer_gain_db s \<le> NATIVE_SETTINGS_MIXER_MAX_DB" for s t
    using that apply_i16_ok [OF _ that(2)]
    by (auto simp: apply_mixer_gain_json_def bind_eq_Some_conv split: if_splits)
  obtain c1 c2 c3 ho us pw dm po fp w h dk mm ms cr ar where
    st: "apply_session_name_json c json = Some c1" "apply_desktop_scale_json c1 json = Some c2"
      "apply_json_string json ''host'' NATIVE_SETTINGS_STRING_MAX (sc_host c2) = Some ho"
      "apply_json_string json ''username'' NATIVE_SETTINGS_STRING_MAX (sc_username c2) = Some us"
      "apply_json_string json ''password'' NATIVE_SETTINGS_STRING_MAX (sc_password c2) = Some pw"
      "apply_json_string json ''domain'' NATIVE_SETTINGS_STRING_MAX (sc_domain c2) = Some dm"
      "apply_json_u16 json ''port'' 1 65535 (sc_port c2) = Some po"
      "apply_json_u16 json ''fps'' 1 240 (sc_fps c2) = Some fp"
      "apply_json_u16 json ''desktopWidth'' NATIVE_SETTINGS_DESKTOP_MIN_WIDTH
         NATIVE_SETTINGS_DESKTOP_MAX_WIDTH (sc_desktop_width c2) = Some w"
      "apply_json_u16 json ''desktopHeight'' NATIVE_SETTINGS_DESKTOP_MIN_HEIGHT
         NATIVE_SETTINGS_DESKTOP_MAX_HEIGHT (sc_desktop_height c2) = Some h"
      "apply_json_u16 json ''duckTriggers'' 0 NATIVE_SETTINGS_DUCK_MASK_ALL (sc_duck_mask c2) = Some dk"
      "apply_mixer_gain_json (c2\<lparr>sc_host := ho, sc_username := us, sc_password := pw, sc_domain := dm,
         sc_port := po, sc_fps := fp, sc_desktop_width := w, sc_desktop_height := h, sc_duck_mask := dk\<rparr>) json = Some c3"
    and fin: "c' = c3\<lparr>sc_mixer_muted := mm, sc_mixer_solo := ms, sc_camera_redirect := cr, sc_audio_input_redirect := ar\<rparr>"
    using assms(1) by (auto simp: apply_session_json_def bind_eq_Some_conv Let_def)
  have wf: "text_ok (sc_name c)" "text_ok (sc_host c)" "text_ok (sc_username c)" "text_ok (sc_password c)"
    "text_ok (sc_domain c)" "1 \<le> sc_port c \<and> sc_port c \<le> 65535" "1 \<le> sc_fps c \<and> sc_fps c \<le> 240"
    "NATIVE_SETTINGS_DESKTOP_MIN_WIDTH \<le> sc_desktop_width c \<and> sc_desktop_width c \<le> NATIVE_SETTINGS_DESKTOP_MAX_WIDTH"
    "NATIVE_SETTINGS_DESKTOP_MIN_HEIGHT \<le> sc_desktop_height c \<and> sc_desktop_height c \<le> NATIVE_SETTINGS_DESKTOP_MAX_HEIGHT"
    "0 \<le> sc_duck_mask c \<and> sc_duck_mask c \<le> NATIVE_SETTINGS_DUCK_MASK_ALL"
    "NATIVE_SETTINGS_MIXER_MIN_DB \<le> sc_mixer_gain_db c \<and> sc_mixer_gain_db c \<le> NATIVE_SETTINGS_MIXER_MAX_DB"
    using assms(2) by (simp_all add: session_wf_def)
  obtain na where c1: "c1 = c\<lparr>sc_name := na\<rparr>" "text_ok na" using nm [OF st(1) wf(1)] by blast
  obtain sf where c2: "c2 = c1\<lparr>sc_desktop_scale_factor := sf\<rparr>" "native_desktop_scale_valid sf"
    using sc [OF st(2)] by blast
  have e: "sc_host c2 = sc_host c" "sc_username c2 = sc_username c" "sc_password c2 = sc_password c"
    "sc_domain c2 = sc_domain c" "sc_port c2 = sc_port c" "sc_fps c2 = sc_fps c"
    "sc_desktop_width c2 = sc_desktop_width c" "sc_desktop_height c2 = sc_desktop_height c"
    "sc_duck_mask c2 = sc_duck_mask c" "sc_mixer_gain_db c2 = sc_mixer_gain_db c" "sc_name c2 = na"
    "sc_desktop_scale_factor c2 = sf"
    by (simp_all add: c1(1) c2(1))
  obtain g where g: "c3 = c2\<lparr>sc_host := ho, sc_username := us, sc_password := pw, sc_domain := dm,
         sc_port := po, sc_fps := fp, sc_desktop_width := w, sc_desktop_height := h, sc_duck_mask := dk,
         sc_mixer_gain_db := g\<rparr>" "NATIVE_SETTINGS_MIXER_MIN_DB \<le> g" "g \<le> NATIVE_SETTINGS_MIXER_MAX_DB"
      "g mod NATIVE_SETTINGS_MIXER_STEP_DB = 0"
    using mg [OF st(12)] wf(11) e(10) by auto
  have "text_ok ho" "text_ok us" "text_ok pw" "text_ok dm"
    using apply_string_ok [OF st(3) assms(3)] apply_string_ok [OF st(4) assms(3)]
      apply_string_ok [OF st(5) assms(3)] apply_string_ok [OF st(6) assms(3)] wf(2-5) e(1-4) by simp_all
  moreover have "1 \<le> po \<and> po \<le> 65535" using apply_u16_ok [OF st(7)] wf(6) e(5) by simp
  moreover have "1 \<le> fp \<and> fp \<le> 240" using apply_u16_ok [OF st(8)] wf(7) e(6) by simp
  moreover have "NATIVE_SETTINGS_DESKTOP_MIN_WIDTH \<le> w \<and> w \<le> NATIVE_SETTINGS_DESKTOP_MAX_WIDTH"
    using apply_u16_ok [OF st(9)] wf(8) e(7) by simp
  moreover have "NATIVE_SETTINGS_DESKTOP_MIN_HEIGHT \<le> h \<and> h \<le> NATIVE_SETTINGS_DESKTOP_MAX_HEIGHT"
    using apply_u16_ok [OF st(10)] wf(9) e(8) by simp
  moreover have "dk \<le> NATIVE_SETTINGS_DUCK_MASK_ALL" using apply_u16_ok [OF st(11)] wf(10) e(9) by simp
  ultimately show ?thesis
    unfolding fin g(1) session_wf_def using g(2-4) c1(2) c2(2) e by simp
qed

lemma suffix_object_end: "object_end d b p = Some q \<Longrightarrow> suffix q p"
proof (induction d b p rule: object_end.induct)
  case (2 d b c p)
  have tl: "suffix x (tl p) \<Longrightarrow> suffix x (c # p)" for x using suffix_tl suffix_ConsI suffix_order.trans by metis
  show ?case
  proof (cases b)
    case True
    then show ?thesis using 2(1-3,8) tl suffix_ConsI by (auto split: if_splits)
  next
    case False
    then show ?thesis using 2(4-8) suffix_ConsI suffix_ConsI [OF suffix_order.refl] by (auto split: if_splits)
  qed
qed simp

lemma session_object_set: "session_object_loop c j p = FoundObject x \<Longrightarrow> set x \<subseteq> set p"
proof (induction c j p rule: session_object_loop.induct)
  case (1 c j p)
  note IH = 1(1,2) and res = 1(3)
  obtain q where q: "object_end 0 False p = Some q"
    using 1(3) by (subst (asm) session_object_loop.simps) (auto split: if_splits option.splits)
  let ?q = "native_json_skip_ws q"
  have sq: "set ?q \<subseteq> set p" "set (native_json_skip_ws (tl ?q)) \<subseteq> set p"
    using suffix_object_end [OF q] by (auto intro!: set_mono_suffix simp: suffix_through)
  have st: "\<not> ch0 p = CHR '']''" "\<not> ch0 p \<noteq> CHR ''{''"
    using 1(3) by (subst (asm) session_object_loop.simps, auto split: if_splits)+
  show ?case
  proof (cases "c = j")
    case True
    then have "x = take (length p - length q) p"
      using 1(3) st q by (subst (asm) session_object_loop.simps) simp
    then show ?thesis by (simp add: set_take_subset)
  next
    case False
    have eq: "session_object_loop c j p =
       (if ch0 ?q = CHR '','' then session_object_loop (c + 1) j (native_json_skip_ws (tl ?q))
        else if ch0 ?q \<noteq> CHR '']'' then FoundMalformed
        else session_object_loop (c + 1) j ?q)"
      using False st q by (subst session_object_loop.simps) (simp add: Let_def)
    consider "ch0 ?q = CHR '',''" | "ch0 ?q = CHR '']''" "\<not> ch0 ?q = CHR '',''"
      using 1(3) unfolding eq by (auto split: if_splits)
    then show ?thesis
    proof cases
      case 1
      then have "set x \<subseteq> set (native_json_skip_ws (tl ?q))"
        using IH(1) [OF st q False refl] res unfolding eq by simp
      then show ?thesis using sq(2) by blast
    next
      case 2
      then have "set x \<subseteq> set ?q" using IH(2) [OF st q False refl] res unfolding eq by simp
      then show ?thesis using sq(1) by blast
    qed
  qed
qed

lemma found_object_text:
  assumes "find_session_object json i = FoundObject ob" "CHR 0x00 \<notin> set json"
  shows "CHR 0x00 \<notin> set ob"
proof -
  obtain v where v: "native_json_find_value json ''sessions'' = Some v"
    "session_object_loop 0 i (native_json_skip_ws (tl v)) = FoundObject ob"
    using assms(1) by (auto simp: find_session_object_def split: option.splits if_splits)
  from suffix_find_value [OF v(1) assms(2)]
  have "set (native_json_skip_ws (tl v)) \<subseteq> set json" by (intro set_mono_suffix) (simp add: suffix_through)
  with session_object_set [OF v(2)] assms(2) show ?thesis by blast
qed

lemma apply_sessions_ok:
  "apply_sessions_array alloc i s json = Some s' \<Longrightarrow> CHR 0x00 \<notin> set json \<Longrightarrow>
   length (ns_sessions s) = 4 \<Longrightarrow> list_all session_wf (ns_sessions s) \<Longrightarrow>
   \<exists>cs. s' = s\<lparr>ns_sessions := cs\<rparr> \<and> length cs = 4 \<and> list_all session_wf cs"
proof (induction alloc i s json rule: apply_sessions_array.induct)
  case (1 alloc i s json)
  have same: "\<exists>cs. s = s\<lparr>ns_sessions := cs\<rparr> \<and> length cs = 4 \<and> list_all session_wf cs"
    using 1(5,6) by (intro exI [of _ "ns_sessions s"]) simp
  show ?case
  proof (cases "find_session_object json i")
    case FoundEnd
    then show ?thesis using 1(3) same by (subst (asm) apply_sessions_array.simps) simp
  next
    case FoundMalformed
    then show ?thesis using 1(3) by (subst (asm) apply_sessions_array.simps) simp
  next
    case (FoundObject ob)
    have al: "\<not> \<not> alloc i" using 1(3) FoundObject by (subst (asm) apply_sessions_array.simps) (simp split: if_splits)
    have obn: "CHR 0x00 \<notin> set ob" using found_object_text [OF FoundObject 1(4)] .
    show ?thesis
    proof (cases "session_slot_from_object ob i")
      case None
      then have "apply_sessions_array alloc (i + 1) s json = Some s'"
        using 1(3) FoundObject al by (subst (asm) apply_sessions_array.simps) simp
      from 1(1) [OF FoundObject al None this 1(4-6)] show ?thesis .
    next
      case (Some slot)
      then obtain c where c: "apply_session_json (ns_sessions s ! slot) ob = Some c"
        "apply_sessions_array alloc (i + 1) (s\<lparr>ns_sessions := (ns_sessions s)[slot := c]\<rparr>) json = Some s'"
        using 1(3) FoundObject al by (subst (asm) apply_sessions_array.simps) (auto split: option.splits)
      have "slot < 4"
        using Some by (auto simp: session_slot_from_object_def settings_consts find_Some_iff
            split: json_read.splits if_splits)
      then have "session_wf (ns_sessions s ! slot)" using 1(5,6) by (simp add: list_all_length)
      from apply_session_ok [OF c(1) this obn] have "session_wf c" .
      then have "list_all session_wf ((ns_sessions s)[slot := c])"
        using 1(6) by (metis list_all_length length_list_update nth_list_update_eq nth_list_update_neq)
      from 1(2) [OF FoundObject al Some c(1) c(2) 1(4)] this 1(5) show ?thesis by auto
    qed
  qed
qed

lemma apply_global_ok:
  assumes "apply_global_json s json = Some s'" "settings_wf s" "CHR 0x00 \<notin> set json"
  shows "settings_wf s'"
proof -
  obtain w d s2 ce ci cw ch cf ae ai ag where
    st: "apply_json_u16 json ''wheelStep'' 1 120 (ns_wheel_step s) = Some w"
      "apply_json_u16 json ''wheelScrollDivisor'' 1 120 (ns_wheel_scroll_divisor s) = Some d"
      "apply_audio_codec_json (s\<lparr>ns_wheel_step := w, ns_wheel_scroll_divisor := d\<rparr>) json = Some s2"
      "apply_json_string json ''cameraDeviceId'' NATIVE_SETTINGS_STRING_MAX (ns_camera_device_id s2) = Some ci"
      "apply_json_u16 json ''cameraWidth'' NATIVE_CAMERA_MIN_WIDTH NATIVE_CAMERA_MAX_WIDTH (ns_camera_width s2) = Some cw"
      "apply_json_u16 json ''cameraHeight'' NATIVE_CAMERA_MIN_HEIGHT NATIVE_CAMERA_MAX_HEIGHT (ns_camera_height s2) = Some ch"
      "apply_json_u16 json ''cameraFps'' 1 NATIVE_CAMERA_MAX_FPS (ns_camera_fps s2) = Some cf"
      "apply_json_string json ''audioInputDeviceId'' NATIVE_SETTINGS_STRING_MAX (ns_audio_input_device_id s2) = Some ai"
      "apply_json_i16 json ''audioInputGainDb'' (- 12) 18 (ns_audio_input_gain_db s2) = Some ag"
    and fin: "even cw" "even ch" "s' = s2\<lparr>ns_camera_enabled := ce, ns_camera_device_id := ci, ns_camera_width := cw,
      ns_camera_height := ch, ns_camera_fps := cf, ns_audio_input_enabled := ae, ns_audio_input_device_id := ai,
      ns_audio_input_gain_db := ag\<rparr>"
    using assms(1) by (auto simp: apply_global_json_def bind_eq_Some_conv Let_def split: if_splits)
  obtain co where s2: "s2 = s\<lparr>ns_wheel_step := w, ns_wheel_scroll_divisor := d, ns_audio_codec := co\<rparr>"
  proof -
    have "s2 = s\<lparr>ns_wheel_step := w, ns_wheel_scroll_divisor := d, ns_audio_codec := ns_audio_codec s2\<rparr>"
      using st(3) by (auto simp: apply_audio_codec_json_def split: json_read.splits if_splits)
    then show thesis by (rule that)
  qed
  have wf: "1 \<le> ns_wheel_step s \<and> ns_wheel_step s \<le> 120"
    "1 \<le> ns_wheel_scroll_divisor s \<and> ns_wheel_scroll_divisor s \<le> 120"
    "text_ok (ns_camera_device_id s2)" "text_ok (ns_audio_input_device_id s2)"
    "NATIVE_CAMERA_MIN_WIDTH \<le> ns_camera_width s2 \<and> ns_camera_width s2 \<le> NATIVE_CAMERA_MAX_WIDTH"
    "NATIVE_CAMERA_MIN_HEIGHT \<le> ns_camera_height s2 \<and> ns_camera_height s2 \<le> NATIVE_CAMERA_MAX_HEIGHT"
    "1 \<le> ns_camera_fps s2 \<and> ns_camera_fps s2 \<le> NATIVE_CAMERA_MAX_FPS"
    "- 12 \<le> ns_audio_input_gain_db s2 \<and> ns_audio_input_gain_db s2 \<le> 18"
    using assms(2) by (simp_all add: settings_wf_def s2)
  show ?thesis
    using assms(2) apply_u16_ok [OF st(1) wf(1)] apply_u16_ok [OF st(2) wf(2)] apply_u16_ok [OF st(5) wf(5)]
      apply_u16_ok [OF st(6) wf(6)] apply_u16_ok [OF st(7) wf(7)] apply_i16_ok [OF st(9) wf(8)]
      apply_string_ok [OF st(4) assms(3) wf(3)] apply_string_ok [OF st(8) assms(3) wf(4)] fin(1,2)
    unfolding settings_wf_def fin(3) s2 by simp
qed

lemma apply_json_ok:
  assumes "native_settings_apply_json alloc old json = (True, new)" "settings_wf old" "CHR 0x00 \<notin> set json"
  shows "settings_wf new"
proof -
  have len: "length (ns_sessions old) = 4" and all: "list_all session_wf (ns_sessions old)"
    using assms(2) by (simp_all add: settings_wf_def settings_consts)
  consider (array) mid where "apply_sessions_array alloc 0 old json = Some mid" "apply_global_json mid json = Some new"
    | (flat) c where "apply_session_json (ns_sessions old ! 1) json = Some c"
        "apply_global_json (old\<lparr>ns_sessions := (ns_sessions old)[1 := c]\<rparr>) json = Some new"
    using assms(1) unfolding native_settings_apply_json_def Let_def
    by (auto simp: NATIVE_SESSION_SLOT_GREEN_def split: if_splits option.splits)
  then show ?thesis
  proof cases
    case array
    from apply_sessions_ok [OF array(1) assms(3) len all]
    have "settings_wf mid" using assms(2) by (auto simp: settings_wf_def settings_consts)
    from apply_global_ok [OF array(2) this assms(3)] show ?thesis .
  next
    case flat
    have "session_wf (ns_sessions old ! 1)" using len all by (simp add: list_all_length)
    from apply_session_ok [OF flat(1) this assms(3)] have c: "session_wf c" .
    have "list_all session_wf ((ns_sessions old)[1 := c])"
      using all c by (metis list_all_length length_list_update nth_list_update_eq nth_list_update_neq)
    then have "settings_wf (old\<lparr>ns_sessions := (ns_sessions old)[1 := c]\<rparr>)"
      using assms(2) by (simp add: settings_wf_def)
    from apply_global_ok [OF flat(2) this assms(3)] show ?thesis .
  qed
qed

lemma settings_sessions_value:
  assumes "settings_wf s"
  shows "\<exists>v. native_json_find_value (native_settings_write_json s) ''sessions'' = Some v \<and> ch0 v = CHR ''[''"
proof -
  have "map_of (settings_fields s) ''sessions'' \<noteq> None" by (simp add: settings_fields_def)
  then obtain w where w: "map_of (settings_fields s) ''sessions'' = Some w" by blast
  from settings_holds [OF assms w] have "holds (native_settings_write_json s) ''sessions'' w" .
  moreover have "\<exists>x. w = CHR ''['' # x" using w by (auto simp: settings_fields_def arr_text_def)
  ultimately show ?thesis by (auto simp: holds_def ch0_def)
qed

lemma apply_written_json:
  assumes "settings_wf s" "length (ns_sessions old) = 4"
  shows "native_settings_apply_json (\<lambda>_. True) old (native_settings_write_json s) = (True, s)"
proof -
  obtain v where "native_json_find_value (native_settings_write_json s) ''sessions'' = Some v" "ch0 v = CHR ''[''"
    using settings_sessions_value [OF assms(1)] by blast
  then show ?thesis
    by (simp add: native_settings_apply_json_def settings_valid [OF assms(1)]
      apply_written_sessions [OF assms] apply_written_globals [OF assms(1)])
qed

section \<open>Properties\<close>

text \<open>
  C22: saving the settings and loading the saved text restores every field of them, whatever
  settings were loaded before.
\<close>

theorem settings_round_trip:
  assumes "settings_wf s" "length (ns_sessions old) = 4"
  shows "native_settings_apply_json (\<lambda>_. True) old (native_settings_write_json s) = (True, s)"
  by (rule apply_written_json [OF assms])

lemma settings_round_trip_witness:
  "native_settings_apply_json (\<lambda>_. True) native_settings_defaults
     (native_settings_write_json (native_settings_defaults\<lparr>ns_wheel_step := 7, ns_camera_device_id := ''cam-0''\<rparr>)) =
   (True, native_settings_defaults\<lparr>ns_wheel_step := 7, ns_camera_device_id := ''cam-0''\<rparr>)"
  by (rule settings_round_trip)
    (use settings_defaults_wf in \<open>simp_all add: settings_wf_def text_ok_def settings_consts\<close>)

text \<open>
  C23: whatever text is loaded, the settings stay well formed (every string fits its buffer, every
  number is in its range, the four profiles are kept), and a load that fails changes nothing.
\<close>

theorem settings_stay_well_formed:
  assumes "settings_wf old" "CHR 0x00 \<notin> set json" "native_settings_apply_json alloc old json = (ok, new)"
  shows "settings_wf new \<and> (\<not> ok \<longrightarrow> new = old)"
proof (cases ok)
  case True
  then show ?thesis using apply_json_ok [of alloc old json new] assms by simp
next
  case False
  then have "new = old" using assms(3)
    by (auto simp: native_settings_apply_json_def Let_def split: if_splits option.splits)
  then show ?thesis using assms(1) by simp
qed

lemma settings_stay_well_formed_witness:
  "settings_wf (snd (native_settings_apply_json (\<lambda>_. True) native_settings_defaults
     (''{'' @ key_text ''wheelStep'' @ ''999}'')))"
proof -
  have "CHR 0x00 \<notin> set (''{'' @ key_text ''wheelStep'' @ ''999}'')"
    unfolding key_text_def by simp
  from settings_stay_well_formed [OF settings_defaults_wf this prod.collapse [symmetric]]
  show ?thesis by blast
qed

end
