(* ===== verification/Capture_Redirect.thy ===== *)
theory Capture_Redirect
  imports Camera_Stream Audio_Pcm Native_Settings
begin

text \<open>
  Camera and microphone redirection: \<open>native/src/capture_slots.c\<close>, the lifecycle in
  \<open>native/src/capture_redirect.c\<close> and the sections of the camera and microphone workers
  (\<open>capture_camera_worker.c\<close>, \<open>capture_audio_worker.c\<close>) that run under the shared lock.
  Every operation here is one locked section, so a run of the threads is a sequence of them.
  An \<open>RdpSession *\<close> is the number of the session (None for NULL).  The Rust side is reached only
  through \<open>rdp_ffi.h\<close>: \<open>im_calls\<close> records every call in order, and the parameter \<open>ffi\<close> answers a
  submission from the calls made before it, so nothing is assumed of its mailboxes.  The guards
  against a manager that was never set up (\<open>redirect->impl\<close> NULL) have no counterpart: such a call
  changes nothing.
\<close>

section \<open>Data\<close>

definition NATIVE_CAPTURE_REDIRECT_MAX_SLOTS :: nat where "NATIVE_CAPTURE_REDIRECT_MAX_SLOTS = 4"
definition NATIVE_CAMERA_DEVICE_ID_MAX :: nat where "NATIVE_CAMERA_DEVICE_ID_MAX = 512"

text \<open>The submissions the Rust side may refuse, and all calls into it.\<close>

datatype RdpSubmission =
    SubmitCameraError nat u64
  | SubmitCameraH264 nat u64 "bytes option" bool
  | SubmitAudioInputPcm nat u64 "i16 list"

datatype RdpCall =
    SetCaptureActive nat bool
  | SetCameraAvailable nat bool
  | Submit RdpSubmission bool

record NativeCaptureSlot =
  sl_session :: "nat option"
  sl_camera_allowed :: bool
  sl_audio_allowed :: bool
  sl_camera_streaming :: bool
  sl_camera_generation :: u64
  sl_camera_width :: nat
  sl_camera_height :: nat
  sl_camera_fps :: nat
  sl_camera_credit :: nat
  sl_camera_available_requested :: bool
  sl_audio_streaming :: bool
  sl_audio_generation :: u64
  sl_audio_frames_per_packet :: nat

record NativeCaptureRedirectConfig =
  rc_camera_enabled :: bool
  rc_camera_device_id :: "string option"
  rc_camera_width :: nat
  rc_camera_height :: nat
  rc_camera_fps :: nat
  rc_audio_input_enabled :: bool
  rc_audio_input_device_id :: "string option"
  rc_audio_input_gain_db :: int

record NativeCaptureRedirectImpl =
  im_lock_initialized :: bool
  im_stop :: bool
  im_slot_generation :: "u32 list"
  im_slots :: "NativeCaptureSlot list"
  im_foreground_slot :: int
  im_camera_owner_epoch :: u64
  im_camera_physical_available :: bool
  im_camera_enabled :: bool
  im_camera_device_id :: string
  im_camera_width :: nat
  im_camera_height :: nat
  im_camera_fps :: nat
  im_audio_enabled :: bool
  im_audio_device_id :: string
  im_audio_gain_db :: int
  im_camera_thread_running :: bool
  im_audio_thread_running :: bool
  im_calls :: "RdpCall list" \<comment> \<open>the calls into \<open>rdp_ffi.h\<close> so far\<close>

definition capture_slot_index_valid :: "int \<Rightarrow> bool" where
  "capture_slot_index_valid slot \<longleftrightarrow> slot \<ge> 0 \<and> slot < int NATIVE_CAPTURE_REDIRECT_MAX_SLOTS"

definition slot_at :: "NativeCaptureRedirectImpl \<Rightarrow> nat \<Rightarrow> NativeCaptureSlot" where
  "slot_at im i = im_slots im ! i"

definition set_slot_at :: "NativeCaptureRedirectImpl \<Rightarrow> nat \<Rightarrow> NativeCaptureSlot \<Rightarrow> NativeCaptureRedirectImpl" where
  "set_slot_at im i s = im\<lparr>im_slots := (im_slots im)[i := s]\<rparr>"

definition rdp_call :: "RdpCall \<Rightarrow> NativeCaptureRedirectImpl \<Rightarrow> NativeCaptureRedirectImpl" where
  "rdp_call c im = im\<lparr>im_calls := im_calls im @ [c]\<rparr>"

text \<open>A submission: the answer of the Rust side, and the state with the call recorded.\<close>

definition rdp_submit :: "(RdpCall list \<Rightarrow> RdpSubmission \<Rightarrow> bool) \<Rightarrow> RdpSubmission \<Rightarrow>
    NativeCaptureRedirectImpl \<Rightarrow> bool \<times> NativeCaptureRedirectImpl" where
  "rdp_submit ffi s im = (let ok = ffi (im_calls im) s in (ok, rdp_call (Submit s ok) im))"

section \<open>Availability and credit\<close>

definition camera_slot_eligible_locked :: "NativeCaptureRedirectImpl \<Rightarrow> nat \<Rightarrow> bool" where
  "camera_slot_eligible_locked im i \<longleftrightarrow>
     im_camera_enabled im \<and> sl_session (slot_at im i) \<noteq> None \<and> sl_camera_allowed (slot_at im i)"

definition capture_slot_is_foreground_locked :: "NativeCaptureRedirectImpl \<Rightarrow> nat \<Rightarrow> bool" where
  "capture_slot_is_foreground_locked im i \<longleftrightarrow> im_foreground_slot im = int i"

definition camera_stream_requested_locked :: "NativeCaptureRedirectImpl \<Rightarrow> nat \<Rightarrow> bool" where
  "camera_stream_requested_locked im i \<longleftrightarrow>
     camera_slot_eligible_locked im i \<and> capture_slot_is_foreground_locked im i \<and>
     sl_camera_streaming (slot_at im i) \<and> sl_camera_width (slot_at im i) = im_camera_width im \<and>
     sl_camera_height (slot_at im i) = im_camera_height im \<and> sl_camera_fps (slot_at im i) = im_camera_fps im"

definition camera_any_eligible_locked :: "NativeCaptureRedirectImpl \<Rightarrow> bool" where
  "camera_any_eligible_locked im \<longleftrightarrow>
     list_ex (camera_slot_eligible_locked im) [0..<NATIVE_CAPTURE_REDIRECT_MAX_SLOTS]"

text \<open>The slot the camera worker streams to, its generation and its state generation; -1 for none.\<close>

definition camera_stream_target_locked :: "NativeCaptureRedirectImpl \<Rightarrow> int \<times> u64 \<times> u32" where
  "camera_stream_target_locked im =
     (case find (camera_stream_requested_locked im) [0..<NATIVE_CAPTURE_REDIRECT_MAX_SLOTS] of
        Some i \<Rightarrow> (int i, sl_camera_generation (slot_at im i), im_slot_generation im ! i)
      | None \<Rightarrow> (-1, 0, 0))"

text \<open>The condition both loops of the reconciliation compute for a slot.\<close>

definition camera_available :: "NativeCaptureRedirectImpl \<Rightarrow> nat \<Rightarrow> bool" where
  "camera_available im i \<longleftrightarrow> im_camera_physical_available im \<and> camera_slot_eligible_locked im i \<and>
     capture_slot_is_foreground_locked im i"

definition request_available :: "nat \<Rightarrow> bool \<Rightarrow> NativeCaptureRedirectImpl \<Rightarrow> NativeCaptureRedirectImpl" where
  "request_available i b im =
     (let im = (case sl_session (slot_at im i) of
                  Some h \<Rightarrow> rdp_call (SetCameraAvailable h b) im | None \<Rightarrow> im) in
      set_slot_at im i ((slot_at im i)\<lparr>sl_camera_available_requested := b\<rparr>))"

definition withdraw_camera :: "NativeCaptureRedirectImpl \<Rightarrow> nat \<Rightarrow> NativeCaptureRedirectImpl" where
  "withdraw_camera im i =
     (if \<not> sl_camera_available_requested (slot_at im i) \<or> camera_available im i then im
      else request_available i False im)"

definition advertise_camera :: "NativeCaptureRedirectImpl \<Rightarrow> nat \<Rightarrow> NativeCaptureRedirectImpl" where
  "advertise_camera im i =
     (if sl_camera_available_requested (slot_at im i) \<or> \<not> camera_available im i then im
      else request_available i True im)"

definition capture_update_camera_availability_locked ::
    "NativeCaptureRedirectImpl \<Rightarrow> NativeCaptureRedirectImpl" where
  "capture_update_camera_availability_locked im =
     foldl advertise_camera (foldl withdraw_camera im [0..<NATIVE_CAPTURE_REDIRECT_MAX_SLOTS])
       [0..<NATIVE_CAPTURE_REDIRECT_MAX_SLOTS]"

text \<open>Also \<open>capture_camera_set_physical_available\<close>, which only takes the lock around it.\<close>

definition camera_set_physical_available_locked ::
    "bool \<Rightarrow> NativeCaptureRedirectImpl \<Rightarrow> NativeCaptureRedirectImpl" where
  "camera_set_physical_available_locked physical_available im =
     (let physical_available = (if physical_available \<and> im_stop im then False else physical_available) in
      capture_update_camera_availability_locked (im\<lparr>im_camera_physical_available := physical_available\<rparr>))"

definition capture_camera_fail_credit_locked :: "(RdpCall list \<Rightarrow> RdpSubmission \<Rightarrow> bool) \<Rightarrow> int \<Rightarrow> u64 \<Rightarrow>
    NativeCaptureRedirectImpl \<Rightarrow> NativeCaptureRedirectImpl" where
  "capture_camera_fail_credit_locked ffi slot generation im =
     (if \<not> capture_slot_index_valid slot then im
      else let state = slot_at im (nat slot) in
        if \<not> sl_camera_streaming state \<or> sl_camera_generation state \<noteq> generation \<or>
           sl_camera_credit state = 0
        then im
        else case sl_session state of
          None \<Rightarrow> im
        | Some h \<Rightarrow>
          let (ok, im) = rdp_submit ffi (SubmitCameraError h (sl_camera_generation state)) im in
          if \<not> ok then im
          else set_slot_at im (nat slot) ((slot_at im (nat slot))\<lparr>sl_camera_credit := 0\<rparr>))"

section \<open>Ownership\<close>

text \<open>The loop that closes the mailboxes of every session but the new owner's.\<close>

definition close_background :: "(RdpCall list \<Rightarrow> RdpSubmission \<Rightarrow> bool) \<Rightarrow> int \<Rightarrow>
    NativeCaptureRedirectImpl \<Rightarrow> nat \<Rightarrow> NativeCaptureRedirectImpl" where
  "close_background ffi slot im i =
     (case sl_session (slot_at im i) of
        Some h \<Rightarrow>
          if int i \<noteq> slot then
            rdp_call (SetCaptureActive h False)
              (capture_camera_fail_credit_locked ffi (int i) (sl_camera_generation (slot_at im i)) im)
          else im
      | None \<Rightarrow> im)"

definition native_capture_redirect_set_foreground_slot :: "(RdpCall list \<Rightarrow> RdpSubmission \<Rightarrow> bool) \<Rightarrow> int \<Rightarrow>
    NativeCaptureRedirectImpl \<Rightarrow> NativeCaptureRedirectImpl" where
  "native_capture_redirect_set_foreground_slot ffi slot im =
     (if slot \<noteq> -1 \<and> \<not> capture_slot_index_valid slot then im
      else if im_foreground_slot im = slot then im
      else
        let im = foldl (close_background ffi slot) im [0..<NATIVE_CAPTURE_REDIRECT_MAX_SLOTS];
            im = im\<lparr>im_foreground_slot := slot, im_camera_owner_epoch := im_camera_owner_epoch im + 1\<rparr>;
            im = (if capture_slot_index_valid slot
                  then case sl_session (slot_at im (nat slot)) of
                         Some h \<Rightarrow> rdp_call (SetCaptureActive h True) im | None \<Rightarrow> im
                  else im) in
        capture_update_camera_availability_locked im)"

text \<open>\<open>set_slot\<close>, in the three parts of its body: the old session is let go,\<close>

definition release_session :: "(RdpCall list \<Rightarrow> RdpSubmission \<Rightarrow> bool) \<Rightarrow> nat \<Rightarrow> nat option \<Rightarrow>
    NativeCaptureRedirectImpl \<Rightarrow> NativeCaptureRedirectImpl" where
  "release_session ffi slot session im =
     (case sl_session (slot_at im slot) of
        None \<Rightarrow> im
      | Some h \<Rightarrow>
        if Some h = session then im
        else
          let im = capture_camera_fail_credit_locked ffi (int slot) (sl_camera_generation (slot_at im slot)) im;
              im = rdp_call (SetCaptureActive h False) im in
          if sl_camera_available_requested (slot_at im slot) then request_available slot False im else im)"

text \<open>the streams that are not allowed to go on are stopped,\<close>

definition stop_streams :: "(RdpCall list \<Rightarrow> RdpSubmission \<Rightarrow> bool) \<Rightarrow> nat \<Rightarrow> nat option \<Rightarrow> bool \<Rightarrow> bool \<Rightarrow>
    NativeCaptureRedirectImpl \<Rightarrow> NativeCaptureRedirectImpl" where
  "stop_streams ffi slot session camera_allowed audio_input_allowed im =
     (let session_changed = sl_session (slot_at im slot) \<noteq> session;
          im = (if session_changed \<or> \<not> camera_allowed then
                  let im = capture_camera_fail_credit_locked ffi (int slot)
                        (sl_camera_generation (slot_at im slot)) im in
                  set_slot_at im slot ((slot_at im slot)\<lparr>sl_camera_streaming := False, sl_camera_credit := 0\<rparr>)
                else im) in
      if \<not> audio_input_allowed \<or>
         (session_changed \<and> (sl_session (slot_at im slot) \<noteq> None \<or> session = None))
      then set_slot_at im slot
             ((slot_at im slot)\<lparr>sl_audio_streaming := False, sl_audio_frames_per_packet := 0\<rparr>)
      else im)"

text \<open>and the new session and its permissions are published.\<close>

definition publish_session :: "nat \<Rightarrow> nat option \<Rightarrow> bool \<Rightarrow> bool \<Rightarrow> NativeCaptureRedirectImpl \<Rightarrow>
    NativeCaptureRedirectImpl" where
  "publish_session slot session camera_allowed audio_input_allowed im =
     (let session_changed = sl_session (slot_at im slot) \<noteq> session;
          im = set_slot_at im slot ((slot_at im slot)\<lparr>sl_session := session,
                 sl_camera_allowed := camera_allowed, sl_audio_allowed := audio_input_allowed\<rparr>);
          im = (if session_changed
                then im\<lparr>im_slot_generation := (im_slot_generation im)[slot := im_slot_generation im ! slot + 1]\<rparr>
                else im) in
      case session of
        Some h \<Rightarrow> rdp_call (SetCaptureActive h (im_foreground_slot im = int slot)) im
      | None \<Rightarrow> im)"

definition native_capture_redirect_set_slot :: "(RdpCall list \<Rightarrow> RdpSubmission \<Rightarrow> bool) \<Rightarrow> int \<Rightarrow> nat option \<Rightarrow>
    bool \<Rightarrow> bool \<Rightarrow> NativeCaptureRedirectImpl \<Rightarrow> NativeCaptureRedirectImpl" where
  "native_capture_redirect_set_slot ffi slot session camera_allowed audio_input_allowed im =
     (if \<not> capture_slot_index_valid slot then im
      else capture_update_camera_availability_locked
        (publish_session (nat slot) session camera_allowed audio_input_allowed
          (stop_streams ffi (nat slot) session camera_allowed audio_input_allowed
            (release_session ffi (nat slot) session im))))"

section \<open>RDP worker callbacks\<close>

definition native_capture_redirect_camera_start :: "(RdpCall list \<Rightarrow> RdpSubmission \<Rightarrow> bool) \<Rightarrow> int \<Rightarrow> u64 \<Rightarrow>
    nat \<Rightarrow> nat \<Rightarrow> nat \<Rightarrow> NativeCaptureRedirectImpl \<Rightarrow> NativeCaptureRedirectImpl" where
  "native_capture_redirect_camera_start ffi slot generation width height fps im =
     (if \<not> capture_slot_index_valid slot then im
      else
        let i = nat slot;
            im = capture_camera_fail_credit_locked ffi slot (sl_camera_generation (slot_at im i)) im in
        set_slot_at im i ((slot_at im i)\<lparr>sl_camera_streaming := True, sl_camera_generation := generation,
          sl_camera_width := width, sl_camera_height := height, sl_camera_fps := fps,
          sl_camera_credit := 0\<rparr>))"

definition native_capture_redirect_camera_stop :: "int \<Rightarrow> u64 \<Rightarrow> NativeCaptureRedirectImpl \<Rightarrow>
    NativeCaptureRedirectImpl" where
  "native_capture_redirect_camera_stop slot generation im =
     (if \<not> capture_slot_index_valid slot then im
      else let state = slot_at im (nat slot) in
        if sl_camera_generation state = generation
        then set_slot_at im (nat slot) (state\<lparr>sl_camera_streaming := False, sl_camera_credit := 0\<rparr>)
        else im)"

definition native_capture_redirect_camera_sample_request :: "int \<Rightarrow> u64 \<Rightarrow> NativeCaptureRedirectImpl \<Rightarrow>
    NativeCaptureRedirectImpl" where
  "native_capture_redirect_camera_sample_request slot generation im =
     (if \<not> capture_slot_index_valid slot then im
      else let state = slot_at im (nat slot) in
        if sl_camera_streaming state \<and> sl_camera_generation state = generation \<and> sl_camera_credit state < 1
        then set_slot_at im (nat slot) (state\<lparr>sl_camera_credit := sl_camera_credit state + 1\<rparr>)
        else im)"

definition native_capture_redirect_audio_start :: "int \<Rightarrow> u64 \<Rightarrow> nat \<Rightarrow> nat \<Rightarrow> nat \<Rightarrow>
    NativeCaptureRedirectImpl \<Rightarrow> NativeCaptureRedirectImpl" where
  "native_capture_redirect_audio_start slot generation sample_rate channels frames_per_packet im =
     (if \<not> capture_slot_index_valid slot \<or> sample_rate \<noteq> NATIVE_AUDIO_INPUT_WIRE_RATE \<or>
         channels \<noteq> NATIVE_AUDIO_INPUT_WIRE_CHANNELS \<or> frames_per_packet = 0 \<or> frames_per_packet > 4096
      then im
      else set_slot_at im (nat slot) ((slot_at im (nat slot))\<lparr>sl_audio_streaming := True,
        sl_audio_generation := generation, sl_audio_frames_per_packet := frames_per_packet\<rparr>))"

definition native_capture_redirect_audio_stop :: "int \<Rightarrow> u64 \<Rightarrow> NativeCaptureRedirectImpl \<Rightarrow>
    NativeCaptureRedirectImpl" where
  "native_capture_redirect_audio_stop slot generation im =
     (if \<not> capture_slot_index_valid slot then im
      else let state = slot_at im (nat slot) in
        if sl_audio_generation state = generation
        then set_slot_at im (nat slot) (state\<lparr>sl_audio_streaming := False, sl_audio_frames_per_packet := 0\<rparr>)
        else im)"

section \<open>Payload\<close>

text \<open>One queued access unit to the foreground session, when the target is still the one the stream was opened for.\<close>

definition camera_submit_queued :: "(RdpCall list \<Rightarrow> RdpSubmission \<Rightarrow> bool) \<Rightarrow> nat \<Rightarrow> u64 \<Rightarrow> u32 \<Rightarrow> u64 \<Rightarrow>
    NativeCameraH264Stream \<Rightarrow> NativeCaptureRedirectImpl \<Rightarrow>
    bool \<times> NativeCameraH264Stream \<times> NativeCaptureRedirectImpl" where
  "camera_submit_queued ffi slot_index generation state_generation owner_epoch stream im =
     (let slot = slot_at im slot_index in
      case (if im_camera_owner_epoch im = owner_epoch \<and> im_slot_generation im ! slot_index = state_generation \<and>
               camera_stream_requested_locked im slot_index \<and> sl_camera_generation slot = generation \<and>
               sl_camera_credit slot > 0
            then native_camera_h264_stream_peek stream else None) of
        None \<Rightarrow> (True, stream, im)
      | Some packet \<Rightarrow>
        let (ok, im) = rdp_submit ffi (SubmitCameraH264 (the (sl_session slot)) (sl_camera_generation slot)
              (cp_data packet) (cp_is_idr packet)) im in
        if ok
        then (True, native_camera_h264_stream_pop stream,
              set_slot_at im slot_index (slot\<lparr>sl_camera_credit := sl_camera_credit slot - 1\<rparr>))
        else (False, stream, capture_camera_fail_credit_locked ffi (int slot_index) generation im))"

record CaptureTarget =
  ct_slot :: int
  ct_session :: "nat option"
  ct_state_generation :: u32

record AudioPacketSink =
  ps_target :: CaptureTarget
  ps_generation :: u64

record AudioDesiredStream =
  ds_active :: bool
  ds_target :: CaptureTarget
  ds_generation :: u64
  ds_frames_per_packet :: nat

definition target_matches_locked :: "NativeCaptureRedirectImpl \<Rightarrow> CaptureTarget \<Rightarrow> bool" where
  "target_matches_locked im target \<longleftrightarrow>
     (if \<not> capture_slot_index_valid (ct_slot target) \<or>
         im_slot_generation im ! nat (ct_slot target) \<noteq> ct_state_generation target
      then False
      else sl_session (slot_at im (nat (ct_slot target))) = ct_session target \<and> ct_session target \<noteq> None)"

text \<open>One converted packet of microphone samples.\<close>

definition audio_packet :: "(RdpCall list \<Rightarrow> RdpSubmission \<Rightarrow> bool) \<Rightarrow> AudioPacketSink \<Rightarrow> i16 list \<Rightarrow>
    NativeCaptureRedirectImpl \<Rightarrow> NativeCaptureRedirectImpl" where
  "audio_packet ffi sink samples im =
     (if target_matches_locked im (ps_target sink) then
        let slot = slot_at im (nat (ct_slot (ps_target sink))) in
        if capture_slot_is_foreground_locked im (nat (ct_slot (ps_target sink))) \<and>
           sl_audio_streaming slot \<and> sl_audio_generation slot = ps_generation sink
        then snd (rdp_submit ffi (SubmitAudioInputPcm (the (ct_session (ps_target sink))) (ps_generation sink) samples) im)
        else im
      else im)"

definition no_target :: CaptureTarget where
  "no_target = \<lparr>ct_slot = -1, ct_session = None, ct_state_generation = 0\<rparr>"

definition audio_desired :: "NativeCaptureRedirectImpl \<Rightarrow> nat \<Rightarrow> AudioDesiredStream" where
  "audio_desired im i =
     (let slot = slot_at im i in
      if \<not> im_audio_enabled im \<or> sl_session slot = None \<or> \<not> sl_audio_allowed slot \<or>
         \<not> capture_slot_is_foreground_locked im i \<or> \<not> sl_audio_streaming slot \<or>
         sl_audio_frames_per_packet slot = 0
      then \<lparr>ds_active = False, ds_target = no_target, ds_generation = 0, ds_frames_per_packet = 0\<rparr>
      else \<lparr>ds_active = True,
        ds_target = \<lparr>ct_slot = int i, ct_session = sl_session slot, ct_state_generation = im_slot_generation im ! i\<rparr>,
        ds_generation = sl_audio_generation slot, ds_frames_per_packet = sl_audio_frames_per_packet slot\<rparr>)"

definition audio_collect_desired_locked :: "NativeCaptureRedirectImpl \<Rightarrow> nat \<times> AudioDesiredStream list" where
  "audio_collect_desired_locked im =
     (let desired = map (audio_desired im) [0..<NATIVE_CAPTURE_REDIRECT_MAX_SLOTS] in
      (length (filter ds_active desired), desired))"

text \<open>The converter of one slot: the worker keeps it while the desired stream is the same.\<close>

record AudioStreamState =
  st_pcm :: "NativeAudioInputPcmImpl option"
  st_sink :: AudioPacketSink
  st_target :: CaptureTarget
  st_generation :: u64
  st_frames_per_packet :: nat
  st_input_rate :: u32
  st_input_channels :: nat
  st_active :: bool

definition audio_stream_reset :: AudioStreamState where
  "audio_stream_reset = \<lparr>st_pcm = None, st_sink = \<lparr>ps_target = no_target, ps_generation = 0\<rparr>,
     st_target = no_target, st_generation = 0, st_frames_per_packet = 0, st_input_rate = 0,
     st_input_channels = 0, st_active = False\<rparr>"

definition audio_stream_matches :: "AudioStreamState \<Rightarrow> AudioDesiredStream \<Rightarrow> u32 \<Rightarrow> nat \<Rightarrow> bool" where
  "audio_stream_matches stream desired input_rate input_channels \<longleftrightarrow>
     st_active stream \<and> st_pcm stream \<noteq> None \<and> ds_active desired \<and>
     ct_slot (st_target stream) = ct_slot (ds_target desired) \<and>
     ct_session (st_target stream) = ct_session (ds_target desired) \<and>
     ct_state_generation (st_target stream) = ct_state_generation (ds_target desired) \<and>
     st_generation stream = ds_generation desired \<and>
     st_frames_per_packet stream = ds_frames_per_packet desired \<and>
     st_input_rate stream = input_rate \<and> st_input_channels stream = input_channels"

text \<open>
  \<open>gain_of\<close> and \<open>mem\<close> are the converter's parameters (the gain table of \<open>pow\<close>, and whether its
  allocations succeed).  A converter that cannot be set up leaves the slot inactive with its sink filled in.
\<close>

definition audio_stream_sync :: "(int \<Rightarrow> int) \<Rightarrow> bool \<Rightarrow> NativeCaptureRedirectImpl \<Rightarrow> AudioStreamState \<Rightarrow>
    AudioDesiredStream \<Rightarrow> u32 \<Rightarrow> nat \<Rightarrow> AudioStreamState" where
  "audio_stream_sync gain_of mem im stream desired input_rate input_channels =
     (if audio_stream_matches stream desired input_rate input_channels then stream
      else
        let stream = audio_stream_reset in
        if \<not> ds_active desired then stream
        else
          let stream = stream\<lparr>st_sink := \<lparr>ps_target = ds_target desired, ps_generation = ds_generation desired\<rparr>\<rparr> in
          case native_audio_input_pcm_init gain_of mem input_rate input_channels (ds_frames_per_packet desired)
                 (im_audio_gain_db im) of
            None \<Rightarrow> stream
          | Some pcm \<Rightarrow> stream\<lparr>st_pcm := Some pcm, st_active := True, st_target := ds_target desired,
              st_generation := ds_generation desired, st_frames_per_packet := ds_frames_per_packet desired,
              st_input_rate := input_rate, st_input_channels := input_channels\<rparr>)"

section \<open>Lifecycle\<close>

definition capture_config_valid :: "NativeCaptureRedirectConfig \<Rightarrow> bool" where
  "capture_config_valid config \<longleftrightarrow>
     rc_camera_width config \<ge> NATIVE_CAMERA_MIN_WIDTH \<and> rc_camera_width config \<le> NATIVE_CAMERA_MAX_WIDTH \<and>
     rc_camera_width config mod 2 = 0 \<and>
     rc_camera_height config \<ge> NATIVE_CAMERA_MIN_HEIGHT \<and> rc_camera_height config \<le> NATIVE_CAMERA_MAX_HEIGHT \<and>
     rc_camera_height config mod 2 = 0 \<and>
     rc_camera_fps config > 0 \<and> rc_camera_fps config \<le> NATIVE_CAMERA_MAX_FPS \<and>
     rc_audio_input_gain_db config \<ge> -12 \<and> rc_audio_input_gain_db config \<le> 18"

text \<open>\<open>snprintf\<close> into a buffer of \<open>cap\<close> bytes.\<close>

definition print_into :: "nat \<Rightarrow> string option \<Rightarrow> string" where
  "print_into cap s = take (cap - 1) (case s of Some t \<Rightarrow> t | None \<Rightarrow> '''')"

definition capture_apply_config_locked :: "NativeCaptureRedirectConfig \<Rightarrow> NativeCaptureRedirectImpl \<Rightarrow>
    NativeCaptureRedirectImpl" where
  "capture_apply_config_locked config im = im\<lparr>
     im_camera_enabled := rc_camera_enabled config, im_camera_width := rc_camera_width config,
     im_camera_height := rc_camera_height config, im_camera_fps := rc_camera_fps config,
     im_audio_enabled := rc_audio_input_enabled config, im_audio_gain_db := rc_audio_input_gain_db config,
     im_camera_device_id := print_into NATIVE_CAMERA_DEVICE_ID_MAX (rc_camera_device_id config),
     im_audio_device_id := print_into 512 (rc_audio_input_device_id config),
     im_slot_generation := map (\<lambda>g. g + 1) (im_slot_generation im)\<rparr>"

text \<open>\<open>camera_ok\<close> and \<open>audio_ok\<close>: whether \<open>pthread_create\<close> succeeds for each worker.\<close>

definition capture_start_workers :: "bool \<Rightarrow> bool \<Rightarrow> NativeCaptureRedirectImpl \<Rightarrow>
    bool \<times> NativeCaptureRedirectImpl" where
  "capture_start_workers camera_ok audio_ok im =
     (let (ok, im) = (if im_camera_enabled im \<and> \<not> im_camera_thread_running im
                      then (camera_ok, im\<lparr>im_camera_thread_running := camera_ok\<rparr>) else (True, im)) in
      if im_audio_enabled im \<and> \<not> im_audio_thread_running im
      then (ok \<and> audio_ok, im\<lparr>im_audio_thread_running := audio_ok\<rparr>) else (ok, im))"

definition capture_slot_zero :: NativeCaptureSlot where
  "capture_slot_zero = \<lparr>sl_session = None, sl_camera_allowed = False, sl_audio_allowed = False,
     sl_camera_streaming = False, sl_camera_generation = 0, sl_camera_width = 0, sl_camera_height = 0,
     sl_camera_fps = 0, sl_camera_credit = 0, sl_camera_available_requested = False,
     sl_audio_streaming = False, sl_audio_generation = 0, sl_audio_frames_per_packet = 0\<rparr>"

text \<open>\<open>calloc\<close>.\<close>

definition capture_alloc_impl :: NativeCaptureRedirectImpl where
  "capture_alloc_impl = \<lparr>im_lock_initialized = False, im_stop = False,
     im_slot_generation = replicate NATIVE_CAPTURE_REDIRECT_MAX_SLOTS 0,
     im_slots = replicate NATIVE_CAPTURE_REDIRECT_MAX_SLOTS capture_slot_zero, im_foreground_slot = 0,
     im_camera_owner_epoch = 0, im_camera_physical_available = False, im_camera_enabled = False,
     im_camera_device_id = '''', im_camera_width = 0, im_camera_height = 0, im_camera_fps = 0,
     im_audio_enabled = False, im_audio_device_id = '''', im_audio_gain_db = 0,
     im_camera_thread_running = False, im_audio_thread_running = False, im_calls = []\<rparr>"

text \<open>The answer, and the manager when one was set up (\<open>mem\<close>, \<open>mutex_ok\<close>: allocation and mutex).\<close>

definition native_capture_redirect_init :: "bool \<Rightarrow> bool \<Rightarrow> bool \<Rightarrow> bool \<Rightarrow> NativeCaptureRedirectConfig \<Rightarrow>
    bool \<times> NativeCaptureRedirectImpl option" where
  "native_capture_redirect_init mem mutex_ok camera_ok audio_ok config =
     (if \<not> capture_config_valid config then (False, None)
      else if \<not> mem then (False, None)
      else
        let im = capture_apply_config_locked config (capture_alloc_impl\<lparr>im_foreground_slot := -1\<rparr>);
            im = im\<lparr>im_stop := False\<rparr> in
        if \<not> mutex_ok then (False, None)
        else case capture_start_workers camera_ok audio_ok (im\<lparr>im_lock_initialized := True\<rparr>) of
          (workers_ready, im) \<Rightarrow> (workers_ready, Some im))"

text \<open>
  The last locked section of the camera worker, with its own target: the control threads wait for
  it when they join the worker.
\<close>

definition camera_worker_exit :: "(RdpCall list \<Rightarrow> RdpSubmission \<Rightarrow> bool) \<Rightarrow> int \<Rightarrow> u64 \<Rightarrow>
    NativeCaptureRedirectImpl \<Rightarrow> NativeCaptureRedirectImpl" where
  "camera_worker_exit ffi active_slot active_generation im =
     camera_set_physical_available_locked False
       (capture_camera_fail_credit_locked ffi active_slot active_generation im)"

definition join_camera_worker :: "(RdpCall list \<Rightarrow> RdpSubmission \<Rightarrow> bool) \<Rightarrow> int \<times> u64 \<Rightarrow>
    NativeCaptureRedirectImpl \<Rightarrow> NativeCaptureRedirectImpl" where
  "join_camera_worker ffi worker im =
     (if im_camera_thread_running im
      then (camera_worker_exit ffi (fst worker) (snd worker) im)\<lparr>im_camera_thread_running := False\<rparr> else im)"

definition native_capture_redirect_reconfigure :: "(RdpCall list \<Rightarrow> RdpSubmission \<Rightarrow> bool) \<Rightarrow> int \<times> u64 \<Rightarrow>
    bool \<Rightarrow> bool \<Rightarrow> NativeCaptureRedirectConfig \<Rightarrow> NativeCaptureRedirectImpl \<Rightarrow>
    bool \<times> NativeCaptureRedirectImpl" where
  "native_capture_redirect_reconfigure ffi worker camera_ok audio_ok config im =
     (if \<not> capture_config_valid config then (False, im)
      else
        let im = im\<lparr>im_stop := True\<rparr>;
            im = join_camera_worker ffi worker im;
            im = im\<lparr>im_audio_thread_running := False\<rparr>;
            im = camera_set_physical_available_locked False im;
            im = capture_apply_config_locked config im;
            im = im\<lparr>im_stop := False\<rparr> in
        capture_start_workers camera_ok audio_ok im)"

definition destroy_slot :: "(RdpCall list \<Rightarrow> RdpSubmission \<Rightarrow> bool) \<Rightarrow> NativeCaptureRedirectImpl \<Rightarrow> nat \<Rightarrow>
    NativeCaptureRedirectImpl" where
  "destroy_slot ffi im i =
     (case sl_session (slot_at im i) of
        None \<Rightarrow> im
      | Some h \<Rightarrow>
        let im = rdp_call (SetCaptureActive h False)
              (capture_camera_fail_credit_locked ffi (int i) (sl_camera_generation (slot_at im i)) im);
            im = (if sl_camera_available_requested (slot_at im i) then request_available i False im else im) in
        set_slot_at im i ((slot_at im i)\<lparr>sl_session := None\<rparr>))"

definition destroy_sessions :: "(RdpCall list \<Rightarrow> RdpSubmission \<Rightarrow> bool) \<Rightarrow> NativeCaptureRedirectImpl \<Rightarrow>
    NativeCaptureRedirectImpl" where
  "destroy_sessions ffi im = foldl (destroy_slot ffi) im [0..<NATIVE_CAPTURE_REDIRECT_MAX_SLOTS]"

text \<open>The state just before the manager is freed.\<close>

definition native_capture_redirect_destroy :: "(RdpCall list \<Rightarrow> RdpSubmission \<Rightarrow> bool) \<Rightarrow> int \<times> u64 \<Rightarrow>
    NativeCaptureRedirectImpl \<Rightarrow> NativeCaptureRedirectImpl" where
  "native_capture_redirect_destroy ffi worker im =
     (let im = destroy_sessions ffi (im\<lparr>im_stop := True\<rparr>) in
      (join_camera_worker ffi worker im)\<lparr>im_audio_thread_running := False, im_lock_initialized := False\<rparr>)"

end
