(* ===== verification/Capture_Privacy.thy ===== *)
theory Capture_Privacy
  imports Capture_Redirect
begin

text \<open>
  The privacy boundary of camera and microphone redirection, proved over every interleaving of the
  locked sections.  Everything is read off the calls made to the Rust side: a session's payload
  gate is what the last \<open>rdp_set_capture_active\<close> said, its camera is advertised when the last
  \<open>rdp_set_camera_available\<close> said so.
\<close>

section \<open>What the Rust side has been told\<close>

definition gate_step :: "(nat \<Rightarrow> bool) \<Rightarrow> RdpCall \<Rightarrow> nat \<Rightarrow> bool" where
  "gate_step g c = (case c of SetCaptureActive h b \<Rightarrow> g(h := b) | _ \<Rightarrow> g)"

definition gates :: "RdpCall list \<Rightarrow> nat \<Rightarrow> bool" where
  "gates cs = foldl gate_step (\<lambda>_. False) cs"

definition advert_step :: "(nat \<Rightarrow> bool) \<Rightarrow> RdpCall \<Rightarrow> nat \<Rightarrow> bool" where
  "advert_step g c = (case c of SetCameraAvailable h b \<Rightarrow> g(h := b) | _ \<Rightarrow> g)"

definition advertised :: "RdpCall list \<Rightarrow> nat \<Rightarrow> bool" where
  "advertised cs = foldl advert_step (\<lambda>_. False) cs"

text \<open>
  A call is in order after the calls before it: payload only to an open gate, a gate opened
  only while every other one is closed, a camera advertised only while no other is.
\<close>

definition call_ok :: "RdpCall list \<Rightarrow> RdpCall \<Rightarrow> bool" where
  "call_ok cs c \<longleftrightarrow> (case c of
     Submit (SubmitCameraH264 h g d k) ok \<Rightarrow> gates cs h
   | Submit (SubmitAudioInputPcm h g s) ok \<Rightarrow> gates cs h
   | Submit (SubmitCameraError h g) ok \<Rightarrow> True
   | SetCaptureActive h b \<Rightarrow> b \<longrightarrow> (\<forall>h'. h' \<noteq> h \<longrightarrow> \<not> gates cs h')
   | SetCameraAvailable h b \<Rightarrow> b \<longrightarrow> gates cs h \<and> (\<forall>h'. h' \<noteq> h \<longrightarrow> \<not> advertised cs h'))"

definition trace_ok :: "RdpCall list \<Rightarrow> bool" where
  "trace_ok cs \<longleftrightarrow> (\<forall>k < length cs. call_ok (take k cs) (cs ! k))"

lemma gates_simps [simp]:
  "\<not> gates [] h" "gates (cs @ [SetCaptureActive h b]) = (gates cs)(h := b)"
  "gates (cs @ [SetCameraAvailable h b]) = gates cs" "gates (cs @ [Submit s ok]) = gates cs"
  by (simp_all add: gates_def gate_step_def)

lemma advertised_simps [simp]:
  "\<not> advertised [] h" "advertised (cs @ [SetCameraAvailable h b]) = (advertised cs)(h := b)"
  "advertised (cs @ [SetCaptureActive h b]) = advertised cs" "advertised (cs @ [Submit s ok]) = advertised cs"
  by (simp_all add: advertised_def advert_step_def)

lemma trace_ok_Nil [simp]: "trace_ok []"
  by (simp add: trace_ok_def)

lemma trace_ok_snoc [simp]: "trace_ok (cs @ [c]) \<longleftrightarrow> trace_ok cs \<and> call_ok cs c"
  by (auto simp: trace_ok_def nth_append less_Suc_eq)

lemma trace_one_gate: "trace_ok cs \<Longrightarrow> gates cs h \<Longrightarrow> gates cs h' \<Longrightarrow> h = h'"
proof (induction cs arbitrary: h h' rule: rev_induct)
  case (snoc c cs)
  have one: "gates cs x \<Longrightarrow> gates cs y \<Longrightarrow> x = y" for x y using snoc.IH snoc.prems(1) by simp
  have ok: "call_ok cs c" using snoc.prems(1) by simp
  show ?case
  proof (cases c)
    case (SetCaptureActive a b)
    then show ?thesis using ok snoc.prems(2,3) by (cases b) (auto simp: call_ok_def dest: one split: if_splits)
  qed (use snoc.prems(2,3) one in auto)
qed simp

lemma trace_ok_take: "trace_ok cs \<Longrightarrow> trace_ok (take k cs)"
  by (auto simp: trace_ok_def min_def)

section \<open>Projections that the proofs rewrite with\<close>

lemma calls_simps [simp]:
  "im_calls (rdp_call c im) = im_calls im @ [c]" "im_calls (set_slot_at im i s) = im_calls im"
  "im_slots (rdp_call c im) = im_slots im" "slot_at (rdp_call c im) = slot_at im"
  "im_foreground_slot (rdp_call c im) = im_foreground_slot im"
  "im_foreground_slot (set_slot_at im i s) = im_foreground_slot im"
  by (simp_all add: rdp_call_def set_slot_at_def slot_at_def fun_eq_iff)

lemma length_set_slot_at [simp]: "length (im_slots (set_slot_at im i s)) = length (im_slots im)"
  by (simp add: set_slot_at_def)

lemma slot_at_set [simp]:
  "i < length (im_slots im) \<Longrightarrow> slot_at (set_slot_at im i s) i = s"
  "i \<noteq> j \<Longrightarrow> slot_at (set_slot_at im i s) j = slot_at im j"
  by (simp_all add: set_slot_at_def slot_at_def)

text \<open>The fields no operation but the ownership and lifecycle ones writes.\<close>

definition frame :: "NativeCaptureRedirectImpl \<Rightarrow> int \<times> bool \<times> bool \<times> bool \<times> u64 \<times> u32 list \<times> nat \<times> nat \<times> nat \<times> bool \<times> bool" where
  "frame im = (im_foreground_slot im, im_camera_physical_available im, im_camera_enabled im, im_stop im,
     im_camera_owner_epoch im, im_slot_generation im, im_camera_width im, im_camera_height im, im_camera_fps im,
     im_audio_enabled im, im_camera_thread_running im)"

lemma frame_simps [simp]: "frame (rdp_call c im) = frame im" "frame (set_slot_at im i s) = frame im"
  by (simp_all add: frame_def rdp_call_def set_slot_at_def)

lemma frame_fields:
  assumes "frame im = frame im'"
  shows "im_foreground_slot im = im_foreground_slot im'" "im_camera_physical_available im = im_camera_physical_available im'"
    "im_camera_enabled im = im_camera_enabled im'" "im_stop im = im_stop im'"
    "im_slot_generation im = im_slot_generation im'"
  using assms by (simp_all add: frame_def)

text \<open>
  What a step leaves alone: \<open>quiet im im'\<close> says the sessions, permissions and availability
  requests are the same, no gate and no advertisement moved, and the calls made were in order.
\<close>

definition quiet :: "NativeCaptureRedirectImpl \<Rightarrow> NativeCaptureRedirectImpl \<Rightarrow> bool" where
  "quiet im im' \<longleftrightarrow> frame im' = frame im \<and> length (im_slots im') = length (im_slots im) \<and>
     (\<forall>i. sl_session (slot_at im' i) = sl_session (slot_at im i) \<and>
          sl_camera_allowed (slot_at im' i) = sl_camera_allowed (slot_at im i) \<and>
          sl_camera_available_requested (slot_at im' i) = sl_camera_available_requested (slot_at im i) \<and>
          (sl_camera_credit (slot_at im i) \<le> 1 \<longrightarrow> sl_camera_credit (slot_at im' i) \<le> 1)) \<and>
     gates (im_calls im') = gates (im_calls im) \<and> advertised (im_calls im') = advertised (im_calls im) \<and>
     (trace_ok (im_calls im) \<longrightarrow> trace_ok (im_calls im'))"

lemma quiet_refl [simp]: "quiet im im"
  by (simp add: quiet_def)

lemma quiet_trans: "quiet im im' \<Longrightarrow> quiet im' im'' \<Longrightarrow> quiet im im''"
  by (simp add: quiet_def)

lemma set_beyond: "\<not> i < length (im_slots im) \<Longrightarrow> set_slot_at im i s = im"
  by (simp add: set_slot_at_def list_update_beyond)

lemma quiet_set_slot:
  assumes "sl_session s = sl_session (slot_at im i)" "sl_camera_allowed s = sl_camera_allowed (slot_at im i)"
    "sl_camera_available_requested s = sl_camera_available_requested (slot_at im i)"
    "sl_camera_credit (slot_at im i) \<le> 1 \<Longrightarrow> sl_camera_credit s \<le> 1"
  shows "quiet im (set_slot_at im i s)"
proof (cases "i < length (im_slots im)")
  case True
  have "slot_at (set_slot_at im i s) j = (if j = i then s else slot_at im j)" for j using True by auto
  then show ?thesis using assms by (simp add: quiet_def)
qed (simp add: set_beyond)

lemma quiet_error: "quiet im (rdp_call (Submit (SubmitCameraError h g) ok) im)"
  by (simp add: quiet_def call_ok_def)

lemma quiet_fail_credit: "quiet im (capture_camera_fail_credit_locked ffi slot generation im)"
proof -
  let ?e = "\<lambda>h ok. rdp_call (Submit (SubmitCameraError h (sl_camera_generation (slot_at im (nat slot)))) ok) im"
  have "quiet im (set_slot_at (?e h ok) (nat slot) ((slot_at (?e h ok) (nat slot))\<lparr>sl_camera_credit := 0\<rparr>))" for h ok
    by (rule quiet_trans [OF quiet_error]) (rule quiet_set_slot, simp_all)
  then show ?thesis
    by (auto simp: capture_camera_fail_credit_locked_def rdp_submit_def Let_def quiet_error split: option.splits)
qed
section \<open>The invariant\<close>

definition sess :: "NativeCaptureRedirectImpl \<Rightarrow> nat \<Rightarrow> nat option" where
  "sess im i = sl_session (slot_at im i)"

definition req :: "NativeCaptureRedirectImpl \<Rightarrow> nat \<Rightarrow> bool" where
  "req im i = sl_camera_available_requested (slot_at im i)"

text \<open>What the two reconciliation loops do not touch.\<close>

definition view where
  "view im = (frame im, length (im_slots im), sess im, (\<lambda>i. sl_camera_allowed (slot_at im i)), gates (im_calls im))"

definition base_inv :: "NativeCaptureRedirectImpl \<Rightarrow> bool" where
  "base_inv im \<longleftrightarrow> length (im_slots im) = 4 \<and>
     (im_foreground_slot im = -1 \<or> capture_slot_index_valid (im_foreground_slot im)) \<and>
     (\<forall>i<4. \<forall>j<4. \<forall>h. sess im i = Some h \<and> sess im j = Some h \<longrightarrow> i = j) \<and>
     (\<forall>i<4. sl_camera_credit (slot_at im i) \<le> 1) \<and> trace_ok (im_calls im) \<and>
     (\<forall>h. advertised (im_calls im) h \<longleftrightarrow> (\<exists>i<4. sess im i = Some h \<and> req im i))"

definition gate_inv :: "NativeCaptureRedirectImpl \<Rightarrow> bool" where
  "gate_inv im \<longleftrightarrow> (\<forall>h. gates (im_calls im) h \<longleftrightarrow> (\<exists>i<4. im_foreground_slot im = int i \<and> sess im i = Some h))"

definition req_inv :: "NativeCaptureRedirectImpl \<Rightarrow> bool" where
  "req_inv im \<longleftrightarrow> (\<forall>i<4. req im i \<longleftrightarrow> camera_available im i)"

definition capture_inv :: "NativeCaptureRedirectImpl \<Rightarrow> bool" where
  "capture_inv im \<longleftrightarrow> base_inv im \<and> gate_inv im \<and> req_inv im"

lemma slots_4 [simp]: "NATIVE_CAPTURE_REDIRECT_MAX_SLOTS = 4"
  by (simp add: NATIVE_CAPTURE_REDIRECT_MAX_SLOTS_def)

lemma valid_iff: "capture_slot_index_valid slot \<longleftrightarrow> 0 \<le> slot \<and> nat slot < 4"
  by (auto simp: capture_slot_index_valid_def)

lemma view_available: "view im' = view im \<Longrightarrow> camera_available im' = camera_available im"
  by (auto simp: view_def camera_available_def camera_slot_eligible_locked_def capture_slot_is_foreground_locked_def
      frame_def sess_def fun_eq_iff)

lemma view_gate: "view im' = view im \<Longrightarrow> gate_inv im' \<longleftrightarrow> gate_inv im"
  by (simp add: view_def gate_inv_def frame_def)

lemma quiet_view: "quiet im im' \<Longrightarrow> view im' = view im"
  by (simp add: view_def quiet_def sess_def fun_eq_iff)

lemma quiet_base: "quiet im im' \<Longrightarrow> base_inv im \<Longrightarrow> base_inv im'"
  by (auto simp: base_inv_def quiet_def sess_def req_def frame_def)

lemma quiet_inv: "quiet im im' \<Longrightarrow> capture_inv im \<Longrightarrow> capture_inv im'"
  using quiet_base [of im im'] view_gate [OF quiet_view, of im im'] view_available [OF quiet_view, of im im']
  by (simp add: capture_inv_def req_inv_def) (simp add: quiet_def req_def)

lemma quiet_sess: "quiet im im' \<Longrightarrow> sess im' = sess im" "quiet im im' \<Longrightarrow> req im' = req im"
  "quiet im im' \<Longrightarrow> length (im_slots im') = length (im_slots im)"
  "quiet im im' \<Longrightarrow> im_foreground_slot im' = im_foreground_slot im"
  "quiet im im' \<Longrightarrow> gates (im_calls im') = gates (im_calls im)"
  by (simp_all add: quiet_def sess_def req_def fun_eq_iff frame_def)

section \<open>Reconciliation\<close>

lemma request_step:
  assumes "base_inv im" "i < 4" "\<And>h. sess im i = Some h \<Longrightarrow> call_ok (im_calls im) (SetCameraAvailable h b)"
  shows "view (request_available i b im) = view im" "req (request_available i b im) = (req im)(i := b)"
    "base_inv (request_available i b im)"
proof -
  let ?im = "request_available i b im"
  have len: "length (im_slots im) = 4" using assms(1) by (simp add: base_inv_def)
  have slot: "slot_at ?im j = (if j = i then (slot_at im i)\<lparr>sl_camera_available_requested := b\<rparr> else slot_at im j)" for j
    using len assms(2) by (auto simp: request_available_def Let_def split: option.splits)
  have calls: "im_calls ?im = im_calls im @ (case sess im i of Some h \<Rightarrow> [SetCameraAvailable h b] | None \<Rightarrow> [])"
    by (auto simp: request_available_def Let_def sess_def split: option.splits)
  have fr: "frame ?im = frame im" "length (im_slots ?im) = length (im_slots im)"
    by (auto simp: request_available_def Let_def split: option.splits)
  show v: "view ?im = view im"
    using fr slot calls by (auto simp: view_def sess_def fun_eq_iff split: option.splits)
  show r: "req ?im = (req im)(i := b)" by (rule ext) (simp add: req_def slot)
  have s: "sess ?im = sess im" using v by (simp add: view_def)
  have "trace_ok (im_calls ?im)" using calls assms(1,3) by (auto simp: base_inv_def split: option.splits)
  moreover have "\<forall>i<4. sl_camera_credit (slot_at im i) \<le> 1"
    and dist: "\<forall>i<4. \<forall>j<4. \<forall>h. sess im i = Some h \<and> sess im j = Some h \<longrightarrow> i = j"
    and adv: "advertised (im_calls im) h \<longleftrightarrow> (\<exists>j<4. sess im j = Some h \<and> req im j)" for h
    using assms(1) by (simp_all add: base_inv_def)
  then have "\<forall>i<4. sl_camera_credit (slot_at ?im i) \<le> 1" by (simp add: slot)
  moreover have "advertised (im_calls ?im) h \<longleftrightarrow> (\<exists>j<4. sess im j = Some h \<and> ((req im)(i := b)) j)" for h
  proof (cases "sess im i")
    case None
    then have "(sess im j = Some h \<and> ((req im)(i := b)) j) = (sess im j = Some h \<and> req im j)" for j by auto
    then show ?thesis using calls adv [of h] None by simp
  next
    case (Some g)
    then have "sess im j \<noteq> Some g" if "j < 4" "j \<noteq> i" for j using dist assms(2) that by blast
    note other = this
    show ?thesis
    proof (cases "h = g")
      case True
      then show ?thesis using calls Some other assms(2) by (auto simp: fun_upd_def)
    next
      case False
      then have "(sess im j = Some h \<and> ((req im)(i := b)) j) = (sess im j = Some h \<and> req im j)" for j
        using Some by auto
      then show ?thesis using calls adv [of h] Some False by simp
    qed
  qed
  ultimately show "base_inv ?im"
    using assms(1) fr s r by (simp add: base_inv_def frame_def)
qed

lemma withdraw_loop:
  "base_inv im \<Longrightarrow> set xs \<subseteq> {..<4} \<Longrightarrow>
   view (foldl withdraw_camera im xs) = view im \<and> base_inv (foldl withdraw_camera im xs) \<and>
   req (foldl withdraw_camera im xs) = (\<lambda>j. req im j \<and> (j \<in> set xs \<longrightarrow> camera_available im j))"
proof (induction xs arbitrary: im)
  case (Cons i xs)
  let ?im = "withdraw_camera im i"
  have one: "view ?im = view im \<and> base_inv ?im \<and>
      req ?im = (\<lambda>j. req im j \<and> (j = i \<longrightarrow> camera_available im j))"
  proof (cases "\<not> req im i \<or> camera_available im i")
    case True
    then show ?thesis using Cons.prems by (auto simp: withdraw_camera_def req_def)
  next
    case False
    then have "?im = request_available i False im" by (simp add: withdraw_camera_def req_def)
    with request_step [of im i False] Cons.prems False show ?thesis by (auto simp: call_ok_def fun_eq_iff)
  qed
  with Cons.IH [of ?im] Cons.prems view_available [of ?im im] show ?case by auto
qed simp

lemma advertise_loop:
  "base_inv im \<Longrightarrow> gate_inv im \<Longrightarrow> (\<forall>j<4. req im j \<longrightarrow> camera_available im j) \<Longrightarrow> set xs \<subseteq> {..<4} \<Longrightarrow>
   view (foldl advertise_camera im xs) = view im \<and> base_inv (foldl advertise_camera im xs) \<and>
   req (foldl advertise_camera im xs) = (\<lambda>j. req im j \<or> (j \<in> set xs \<and> camera_available im j))"
proof (induction xs arbitrary: im)
  case (Cons i xs)
  let ?im = "advertise_camera im i"
  have one: "view ?im = view im \<and> base_inv ?im \<and> req ?im = (\<lambda>j. req im j \<or> (j = i \<and> camera_available im j))"
  proof (cases "req im i \<or> \<not> camera_available im i")
    case True
    then show ?thesis using Cons.prems by (auto simp: advertise_camera_def req_def)
  next
    case False
    then have eq: "?im = request_available i True im" by (simp add: advertise_camera_def req_def)
    have i: "i < 4" using Cons.prems by simp
    have fg: "im_foreground_slot im = int i" using False by (simp add: camera_available_def capture_slot_is_foreground_locked_def)
    have "\<not> req im j" if "j < 4" for j
      using Cons.prems(3) False that fg by (auto simp: camera_available_def capture_slot_is_foreground_locked_def)
    then have "\<not> advertised (im_calls im) h" for h using Cons.prems(1) by (simp add: base_inv_def)
    moreover have "gates (im_calls im) h" if "sess im i = Some h" for h
      using Cons.prems(2) fg i that by (auto simp: gate_inv_def)
    ultimately have "call_ok (im_calls im) (SetCameraAvailable h True)" if "sess im i = Some h" for h
      using that by (simp add: call_ok_def)
    with request_step [of im i True] Cons.prems i False eq show ?thesis by (auto simp: fun_eq_iff)
  qed
  have "gate_inv ?im" using one Cons.prems(2) view_gate by blast
  moreover have "\<forall>j<4. req ?im j \<longrightarrow> camera_available ?im j"
    using one Cons.prems(3) view_available [of ?im im] by auto
  ultimately show ?case using Cons.IH [of ?im] Cons.prems one view_available [of ?im im] by auto
qed simp

lemma update_inv:
  assumes "base_inv im" "gate_inv im"
  shows "capture_inv (capture_update_camera_availability_locked im)"
    and "view (capture_update_camera_availability_locked im) = view im"
proof -
  let ?w = "foldl withdraw_camera im [0..<4]"
  let ?a = "foldl advertise_camera ?w [0..<4]"
  have sub: "set [0..<4] \<subseteq> {..<4 :: nat}" by auto
  have w: "view ?w = view im" "base_inv ?w" "req ?w = (\<lambda>j. req im j \<and> (j \<in> set [0..<4] \<longrightarrow> camera_available im j))"
    using withdraw_loop [OF assms(1), of "[0..<4]"] sub by auto
  have av: "camera_available ?w = camera_available im" by (rule view_available [OF w(1)])
  have a: "view ?a = view ?w" "base_inv ?a" "req ?a = (\<lambda>j. req ?w j \<or> (j \<in> set [0..<4] \<and> camera_available ?w j))"
    using advertise_loop [of ?w "[0..<4]"] w assms(2) av view_gate [OF w(1)] sub by auto
  have ava: "camera_available ?a = camera_available im" using view_available [OF a(1)] av by simp
  have "view ?a = view im" using a(1) w(1) by simp
  moreover from this have "gate_inv ?a" using assms(2) view_gate by blast
  moreover have "req_inv ?a" unfolding req_inv_def ava using a(3) w(3) av by auto
  ultimately show "capture_inv (capture_update_camera_availability_locked im)"
    "view (capture_update_camera_availability_locked im) = view im"
    using a(2) by (simp_all add: capture_inv_def capture_update_camera_availability_locked_def)
qed

section \<open>Every operation keeps it\<close>

lemma physical_inv [inv_pres]:
  assumes "base_inv im" "gate_inv im"
  shows "capture_inv (camera_set_physical_available_locked b im)"
  unfolding camera_set_physical_available_locked_def Let_def
  by (rule update_inv(1))
    (use assms in \<open>auto simp: base_inv_def gate_inv_def sess_def req_def slot_at_def\<close>)

lemma fail_credit_inv [inv_pres]:
  "capture_inv im \<Longrightarrow> capture_inv (capture_camera_fail_credit_locked ffi slot generation im)"
  by (rule quiet_inv [OF quiet_fail_credit])

lemma set_slot_inv:
  assumes "capture_inv im" "sl_session s = sl_session (slot_at im i)"
    "sl_camera_allowed s = sl_camera_allowed (slot_at im i)"
    "sl_camera_available_requested s = sl_camera_available_requested (slot_at im i)"
    "sl_camera_credit (slot_at im i) \<le> 1 \<Longrightarrow> sl_camera_credit s \<le> 1"
  shows "capture_inv (set_slot_at im i s)"
  by (rule quiet_inv [OF quiet_set_slot assms(1)]) (use assms(2-5) in simp_all)

lemma camera_start_inv [inv_pres]:
  "capture_inv im \<Longrightarrow> capture_inv (native_capture_redirect_camera_start ffi slot generation width height fps im)"
  unfolding native_capture_redirect_camera_start_def Let_def
  by (auto intro!: set_slot_inv fail_credit_inv)

lemma camera_stop_inv [inv_pres]:
  "capture_inv im \<Longrightarrow> capture_inv (native_capture_redirect_camera_stop slot generation im)"
  unfolding native_capture_redirect_camera_stop_def Let_def by (auto intro!: set_slot_inv)

lemma sample_request_inv [inv_pres]:
  "capture_inv im \<Longrightarrow> capture_inv (native_capture_redirect_camera_sample_request slot generation im)"
  unfolding native_capture_redirect_camera_sample_request_def Let_def by (auto intro!: set_slot_inv)

lemma audio_start_inv [inv_pres]:
  "capture_inv im \<Longrightarrow> capture_inv (native_capture_redirect_audio_start slot generation rate channels fpp im)"
  unfolding native_capture_redirect_audio_start_def Let_def by (auto intro!: set_slot_inv)

lemma audio_stop_inv [inv_pres]:
  "capture_inv im \<Longrightarrow> capture_inv (native_capture_redirect_audio_stop slot generation im)"
  unfolding native_capture_redirect_audio_stop_def Let_def by (auto intro!: set_slot_inv)

text \<open>A payload to an open gate is a quiet step.\<close>

lemma quiet_payload:
  "call_ok (im_calls im) (Submit s ok) \<Longrightarrow> quiet im (rdp_call (Submit s ok) im)"
  by (simp add: quiet_def)

lemma foreground_gate:
  "gate_inv im \<Longrightarrow> im_foreground_slot im = int i \<Longrightarrow> sess im i = Some h \<Longrightarrow> i < 4 \<Longrightarrow> gates (im_calls im) h"
  by (auto simp: gate_inv_def)

lemma submit_queued_quiet:
  assumes "capture_inv im" "i < 4"
  shows "quiet im (snd (snd (camera_submit_queued ffi i generation sgen epoch stream im)))"
proof (cases "camera_stream_requested_locked im i")
  case False
  then show ?thesis by (simp add: camera_submit_queued_def)
next
  case True
  then obtain h where h: "sl_session (slot_at im i) = Some h" "im_foreground_slot im = int i"
    by (auto simp: camera_stream_requested_locked_def camera_slot_eligible_locked_def
        capture_slot_is_foreground_locked_def)
  have g: "gates (im_calls im) h"
    using foreground_gate [of im i h] assms h by (simp add: capture_inv_def sess_def)
  let ?c = "\<lambda>p ok. rdp_call (Submit (SubmitCameraH264 h (sl_camera_generation (slot_at im i)) (cp_data p) (cp_is_idr p)) ok) im"
  have q: "quiet im (?c p ok)" for p ok by (rule quiet_payload) (simp add: call_ok_def g)
  have "quiet im (set_slot_at (?c p ok) i ((slot_at im i)\<lparr>sl_camera_credit := sl_camera_credit (slot_at im i) - 1\<rparr>))" for p ok
    by (rule quiet_trans [OF q]) (rule quiet_set_slot, simp_all)
  moreover have "quiet im (capture_camera_fail_credit_locked ffi (int i) generation (?c p ok))" for p ok
    by (rule quiet_trans [OF q quiet_fail_credit])
  ultimately show ?thesis
    using h by (auto simp: camera_submit_queued_def rdp_submit_def Let_def split: option.splits)
qed

lemma submit_queued_inv [inv_pres]:
  "capture_inv im \<Longrightarrow> i < 4 \<Longrightarrow>
   capture_inv (snd (snd (camera_submit_queued ffi i generation sgen epoch stream im)))"
  using quiet_inv submit_queued_quiet by blast

lemma audio_packet_inv [inv_pres]:
  assumes "capture_inv im"
  shows "capture_inv (audio_packet ffi sink samples im)"
proof -
  let ?i = "nat (ct_slot (ps_target sink))"
  have "quiet im (audio_packet ffi sink samples im)"
  proof (cases "target_matches_locked im (ps_target sink) \<and> capture_slot_is_foreground_locked im ?i")
    case True
    then obtain h where "sess im ?i = Some h" "ct_session (ps_target sink) = Some h"
      "im_foreground_slot im = int ?i" "?i < 4"
      by (auto simp: target_matches_locked_def capture_slot_is_foreground_locked_def sess_def valid_iff split: if_splits)
    moreover from this have "gates (im_calls im) h"
      using foreground_gate [of im ?i h] assms unfolding capture_inv_def by blast
    ultimately show ?thesis
      by (auto simp: audio_packet_def rdp_submit_def Let_def call_ok_def intro!: quiet_payload)
  qed (auto simp: audio_packet_def Let_def)
  then show ?thesis using quiet_inv assms by blast
qed

text \<open>Closing a gate needs no permission.\<close>

lemma close_call:
  assumes "base_inv im"
  shows "base_inv (rdp_call (SetCaptureActive h False) im)" "frame (rdp_call (SetCaptureActive h False) im) = frame im"
    "sess (rdp_call (SetCaptureActive h False) im) = sess im" "req (rdp_call (SetCaptureActive h False) im) = req im"
  using assms by (simp_all add: base_inv_def call_ok_def sess_def req_def frame_def rdp_call_def slot_at_def fun_eq_iff)

lemma close_one:
  assumes "base_inv im"
  shows "base_inv (close_background ffi slot im i) \<and> frame (close_background ffi slot im i) = frame im \<and>
    sess (close_background ffi slot im i) = sess im \<and> req (close_background ffi slot im i) = req im \<and>
    gates (im_calls (close_background ffi slot im i)) =
      (\<lambda>h. gates (im_calls im) h \<and> \<not> (int i \<noteq> slot \<and> sess im i = Some h))"
proof (cases "sess im i = None \<or> int i = slot")
  case True
  then show ?thesis using assms by (auto simp: close_background_def sess_def split: option.splits)
next
  case False
  then obtain h where h: "sl_session (slot_at im i) = Some h" "int i \<noteq> slot" by (auto simp: sess_def)
  let ?f = "capture_camera_fail_credit_locked ffi (int i) (sl_camera_generation (slot_at im i)) im"
  have q: "quiet im ?f" by (rule quiet_fail_credit)
  have "close_background ffi slot im i = rdp_call (SetCaptureActive h False) ?f"
    using h by (simp add: close_background_def)
  moreover have "frame ?f = frame im" using q by (simp add: quiet_def)
  ultimately show ?thesis
    using close_call [OF quiet_base [OF q assms], of h] quiet_sess [OF q] h by (auto simp: sess_def fun_eq_iff)
qed

lemma close_loop:
  "base_inv im \<Longrightarrow>
   base_inv (foldl (close_background ffi slot) im xs) \<and> frame (foldl (close_background ffi slot) im xs) = frame im \<and>
   sess (foldl (close_background ffi slot) im xs) = sess im \<and> req (foldl (close_background ffi slot) im xs) = req im \<and>
   gates (im_calls (foldl (close_background ffi slot) im xs)) =
     (\<lambda>h. gates (im_calls im) h \<and> \<not> (\<exists>i \<in> set xs. int i \<noteq> slot \<and> sess im i = Some h))"
proof (induction xs arbitrary: im)
  case (Cons i xs)
  from close_one [OF Cons.prems, of ffi slot i] Cons.IH [of "close_background ffi slot im i"] show ?case
    by (auto simp: fun_eq_iff)
qed simp

lemma base_inv_cong:
  assumes "base_inv im" "length (im_slots im') = length (im_slots im)" "slot_at im' = slot_at im" "im_calls im' = im_calls im"
    "im_foreground_slot im' = -1 \<or> capture_slot_index_valid (im_foreground_slot im')"
  shows "base_inv im'"
  using assms by (simp add: base_inv_def sess_def req_def)

lemma set_foreground_inv [inv_pres]:
  assumes "capture_inv im"
  shows "capture_inv (native_capture_redirect_set_foreground_slot ffi slot im)"
proof (cases "(slot \<noteq> -1 \<and> \<not> capture_slot_index_valid slot) \<or> im_foreground_slot im = slot")
  case True
  then show ?thesis using assms by (auto simp: native_capture_redirect_set_foreground_slot_def)
next
  case False
  define c where "c = foldl (close_background ffi slot) im [0..<4]"
  define o1 where "o1 = c\<lparr>im_foreground_slot := slot, im_camera_owner_epoch := im_camera_owner_epoch c + 1\<rparr>"
  define o2 where "o2 = (if capture_slot_index_valid slot
        then case sl_session (slot_at o1 (nat slot)) of Some h \<Rightarrow> rdp_call (SetCaptureActive h True) o1 | None \<Rightarrow> o1
        else o1)"
  have b: "base_inv im" "gate_inv im" using assms by (simp_all add: capture_inv_def)
  have c: "base_inv c" "sess c = sess im" "gates (im_calls c) h \<longleftrightarrow>
      gates (im_calls im) h \<and> \<not> (\<exists>i \<in> set [0..<4]. int i \<noteq> slot \<and> sess im i = Some h)" for h
    using close_loop [OF b(1), of ffi slot "[0..<4]"] by (simp_all add: c_def)
  have closed: "\<not> gates (im_calls c) h" for h using b(2) False c(3) [of h] by (auto simp: gate_inv_def)
  have o1: "base_inv o1" "sess o1 = sess im" "im_calls o1 = im_calls c" "im_foreground_slot o1 = slot"
    using base_inv_cong [OF c(1), of o1] False c(2) by (auto simp: o1_def sess_def slot_at_def fun_eq_iff)
  have dist: "i < 4 \<Longrightarrow> j < 4 \<Longrightarrow> sess im i = Some h \<Longrightarrow> sess im j = Some h \<Longrightarrow> i = j" for i j h
    using b(1) by (auto simp: base_inv_def)
  have "base_inv o2 \<and> gate_inv o2"
  proof (cases "capture_slot_index_valid slot \<and> sess im (nat slot) \<noteq> None")
    case True
    then obtain h where h: "sess im (nat slot) = Some h" "nat slot < 4" "int (nat slot) = slot"
      by (auto simp: valid_iff)
    then have o2: "o2 = rdp_call (SetCaptureActive h True) o1" using True o1(2) by (auto simp: o2_def sess_def fun_eq_iff)
    have "base_inv o2" using o1(1) closed o1(3)
      by (simp add: o2 base_inv_def call_ok_def sess_def req_def)
    moreover have "gate_inv o2"
      unfolding gate_inv_def
    proof
      fix x
      have "gates (im_calls o2) x \<longleftrightarrow> x = h" using closed o1(3) by (simp add: o2)
      moreover have "sess o2 = sess im" "im_foreground_slot o2 = slot"
        using o1(2,4) by (simp_all add: o2 sess_def fun_eq_iff)
      moreover have "(\<exists>i<4. slot = int i \<and> sess im i = Some x) \<longleftrightarrow> x = h" using h by auto
      ultimately show "gates (im_calls o2) x \<longleftrightarrow> (\<exists>i<4. im_foreground_slot o2 = int i \<and> sess o2 i = Some x)" by simp
    qed
    ultimately show ?thesis by simp
  next
    case no: False
    then have "o2 = o1" using o1(2) by (auto simp: o2_def sess_def fun_eq_iff split: option.splits)
    moreover have "\<not> (slot = int i \<and> sess im i = Some h \<and> i < 4)" for i h using no by (auto simp: valid_iff)
    ultimately show ?thesis using o1 closed by (auto simp: gate_inv_def)
  qed
  moreover have "native_capture_redirect_set_foreground_slot ffi slot im = capture_update_camera_availability_locked o2"
    using False unfolding native_capture_redirect_set_foreground_slot_def Let_def o2_def o1_def c_def slots_4 by auto
  ultimately show ?thesis using update_inv(1) by simp
qed

lemma release_session_ok:
  assumes "base_inv im" "i < 4" and nor: "sess im i = None \<longrightarrow> \<not> req im i"
  shows "base_inv (release_session ffi i session im)" "sess (release_session ffi i session im) = sess im"
    "im_foreground_slot (release_session ffi i session im) = im_foreground_slot im"
    "sess im i \<noteq> session \<Longrightarrow> \<not> req (release_session ffi i session im) i"
    "gates (im_calls (release_session ffi i session im)) =
       (\<lambda>h. gates (im_calls im) h \<and> (sess im i = Some h \<longrightarrow> session = Some h))"
    "req (release_session ffi i session im) j \<Longrightarrow> req im j"
proof -
  let ?r = "release_session ffi i session im"
  have b: "base_inv im" by (rule assms(1))
  have "base_inv ?r \<and> sess ?r = sess im \<and> im_foreground_slot ?r = im_foreground_slot im \<and>
    (sess im i \<noteq> session \<longrightarrow> \<not> req ?r i) \<and>
    gates (im_calls ?r) = (\<lambda>h. gates (im_calls im) h \<and> (sess im i = Some h \<longrightarrow> session = Some h)) \<and>
    (req ?r j \<longrightarrow> req im j)"
  proof (cases "sess im i = None \<or> sess im i = session")
    case True
    then have "?r = im" by (auto simp: release_session_def sess_def split: option.splits)
    then show ?thesis using b True nor by auto
  next
    case False
    then obtain h where h: "sl_session (slot_at im i) = Some h" "Some h \<noteq> session" by (auto simp: sess_def)
    define f where "f = rdp_call (SetCaptureActive h False)
      (capture_camera_fail_credit_locked ffi (int i) (sl_camera_generation (slot_at im i)) im)"
    have q: "quiet im (capture_camera_fail_credit_locked ffi (int i) (sl_camera_generation (slot_at im i)) im)"
      by (rule quiet_fail_credit)
    have f: "base_inv f" "sess f = sess im" "im_foreground_slot f = im_foreground_slot im"
      "gates (im_calls f) = (gates (im_calls im))(h := False)" "req f = req im"
      using close_call [OF quiet_base [OF q b], of h] quiet_sess [OF q] by (simp_all add: f_def)
    have r: "?r = (if req f i then request_available i False f else f)"
      using h unfolding release_session_def req_def Let_def f_def by simp
    have g: "base_inv ?r" "view ?r = view f" "\<not> req ?r i" "req ?r j \<longrightarrow> req im j"
      using request_step [OF f(1) assms(2), of False] f(1,5) by (auto simp: r call_ok_def split: if_splits)
    then have "sess ?r = sess im" "im_foreground_slot ?r = im_foreground_slot im"
      "gates (im_calls ?r) = (gates (im_calls im))(h := False)"
      using f by (simp_all add: view_def frame_def)
    then show ?thesis using g h by (auto simp: sess_def fun_eq_iff)
  qed
  then show "base_inv ?r" "sess ?r = sess im" "im_foreground_slot ?r = im_foreground_slot im"
    "sess im i \<noteq> session \<Longrightarrow> \<not> req ?r i"
    "gates (im_calls ?r) = (\<lambda>h. gates (im_calls im) h \<and> (sess im i = Some h \<longrightarrow> session = Some h))"
    "req ?r j \<Longrightarrow> req im j" by blast+
qed

lemma no_session_no_request: "capture_inv im \<Longrightarrow> i < 4 \<Longrightarrow> sess im i = None \<longrightarrow> \<not> req im i"
  by (auto simp: capture_inv_def req_inv_def camera_available_def camera_slot_eligible_locked_def sess_def)

lemma quiet_stop_streams: "quiet im (stop_streams ffi i session cam aud im)"
proof -
  let ?c = "sl_session (slot_at im i) \<noteq> session \<or> \<not> cam"
  define f where "f = capture_camera_fail_credit_locked ffi (int i) (sl_camera_generation (slot_at im i)) im"
  define m where "m = (if ?c then
      set_slot_at f i ((slot_at f i)\<lparr>sl_camera_streaming := False, sl_camera_credit := 0\<rparr>) else im)"
  have "quiet im f" unfolding f_def by (rule quiet_fail_credit)
  moreover have "quiet f (set_slot_at f i ((slot_at f i)\<lparr>sl_camera_streaming := False, sl_camera_credit := 0\<rparr>))"
    by (rule quiet_set_slot) simp_all
  ultimately have "quiet im m" unfolding m_def using quiet_trans quiet_refl by simp
  moreover have "quiet m (set_slot_at m i ((slot_at m i)\<lparr>sl_audio_streaming := False, sl_audio_frames_per_packet := 0\<rparr>))"
    by (rule quiet_set_slot) simp_all
  ultimately show ?thesis
    unfolding stop_streams_def Let_def f_def [symmetric] m_def [symmetric] using quiet_trans by (simp split: if_split)
qed

lemma publish_ok:
  assumes "base_inv im" "i < 4"
    and own: "\<And>j h. j < 4 \<Longrightarrow> j \<noteq> i \<Longrightarrow> session = Some h \<Longrightarrow> sess im j \<noteq> Some h"
    and ready: "sess im i \<noteq> session \<Longrightarrow> \<not> req im i"
    and g: "\<And>h. gates (im_calls im) h \<longleftrightarrow> (\<exists>j<4. im_foreground_slot im = int j \<and> sess im j = Some h \<and> (j = i \<longrightarrow> session = Some h))"
  shows "base_inv (publish_session i session cam aud im)" "gate_inv (publish_session i session cam aud im)"
proof -
  let ?p = "publish_session i session cam aud im"
  let ?fg = "im_foreground_slot im = int i"
  have len: "length (im_slots im) = 4" using assms(1) by (simp add: base_inv_def)
  have calls: "im_calls ?p = im_calls im @ (case session of Some h \<Rightarrow> [SetCaptureActive h ?fg] | None \<Rightarrow> [])"
    by (auto simp: publish_session_def Let_def rdp_call_def set_slot_at_def split: option.splits)
  have slots: "im_slots ?p = (im_slots im)[i := (slot_at im i)\<lparr>sl_session := session, sl_camera_allowed := cam,
      sl_audio_allowed := aud\<rparr>]"
    by (auto simp: publish_session_def Let_def set_slot_at_def split: option.splits)
  have fg: "im_foreground_slot ?p = im_foreground_slot im"
    by (auto simp: publish_session_def Let_def rdp_call_def set_slot_at_def split: option.splits)
  have sl: "slot_at ?p j = (if j = i then (slot_at im i)\<lparr>sl_session := session, sl_camera_allowed := cam,
      sl_audio_allowed := aud\<rparr> else slot_at im j)" for j
    using len assms(2) slots by (simp add: slot_at_def nth_list_update)
  have se: "sess ?p j = (if j = i then session else sess im j)" and re: "req ?p j = req im j" for j
    by (simp_all add: sess_def req_def sl)
  have dist: "j < 4 \<Longrightarrow> k < 4 \<Longrightarrow> sess im j = Some h \<Longrightarrow> sess im k = Some h \<Longrightarrow> j = k" for j k h
    using assms(1) by (auto simp: base_inv_def)
  have tr: "trace_ok (im_calls ?p)"
    using assms(1,2) g calls by (auto simp: base_inv_def call_ok_def split: option.splits)
  have cr: "\<forall>j<4. sl_camera_credit (slot_at ?p j) \<le> 1" using assms(1) by (simp add: sl base_inv_def)
  have ds: "\<forall>j<4. \<forall>k<4. \<forall>h. sess ?p j = Some h \<and> sess ?p k = Some h \<longrightarrow> j = k"
    using own dist by (auto simp: se)
  have ad: "advertised (im_calls ?p) h \<longleftrightarrow> (\<exists>j<4. sess ?p j = Some h \<and> req ?p j)" for h
  proof -
    have "advertised (im_calls ?p) h = advertised (im_calls im) h" using calls by (auto split: option.splits)
    also have "\<dots> \<longleftrightarrow> (\<exists>j<4. sess im j = Some h \<and> req im j)" using assms(1) by (simp add: base_inv_def)
    also have "\<dots> \<longleftrightarrow> (\<exists>j<4. sess ?p j = Some h \<and> req ?p j)"
      using ready by (cases "sess im i = session") (auto simp: se re)
    finally show ?thesis .
  qed
  have fv: "im_foreground_slot im = -1 \<or> capture_slot_index_valid (im_foreground_slot im)"
    using assms(1) by (simp add: base_inv_def)
  show "base_inv ?p" unfolding base_inv_def using tr cr ds ad fv fg slots len by simp
  show "gate_inv ?p" unfolding gate_inv_def
  proof
    fix h
    have "gates (im_calls ?p) h \<longleftrightarrow> (if session = Some h then ?fg else gates (im_calls im) h)"
      using calls by (auto split: option.splits)
    also have "\<dots> \<longleftrightarrow> (\<exists>j<4. im_foreground_slot im = int j \<and> sess ?p j = Some h)"
      using own assms(2) by (auto simp: se g)
    finally show "gates (im_calls ?p) h \<longleftrightarrow> (\<exists>j<4. im_foreground_slot ?p = int j \<and> sess ?p j = Some h)"
      by (simp add: fg)
  qed
qed

lemma set_slot_session_inv:
  assumes "capture_inv im" "\<And>j h. j < 4 \<Longrightarrow> int j \<noteq> slot \<Longrightarrow> session = Some h \<Longrightarrow> sess im j \<noteq> Some h"
  shows "capture_inv (native_capture_redirect_set_slot ffi slot session cam aud im)"
proof (cases "capture_slot_index_valid slot")
  case True
  define i where "i = nat slot"
  have i: "i < 4" "int i = slot" using True by (auto simp: valid_iff i_def)
  define r where "r = release_session ffi i session im"
  define t where "t = stop_streams ffi i session cam aud r"
  have "base_inv im" using assms(1) by (simp add: capture_inv_def)
  note r = release_session_ok [OF this i(1) no_session_no_request [OF assms(1) i(1)], where ffi = ffi and session = session, folded r_def]
  have q: "quiet r t" unfolding t_def by (rule quiet_stop_streams)
  have t: "base_inv t" "sess t = sess im" "im_foreground_slot t = im_foreground_slot im"
    "gates (im_calls t) = gates (im_calls r)" "req t = req r"
    using quiet_base [OF q r(1)] quiet_sess [OF q] r(2,3) by simp_all
  have g: "gates (im_calls t) h \<longleftrightarrow>
      (\<exists>j<4. im_foreground_slot t = int j \<and> sess t j = Some h \<and> (j = i \<longrightarrow> session = Some h))" for h
  proof -
    have a: "gates (im_calls im) h \<longleftrightarrow> (\<exists>j<4. im_foreground_slot im = int j \<and> sess im j = Some h)"
      using assms(1) by (simp add: capture_inv_def gate_inv_def)
    have d: "j < 4 \<Longrightarrow> sess im j = Some h \<Longrightarrow> sess im i = Some h \<Longrightarrow> j = i" for j
      using assms(1) i(1) by (auto simp: capture_inv_def base_inv_def)
    show ?thesis unfolding t(2-4) r(5) a using d by blast
  qed
  have p: "base_inv (publish_session i session cam aud t)" "gate_inv (publish_session i session cam aud t)"
    by (rule publish_ok [OF t(1) i(1) _ _ g]; use assms(2) i(2) r(4) t(2,5) in auto)+
  then show ?thesis using update_inv(1) [OF p] True
    by (simp add: native_capture_redirect_set_slot_def i_def t_def r_def)
qed (simp add: native_capture_redirect_set_slot_def assms(1))

section \<open>Lifecycle and steps\<close>

lemma capture_inv_cong:
  assumes "capture_inv im" "im_slots im' = im_slots im" "im_calls im' = im_calls im"
    "im_foreground_slot im' = im_foreground_slot im"
    "im_camera_physical_available im' = im_camera_physical_available im" "im_camera_enabled im' = im_camera_enabled im"
  shows "capture_inv im'"
proof -
  have "slot_at im' = slot_at im" using assms(2) by (simp add: slot_at_def fun_eq_iff)
  then show ?thesis using assms
    by (simp add: capture_inv_def base_inv_def gate_inv_def req_inv_def sess_def req_def camera_available_def
      camera_slot_eligible_locked_def capture_slot_is_foreground_locked_def)
qed

lemma apply_config_inv [inv_pres]:
  assumes "capture_inv im" "\<not> im_camera_physical_available im"
  shows "capture_inv (capture_apply_config_locked config im)"
proof -
  have "slot_at (capture_apply_config_locked config im) = slot_at im"
    by (simp add: slot_at_def fun_eq_iff capture_apply_config_locked_def)
  then show ?thesis using assms
    by (simp add: capture_inv_def base_inv_def gate_inv_def req_inv_def sess_def req_def camera_available_def
      capture_apply_config_locked_def)
qed

lemma destroy_slot_release:
  "destroy_slot ffi im i = (if sess im i = None then im
     else set_slot_at (release_session ffi i None im) i ((slot_at (release_session ffi i None im) i)\<lparr>sl_session := None\<rparr>))"
  by (auto simp: destroy_slot_def release_session_def sess_def Let_def split: option.splits)

definition closing_inv :: "NativeCaptureRedirectImpl \<Rightarrow> bool" where
  "closing_inv im \<longleftrightarrow> base_inv im \<and> gate_inv im \<and> (\<forall>i<4. sess im i = None \<longrightarrow> \<not> req im i)"

lemma destroy_slot_inv:
  assumes "closing_inv im" "i < 4"
  shows "closing_inv (destroy_slot ffi im i) \<and> sess (destroy_slot ffi im i) = (sess im)(i := None)"
proof (cases "sess im i")
  case None
  then show ?thesis using assms(1) by (simp add: destroy_slot_release fun_upd_idem)
next
  case (Some g)
  let ?r = "release_session ffi i None im"
  let ?d = "set_slot_at ?r i ((slot_at ?r i)\<lparr>sl_session := None\<rparr>)"
  have b: "base_inv im" "gate_inv im" "sess im i = None \<longrightarrow> \<not> req im i"
    using assms by (simp_all add: closing_inv_def)
  have i: "\<not> req ?r i" and r: "base_inv ?r" "sess ?r = sess im"
    "im_foreground_slot ?r = im_foreground_slot im"
    "gates (im_calls ?r) = (\<lambda>h. gates (im_calls im) h \<and> sess im i \<noteq> Some h)"
    and rq: "req ?r j \<Longrightarrow> req im j" for j
    using release_session_ok [OF b(1) assms(2) b(3), where ffi = ffi and session = None] Some by auto
  have len: "i < length (im_slots ?r)" using r(1) assms(2) by (simp add: base_inv_def)
  have sl: "slot_at ?d j = (if j = i then (slot_at ?r i)\<lparr>sl_session := None\<rparr> else slot_at ?r j)" for j
    using len by simp
  have se: "sess ?d j = (if j = i then None else sess im j)" and re: "req ?d j = req ?r j" for j
    using sl [of j] r(2) by (auto simp: sess_def req_def fun_eq_iff)
  have dist: "j < 4 \<Longrightarrow> k < 4 \<Longrightarrow> sess im j = Some h \<Longrightarrow> sess im k = Some h \<Longrightarrow> j = k" for j k h
    using b(1) by (auto simp: base_inv_def)
  have ad: "advertised (im_calls ?d) h \<longleftrightarrow> (\<exists>j<4. sess ?d j = Some h \<and> req ?d j)" for h
  proof -
    have "advertised (im_calls ?d) h \<longleftrightarrow> (\<exists>j<4. sess im j = Some h \<and> req ?r j)"
      using r(1) by (simp add: base_inv_def r(2))
    moreover have "(sess im j = Some h \<and> req ?r j) = (sess ?d j = Some h \<and> req ?d j)" for j
      using i by (cases "j = i") (simp_all add: se re)
    ultimately show ?thesis by simp
  qed
  have "\<forall>j<4. \<forall>k<4. \<forall>h. sess ?d j = Some h \<and> sess ?d k = Some h \<longrightarrow> j = k"
    using dist by (auto simp: se split: if_splits)
  moreover have "\<forall>j<4. sl_camera_credit (slot_at ?d j) \<le> 1" using r(1) by (simp add: base_inv_def sl)
  ultimately have "base_inv ?d"
    using r(1) ad unfolding base_inv_def by simp
  moreover have "gate_inv ?d"
  proof -
    have "(im_foreground_slot im = int j \<and> sess im j = Some h \<and> sess im i \<noteq> Some h) =
        (im_foreground_slot im = int j \<and> sess ?d j = Some h)" if "j < 4" for j h
      using dist [OF that assms(2)] by (cases "j = i") (auto simp: se)
    then show ?thesis using b(2) unfolding gate_inv_def by (simp add: r(3,4)) blast
  qed
  moreover have "\<forall>j<4. sess ?d j = None \<longrightarrow> \<not> req ?d j"
    using assms(1) rq i by (auto simp: closing_inv_def se re)
  moreover have "sess ?d = (sess im)(i := None)" by (simp add: fun_eq_iff se)
  ultimately show ?thesis using Some by (simp add: closing_inv_def destroy_slot_release)
qed

lemma destroy_loop:
  "closing_inv im \<Longrightarrow> set xs \<subseteq> {..<4} \<Longrightarrow> closing_inv (foldl (destroy_slot ffi) im xs) \<and>
   sess (foldl (destroy_slot ffi) im xs) = (\<lambda>i. if i \<in> set xs then None else sess im i)"
proof (induction xs arbitrary: im)
  case (Cons i xs)
  with destroy_slot_inv [of im i ffi] show ?case by (auto simp: fun_eq_iff)
qed simp

lemma destroy_inv [inv_pres]:
  assumes "capture_inv im"
  shows "capture_inv (destroy_sessions ffi im)" "i < 4 \<Longrightarrow> sess (destroy_sessions ffi im) i = None"
proof -
  have "set [0..<4] \<subseteq> {..<4 :: nat}" by auto
  moreover have "closing_inv im"
    using assms no_session_no_request [OF assms] by (simp add: closing_inv_def capture_inv_def)
  ultimately have d: "closing_inv (destroy_sessions ffi im)"
    "sess (destroy_sessions ffi im) = (\<lambda>i. if i < 4 then None else sess im i)"
    using destroy_loop [of im "[0..<4]" ffi] by (auto simp: destroy_sessions_def fun_eq_iff)
  then have "req_inv (destroy_sessions ffi im)"
    by (auto simp: closing_inv_def req_inv_def camera_available_def camera_slot_eligible_locked_def sess_def [symmetric])
  then show "capture_inv (destroy_sessions ffi im)" "i < 4 \<Longrightarrow> sess (destroy_sessions ffi im) i = None"
    using d by (simp_all add: closing_inv_def capture_inv_def)
qed

text \<open>
  The atomic steps of the control, RDP and worker threads.  A session handle is published in one
  slot only (each slot of the program owns its session), and the device configuration is replaced
  only while the workers are stopped and the camera is withdrawn, as \<open>reconfigure\<close> does.
\<close>

datatype CaptureOp =
    SetForeground int
  | SetSlot int "nat option" bool bool
  | CameraStart int u64 nat nat nat
  | CameraStop int u64
  | SampleRequest int u64
  | AudioStart int u64 nat nat nat
  | AudioStop int u64
  | FailCredit int u64
  | SetPhysical bool
  | SubmitQueued nat u64 u32 u64 NativeCameraH264Stream
  | AudioPacket AudioPacketSink "i16 list"
  | SetStop bool
  | ApplyConfig NativeCaptureRedirectConfig
  | SetThreads bool bool
  | DestroySessions

fun capture_exec :: "(RdpCall list \<Rightarrow> RdpSubmission \<Rightarrow> bool) \<Rightarrow> CaptureOp \<Rightarrow> NativeCaptureRedirectImpl \<Rightarrow>
    NativeCaptureRedirectImpl" where
  "capture_exec ffi (SetForeground slot) im = native_capture_redirect_set_foreground_slot ffi slot im"
| "capture_exec ffi (SetSlot slot session cam aud) im = native_capture_redirect_set_slot ffi slot session cam aud im"
| "capture_exec ffi (CameraStart slot g w h f) im = native_capture_redirect_camera_start ffi slot g w h f im"
| "capture_exec ffi (CameraStop slot g) im = native_capture_redirect_camera_stop slot g im"
| "capture_exec ffi (SampleRequest slot g) im = native_capture_redirect_camera_sample_request slot g im"
| "capture_exec ffi (AudioStart slot g r c n) im = native_capture_redirect_audio_start slot g r c n im"
| "capture_exec ffi (AudioStop slot g) im = native_capture_redirect_audio_stop slot g im"
| "capture_exec ffi (FailCredit slot g) im = capture_camera_fail_credit_locked ffi slot g im"
| "capture_exec ffi (SetPhysical b) im = camera_set_physical_available_locked b im"
| "capture_exec ffi (SubmitQueued i g sg e stream) im = snd (snd (camera_submit_queued ffi i g sg e stream im))"
| "capture_exec ffi (AudioPacket sink samples) im = audio_packet ffi sink samples im"
| "capture_exec ffi (SetStop b) im = im\<lparr>im_stop := b\<rparr>"
| "capture_exec ffi (ApplyConfig config) im = capture_apply_config_locked config im"
| "capture_exec ffi (SetThreads c a) im = im\<lparr>im_camera_thread_running := c, im_audio_thread_running := a\<rparr>"
| "capture_exec ffi DestroySessions im = destroy_sessions ffi im"

fun capture_allowed :: "CaptureOp \<Rightarrow> NativeCaptureRedirectImpl \<Rightarrow> bool" where
  "capture_allowed (SetSlot slot (Some h) cam aud) im \<longleftrightarrow> list_all (\<lambda>j. int j \<noteq> slot \<longrightarrow> sess im j \<noteq> Some h) [0..<4]"
| "capture_allowed (SubmitQueued i g sg e stream) im \<longleftrightarrow> i < NATIVE_CAPTURE_REDIRECT_MAX_SLOTS"
| "capture_allowed (ApplyConfig config) im \<longleftrightarrow> im_stop im \<and> \<not> im_camera_physical_available im"
| "capture_allowed _ im \<longleftrightarrow> True"

inductive capture_reach :: "(RdpCall list \<Rightarrow> RdpSubmission \<Rightarrow> bool) \<Rightarrow> NativeCaptureRedirectImpl \<Rightarrow> bool"
  for ffi :: "RdpCall list \<Rightarrow> RdpSubmission \<Rightarrow> bool" where
  capture_init: "native_capture_redirect_init mem mutex_ok camera_ok audio_ok config = (ready, Some im) \<Longrightarrow>
    capture_reach ffi im"
| capture_step: "capture_reach ffi im \<Longrightarrow> capture_allowed op im \<Longrightarrow> capture_reach ffi (capture_exec ffi op im)"

lemma capture_exec_inv:
  assumes "capture_inv im" "capture_allowed op im"
  shows "capture_inv (capture_exec ffi op im)"
proof (cases op)
  case (SetSlot slot session cam aud)
  have "sess im j \<noteq> Some h" if "j < 4" "int j \<noteq> slot" "session = Some h" for j h
    using assms(2) that by (simp add: SetSlot list_all_iff)
  from set_slot_session_inv [OF assms(1) this] show ?thesis by (simp add: SetSlot)
next
  case (SetPhysical b)
  then show ?thesis using assms physical_inv by (simp add: capture_inv_def)
next
  case (ApplyConfig config)
  then show ?thesis using assms by (simp add: inv_pres)
next
  case (SetStop b)
  show ?thesis unfolding SetStop capture_exec.simps by (rule capture_inv_cong [OF assms(1)]) simp_all
next
  case (SetThreads c a)
  show ?thesis unfolding SetThreads capture_exec.simps by (rule capture_inv_cong [OF assms(1)]) simp_all
qed (use assms in \<open>simp_all add: inv_pres\<close>)

lemma capture_init_inv:
  assumes "native_capture_redirect_init mem mutex_ok camera_ok audio_ok config = (ready, Some im)"
  shows "capture_inv im"
proof -
  define im0 where "im0 = (capture_apply_config_locked config (capture_alloc_impl\<lparr>im_foreground_slot := -1\<rparr>))
      \<lparr>im_stop := False, im_lock_initialized := True\<rparr>"
  have s: "slot_at im0 i = capture_slot_zero" if "i < 4" for i
    using that by (simp add: im0_def capture_apply_config_locked_def capture_alloc_impl_def slot_at_def)
  have "capture_inv im0"
    using s by (simp add: capture_inv_def base_inv_def gate_inv_def req_inv_def sess_def req_def camera_available_def
      camera_slot_eligible_locked_def capture_slot_zero_def)
      (simp add: im0_def capture_apply_config_locked_def capture_alloc_impl_def)
  moreover have "im = snd (capture_start_workers camera_ok audio_ok im0)"
    using assms by (auto simp: native_capture_redirect_init_def im0_def split: if_splits prod.splits)
  ultimately show ?thesis
    by (auto simp: capture_start_workers_def Let_def elim!: capture_inv_cong split: if_splits)
qed

lemma reach_inv: "capture_reach ffi im \<Longrightarrow> capture_inv im"
  by (induction rule: capture_reach.induct) (use capture_init_inv capture_exec_inv in auto)

inductive_simps capture_reach_iff: "capture_reach ffi im"

section \<open>Credits\<close>

text \<open>An answer to the server: an access unit or a sample error that entered the mailbox.\<close>

definition is_answer :: "RdpCall \<Rightarrow> bool" where
  "is_answer c \<longleftrightarrow> (case c of Submit (SubmitCameraH264 h g d k) ok \<Rightarrow> ok
     | Submit (SubmitCameraError h g) ok \<Rightarrow> ok | _ \<Rightarrow> False)"

definition is_request :: "CaptureOp \<Rightarrow> bool" where
  "is_request op \<longleftrightarrow> (case op of SampleRequest slot g \<Rightarrow> True | _ \<Rightarrow> False)"

text \<open>Answers given, and credits still to be answered.\<close>

definition promised :: "NativeCaptureRedirectImpl \<Rightarrow> nat" where
  "promised im = length (filter is_answer (im_calls im)) + sum_list (map sl_camera_credit (im_slots im))"

lemma is_answer_simps [simp]:
  "is_answer (Submit (SubmitCameraH264 h g d k) ok) = ok" "is_answer (Submit (SubmitCameraError h g) ok) = ok"
  "\<not> is_answer (Submit (SubmitAudioInputPcm h g s) ok)" "\<not> is_answer (SetCaptureActive h b)"
  "\<not> is_answer (SetCameraAvailable h b)"
  by (simp_all add: is_answer_def)

lemma promised_call [simp]: "promised (rdp_call c im) = promised im + (if is_answer c then 1 else 0)"
  by (simp add: promised_def)

lemma sum_list_replace:
  "i < length xs \<Longrightarrow> sum_list (xs[i := v]) + xs ! i = sum_list xs + (v :: nat)"
  by (induction xs arbitrary: i) (auto split: nat.splits)

lemma promised_set_slot:
  "i < length (im_slots im) \<Longrightarrow> promised (set_slot_at im i s) + sl_camera_credit (slot_at im i) =
     promised im + sl_camera_credit s"
  using sum_list_replace [of i "map sl_camera_credit (im_slots im)" "sl_camera_credit s"]
  by (simp add: promised_def set_slot_at_def slot_at_def map_update [symmetric])

lemma promised_set_le: "sl_camera_credit s \<le> sl_camera_credit (slot_at im i) \<Longrightarrow> promised (set_slot_at im i s) \<le> promised im"
  using promised_set_slot [of i im s] by (cases "i < length (im_slots im)") (auto simp: set_beyond)

lemma fail_credit_cases:
  "capture_camera_fail_credit_locked ffi slot g im = im \<or>
   (\<exists>h. capture_camera_fail_credit_locked ffi slot g im =
      rdp_call (Submit (SubmitCameraError h (sl_camera_generation (slot_at im (nat slot)))) False) im) \<or>
   (\<exists>h. capture_camera_fail_credit_locked ffi slot g im = set_slot_at
      (rdp_call (Submit (SubmitCameraError h (sl_camera_generation (slot_at im (nat slot)))) True) im) (nat slot)
      ((slot_at im (nat slot))\<lparr>sl_camera_credit := 0\<rparr>) \<and>
      sl_camera_credit (slot_at im (nat slot)) \<noteq> 0 \<and> nat slot < 4)"
proof (cases "capture_slot_index_valid slot \<and> sl_camera_streaming (slot_at im (nat slot)) \<and>
    sl_camera_generation (slot_at im (nat slot)) = g \<and> sl_camera_credit (slot_at im (nat slot)) \<noteq> 0")
  case True
  then show ?thesis
    by (cases "sl_session (slot_at im (nat slot))")
      (auto simp: capture_camera_fail_credit_locked_def rdp_submit_def Let_def valid_iff)
qed (auto simp: capture_camera_fail_credit_locked_def)

lemma promised_fail_credit:
  assumes "length (im_slots im) = 4"
  shows "promised (capture_camera_fail_credit_locked ffi slot g im) \<le> promised im"
proof -
  let ?s = "slot_at im (nat slot)"
  consider (none) "capture_camera_fail_credit_locked ffi slot g im = im"
    | (refused) h where "capture_camera_fail_credit_locked ffi slot g im =
        rdp_call (Submit (SubmitCameraError h (sl_camera_generation ?s)) False) im"
    | (answered) h where "capture_camera_fail_credit_locked ffi slot g im = set_slot_at
        (rdp_call (Submit (SubmitCameraError h (sl_camera_generation ?s)) True) im) (nat slot) (?s\<lparr>sl_camera_credit := 0\<rparr>)"
        "sl_camera_credit ?s \<noteq> 0" "nat slot < 4"
    using fail_credit_cases [of ffi slot g im] by blast
  then show ?thesis
  proof cases
    case (answered h)
    let ?m = "rdp_call (Submit (SubmitCameraError h (sl_camera_generation ?s)) True) im"
    have "promised (set_slot_at ?m (nat slot) (?s\<lparr>sl_camera_credit := 0\<rparr>)) + sl_camera_credit ?s = promised im + 1"
      using promised_set_slot [of "nat slot" ?m "?s\<lparr>sl_camera_credit := 0\<rparr>"] answered(3) assms by simp
    then show ?thesis using answered(1,2) by simp
  qed simp_all
qed

lemma promised_request_available: "promised (request_available i b im) \<le> promised im"
  by (auto simp: request_available_def Let_def split: option.splits
      intro!: order_trans [OF promised_set_le])

lemma promised_update: "promised (capture_update_camera_availability_locked im) \<le> promised im"
proof -
  have "promised (foldl withdraw_camera im xs) \<le> promised im" for xs im
    by (induction xs arbitrary: im)
      (auto simp: withdraw_camera_def intro: order_trans promised_request_available)
  moreover have "promised (foldl advertise_camera im xs) \<le> promised im" for xs im
    by (induction xs arbitrary: im)
      (auto simp: advertise_camera_def intro: order_trans promised_request_available)
  ultimately show ?thesis unfolding capture_update_camera_availability_locked_def using order_trans by blast
qed

lemma promised_fields [simp]:
  "promised (im\<lparr>im_foreground_slot := f, im_camera_owner_epoch := e\<rparr>) = promised im"
  "promised (im\<lparr>im_slot_generation := g\<rparr>) = promised im" "promised (im\<lparr>im_stop := b\<rparr>) = promised im"
  "promised (im\<lparr>im_camera_physical_available := b\<rparr>) = promised im"
  "promised (im\<lparr>im_camera_thread_running := b, im_audio_thread_running := c\<rparr>) = promised im"
  "promised (capture_apply_config_locked config im) = promised im"
  by (simp_all add: promised_def capture_apply_config_locked_def)

lemma length_fail_credit [simp]:
  "length (im_slots (capture_camera_fail_credit_locked ffi slot g im)) = length (im_slots im)"
  using quiet_fail_credit [of im ffi slot g] by (simp add: quiet_def)

lemma promised_close:
  "length (im_slots im) = 4 \<Longrightarrow> promised (close_background ffi slot im i) \<le> promised im \<and>
     length (im_slots (close_background ffi slot im i)) = 4"
  by (auto simp: close_background_def promised_fail_credit split: option.splits)

lemma promised_close_loop:
  "length (im_slots im) = 4 \<Longrightarrow> promised (foldl (close_background ffi slot) im xs) \<le> promised im"
proof (induction xs arbitrary: im)
  case (Cons i xs)
  then show ?case using promised_close [of im ffi slot i] by (auto intro: order_trans)
qed simp

lemma promised_set_foreground:
  assumes "length (im_slots im) = 4"
  shows "promised (native_capture_redirect_set_foreground_slot ffi slot im) \<le> promised im"
proof -
  let ?c = "foldl (close_background ffi slot) im [0..<4]"
  let ?o = "?c\<lparr>im_foreground_slot := slot, im_camera_owner_epoch := im_camera_owner_epoch ?c + 1\<rparr>"
  have "promised (capture_update_camera_availability_locked ?o) \<le> promised im"
    "promised (capture_update_camera_availability_locked (rdp_call (SetCaptureActive h True) ?o)) \<le> promised im" for h
    using promised_close_loop [OF assms, of ffi slot "[0..<4]"] promised_update [of ?o]
      promised_update [of "rdp_call (SetCaptureActive h True) ?o"] by simp_all
  then show ?thesis
    by (auto simp: native_capture_redirect_set_foreground_slot_def Let_def split: option.splits)
qed

lemma length_request_available [simp]: "length (im_slots (request_available i b im)) = length (im_slots im)"
  by (simp add: request_available_def Let_def split: option.splits)

lemma promised_release:
  assumes "length (im_slots im) = 4"
  shows "promised (release_session ffi i session im) \<le> promised im"
    "length (im_slots (release_session ffi i session im)) = 4"
proof -
  let ?f = "\<lambda>h. rdp_call (SetCaptureActive h False)
      (capture_camera_fail_credit_locked ffi (int i) (sl_camera_generation (slot_at im i)) im)"
  have "promised (?f h) \<le> promised im" for h using promised_fail_credit [OF assms] by simp
  moreover from this have "promised (request_available i False (?f h)) \<le> promised im" for h
    using promised_request_available order_trans by blast
  ultimately show "promised (release_session ffi i session im) \<le> promised im"
    "length (im_slots (release_session ffi i session im)) = 4"
    using assms by (auto simp: release_session_def Let_def split: option.splits)
qed

lemma promised_stop_streams:
  assumes "length (im_slots im) = 4"
  shows "promised (stop_streams ffi i session cam aud im) \<le> promised im"
proof -
  let ?c = "sl_session (slot_at im i) \<noteq> session \<or> \<not> cam"
  define f where "f = capture_camera_fail_credit_locked ffi (int i) (sl_camera_generation (slot_at im i)) im"
  define m where "m = (if ?c then
      set_slot_at f i ((slot_at f i)\<lparr>sl_camera_streaming := False, sl_camera_credit := 0\<rparr>) else im)"
  have "promised f \<le> promised im" unfolding f_def by (rule promised_fail_credit [OF assms])
  then have "promised m \<le> promised im"
    using promised_set_le [of "(slot_at f i)\<lparr>sl_camera_streaming := False, sl_camera_credit := 0\<rparr>" f i]
    by (auto simp: m_def)
  moreover have "promised (set_slot_at m i ((slot_at m i)\<lparr>sl_audio_streaming := False, sl_audio_frames_per_packet := 0\<rparr>))
      \<le> promised m" by (rule promised_set_le) simp
  ultimately show ?thesis
    unfolding stop_streams_def Let_def f_def [symmetric] m_def [symmetric] by auto
qed

lemma promised_publish: "promised (publish_session i session cam aud im) \<le> promised im"
  using promised_set_le [of "(slot_at im i)\<lparr>sl_session := session, sl_camera_allowed := cam, sl_audio_allowed := aud\<rparr>" im i]
  by (auto simp: publish_session_def Let_def split: option.splits)

lemma promised_set_slot_session:
  assumes "length (im_slots im) = 4"
  shows "promised (native_capture_redirect_set_slot ffi slot session cam aud im) \<le> promised im"
proof -
  let ?r = "release_session ffi (nat slot) session im"
  let ?t = "stop_streams ffi (nat slot) session cam aud ?r"
  have "promised (publish_session (nat slot) session cam aud ?t) \<le> promised im"
    using promised_publish [of "nat slot" session cam aud ?t] promised_stop_streams [OF promised_release(2) [OF assms]]
      promised_release(1) [OF assms] by (meson order_trans)
  then show ?thesis
    using promised_update order_trans by (fastforce simp: native_capture_redirect_set_slot_def)
qed

lemma promised_destroy_slot:
  assumes "length (im_slots im) = 4"
  shows "promised (destroy_slot ffi im i) \<le> promised im \<and> length (im_slots (destroy_slot ffi im i)) = 4"
proof -
  let ?r = "release_session ffi i None im"
  have "promised (set_slot_at ?r i ((slot_at ?r i)\<lparr>sl_session := None\<rparr>)) \<le> promised ?r"
    by (rule promised_set_le) simp
  then show ?thesis using promised_release [OF assms, of ffi i None] assms by (auto simp: destroy_slot_release)
qed

lemma promised_destroy: "length (im_slots im) = 4 \<Longrightarrow> promised (foldl (destroy_slot ffi) im xs) \<le> promised im"
proof (induction xs arbitrary: im)
  case (Cons i xs)
  then show ?case using promised_destroy_slot [of im ffi i] by (auto intro: order_trans)
qed simp

lemma promised_submit_queued:
  assumes "length (im_slots im) = 4" "i < 4"
  shows "promised (snd (snd (camera_submit_queued ffi i g sg e stream im))) \<le> promised im"
proof (cases "sl_camera_credit (slot_at im i) > 0")
  case True
  let ?s = "(slot_at im i)\<lparr>sl_camera_credit := sl_camera_credit (slot_at im i) - 1\<rparr>"
  have "promised (set_slot_at (rdp_call (Submit (SubmitCameraH264 h g' d k) True) im) i ?s) \<le> promised im" for h g' d k
    using promised_set_slot [of i "rdp_call (Submit (SubmitCameraH264 h g' d k) True) im" ?s] assms True by simp
  moreover have "promised (capture_camera_fail_credit_locked ffi (int i) g
      (rdp_call (Submit (SubmitCameraH264 h g' d k) False) im)) \<le> promised im" for h g' d k
    using promised_fail_credit [of "rdp_call (Submit (SubmitCameraH264 h g' d k) False) im"] assms(1) by simp
  ultimately show ?thesis
    by (auto simp: camera_submit_queued_def rdp_submit_def Let_def split: option.splits)
qed (simp add: camera_submit_queued_def)

lemma promised_exec:
  assumes "capture_inv im" "capture_allowed op im"
  shows "promised (capture_exec ffi op im) \<le> promised im + (if is_request op then 1 else 0)"
proof -
  have len: "length (im_slots im) = 4" using assms(1) by (simp add: capture_inv_def base_inv_def)
  show ?thesis
  proof (cases op)
    case (CameraStart slot g w h f)
    let ?f = "capture_camera_fail_credit_locked ffi slot (sl_camera_generation (slot_at im (nat slot))) im"
    have "promised (set_slot_at ?f (nat slot) ((slot_at ?f (nat slot))\<lparr>sl_camera_streaming := True,
        sl_camera_generation := g, sl_camera_width := w, sl_camera_height := h, sl_camera_fps := f,
        sl_camera_credit := 0\<rparr>)) \<le> promised ?f" by (rule promised_set_le) simp
    then show ?thesis using promised_fail_credit [OF len, of ffi slot] order_trans
      by (fastforce simp: CameraStart native_capture_redirect_camera_start_def Let_def)
  next
    case (SampleRequest slot g)
    let ?s = "(slot_at im (nat slot))\<lparr>sl_camera_credit := sl_camera_credit (slot_at im (nat slot)) + 1\<rparr>"
    have "nat slot < 4 \<Longrightarrow> promised (set_slot_at im (nat slot) ?s) \<le> promised im + 1"
      using promised_set_slot [of "nat slot" im ?s] len by simp
    then show ?thesis
      by (auto simp: SampleRequest native_capture_redirect_camera_sample_request_def Let_def is_request_def valid_iff)
  next
    case (SubmitQueued i g sg e stream)
    then show ?thesis using promised_submit_queued [OF len] assms(2) by (simp add: is_request_def)
  next
    case (AudioPacket sink samples)
    then show ?thesis by (simp add: audio_packet_def rdp_submit_def Let_def)
  next
    case DestroySessions
    then show ?thesis using promised_destroy [OF len] by (simp add: destroy_sessions_def is_request_def)
  qed (simp_all add: len is_request_def promised_set_foreground promised_set_slot_session promised_fail_credit
      camera_set_physical_available_locked_def Let_def native_capture_redirect_camera_stop_def
      native_capture_redirect_audio_start_def native_capture_redirect_audio_stop_def promised_set_le
      promised_update [THEN order_trans])
qed

text \<open>A run of steps; None when one of them was not allowed.\<close>

fun capture_run :: "(RdpCall list \<Rightarrow> RdpSubmission \<Rightarrow> bool) \<Rightarrow> CaptureOp list \<Rightarrow> NativeCaptureRedirectImpl \<Rightarrow>
    NativeCaptureRedirectImpl option" where
  "capture_run ffi [] im = Some im"
| "capture_run ffi (op # ops) im =
     (if capture_allowed op im then capture_run ffi ops (capture_exec ffi op im) else None)"

lemma run_reach: "capture_run ffi ops im = Some im' \<Longrightarrow> capture_reach ffi im \<Longrightarrow> capture_reach ffi im'"
  by (induction ops arbitrary: im) (auto split: if_splits intro: capture_step)

lemma promised_run:
  "capture_inv im \<Longrightarrow> capture_run ffi ops im = Some im' \<Longrightarrow>
   promised im' \<le> promised im + length (filter is_request ops)"
proof (induction ops arbitrary: im)
  case (Cons op ops)
  then have a: "capture_allowed op im" "capture_run ffi ops (capture_exec ffi op im) = Some im'"
    by (auto split: if_splits)
  from Cons.IH [OF capture_exec_inv [OF Cons.prems(1) a(1)] a(2)] promised_exec [OF Cons.prems(1) a(1), of ffi]
  show ?case by auto
qed simp

lemma promised_init:
  "native_capture_redirect_init mem mutex_ok camera_ok audio_ok config = (ready, Some im) \<Longrightarrow> promised im = 0"
  by (auto simp: native_capture_redirect_init_def capture_start_workers_def Let_def promised_def
      capture_apply_config_locked_def capture_alloc_impl_def capture_slot_zero_def split: if_splits)

text \<open>\<open>reconfigure\<close> is a run of the steps, and so is \<open>destroy\<close>.\<close>

lemma physical_view:
  assumes "capture_inv im"
  shows "im_stop (camera_set_physical_available_locked b im) = im_stop im"
    "\<not> im_camera_physical_available (camera_set_physical_available_locked False im)"
proof -
  have v: "view (capture_update_camera_availability_locked (im\<lparr>im_camera_physical_available := x\<rparr>)) =
      view (im\<lparr>im_camera_physical_available := x\<rparr>)" for x
    by (rule update_inv(2))
      (use assms in \<open>auto simp: capture_inv_def base_inv_def gate_inv_def sess_def req_def slot_at_def\<close>)
  show "im_stop (camera_set_physical_available_locked b im) = im_stop im"
    "\<not> im_camera_physical_available (camera_set_physical_available_locked False im)"
    using v [of "b \<and> \<not> im_stop im"] v [of False]
    by (auto simp: camera_set_physical_available_locked_def view_def frame_def Let_def if_distrib)
qed

lemma start_workers_threads:
  "\<exists>c a. snd (capture_start_workers camera_ok audio_ok im) = im\<lparr>im_camera_thread_running := c, im_audio_thread_running := a\<rparr>"
proof (intro exI)
  show "snd (capture_start_workers camera_ok audio_ok im) = im\<lparr>
      im_camera_thread_running := (if im_camera_enabled im \<and> \<not> im_camera_thread_running im then camera_ok
        else im_camera_thread_running im),
      im_audio_thread_running := (if im_audio_enabled im \<and> \<not> im_audio_thread_running im then audio_ok
        else im_audio_thread_running im)\<rparr>"
    by (cases im) (simp add: capture_start_workers_def)
qed

lemma join_reach:
  assumes "capture_reach ffi im"
  shows "capture_reach ffi (join_camera_worker ffi worker im)" "im_stop (join_camera_worker ffi worker im) = im_stop im"
proof -
  let ?f = "capture_camera_fail_credit_locked ffi (fst worker) (snd worker) im"
  have f: "capture_reach ffi ?f" using capture_step [OF assms, of "FailCredit (fst worker) (snd worker)"] by simp
  have e: "capture_reach ffi (camera_worker_exit ffi (fst worker) (snd worker) im)"
    using capture_step [OF f, of "SetPhysical False"] by (simp add: camera_worker_exit_def)
  show "capture_reach ffi (join_camera_worker ffi worker im)"
    using assms capture_step [OF e, of "SetThreads False (im_audio_thread_running (camera_worker_exit ffi (fst worker) (snd worker) im))"]
    by (simp add: join_camera_worker_def)
  have "im_stop ?f = im_stop im" using quiet_fail_credit [of im ffi "fst worker" "snd worker"] by (simp add: quiet_def frame_def)
  then show "im_stop (join_camera_worker ffi worker im) = im_stop im"
    using physical_view(1) [OF reach_inv [OF f]] by (simp add: join_camera_worker_def camera_worker_exit_def)
qed

lemma reconfigure_reach:
  assumes "capture_reach ffi im"
  shows "capture_reach ffi (snd (native_capture_redirect_reconfigure ffi worker camera_ok audio_ok config im))"
proof (cases "capture_config_valid config")
  case True
  define b where "b = join_camera_worker ffi worker (im\<lparr>im_stop := True\<rparr>)"
  define c where "c = b\<lparr>im_audio_thread_running := False\<rparr>"
  define d where "d = camera_set_physical_available_locked False c"
  define e where "e = capture_apply_config_locked config d"
  have "capture_reach ffi (im\<lparr>im_stop := True\<rparr>)" using capture_step [OF assms, of "SetStop True"] by simp
  from join_reach [OF this, of worker] have b: "capture_reach ffi b" "im_stop b" by (simp_all add: b_def)
  have c: "capture_reach ffi c" using capture_step [OF b(1), of "SetThreads (im_camera_thread_running b) False"]
    by (simp add: c_def)
  have d: "capture_reach ffi d" using capture_step [OF c, of "SetPhysical False"] by (simp add: d_def)
  have "im_stop d" "\<not> im_camera_physical_available d"
    using physical_view [OF reach_inv [OF c]] b(2) by (simp_all add: d_def c_def)
  then have "capture_reach ffi (e\<lparr>im_stop := False\<rparr>)"
    using capture_step [OF capture_step [OF d, of "ApplyConfig config"], of "SetStop False"] by (simp add: e_def)
  from capture_step [OF this, of "SetThreads x y" for x y] start_workers_threads [of camera_ok audio_ok "e\<lparr>im_stop := False\<rparr>"]
  have "capture_reach ffi (snd (capture_start_workers camera_ok audio_ok (e\<lparr>im_stop := False\<rparr>)))" by auto
  then show ?thesis
    using True by (simp add: native_capture_redirect_reconfigure_def Let_def b_def c_def d_def e_def)
qed (simp add: assms native_capture_redirect_reconfigure_def)

lemma destroy_reach:
  assumes "capture_reach ffi im"
  shows "\<exists>d. capture_reach ffi d \<and> native_capture_redirect_destroy ffi worker im =
      d\<lparr>im_audio_thread_running := False, im_lock_initialized := False\<rparr>"
proof -
  have "capture_reach ffi (destroy_sessions ffi (im\<lparr>im_stop := True\<rparr>))"
    using capture_step [OF capture_step [OF assms, of "SetStop True"], of DestroySessions] by simp
  from join_reach(1) [OF this, of worker] show ?thesis by (auto simp: native_capture_redirect_destroy_def Let_def)
qed

lemma join_sess:
  assumes "capture_inv im"
  shows "sess (join_camera_worker ffi worker im) = sess im"
proof -
  let ?f = "capture_camera_fail_credit_locked ffi (fst worker) (snd worker) im"
  let ?p = "?f\<lparr>im_camera_physical_available := False\<rparr>"
  have q: "quiet im ?f" by (rule quiet_fail_credit)
  have s: "sess ?p = sess im" using quiet_sess(1) [OF q] by (simp add: sess_def slot_at_def fun_eq_iff)
  have "view (capture_update_camera_availability_locked ?p) = view ?p"
    by (rule update_inv(2))
      (use quiet_inv [OF q assms] in \<open>auto simp: capture_inv_def base_inv_def gate_inv_def sess_def req_def slot_at_def\<close>)
  then have "sess (camera_worker_exit ffi (fst worker) (snd worker) im) = sess im"
    using s by (simp add: view_def camera_worker_exit_def camera_set_physical_available_locked_def)
  then show ?thesis by (simp add: join_camera_worker_def sess_def slot_at_def fun_eq_iff)
qed

lemma request_available_slot:
  "slot_at (request_available i b im) j = (slot_at im j)\<lparr>sl_camera_available_requested :=
     (if i = j \<and> i < length (im_slots im) then b else req im j)\<rparr>"
  "im_slot_generation (request_available i b im) = im_slot_generation im"
proof -
  have eq: "slot_at im j = (slot_at im j)\<lparr>sl_camera_available_requested := req im j\<rparr>" by (simp add: req_def)
  show "slot_at (request_available i b im) j = (slot_at im j)\<lparr>sl_camera_available_requested :=
     (if i = j \<and> i < length (im_slots im) then b else req im j)\<rparr>"
    by (cases "i < length (im_slots im)"; cases "i = j")
      (auto simp: request_available_def Let_def set_beyond req_def split: option.splits)
qed (auto simp: request_available_def Let_def set_slot_at_def rdp_call_def split: option.splits)

text \<open>The reconciliation writes nothing but the request flags.\<close>

definition same_streams :: "NativeCaptureRedirectImpl \<Rightarrow> NativeCaptureRedirectImpl \<Rightarrow> bool" where
  "same_streams im im' \<longleftrightarrow> im_slot_generation im' = im_slot_generation im \<and>
     (\<forall>j. \<exists>b. slot_at im' j = (slot_at im j)\<lparr>sl_camera_available_requested := b\<rparr>)"

lemma same_streams_refl: "same_streams im im"
proof -
  have "slot_at im j = (slot_at im j)\<lparr>sl_camera_available_requested := req im j\<rparr>" for j by (simp add: req_def)
  then show ?thesis unfolding same_streams_def by blast
qed

lemma same_streams_trans: "same_streams a b \<Longrightarrow> same_streams b c \<Longrightarrow> same_streams a c"
  unfolding same_streams_def by (auto, metis NativeCaptureSlot.update_convs(10) NativeCaptureSlot.surjective)

lemma same_streams_update: "same_streams im (capture_update_camera_availability_locked im)"
proof -
  have r: "same_streams im (request_available i b im)" for i b im
    unfolding same_streams_def using request_available_slot by blast
  have "same_streams im (foldl withdraw_camera im xs)" for xs im
  proof (induction xs arbitrary: im)
    case (Cons i xs)
    have "same_streams im (withdraw_camera im i)" using r same_streams_refl by (simp add: withdraw_camera_def)
    from same_streams_trans [OF this Cons.IH] show ?case by simp
  qed (simp add: same_streams_refl)
  moreover have "same_streams im (foldl advertise_camera im xs)" for xs im
  proof (induction xs arbitrary: im)
    case (Cons i xs)
    have "same_streams im (advertise_camera im i)" using r same_streams_refl by (simp add: advertise_camera_def)
    from same_streams_trans [OF this Cons.IH] show ?case by simp
  qed (simp add: same_streams_refl)
  ultimately show ?thesis unfolding capture_update_camera_availability_locked_def using same_streams_trans by blast
qed

section \<open>Properties\<close>

definition is_payload :: "nat \<Rightarrow> RdpCall \<Rightarrow> bool" where
  "is_payload h c \<longleftrightarrow> (case c of Submit (SubmitCameraH264 h' g d k) ok \<Rightarrow> h' = h
     | Submit (SubmitAudioInputPcm h' g s) ok \<Rightarrow> h' = h | _ \<Rightarrow> False)"

definition demo_config :: NativeCaptureRedirectConfig where
  "demo_config = \<lparr>rc_camera_enabled = True, rc_camera_device_id = None, rc_camera_width = 1280,
     rc_camera_height = 720, rc_camera_fps = 30, rc_audio_input_enabled = True,
     rc_audio_input_device_id = None, rc_audio_input_gain_db = 0\<rparr>"

definition demo_manager :: NativeCaptureRedirectImpl where
  "demo_manager = the (snd (native_capture_redirect_init True True True True demo_config))"

definition demo_ops :: "CaptureOp list" where
  "demo_ops = [SetSlot 1 (Some 7) True True, SetSlot 2 (Some 9) True True, SetForeground 1,
     AudioPacket \<lparr>ps_target = \<lparr>ct_slot = 1, ct_session = Some 7, ct_state_generation = 2\<rparr>, ps_generation = 5\<rparr> [1, 2],
     SetForeground 2]"

lemma demo_init: "native_capture_redirect_init True True True True demo_config = (True, Some demo_manager)"
  by (simp add: demo_manager_def native_capture_redirect_init_def demo_config_def capture_config_valid_def
    NATIVE_CAMERA_MIN_WIDTH_def NATIVE_CAMERA_MAX_WIDTH_def NATIVE_CAMERA_MIN_HEIGHT_def NATIVE_CAMERA_MAX_HEIGHT_def
    NATIVE_CAMERA_MAX_FPS_def capture_start_workers_def capture_apply_config_locked_def Let_def capture_alloc_impl_def)

lemma replicate_4: "replicate 4 x = [x, x, x, x]"
  by (simp add: numeral_eq_Suc)

lemma upt_4: "[0..<4] = [0, 1, 2, 3]"
  by (simp add: upt_rec)

lemma demo_manager_value: "demo_manager = \<lparr>im_lock_initialized = True, im_stop = False,
     im_slot_generation = [1, 1, 1, 1], im_slots = [capture_slot_zero, capture_slot_zero, capture_slot_zero, capture_slot_zero], im_foreground_slot = -1,
     im_camera_owner_epoch = 0, im_camera_physical_available = False, im_camera_enabled = True,
     im_camera_device_id = '''', im_camera_width = 1280, im_camera_height = 720, im_camera_fps = 30,
     im_audio_enabled = True, im_audio_device_id = '''', im_audio_gain_db = 0,
     im_camera_thread_running = True, im_audio_thread_running = True, im_calls = []\<rparr>"
  by (simp add: demo_manager_def native_capture_redirect_init_def demo_config_def capture_config_valid_def
    NATIVE_CAMERA_MIN_WIDTH_def NATIVE_CAMERA_MAX_WIDTH_def NATIVE_CAMERA_MIN_HEIGHT_def NATIVE_CAMERA_MAX_HEIGHT_def
    NATIVE_CAMERA_MAX_FPS_def capture_start_workers_def capture_apply_config_locked_def Let_def capture_alloc_impl_def
    print_into_def replicate_4)

definition demo_started :: NativeCaptureRedirectImpl where
  "demo_started = demo_manager\<lparr>im_slots := [capture_slot_zero, capture_slot_zero\<lparr>sl_audio_streaming := True,
     sl_audio_generation := 5, sl_audio_frames_per_packet := 480\<rparr>, capture_slot_zero, capture_slot_zero]\<rparr>"

lemma demo_start: "capture_exec ffi (AudioStart 1 5 44100 2 480) demo_manager = demo_started"
  by (simp add: demo_started_def demo_manager_value native_capture_redirect_audio_start_def valid_iff
    NATIVE_AUDIO_INPUT_WIRE_RATE_def NATIVE_AUDIO_INPUT_WIRE_CHANNELS_def set_slot_at_def slot_at_def)

lemma demo_calls: "map_option im_calls (capture_run (\<lambda>_ _. True) demo_ops demo_started) = Some
   [SetCaptureActive 7 False, SetCaptureActive 9 False, SetCaptureActive 9 False, SetCaptureActive 7 True,
    Submit (SubmitAudioInputPcm 7 5 [1, 2]) True, SetCaptureActive 7 False, SetCaptureActive 9 True]"
  unfolding demo_started_def demo_manager_value by code_simp

lemma demo_reach: "\<exists>im. capture_reach (\<lambda>_ _. True) im \<and> im_calls im =
   [SetCaptureActive 7 False, SetCaptureActive 9 False, SetCaptureActive 9 False, SetCaptureActive 7 True,
    Submit (SubmitAudioInputPcm 7 5 [1, 2]) True, SetCaptureActive 7 False, SetCaptureActive 9 True]"
proof -
  obtain im where im: "capture_run (\<lambda>_ _. True) demo_ops demo_started = Some im" "im_calls im =
   [SetCaptureActive 7 False, SetCaptureActive 9 False, SetCaptureActive 9 False, SetCaptureActive 7 True,
    Submit (SubmitAudioInputPcm 7 5 [1, 2]) True, SetCaptureActive 7 False, SetCaptureActive 9 True]"
    using demo_calls by auto
  have "capture_reach (\<lambda>_ _. True) demo_started"
    using capture_step [OF capture_init [OF demo_init], of "AudioStart 1 5 44100 2 480"]
    unfolding demo_start by simp
  from run_reach [OF im(1) this] im(2) show ?thesis by blast
qed

text \<open>
  C25: camera and microphone payload is submitted only for a session whose gate is open at that
  moment, and no other session's gate is open then, whatever the interleaving of the control
  thread, the RDP workers and the capture workers.
\<close>

theorem capture_payload_only_to_foreground:
  assumes "capture_reach ffi im" "im_calls im = pre @ c # post" "is_payload h c"
  shows "gates pre h \<and> (\<forall>h'. gates pre h' \<longrightarrow> h' = h)"
proof -
  have t: "trace_ok (im_calls im)" using reach_inv [OF assms(1)] by (simp add: capture_inv_def base_inv_def)
  have pre: "trace_ok pre" using trace_ok_take [OF t, of "length pre"] assms(2) by simp
  have "call_ok pre c" using t assms(2) unfolding trace_ok_def by (auto dest!: spec [of _ "length pre"])
  then have "gates pre h" using assms(3)
    by (auto simp: call_ok_def is_payload_def split: RdpCall.splits RdpSubmission.splits)
  then show ?thesis using trace_one_gate [OF pre] by blast
qed

theorem capture_payload_only_to_foreground_witness:
  "gates [SetCaptureActive 7 False, SetCaptureActive 9 False, SetCaptureActive 9 False, SetCaptureActive 7 True] 7"
proof -
  obtain im where im: "capture_reach (\<lambda>_ _. True) im" "im_calls im =
     [SetCaptureActive 7 False, SetCaptureActive 9 False, SetCaptureActive 9 False, SetCaptureActive 7 True] @
     Submit (SubmitAudioInputPcm 7 5 [1, 2]) True # [SetCaptureActive 7 False, SetCaptureActive 9 True]"
    using demo_reach by auto
  have "is_payload 7 (Submit (SubmitAudioInputPcm 7 5 [1, 2]) True)" by (simp add: is_payload_def)
  from capture_payload_only_to_foreground [OF im this] show ?thesis by simp
qed

text \<open>
  C26: in every reachable state a session's gate is open exactly when the foreground slot holds it,
  its camera is advertised exactly when that slot may use the attached camera, no session sits
  in two slots, and no slot owes the server more than one sample.
\<close>

theorem capture_gates_follow_foreground:
  assumes "capture_reach ffi im"
  shows "(gates (im_calls im) h \<longleftrightarrow> (\<exists>i<4. im_foreground_slot im = int i \<and> sess im i = Some h)) \<and>
    (advertised (im_calls im) h \<longleftrightarrow> (\<exists>i<4. sess im i = Some h \<and> camera_available im i)) \<and>
    (i < 4 \<longrightarrow> sl_camera_credit (slot_at im i) \<le> 1) \<and>
    (i < 4 \<and> j < 4 \<and> sess im i = Some h \<and> sess im j = Some h \<longrightarrow> i = j)"
proof -
  have inv: "base_inv im" "gate_inv im" "req_inv im" using reach_inv [OF assms] by (simp_all add: capture_inv_def)
  have "advertised (im_calls im) h \<longleftrightarrow> (\<exists>i<4. sess im i = Some h \<and> camera_available im i)"
    using inv(1,3) by (auto simp: base_inv_def req_inv_def)
  then show ?thesis using inv(1,2) by (simp add: base_inv_def gate_inv_def)
qed

theorem capture_gates_follow_foreground_witness:
  "gates (im_calls demo_started) 7 \<longleftrightarrow> (\<exists>i<4. im_foreground_slot demo_started = int i \<and> sess demo_started i = Some 7)"
proof -
  have "capture_reach (\<lambda>_ _. True) demo_started"
    using capture_step [OF capture_init [OF demo_init], of "AudioStart 1 5 44100 2 480"]
    unfolding demo_start by simp
  from capture_gates_follow_foreground [OF this, of 7] show ?thesis by blast
qed

text \<open>
  C27: every camera credit is answered at most once: over any run, the access units and sample
  errors that entered a mailbox are no more than the samples the server asked for.
\<close>

theorem capture_answers_within_requests:
  assumes "native_capture_redirect_init mem mutex_ok camera_ok audio_ok config = (ready, Some im)"
    "capture_run ffi ops im = Some im'"
  shows "length (filter is_answer (im_calls im')) \<le> length (filter is_request ops)"
  using promised_run [OF capture_init_inv [OF assms(1)] assms(2)] promised_init [OF assms(1)]
  unfolding promised_def by linarith

theorem capture_answers_within_requests_witness:
  "\<exists>im'. capture_run (\<lambda>_ _. True) [SetForeground 1, SampleRequest 1 0] demo_manager = Some im' \<and>
     length (filter is_answer (im_calls im')) \<le> 1"
proof -
  obtain im' where r: "capture_run (\<lambda>_ _. True) [SetForeground 1, SampleRequest 1 0] demo_manager = Some im'"
    by simp
  from capture_answers_within_requests [OF demo_init r] r show ?thesis by (simp add: is_request_def)
qed

text \<open>
  C28: destroying the manager leaves no session able to send: every gate is closed and every camera
  withdrawn, in whatever state the threads were.
\<close>

theorem capture_destroy_closes_everything:
  assumes "capture_reach ffi im"
  shows "\<not> gates (im_calls (native_capture_redirect_destroy ffi worker im)) h \<and>
    \<not> advertised (im_calls (native_capture_redirect_destroy ffi worker im)) h"
proof -
  let ?s = "destroy_sessions ffi (im\<lparr>im_stop := True\<rparr>)"
  let ?j = "join_camera_worker ffi worker ?s"
  have i: "capture_inv (im\<lparr>im_stop := True\<rparr>)"
    using reach_inv [OF capture_step [OF assms, of "SetStop True"]] by simp
  have "capture_reach ffi ?s"
    using capture_step [OF capture_step [OF assms, of "SetStop True"], of DestroySessions] by simp
  from reach_inv [OF join_reach(1) [OF this, of worker]] have "capture_inv ?j" .
  moreover have "sess ?j k = None" if "k < 4" for k
    using join_sess [OF destroy_inv(1) [OF i]] destroy_inv(2) [OF i that] by simp
  ultimately show ?thesis
    by (auto simp: native_capture_redirect_destroy_def capture_inv_def base_inv_def gate_inv_def)
qed

theorem capture_destroy_closes_everything_witness:
  "\<not> gates (im_calls (native_capture_redirect_destroy (\<lambda>_ _. False) (1, 5) demo_manager)) 7"
  using capture_destroy_closes_everything [OF capture_init [OF demo_init]] by blast

text \<open>The streams of a slot: what a live capture depends on.\<close>

definition camera_stream_of :: "NativeCaptureSlot \<Rightarrow> bool \<times> u64 \<times> nat \<times> nat \<times> nat \<times> nat" where
  "camera_stream_of s = (sl_camera_streaming s, sl_camera_generation s, sl_camera_width s, sl_camera_height s,
     sl_camera_fps s, sl_camera_credit s)"

definition audio_stream_of :: "NativeCaptureSlot \<Rightarrow> bool \<times> u64 \<times> nat" where
  "audio_stream_of s = (sl_audio_streaming s, sl_audio_generation s, sl_audio_frames_per_packet s)"

lemma same_streams_slot:
  assumes "same_streams im im'"
  shows "camera_stream_of (slot_at im' i) = camera_stream_of (slot_at im i)"
    "audio_stream_of (slot_at im' i) = audio_stream_of (slot_at im i)"
    "im_slot_generation im' = im_slot_generation im"
proof -
  obtain b where "slot_at im' i = (slot_at im i)\<lparr>sl_camera_available_requested := b\<rparr>"
    using assms by (auto simp: same_streams_def)
  then show "camera_stream_of (slot_at im' i) = camera_stream_of (slot_at im i)"
    "audio_stream_of (slot_at im' i) = audio_stream_of (slot_at im i)"
    by (simp_all add: camera_stream_of_def audio_stream_of_def)
qed (use assms in \<open>simp add: same_streams_def\<close>)

lemma stop_streams_same_session:
  assumes "length (im_slots im) = 4" "i < 4"
  shows "camera_stream_of (slot_at (stop_streams ffi i (sess im i) cam aud im) i) =
      (if cam then camera_stream_of (slot_at im i) else
       camera_stream_of ((slot_at im i)\<lparr>sl_camera_streaming := False, sl_camera_credit := 0\<rparr>)) \<and>
    audio_stream_of (slot_at (stop_streams ffi i (sess im i) cam aud im) i) =
      (if aud then audio_stream_of (slot_at im i) else
       audio_stream_of ((slot_at im i)\<lparr>sl_audio_streaming := False, sl_audio_frames_per_packet := 0\<rparr>)) \<and>
    frame (stop_streams ffi i (sess im i) cam aud im) = frame im"
proof -
  let ?f = "capture_camera_fail_credit_locked ffi (int i) (sl_camera_generation (slot_at im i)) im"
  have q: "quiet im ?f" by (rule quiet_fail_credit)
  have s: "sess ?f = sess im" "length (im_slots ?f) = 4" "frame ?f = frame im"
    using quiet_sess(1,3) [OF q] assms(1) q by (simp_all add: quiet_def)
  have e: "slot_at ?f i = slot_at im i \<or> slot_at ?f i = (slot_at im i)\<lparr>sl_camera_credit := 0\<rparr>"
    using fail_credit_cases [of ffi "int i" "sl_camera_generation (slot_at im i)" im] assms by auto
  show ?thesis
    using s e assms by (auto simp: stop_streams_def Let_def sess_def camera_stream_of_def audio_stream_of_def)
qed

text \<open>
  C29: publishing a slot again for the session it already has keeps its live streams (their
  generations, formats and credits) and its slot generation, so the workers do not reopen the
  device; a permission that is withdrawn stops its stream at once.
\<close>

theorem capture_republish_keeps_streams:
  assumes "capture_reach ffi im" "i < 4"
  shows "let im' = native_capture_redirect_set_slot ffi (int i) (sess im i) cam aud im in
    im_slot_generation im' = im_slot_generation im \<and>
    camera_stream_of (slot_at im' i) = (if cam then camera_stream_of (slot_at im i) else
      camera_stream_of ((slot_at im i)\<lparr>sl_camera_streaming := False, sl_camera_credit := 0\<rparr>)) \<and>
    audio_stream_of (slot_at im' i) = (if aud then audio_stream_of (slot_at im i) else
      audio_stream_of ((slot_at im i)\<lparr>sl_audio_streaming := False, sl_audio_frames_per_packet := 0\<rparr>)) \<and>
    sl_camera_allowed (slot_at im' i) = cam \<and> sl_audio_allowed (slot_at im' i) = aud"
proof -
  have len: "length (im_slots im) = 4" using reach_inv [OF assms(1)] by (simp add: capture_inv_def base_inv_def)
  define t where "t = stop_streams ffi i (sess im i) cam aud im"
  define p where "p = publish_session i (sess im i) cam aud t"
  have q: "quiet im t" unfolding t_def by (rule quiet_stop_streams)
  note t = stop_streams_same_session [OF len assms(2), of ffi cam aud, folded t_def]
  have ts: "sess t = sess im" "length (im_slots t) = 4" using quiet_sess(1,3) [OF q] len by simp_all
  have p: "im_slot_generation p = im_slot_generation t"
    "slot_at p i = (slot_at t i)\<lparr>sl_session := sess im i, sl_camera_allowed := cam, sl_audio_allowed := aud\<rparr>"
  proof -
    have "sl_session (slot_at t i) = sess im i" using ts(1) by (metis sess_def)
    then show "im_slot_generation p = im_slot_generation t"
      "slot_at p i = (slot_at t i)\<lparr>sl_session := sess im i, sl_camera_allowed := cam, sl_audio_allowed := aud\<rparr>"
      using ts(2) assms(2) unfolding p_def publish_session_def Let_def
      by (simp_all split: option.splits) (simp_all add: rdp_call_def set_slot_at_def)
  qed
  have r: "release_session ffi i (sess im i) im = im" by (simp add: release_session_def sess_def split: option.splits)
  have u: "native_capture_redirect_set_slot ffi (int i) (sess im i) cam aud im =
      capture_update_camera_availability_locked p"
    using assms(2) by (simp add: native_capture_redirect_set_slot_def valid_iff r t_def p_def)
  note st = same_streams_update [of p]
  obtain b where "slot_at (capture_update_camera_availability_locked p) i = (slot_at p i)\<lparr>sl_camera_available_requested := b\<rparr>"
    using st by (auto simp: same_streams_def)
  then show ?thesis
    using same_streams_slot [OF st] p t by (simp add: u Let_def frame_def camera_stream_of_def audio_stream_of_def)
qed

theorem capture_republish_keeps_streams_witness:
  "audio_stream_of (slot_at (native_capture_redirect_set_slot (\<lambda>_ _. True) 1 (sess demo_started 1) True True
     demo_started) 1) = (True, 5, 480)"
proof -
  have "capture_reach (\<lambda>_ _. True) demo_started"
    using capture_step [OF capture_init [OF demo_init], of "AudioStart 1 5 44100 2 480"]
    unfolding demo_start by simp
  from capture_republish_keeps_streams [OF this, of 1 True True]
  show ?thesis by (simp add: Let_def audio_stream_of_def demo_started_def slot_at_def)
qed

lemma one_active:
  "(\<And>i j. i < n \<Longrightarrow> j < n \<Longrightarrow> P i \<Longrightarrow> P j \<Longrightarrow> i = j) \<Longrightarrow> length (filter P [0..<n]) \<le> 1"
proof (induction n)
  case (Suc n)
  show ?case
  proof (cases "P n")
    case True
    have "\<not> P x" if "x < n" for x using Suc.prems [of x n] True that by auto
    then have "filter P [0..<n] = []" by (simp add: filter_empty_conv)
    then show ?thesis by simp
  next
    case False
    have "length (filter P [0..<n]) \<le> 1" using Suc.prems by (intro Suc.IH) simp
    then show ?thesis using False by simp
  qed
qed simp

text \<open>
  C30: at most one microphone stream is wanted at a time, and it is that of the foreground slot:
  its target is the session now in that slot, whose gate is open.
\<close>

theorem microphone_single_consumer:
  assumes "capture_reach ffi im"
  shows "fst (audio_collect_desired_locked im) \<le> 1 \<and>
    (\<forall>i<4. ds_active (snd (audio_collect_desired_locked im) ! i) \<longrightarrow>
       im_foreground_slot im = int i \<and>
       target_matches_locked im (ds_target (snd (audio_collect_desired_locked im) ! i)) \<and>
       gates (im_calls im) (the (ct_session (ds_target (snd (audio_collect_desired_locked im) ! i)))))"
proof -
  have d: "im_foreground_slot im = int i \<and> sess im i \<noteq> None" if "ds_active (audio_desired im i)" for i
    using that by (auto simp: audio_desired_def Let_def capture_slot_is_foreground_locked_def sess_def split: if_splits)
  have "length (filter (\<lambda>i. ds_active (audio_desired im i)) [0..<4]) \<le> 1"
  proof (rule one_active)
    fix i j assume "ds_active (audio_desired im i)" "ds_active (audio_desired im j)"
    from d [OF this(1)] d [OF this(2)] show "i = j" by simp
  qed
  then have n: "fst (audio_collect_desired_locked im) \<le> 1"
    by (simp add: audio_collect_desired_locked_def Let_def filter_map o_def)
  have "target_matches_locked im (ds_target (audio_desired im i)) \<and>
      gates (im_calls im) (the (ct_session (ds_target (audio_desired im i))))"
    if "i < 4" "ds_active (audio_desired im i)" for i
  proof -
    have "sess im i \<noteq> None" using d [OF that(2)] by simp
    then obtain h where h: "sess im i = Some h" by blast
    have g: "gates (im_calls im) h"
      using foreground_gate [of im i h] reach_inv [OF assms] d [OF that(2)] h that(1) by (simp add: capture_inv_def)
    have t: "ds_target (audio_desired im i) = \<lparr>ct_slot = int i, ct_session = Some h,
        ct_state_generation = im_slot_generation im ! i\<rparr>"
      using that(2) h by (auto simp: audio_desired_def Let_def sess_def split: if_splits)
    then show ?thesis using g h that(1) by (simp add: target_matches_locked_def valid_iff sess_def)
  qed
  then show ?thesis using n d by (simp add: audio_collect_desired_locked_def Let_def)
qed

theorem microphone_single_consumer_witness: "fst (audio_collect_desired_locked demo_manager) \<le> 1"
  using microphone_single_consumer [OF capture_init [OF demo_init]] by blast

end
