(* ===== verification/Input_Sdl.thy ===== *)
theory Input_Sdl
  imports Lg_Prelude
begin

text \<open>
  Input forwarding, \<open>native/src/input_sdl.c\<close>: window to desktop mapping, the forwarding guards and
  the Linux to RDP key table.  The calls into the Rust library are recorded in \<open>in_sent\<close>.  The
  atomics are plain fields: every one is a single word read or written on its own.
\<close>

type_synonym NativeInputButton = nat

definition NATIVE_INPUT_BUTTON_LEFT :: NativeInputButton where "NATIVE_INPUT_BUTTON_LEFT = 1"
definition NATIVE_INPUT_BUTTON_RIGHT :: NativeInputButton where "NATIVE_INPUT_BUTTON_RIGHT = 2"
definition NATIVE_INPUT_BUTTON_MIDDLE :: NativeInputButton where "NATIVE_INPUT_BUTTON_MIDDLE = 3"

text \<open>The input calls of \<open>rdp_ffi.h\<close>, with the session they go to.\<close>

datatype RdpInput =
    SendPointerMove nat u16 u16
  | SendPointerButton nat u16 u16 u8 bool
  | SendPointerWheel nat u16 u16 i16
  | SendKey nat u8 bool bool
  | SendSync nat bool bool bool

record NativeInput =
  in_session :: "nat option"
  in_desktop_width :: u32
  in_desktop_height :: u32
  in_window_width :: u32
  in_window_height :: u32
  in_last_x :: u16
  in_last_y :: u16
  in_active :: bool
  in_sent :: "RdpInput list"

section \<open>State\<close>

definition clamp_dimension :: "u16 \<Rightarrow> u16" where
  "clamp_dimension v = (if v = 0 then 1 else v)"

definition native_input_ready :: "NativeInput \<Rightarrow> bool" where
  "native_input_ready inp \<longleftrightarrow> in_active inp \<and> in_session inp \<noteq> None"

definition native_input_set_session :: "nat option \<Rightarrow> NativeInput \<Rightarrow> NativeInput" where
  "native_input_set_session session inp = inp\<lparr>in_session := session\<rparr>"

definition native_input_set_active :: "bool \<Rightarrow> NativeInput \<Rightarrow> NativeInput" where
  "native_input_set_active active inp = inp\<lparr>in_active := active\<rparr>"

definition native_input_set_desktop_size :: "u16 \<Rightarrow> u16 \<Rightarrow> NativeInput \<Rightarrow> NativeInput" where
  "native_input_set_desktop_size w h inp =
     inp\<lparr>in_desktop_width := ucast (clamp_dimension w), in_desktop_height := ucast (clamp_dimension h)\<rparr>"

definition native_input_set_window_size :: "u16 \<Rightarrow> u16 \<Rightarrow> NativeInput \<Rightarrow> NativeInput" where
  "native_input_set_window_size w h inp =
     inp\<lparr>in_window_width := ucast (clamp_dimension w), in_window_height := ucast (clamp_dimension h)\<rparr>"

definition native_input_init :: "nat option \<Rightarrow> u16 \<Rightarrow> u16 \<Rightarrow> NativeInput" where
  "native_input_init session desktop_width desktop_height =
     native_input_set_window_size desktop_width desktop_height
       (native_input_set_desktop_size desktop_width desktop_height
         \<lparr>in_session = session, in_desktop_width = 1, in_desktop_height = 1, in_window_width = 1,
          in_window_height = 1, in_last_x = 0, in_last_y = 0, in_active = False, in_sent = []\<rparr>)"

section \<open>Mapping\<close>

text \<open>One axis: \<open>window_x\<close> is a C int, \<open>ww\<close> and \<open>dw\<close> the window's and the desktop's extents.\<close>

definition map_axis :: "int \<Rightarrow> u16 \<Rightarrow> u16 \<Rightarrow> u16" where
  "map_axis window_x ww dw =
     (let window_x = (if window_x < 0 then 0 else window_x);
          window_x = (if window_x \<ge> uint ww then uint ww - 1 else window_x);
          x = (word_of_int window_x * ucast dw) div ucast ww :: u32;
          x = (if x \<ge> ucast dw then ucast dw - 1 else x) in
      ucast x)"

definition native_input_map_point :: "NativeInput \<Rightarrow> int \<Rightarrow> int \<Rightarrow> u16 \<times> u16" where
  "native_input_map_point inp window_x window_y =
     (map_axis window_x (clamp_dimension (ucast (in_window_width inp))) (clamp_dimension (ucast (in_desktop_width inp))),
      map_axis window_y (clamp_dimension (ucast (in_window_height inp))) (clamp_dimension (ucast (in_desktop_height inp))))"

definition send :: "(nat \<Rightarrow> RdpInput) \<Rightarrow> NativeInput \<Rightarrow> NativeInput" where
  "send c inp = inp\<lparr>in_sent := in_sent inp @ [c (the (in_session inp))]\<rparr>"

definition map_last :: "int \<Rightarrow> int \<Rightarrow> NativeInput \<Rightarrow> NativeInput" where
  "map_last window_x window_y inp =
     (case native_input_map_point inp window_x window_y of (x, y) \<Rightarrow> inp\<lparr>in_last_x := x, in_last_y := y\<rparr>)"

definition native_input_pointer_move :: "int \<Rightarrow> int \<Rightarrow> NativeInput \<Rightarrow> bool \<times> NativeInput" where
  "native_input_pointer_move window_x window_y inp =
     (if \<not> native_input_ready inp then (False, inp)
      else let inp = map_last window_x window_y inp in
        (True, send (\<lambda>s. SendPointerMove s (in_last_x inp) (in_last_y inp)) inp))"

definition native_input_pointer_button :: "int \<Rightarrow> int \<Rightarrow> NativeInputButton \<Rightarrow> bool \<Rightarrow> NativeInput \<Rightarrow>
    bool \<times> NativeInput" where
  "native_input_pointer_button window_x window_y button down inp =
     (if \<not> native_input_ready inp then (False, inp)
      else let inp = map_last window_x window_y inp in
        (True, send (\<lambda>s. SendPointerButton s (in_last_x inp) (in_last_y inp) (word_of_nat button) down) inp))"

definition native_input_pointer_wheel :: "int \<Rightarrow> int \<Rightarrow> i16 \<Rightarrow> NativeInput \<Rightarrow> bool \<times> NativeInput" where
  "native_input_pointer_wheel window_x window_y delta inp =
     (if \<not> native_input_ready inp then (False, inp)
      else let inp = map_last window_x window_y inp in
        (True, send (\<lambda>s. SendPointerWheel s (in_last_x inp) (in_last_y inp) delta) inp))"

definition native_input_key :: "u8 \<Rightarrow> bool \<Rightarrow> bool \<Rightarrow> NativeInput \<Rightarrow> bool \<times> NativeInput" where
  "native_input_key scancode down extended inp =
     (if \<not> native_input_ready inp then (False, inp)
      else (True, send (\<lambda>s. SendKey s scancode down extended) inp))"

definition native_input_sync_locks :: "bool \<Rightarrow> bool \<Rightarrow> bool \<Rightarrow> NativeInput \<Rightarrow> bool \<times> NativeInput" where
  "native_input_sync_locks scroll_lock num_lock caps_lock inp =
     (if \<not> native_input_ready inp then (False, inp)
      else (True, send (\<lambda>s. SendSync s scroll_lock num_lock caps_lock) inp))"

section \<open>Key codes\<close>

text \<open>The switch of the source: keypad Enter and slash, right-hand modifiers, the navigation cluster, Meta, Menu, OK.\<close>

definition e0_table :: "(nat \<times> (nat \<times> bool)) list" where
  "e0_table = [(96, 0x1c, True), (97, 0x1d, True), (98, 0x35, True), (99, 0x37, True), (100, 0x38, True),
     (102, 0x47, True), (103, 0x48, True), (104, 0x49, True), (105, 0x4b, True), (106, 0x4d, True),
     (107, 0x4f, True), (108, 0x50, True), (109, 0x51, True), (110, 0x52, True), (111, 0x53, True),
     (125, 0x5b, True), (126, 0x5c, True), (127, 0x5d, True), (352, 0x1c, False)]"

definition native_input_linux_keycode_to_rdp :: "nat \<Rightarrow> (nat \<times> bool) option" where
  "native_input_linux_keycode_to_rdp c =
     (if c \<ge> 1 \<and> c \<le> 88 then Some (c, False) else map_of e0_table c)"

section \<open>Lemmas\<close>

lemma clamp_dimension_pos: "0 < unat (clamp_dimension v)"
  by (simp add: clamp_dimension_def unat_gt_0)

text \<open>The 32-bit product of the mapping never wraps, and its final clamp never acts.\<close>

lemma map_axis_value:
  assumes "0 < unat ww" "0 < unat dw"
  shows "unat (map_axis x ww dw) = nat (min (max x 0) (int (unat ww) - 1)) * unat dw div unat ww"
    and "unat (map_axis x ww dw) < unat dw"
proof -
  define c where "c = nat (min (max x 0) (int (unat ww) - 1))"
  have "nat (min (max x 0) (int n - 1)) < n" if "0 < n" for n :: nat
    using that by (auto simp: min_def max_def)
  from this [OF assms(1)] have c: "c < unat ww" unfolding c_def .
  have w16: "unat ww < 2 ^ 16" "unat dw < 2 ^ 16" using unsigned_less [of ww] unsigned_less [of dw] by simp_all
  have cl: "(if (if x < 0 then 0 else x) \<ge> uint ww then uint ww - 1 else (if x < 0 then 0 else x)) = int c"
  proof -
    have "(if (if x < 0 then 0 else x) \<ge> int n then int n - 1 else (if x < 0 then 0 else x)) =
        int (nat (min (max x 0) (int n - 1)))" if "0 < n" for n :: nat
      using that by (auto simp: min_def max_def)
    from this [OF assms(1)] show ?thesis unfolding c_def uint_nat .
  qed
  have "c < 2 ^ 16" using c w16 by simp
  then have "c * unat dw < 2 ^ 16 * 2 ^ 16" using w16(2) by (intro mult_strict_mono) simp_all
  then have prod: "c * unat dw < 2 ^ 32" by simp
  have u: "unat (ucast dw :: u32) = unat dw" "unat (ucast ww :: u32) = unat ww"
    using w16 by (simp_all add: unsigned_ucast_eq take_bit_nat_eq_self)
  have c32: "unat (word_of_int (int c) :: u32) = c"
    using c w16 by (simp add: unat_of_nat take_bit_nat_eq_self)
  define m where "m = (word_of_int (int c) * ucast dw :: u32) div ucast ww"
  have "unat (word_of_int (int c) :: u32) * unat (ucast dw :: u32) < 2 ^ LENGTH(32)"
    unfolding c32 u using prod by simp
  from unat_mult_lem [THEN iffD1, OF this] have m: "unat m = c * unat dw div unat ww"
    unfolding m_def unat_div c32 u by simp
  have lt: "c * unat dw div unat ww < unat dw"
    using c assms(2) by (simp add: less_mult_imp_div_less mult.commute)
  have "\<not> ucast dw \<le> m" using m lt u by (simp add: word_le_nat_alt)
  then have "map_axis x ww dw = ucast m" unfolding map_axis_def Let_def cl m_def by simp
  moreover have "unat (ucast m :: u16) = unat m"
    using m lt w16 by (simp add: unsigned_ucast_eq take_bit_nat_eq_self)
  ultimately show "unat (map_axis x ww dw) = nat (min (max x 0) (int (unat ww) - 1)) * unat dw div unat ww"
    "unat (map_axis x ww dw) < unat dw" using m lt by (simp_all add: c_def)
qed

lemma ready_send [simp]: "native_input_ready (send c inp) = native_input_ready inp"
  "native_input_ready (map_last x y inp) = native_input_ready inp"
  by (simp_all add: native_input_ready_def send_def map_last_def case_prod_beta)

lemma sent_simps [simp]:
  "in_sent (send c inp) = in_sent inp @ [c (the (in_session inp))]" "in_sent (map_last x y inp) = in_sent inp"
  "in_session (send c inp) = in_session inp" "in_session (map_last x y inp) = in_session inp"
  "in_last_x (send c inp) = in_last_x inp" "in_last_y (send c inp) = in_last_y inp"
  by (simp_all add: send_def map_last_def case_prod_beta)

text \<open>The sizes and the session are not written by the forwarding operations.\<close>

definition geometry :: "NativeInput \<Rightarrow> nat option \<times> u32 \<times> u32 \<times> u32 \<times> u32 \<times> bool" where
  "geometry inp = (in_session inp, in_desktop_width inp, in_desktop_height inp, in_window_width inp,
     in_window_height inp, in_active inp)"

lemma geometry_simps [simp]:
  "geometry (send c inp) = geometry inp" "geometry (map_last x y inp) = geometry inp"
  "geometry (snd (native_input_pointer_move x y inp)) = geometry inp"
  "geometry (snd (native_input_pointer_button x y b d inp)) = geometry inp"
  "geometry (snd (native_input_pointer_wheel x y w inp)) = geometry inp"
  "geometry (snd (native_input_key k d e inp)) = geometry inp"
  by (simp_all add: geometry_def send_def map_last_def case_prod_beta native_input_pointer_move_def
      native_input_pointer_button_def native_input_pointer_wheel_def native_input_key_def Let_def)

lemma geometry_map: "geometry inp = geometry inp' \<Longrightarrow> native_input_map_point inp = native_input_map_point inp'"
  by (simp add: geometry_def native_input_map_point_def fun_eq_iff)

section \<open>Properties\<close>

definition axis_reference :: "int \<Rightarrow> nat \<Rightarrow> nat \<Rightarrow> nat" where
  "axis_reference x w d = nat (min (max x 0) (int w - 1)) * d div w"


text \<open>
  Two Linux keys are forwarded as the same RDP key only when they are Enter and the remote's OK
  key, and every scancode is a make code (its break bit is clear).
\<close>

lemma keycode_table_is_injective:
  assumes "native_input_linux_keycode_to_rdp c = Some r"
  shows "fst r < 0x80 \<and> 0 < fst r \<and>
    (\<forall>d. native_input_linux_keycode_to_rdp d = Some r \<longrightarrow> d = c \<or> {c, d} = {28, 352})"
proof -
  have tab: "map_of e0_table a = Some r' \<Longrightarrow> map_of e0_table b = Some r' \<Longrightarrow> a = b"
    and low: "map_of e0_table a = Some (k, False) \<Longrightarrow> a = 352 \<and> k = 28"
    and small: "map_of e0_table a = Some (k, x) \<Longrightarrow> 0 < k \<and> k < 0x80" for a b r' k x
    by (auto simp: e0_table_def split: if_splits)
  have "d = c \<or> {c, d} = {28, 352}" if "native_input_linux_keycode_to_rdp d = Some r" for d
    using assms that tab low [of c] low [of d]
    by (cases r) (auto simp: native_input_linux_keycode_to_rdp_def split: if_splits)
  moreover have "fst r < 0x80 \<and> 0 < fst r"
    using assms small by (cases r) (fastforce simp: native_input_linux_keycode_to_rdp_def split: if_splits)
  ultimately show ?thesis by blast
qed

lemma keycode_table_example:
  "native_input_linux_keycode_to_rdp 103 = Some (0x48, True) \<and> native_input_linux_keycode_to_rdp 72 \<noteq> Some (0x48, True)"
proof -
  have up: "native_input_linux_keycode_to_rdp 103 = Some (0x48, True)"
    by (simp add: native_input_linux_keycode_to_rdp_def e0_table_def)
  have "72 \<noteq> (103::nat)" "{103, 72} \<noteq> {28, 352::nat}" by (auto simp: doubleton_eq_iff)
  with keycode_table_is_injective [OF up] up show ?thesis by blast
qed

end
