(* ===== verification/Native_Pointer.thy ===== *)
theory Native_Pointer
  imports Input_Sdl
begin

text \<open>
  Pointer and held-input state of the SDL thread, \<open>native/src/native_pointer.c\<close>: the virtual mouse
  and its clamp, the requests another thread leaves for it, the wheel accumulator, and the release
  of everything held.  SDL is outside: the renderer's output size is a parameter (None when SDL
  cannot tell it), and \<open>SDL_WarpMouseInWindow\<close> is recorded in \<open>pa_warps\<close>.  C ints are \<open>int\<close>: no
  value here comes near \<open>2 ^ 31\<close> for the settings' ranges.
\<close>

section \<open>State\<close>

text \<open>The fields of \<open>App\<close> these operations use.\<close>

record PointerApp =
  pa_input :: NativeInput
  pa_active_index :: int
  pa_mixer_overlay_visible :: bool
  pa_streaming_visible :: bool
  pa_wheel_step :: nat
  pa_wheel_scroll_divisor :: nat
  pa_wheel_accumulator :: int
  pa_virtual_mouse_x :: int
  pa_virtual_mouse_y :: int
  pa_pointer_clamp_pending :: bool
  pa_pointer_warp_pending :: bool
  pa_pointer_warp_x :: u32
  pa_pointer_warp_y :: u32
  pa_pointer_warp_slot :: int
  pa_render_width :: u32
  pa_render_height :: u32
  pa_window_unfocused :: bool
  pa_app_backgrounded :: bool
  pa_held_mouse :: "bool list"
  pa_held_keys :: "u8 list"
  pa_warps :: "(int \<times> int) list"

section \<open>Window size and virtual mouse\<close>

definition clamp_sdl_dimension :: "int \<Rightarrow> u16" where
  "clamp_sdl_dimension value = (if value \<le> 0 then 1 else if value > 65535 then 65535 else word_of_int value)"

definition native_read_renderer_output_size :: "(int \<times> int) option \<Rightarrow> (int \<times> int) option" where
  "native_read_renderer_output_size output =
     (case output of None \<Rightarrow> None | Some (w, h) \<Rightarrow> if w \<le> 0 \<or> h \<le> 0 then None else Some (w, h))"

definition native_update_render_size :: "(int \<times> int) option \<Rightarrow> PointerApp \<Rightarrow> bool \<times> PointerApp" where
  "native_update_render_size output app =
     (case native_read_renderer_output_size output of
        None \<Rightarrow> (False, app)
      | Some (render_width, render_height) \<Rightarrow>
        let w = ucast (clamp_sdl_dimension render_width);
            h = ucast (clamp_sdl_dimension render_height) in
        (True, if pa_render_width app \<noteq> w \<or> pa_render_height app \<noteq> h
               then app\<lparr>pa_render_width := w, pa_render_height := h\<rparr> else app))"

definition native_sync_input_window_size :: "PointerApp \<Rightarrow> PointerApp" where
  "native_sync_input_window_size app =
     (let render_width = ucast (pa_render_width app) :: u16;
          render_height = ucast (pa_render_height app) :: u16;
          width = (if render_width \<noteq> 0 then render_width else ucast (in_window_width (pa_input app)));
          height = (if render_height \<noteq> 0 then render_height else ucast (in_window_height (pa_input app))) in
      app\<lparr>pa_input := native_input_set_window_size width height (pa_input app)\<rparr>)"

definition native_clamp_window_coord :: "int \<Rightarrow> u16 \<Rightarrow> int" where
  "native_clamp_window_coord value limit =
     (if value < 0 then 0 else if limit = 0 then 0
      else if value \<ge> uint limit then uint limit - 1 else value)"

definition native_set_virtual_mouse_position :: "int \<Rightarrow> int \<Rightarrow> PointerApp \<Rightarrow> PointerApp" where
  "native_set_virtual_mouse_position x y app = app\<lparr>
     pa_virtual_mouse_x := native_clamp_window_coord x (ucast (in_window_width (pa_input app))),
     pa_virtual_mouse_y := native_clamp_window_coord y (ucast (in_window_height (pa_input app)))\<rparr>"

definition native_update_pointer_window_size :: "PointerApp \<Rightarrow> PointerApp" where
  "native_update_pointer_window_size app =
     (let app = native_sync_input_window_size app in
      native_set_virtual_mouse_position (pa_virtual_mouse_x app) (pa_virtual_mouse_y app) app)"

definition native_request_pointer_window_size_update :: "PointerApp \<Rightarrow> PointerApp" where
  "native_request_pointer_window_size_update app =
     (native_sync_input_window_size app)\<lparr>pa_pointer_clamp_pending := True\<rparr>"

definition native_drain_pointer_clamp :: "PointerApp \<Rightarrow> PointerApp" where
  "native_drain_pointer_clamp app =
     (if pa_pointer_clamp_pending app
      then let app = app\<lparr>pa_pointer_clamp_pending := False\<rparr> in
        native_set_virtual_mouse_position (pa_virtual_mouse_x app) (pa_virtual_mouse_y app) app
      else app)"

text \<open>One axis of a server warp: \<open>x\<close> is in desktop coordinates.\<close>

definition warp_axis :: "u32 \<Rightarrow> u16 \<Rightarrow> u16 \<Rightarrow> int" where
  "warp_axis x d w = (if d \<noteq> 0 \<and> w \<noteq> 0 then sint ((x * ucast w) div ucast d) else sint x)"

definition native_drain_pointer_warp :: "bool \<Rightarrow> PointerApp \<Rightarrow> PointerApp" where
  "native_drain_pointer_warp window app =
     (if \<not> window \<or> \<not> pa_pointer_warp_pending app then app
      else
        let app = app\<lparr>pa_pointer_warp_pending := False\<rparr> in
        if \<not> pa_streaming_visible app \<or> pa_mixer_overlay_visible app \<or> pa_window_unfocused app \<or>
           pa_app_backgrounded app then app
        else if pa_pointer_warp_slot app \<noteq> pa_active_index app then app
        else
          let i = pa_input app;
              wx = warp_axis (pa_pointer_warp_x app) (ucast (in_desktop_width i)) (ucast (in_window_width i));
              wy = warp_axis (pa_pointer_warp_y app) (ucast (in_desktop_height i)) (ucast (in_window_height i));
              app = native_set_virtual_mouse_position wx wy app in
          app\<lparr>pa_warps := pa_warps app @ [(wx, wy)]\<rparr>)"

definition native_init_virtual_mouse_position :: "PointerApp \<Rightarrow> PointerApp" where
  "native_init_virtual_mouse_position app =
     native_set_virtual_mouse_position (uint (in_window_width (pa_input app)) div 2)
       (uint (in_window_height (pa_input app)) div 2) app"

text \<open>\<open>window_size\<close> is what SDL reports; the message of the failing branch is text for the screen.\<close>

definition native_init_render_state :: "int \<times> int \<Rightarrow> (int \<times> int) option \<Rightarrow> PointerApp \<Rightarrow>
    (int \<times> int) option \<times> PointerApp" where
  "native_init_render_state window_size output app =
     (case native_update_render_size output app of
        (False, app) \<Rightarrow> (None, app)
      | (True, app) \<Rightarrow>
          (Some window_size, native_init_virtual_mouse_position (native_update_pointer_window_size app)))"

section \<open>Wheel\<close>

definition wheel_event :: "int \<Rightarrow> PointerApp \<Rightarrow> PointerApp" where
  "wheel_event delta app = app\<lparr>pa_input := snd (native_input_pointer_wheel (pa_virtual_mouse_x app)
     (pa_virtual_mouse_y app) (word_of_int delta) (pa_input app))\<rparr>"

text \<open>The two loops; with a zero threshold they would not end, so they are partial.\<close>

partial_function (option) wheel_up_loop :: "int \<Rightarrow> PointerApp \<Rightarrow> PointerApp option" where
  "wheel_up_loop threshold app =
     (if pa_wheel_accumulator app \<ge> threshold then
        wheel_up_loop threshold ((wheel_event (int (pa_wheel_step app)) app)
          \<lparr>pa_wheel_accumulator := pa_wheel_accumulator app - threshold\<rparr>)
      else Some app)"

partial_function (option) wheel_down_loop :: "int \<Rightarrow> PointerApp \<Rightarrow> PointerApp option" where
  "wheel_down_loop threshold app =
     (if pa_wheel_accumulator app \<le> - threshold then
        wheel_down_loop threshold ((wheel_event (- int (pa_wheel_step app)) app)
          \<lparr>pa_wheel_accumulator := pa_wheel_accumulator app + threshold\<rparr>)
      else Some app)"

definition native_send_scaled_wheel :: "int \<Rightarrow> PointerApp \<Rightarrow> PointerApp option" where
  "native_send_scaled_wheel wheel_y app =
     (if wheel_y = 0 then Some app
      else
        let units = wheel_y * int (pa_wheel_step app);
            app = (if (pa_wheel_accumulator app > 0 \<and> units < 0) \<or> (pa_wheel_accumulator app < 0 \<and> units > 0)
                   then app\<lparr>pa_wheel_accumulator := 0\<rparr> else app);
            app = app\<lparr>pa_wheel_accumulator := pa_wheel_accumulator app + units\<rparr>;
            threshold = int (pa_wheel_step app) * int (pa_wheel_scroll_divisor app) in
        case wheel_up_loop threshold app of None \<Rightarrow> None | Some app \<Rightarrow> wheel_down_loop threshold app)"

section \<open>Held buttons and keys\<close>

text \<open>The SDL button numbers (\<open>SDL_mouse.h\<close>); 0 for a button that is not forwarded.\<close>

definition native_button_from_sdl :: "nat \<Rightarrow> NativeInputButton" where
  "native_button_from_sdl button = (if button = 1 then NATIVE_INPUT_BUTTON_LEFT
     else if button = 3 then NATIVE_INPUT_BUTTON_RIGHT
     else if button = 2 then NATIVE_INPUT_BUTTON_MIDDLE else 0)"

definition native_overlay_button_bit :: "nat \<Rightarrow> u8" where
  "native_overlay_button_bit button = (if button \<ge> 1 \<and> button \<le> 8 then push_bit (button - 1) 1 else 0)"

definition native_track_button :: "NativeInputButton \<Rightarrow> bool \<Rightarrow> PointerApp \<Rightarrow> PointerApp" where
  "native_track_button button down app =
     (if button \<ge> NATIVE_INPUT_BUTTON_LEFT \<and> button \<le> NATIVE_INPUT_BUTTON_MIDDLE
      then app\<lparr>pa_held_mouse := (pa_held_mouse app)[button - 1 := down]\<rparr> else app)"

unbundle bit_operations_syntax

definition set_key_bit :: "nat \<Rightarrow> bool \<Rightarrow> u8 list \<Rightarrow> u8 list" where
  "set_key_bit idx down keys = keys[idx div 8 := (if down then (keys ! (idx div 8)) OR push_bit (idx mod 8) 1
     else (keys ! (idx div 8)) AND NOT (push_bit (idx mod 8) 1))]"

definition native_track_key :: "u8 \<Rightarrow> bool \<Rightarrow> bool \<Rightarrow> PointerApp \<Rightarrow> PointerApp" where
  "native_track_key scancode extended down app =
     (let idx = unat scancode + (if extended then 0x100 else 0) in
      app\<lparr>pa_held_keys := set_key_bit idx down (pa_held_keys app)\<rparr>)"

definition key_bit :: "u8 list \<Rightarrow> nat \<Rightarrow> bool" where
  "key_bit keys idx \<longleftrightarrow> (keys ! (idx div 8)) AND push_bit (idx mod 8) 1 \<noteq> 0"

text \<open>The bodies of the two loops of the flush.\<close>

definition flush_button :: "int \<Rightarrow> int \<Rightarrow> PointerApp \<Rightarrow> nat \<Rightarrow> PointerApp" where
  "flush_button wx wy app b =
     (if pa_held_mouse app ! b then
        app\<lparr>pa_held_mouse := (pa_held_mouse app)[b := False],
          pa_input := snd (native_input_pointer_button wx wy (b + 1) False (pa_input app))\<rparr>
      else app)"

definition flush_key :: "PointerApp \<Rightarrow> nat \<Rightarrow> PointerApp" where
  "flush_key app idx =
     (if key_bit (pa_held_keys app) idx then
        app\<lparr>pa_held_keys := set_key_bit idx False (pa_held_keys app),
          pa_input := snd (native_input_key (word_of_nat (idx mod 256)) False (idx div 256 = 1) (pa_input app))\<rparr>
      else app)"

definition native_flush_held_inputs :: "PointerApp \<Rightarrow> PointerApp" where
  "native_flush_held_inputs app =
     foldl flush_key (foldl (flush_button (pa_virtual_mouse_x app) (pa_virtual_mouse_y app)) app [0..<3]) [0..<512]"

section \<open>The wheel\<close>

text \<open>What a wheel loop leaves alone.\<close>

definition wheel_frame where
  "wheel_frame app = (geometry (pa_input app), pa_wheel_step app, pa_wheel_scroll_divisor app,
     pa_virtual_mouse_x app, pa_virtual_mouse_y app, pa_held_mouse app, pa_held_keys app)"

text \<open>The call one notch makes.\<close>

definition notch :: "int \<Rightarrow> PointerApp \<Rightarrow> RdpInput" where
  "notch delta app = (case native_input_map_point (pa_input app) (pa_virtual_mouse_x app) (pa_virtual_mouse_y app) of
     (x, y) \<Rightarrow> SendPointerWheel (the (in_session (pa_input app))) x y (word_of_int delta))"

lemma frame_notch: "wheel_frame app = wheel_frame app' \<Longrightarrow> notch d app = notch d app'"
  using geometry_map [of "pa_input app" "pa_input app'"] by (auto simp: wheel_frame_def notch_def geometry_def)

lemma wheel_event_effect:
  assumes "native_input_ready (pa_input app)"
  shows "in_sent (pa_input (wheel_event d app)) = in_sent (pa_input app) @ [notch d app]"
    "wheel_frame (wheel_event d app) = wheel_frame app" "native_input_ready (pa_input (wheel_event d app))"
    "pa_wheel_accumulator (wheel_event d app) = pa_wheel_accumulator app"
proof -
  show "in_sent (pa_input (wheel_event d app)) = in_sent (pa_input app) @ [notch d app]"
    using assms by (simp add: wheel_event_def native_input_pointer_wheel_def Let_def notch_def map_last_def case_prod_beta)
qed (use assms in \<open>simp_all add: wheel_event_def wheel_frame_def native_input_pointer_wheel_def Let_def\<close>)

lemma wheel_update [simp]:
  "wheel_frame (app\<lparr>pa_wheel_accumulator := a\<rparr>) = wheel_frame app"
  by (simp add: wheel_frame_def)

lemma wheel_up_runs:
  assumes "0 < t" "native_input_ready (pa_input app)"
  shows "\<exists>app' k. wheel_up_loop t app = Some app' \<and> wheel_frame app' = wheel_frame app \<and>
    native_input_ready (pa_input app') \<and> pa_wheel_accumulator app' < t \<and>
    (pa_wheel_accumulator app < t \<longrightarrow> app' = app) \<and> (t \<le> pa_wheel_accumulator app \<longrightarrow> 0 \<le> pa_wheel_accumulator app') \<and>
    pa_wheel_accumulator app' + int k * t = pa_wheel_accumulator app \<and>
    in_sent (pa_input app') = in_sent (pa_input app) @ replicate k (notch (int (pa_wheel_step app)) app)"
  using assms(2)
proof (induction "nat (pa_wheel_accumulator app)" arbitrary: app rule: less_induct)
  case less
  show ?case
  proof (cases "pa_wheel_accumulator app \<ge> t")
    case False
    then have "wheel_up_loop t app = Some app" by (subst wheel_up_loop.simps) simp
    then show ?thesis using False less.prems by (intro exI [of _ app] exI [of _ 0]) simp
  next
    case True
    let ?b = "(wheel_event (int (pa_wheel_step app)) app)\<lparr>pa_wheel_accumulator := pa_wheel_accumulator app - t\<rparr>"
    note e = wheel_event_effect [OF less.prems, of "int (pa_wheel_step app)"]
    have b: "wheel_frame ?b = wheel_frame app" "native_input_ready (pa_input ?b)"
      "in_sent (pa_input ?b) = in_sent (pa_input app) @ [notch (int (pa_wheel_step app)) app]"
      using e by simp_all
    have st: "notch (int (pa_wheel_step ?b)) ?b = notch (int (pa_wheel_step app)) app"
      using b(1) frame_notch [OF b(1)] by (simp add: wheel_frame_def)
    have "nat (pa_wheel_accumulator ?b) < nat (pa_wheel_accumulator app)" using True assms(1) by simp
    from less.hyps [OF this b(2)] obtain app' k where r: "wheel_up_loop t ?b = Some app'" "wheel_frame app' = wheel_frame ?b"
      "native_input_ready (pa_input app')" "pa_wheel_accumulator app' < t"
      "pa_wheel_accumulator ?b < t \<longrightarrow> app' = ?b" "t \<le> pa_wheel_accumulator ?b \<longrightarrow> 0 \<le> pa_wheel_accumulator app'"
      "pa_wheel_accumulator app' + int k * t = pa_wheel_accumulator ?b"
      "in_sent (pa_input app') = in_sent (pa_input ?b) @ replicate k (notch (int (pa_wheel_step ?b)) ?b)" by blast
    have "wheel_up_loop t app = Some app'" using r(1) True by (subst wheel_up_loop.simps) simp
    moreover have "0 \<le> pa_wheel_accumulator app'" using r(5,6) True by (cases "pa_wheel_accumulator ?b < t") auto
    moreover have "pa_wheel_accumulator app' + int (Suc k) * t = pa_wheel_accumulator app"
      using r(7) by (simp add: algebra_simps)
    moreover have "in_sent (pa_input app') = in_sent (pa_input app) @ replicate (Suc k) (notch (int (pa_wheel_step app)) app)"
      using r(8) b(3) st by simp
    ultimately show ?thesis using r(2-4) b(1) True by (intro exI [of _ app'] exI [of _ "Suc k"]) simp
  qed
qed

lemma wheel_down_runs:
  assumes "0 < t" "native_input_ready (pa_input app)"
  shows "\<exists>app' k. wheel_down_loop t app = Some app' \<and> wheel_frame app' = wheel_frame app \<and>
    native_input_ready (pa_input app') \<and> - t < pa_wheel_accumulator app' \<and>
    (- t < pa_wheel_accumulator app \<longrightarrow> app' = app) \<and> (pa_wheel_accumulator app \<le> - t \<longrightarrow> pa_wheel_accumulator app' \<le> 0) \<and>
    pa_wheel_accumulator app' - int k * t = pa_wheel_accumulator app \<and>
    in_sent (pa_input app') = in_sent (pa_input app) @ replicate k (notch (- int (pa_wheel_step app)) app)"
  using assms(2)
proof (induction "nat (- pa_wheel_accumulator app)" arbitrary: app rule: less_induct)
  case less
  show ?case
  proof (cases "pa_wheel_accumulator app \<le> - t")
    case False
    then have "wheel_down_loop t app = Some app" by (subst wheel_down_loop.simps) simp
    then show ?thesis using False less.prems by (intro exI [of _ app] exI [of _ 0]) simp
  next
    case True
    let ?b = "(wheel_event (- int (pa_wheel_step app)) app)\<lparr>pa_wheel_accumulator := pa_wheel_accumulator app + t\<rparr>"
    note e = wheel_event_effect [OF less.prems, of "- int (pa_wheel_step app)"]
    have b: "wheel_frame ?b = wheel_frame app" "native_input_ready (pa_input ?b)"
      "in_sent (pa_input ?b) = in_sent (pa_input app) @ [notch (- int (pa_wheel_step app)) app]"
      using e by simp_all
    have st: "notch (- int (pa_wheel_step ?b)) ?b = notch (- int (pa_wheel_step app)) app"
      using b(1) frame_notch [OF b(1)] by (simp add: wheel_frame_def)
    have "nat (- pa_wheel_accumulator ?b) < nat (- pa_wheel_accumulator app)" using True assms(1) by simp
    from less.hyps [OF this b(2)] obtain app' k where r: "wheel_down_loop t ?b = Some app'" "wheel_frame app' = wheel_frame ?b"
      "native_input_ready (pa_input app')" "- t < pa_wheel_accumulator app'"
      "- t < pa_wheel_accumulator ?b \<longrightarrow> app' = ?b" "pa_wheel_accumulator ?b \<le> - t \<longrightarrow> pa_wheel_accumulator app' \<le> 0"
      "pa_wheel_accumulator app' - int k * t = pa_wheel_accumulator ?b"
      "in_sent (pa_input app') = in_sent (pa_input ?b) @ replicate k (notch (- int (pa_wheel_step ?b)) ?b)" by blast
    have "wheel_down_loop t app = Some app'" using r(1) True by (subst wheel_down_loop.simps) simp
    moreover have "pa_wheel_accumulator app' \<le> 0" using r(5,6) True by (cases "- t < pa_wheel_accumulator ?b") auto
    moreover have "pa_wheel_accumulator app' - int (Suc k) * t = pa_wheel_accumulator app"
      using r(7) by (simp add: algebra_simps)
    moreover have "in_sent (pa_input app') = in_sent (pa_input app) @ replicate (Suc k) (notch (- int (pa_wheel_step app)) app)"
      using r(8) b(3) st by simp
    ultimately show ?thesis using r(2-4) b(1) True by (intro exI [of _ app'] exI [of _ "Suc k"]) simp
  qed
qed

section \<open>Held inputs\<close>

lemma bit_push1: "bit (2 ^ m :: u8) n \<longleftrightarrow> n = m \<and> m < 8"
  by (auto simp: bit_simps)

lemma key_bit_iff: "key_bit keys idx \<longleftrightarrow> bit (keys ! (idx div 8)) (idx mod 8)"
proof -
  have "(k AND 2 ^ m \<noteq> 0) = bit k m" if "m < 8" for k :: u8 and m
  proof -
    have "bit (k AND 2 ^ m) n \<longleftrightarrow> n = m \<and> bit k m" for n
      using that by (auto simp: bit_and_iff bit_push1)
    then show ?thesis by (metis bit_0_eq bit_eqI bot_apply bot_bool_def)
  qed
  then show ?thesis by (simp add: key_bit_def)
qed

lemma key_bit_set:
  assumes "idx < 8 * length keys"
  shows "key_bit (set_key_bit idx down keys) j = (if j = idx then down else key_bit keys j)"
proof -
  have l: "idx div 8 < length keys" using assms by (simp add: div_less_iff_less_mult mult.commute)
  show ?thesis
  proof (cases "j div 8 = idx div 8")
    case True
    then have "(j = idx) = (j mod 8 = idx mod 8)" by (metis div_mult_mod_eq)
    then show ?thesis using l True
      by (auto simp: key_bit_iff set_key_bit_def bit_or_iff bit_and_iff bit_not_iff bit_push1)
  next
    case False
    then show ?thesis by (auto simp: key_bit_iff set_key_bit_def)
  qed
qed

lemma length_set_key_bit [simp]: "length (set_key_bit idx down keys) = length keys"
  by (simp add: set_key_bit_def)

text \<open>The release calls, one per held input.\<close>

definition button_up :: "NativeInput \<Rightarrow> int \<Rightarrow> int \<Rightarrow> nat \<Rightarrow> RdpInput" where
  "button_up inp wx wy b = (case native_input_map_point inp wx wy of
     (x, y) \<Rightarrow> SendPointerButton (the (in_session inp)) x y (word_of_nat (b + 1)) False)"

definition key_up :: "NativeInput \<Rightarrow> nat \<Rightarrow> RdpInput" where
  "key_up inp idx = SendKey (the (in_session inp)) (word_of_nat (idx mod 256)) False (idx div 256 = 1)"

lemma geometry_session: "geometry inp = geometry inp' \<Longrightarrow> in_session inp = in_session inp'"
  "geometry inp = geometry inp' \<Longrightarrow> native_input_ready inp = native_input_ready inp'"
  by (simp_all add: geometry_def native_input_ready_def)

lemma flush_buttons:
  assumes "native_input_ready (pa_input app)" "distinct xs" "set xs \<subseteq> {..<length (pa_held_mouse app)}"
  shows "let r = foldl (flush_button wx wy) app xs in
    in_sent (pa_input r) = in_sent (pa_input app) @ map (button_up (pa_input app) wx wy) (filter ((!) (pa_held_mouse app)) xs) \<and>
    geometry (pa_input r) = geometry (pa_input app) \<and> pa_held_keys r = pa_held_keys app \<and>
    length (pa_held_mouse r) = length (pa_held_mouse app) \<and>
    (\<forall>b. pa_held_mouse r ! b = (pa_held_mouse app ! b \<and> b \<notin> set xs))"
  using assms
proof (induction xs arbitrary: app)
  case (Cons b xs)
  let ?r = "flush_button wx wy app b"
  have r: "in_sent (pa_input ?r) = in_sent (pa_input app) @ (if pa_held_mouse app ! b then [button_up (pa_input app) wx wy b] else [])"
    "geometry (pa_input ?r) = geometry (pa_input app)" "pa_held_keys ?r = pa_held_keys app"
    "length (pa_held_mouse ?r) = length (pa_held_mouse app)"
    "\<And>c. pa_held_mouse ?r ! c = (pa_held_mouse app ! c \<and> c \<noteq> b)"
    using Cons.prems(1,3)
    by (auto simp: flush_button_def native_input_pointer_button_def Let_def button_up_def map_last_def case_prod_beta
        nth_list_update geometry_def send_def)
  have rd: "native_input_ready (pa_input ?r)" using r(2) Cons.prems(1) geometry_session(2) by metis
  have bu: "button_up (pa_input ?r) wx wy = button_up (pa_input app) wx wy"
    using geometry_map [OF r(2)] geometry_session(1) [OF r(2)] by (simp add: button_up_def fun_eq_iff)
  have fl: "filter (\<lambda>c. pa_held_mouse app ! c \<and> c \<noteq> b) xs = filter ((!) (pa_held_mouse app)) xs"
    using Cons.prems(2) by (intro filter_cong) auto
  show ?case using Cons.IH [of ?r] rd Cons.prems(2,3) r bu by (auto simp: Let_def fl)
qed simp

lemma flush_keys:
  assumes "native_input_ready (pa_input app)" "distinct xs" "set xs \<subseteq> {..<8 * length (pa_held_keys app)}"
  shows "let r = foldl flush_key app xs in
    in_sent (pa_input r) = in_sent (pa_input app) @ map (key_up (pa_input app)) (filter (key_bit (pa_held_keys app)) xs) \<and>
    geometry (pa_input r) = geometry (pa_input app) \<and> pa_held_mouse r = pa_held_mouse app \<and>
    length (pa_held_keys r) = length (pa_held_keys app) \<and>
    (\<forall>j. key_bit (pa_held_keys r) j = (key_bit (pa_held_keys app) j \<and> j \<notin> set xs))"
  using assms
proof (induction xs arbitrary: app)
  case (Cons k xs)
  let ?r = "flush_key app k"
  have k: "k < 8 * length (pa_held_keys app)" using Cons.prems(3) by simp
  have r: "in_sent (pa_input ?r) = in_sent (pa_input app) @ (if key_bit (pa_held_keys app) k then [key_up (pa_input app) k] else [])"
    "geometry (pa_input ?r) = geometry (pa_input app)" "pa_held_mouse ?r = pa_held_mouse app"
    "length (pa_held_keys ?r) = length (pa_held_keys app)"
    "\<And>c. key_bit (pa_held_keys ?r) c = (key_bit (pa_held_keys app) c \<and> c \<noteq> k)"
    using Cons.prems(1) key_bit_set [OF k] by (auto simp: flush_key_def native_input_key_def key_up_def)
  have rd: "native_input_ready (pa_input ?r)" using r(2) Cons.prems(1) geometry_session(2) by metis
  have ku: "key_up (pa_input ?r) = key_up (pa_input app)"
    using geometry_session(1) [OF r(2)] by (simp add: key_up_def fun_eq_iff)
  have fl: "filter (\<lambda>c. key_bit (pa_held_keys app) c \<and> c \<noteq> k) xs = filter (key_bit (pa_held_keys app)) xs"
    using Cons.prems(2) by (intro filter_cong) auto
  show ?case using Cons.IH [of ?r] rd Cons.prems(2,3) r ku by (auto simp: Let_def fl)
qed simp


lemma scaled_wheel:
  assumes "0 < pa_wheel_step app" "0 < pa_wheel_scroll_divisor app" "native_input_ready (pa_input app)" "y \<noteq> 0"
    and "t = int (pa_wheel_step app) * int (pa_wheel_scroll_divisor app)"
    and small: "\<bar>pa_wheel_accumulator app\<bar> < t"
    and "start = (if pa_wheel_accumulator app * y < 0 then 0 else pa_wheel_accumulator app)"
  shows "\<exists>app' k. native_send_scaled_wheel y app = Some app' \<and> \<bar>pa_wheel_accumulator app'\<bar> < t \<and>
    pa_wheel_accumulator app' + sgn y * int k * t = start + y * int (pa_wheel_step app) \<and>
    wheel_frame app' = wheel_frame app \<and>
    in_sent (pa_input app') = in_sent (pa_input app) @ replicate k (notch (sgn y * int (pa_wheel_step app)) app)"
proof -
  define u where "u = y * int (pa_wheel_step app)"
  define a where "a = app\<lparr>pa_wheel_accumulator := start + u\<rparr>"
  have t: "0 < t" using assms(1,2,5) by simp
  have sg: "(0 < u) = (0 < y)" "(u < 0) = (y < 0)"
    using assms(1) by (simp_all add: u_def zero_less_mult_iff mult_less_0_iff)
  have rev: "(pa_wheel_accumulator app > 0 \<and> u < 0 \<or> pa_wheel_accumulator app < 0 \<and> u > 0) =
      (pa_wheel_accumulator app * y < 0)"
    by (auto simp: sg mult_less_0_iff)
  have run: "native_send_scaled_wheel y app =
      (case wheel_up_loop t a of None \<Rightarrow> None | Some app \<Rightarrow> wheel_down_loop t app)"
    using assms(4,5,7) rev
    by (auto simp: native_send_scaled_wheel_def Let_def u_def a_def cong: option.case_cong)
  have fa: "wheel_frame a = wheel_frame app" by (simp add: a_def)
  have ra: "native_input_ready (pa_input a)" and sa: "in_sent (pa_input a) = in_sent (pa_input app)"
    and stp: "pa_wheel_step a = pa_wheel_step app" and aa: "pa_wheel_accumulator a = start + u"
    using assms(3) by (simp_all add: a_def)
  note up = wheel_up_runs [OF t ra] and down = wheel_down_runs [OF t]
  show ?thesis
  proof (cases "0 < y")
    case True
    then have pos: "- t < start + u" "sgn y = 1" using sg small assms(7) by (auto simp: abs_less_iff split: if_splits)
    from up obtain b k where b: "wheel_up_loop t a = Some b" "wheel_frame b = wheel_frame a" "native_input_ready (pa_input b)"
      "pa_wheel_accumulator b < t" "pa_wheel_accumulator a < t \<longrightarrow> b = a" "t \<le> pa_wheel_accumulator a \<longrightarrow> 0 \<le> pa_wheel_accumulator b"
      "pa_wheel_accumulator b + int k * t = pa_wheel_accumulator a"
      "in_sent (pa_input b) = in_sent (pa_input a) @ replicate k (notch (int (pa_wheel_step a)) a)" by blast
    have lo: "- t < pa_wheel_accumulator b" using b(5,6) pos(1) aa t by (cases "pa_wheel_accumulator a < t") auto
    then have "wheel_down_loop t b = Some b" by (subst wheel_down_loop.simps) simp
    then show ?thesis using run b lo pos(2) aa sa stp fa frame_notch [OF fa]
      by (intro exI [of _ b] exI [of _ k]) (simp add: u_def abs_less_iff)
  next
    case False
    then have neg: "start + u < t" "sgn y = -1" using sg small assms(4,7) by (auto simp: abs_less_iff split: if_splits)
    then have ua: "wheel_up_loop t a = Some a" using aa by (subst wheel_up_loop.simps) simp
    from down [OF ra] obtain b k where b: "wheel_down_loop t a = Some b" "wheel_frame b = wheel_frame a"
      "- t < pa_wheel_accumulator b" "- t < pa_wheel_accumulator a \<longrightarrow> b = a"
      "pa_wheel_accumulator a \<le> - t \<longrightarrow> pa_wheel_accumulator b \<le> 0"
      "pa_wheel_accumulator b - int k * t = pa_wheel_accumulator a"
      "in_sent (pa_input b) = in_sent (pa_input a) @ replicate k (notch (- int (pa_wheel_step a)) a)" by blast
    have hi: "pa_wheel_accumulator b < t" using b(4,5) neg(1) aa t by (cases "- t < pa_wheel_accumulator a") auto
    show ?thesis using run ua b hi neg(2) aa sa stp fa frame_notch [OF fa]
      by (intro exI [of _ b] exI [of _ k]) (simp add: u_def abs_less_iff)
  qed
qed

section \<open>Properties\<close>


text \<open>A pointer state the witnesses start from.\<close>

definition example_pointer :: PointerApp where
  "example_pointer = \<lparr>pa_input = (native_input_set_active True (native_input_init (Some 7) 1920 1080)),
     pa_active_index = 0, pa_mixer_overlay_visible = False, pa_streaming_visible = True, pa_wheel_step = 2,
     pa_wheel_scroll_divisor = 3, pa_wheel_accumulator = 4, pa_virtual_mouse_x = 10, pa_virtual_mouse_y = 20,
     pa_pointer_clamp_pending = False, pa_pointer_warp_pending = False, pa_pointer_warp_x = 0, pa_pointer_warp_y = 0,
     pa_pointer_warp_slot = 0, pa_render_width = 1920, pa_render_height = 1080, pa_window_unfocused = False,
     pa_app_backgrounded = False, pa_held_mouse = [False, True, False], pa_held_keys = 2 # replicate 63 0, pa_warps = []\<rparr>"

lemma example_pointer_ready: "native_input_ready (pa_input example_pointer)"
  by (simp add: example_pointer_def native_input_ready_def native_input_set_active_def native_input_init_def
      native_input_set_window_size_def native_input_set_desktop_size_def)



subsection \<open>What is held\<close>

text \<open>The events the drains track, and which inputs a history of them leaves down.\<close>

datatype Tracked = TrackButton nat bool | TrackKey u8 bool bool

fun track :: "PointerApp \<Rightarrow> Tracked \<Rightarrow> PointerApp" where
  "track app (TrackButton button down) = native_track_button button down app"
| "track app (TrackKey scancode extended down) = native_track_key scancode extended down app"

fun button_step :: "nat \<Rightarrow> bool \<Rightarrow> Tracked \<Rightarrow> bool" where
  "button_step b held (TrackButton button down) = (if button = Suc b then down else held)"
| "button_step b held (TrackKey scancode extended down) = held"

fun key_step :: "nat \<Rightarrow> bool \<Rightarrow> Tracked \<Rightarrow> bool" where
  "key_step k held (TrackButton button down) = held"
| "key_step k held (TrackKey scancode extended down) =
     (if k = unat scancode + (if extended then 256 else 0) then down else held)"

definition button_down :: "Tracked list \<Rightarrow> nat \<Rightarrow> bool" where
  "button_down evs b = foldl (button_step b) False evs"

definition key_down :: "Tracked list \<Rightarrow> nat \<Rightarrow> bool" where
  "key_down evs k = foldl (key_step k) False evs"

definition nothing_held :: "PointerApp \<Rightarrow> bool" where
  "nothing_held app \<longleftrightarrow> pa_held_mouse app = replicate 3 False \<and> pa_held_keys app = replicate 64 0"

lemma no_key_bits: "k < 512 \<Longrightarrow> \<not> key_bit (replicate 64 0) k"
  by (simp add: key_bit_def)

lemma no_key_bits_conv:
  assumes "length keys = 64" "\<forall>k<512. \<not> key_bit keys k"
  shows "keys = replicate 64 0"
proof (rule nth_equalityI)
  fix i assume i: "i < length keys"
  have "\<not> bit (keys ! i) n" for n
  proof (cases "n < 8")
    case True
    then have "\<not> key_bit keys (8 * i + n)" using i assms by simp
    then show ?thesis using True by (simp add: key_bit_iff)
  next
    case False
    then show ?thesis by (simp add: bit_word.rep_eq)
  qed
  then have "keys ! i = 0" by (intro bit_eqI) simp
  then show "keys ! i = replicate 64 0 ! i" using i assms(1) by simp
qed (simp add: assms(1))

lemma track_history:
  assumes "nothing_held app"
  shows "length (pa_held_mouse (foldl track app evs)) = 3" "length (pa_held_keys (foldl track app evs)) = 64"
    "pa_input (foldl track app evs) = pa_input app"
    "pa_virtual_mouse_x (foldl track app evs) = pa_virtual_mouse_x app"
    "pa_virtual_mouse_y (foldl track app evs) = pa_virtual_mouse_y app"
    "b < 3 \<Longrightarrow> pa_held_mouse (foldl track app evs) ! b = button_down evs b"
    "k < 512 \<Longrightarrow> key_bit (pa_held_keys (foldl track app evs)) k = key_down evs k"
proof -
  let ?P = "\<lambda>evs. let r = foldl track app evs in length (pa_held_mouse r) = 3 \<and> length (pa_held_keys r) = 64 \<and>
    pa_input r = pa_input app \<and> pa_virtual_mouse_x r = pa_virtual_mouse_x app \<and>
    pa_virtual_mouse_y r = pa_virtual_mouse_y app \<and> (\<forall>b<3. pa_held_mouse r ! b = button_down evs b) \<and>
    (\<forall>k<512. key_bit (pa_held_keys r) k = key_down evs k)"
  have "?P evs"
  proof (induction evs rule: rev_induct)
    case Nil
    then show ?case using assms by (auto simp: nothing_held_def button_down_def key_down_def no_key_bits)
  next
    case (snoc e evs)
    define r where "r = foldl track app evs"
    have ih: "length (pa_held_mouse r) = 3" "length (pa_held_keys r) = 64" "pa_input r = pa_input app"
      "pa_virtual_mouse_x r = pa_virtual_mouse_x app" "pa_virtual_mouse_y r = pa_virtual_mouse_y app"
      "\<And>b. b < 3 \<Longrightarrow> pa_held_mouse r ! b = button_down evs b"
      "\<And>k. k < 512 \<Longrightarrow> key_bit (pa_held_keys r) k = key_down evs k"
      using snoc.IH by (simp_all add: Let_def r_def)
    show ?case
    proof (cases e)
      case (TrackButton n d)
      then show ?thesis using ih
        by (auto simp: Let_def r_def [symmetric] native_track_button_def NATIVE_INPUT_BUTTON_LEFT_def
            NATIVE_INPUT_BUTTON_MIDDLE_def button_down_def key_down_def nth_list_update)
    next
      case (TrackKey sc ext d)
      define i where "i = unat sc + (if ext then 256 else 0)"
      have "unat sc < 256" using unsigned_less [of sc] by simp
      then have "i < 512" by (simp add: i_def)
      then have "key_bit (set_key_bit i d (pa_held_keys r)) k = (if k = i then d else key_bit (pa_held_keys r) k)" for k
        using key_bit_set ih(2) by simp
      then show ?thesis using TrackKey ih
        by (auto simp: Let_def r_def [symmetric] native_track_key_def i_def [symmetric] button_down_def key_down_def)
    qed
  qed
  then show "length (pa_held_mouse (foldl track app evs)) = 3" "length (pa_held_keys (foldl track app evs)) = 64"
    "pa_input (foldl track app evs) = pa_input app"
    "pa_virtual_mouse_x (foldl track app evs) = pa_virtual_mouse_x app"
    "pa_virtual_mouse_y (foldl track app evs) = pa_virtual_mouse_y app"
    "b < 3 \<Longrightarrow> pa_held_mouse (foldl track app evs) ! b = button_down evs b"
    "k < 512 \<Longrightarrow> key_bit (pa_held_keys (foldl track app evs)) k = key_down evs k"
    by (simp_all add: Let_def)
qed

lemma flush_held:
  assumes "native_input_ready (pa_input app)" "length (pa_held_mouse app) = 3" "length (pa_held_keys app) = 64"
  shows "in_sent (pa_input (native_flush_held_inputs app)) = in_sent (pa_input app) @
      map (button_up (pa_input app) (pa_virtual_mouse_x app) (pa_virtual_mouse_y app)) (filter ((!) (pa_held_mouse app)) [0..<3]) @
      map (key_up (pa_input app)) (filter (key_bit (pa_held_keys app)) [0..<512])" (is ?sent)
    and "nothing_held (native_flush_held_inputs app)" (is ?none)
proof -
  define a where "a = foldl (flush_button (pa_virtual_mouse_x app) (pa_virtual_mouse_y app)) app [0..<3]"
  have sb: "set [0..<3] \<subseteq> {..<length (pa_held_mouse app)}" using assms(2) by auto
  have a: "in_sent (pa_input a) = in_sent (pa_input app) @
      map (button_up (pa_input app) (pa_virtual_mouse_x app) (pa_virtual_mouse_y app)) (filter ((!) (pa_held_mouse app)) [0..<3])"
    "geometry (pa_input a) = geometry (pa_input app)" "pa_held_keys a = pa_held_keys app" "length (pa_held_mouse a) = 3"
    "\<And>b. pa_held_mouse a ! b = (pa_held_mouse app ! b \<and> b \<notin> set [0..<3])"
    using flush_buttons [OF assms(1) distinct_upt sb, of "pa_virtual_mouse_x app" "pa_virtual_mouse_y app"] assms(2)
    unfolding a_def [symmetric] Let_def by simp_all
  have ra: "native_input_ready (pa_input a)" using a(2) assms(1) geometry_session(2) by metis
  have la: "set [0..<512] \<subseteq> {..<8 * length (pa_held_keys a)}" using a(3) assms(3) by auto
  have f: "native_flush_held_inputs app = foldl flush_key a [0..<512]"
    unfolding native_flush_held_inputs_def a_def by (rule refl)
  have k: "in_sent (pa_input (native_flush_held_inputs app)) = in_sent (pa_input a) @ map (key_up (pa_input a)) (filter (key_bit (pa_held_keys a)) [0..<512])"
    "pa_held_mouse (native_flush_held_inputs app) = pa_held_mouse a" "length (pa_held_keys (native_flush_held_inputs app)) = 64"
    "\<And>j. key_bit (pa_held_keys (native_flush_held_inputs app)) j = (key_bit (pa_held_keys a) j \<and> j \<notin> set [0..<512])"
    using flush_keys [OF ra distinct_upt la] a(3) assms(3) unfolding f Let_def by (simp_all del: upt.simps upt_conv_Cons)
  have ku: "key_up (pa_input a) = key_up (pa_input app)"
    using geometry_session(1) [OF a(2)] by (simp add: key_up_def fun_eq_iff)
  show ?sent unfolding k(1) a(1,3) ku append_assoc by (rule refl)
  have "pa_held_mouse a = replicate 3 False" using a(4,5) by (intro nth_equalityI) simp_all
  moreover have "pa_held_keys (native_flush_held_inputs app) = replicate 64 0"
    using k(3,4) by (intro no_key_bits_conv) simp_all
  ultimately show ?none using k(2) by (simp add: nothing_held_def)
qed


text \<open>
  C34: releasing what is held.  Start with nothing held and track any history of button and key
  events, repeats and releases without a press included.  Flushing while the input is ready sends
  exactly one release per input whose last tracked event was a press, the buttons at the virtual
  mouse position first and then the keys in scancode order, the extended keys last, and afterwards
  nothing is held, so a second flush sends nothing.
\<close>

theorem flush_releases_exactly_what_is_held:
  assumes "nothing_held app" "native_input_ready (pa_input app)"
    and "r = native_flush_held_inputs (foldl track app evs)"
  shows "in_sent (pa_input r) = in_sent (pa_input app) @
      map (button_up (pa_input app) (pa_virtual_mouse_x app) (pa_virtual_mouse_y app)) (filter (button_down evs) [0..<3]) @
      map (key_up (pa_input app)) (filter (key_down evs) [0..<512]) \<and>
    nothing_held r"
proof -
  note h = track_history [OF assms(1)]
  have rd: "native_input_ready (pa_input (foldl track app evs))" using h(3) assms(2) by simp
  have "filter ((!) (pa_held_mouse (foldl track app evs))) [0..<3] = filter (button_down evs) [0..<3]"
    using h(6) by (intro filter_cong refl) simp
  moreover have "filter (key_bit (pa_held_keys (foldl track app evs))) [0..<512] = filter (key_down evs) [0..<512]"
    using h(7) by (intro filter_cong refl) simp
  ultimately show ?thesis
    using flush_held [OF rd h(1,2)] unfolding h(3-5) assms(3) by (simp only: simp_thms)
qed

lemma only_b1: "filter (button_down [TrackKey 0x1D True True, TrackButton 2 True, TrackButton 1 False]) [0..<3] = [1]"
  by (simp add: button_down_def upt_rec)

theorem flush_releases_exactly_what_is_held_witness:
  "let app = example_pointer\<lparr>pa_held_mouse := replicate 3 False, pa_held_keys := replicate 64 0\<rparr>;
     evs = [TrackKey 0x1D True True, TrackButton 2 True, TrackButton 1 False] in
    in_sent (pa_input (native_flush_held_inputs (foldl track app evs))) =
      in_sent (pa_input app) @ button_up (pa_input app) (pa_virtual_mouse_x app) (pa_virtual_mouse_y app) 1 #
        map (key_up (pa_input app)) (filter (key_down evs) [0..<512]) \<and>
    nothing_held (native_flush_held_inputs (foldl track app evs))"
proof -
  let ?app = "example_pointer\<lparr>pa_held_mouse := replicate 3 False, pa_held_keys := replicate 64 0\<rparr>"
  have ok: "nothing_held ?app" "native_input_ready (pa_input ?app)"
    using example_pointer_ready by (simp_all add: nothing_held_def)
  show ?thesis
    using flush_releases_exactly_what_is_held [OF ok refl,
        of "[TrackKey 0x1D True True, TrackButton 2 True, TrackButton 1 False]"]
    unfolding Let_def only_b1 list.map append_Cons append_Nil .
qed


subsection \<open>The virtual mouse\<close>

definition window_sane :: "NativeInput \<Rightarrow> bool" where
  "window_sane inp \<longleftrightarrow> 0 < uint (in_window_width inp) \<and> uint (in_window_width inp) < 65536 \<and>
     0 < uint (in_window_height inp) \<and> uint (in_window_height inp) < 65536"

definition mouse_inside :: "PointerApp \<Rightarrow> bool" where
  "mouse_inside app \<longleftrightarrow> 0 \<le> pa_virtual_mouse_x app \<and> pa_virtual_mouse_x app < uint (in_window_width (pa_input app)) \<and>
     0 \<le> pa_virtual_mouse_y app \<and> pa_virtual_mouse_y app < uint (in_window_height (pa_input app))"

definition mouse_inv :: "PointerApp \<Rightarrow> bool" where
  "mouse_inv app \<longleftrightarrow> window_sane (pa_input app) \<and> (pa_pointer_clamp_pending app \<or> mouse_inside app)"

text \<open>Everything the SDL thread and the session thread do to the pointer.\<close>

datatype PointerEvent =
    RenderSize "(int \<times> int) option"
  | UpdateWindow
  | RequestWindow
  | DrainClamp
  | DrainWarp bool
  | InitRender "int \<times> int" "(int \<times> int) option"
  | MoveTo int int
  | Wheel int
  | Track Tracked
  | Flush
  | DesktopSize u16 u16

fun pointer_event :: "PointerApp \<Rightarrow> PointerEvent \<Rightarrow> PointerApp" where
  "pointer_event app (RenderSize out) = snd (native_update_render_size out app)"
| "pointer_event app UpdateWindow = native_update_pointer_window_size app"
| "pointer_event app RequestWindow = native_request_pointer_window_size_update app"
| "pointer_event app DrainClamp = native_drain_pointer_clamp app"
| "pointer_event app (DrainWarp window) = native_drain_pointer_warp window app"
| "pointer_event app (InitRender sz out) = snd (native_init_render_state sz out app)"
| "pointer_event app (MoveTo x y) = native_set_virtual_mouse_position x y app"
| "pointer_event app (Wheel y) = (case native_send_scaled_wheel y app of None \<Rightarrow> app | Some app' \<Rightarrow> app')"
| "pointer_event app (Track e) = track app e"
| "pointer_event app Flush = native_flush_held_inputs app"
| "pointer_event app (DesktopSize w h) = app\<lparr>pa_input := native_input_set_desktop_size w h (pa_input app)\<rparr>"

text \<open>What the invariant reads.\<close>

definition mouse_view where
  "mouse_view app = (in_window_width (pa_input app), in_window_height (pa_input app), pa_virtual_mouse_x app,
     pa_virtual_mouse_y app, pa_pointer_clamp_pending app)"

lemma mouse_view_inv: "mouse_view app' = mouse_view app \<Longrightarrow> mouse_inv app' = mouse_inv app"
  by (simp add: mouse_view_def mouse_inv_def window_sane_def mouse_inside_def)

lemma send_keeps_window [simp]:
  "in_window_width (send c inp) = in_window_width inp" "in_window_height (send c inp) = in_window_height inp"
  "in_window_width (map_last x y inp) = in_window_width inp" "in_window_height (map_last x y inp) = in_window_height inp"
  by (simp_all add: send_def map_last_def case_prod_beta)

lemma mouse_view_wheel_event: "mouse_view (wheel_event d app) = mouse_view app"
  by (simp add: mouse_view_def wheel_event_def native_input_pointer_wheel_def Let_def)

lemma mouse_view_accumulator [simp]: "mouse_view (app\<lparr>pa_wheel_accumulator := a\<rparr>) = mouse_view app"
  by (simp add: mouse_view_def)

lemma mouse_view_wheel_up:
  assumes "wheel_up_loop t app = Some app'"
  shows "mouse_view app' = mouse_view app"
proof (rule wheel_up_loop.raw_induct [OF _ assms, of "\<lambda>t app app'. mouse_view app' = mouse_view app"], goal_cases)
  case (1 loop t app app')
  then show ?case by (fastforce simp: mouse_view_wheel_event split: if_splits)
qed

lemma mouse_view_wheel_down:
  assumes "wheel_down_loop t app = Some app'"
  shows "mouse_view app' = mouse_view app"
proof (rule wheel_down_loop.raw_induct [OF _ assms, of "\<lambda>t app app'. mouse_view app' = mouse_view app"], goal_cases)
  case (1 loop t app app')
  then show ?case by (fastforce simp: mouse_view_wheel_event split: if_splits)
qed

lemma mouse_view_scaled_wheel: "native_send_scaled_wheel y app = Some app' \<Longrightarrow> mouse_view app' = mouse_view app"
  by (auto simp: native_send_scaled_wheel_def Let_def split: if_splits option.splits
      dest!: mouse_view_wheel_up mouse_view_wheel_down)

lemma mouse_view_track: "mouse_view (track app e) = mouse_view app"
  by (cases e) (simp_all add: mouse_view_def native_track_button_def native_track_key_def Let_def)

lemma mouse_view_flush_button: "mouse_view (flush_button wx wy app b) = mouse_view app"
  by (simp add: mouse_view_def flush_button_def native_input_pointer_button_def Let_def)

lemma mouse_view_flush_key: "mouse_view (flush_key app k) = mouse_view app"
  by (simp add: mouse_view_def flush_key_def native_input_key_def Let_def)

lemma mouse_view_foldl: "(\<And>app x. mouse_view (f app x) = mouse_view app) \<Longrightarrow> mouse_view (foldl f app xs) = mouse_view app"
  by (induction xs arbitrary: app) simp_all

lemma mouse_view_flush: "mouse_view (native_flush_held_inputs app) = mouse_view app"
  by (simp add: native_flush_held_inputs_def mouse_view_foldl mouse_view_flush_button mouse_view_flush_key del: upt.simps upt_conv_Cons upt_rec_numeral)

lemma clamp_coord_inside: "0 < uint l \<Longrightarrow> 0 \<le> native_clamp_window_coord v l \<and> native_clamp_window_coord v l < uint l"
  by (auto simp: native_clamp_window_coord_def)

lemma window_ucast: "uint (w :: u32) < 65536 \<Longrightarrow> uint (ucast w :: u16) = uint w"
  by (simp add: unsigned_ucast_eq take_bit_int_eq_self)

lemma set_position_inside:
  assumes "window_sane (pa_input app)"
  shows "mouse_inside (native_set_virtual_mouse_position x y app)" "window_sane (pa_input (native_set_virtual_mouse_position x y app))"
proof -
  note w = assms [unfolded window_sane_def]
  then have "uint (ucast (in_window_width (pa_input app)) :: u16) = uint (in_window_width (pa_input app))"
    "uint (ucast (in_window_height (pa_input app)) :: u16) = uint (in_window_height (pa_input app))"
    using window_ucast by blast+
  then show "mouse_inside (native_set_virtual_mouse_position x y app)"
    using w clamp_coord_inside [of "ucast (in_window_width (pa_input app))" x] clamp_coord_inside [of "ucast (in_window_height (pa_input app))" y]
    by (simp add: mouse_inside_def native_set_virtual_mouse_position_def)
qed (use assms in \<open>simp add: native_set_virtual_mouse_position_def\<close>)

lemma set_window_sane: "window_sane (native_input_set_window_size w h inp)"
proof -
  have "0 < uint (ucast (clamp_dimension v) :: u32) \<and> uint (ucast (clamp_dimension v) :: u32) < 65536" for v :: u16
  proof -
    have "uint (ucast v :: u32) = uint v" for v :: u16
      using uint_lt2p [of v] by (simp add: unsigned_ucast_eq take_bit_int_eq_self)
    moreover have "0 < uint (clamp_dimension v)"
      using word_neq_0_conv [of v] by (simp add: clamp_dimension_def word_less_def)
    moreover have "uint (clamp_dimension v) < 65536" using uint_lt2p [of "clamp_dimension v"] by simp
    ultimately show ?thesis by simp
  qed
  then show ?thesis by (simp add: window_sane_def native_input_set_window_size_def)
qed

lemma sync_sane: "window_sane (pa_input (native_sync_input_window_size app))"
  by (simp add: native_sync_input_window_size_def Let_def set_window_sane)

lemma mouse_inv_set: "window_sane (pa_input app) \<Longrightarrow> mouse_inv (native_set_virtual_mouse_position x y app)"
  by (simp add: mouse_inv_def set_position_inside)

lemma mouse_inv_render: "mouse_view (snd (native_update_render_size out app)) = mouse_view app"
  by (simp add: native_update_render_size_def mouse_view_def Let_def split: option.split)

lemma mouse_inv_event: "mouse_inv app \<Longrightarrow> mouse_inv (pointer_event app e)"
proof (induction e)
  case (RenderSize out)
  then show ?case using mouse_view_inv [OF mouse_inv_render] by simp
next
  case UpdateWindow
  then show ?case by (simp add: native_update_pointer_window_size_def Let_def mouse_inv_set sync_sane)
next
  case RequestWindow
  then show ?case by (simp add: native_request_pointer_window_size_update_def mouse_inv_def sync_sane)
next
  case DrainClamp
  then show ?case by (auto simp: native_drain_pointer_clamp_def Let_def mouse_inv_def set_position_inside)
next
  case (DrainWarp window)
  then have "window_sane (pa_input app)" by (simp add: mouse_inv_def)
  with DrainWarp show ?case
    using set_position_inside [of "app\<lparr>pa_pointer_warp_pending := False\<rparr>"]
    by (auto simp: native_drain_pointer_warp_def Let_def mouse_inv_def mouse_inside_def)
next
  case (InitRender sz out)
  then show ?case using mouse_view_inv [OF mouse_inv_render, of out app]
    by (auto simp: native_init_render_state_def native_init_virtual_mouse_position_def native_update_pointer_window_size_def
        Let_def mouse_inv_set sync_sane set_position_inside split: prod.splits bool.splits)
next
  case (Wheel y)
  then show ?case using mouse_view_inv [OF mouse_view_scaled_wheel] by (auto split: option.split)
next
  case (Track e)
  then show ?case using mouse_view_inv [OF mouse_view_track] by simp
next
  case Flush
  then show ?case using mouse_view_inv [OF mouse_view_flush] by simp
next
  case (DesktopSize w h)
  then show ?case by (simp add: mouse_inv_def mouse_inside_def window_sane_def native_input_set_desktop_size_def)
qed (simp add: mouse_inv_def set_position_inside)

text \<open>
  C35: the virtual mouse stays in the window.  From the state the program starts in, after any
  interleaving of resizes requested by either thread, warps by the server, motion, wheel turns,
  tracked and flushed inputs and desktop size changes, draining the pending clamp (which the SDL
  loop does every tick) leaves the virtual mouse inside the window the input is mapped from, and
  the window's extents are between 1 and 65535.
\<close>

theorem virtual_mouse_inside_window:
  "let start = native_init_virtual_mouse_position (app\<lparr>pa_input := native_input_init session w h\<rparr>);
     app' = native_drain_pointer_clamp (foldl pointer_event start evs) in
    mouse_inside app' \<and> window_sane (pa_input app')"
proof -
  define start where "start = native_init_virtual_mouse_position (app\<lparr>pa_input := native_input_init session w h\<rparr>)"
  have "mouse_inv start"
    by (simp add: start_def native_init_virtual_mouse_position_def mouse_inv_set native_input_init_def set_window_sane)
  then have "mouse_inv (foldl pointer_event start evs)"
    by (induction evs arbitrary: start) (simp_all add: mouse_inv_event)
  then show ?thesis
    unfolding start_def Let_def by (auto simp: native_drain_pointer_clamp_def Let_def mouse_inv_def set_position_inside)
qed

end
