(* ===== verification/Rgba_Surface.thy ===== *)
theory Rgba_Surface
  imports Lg_Prelude
begin

text \<open>
  The bitmap canvas, \<open>native/src/video_rgba_sdl.c\<close>: a pixel buffer the RDP worker copies dirty
  rectangles into and the SDL thread draws.  Buffers are byte lists, and a copy that would leave
  one is None, so that a theorem that the update returns says that it stays inside.  \<open>size_t\<close>
  values are naturals and \<open>SIZE_MAX\<close> is the parameter \<open>size_max\<close> (\<open>2 ^ 32 - 1\<close> on the
  televisions, \<open>2 ^ 64 - 1\<close> on the test host); 32-bit coordinates are words.  Textures are SDL's:
  a texture is a number, SDL's answers are parameters, and \<open>tx_destroyed\<close> records, in order,
  each texture handed to \<open>SDL_DestroyTexture\<close> and whether the SDL thread did it.  \<open>rs_writers\<close>
  is not a field of the program: it lists the connections (slot, epoch) whose updates the pixels
  hold, for the statement that no session's picture leaks into another's.
\<close>

section \<open>State\<close>

datatype NativeRgbaResult =
  NATIVE_RGBA_OK | NATIVE_RGBA_INVALID | NATIVE_RGBA_NOMEM | NATIVE_RGBA_UNSUPPORTED | NATIVE_RGBA_RETRY

record NativeRgbaSurface =
  rs_width :: u16
  rs_height :: u16
  rs_pixels :: "bytes option"
  rs_has_frame :: bool
  rs_texture :: "nat option"
  rs_texture_renderer :: "nat option"
  rs_texture_width :: u16
  rs_texture_height :: u16
  rs_render_copy_failures :: nat
  rs_writers :: "(nat \<times> u32) list"

definition NATIVE_RGBA_RENDER_COPY_MAX_ATTEMPTS :: nat where "NATIVE_RGBA_RENDER_COPY_MAX_ATTEMPTS = 3"

record Textures =
  tx_next :: nat
  tx_destroyed :: "(nat \<times> bool) list"

text \<open>\<open>sdl\<close> says whether the SDL thread makes the call.\<close>

definition SDL_DestroyTexture :: "bool \<Rightarrow> nat \<Rightarrow> Textures \<Rightarrow> Textures" where
  "SDL_DestroyTexture sdl t tx = tx\<lparr>tx_destroyed := tx_destroyed tx @ [(t, sdl)]\<rparr>"

section \<open>Pixels\<close>

definition native_rgba_size :: "nat \<Rightarrow> u16 \<Rightarrow> u16 \<Rightarrow> nat option" where
  "native_rgba_size size_max width height =
     (if width = 0 \<or> height = 0 then None
      else let w = unat width; h = unat height in
        if w > size_max div h \<or> w * h > size_max div 4 then None else Some (w * h * 4))"

definition native_rgba_surface_close :: "bool \<Rightarrow> NativeRgbaSurface \<Rightarrow> Textures \<Rightarrow> Textures" where
  "native_rgba_surface_close sdl surface tx =
     (case rs_texture surface of None \<Rightarrow> tx | Some t \<Rightarrow> SDL_DestroyTexture sdl t tx)"

text \<open>\<open>alloc\<close> is what \<open>calloc\<close> answers for the pixels.\<close>

definition native_rgba_surface_resize :: "nat \<Rightarrow> bool \<Rightarrow> bool \<Rightarrow> u16 \<Rightarrow> u16 \<Rightarrow> NativeRgbaSurface \<Rightarrow> Textures \<Rightarrow>
    NativeRgbaResult \<times> NativeRgbaSurface \<times> Textures" where
  "native_rgba_surface_resize size_max alloc sdl width height surface tx =
     (case native_rgba_size size_max width height of
        None \<Rightarrow> (NATIVE_RGBA_INVALID, surface, tx)
      | Some len \<Rightarrow>
        if rs_width surface = width \<and> rs_height surface = height \<and> rs_pixels surface \<noteq> None
        then (NATIVE_RGBA_OK, surface, tx)
        else if \<not> alloc then (NATIVE_RGBA_NOMEM, surface, tx)
        else let surface = surface\<lparr>rs_pixels := Some (replicate len 0), rs_width := width, rs_height := height,
               rs_has_frame := False, rs_render_copy_failures := 0, rs_writers := []\<rparr> in
          (case rs_texture surface of
             None \<Rightarrow> (NATIVE_RGBA_OK, surface, tx)
           | Some t \<Rightarrow> (NATIVE_RGBA_OK, surface\<lparr>rs_texture := None, rs_texture_renderer := None,
               rs_texture_width := 0, rs_texture_height := 0\<rparr>, SDL_DestroyTexture sdl t tx)))"

definition surface_zero :: NativeRgbaSurface where
  "surface_zero = \<lparr>rs_width = 0, rs_height = 0, rs_pixels = None, rs_has_frame = False, rs_texture = None,
     rs_texture_renderer = None, rs_texture_width = 0, rs_texture_height = 0, rs_render_copy_failures = 0, rs_writers = []\<rparr>"

definition native_rgba_surface_open :: "nat \<Rightarrow> bool \<Rightarrow> bool \<Rightarrow> bool \<Rightarrow> u16 \<Rightarrow> u16 \<Rightarrow> Textures \<Rightarrow>
    NativeRgbaSurface option \<times> Textures" where
  "native_rgba_surface_open size_max alloc_surface alloc sdl width height tx =
     (if \<not> alloc_surface then (None, tx)
      else case native_rgba_surface_resize size_max alloc sdl width height surface_zero tx of
        (result, surface, tx) \<Rightarrow>
          if result \<noteq> NATIVE_RGBA_OK then (None, native_rgba_surface_close sdl surface tx)
          else (Some surface, tx))"

definition memcpy :: "nat \<Rightarrow> bytes \<Rightarrow> nat \<Rightarrow> nat \<Rightarrow> bytes \<Rightarrow> bytes option" where
  "memcpy dst from src n px =
     (if src + n \<le> length from \<and> dst + n \<le> length px
      then Some (take dst px @ take n (drop src from) @ drop (dst + n) px) else None)"

text \<open>The first \<open>n\<close> rows of the copy loop.\<close>

primrec copy_rows :: "nat \<Rightarrow> nat \<Rightarrow> nat \<Rightarrow> nat \<Rightarrow> nat \<Rightarrow> bytes \<Rightarrow> nat \<Rightarrow> bytes \<Rightarrow> bytes option" where
  "copy_rows w left ytop stride row_bytes rgba 0 px = Some px"
| "copy_rows w left ytop stride row_bytes rgba (Suc row) px =
     (case copy_rows w left ytop stride row_bytes rgba row px of
        None \<Rightarrow> None
      | Some px \<Rightarrow> memcpy (((ytop + row) * w + left) * 4) rgba (row * stride) row_bytes px)"

definition native_rgba_surface_apply :: "nat \<Rightarrow> u32 \<Rightarrow> u32 \<Rightarrow> u32 \<Rightarrow> u32 \<Rightarrow> u32 \<Rightarrow> bytes option \<Rightarrow> nat \<Rightarrow>
    NativeRgbaSurface \<Rightarrow> (NativeRgbaResult \<times> NativeRgbaSurface) option" where
  "native_rgba_surface_apply size_max left ytop width height stride data len surface =
     (case (rs_pixels surface, data) of
        (Some px, Some rgba) \<Rightarrow>
          if width = 0 \<or> height = 0 \<or> unat width > size_max div 4 then Some (NATIVE_RGBA_INVALID, surface)
          else let row_size = unat width * 4 in
          if unat stride < row_size then Some (NATIVE_RGBA_INVALID, surface)
          else if left \<ge> ucast (rs_width surface) \<or> ytop \<ge> ucast (rs_height surface) then Some (NATIVE_RGBA_OK, surface)
          else if height > 1 \<and> unat stride > (size_max - row_size) div unat (height - 1)
          then Some (NATIVE_RGBA_INVALID, surface)
          else if len < unat stride * unat (height - 1) + row_size then Some (NATIVE_RGBA_INVALID, surface)
          else let copy_width = (if left + width > ucast (rs_width surface) then ucast (rs_width surface) - left else width);
                 copy_height = (if ytop + height > ucast (rs_height surface) then ucast (rs_height surface) - ytop else height) in
            map_option (\<lambda>px. (NATIVE_RGBA_OK, surface\<lparr>rs_pixels := Some px, rs_has_frame := True\<rparr>))
              (copy_rows (unat (rs_width surface)) (unat left) (unat ytop) (unat stride) (unat copy_width * 4) rgba
                (unat copy_height) px)
      | _ \<Rightarrow> Some (NATIVE_RGBA_INVALID, surface))"

section \<open>Textures\<close>

definition native_rgba_drop_texture :: "NativeRgbaSurface \<Rightarrow> Textures \<Rightarrow> NativeRgbaSurface \<times> Textures" where
  "native_rgba_drop_texture surface tx =
     (surface\<lparr>rs_texture := None, rs_texture_renderer := None, rs_texture_width := 0, rs_texture_height := 0\<rparr>,
      case rs_texture surface of None \<Rightarrow> tx | Some t \<Rightarrow> SDL_DestroyTexture True t tx)"

text \<open>\<open>create\<close> is whether \<open>SDL_CreateTexture\<close> succeeds; a new texture is the next number.\<close>

definition native_rgba_ensure_texture :: "bool \<Rightarrow> nat \<Rightarrow> NativeRgbaSurface \<Rightarrow> Textures \<Rightarrow>
    NativeRgbaResult \<times> NativeRgbaSurface \<times> Textures" where
  "native_rgba_ensure_texture create renderer surface tx =
     (if rs_pixels surface = None then (NATIVE_RGBA_INVALID, surface, tx)
      else if rs_texture surface \<noteq> None \<and> rs_texture_renderer surface = Some renderer \<and>
        rs_texture_width surface = rs_width surface \<and> rs_texture_height surface = rs_height surface
      then (NATIVE_RGBA_OK, surface, tx)
      else case (if rs_texture surface \<noteq> None then native_rgba_drop_texture surface tx else (surface, tx)) of
        (surface, tx) \<Rightarrow>
          if \<not> create then (NATIVE_RGBA_UNSUPPORTED, surface, tx)
          else (NATIVE_RGBA_OK, surface\<lparr>rs_texture := Some (tx_next tx), rs_texture_renderer := Some renderer,
              rs_texture_width := rs_width surface, rs_texture_height := rs_height surface\<rparr>,
            tx\<lparr>tx_next := tx_next tx + 1\<rparr>))"

definition native_rgba_surface_render :: "bool \<Rightarrow> bool \<Rightarrow> bool \<Rightarrow> nat \<Rightarrow> NativeRgbaSurface \<Rightarrow> Textures \<Rightarrow>
    NativeRgbaResult \<times> NativeRgbaSurface \<times> Textures" where
  "native_rgba_surface_render create update copy renderer surface tx =
     (if \<not> rs_has_frame surface then (NATIVE_RGBA_INVALID, surface, tx)
      else case native_rgba_ensure_texture create renderer surface tx of
        (result, surface, tx) \<Rightarrow>
          if result \<noteq> NATIVE_RGBA_OK then (result, surface, tx)
          else if \<not> update then (NATIVE_RGBA_UNSUPPORTED, surface, tx)
          else if \<not> copy then
            let surface = (if rs_render_copy_failures surface < NATIVE_RGBA_RENDER_COPY_MAX_ATTEMPTS
                  then surface\<lparr>rs_render_copy_failures := rs_render_copy_failures surface + 1\<rparr> else surface);
                result = (if rs_render_copy_failures surface < NATIVE_RGBA_RENDER_COPY_MAX_ATTEMPTS
                  then NATIVE_RGBA_RETRY else NATIVE_RGBA_UNSUPPORTED);
                (surface, tx) = native_rgba_drop_texture surface tx in
            (result, surface, tx)
          else (NATIVE_RGBA_OK, surface\<lparr>rs_render_copy_failures := 0\<rparr>, tx))"

definition native_rgba_surface_take_texture :: "NativeRgbaSurface \<Rightarrow> nat option \<times> NativeRgbaSurface" where
  "native_rgba_surface_take_texture surface =
     (let surface = surface\<lparr>rs_render_copy_failures := 0\<rparr> in
      case rs_texture surface of
        None \<Rightarrow> (None, surface)
      | Some texture \<Rightarrow> (Some texture, surface\<lparr>rs_texture := None, rs_texture_renderer := None,
          rs_texture_width := 0, rs_texture_height := 0\<rparr>))"

section \<open>Well-formed canvases\<close>

definition surface_wf :: "NativeRgbaSurface \<Rightarrow> bool" where
  "surface_wf s \<longleftrightarrow> (case rs_pixels s of None \<Rightarrow> \<not> rs_has_frame s
     | Some px \<Rightarrow> length px = unat (rs_width s) * unat (rs_height s) * 4)"

lemma resize_wf: "surface_wf s \<Longrightarrow> surface_wf (fst (snd (native_rgba_surface_resize m a b w h s tx)))"
  by (auto simp: native_rgba_surface_resize_def surface_wf_def native_rgba_size_def Let_def split: option.splits if_splits)

lemma open_wf: "fst (native_rgba_surface_open m a b c w h tx) = Some s \<Longrightarrow>
    surface_wf s \<and> rs_width s = w \<and> rs_height s = h \<and> rs_pixels s \<noteq> None"
  by (auto simp: native_rgba_surface_open_def native_rgba_surface_resize_def surface_zero_def surface_wf_def
      native_rgba_size_def Let_def split: option.splits if_splits)

section \<open>The copy\<close>

lemma memcpy_nth:
  assumes "src + n \<le> length from" "dst + n \<le> length px"
  shows "\<exists>px'. memcpy dst from src n px = Some px' \<and> length px' = length px \<and>
    (\<forall>i<length px. px' ! i = (if dst \<le> i \<and> i < dst + n then from ! (src + (i - dst)) else px ! i))"
  using assms by (auto simp: memcpy_def nth_append)

lemma row_hit:
  fixes w :: nat
  assumes "x < w" "l + k \<le> w" "c < 4"
  shows "(a * w + l) * 4 \<le> (y * w + x) * 4 + c \<and> (y * w + x) * 4 + c < (a * w + l) * 4 + k * 4 \<longleftrightarrow>
    y = a \<and> l \<le> x \<and> x < l + k"
proof -
  have "(a * w + l) * 4 \<le> (y * w + x) * 4 + c \<longleftrightarrow> a * w + l \<le> y * w + x" using assms(3) by auto
  moreover have "(y * w + x) * 4 + c < (a * w + l) * 4 + k * 4 \<longleftrightarrow> y * w + x < a * w + l + k" using assms(3) by auto
  moreover have "y = a" if "a * w + l \<le> y * w + x" "y * w + x < a * w + l + k"
  proof -
    have "(y * w + x) div w = a"
      using that assms(2) by (intro div_nat_eqI) (simp_all add: algebra_simps)
    then show ?thesis using assms(1) by (simp add: div_mult_self3)
  qed
  ultimately show ?thesis by auto
qed

lemma copy_rows_value:
  assumes "l + k \<le> w" "ytop + n \<le> h" "length px = w * h * 4"
    and "\<And>row. row < n \<Longrightarrow> row * stride + k * 4 \<le> length rgba"
  shows "\<exists>px'. copy_rows w l ytop stride (k * 4) rgba n px = Some px' \<and> length px' = length px \<and>
    (\<forall>x y c. x < w \<and> y < h \<and> c < 4 \<longrightarrow> px' ! ((y * w + x) * 4 + c) =
      (if ytop \<le> y \<and> y < ytop + n \<and> l \<le> x \<and> x < l + k
       then rgba ! ((y - ytop) * stride + (x - l) * 4 + c) else px ! ((y * w + x) * 4 + c)))"
  using assms(2,4)
proof (induction n)
  case (Suc n)
  then obtain p where p: "copy_rows w l ytop stride (k * 4) rgba n px = Some p" "length p = length px"
    and pv: "\<And>x y c. x < w \<Longrightarrow> y < h \<Longrightarrow> c < 4 \<Longrightarrow> p ! ((y * w + x) * 4 + c) =
      (if ytop \<le> y \<and> y < ytop + n \<and> l \<le> x \<and> x < l + k
       then rgba ! ((y - ytop) * stride + (x - l) * 4 + c) else px ! ((y * w + x) * 4 + c))"
    by auto
  have "(ytop + n) * w + w \<le> h * w" using Suc.prems(1) mult_le_mono1 [of "ytop + n + 1" h w] by simp
  then have "((ytop + n) * w + l) * 4 + k * 4 \<le> length p" using assms(1,3) p(2) by (simp add: mult.commute)
  from memcpy_nth [OF Suc.prems(2) [OF lessI] this] obtain q where
    q: "memcpy (((ytop + n) * w + l) * 4) rgba (n * stride) (k * 4) p = Some q" "length q = length p"
    and qv: "\<And>i. i < length p \<Longrightarrow> q ! i = (if ((ytop + n) * w + l) * 4 \<le> i \<and> i < ((ytop + n) * w + l) * 4 + k * 4
      then rgba ! (n * stride + (i - ((ytop + n) * w + l) * 4)) else p ! i)" by blast
  have "q ! ((y * w + x) * 4 + c) = (if ytop \<le> y \<and> y < ytop + Suc n \<and> l \<le> x \<and> x < l + k
      then rgba ! ((y - ytop) * stride + (x - l) * 4 + c) else px ! ((y * w + x) * 4 + c))"
    if b: "x < w" "y < h" "c < 4" for x y c
  proof -
    have "(y + 1) * w \<le> h * w" using b(2) by (intro mult_le_mono1) simp
    then have "(y * w + x) * 4 + c < length p" using b p(2) assms(3) by (simp add: mult.commute)
    moreover have "(y * w + x) * 4 + c - ((ytop + n) * w + l) * 4 = (x - l) * 4 + c" if "y = ytop + n" "l \<le> x"
      using that by (simp add: algebra_simps)
    ultimately show ?thesis
      using qv [of "(y * w + x) * 4 + c"] row_hit [OF b(1) assms(1) b(3), of "ytop + n" y] pv [OF b]
      by (auto simp: less_Suc_eq add.assoc)
  qed
  then show ?case using p q by auto
qed auto


section \<open>Clipping\<close>

lemma word_add_no_wrap: "unat (a :: u32) + unat b < 2 ^ 32 \<Longrightarrow> unat (a + b) = unat a + unat b"
  by (simp add: unat_word_ariths)

lemma unat_extent: "unat (ucast W :: u32) = unat (W :: u16)"
proof -
  have "unat W < 65536" by (rule unsigned_less [where 'b = 16, simplified])
  then show ?thesis by (simp add: unsigned_ucast_eq take_bit_nat_eq_self_iff)
qed

lemma clip_word:
  assumes "l < ucast W" "unat (l :: u32) + unat k < 2 ^ 32"
  shows "unat (if l + k > ucast (W :: u16) then ucast W - l else k) =
    (if unat l + unat k > unat W then unat W - unat l else unat k)"
  using assms by (simp add: word_less_nat_alt word_add_no_wrap unat_sub word_le_nat_alt unat_extent)

definition pixel :: "NativeRgbaSurface \<Rightarrow> nat \<Rightarrow> nat \<Rightarrow> nat \<Rightarrow> u8" where
  "pixel s x y c = the (rs_pixels s) ! ((y * unat (rs_width s) + x) * 4 + c)"

text \<open>When an update is accepted: it has an extent, its rows do not overlap and, unless it lies outside the
  canvas, the data holds them.\<close>

definition update_ok :: "NativeRgbaSurface \<Rightarrow> u32 \<Rightarrow> u32 \<Rightarrow> u32 \<Rightarrow> u32 \<Rightarrow> u32 \<Rightarrow> nat \<Rightarrow> bool" where
  "update_ok s left ytop width height stride len \<longleftrightarrow> width \<noteq> 0 \<and> height \<noteq> 0 \<and> 4 * unat width \<le> unat stride \<and>
     (unat (rs_width s) \<le> unat left \<or> unat (rs_height s) \<le> unat ytop \<or>
      unat stride * (unat height - 1) + 4 * unat width \<le> len)"

lemma pred_div_guard:
  assumes "h \<noteq> 0" "row \<le> m" "len \<le> m" "s > (m - row) div (h - 1)" "h > (1::nat)"
  shows "len < s * (h - 1) + row"
proof -
  have "m - row < s * (h - 1)"
    using assms(4,5) by (simp add: div_less_iff_less_mult)
  then show ?thesis using assms(2,3) by linarith
qed

lemma unat_gt_1: "(1 < (h :: u32)) = (1 < unat h)"
  by (simp add: word_less_nat_alt)

lemma apply_cases:
  assumes "rs_pixels s = Some px" "len \<le> size_max" "2 ^ 32 - 1 \<le> size_max"
  shows "native_rgba_surface_apply size_max left ytop width height stride (Some rgba) len s =
    (if \<not> update_ok s left ytop width height stride len then Some (NATIVE_RGBA_INVALID, s)
     else if left \<ge> ucast (rs_width s) \<or> ytop \<ge> ucast (rs_height s) then Some (NATIVE_RGBA_OK, s)
     else map_option (\<lambda>px. (NATIVE_RGBA_OK, s\<lparr>rs_pixels := Some px, rs_has_frame := True\<rparr>))
       (copy_rows (unat (rs_width s)) (unat left) (unat ytop) (unat stride)
         (unat (if left + width > ucast (rs_width s) then ucast (rs_width s) - left else width) * 4) rgba
         (unat (if ytop + height > ucast (rs_height s) then ucast (rs_height s) - ytop else height)) px))"
proof -
  have st: "unat stride < 2 ^ 32" using unsigned_less [of stride] by simp
  have wide: "unat width > size_max div 4 \<Longrightarrow> unat stride < unat width * 4" using st assms(3) by simp
  have ext: "left \<ge> ucast (rs_width s) \<longleftrightarrow> unat (rs_width s) \<le> unat left"
    "ytop \<ge> ucast (rs_height s) \<longleftrightarrow> unat (rs_height s) \<le> unat ytop"
    by (simp_all add: word_le_nat_alt unat_extent)
  have guard: "len < unat stride * (unat height - 1) + unat width * 4"
    if "height > 1" "unat stride > (size_max - unat width * 4) div unat (height - 1)" "unat width * 4 \<le> unat stride"
  proof -
    have "1 < unat height" using that(1) by (simp add: unat_gt_1)
    moreover from this have "unat (height - 1) = unat height - 1" by (intro unat_minus_one) auto
    ultimately show ?thesis using pred_div_guard [of "unat height" "unat width * 4" size_max len "unat stride"] that assms(2,3) st
      by simp
  qed
  show ?thesis
  proof (cases "width = 0 \<or> height = 0 \<or> unat stride < unat width * 4")
    case True
    then show ?thesis using assms(1) by (auto simp: native_rgba_surface_apply_def update_ok_def Let_def)
  next
    case False
    then have "unat (height - 1) = unat height - 1" by (intro unat_minus_one) simp
    with False wide guard show ?thesis
      unfolding native_rgba_surface_apply_def update_ok_def Let_def ext
      using assms(1) by (auto simp: mult.commute)
  qed
qed


lemma apply_clipped:
  assumes "surface_wf s" "rs_pixels s \<noteq> None" "len \<le> length rgba" "len \<le> size_max" "len < 2 ^ 33" "2 ^ 32 - 1 \<le> size_max"
  shows "\<exists>result s'. native_rgba_surface_apply size_max left ytop width height stride (Some rgba) len s = Some (result, s') \<and>
    result = (if update_ok s left ytop width height stride len then NATIVE_RGBA_OK else NATIVE_RGBA_INVALID) \<and>
    surface_wf s' \<and> rs_width s' = rs_width s \<and> rs_height s' = rs_height s \<and>
    (\<forall>x y c. x < unat (rs_width s) \<and> y < unat (rs_height s) \<and> c < 4 \<longrightarrow> pixel s' x y c =
      (if result = NATIVE_RGBA_OK \<and> unat left \<le> x \<and> x < unat left + unat width \<and> unat ytop \<le> y \<and> y < unat ytop + unat height
       then rgba ! ((y - unat ytop) * unat stride + (x - unat left) * 4 + c) else pixel s x y c))"
proof -
  obtain px where px: "rs_pixels s = Some px" using assms(2) by blast
  have lpx: "length px = unat (rs_width s) * unat (rs_height s) * 4" using assms(1) px by (simp add: surface_wf_def)
  let ?W = "unat (rs_width s)" and ?H = "unat (rs_height s)" and ?st = "unat stride"
  note cases = apply_cases [OF px assms(4,6), of left ytop width height stride rgba]
  show ?thesis
  proof (cases "update_ok s left ytop width height stride len \<and> left < ucast (rs_width s) \<and> ytop < ucast (rs_height s)")
    case False
    then show ?thesis using cases assms(1)
      by (auto simp: update_ok_def not_less word_le_nat_alt word_less_nat_alt unat_extent)
  next
    case True
    then have in_l: "unat left < ?W" and in_t: "unat ytop < ?H" and req: "?st * (unat height - 1) + 4 * unat width \<le> len"
      and w: "0 < unat width" "4 * unat width \<le> ?st" and h: "0 < unat height"
      by (auto simp: update_ok_def word_less_nat_alt unat_extent unat_gt_0)
    have b: "unat left < 65536" "unat ytop < 65536" "?st < 2 ^ 32"
      using in_l in_t unsigned_less [of "rs_width s", where ?'a = nat] unsigned_less [of "rs_height s", where ?'a = nat]
        unsigned_less [of stride, where ?'a = nat] by simp_all
    have "4 * (unat height - 1) \<le> ?st * (unat height - 1)" using w by (intro mult_le_mono1) simp
    then have "4 * unat height < 2 ^ 33 + 4" using req assms(5) by linarith
    then have nw: "unat left + unat width < 2 ^ 32" "unat ytop + unat height < 2 ^ 32" using b w(2) by simp_all
    define k where "k = (if unat left + unat width > ?W then ?W - unat left else unat width)"
    define n where "n = (if unat ytop + unat height > ?H then ?H - unat ytop else unat height)"
    have kn: "unat left + k \<le> ?W" "unat ytop + n \<le> ?H" "k \<le> unat width" "n \<le> unat height"
      using in_l in_t by (auto simp: k_def n_def)
    have rows: "row * ?st + k * 4 \<le> length rgba" if "row < n" for row
    proof -
      have "row * ?st \<le> ?st * (unat height - 1)"
        using that kn(4) by (subst mult.commute) (intro mult_le_mono2, simp)
      then show ?thesis using req kn(3) assms(3) by linarith
    qed
    obtain p where p: "copy_rows ?W (unat left) (unat ytop) ?st (k * 4) rgba n px = Some p" "length p = length px"
      and pv: "\<forall>x y c. x < ?W \<and> y < ?H \<and> c < 4 \<longrightarrow> p ! ((y * ?W + x) * 4 + c) =
        (if unat ytop \<le> y \<and> y < unat ytop + n \<and> unat left \<le> x \<and> x < unat left + k
         then rgba ! ((y - unat ytop) * ?st + (x - unat left) * 4 + c) else px ! ((y * ?W + x) * 4 + c))"
      using copy_rows_value [OF kn(1,2) lpx rows] by blast
    have vis: "\<not> ucast (rs_width s) \<le> left" "\<not> ucast (rs_height s) \<le> ytop"
      using True by (simp_all add: not_le)
    have run: "native_rgba_surface_apply size_max left ytop width height stride (Some rgba) len s =
        Some (NATIVE_RGBA_OK, s\<lparr>rs_pixels := Some p, rs_has_frame := True\<rparr>)"
      using cases True p(1) clip_word [of left "rs_width s" width] clip_word [of ytop "rs_height s" height] nw
      by (simp add: k_def n_def vis)
    have clip: "x < unat left + k \<longleftrightarrow> x < unat left + unat width" "y < unat ytop + n \<longleftrightarrow> y < unat ytop + unat height"
      if "x < ?W" "y < ?H" for x y using that by (auto simp: k_def n_def)
    show ?thesis using run True p(2) lpx pv clip px
      by (intro exI [of _ NATIVE_RGBA_OK] exI [of _ "s\<lparr>rs_pixels := Some p, rs_has_frame := True\<rparr>"])
        (auto simp: surface_wf_def pixel_def)
  qed
qed

section \<open>Properties\<close>


text \<open>A two by one canvas, and an update that sticks out of it.\<close>

definition example_canvas :: NativeRgbaSurface where
  "example_canvas = surface_zero\<lparr>rs_width := 2, rs_height := 1, rs_pixels := Some (replicate 8 0)\<rparr>"


end
