(* ===== verification/Native_App.thy ===== *)
theory Native_App
  imports Native_Settings Au_Snapshot Rgba_Surface
begin

text \<open>
  The shared state of \<open>native/include/native_app.h\<close> as far as the session states
  (\<open>native_rdp_state.c\<close>), the canvases (\<open>native_rgba_owner.c\<close>) and the video path
  (\<open>native_rdp_video.c\<close>) use it, and the policy for sessions that end, \<open>native_rdp_state.c\<close>.  A
  pointer to a session slot is its index; the atomics are plain fields, and each operation below is
  one section under \<open>video_lock\<close> or one callback of a session's own worker.
\<close>

section \<open>State\<close>

datatype RdpState =
    RDP_STATE_IDLE | RDP_STATE_CONNECTING | RDP_STATE_TLS | RDP_STATE_CREDSSP | RDP_STATE_ACTIVE
  | RDP_STATE_NO_AVC420 | RDP_STATE_DECODER_ERROR | RDP_STATE_NETWORK_ERROR | RDP_STATE_PROTOCOL_ERROR
  | RDP_STATE_STOPPED | RDP_STATE_DISCONNECTED | RDP_STATE_RECONNECTING

datatype RdpDisconnectReason =
    RDP_DISCONNECT_NONE | RDP_DISCONNECT_PEER_DISCONNECTED | RDP_DISCONNECT_USER_DISCONNECT
  | RDP_DISCONNECT_USER_LOGOFF | RDP_DISCONNECT_ADMIN_DISCONNECT | RDP_DISCONNECT_ADMIN_LOGOFF
  | RDP_DISCONNECT_SESSION_REPLACED | RDP_DISCONNECT_IDLE_TIMEOUT | RDP_DISCONNECT_SESSION_TIMEOUT
  | RDP_DISCONNECT_SERVER_SHUTDOWN | RDP_DISCONNECT_SERVER_REBOOT | RDP_DISCONNECT_SERVER_ERROR
  | RDP_DISCONNECT_ACCESS_DENIED | RDP_DISCONNECT_LICENSE_ERROR | RDP_DISCONNECT_BROKER_ERROR
  | RDP_DISCONNECT_CONNECTION_FAILED | RDP_DISCONNECT_CONNECTION_LOST | RDP_DISCONNECT_PROTOCOL_ERROR
  | RDP_DISCONNECT_GRAPHICS_ERROR

datatype NativeVideoCodec = NATIVE_VIDEO_CODEC_H264 | NATIVE_VIDEO_CODEC_H265

datatype NativeVideoResult =
  NATIVE_VIDEO_OK | NATIVE_VIDEO_NEED_KEYFRAME | NATIVE_VIDEO_UNSUPPORTED | NATIVE_VIDEO_ERROR | NATIVE_VIDEO_DROPPED

record NativeSessionSlot =
  ss_rdp :: bool
  ss_config :: NativeSessionConfig
  ss_graphics_path_switches :: int
  ss_current_state :: RdpState
  ss_terminal_state :: RdpState
  ss_terminal_reason :: RdpDisconnectReason
  ss_reconnecting :: bool
  ss_was_active :: bool
  ss_session_failed :: bool
  ss_desktop_width :: u32
  ss_desktop_height :: u32
  ss_video_ok_frames :: u32
  ss_connect_epoch :: u32
  ss_keyframe_wait_drops :: u32
  ss_snapshot :: NativeAuSnapshot
  ss_video_codec :: NativeVideoCodec
  ss_snapshot_idr_ready :: bool
  ss_snapshot_pending :: bool
  ss_snapshot_last_au_ms :: u32
  ss_video_via_bitmap :: bool
  ss_video_seen :: bool
  ss_video_last_au_ms :: u32
  ss_video_epoch :: u32

text \<open>A hardware decoder track (\<open>video_backend.h\<close>); what it does with the bytes is the hardware's.\<close>

record NativeVideo =
  nv_width :: u16
  nv_height :: u16
  nv_codec :: NativeVideoCodec

text \<open>What happens to the hardware decoder and the screen, in order; not a field of the program.\<close>

datatype VideoEvent =
    Activate nat
  | Reconnect nat
  | OpenVideo nat u32
  | HandVideo nat u32
  | FeedVideo nat u32 bool
  | CloseVideo
  | DrawCanvas "(nat \<times> u32) list" bool nat u32

record App =
  ap_sessions :: "NativeSessionSlot list"
  ap_active_index :: nat
  ap_video_refresh_needed :: bool
  ap_rgba :: "NativeRgbaSurface option"
  ap_rgba_owner_slot :: int
  ap_rgba_owner_epoch :: u32
  ap_hub_return_rgba :: "NativeRgbaSurface option"
  ap_hub_return_rgba_owner_slot :: int
  ap_hub_return_rgba_owner_epoch :: u32
  ap_hub_return_replacement_slot :: int
  ap_hub_return_replacement_epoch :: u32
  ap_hub_return_replacement_baseline_frames :: u32
  ap_hub_visible :: bool
  ap_hub_return_slot :: int
  ap_media :: bool
  ap_video :: "NativeVideo option"
  ap_video_owner_slot :: int
  ap_video_owner_epoch :: u32
  ap_decoder_errors :: int
  ap_tiles_dropped_under_video :: u32
  ap_video_frames_window :: u32
  ap_video_bytes_window :: u64
  ap_video_pacing_window_ms :: u32
  ap_video_last_feed_ms :: u32
  ap_video_pacing_started :: bool
  ap_video_feed_started :: bool
  ap_decoder_keyframe_pending :: bool
  ap_video_plane_punched :: bool
  ap_running :: bool
  ap_exit_code :: int
  ap_interactive_ui :: bool
  ap_pending_texture_destroy :: "nat option"
  ap_textures :: Textures
  ap_log :: "VideoEvent list"

text \<open>Reading and updating one slot.\<close>

definition slot :: "nat \<Rightarrow> App \<Rightarrow> NativeSessionSlot" where
  "slot i app = ap_sessions app ! i"

definition put_slot :: "nat \<Rightarrow> NativeSessionSlot \<Rightarrow> App \<Rightarrow> App" where
  "put_slot i s app = app\<lparr>ap_sessions := (ap_sessions app)[i := s]\<rparr>"

definition native_slot_is_active :: "nat \<Rightarrow> App \<Rightarrow> bool" where
  "native_slot_is_active i app \<longleftrightarrow> ap_active_index app = i"

definition native_present_invalidate :: "App \<Rightarrow> App" where
  "native_present_invalidate app = app\<lparr>ap_video_plane_punched := False\<rparr>"

definition native_session_is_still_connecting :: "NativeSessionSlot \<Rightarrow> bool" where
  "native_session_is_still_connecting s \<longleftrightarrow> ss_rdp s \<and> ss_current_state s \<noteq> RDP_STATE_ACTIVE"

definition native_slot_is_live_stream_target :: "NativeSessionSlot \<Rightarrow> bool" where
  "native_slot_is_live_stream_target s \<longleftrightarrow> ss_rdp s \<and> \<not> ss_session_failed s \<and>
     (ss_current_state s = RDP_STATE_ACTIVE \<or> ss_snapshot_pending s)"

definition log_event :: "VideoEvent \<Rightarrow> App \<Rightarrow> App" where
  "log_event e app = app\<lparr>ap_log := ap_log app @ [e]\<rparr>"

section \<open>Ended sessions\<close>

definition rdp_state_is_terminal_error :: "RdpState \<Rightarrow> bool" where
  "rdp_state_is_terminal_error state \<longleftrightarrow> state = RDP_STATE_NO_AVC420 \<or> state = RDP_STATE_DECODER_ERROR \<or>
     state = RDP_STATE_NETWORK_ERROR \<or> state = RDP_STATE_PROTOCOL_ERROR"

definition rdp_state_is_native_runtime_failure :: "RdpState \<Rightarrow> bool" where
  "rdp_state_is_native_runtime_failure state \<longleftrightarrow> state = RDP_STATE_NO_AVC420 \<or> state = RDP_STATE_DECODER_ERROR"

fun rdp_state_exit_code :: "RdpState \<Rightarrow> int" where
  "rdp_state_exit_code RDP_STATE_NO_AVC420 = 10"
| "rdp_state_exit_code RDP_STATE_DECODER_ERROR = 11"
| "rdp_state_exit_code RDP_STATE_NETWORK_ERROR = 12"
| "rdp_state_exit_code RDP_STATE_PROTOCOL_ERROR = 13"
| "rdp_state_exit_code _ = 0"

fun rdp_state_name :: "RdpState \<Rightarrow> string" where
  "rdp_state_name RDP_STATE_IDLE = ''Idle''"
| "rdp_state_name RDP_STATE_CONNECTING = ''Connecting''"
| "rdp_state_name RDP_STATE_TLS = ''Tls''"
| "rdp_state_name RDP_STATE_CREDSSP = ''Credssp''"
| "rdp_state_name RDP_STATE_ACTIVE = ''Active''"
| "rdp_state_name RDP_STATE_NO_AVC420 = ''NoAvc420''"
| "rdp_state_name RDP_STATE_DECODER_ERROR = ''DecoderError''"
| "rdp_state_name RDP_STATE_NETWORK_ERROR = ''NetworkError''"
| "rdp_state_name RDP_STATE_PROTOCOL_ERROR = ''ProtocolError''"
| "rdp_state_name RDP_STATE_STOPPED = ''Stopped''"
| "rdp_state_name RDP_STATE_DISCONNECTED = ''Disconnected''"
| "rdp_state_name RDP_STATE_RECONNECTING = ''Reconnecting''"

definition native_session_terminal_reason :: "RdpState \<Rightarrow> RdpDisconnectReason \<Rightarrow> bool \<Rightarrow> RdpDisconnectReason" where
  "native_session_terminal_reason state reason was_active =
     (if reason \<noteq> RDP_DISCONNECT_NONE then reason
      else case state of
        RDP_STATE_NETWORK_ERROR \<Rightarrow>
          if was_active then RDP_DISCONNECT_CONNECTION_LOST else RDP_DISCONNECT_CONNECTION_FAILED
      | RDP_STATE_PROTOCOL_ERROR \<Rightarrow> RDP_DISCONNECT_PROTOCOL_ERROR
      | RDP_STATE_NO_AVC420 \<Rightarrow> RDP_DISCONNECT_GRAPHICS_ERROR
      | RDP_STATE_DECODER_ERROR \<Rightarrow> RDP_DISCONNECT_GRAPHICS_ERROR
      | _ \<Rightarrow> RDP_DISCONNECT_PEER_DISCONNECTED)"

definition native_slot_report_terminal_reason :: "nat \<Rightarrow> RdpState \<Rightarrow> RdpDisconnectReason \<Rightarrow> int \<Rightarrow> App \<Rightarrow> App" where
  "native_slot_report_terminal_reason i state reason exit_code app =
     (let s = slot i app in
      if ss_terminal_state s \<noteq> RDP_STATE_IDLE then app
      else
        let s = s\<lparr>ss_terminal_state := state,
              ss_terminal_reason := native_session_terminal_reason state reason (ss_was_active s),
              ss_reconnecting := False\<rparr>;
            app = put_slot i s app;
            is_active = native_slot_is_active i app in
        if is_active \<and> rdp_state_is_native_runtime_failure state then
          (if exit_code \<noteq> 0 then app\<lparr>ap_exit_code := exit_code\<rparr> else app)\<lparr>ap_running := False\<rparr>
        else if \<not> is_active \<or> ap_interactive_ui app then put_slot i (s\<lparr>ss_session_failed := True\<rparr>) app
        else (if exit_code \<noteq> 0 then app\<lparr>ap_exit_code := exit_code\<rparr> else app)\<lparr>ap_running := False\<rparr>)"

definition native_slot_report_terminal :: "nat \<Rightarrow> RdpState \<Rightarrow> int \<Rightarrow> App \<Rightarrow> App" where
  "native_slot_report_terminal i state exit_code app =
     native_slot_report_terminal_reason i state RDP_DISCONNECT_NONE exit_code app"

definition native_slot_record_state :: "nat \<Rightarrow> RdpState \<Rightarrow> RdpDisconnectReason \<Rightarrow> App \<Rightarrow> App" where
  "native_slot_record_state i state reason app =
     (if ss_session_failed (slot i app) \<or> ss_terminal_state (slot i app) \<noteq> RDP_STATE_IDLE then app
      else
        let s = (slot i app)\<lparr>ss_current_state := state\<rparr>;
            s = (if state = RDP_STATE_RECONNECTING then s\<lparr>ss_reconnecting := True\<rparr>
                 else if state = RDP_STATE_ACTIVE then s\<lparr>ss_reconnecting := False, ss_was_active := True\<rparr> else s);
            app = put_slot i s app in
        if rdp_state_is_terminal_error state \<or> state = RDP_STATE_DISCONNECTED \<or> state = RDP_STATE_STOPPED
        then native_slot_report_terminal_reason i state reason (rdp_state_exit_code state) app
        else app)"

text \<open>The log filter: a line that holds the password of any session is replaced.\<close>

fun strstr :: "string \<Rightarrow> string \<Rightarrow> bool" where
  "strstr line needle = (take (length needle) line = needle \<or> (case line of [] \<Rightarrow> False | _ # rest \<Rightarrow> strstr rest needle))"

definition redact_if_sensitive :: "App option \<Rightarrow> string option \<Rightarrow> string" where
  "redact_if_sensitive app line =
     (case line of
        None \<Rightarrow> []
      | Some line \<Rightarrow>
        (case app of
           None \<Rightarrow> line
         | Some app \<Rightarrow>
             if list_ex (\<lambda>s. length (sc_password (ss_config s)) \<ge> 4 \<and> strstr line (sc_password (ss_config s))) (ap_sessions app)
             then ''[redacted sensitive detail]'' else line))"


section \<open>Reports of all workers, interleaved\<close>

datatype SessionReport = RecordState nat RdpState RdpDisconnectReason | ReportTerminal nat RdpState int

fun report :: "App \<Rightarrow> SessionReport \<Rightarrow> App" where
  "report app (RecordState i state reason) = native_slot_record_state i state reason app"
| "report app (ReportTerminal i state exit_code) = native_slot_report_terminal i state exit_code app"

fun report_slot :: "SessionReport \<Rightarrow> nat" where
  "report_slot (RecordState i state reason) = i"
| "report_slot (ReportTerminal i state exit_code) = i"

fun report_state :: "SessionReport \<Rightarrow> RdpState" where
  "report_state (RecordState i state reason) = state"
| "report_state (ReportTerminal i state exit_code) = state"

lemma put_slot_simps [simp]:
  "put_slot i s (put_slot i t app) = put_slot i s app"
  "ap_active_index (put_slot i s app) = ap_active_index app"
  "ap_interactive_ui (put_slot i s app) = ap_interactive_ui app"
  "ap_running (put_slot i s app) = ap_running app" "ap_exit_code (put_slot i s app) = ap_exit_code app"
  "j \<noteq> i \<Longrightarrow> slot j (put_slot i s app) = slot j app"
  "length (ap_sessions (put_slot i s app)) = length (ap_sessions app)"
  by (simp_all add: put_slot_def slot_def)

lemma put_slot_swap: "i \<noteq> j \<Longrightarrow> put_slot i s (put_slot j t app) = put_slot j t (put_slot i s app)"
  by (simp add: put_slot_def list_update_swap)

lemma put_slot_same [simp]: "put_slot i (slot i app) app = app"
  by (simp add: put_slot_def slot_def)

lemma put_slot_fields [simp]:
  "put_slot i s (app\<lparr>ap_running := r\<rparr>) = (put_slot i s app)\<lparr>ap_running := r\<rparr>"
  "put_slot i s (app\<lparr>ap_exit_code := x\<rparr>) = (put_slot i s app)\<lparr>ap_exit_code := x\<rparr>"
  "slot j (app\<lparr>ap_running := r\<rparr>) = slot j app" "slot j (app\<lparr>ap_exit_code := x\<rparr>) = slot j app"
  by (simp_all add: put_slot_def slot_def)

text \<open>A background slot's own report changes its slot only; other slots' reports neither read nor write it.\<close>

lemma terminal_background:
  "ap_active_index app \<noteq> i \<Longrightarrow> \<exists>t. native_slot_report_terminal_reason i state reason code app = put_slot i t app"
proof -
  assume "ap_active_index app \<noteq> i"
  then show ?thesis
    unfolding native_slot_report_terminal_reason_def Let_def native_slot_is_active_def
    by (cases "ss_terminal_state (slot i app) = RDP_STATE_IDLE") (auto intro: exI [of _ "slot i app"])
qed

lemma report_background:
  assumes "ap_active_index app \<noteq> i" "report_slot e = i"
  shows "\<exists>t. report app e = put_slot i t app"
proof (cases e)
  case (RecordState j state reason)
  then have e: "e = RecordState i state reason" using assms(2) by simp
  show ?thesis
  proof (cases "ss_session_failed (slot i app) \<or> ss_terminal_state (slot i app) \<noteq> RDP_STATE_IDLE")
    case True
    then show ?thesis using e by (auto simp: native_slot_record_state_def intro: exI [of _ "slot i app"])
  next
    case False
    define s where "s = (slot i app)\<lparr>ss_current_state := state\<rparr>"
    define s' where "s' = (if state = RDP_STATE_RECONNECTING then s\<lparr>ss_reconnecting := True\<rparr>
      else if state = RDP_STATE_ACTIVE then s\<lparr>ss_reconnecting := False, ss_was_active := True\<rparr> else s)"
    have "report app e = (if rdp_state_is_terminal_error state \<or> state = RDP_STATE_DISCONNECTED \<or> state = RDP_STATE_STOPPED
        then native_slot_report_terminal_reason i state reason (rdp_state_exit_code state) (put_slot i s' app)
        else put_slot i s' app)"
      using e False unfolding s'_def s_def by (simp add: native_slot_record_state_def Let_def)
    moreover have "\<exists>t. native_slot_report_terminal_reason i state reason (rdp_state_exit_code state) (put_slot i s' app) =
        put_slot i t app"
      using terminal_background [of "put_slot i s' app" i state reason "rdp_state_exit_code state"] assms(1) by simp
    ultimately show ?thesis by auto
  qed
next
  case (ReportTerminal j state code)
  then show ?thesis using assms terminal_background by (simp add: native_slot_report_terminal_def)
qed

lemma terminal_commutes:
  "j \<noteq> i \<Longrightarrow> native_slot_report_terminal_reason j state reason code (put_slot i t app) =
    put_slot i t (native_slot_report_terminal_reason j state reason code app)"
  by (simp add: native_slot_report_terminal_reason_def Let_def native_slot_is_active_def put_slot_swap)

lemma report_commutes:
  assumes "report_slot e \<noteq> i"
  shows "report (put_slot i t app) e = put_slot i t (report app e)"
proof (cases e)
  case (RecordState j state reason)
  then show ?thesis using assms
    by (simp add: native_slot_record_state_def Let_def terminal_commutes put_slot_swap [of j i])
next
  case (ReportTerminal j state code)
  then show ?thesis using assms by (simp add: native_slot_report_terminal_def terminal_commutes)
qed

lemma reports_commute:
  "\<forall>e\<in>set evs. report_slot e \<noteq> i \<Longrightarrow> foldl report (put_slot i t app) evs = put_slot i t (foldl report app evs)"
  by (induction evs arbitrary: app) (simp_all add: report_commutes)

lemma report_active [simp]: "ap_active_index (report app e) = ap_active_index app"
  by (cases e) (simp_all add: native_slot_record_state_def native_slot_report_terminal_def
      native_slot_report_terminal_reason_def Let_def)

lemma reports_background:
  "ap_active_index app \<noteq> i \<Longrightarrow> put_slot i s (foldl report app evs) =
    put_slot i s (foldl report app (filter (\<lambda>e. report_slot e \<noteq> i) evs))"
proof (induction evs arbitrary: app)
  case (Cons e evs)
  have ih: "put_slot i s (foldl report (report app e) evs) =
      put_slot i s (foldl report (report app e) (filter (\<lambda>e. report_slot e \<noteq> i) evs))"
    using Cons.IH [of "report app e"] Cons.prems by simp
  show ?case
  proof (cases "report_slot e = i")
    case True
    then obtain t where t: "report app e = put_slot i t app" using report_background Cons.prems by blast
    then show ?thesis using ih True by (simp add: reports_commute)
  qed (use ih in simp)
qed simp

text \<open>The first terminal report of a connection stands.\<close>

definition verdict :: "NativeSessionSlot \<Rightarrow> RdpState \<times> RdpDisconnectReason" where
  "verdict s = (ss_terminal_state s, ss_terminal_reason s)"

lemma slot_put: "slot j (put_slot i s app) = (if j = i \<and> i < length (ap_sessions app) then s else slot j app)"
  by (cases "i < length (ap_sessions app)") (simp_all add: slot_def put_slot_def nth_list_update list_update_beyond)

lemma terminal_verdict:
  "ss_terminal_state (slot j app) \<noteq> RDP_STATE_IDLE \<Longrightarrow>
    slot j (native_slot_report_terminal_reason i state reason code app) = slot j app"
  by (cases "i = j") (simp_all add: native_slot_report_terminal_reason_def Let_def)

lemma report_verdict: "ss_terminal_state (slot j app) \<noteq> RDP_STATE_IDLE \<Longrightarrow> verdict (slot j (report app e)) = verdict (slot j app)"
proof (cases e)
  case (RecordState i state reason)
  then show "ss_terminal_state (slot j app) \<noteq> RDP_STATE_IDLE \<Longrightarrow> ?thesis"
    by (cases "i = j") (simp_all add: native_slot_record_state_def Let_def terminal_verdict)
qed (simp add: native_slot_report_terminal_def terminal_verdict)

lemma reports_verdict:
  "ss_terminal_state (slot j app) \<noteq> RDP_STATE_IDLE \<Longrightarrow> verdict (slot j (foldl report app evs)) = verdict (slot j app)"
proof (induction evs arbitrary: app)
  case (Cons e evs)
  have "ss_terminal_state (slot j (report app e)) \<noteq> RDP_STATE_IDLE"
    using report_verdict [OF Cons.prems, of e] Cons.prems by (simp add: verdict_def)
  from Cons.IH [OF this] report_verdict [OF Cons.prems, of e] show ?case by simp
qed simp

lemma report_running:
  "ap_interactive_ui app \<Longrightarrow> \<not> rdp_state_is_native_runtime_failure (report_state e) \<Longrightarrow>
    ap_running (report app e) = ap_running app \<and> ap_exit_code (report app e) = ap_exit_code app \<and>
    ap_interactive_ui (report app e)"
  by (cases e) (auto simp: native_slot_record_state_def native_slot_report_terminal_def
      native_slot_report_terminal_reason_def Let_def)

lemma reports_running:
  "ap_interactive_ui app \<Longrightarrow> \<forall>e\<in>set evs. \<not> rdp_state_is_native_runtime_failure (report_state e) \<Longrightarrow>
    ap_running (foldl report app evs) = ap_running app \<and> ap_exit_code (foldl report app evs) = ap_exit_code app"
proof (induction evs arbitrary: app)
  case (Cons e evs)
  then show ?case using report_running [of app e] Cons.IH [of "report app e"] by simp
qed simp

section \<open>Properties\<close>

text \<open>
  C37: a background session cannot take the application down, and the first end of a session stands.
  For any interleaving of the workers' reports: leaving out every report of a slot that is not on
  screen changes nothing but that slot (neither the other sessions nor whether the program runs nor
  its exit code); a slot that has ended keeps its first terminal state and reason; and with the
  interactive UI only a failure of the shared decoder stops the program.
\<close>

theorem background_session_is_isolated:
  assumes "ap_active_index app \<noteq> i" "ss_terminal_state (slot j app) \<noteq> RDP_STATE_IDLE" "ap_interactive_ui app"
    and "\<forall>e\<in>set calm. \<not> rdp_state_is_native_runtime_failure (report_state e)"
  shows "put_slot i s (foldl report app evs) = put_slot i s (foldl report app (filter (\<lambda>e. report_slot e \<noteq> i) evs)) \<and>
    verdict (slot j (foldl report app evs)) = verdict (slot j app) \<and>
    ap_running (foldl report app calm) = ap_running app \<and> ap_exit_code (foldl report app calm) = ap_exit_code app"
  using reports_background [OF assms(1)] reports_verdict [OF assms(2)] reports_running [OF assms(3,4)] by blast

text \<open>A state to start from: the first session on screen, the second one already lost.\<close>

definition example_slot :: NativeSessionSlot where
  "example_slot = \<lparr>ss_rdp = True, ss_config = native_session_config_defaults, ss_graphics_path_switches = 0,
     ss_current_state = RDP_STATE_ACTIVE, ss_terminal_state = RDP_STATE_IDLE, ss_terminal_reason = RDP_DISCONNECT_NONE,
     ss_reconnecting = False, ss_was_active = True, ss_session_failed = False, ss_desktop_width = 1920,
     ss_desktop_height = 1080, ss_video_ok_frames = 0, ss_connect_epoch = 1, ss_keyframe_wait_drops = 0,
     ss_snapshot = snap_zero, ss_video_codec = NATIVE_VIDEO_CODEC_H264, ss_snapshot_idr_ready = False,
     ss_snapshot_pending = False, ss_snapshot_last_au_ms = 0, ss_video_via_bitmap = False, ss_video_seen = False,
     ss_video_last_au_ms = 0, ss_video_epoch = 0\<rparr>"

definition example_app :: App where
  "example_app = \<lparr>ap_sessions = [example_slot,
       example_slot\<lparr>ss_terminal_state := RDP_STATE_NETWORK_ERROR, ss_terminal_reason := RDP_DISCONNECT_CONNECTION_LOST,
         ss_session_failed := True\<rparr>, example_slot, example_slot],
     ap_active_index = 0, ap_video_refresh_needed = False, ap_rgba = None, ap_rgba_owner_slot = - 1,
     ap_rgba_owner_epoch = 0, ap_hub_return_rgba = None, ap_hub_return_rgba_owner_slot = - 1,
     ap_hub_return_rgba_owner_epoch = 0, ap_hub_return_replacement_slot = - 1, ap_hub_return_replacement_epoch = 0,
     ap_hub_return_replacement_baseline_frames = 0, ap_hub_visible = False, ap_hub_return_slot = - 1, ap_media = False,
     ap_video = None, ap_video_owner_slot = - 1, ap_video_owner_epoch = 0, ap_decoder_errors = 0,
     ap_tiles_dropped_under_video = 0, ap_video_frames_window = 0, ap_video_bytes_window = 0,
     ap_video_pacing_window_ms = 0, ap_video_last_feed_ms = 0, ap_video_pacing_started = False,
     ap_video_feed_started = False, ap_decoder_keyframe_pending = False, ap_video_plane_punched = False,
     ap_running = True, ap_exit_code = 0, ap_interactive_ui = True, ap_pending_texture_destroy = None,
     ap_textures = \<lparr>tx_next = 0, tx_destroyed = []\<rparr>, ap_log = []\<rparr>"

theorem background_session_is_isolated_witness:
  "let evs = [RecordState 1 RDP_STATE_DECODER_ERROR RDP_DISCONNECT_NONE, ReportTerminal 2 RDP_STATE_DECODER_ERROR 11] in
    put_slot 2 example_slot (foldl report example_app evs) =
      put_slot 2 example_slot (foldl report example_app [RecordState 1 RDP_STATE_DECODER_ERROR RDP_DISCONNECT_NONE]) \<and>
    verdict (slot 1 (foldl report example_app evs)) = (RDP_STATE_NETWORK_ERROR, RDP_DISCONNECT_CONNECTION_LOST)"
  using background_session_is_isolated [of example_app 2 1 "[]" example_slot
      "[RecordState 1 RDP_STATE_DECODER_ERROR RDP_DISCONNECT_NONE, ReportTerminal 2 RDP_STATE_DECODER_ERROR 11]"]
  by (simp add: example_app_def slot_def verdict_def)

end
