(* ===== verification/Session_Status.thy ===== *)
theory Session_Status
  imports Native_App
begin

text \<open>
  What the configurator shows of a session, \<open>native/include/ui_session_status.h\<close> and
  \<open>native_session_status\<close> of \<open>native/src/native_rdp_state.c\<close>.
\<close>

datatype NativePreconnectSessionState =
    NATIVE_PRECONNECT_SESSION_NOT_SET_UP
  | NATIVE_PRECONNECT_SESSION_OFFLINE
  | NATIVE_PRECONNECT_SESSION_CONNECTING
  | NATIVE_PRECONNECT_SESSION_CONNECTED
  | NATIVE_PRECONNECT_SESSION_ERROR
  | NATIVE_PRECONNECT_SESSION_DISCONNECTED
  | NATIVE_PRECONNECT_SESSION_INTERRUPTED
  | NATIVE_PRECONNECT_SESSION_RECONNECTING

record NativeSessionStatus =
  st_badge :: string
  st_title :: string
  st_detail :: string
  st_action :: string
  st_color :: u32
  st_error :: bool

definition native_ui_session_connecting :: "NativePreconnectSessionState \<Rightarrow> bool" where
  "native_ui_session_connecting state \<longleftrightarrow> state = NATIVE_PRECONNECT_SESSION_CONNECTING \<or>
     state = NATIVE_PRECONNECT_SESSION_RECONNECTING"

definition native_ui_session_terminal :: "NativePreconnectSessionState \<Rightarrow> bool" where
  "native_ui_session_terminal state \<longleftrightarrow> state = NATIVE_PRECONNECT_SESSION_ERROR \<or>
     state = NATIVE_PRECONNECT_SESSION_DISCONNECTED \<or> state = NATIVE_PRECONNECT_SESSION_INTERRUPTED"

definition native_session_terminal_ui_state :: "RdpState \<Rightarrow> RdpDisconnectReason \<Rightarrow> NativePreconnectSessionState" where
  "native_session_terminal_ui_state state reason =
     (if state = RDP_STATE_NETWORK_ERROR \<or> reason = RDP_DISCONNECT_SESSION_REPLACED \<or>
         reason = RDP_DISCONNECT_IDLE_TIMEOUT \<or> reason = RDP_DISCONNECT_SESSION_TIMEOUT
      then NATIVE_PRECONNECT_SESSION_INTERRUPTED
      else if rdp_state_is_terminal_error state then NATIVE_PRECONNECT_SESSION_ERROR
      else NATIVE_PRECONNECT_SESSION_DISCONNECTED)"

definition mk_status :: "string \<Rightarrow> string \<Rightarrow> string \<Rightarrow> string \<Rightarrow> u32 \<Rightarrow> bool \<Rightarrow> NativeSessionStatus" where
  "mk_status badge title detail action color error =
     \<lparr>st_badge = badge, st_title = title, st_detail = detail, st_action = action, st_color = color, st_error = error\<rparr>"

text \<open>The first switch: the status of the state alone, and whether the reason refines it.\<close>

fun status_of_state :: "NativePreconnectSessionState \<Rightarrow> NativeSessionStatus \<times> bool" where
  "status_of_state NATIVE_PRECONNECT_SESSION_NOT_SET_UP =
     (mk_status ''NOT SET UP'' ''Not set up'' '''' ''Set up'' 0x8a909b False, False)"
| "status_of_state NATIVE_PRECONNECT_SESSION_OFFLINE =
     (mk_status ''OFFLINE'' ''Offline'' '''' ''Connect'' 0x8a909b False, False)"
| "status_of_state NATIVE_PRECONNECT_SESSION_CONNECTING =
     (mk_status ''CONNECTING'' ''Connecting...'' '''' ''Connecting...'' 0xe8c15a False, False)"
| "status_of_state NATIVE_PRECONNECT_SESSION_RECONNECTING =
     (mk_status ''RETRYING'' ''Reconnecting...'' '''' ''Reconnecting...'' 0xe8c15a False, False)"
| "status_of_state NATIVE_PRECONNECT_SESSION_CONNECTED =
     (mk_status ''CONNECTED'' ''Connected'' '''' ''Resume'' 0x43d47e False, False)"
| "status_of_state NATIVE_PRECONNECT_SESSION_ERROR =
     (mk_status ''ERROR'' ''Connection error'' ''Connection failed.'' ''Retry'' 0xe35d55 True, True)"
| "status_of_state NATIVE_PRECONNECT_SESSION_INTERRUPTED =
     (mk_status ''LOST'' ''Connection lost'' ''Connection lost; reason unknown.'' ''Retry'' 0xe8c15a False, True)"
| "status_of_state NATIVE_PRECONNECT_SESSION_DISCONNECTED =
     (mk_status ''CLOSED'' ''Disconnected'' ''The session was closed.'' ''Connect'' 0x8a909b False, True)"

text \<open>The second switch.\<close>

fun refine_status :: "RdpDisconnectReason \<Rightarrow> NativeSessionStatus \<Rightarrow> NativeSessionStatus" where
  "refine_status RDP_DISCONNECT_SERVER_SHUTDOWN s = s\<lparr>st_badge := ''SHUTDOWN'', st_title := ''Server shutdown'',
     st_detail := ''Last disconnect: the server reported it was shutting down.''\<rparr>"
| "refine_status RDP_DISCONNECT_SERVER_REBOOT s = s\<lparr>st_badge := ''REBOOT'', st_title := ''Server restart'',
     st_detail := ''Last disconnect: the server reported it was restarting.''\<rparr>"
| "refine_status RDP_DISCONNECT_USER_LOGOFF s = s\<lparr>st_badge := ''SIGNED OUT'', st_title := ''Signed out'',
     st_detail := ''Signed out on the server.''\<rparr>"
| "refine_status RDP_DISCONNECT_ADMIN_LOGOFF s = s\<lparr>st_badge := ''SIGNED OUT'', st_title := ''Signed out'',
     st_detail := ''An administrator signed you out.''\<rparr>"
| "refine_status RDP_DISCONNECT_USER_DISCONNECT s = s\<lparr>st_detail := ''The session was disconnected by a user action.''\<rparr>"
| "refine_status RDP_DISCONNECT_ADMIN_DISCONNECT s = s\<lparr>st_detail := ''An administrator disconnected the session.''\<rparr>"
| "refine_status RDP_DISCONNECT_SESSION_REPLACED s = s\<lparr>st_badge := ''REPLACED'', st_title := ''Session replaced'',
     st_action := ''Connect'', st_detail := ''Another connection replaced this session.''\<rparr>"
| "refine_status RDP_DISCONNECT_IDLE_TIMEOUT s = s\<lparr>st_badge := ''TIMED OUT'', st_title := ''Session limit reached'',
     st_action := ''Connect'', st_detail := ''The server's idle session limit was reached.''\<rparr>"
| "refine_status RDP_DISCONNECT_SESSION_TIMEOUT s = s\<lparr>st_badge := ''TIMED OUT'', st_title := ''Session limit reached'',
     st_action := ''Connect'', st_detail := ''The server's session time limit was reached.''\<rparr>"
| "refine_status RDP_DISCONNECT_CONNECTION_FAILED s = s\<lparr>st_badge := ''FAILED'', st_title := ''Connection failed'',
     st_detail := ''Could not connect to the server.''\<rparr>"
| "refine_status RDP_DISCONNECT_PROTOCOL_ERROR s = s\<lparr>st_title := ''Protocol error'',
     st_detail := ''The RDP session ended because of a protocol error.''\<rparr>"
| "refine_status RDP_DISCONNECT_GRAPHICS_ERROR s = s\<lparr>st_title := ''Graphics error'',
     st_detail := ''The graphics pipeline could not display the session.''\<rparr>"
| "refine_status RDP_DISCONNECT_ACCESS_DENIED s = s\<lparr>st_title := ''Connection denied'',
     st_detail := ''The server denied access. Check your credentials and permissions.''\<rparr>"
| "refine_status RDP_DISCONNECT_SERVER_ERROR s = s\<lparr>st_title := ''Server error'',
     st_detail := ''The server reported a session failure.''\<rparr>"
| "refine_status RDP_DISCONNECT_LICENSE_ERROR s = s\<lparr>st_title := ''License error'',
     st_detail := ''The server reported a Remote Desktop licensing error.''\<rparr>"
| "refine_status RDP_DISCONNECT_BROKER_ERROR s = s\<lparr>st_title := ''Connection broker error'',
     st_detail := ''The server could not route the connection to a desktop.''\<rparr>"
| "refine_status _ s = s"

definition native_session_status :: "NativePreconnectSessionState \<Rightarrow> RdpDisconnectReason \<Rightarrow> NativeSessionStatus" where
  "native_session_status state reason =
     (case status_of_state state of (status, refined) \<Rightarrow> if refined then refine_status reason status else status)"

end
