(* ===== verification/Rgba_Owner.thy ===== *)
theory Rgba_Owner
  imports Native_App
begin

text \<open>
  Ownership of the bitmap canvases, \<open>native/src/native_rgba_owner.c\<close>, the drawing of a frame in
  \<open>native/src/native_presentation.c\<close>, and the sections under \<open>video_lock\<close> in which a session switch
  hands the canvases over (\<open>native_switch_handoff.c\<close>, \<open>native_switch_navigation.c\<close>,
  \<open>native_hub_actions_connect.c\<close>, \<open>native_session.c\<close>).  The parameter \<open>sdl\<close> says whether the SDL
  thread runs the operation; the SDL calls' answers are parameters of the drawing.
\<close>

section \<open>Textures\<close>

definition native_defer_rgba_texture_destroy :: "App \<Rightarrow> App" where
  "native_defer_rgba_texture_destroy app =
     (case ap_rgba app of
        None \<Rightarrow> app
      | Some surface \<Rightarrow>
          (case native_rgba_surface_take_texture surface of
             (None, surface) \<Rightarrow> app\<lparr>ap_rgba := Some surface\<rparr>
           | (Some stale, surface) \<Rightarrow> app\<lparr>ap_rgba := Some surface, ap_pending_texture_destroy := Some stale\<rparr>))"

definition destroy_texture :: "nat option \<Rightarrow> App \<Rightarrow> App" where
  "destroy_texture t app = (case t of None \<Rightarrow> app
     | Some t \<Rightarrow> app\<lparr>ap_textures := SDL_DestroyTexture True t (ap_textures app)\<rparr>)"

definition take_canvas_texture :: "NativeRgbaSurface option \<Rightarrow> nat option \<times> NativeRgbaSurface option" where
  "take_canvas_texture canvas = (case canvas of None \<Rightarrow> (None, None)
     | Some surface \<Rightarrow> (case native_rgba_surface_take_texture surface of (t, surface) \<Rightarrow> (t, Some surface)))"

definition native_destroy_rgba_renderer_textures :: "App \<Rightarrow> App" where
  "native_destroy_rgba_renderer_textures app =
     (case take_canvas_texture (ap_rgba app) of (rgba_texture, rgba) \<Rightarrow>
      case take_canvas_texture (ap_hub_return_rgba app) of (return_texture, hub) \<Rightarrow>
        let pending_texture = ap_pending_texture_destroy app;
            app = app\<lparr>ap_rgba := rgba, ap_hub_return_rgba := hub, ap_pending_texture_destroy := None\<rparr> in
        destroy_texture pending_texture (destroy_texture return_texture (destroy_texture rgba_texture app)))"

section \<open>Owners\<close>

definition native_rgba_owner_matches :: "App \<Rightarrow> nat \<Rightarrow> u32 \<Rightarrow> bool" where
  "native_rgba_owner_matches app i epoch \<longleftrightarrow>
     ap_rgba app \<noteq> None \<and> ap_rgba_owner_slot app = int i \<and> ap_rgba_owner_epoch app = epoch"

definition native_reset_rgba_owner :: "App \<Rightarrow> App" where
  "native_reset_rgba_owner app = app\<lparr>ap_rgba_owner_slot := - 1, ap_rgba_owner_epoch := 0\<rparr>"

definition close_canvas :: "bool \<Rightarrow> NativeRgbaSurface option \<Rightarrow> App \<Rightarrow> App" where
  "close_canvas sdl canvas app = (case canvas of None \<Rightarrow> app
     | Some surface \<Rightarrow> app\<lparr>ap_textures := native_rgba_surface_close sdl surface (ap_textures app)\<rparr>)"

definition native_close_rgba_locked :: "bool \<Rightarrow> bool \<Rightarrow> App \<Rightarrow> App" where
  "native_close_rgba_locked sdl defer_texture app =
     (if ap_rgba app = None then native_reset_rgba_owner app
      else
        let app = (if defer_texture then native_defer_rgba_texture_destroy app else app);
            app = close_canvas sdl (ap_rgba app) app in
        native_reset_rgba_owner (app\<lparr>ap_rgba := None\<rparr>))"

definition native_clear_hub_return_replacement :: "App \<Rightarrow> App" where
  "native_clear_hub_return_replacement app =
     app\<lparr>ap_hub_return_replacement_slot := - 1, ap_hub_return_replacement_epoch := 0,
       ap_hub_return_replacement_baseline_frames := 0\<rparr>"

definition native_close_hub_return_rgba_locked :: "App \<Rightarrow> App" where
  "native_close_hub_return_rgba_locked app =
     (let app = close_canvas True (ap_hub_return_rgba app) app in
      native_clear_hub_return_replacement
        (app\<lparr>ap_hub_return_rgba := None, ap_hub_return_rgba_owner_slot := - 1, ap_hub_return_rgba_owner_epoch := 0\<rparr>))"

definition canvas_has_frame :: "NativeRgbaSurface option \<Rightarrow> bool" where
  "canvas_has_frame canvas = (case canvas of None \<Rightarrow> False | Some surface \<Rightarrow> rs_has_frame surface)"

definition native_capture_hub_return_rgba_locked :: "App \<Rightarrow> App" where
  "native_capture_hub_return_rgba_locked app =
     (if \<not> ap_hub_visible app \<or> ap_hub_return_rgba app \<noteq> None then app
      else
        let return_slot = ap_hub_return_slot app in
        if return_slot < 0 \<or> return_slot \<ge> int NATIVE_SETTINGS_MAX_SESSIONS then app
        else
          let return_epoch = ss_connect_epoch (slot (nat return_slot) app) in
          if \<not> native_rgba_owner_matches app (nat return_slot) return_epoch \<or> \<not> canvas_has_frame (ap_rgba app) then app
          else native_clear_hub_return_replacement (native_reset_rgba_owner
            (app\<lparr>ap_hub_return_rgba := ap_rgba app, ap_hub_return_rgba_owner_slot := ap_rgba_owner_slot app,
               ap_hub_return_rgba_owner_epoch := ap_rgba_owner_epoch app, ap_rgba := None\<rparr>)))"

definition native_arm_hub_return_replacement_locked :: "nat \<Rightarrow> u32 \<Rightarrow> u32 \<Rightarrow> App \<Rightarrow> App" where
  "native_arm_hub_return_replacement_locked i epoch baseline_frames app =
     (if ap_hub_return_rgba app = None then app
      else app\<lparr>ap_hub_return_replacement_slot := int i, ap_hub_return_replacement_epoch := epoch,
        ap_hub_return_replacement_baseline_frames := baseline_frames\<rparr>)"

definition native_promote_hub_return_rgba_locked :: "bool \<Rightarrow> nat \<Rightarrow> u32 \<Rightarrow> App \<Rightarrow> bool \<times> App" where
  "native_promote_hub_return_rgba_locked sdl i epoch app =
     (if ap_hub_return_rgba app = None \<or> ap_hub_return_rgba_owner_slot app \<noteq> int i \<or>
         ap_hub_return_rgba_owner_epoch app \<noteq> epoch then (False, app)
      else
        let app = native_close_rgba_locked sdl False app in
        (True, native_clear_hub_return_replacement
          (app\<lparr>ap_rgba := ap_hub_return_rgba app, ap_rgba_owner_slot := ap_hub_return_rgba_owner_slot app,
             ap_rgba_owner_epoch := ap_hub_return_rgba_owner_epoch app, ap_hub_return_rgba := None,
             ap_hub_return_rgba_owner_slot := - 1, ap_hub_return_rgba_owner_epoch := 0\<rparr>)))"

section \<open>Drawing\<close>

text \<open>Drawing the chosen canvas: the status (1 drawn, 2 retry, 0 nothing, -1 failed), the slot a failure belongs
  to, and whether the frozen surface is still the one on screen.\<close>

definition draw_canvas :: "bool \<Rightarrow> bool \<Rightarrow> bool \<Rightarrow> nat \<Rightarrow> bool \<Rightarrow> NativeRgbaSurface option \<Rightarrow> App \<Rightarrow>
    int \<times> int \<times> bool \<times> App" where
  "draw_canvas create update copy renderer drawing_return surface app =
     (case surface of
        None \<Rightarrow> (0, - 1, drawing_return, app)
      | Some s \<Rightarrow>
        if \<not> rs_has_frame s then (0, - 1, drawing_return, app)
        else (case native_rgba_surface_render create update copy renderer s (ap_textures app) of
          (result, s', tx) \<Rightarrow>
            let active = ap_active_index app;
                app = (if drawing_return then app\<lparr>ap_hub_return_rgba := Some s', ap_textures := tx\<rparr>
                       else app\<lparr>ap_rgba := Some s', ap_textures := tx\<rparr>) in
            if result = NATIVE_RGBA_OK then
              (1, - 1, drawing_return,
                 log_event (DrawCanvas (rs_writers s') drawing_return active (ss_connect_epoch (slot active app)))
                   (native_present_invalidate app))
            else if result = NATIVE_RGBA_RETRY then (2, - 1, drawing_return, app)
            else if drawing_return then
              (- 1, ap_hub_return_rgba_owner_slot app, False, native_close_hub_return_rgba_locked app)
            else (- 1, int active, drawing_return, app)))"

definition active_h264_ready :: "App \<Rightarrow> bool" where
  "active_h264_ready app \<longleftrightarrow> ap_video app \<noteq> None \<and> ap_video_owner_slot app = int (ap_active_index app) \<and>
     ap_video_owner_epoch app = ss_connect_epoch (slot (ap_active_index app) app)"

definition active_rgba_ready :: "App \<Rightarrow> bool" where
  "active_rgba_ready app \<longleftrightarrow> native_rgba_owner_matches app (ap_active_index app)
     (ss_connect_epoch (slot (ap_active_index app) app)) \<and> canvas_has_frame (ap_rgba app)"

definition replacement_ready :: "App \<Rightarrow> bool" where
  "replacement_ready app =
     (let active = ap_active_index app;
          epoch = ss_connect_epoch (slot active app) in
      ap_hub_return_rgba app \<noteq> None \<and> ap_hub_return_replacement_slot app = int active \<and>
      ap_hub_return_replacement_epoch app = epoch \<and> ss_current_state (slot active app) = RDP_STATE_ACTIVE \<and>
      ss_video_ok_frames (slot active app) \<noteq> ap_hub_return_replacement_baseline_frames app \<and>
      (active_rgba_ready app \<or> active_h264_ready app))"

text \<open>The section under \<open>video_lock\<close>: the frozen return surface is drawn until its replacement renders.\<close>

definition draw_rgba_locked :: "bool \<Rightarrow> bool \<Rightarrow> bool \<Rightarrow> nat \<Rightarrow> App \<Rightarrow> int \<times> int \<times> App" where
  "draw_rgba_locked create update copy renderer app =
     (let app = (destroy_texture (ap_pending_texture_destroy app) app)\<lparr>ap_pending_texture_destroy := None\<rparr>;
          h264_ready = active_h264_ready app;
          ready = replacement_ready app;
          drawing_return = (ap_hub_return_rgba app \<noteq> None \<and> \<not> ready);
          surface = (if drawing_return then ap_hub_return_rgba app
                     else if active_rgba_ready app then ap_rgba app else None) in
      case draw_canvas create update copy renderer drawing_return surface app of
        (status, failed_owner_slot, drawing_return, app) \<Rightarrow>
          (status, failed_owner_slot,
           if ap_hub_return_rgba app \<noteq> None \<and> ready \<and> (h264_ready \<or> status = 1 \<and> \<not> drawing_return)
           then native_close_hub_return_rgba_locked app else app))"

definition native_draw_rgba_frame :: "bool \<Rightarrow> bool \<Rightarrow> bool \<Rightarrow> nat \<Rightarrow> App \<Rightarrow> int \<times> App" where
  "native_draw_rgba_frame create update copy renderer app =
     (case draw_rgba_locked create update copy renderer app of
        (status, failed_owner_slot, app) \<Rightarrow>
          if status < 0 then
            (status, native_slot_report_terminal
               (if failed_owner_slot \<ge> 0 \<and> failed_owner_slot < int NATIVE_SETTINGS_MAX_SESSIONS
                then nat failed_owner_slot else ap_active_index app)
               RDP_STATE_DECODER_ERROR (rdp_state_exit_code RDP_STATE_DECODER_ERROR)
               (app\<lparr>ap_decoder_errors := ap_decoder_errors app + 1\<rparr>))
          else (status, app))"

section \<open>Handing over\<close>

text \<open>\<open>native_complete_session_switch\<close>, the section under \<open>video_lock\<close>.\<close>

definition handoff_locked :: "nat \<Rightarrow> App \<Rightarrow> App" where
  "handoff_locked target app =
     (let s = slot target app;
          app = (if ss_snapshot_pending s
                 then put_slot target (s\<lparr>ss_snapshot_pending := False,
                        ss_snapshot := native_au_snapshot_reset (ss_snapshot s), ss_snapshot_idr_ready := False\<rparr>) app
                 else app);
          target_epoch = ss_connect_epoch (slot target app);
          app = (if ap_hub_return_rgba app \<noteq> None \<and> ap_hub_return_rgba_owner_slot app = int target
                 then (case native_promote_hub_return_rgba_locked True target target_epoch app of
                   (True, app) \<Rightarrow> app
                 | (False, app) \<Rightarrow> native_arm_hub_return_replacement_locked target target_epoch
                     (ss_video_ok_frames (slot target app)) (native_close_rgba_locked True False app))
                 else
                   let app = native_close_rgba_locked True False app in
                   if ap_hub_return_rgba app \<noteq> None then native_close_hub_return_rgba_locked app else app) in
      native_present_invalidate (log_event (Activate target) app\<lparr>ap_active_index := target, ap_video_refresh_needed := False\<rparr>))"

text \<open>\<open>native_show_slot_configurator\<close>, the same.\<close>

definition configurator_locked :: "nat \<Rightarrow> App \<Rightarrow> App" where
  "configurator_locked target app =
     (let app = native_close_rgba_locked True False (native_capture_hub_return_rgba_locked app) in
      native_present_invalidate (log_event (Activate target) app\<lparr>ap_active_index := target\<rparr>))"

text \<open>A connection started from the HUB (or a form), the same.\<close>

definition connect_locked :: "bool \<Rightarrow> nat \<Rightarrow> App \<Rightarrow> App" where
  "connect_locked connect_from_hub requested app =
     (let app = (if connect_from_hub then native_capture_hub_return_rgba_locked app else app);
          app = (if ap_hub_return_rgba app \<noteq> None
                 then native_arm_hub_return_replacement_locked requested (ss_connect_epoch (slot requested app) + 1)
                   (ss_video_ok_frames (slot requested app)) app else app);
          app = native_close_rgba_locked True False app in
      native_present_invalidate (log_event (Activate requested) app\<lparr>ap_active_index := requested, ap_video_refresh_needed := False\<rparr>))"

text \<open>\<open>native_stop_media\<close>: the canvases and the video track.\<close>

definition native_stop_media :: "App \<Rightarrow> App" where
  "native_stop_media app =
     (let app = close_canvas True (ap_rgba app) app;
          app = native_reset_rgba_owner (app\<lparr>ap_rgba := None\<rparr>);
          app = native_close_hub_return_rgba_locked app;
          app = (if ap_video app \<noteq> None then log_event CloseVideo app else app);
          app = app\<lparr>ap_video := None, ap_media := False\<rparr> in
      destroy_texture (ap_pending_texture_destroy app) app\<lparr>ap_pending_texture_destroy := None\<rparr>)"

end
