(* ===== verification/Video_Ingest.thy ===== *)
theory Video_Ingest
  imports Rgba_Owner H264_Annexb Hevc_Annexb
begin

text \<open>
  The graphics callbacks, \<open>native/src/native_rdp_video.c\<close>: bitmap updates into the canvas and
  compressed access units into the shared hardware decoder, each under \<open>video_lock\<close>, and the parts
  of \<open>native_session.c\<close> that start and stop a connection's video.  The clock readings, \<open>malloc\<close> and
  the hardware decoder's answers are parameters.  A video track is its size and codec.
\<close>

definition NATIVE_MAX_GRAPHICS_PATH_SWITCHES :: int where "NATIVE_MAX_GRAPHICS_PATH_SWITCHES = 4"
definition NATIVE_VIDEO_PACING_LOG_MS :: u32 where "NATIVE_VIDEO_PACING_LOG_MS = 5000"
definition NATIVE_VIDEO_PATH_HOLD_MS :: u32 where "NATIVE_VIDEO_PATH_HOLD_MS = 1500"

text \<open>The answers from outside an operation gets.\<close>

record VideoAnswers =
  va_now_ms :: u32
  va_feed_ms :: u32
  va_alloc_surface :: bool
  va_alloc_pixels :: bool
  va_size_max :: nat
  va_media :: bool
  va_open :: bool
  va_feed :: NativeVideoResult

section \<open>Helpers\<close>

definition native_note_video_frame :: "nat \<Rightarrow> u32 \<Rightarrow> App \<Rightarrow> App" where
  "native_note_video_frame len now_ms app =
     (let app = app\<lparr>ap_video_frames_window := ap_video_frames_window app + 1,
            ap_video_bytes_window := ap_video_bytes_window app + word_of_nat len\<rparr> in
      if \<not> ap_video_pacing_started app then app\<lparr>ap_video_pacing_window_ms := now_ms, ap_video_pacing_started := True\<rparr>
      else if now_ms - ap_video_pacing_window_ms app < NATIVE_VIDEO_PACING_LOG_MS then app
      else app\<lparr>ap_video_frames_window := 0, ap_video_bytes_window := 0, ap_video_pacing_window_ms := now_ms\<rparr>)"

definition decoder_error :: "nat \<Rightarrow> App \<Rightarrow> App" where
  "decoder_error i app = native_slot_report_terminal i RDP_STATE_DECODER_ERROR
     (rdp_state_exit_code RDP_STATE_DECODER_ERROR) (app\<lparr>ap_decoder_errors := ap_decoder_errors app + 1\<rparr>)"

definition native_note_graphics_path_switch :: "nat \<Rightarrow> App \<Rightarrow> bool \<times> App" where
  "native_note_graphics_path_switch i app =
     (let s = slot i app;
          s = s\<lparr>ss_graphics_path_switches := ss_graphics_path_switches s + 1\<rparr>;
          app = put_slot i s app in
      if ss_graphics_path_switches s \<le> NATIVE_MAX_GRAPHICS_PATH_SWITCHES then (False, app)
      else (True, decoder_error i app))"

definition close_video :: "App \<Rightarrow> App" where
  "close_video app = log_event CloseVideo (app\<lparr>ap_video := None, ap_decoder_keyframe_pending := False\<rparr>)"

section \<open>Bitmap updates\<close>

text \<open>The canvas the update goes to: opened, or resized to the desktop.\<close>

definition prepare_canvas :: "VideoAnswers \<Rightarrow> nat \<Rightarrow> u32 \<Rightarrow> App \<Rightarrow> App" where
  "prepare_canvas va i owner_epoch app =
     (let desktop_width = ucast (ss_desktop_width (slot i app)) :: u16;
          desktop_height = ucast (ss_desktop_height (slot i app)) :: u16 in
      case ap_rgba app of
        None \<Rightarrow>
          (case native_rgba_surface_open (va_size_max va) (va_alloc_surface va) (va_alloc_pixels va) False
              desktop_width desktop_height (ap_textures app) of
             (None, tx) \<Rightarrow> app\<lparr>ap_textures := tx\<rparr>
           | (Some surface, tx) \<Rightarrow> app\<lparr>ap_rgba := Some surface, ap_textures := tx,
               ap_rgba_owner_slot := int i, ap_rgba_owner_epoch := owner_epoch\<rparr>)
      | Some surface \<Rightarrow>
          if rs_width surface \<noteq> desktop_width \<or> rs_height surface \<noteq> desktop_height then
            let app = native_defer_rgba_texture_destroy app in
            (case native_rgba_surface_resize (va_size_max va) (va_alloc_pixels va) False desktop_width desktop_height
                (the (ap_rgba app)) (ap_textures app) of
               (result, surface, tx) \<Rightarrow>
                 if result \<noteq> NATIVE_RGBA_OK
                 then native_reset_rgba_owner (app\<lparr>ap_rgba := None, ap_textures := native_rgba_surface_close False surface tx\<rparr>)
                 else app\<lparr>ap_rgba := Some surface, ap_textures := tx\<rparr>)
          else app)"

text \<open>The copy; the writer is remembered beside the pixels.\<close>

definition apply_update :: "VideoAnswers \<Rightarrow> nat \<Rightarrow> u32 \<Rightarrow> u32 \<Rightarrow> u32 \<Rightarrow> u32 \<Rightarrow> u32 \<Rightarrow> u32 \<Rightarrow> bytes option \<Rightarrow> nat \<Rightarrow>
    App \<Rightarrow> (NativeRgbaResult \<times> App) option" where
  "apply_update va i owner_epoch left ytop width height stride rgba len app =
     (case ap_rgba app of
        None \<Rightarrow> Some (NATIVE_RGBA_NOMEM, app)
      | Some surface \<Rightarrow>
          map_option (\<lambda>(result, surface).
              (result, app\<lparr>ap_rgba := Some (surface\<lparr>rs_writers := rs_writers surface @ [(i, owner_epoch)]\<rparr>)\<rparr>))
            (native_rgba_surface_apply (va_size_max va) left ytop width height stride rgba len surface))"

text \<open>The hand-over between the decoder and the canvas: None, the update is done with.\<close>

definition leave_video :: "VideoAnswers \<Rightarrow> nat \<Rightarrow> u32 \<Rightarrow> App \<Rightarrow> bool \<times> App" where
  "leave_video va i owner_epoch app =
     (case ap_video app of
        None \<Rightarrow> (True, app)
      | Some _ \<Rightarrow>
          let same_owner = (ap_video_owner_slot app = int i \<and> ap_video_owner_epoch app = owner_epoch) in
          if same_owner \<and> ap_video_feed_started app \<and> va_now_ms va - ap_video_last_feed_ms app < NATIVE_VIDEO_PATH_HOLD_MS
          then (False, put_slot i ((slot i app)\<lparr>ss_video_via_bitmap := False\<rparr>)
                 (app\<lparr>ap_tiles_dropped_under_video := ap_tiles_dropped_under_video app + 1\<rparr>))
          else
            let app = close_video app in
            if same_owner then (case native_note_graphics_path_switch i app of (failed, app) \<Rightarrow> (\<not> failed, app))
            else (True, app))"

definition on_bitmap_update :: "VideoAnswers \<Rightarrow> nat \<Rightarrow> u32 \<Rightarrow> u32 \<Rightarrow> u32 \<Rightarrow> u32 \<Rightarrow> u32 \<Rightarrow> bytes option \<Rightarrow> nat \<Rightarrow>
    App \<Rightarrow> App option" where
  "on_bitmap_update va i left ytop width height stride rgba len app =
     (let s = slot i app;
          recent_video = (ss_video_seen s \<and> ss_video_epoch s = ss_connect_epoch s \<and>
            va_now_ms va - ss_video_last_au_ms s < NATIVE_VIDEO_PATH_HOLD_MS) in
      if \<not> native_slot_is_active i app \<or> as_armed (ss_snapshot s) \<and> recent_video
      then Some (put_slot i (s\<lparr>ss_video_via_bitmap := \<not> recent_video\<rparr>) app)
      else
        let app = put_slot i (s\<lparr>ss_video_via_bitmap := True\<rparr>) app in
        if rgba = None \<or> len = 0 \<or> width = 0 \<or> height = 0 then Some (decoder_error i app)
        else
          let owner_epoch = ss_connect_epoch (slot i app);
              app = (if ap_rgba app \<noteq> None \<and> \<not> native_rgba_owner_matches app i owner_epoch
                     then native_close_rgba_locked False True app else app) in
          (case leave_video va i owner_epoch app of
             (False, app) \<Rightarrow> Some app
           | (True, app) \<Rightarrow>
               (case apply_update va i owner_epoch left ytop width height stride rgba len (prepare_canvas va i owner_epoch app) of
                  None \<Rightarrow> None
                | Some (NATIVE_RGBA_OK, app) \<Rightarrow>
                    Some (put_slot i ((slot i app)\<lparr>ss_video_ok_frames := ss_video_ok_frames (slot i app) + 1\<rparr>) app)
                | Some (_, app) \<Rightarrow> Some (decoder_error i app))))"

section \<open>Compressed video\<close>

definition native_note_video_stream :: "u32 \<Rightarrow> nat \<Rightarrow> bool \<Rightarrow> App \<Rightarrow> App" where
  "native_note_video_stream now_ms i valid_au app =
     (if valid_au then put_slot i ((slot i app)\<lparr>ss_video_seen := True, ss_video_last_au_ms := now_ms,
          ss_video_epoch := ss_connect_epoch (slot i app)\<rparr>) app
      else app)"

text \<open>Whether an access unit is well formed, and whether a decoder can start at it.\<close>

definition scan_au :: "NativeVideoCodec \<Rightarrow> bytes option \<Rightarrow> bool \<times> bool" where
  "scan_au codec data =
     (case data of
        None \<Rightarrow> (False, False)
      | Some au \<Rightarrow>
        (case codec of
           NATIVE_VIDEO_CODEC_H265 \<Rightarrow>
             (case native_hevc_scan_annexb au of (r, info) \<Rightarrow> (r = NATIVE_HEVC_OK, r = NATIVE_HEVC_OK \<and> hv_can_seed_decoder info))
         | NATIVE_VIDEO_CODEC_H264 \<Rightarrow>
             (case native_h264_scan_au au of (r, info) \<Rightarrow> (r = NATIVE_H264_OK, r = NATIVE_H264_OK \<and> hi_can_seed_decoder info))))"

definition video_of :: "App \<Rightarrow> NativeVideo" where
  "video_of app = the (ap_video app)"

text \<open>Another owner's decoder: wait for a seed, take it over in-band, or swap it.  None: wait.\<close>

definition take_decoder :: "nat \<Rightarrow> bool \<Rightarrow> u16 \<Rightarrow> u16 \<Rightarrow> App \<Rightarrow> bool \<times> App" where
  "take_decoder i decoder_seed desktop_width desktop_height app =
     (let s = slot i app in
      if ap_video app \<noteq> None \<and> (ap_video_owner_slot app \<noteq> int i \<or> ap_video_owner_epoch app \<noteq> ss_connect_epoch s \<or>
           nv_codec (video_of app) \<noteq> ss_video_codec s)
      then
        if \<not> decoder_seed then (False, put_slot i (s\<lparr>ss_keyframe_wait_drops := ss_keyframe_wait_drops s + 1\<rparr>) app)
        else
          let app = put_slot i (s\<lparr>ss_keyframe_wait_drops := 0\<rparr>) app in
          if desktop_width = nv_width (video_of app) \<and> desktop_height = nv_height (video_of app) \<and>
             ss_video_codec s = nv_codec (video_of app)
          then (True, log_event (HandVideo i (ss_connect_epoch s))
                 (app\<lparr>ap_video_owner_slot := int i, ap_video_owner_epoch := ss_connect_epoch s, ap_decoder_keyframe_pending := False\<rparr>))
          else (True, close_video app)
      else (True, app))"

definition resize_decoder :: "u16 \<Rightarrow> u16 \<Rightarrow> App \<Rightarrow> App" where
  "resize_decoder desktop_width desktop_height app =
     (if ap_video app \<noteq> None \<and> (desktop_width \<noteq> nv_width (video_of app) \<or> desktop_height \<noteq> nv_height (video_of app))
      then close_video app else app)"

text \<open>The decoder, opened on demand: False, there is none.\<close>

definition open_decoder :: "VideoAnswers \<Rightarrow> nat \<Rightarrow> u16 \<Rightarrow> u16 \<Rightarrow> App \<Rightarrow> bool \<times> App" where
  "open_decoder va i desktop_width desktop_height app =
     (if ap_video app \<noteq> None then (True, app)
      else
        let s = slot i app;
            media = (ap_media app \<or> va_media va);
            app = app\<lparr>ap_media := media\<rparr> in
        if media \<and> va_open va then
          (True, log_event (OpenVideo i (ss_connect_epoch s))
            (app\<lparr>ap_video := Some \<lparr>nv_width = desktop_width, nv_height = desktop_height, nv_codec = ss_video_codec s\<rparr>,
               ap_video_owner_slot := int i, ap_video_owner_epoch := ss_connect_epoch s\<rparr>))
        else (False, decoder_error i app))"

definition feed_decoder :: "VideoAnswers \<Rightarrow> nat \<Rightarrow> bytes \<Rightarrow> bool \<Rightarrow> App \<Rightarrow> App" where
  "feed_decoder va i au decoder_seed app =
     (let app = log_event (FeedVideo i (ss_connect_epoch (slot i app)) decoder_seed)
            (app\<lparr>ap_video_last_feed_ms := va_now_ms va, ap_video_feed_started := True\<rparr>) in
      case va_feed va of
        NATIVE_VIDEO_NEED_KEYFRAME \<Rightarrow>
          if i = ap_active_index app \<and> \<not> ap_decoder_keyframe_pending app
          then app\<lparr>ap_decoder_keyframe_pending := True, ap_video_refresh_needed := True\<rparr> else app
      | NATIVE_VIDEO_OK \<Rightarrow>
          let app = app\<lparr>ap_decoder_keyframe_pending := False\<rparr>;
              app = put_slot i ((slot i app)\<lparr>ss_video_ok_frames := ss_video_ok_frames (slot i app) + 1\<rparr>) app in
          native_note_video_frame (length au) (va_feed_ms va) app
      | NATIVE_VIDEO_DROPPED \<Rightarrow> app
      | _ \<Rightarrow> decoder_error i app)"

definition leave_bitmap :: "nat \<Rightarrow> App \<Rightarrow> bool \<times> App" where
  "leave_bitmap i app =
     (if ap_rgba app \<noteq> None then
        let same_owner = native_rgba_owner_matches app i (ss_connect_epoch (slot i app));
            app = native_close_rgba_locked False True app in
        if same_owner then (case native_note_graphics_path_switch i app of (failed, app) \<Rightarrow> (\<not> failed, app))
        else (True, app)
      else (True, app))"

definition native_video_ingest_au_locked :: "VideoAnswers \<Rightarrow> nat \<Rightarrow> bytes option \<Rightarrow> u64 \<Rightarrow> App \<Rightarrow> App" where
  "native_video_ingest_au_locked va i data pts90k app =
     (case scan_au (ss_video_codec (slot i app)) data of (valid_au, decoder_seed) \<Rightarrow>
      let app = put_slot i ((slot i app)\<lparr>ss_video_via_bitmap := False\<rparr>) app;
          app = native_note_video_stream (va_now_ms va) i valid_au app;
          s = slot i app in
      if as_armed (ss_snapshot s) then
        (case native_au_snapshot_append (ss_snapshot s) data valid_au decoder_seed pts90k of (_, snapshot) \<Rightarrow>
          put_slot i (s\<lparr>ss_snapshot := snapshot, ss_snapshot_last_au_ms := va_now_ms va,
            ss_snapshot_idr_ready := native_au_snapshot_ready snapshot\<rparr>) app)
      else if \<not> native_slot_is_active i app then app
      else if data = None \<or> data = Some [] then decoder_error i app
      else
        let desktop_width = ucast (ss_desktop_width s) :: u16;
            desktop_height = ucast (ss_desktop_height s) :: u16 in
        (case leave_bitmap i app of
           (False, app) \<Rightarrow> app
         | (True, app) \<Rightarrow>
           (case take_decoder i decoder_seed desktop_width desktop_height app of
              (False, app) \<Rightarrow> app
            | (True, app) \<Rightarrow>
              (case open_decoder va i desktop_width desktop_height (resize_decoder desktop_width desktop_height app) of
                 (False, app) \<Rightarrow> app
               | (True, app) \<Rightarrow> feed_decoder va i (the data) decoder_seed app))))"

text \<open>\<open>mem\<close> is what \<open>malloc\<close> answers should the cache be armed afresh.\<close>

definition native_video_ingest_au :: "VideoAnswers \<Rightarrow> bytes option \<Rightarrow> nat \<Rightarrow> NativeVideoCodec \<Rightarrow> bytes option \<Rightarrow> u64 \<Rightarrow>
    App \<Rightarrow> App" where
  "native_video_ingest_au va mem i codec data pts90k app =
     (let s = slot i app;
          app = (if ss_video_codec s \<noteq> codec
                 then put_slot i (s\<lparr>ss_snapshot := (if as_armed (ss_snapshot s) then snd (native_au_snapshot_arm mem (ss_snapshot s))
                          else ss_snapshot s),
                        ss_snapshot_idr_ready := False, ss_video_codec := codec, ss_video_seen := False\<rparr>) app
                 else app) in
      native_video_ingest_au_locked va i data pts90k app)"

definition on_video_au :: "VideoAnswers \<Rightarrow> bytes option \<Rightarrow> nat \<Rightarrow> nat \<Rightarrow> bytes option \<Rightarrow> u64 \<Rightarrow> App \<Rightarrow> App" where
  "on_video_au va mem i codec data pts90k app =
     (if codec \<noteq> 0 \<and> codec \<noteq> 1
      then native_slot_report_terminal i RDP_STATE_PROTOCOL_ERROR (rdp_state_exit_code RDP_STATE_PROTOCOL_ERROR) app
      else native_video_ingest_au va mem i (if codec = 1 then NATIVE_VIDEO_CODEC_H265 else NATIVE_VIDEO_CODEC_H264)
        data pts90k app)"

section \<open>Connections\<close>

text \<open>\<open>native_stop_slot\<close>: what it does to the slot's session and video state.\<close>

definition stop_slot_video :: "nat \<Rightarrow> App \<Rightarrow> App" where
  "stop_slot_video i app = put_slot i ((slot i app)\<lparr>ss_rdp := False,
     ss_snapshot := native_au_snapshot_reset (ss_snapshot (slot i app)), ss_video_seen := False,
     ss_video_codec := NATIVE_VIDEO_CODEC_H264, ss_video_via_bitmap := False, ss_snapshot_idr_ready := False,
     ss_snapshot_pending := False, ss_current_state := RDP_STATE_IDLE, ss_session_failed := False\<rparr>) app"

text \<open>\<open>native_slot_connect\<close> up to the new worker; \<open>mem\<close> as above, \<open>runtime_active\<close> what the session clock says of the
  logical session, \<open>started\<close> whether the worker starts.\<close>

definition connect_slot_video :: "bool \<Rightarrow> bytes option \<Rightarrow> bool \<Rightarrow> bool \<Rightarrow> nat \<Rightarrow> App \<Rightarrow> App" where
  "connect_slot_video arm_snapshot mem runtime_active started i app =
     (let app = stop_slot_video i app;
          app = (if ap_hub_return_rgba app \<noteq> None \<and> ap_hub_return_replacement_slot app = int i
                 then native_arm_hub_return_replacement_locked i (ss_connect_epoch (slot i app) + 1)
                   (ss_video_ok_frames (slot i app)) app else app);
          s = slot i app;
          s = (if arm_snapshot then s\<lparr>ss_snapshot := snd (native_au_snapshot_arm mem (ss_snapshot s))\<rparr> else s);
          s = s\<lparr>ss_connect_epoch := ss_connect_epoch s + 1, ss_graphics_path_switches := 0,
                ss_terminal_state := RDP_STATE_IDLE, ss_terminal_reason := RDP_DISCONNECT_NONE, ss_reconnecting := False,
                ss_was_active := runtime_active, ss_desktop_width := word_of_nat (sc_desktop_width (ss_config s)),
                ss_desktop_height := word_of_nat (sc_desktop_height (ss_config s)), ss_rdp := started\<rparr>;
          app = log_event (Reconnect i) (put_slot i s app) in
      if i = ap_active_index app
      then native_present_invalidate (app\<lparr>ap_decoder_errors := 0, ap_tiles_dropped_under_video := 0,
        ap_decoder_keyframe_pending := False, ap_exit_code := 0\<rparr>)
      else app)"

end
