(* ===== verification/Video_Safety.thy ===== *)
theory Video_Safety
  imports Video_Ingest
begin

text \<open>
  What the shared screen and the shared decoder do under every interleaving of the sessions' workers
  and the SDL thread.  A monitor reads the log of video events; the lemmas show that each operation
  keeps the log accepted, the monitor in step with the program's state, and every canvas owned by
  the only connection that wrote it.
\<close>

section \<open>The monitor\<close>

record Monitor =
  mo_active :: nat
  mo_epoch :: "u32 list"
  mo_decoder :: "(nat \<times> u32 \<times> bool) option"

text \<open>The decoder's owner, and whether it has only just taken over a running decoder.\<close>

fun monitor :: "Monitor \<Rightarrow> VideoEvent \<Rightarrow> Monitor option" where
  "monitor m (Activate i) = Some (m\<lparr>mo_active := i\<rparr>)"
| "monitor m (Reconnect i) = Some (m\<lparr>mo_epoch := (mo_epoch m)[i := mo_epoch m ! i + 1]\<rparr>)"
| "monitor m (OpenVideo i e) =
     (if mo_decoder m = None \<and> mo_active m = i \<and> mo_epoch m ! i = e
      then Some (m\<lparr>mo_decoder := Some (i, e, False)\<rparr>) else None)"
| "monitor m (HandVideo i e) =
     (if mo_decoder m \<noteq> None \<and> mo_active m = i \<and> mo_epoch m ! i = e
      then Some (m\<lparr>mo_decoder := Some (i, e, True)\<rparr>) else None)"
| "monitor m (FeedVideo i e seed) =
     (case mo_decoder m of
        Some (j, f, fresh) \<Rightarrow>
          if j = i \<and> f = e \<and> mo_active m = i \<and> mo_epoch m ! i = e \<and> (\<not> fresh \<or> seed)
          then Some (m\<lparr>mo_decoder := Some (i, e, False)\<rparr>) else None
      | None \<Rightarrow> None)"
| "monitor m CloseVideo = (if mo_decoder m = None then None else Some (m\<lparr>mo_decoder := None\<rparr>))"
| "monitor m (DrawCanvas writers frozen i e) =
     (if mo_active m = i \<and> mo_epoch m ! i = e \<and>
         (if frozen then list_all (\<lambda>w. w = writers ! 0) writers else list_all (\<lambda>w. w = (i, e)) writers)
      then Some m else None)"

definition monitor_all :: "Monitor \<Rightarrow> VideoEvent list \<Rightarrow> Monitor option" where
  "monitor_all m es = foldl (\<lambda>m e. Option.bind m (\<lambda>m. monitor m e)) (Some m) es"

lemma monitor_all_snoc [simp]: "monitor_all m (es @ [e]) = Option.bind (monitor_all m es) (\<lambda>m. monitor m e)"
  by (simp add: monitor_all_def)

section \<open>The invariant\<close>

definition seen :: "App \<Rightarrow> Monitor" where
  "seen app = \<lparr>mo_active = ap_active_index app, mo_epoch = map ss_connect_epoch (ap_sessions app),
     mo_decoder = (if ap_video app = None then None
       else Some (nat (ap_video_owner_slot app), ap_video_owner_epoch app, False))\<rparr>"

definition canvas_ok :: "int \<Rightarrow> u32 \<Rightarrow> NativeRgbaSurface option \<Rightarrow> bool" where
  "canvas_ok owner epoch canvas \<longleftrightarrow> (case canvas of None \<Rightarrow> True
     | Some s \<Rightarrow> surface_wf s \<and> rs_pixels s \<noteq> None \<and> 0 \<le> owner \<and> set (rs_writers s) \<subseteq> {(nat owner, epoch)})"

definition canvases_ok :: "App \<Rightarrow> bool" where
  "canvases_ok app \<longleftrightarrow> canvas_ok (ap_rgba_owner_slot app) (ap_rgba_owner_epoch app) (ap_rgba app) \<and>
     canvas_ok (ap_hub_return_rgba_owner_slot app) (ap_hub_return_rgba_owner_epoch app) (ap_hub_return_rgba app)"

definition decoder_ok :: "Monitor \<Rightarrow> App \<Rightarrow> bool" where
  "decoder_ok m app \<longleftrightarrow> monitor_all m (ap_log app) = Some (seen app) \<and>
     length (ap_sessions app) = NATIVE_SETTINGS_MAX_SESSIONS \<and> ap_active_index app < NATIVE_SETTINGS_MAX_SESSIONS \<and>
     (ap_video app \<noteq> None \<longrightarrow> 0 \<le> ap_video_owner_slot app)"

text \<open>The parts of the state the two halves read.\<close>

definition decoder_view where
  "decoder_view app = (ap_log app, ap_active_index app, map ss_connect_epoch (ap_sessions app), ap_video app,
     ap_video_owner_slot app, ap_video_owner_epoch app)"

definition canvas_view where
  "canvas_view app = (ap_rgba app, ap_rgba_owner_slot app, ap_rgba_owner_epoch app, ap_hub_return_rgba app,
     ap_hub_return_rgba_owner_slot app, ap_hub_return_rgba_owner_epoch app)"

lemma decoder_view_ok: "decoder_view a = decoder_view b \<Longrightarrow> decoder_ok m a = decoder_ok m b"
  by (auto simp: decoder_view_def decoder_ok_def seen_def dest: map_eq_imp_length_eq)

lemma canvas_view_ok: "canvas_view a = canvas_view b \<Longrightarrow> canvases_ok a = canvases_ok b"
  by (simp add: canvas_view_def canvases_ok_def)

lemma slot_epoch:
  assumes "decoder_view a = decoder_view b" "i < length (ap_sessions a)"
  shows "ss_connect_epoch (slot i a) = ss_connect_epoch (slot i b)"
proof -
  have "map ss_connect_epoch (ap_sessions a) = map ss_connect_epoch (ap_sessions b)"
    using assms(1) by (simp add: decoder_view_def)
  then show ?thesis using assms(2) unfolding slot_def by (metis length_map nth_map)
qed

section \<open>What leaves the views alone\<close>

lemma epochs_put_slot:
  "ss_connect_epoch s = ss_connect_epoch (slot i app) \<Longrightarrow>
    map ss_connect_epoch (ap_sessions (put_slot i s app)) = map ss_connect_epoch (ap_sessions app)"
  by (cases "i < length (ap_sessions app)")
    (auto simp: put_slot_def slot_def nth_list_update list_update_beyond intro!: nth_equalityI)

lemma canvas_put_slot [simp]: "canvas_view (put_slot i s app) = canvas_view app"
  by (simp add: canvas_view_def put_slot_def)

lemma decoder_put_slot:
  assumes "ss_connect_epoch s = ss_connect_epoch (slot i app)"
  shows "decoder_view (put_slot i s app) = decoder_view app"
proof -
  have "ap_log (put_slot i s app) = ap_log app" "ap_video (put_slot i s app) = ap_video app"
    "ap_video_owner_slot (put_slot i s app) = ap_video_owner_slot app" "ap_video_owner_epoch (put_slot i s app) = ap_video_owner_epoch app"
    by (simp_all add: put_slot_def)
  then show ?thesis by (simp add: decoder_view_def epochs_put_slot [OF assms])
qed

text \<open>Every put of these operations keeps the slot's epoch.\<close>

lemma slot_fields [simp]:
  "slot i (app\<lparr>ap_decoder_errors := n\<rparr>) = slot i app" "slot i (app\<lparr>ap_textures := tx\<rparr>) = slot i app"
  "slot i (app\<lparr>ap_rgba := r\<rparr>) = slot i app" "slot i (app\<lparr>ap_pending_texture_destroy := t\<rparr>) = slot i app"
  "slot i (app\<lparr>ap_tiles_dropped_under_video := k\<rparr>) = slot i app" "slot i (log_event e app) = slot i app"
  "slot i (app\<lparr>ap_video := v\<rparr>) = slot i app" "slot i (app\<lparr>ap_decoder_keyframe_pending := b\<rparr>) = slot i app"
  by (simp_all add: slot_def log_event_def)

lemma terminal_views:
  "canvas_view (native_slot_report_terminal_reason i state reason code app) = canvas_view app"
  "decoder_view (native_slot_report_terminal_reason i state reason code app) = decoder_view app"
proof -
  have f: "canvas_view (app\<lparr>ap_exit_code := x\<rparr>) = canvas_view app" "decoder_view (app\<lparr>ap_exit_code := x\<rparr>) = decoder_view app"
    "canvas_view (app\<lparr>ap_running := r\<rparr>) = canvas_view app" "decoder_view (app\<lparr>ap_running := r\<rparr>) = decoder_view app"
    for app x r by (simp_all add: canvas_view_def decoder_view_def)
  show "canvas_view (native_slot_report_terminal_reason i state reason code app) = canvas_view app"
    by (simp add: native_slot_report_terminal_reason_def Let_def f)
  show "decoder_view (native_slot_report_terminal_reason i state reason code app) = decoder_view app"
    by (simp add: native_slot_report_terminal_reason_def Let_def f decoder_put_slot)
qed

lemma decoder_error_views [simp]:
  "canvas_view (decoder_error i app) = canvas_view app" "decoder_view (decoder_error i app) = decoder_view app"
  unfolding decoder_error_def native_slot_report_terminal_def terminal_views
  by (simp_all add: canvas_view_def decoder_view_def)

lemma path_switch_views [simp]:
  "canvas_view (snd (native_note_graphics_path_switch i app)) = canvas_view app"
  "decoder_view (snd (native_note_graphics_path_switch i app)) = decoder_view app"
  by (simp_all add: native_note_graphics_path_switch_def Let_def decoder_put_slot)

lemma note_frame_views [simp]:
  "canvas_view (native_note_video_frame n now app) = canvas_view app"
  "decoder_view (native_note_video_frame n now app) = decoder_view app"
  by (simp_all add: native_note_video_frame_def Let_def canvas_view_def decoder_view_def)

lemma note_stream_views [simp]:
  "canvas_view (native_note_video_stream now i valid app) = canvas_view app"
  "decoder_view (native_note_video_stream now i valid app) = decoder_view app"
  by (simp_all add: native_note_video_stream_def decoder_put_slot)

lemma destroy_texture_views [simp]:
  "canvas_view (destroy_texture t app) = canvas_view app" "decoder_view (destroy_texture t app) = decoder_view app"
  by (simp_all add: destroy_texture_def canvas_view_def decoder_view_def split: option.split)

lemma field_views [simp]:
  "decoder_view (app\<lparr>ap_textures := tx\<rparr>) = decoder_view app" "canvas_view (app\<lparr>ap_textures := tx\<rparr>) = canvas_view app"
  "decoder_view (app\<lparr>ap_pending_texture_destroy := p\<rparr>) = decoder_view app"
  "canvas_view (app\<lparr>ap_pending_texture_destroy := p\<rparr>) = canvas_view app"
  "decoder_view (app\<lparr>ap_rgba := r\<rparr>) = decoder_view app" "decoder_view (app\<lparr>ap_hub_return_rgba := r\<rparr>) = decoder_view app"
  "decoder_view (app\<lparr>ap_rgba_owner_slot := i\<rparr>) = decoder_view app"
  "decoder_view (app\<lparr>ap_rgba_owner_epoch := e\<rparr>) = decoder_view app"
  "decoder_view (app\<lparr>ap_hub_return_rgba_owner_slot := i\<rparr>) = decoder_view app"
  "decoder_view (app\<lparr>ap_hub_return_rgba_owner_epoch := e\<rparr>) = decoder_view app"
  "decoder_view (native_present_invalidate app) = decoder_view app" "canvas_view (native_present_invalidate app) = canvas_view app"
  "canvas_view (log_event ev app) = canvas_view app"
  by (simp_all add: decoder_view_def canvas_view_def native_present_invalidate_def log_event_def)

lemma replacement_views [simp]:
  "decoder_view (native_clear_hub_return_replacement app) = decoder_view app"
  "canvas_view (native_clear_hub_return_replacement app) = canvas_view app"
  "decoder_view (native_arm_hub_return_replacement_locked i e n app) = decoder_view app"
  "canvas_view (native_arm_hub_return_replacement_locked i e n app) = canvas_view app"
  "decoder_view (native_reset_rgba_owner app) = decoder_view app"
  "decoder_view (close_canvas sdl c app) = decoder_view app" "canvas_view (close_canvas sdl c app) = canvas_view app"
  by (simp_all add: native_clear_hub_return_replacement_def native_arm_hub_return_replacement_locked_def
      native_reset_rgba_owner_def close_canvas_def decoder_view_def canvas_view_def split: option.split)

section \<open>Canvases\<close>

lemma canvas_ok_None [simp]: "canvas_ok owner epoch None"
  by (simp add: canvas_ok_def)

lemma take_texture_ok: "canvas_ok ow e (Some (snd (native_rgba_surface_take_texture s))) = canvas_ok ow e (Some s)"
  by (simp add: native_rgba_surface_take_texture_def canvas_ok_def surface_wf_def Let_def split: option.split)

lemma defer_views:
  "decoder_view (native_defer_rgba_texture_destroy app) = decoder_view app"
  "canvases_ok (native_defer_rgba_texture_destroy app) = canvases_ok app"
proof -
  show "decoder_view (native_defer_rgba_texture_destroy app) = decoder_view app"
    by (simp add: native_defer_rgba_texture_destroy_def split: option.split prod.split)
  show "canvases_ok (native_defer_rgba_texture_destroy app) = canvases_ok app"
  proof (cases "ap_rgba app")
    case (Some s)
    then show ?thesis using take_texture_ok [of "ap_rgba_owner_slot app" "ap_rgba_owner_epoch app" s]
      by (auto simp: native_defer_rgba_texture_destroy_def canvases_ok_def split: option.split prod.split)
  qed (simp add: native_defer_rgba_texture_destroy_def)
qed

lemma hub_simps [simp]:
  "ap_hub_return_rgba (native_defer_rgba_texture_destroy app) = ap_hub_return_rgba app"
  "ap_hub_return_rgba_owner_slot (native_defer_rgba_texture_destroy app) = ap_hub_return_rgba_owner_slot app"
  "ap_hub_return_rgba_owner_epoch (native_defer_rgba_texture_destroy app) = ap_hub_return_rgba_owner_epoch app"
  "ap_hub_return_rgba (close_canvas sdl c app) = ap_hub_return_rgba app"
  "ap_hub_return_rgba_owner_slot (close_canvas sdl c app) = ap_hub_return_rgba_owner_slot app"
  "ap_hub_return_rgba_owner_epoch (close_canvas sdl c app) = ap_hub_return_rgba_owner_epoch app"
  by (simp_all add: native_defer_rgba_texture_destroy_def close_canvas_def split: option.split prod.split)

lemma close_rgba:
  "decoder_view (native_close_rgba_locked sdl d app) = decoder_view app"
  "canvases_ok app \<Longrightarrow> canvases_ok (native_close_rgba_locked sdl d app)"
  "ap_rgba (native_close_rgba_locked sdl d app) = None"
  "ap_hub_return_rgba (native_close_rgba_locked sdl d app) = ap_hub_return_rgba app"
  "ap_hub_return_rgba_owner_slot (native_close_rgba_locked sdl d app) = ap_hub_return_rgba_owner_slot app"
  "ap_hub_return_rgba_owner_epoch (native_close_rgba_locked sdl d app) = ap_hub_return_rgba_owner_epoch app"
  by (simp_all add: native_close_rgba_locked_def Let_def defer_views canvases_ok_def native_reset_rgba_owner_def)


lemma canvas_views_close_hub:
  "decoder_view (native_close_hub_return_rgba_locked app) = decoder_view app"
  "canvases_ok app \<Longrightarrow> canvases_ok (native_close_hub_return_rgba_locked app)"
proof -
  show "decoder_view (native_close_hub_return_rgba_locked app) = decoder_view app"
    by (simp add: native_close_hub_return_rgba_locked_def Let_def)
  have v: "canvases_ok (native_clear_hub_return_replacement a) = canvases_ok a" for a
    by (rule canvas_view_ok) simp
  show "canvases_ok app \<Longrightarrow> canvases_ok (native_close_hub_return_rgba_locked app)"
    unfolding native_close_hub_return_rgba_locked_def Let_def v
    by (simp add: canvases_ok_def close_canvas_def split: option.split)
qed

lemma capture_hub:
  "decoder_view (native_capture_hub_return_rgba_locked app) = decoder_view app"
  "canvases_ok app \<Longrightarrow> canvases_ok (native_capture_hub_return_rgba_locked app)"
proof -
  show "decoder_view (native_capture_hub_return_rgba_locked app) = decoder_view app"
    by (simp add: native_capture_hub_return_rgba_locked_def Let_def)
  show "canvases_ok app \<Longrightarrow> canvases_ok (native_capture_hub_return_rgba_locked app)"
    by (simp add: native_capture_hub_return_rgba_locked_def Let_def canvases_ok_def native_clear_hub_return_replacement_def native_reset_rgba_owner_def)
qed

lemma promote_hub:
  "decoder_view (snd (native_promote_hub_return_rgba_locked sdl i e app)) = decoder_view app"
  "canvases_ok app \<Longrightarrow> canvases_ok (snd (native_promote_hub_return_rgba_locked sdl i e app))"
proof -
  show "decoder_view (snd (native_promote_hub_return_rgba_locked sdl i e app)) = decoder_view app"
    by (simp add: native_promote_hub_return_rgba_locked_def Let_def close_rgba)
  show "canvases_ok app \<Longrightarrow> canvases_ok (snd (native_promote_hub_return_rgba_locked sdl i e app))"
    by (auto simp: native_promote_hub_return_rgba_locked_def Let_def canvases_ok_def native_clear_hub_return_replacement_def close_rgba)
qed

text \<open>Both halves together, for the monitor that starts in \<open>m\<close>.\<close>

definition video_inv :: "Monitor \<Rightarrow> App \<Rightarrow> bool" where
  "video_inv m app \<longleftrightarrow> decoder_ok m app \<and> canvases_ok app"

lemma video_inv_view:
  "decoder_view a = decoder_view b \<Longrightarrow> canvas_view a = canvas_view b \<Longrightarrow> video_inv m a = video_inv m b"
  using decoder_view_ok canvas_view_ok unfolding video_inv_def by blast

lemma video_inv_canvas:
  "video_inv m app \<Longrightarrow> decoder_view app' = decoder_view app \<Longrightarrow> canvases_ok app' \<Longrightarrow> video_inv m app'"
  using decoder_view_ok unfolding video_inv_def by blast

section \<open>Handing over\<close>

lemma activate_inv:
  assumes "video_inv m app" "i < NATIVE_SETTINGS_MAX_SESSIONS"
  shows "video_inv m (native_present_invalidate (log_event (Activate i) app\<lparr>ap_active_index := i\<rparr>))"
    "video_inv m (native_present_invalidate (log_event (Activate i) app\<lparr>ap_active_index := i, ap_video_refresh_needed := b\<rparr>))"
  using assms
  by (auto simp: video_inv_def decoder_ok_def canvases_ok_def native_present_invalidate_def log_event_def seen_def)

lemma handoff_inv:
  assumes "video_inv m app" "target < NATIVE_SETTINGS_MAX_SESSIONS"
  shows "video_inv m (handoff_locked target app)"
proof -
  define a where "a = (if ss_snapshot_pending (slot target app)
    then put_slot target ((slot target app)\<lparr>ss_snapshot_pending := False,
      ss_snapshot := native_au_snapshot_reset (ss_snapshot (slot target app)), ss_snapshot_idr_ready := False\<rparr>) app else app)"
  have a: "video_inv m a"
    using assms(1) video_inv_view [of a app] decoder_put_slot by (simp add: a_def)
  define b where "b = (if ap_hub_return_rgba a \<noteq> None \<and> ap_hub_return_rgba_owner_slot a = int target
    then (case native_promote_hub_return_rgba_locked True target (ss_connect_epoch (slot target a)) a of
        (True, a) \<Rightarrow> a
      | (False, a') \<Rightarrow> native_arm_hub_return_replacement_locked target (ss_connect_epoch (slot target a))
          (ss_video_ok_frames (slot target a')) (native_close_rgba_locked True False a'))
    else let a = native_close_rgba_locked True False a in
      if ap_hub_return_rgba a \<noteq> None then native_close_hub_return_rgba_locked a else a)"
  have arm: "video_inv m (native_arm_hub_return_replacement_locked target e n app') = video_inv m app'" for e n app'
    by (rule video_inv_view) simp_all
  have closed: "video_inv m (native_close_rgba_locked True False a)"
    using video_inv_canvas [OF a] close_rgba a by (simp add: video_inv_def)
  have "video_inv m b"
  proof (cases "ap_hub_return_rgba a \<noteq> None \<and> ap_hub_return_rgba_owner_slot a = int target")
    case True
    let ?p = "native_promote_hub_return_rgba_locked True target (ss_connect_epoch (slot target a)) a"
    have "video_inv m (snd ?p)" using video_inv_canvas [OF a] promote_hub a by (simp add: video_inv_def)
    moreover have "\<not> fst ?p \<Longrightarrow> snd ?p = a"
      by (auto simp: native_promote_hub_return_rgba_locked_def Let_def)
    ultimately show ?thesis using True closed by (auto simp: b_def arm split: prod.split bool.split)
  next
    case False
    then show ?thesis
      using closed video_inv_canvas [OF closed canvas_views_close_hub(1)] canvas_views_close_hub(2)
      by (auto simp: b_def Let_def video_inv_def)
  qed
  moreover have "handoff_locked target app =
      native_present_invalidate (log_event (Activate target) b\<lparr>ap_active_index := target, ap_video_refresh_needed := False\<rparr>)"
    unfolding handoff_locked_def Let_def b_def a_def by (rule refl)
  ultimately show ?thesis using activate_inv(2) [OF _ assms(2)] by simp
qed

lemma configurator_inv:
  assumes "video_inv m app" "target < NATIVE_SETTINGS_MAX_SESSIONS"
  shows "video_inv m (configurator_locked target app)"
proof -
  have "video_inv m (native_capture_hub_return_rgba_locked app)"
    using video_inv_canvas [OF assms(1)] capture_hub assms(1) by (simp add: video_inv_def)
  from video_inv_canvas [OF this] close_rgba this
  have "video_inv m (native_close_rgba_locked True False (native_capture_hub_return_rgba_locked app))"
    by (simp add: video_inv_def)
  then show ?thesis unfolding configurator_locked_def Let_def by (rule activate_inv(1) [OF _ assms(2)])
qed

lemma connect_locked_inv:
  assumes "video_inv m app" "i < NATIVE_SETTINGS_MAX_SESSIONS"
  shows "video_inv m (connect_locked hub i app)"
proof -
  define a where "a = (if hub then native_capture_hub_return_rgba_locked app else app)"
  have a: "video_inv m a"
    using video_inv_canvas [OF assms(1)] capture_hub assms(1) by (simp add: a_def video_inv_def)
  define b where "b = (if ap_hub_return_rgba a \<noteq> None
    then native_arm_hub_return_replacement_locked i (ss_connect_epoch (slot i a) + 1) (ss_video_ok_frames (slot i a)) a else a)"
  have b: "video_inv m b" using a video_inv_view [of b a] by (simp add: b_def)
  from video_inv_canvas [OF this] close_rgba this have "video_inv m (native_close_rgba_locked True False b)"
    by (simp add: video_inv_def)
  then show ?thesis unfolding connect_locked_def Let_def a_def [symmetric] b_def [symmetric]
    by (rule activate_inv(2) [OF _ assms(2)])
qed


section \<open>Drawing\<close>

lemma render_surface:
  assumes "native_rgba_surface_render create update copy r s tx = (result, s', tx')"
  shows "canvas_ok ow e (Some s') = canvas_ok ow e (Some s)" "rs_writers s' = rs_writers s"
proof -
  have f: "rs_width s' = rs_width s" "rs_height s' = rs_height s" "rs_pixels s' = rs_pixels s"
      "rs_has_frame s' = rs_has_frame s" "rs_writers s' = rs_writers s"
    using assms by (auto simp: native_rgba_surface_render_def native_rgba_ensure_texture_def native_rgba_drop_texture_def
        Let_def split: if_splits prod.splits)
  show "canvas_ok ow e (Some s') = canvas_ok ow e (Some s)" unfolding canvas_ok_def option.case surface_wf_def f ..
  show "rs_writers s' = rs_writers s" by (rule f)
qed

lemma same_writers: "set ws \<subseteq> {x} \<Longrightarrow> list_all (\<lambda>w. w = ws ! 0) ws"
  by (cases ws) (auto simp: list_all_iff)

lemma draw_event_inv:
  assumes "video_inv m app" "canvas_ok ow e (Some s)"
    and "frozen \<or> ow = int (ap_active_index app) \<and> e = ss_connect_epoch (slot (ap_active_index app) app)"
  shows "video_inv m (log_event (DrawCanvas (rs_writers s) frozen (ap_active_index app)
    (ss_connect_epoch (slot (ap_active_index app) app))) (native_present_invalidate app))"
proof -
  have w: "set (rs_writers s) \<subseteq> {(nat ow, e)}" using assms(2) by (simp add: canvas_ok_def)
  have "map ss_connect_epoch (ap_sessions app) ! ap_active_index app = ss_connect_epoch (slot (ap_active_index app) app)"
    using assms(1) by (simp add: video_inv_def decoder_ok_def slot_def)
  then show ?thesis
    using assms w same_writers [OF w]
    by (auto simp: video_inv_def decoder_ok_def canvases_ok_def log_event_def native_present_invalidate_def seen_def
        list_all_iff)
qed

lemma draw_canvas_inv:
  assumes inv: "video_inv m app"
    and surface: "surface = (if drawing then ap_hub_return_rgba app else if active_rgba_ready app then ap_rgba app else None)"
    and draw: "draw_canvas create update copy r drawing surface app = (status, failed, drawing', app')"
  shows "video_inv m app'"
proof (cases "surface = None \<or> \<not> rs_has_frame (the surface)")
  case True
  then show ?thesis using draw inv by (auto simp: draw_canvas_def split: option.splits)
next
  case False
  then obtain s where s: "surface = Some s" "rs_has_frame s" by auto
  obtain result s' tx where r: "native_rgba_surface_render create update copy r s (ap_textures app) = (result, s', tx)"
    by (cases "native_rgba_surface_render create update copy r s (ap_textures app)")
  define a where "a = (if drawing then app\<lparr>ap_hub_return_rgba := Some s', ap_textures := tx\<rparr>
    else app\<lparr>ap_rgba := Some s', ap_textures := tx\<rparr>)"
  have ok: "canvas_ok ow e (Some s') = canvas_ok ow e (Some s)" for ow e by (rule render_surface(1) [OF r])
  have a: "video_inv m a"
    using video_inv_canvas [OF inv, of a] inv surface s(1) ok
    by (auto simp: a_def video_inv_def canvases_ok_def split: if_splits)
  have idx: "ap_active_index a = ap_active_index app" "slot i a = slot i app" for i
    by (simp_all add: a_def slot_def)
  have own: "\<exists>ow e. canvas_ok ow e (Some s') \<and> (drawing \<or> ow = int (ap_active_index app) \<and>
      e = ss_connect_epoch (slot (ap_active_index app) app))"
  proof (cases drawing)
    case True
    then show ?thesis using inv surface s(1) ok by (auto simp: video_inv_def canvases_ok_def)
  next
    case False
    then have "active_rgba_ready app" "ap_rgba app = Some s" using surface s(1) by (auto split: if_splits)
    then show ?thesis using inv ok
      by (auto simp: video_inv_def canvases_ok_def active_rgba_ready_def native_rgba_owner_matches_def)
  qed
  then have "video_inv m (log_event (DrawCanvas (rs_writers s') drawing (ap_active_index a)
      (ss_connect_epoch (slot (ap_active_index a) a))) (native_present_invalidate a))"
    using draw_event_inv [OF a] idx by auto
  moreover have "video_inv m (native_close_hub_return_rgba_locked a)"
    using video_inv_canvas [OF a canvas_views_close_hub(1)] canvas_views_close_hub(2) a by (simp add: video_inv_def)
  ultimately show ?thesis
    using draw s r a unfolding draw_canvas_def a_def by (auto simp: Let_def idx slot_def split: if_splits)
qed

lemma draw_locked_inv:
  assumes "video_inv m app"
  shows "video_inv m (snd (snd (draw_rgba_locked create update copy r app)))"
proof -
  define a where "a = (destroy_texture (ap_pending_texture_destroy app) app)\<lparr>ap_pending_texture_destroy := None\<rparr>"
  have a: "video_inv m a" using assms video_inv_view [of a app] by (simp add: a_def)
  let ?d = "ap_hub_return_rgba a \<noteq> None \<and> \<not> replacement_ready a"
  let ?s = "if ?d then ap_hub_return_rgba a else if active_rgba_ready a then ap_rgba a else None"
  obtain status failed d' b where b: "draw_canvas create update copy r ?d ?s a = (status, failed, d', b)"
    by (cases "draw_canvas create update copy r ?d ?s a")
  have inv: "video_inv m b" by (rule draw_canvas_inv [OF a refl b])
  have "video_inv m (native_close_hub_return_rgba_locked b)"
    using video_inv_canvas [OF inv canvas_views_close_hub(1)] canvas_views_close_hub(2) inv by (simp add: video_inv_def)
  with inv b show ?thesis unfolding draw_rgba_locked_def Let_def a_def [symmetric] by simp
qed

lemma draw_inv:
  assumes "video_inv m app"
  shows "video_inv m (snd (native_draw_rgba_frame create update copy r app))"
proof -
  obtain status failed a where a: "draw_rgba_locked create update copy r app = (status, failed, a)"
    by (cases "draw_rgba_locked create update copy r app")
  then have inv: "video_inv m a" using draw_locked_inv [OF assms, of create update copy r] by simp
  have "video_inv m (native_slot_report_terminal i st code (a\<lparr>ap_decoder_errors := n\<rparr>)) = video_inv m a" for i st code n
    unfolding native_slot_report_terminal_def
    by (rule video_inv_view; simp only: terminal_views) (simp_all add: decoder_view_def canvas_view_def)
  then show ?thesis using a inv by (simp add: native_draw_rgba_frame_def)
qed

section \<open>Bitmap updates\<close>

lemma put_slot_inv: "ss_connect_epoch s = ss_connect_epoch (slot i app) \<Longrightarrow> video_inv m (put_slot i s app) = video_inv m app"
  by (rule video_inv_view) (simp_all add: decoder_put_slot)

lemma decoder_error_inv [simp]: "video_inv m (decoder_error i app) = video_inv m app"
  by (rule video_inv_view) simp_all

lemma path_switch_inv: "native_note_graphics_path_switch i app = (b, app') \<Longrightarrow> video_inv m app' = video_inv m app"
  using video_inv_view [of "snd (native_note_graphics_path_switch i app)" app m] path_switch_views [of i app] by simp

lemma close_video_inv: "video_inv m app \<Longrightarrow> ap_video app \<noteq> None \<Longrightarrow> video_inv m (close_video app)"
  by (simp add: video_inv_def decoder_ok_def canvases_ok_def close_video_def log_event_def seen_def)

lemma close_video_canvas [simp]: "canvas_view (close_video app) = canvas_view app"
  by (simp add: close_video_def canvas_view_def log_event_def)

lemma leave_video_inv:
  assumes "video_inv m app" "leave_video va i e app = (go, app')"
  shows "video_inv m app'" "canvas_view app' = canvas_view app"
proof -
  have "video_inv m app' \<and> canvas_view app' = canvas_view app"
  proof (cases "ap_video app")
    case None
    then show ?thesis using assms by (auto simp: leave_video_def)
  next
    case (Some v)
    have closed: "video_inv m (close_video app)" using close_video_inv assms(1) Some by simp
    have held: "video_inv m (put_slot i ((slot i app)\<lparr>ss_video_via_bitmap := False\<rparr>) (app\<lparr>ap_tiles_dropped_under_video := n\<rparr>))"
      "canvas_view (app\<lparr>ap_tiles_dropped_under_video := n\<rparr>) = canvas_view app" for n
    proof -
      show v: "canvas_view (app\<lparr>ap_tiles_dropped_under_video := n\<rparr>) = canvas_view app" by (simp add: canvas_view_def)
      have "video_inv m (app\<lparr>ap_tiles_dropped_under_video := n\<rparr>) = video_inv m app"
        by (rule video_inv_view [OF _ v]) (simp add: decoder_view_def)
      then show "video_inv m (put_slot i ((slot i app)\<lparr>ss_video_via_bitmap := False\<rparr>) (app\<lparr>ap_tiles_dropped_under_video := n\<rparr>))"
        using assms(1) by (subst put_slot_inv) simp_all
    qed
    obtain b a where n: "native_note_graphics_path_switch i (close_video app) = (b, a)" by fastforce
    have "video_inv m a" using path_switch_inv [OF n] closed by simp
    moreover have "canvas_view a = canvas_view app" using path_switch_views(1) [of i "close_video app"] n by simp
    ultimately show ?thesis
      using assms(2) Some closed held n by (auto simp: leave_video_def Let_def split: if_splits)
  qed
  then show "video_inv m app'" "canvas_view app' = canvas_view app" by simp_all
qed

text \<open>The canvas belongs to the connection, if there is one.\<close>

definition canvas_of :: "nat \<Rightarrow> u32 \<Rightarrow> App \<Rightarrow> bool" where
  "canvas_of i e app \<longleftrightarrow> ap_rgba app = None \<or> ap_rgba_owner_slot app = int i \<and> ap_rgba_owner_epoch app = e"

lemma canvas_of_view: "canvas_view a = canvas_view b \<Longrightarrow> canvas_of i e a = canvas_of i e b"
  by (simp add: canvas_view_def canvas_of_def)

lemma open_surface_ok:
  assumes "fst (native_rgba_surface_open n a b c w h tx) = Some s"
  shows "canvas_ok (int i) e (Some s)"
proof -
  have "rs_writers s = []"
    using assms by (auto simp: native_rgba_surface_open_def native_rgba_surface_resize_def surface_zero_def Let_def
        split: option.splits if_splits)
  then show ?thesis using open_wf [OF assms] by (simp add: canvas_ok_def)
qed

lemma resize_surface_ok:
  assumes "native_rgba_surface_resize n a sdl w h s tx = (NATIVE_RGBA_OK, s', tx')" "canvas_ok ow e (Some s)"
  shows "canvas_ok ow e (Some s')"
proof -
  have "surface_wf s'" using resize_wf [of s n a sdl w h tx] assms by (simp add: canvas_ok_def)
  then show ?thesis using assms
    by (auto simp: canvas_ok_def native_rgba_surface_resize_def Let_def split: option.splits if_splits)
qed

lemma prepare_canvas_inv:
  assumes "video_inv m app" "canvas_of i e app"
  shows "video_inv m (prepare_canvas va i e app)" "canvas_of i e (prepare_canvas va i e app)"
proof -
  let ?w = "ucast (ss_desktop_width (slot i app)) :: u16" and ?h = "ucast (ss_desktop_height (slot i app)) :: u16"
  have "video_inv m (prepare_canvas va i e app) \<and> canvas_of i e (prepare_canvas va i e app)"
  proof (cases "ap_rgba app")
    case None
    obtain c tx where o: "native_rgba_surface_open (va_size_max va) (va_alloc_surface va) (va_alloc_pixels va) False ?w ?h
        (ap_textures app) = (c, tx)" by fastforce
    show ?thesis
    proof (cases c)
      case None
      have "video_inv m (app\<lparr>ap_textures := tx\<rparr>) = video_inv m app" by (rule video_inv_view) simp_all
      then show ?thesis using \<open>ap_rgba app = None\<close> None o assms by (simp add: prepare_canvas_def canvas_of_def)
    next
      case (Some s)
      define a where "a = app\<lparr>ap_rgba := Some s, ap_textures := tx, ap_rgba_owner_slot := int i, ap_rgba_owner_epoch := e\<rparr>"
      have "fst (native_rgba_surface_open (va_size_max va) (va_alloc_surface va) (va_alloc_pixels va) False ?w ?h (ap_textures app)) = Some s"
        using o Some by simp
      then have "canvas_ok (int i) e (Some s)" by (rule open_surface_ok)
      then have "video_inv m a"
        using video_inv_canvas [OF assms(1), of a] assms(1) by (simp add: a_def video_inv_def canvases_ok_def)
      then show ?thesis using \<open>ap_rgba app = None\<close> Some o by (simp add: prepare_canvas_def canvas_of_def a_def)
    qed
  next
    case (Some s)
    show ?thesis
    proof (cases "rs_width s \<noteq> ?w \<or> rs_height s \<noteq> ?h")
      case False
      then show ?thesis using Some assms by (simp add: prepare_canvas_def Let_def)
    next
      case True
      define d where "d = native_defer_rgba_texture_destroy app"
      have d: "video_inv m d" using video_inv_canvas [OF assms(1) defer_views(1)] defer_views(2) assms(1)
        by (simp add: d_def video_inv_def)
      have "ap_rgba d \<noteq> None"
        using Some by (simp add: d_def native_defer_rgba_texture_destroy_def split: option.split prod.split)
      then obtain s' where s': "ap_rgba d = Some s'" by blast
      have own: "ap_rgba_owner_slot d = ap_rgba_owner_slot app" "ap_rgba_owner_epoch d = ap_rgba_owner_epoch app"
        using Some by (simp_all add: d_def native_defer_rgba_texture_destroy_def split: option.split prod.split)
      obtain result s'' tx where r: "native_rgba_surface_resize (va_size_max va) (va_alloc_pixels va) False ?w ?h s' (ap_textures d) =
          (result, s'', tx)" using prod_cases3 by blast
      define f where "f = native_reset_rgba_owner (d\<lparr>ap_rgba := None, ap_textures := native_rgba_surface_close False s'' tx\<rparr>)"
      define g where "g = d\<lparr>ap_rgba := Some s'', ap_textures := tx\<rparr>"
      have p: "prepare_canvas va i e app = (if result \<noteq> NATIVE_RGBA_OK then f else g)"
        using Some True r s' by (simp add: prepare_canvas_def Let_def d_def [symmetric] f_def g_def)
      have "video_inv m f" "canvas_of i e f"
        using video_inv_canvas [OF d, of f] d by (simp_all add: f_def video_inv_def canvases_ok_def canvas_of_def native_reset_rgba_owner_def)
      moreover have "video_inv m g" if "result = NATIVE_RGBA_OK"
        using video_inv_canvas [OF d, of g] d s' resize_surface_ok r that
        by (auto simp: g_def video_inv_def canvases_ok_def)
      moreover have "canvas_of i e g" using assms(2) Some own by (simp add: g_def canvas_of_def)
      ultimately show ?thesis using p by auto
    qed
  qed
  then show "video_inv m (prepare_canvas va i e app)" "canvas_of i e (prepare_canvas va i e app)" by simp_all
qed

text \<open>What the Rust side promises of a bitmap's buffer, and the platform's \<open>size_t\<close>.\<close>

definition buffer_ok :: "nat \<Rightarrow> bytes option \<Rightarrow> nat \<Rightarrow> bool" where
  "buffer_ok size_max rgba len \<longleftrightarrow> 2 ^ 32 - 1 \<le> size_max \<and> len \<le> size_max \<and> len < 2 ^ 33 \<and>
     (case rgba of None \<Rightarrow> True | Some data \<Rightarrow> len \<le> length data)"

lemma apply_update_inv:
  assumes inv: "video_inv m app" "canvas_of i e app" and buf: "buffer_ok (va_size_max va) rgba len"
  shows "\<exists>result app'. apply_update va i e left ytop width height stride rgba len app = Some (result, app') \<and> video_inv m app'"
proof (cases "ap_rgba app")
  case None
  then show ?thesis using inv by (simp add: apply_update_def)
next
  case (Some s)
  have s: "surface_wf s" "rs_pixels s \<noteq> None" "set (rs_writers s) \<subseteq> {(i, e)}"
    using inv Some by (auto simp: video_inv_def canvases_ok_def canvas_ok_def canvas_of_def)
  have ap: "\<exists>result s'. native_rgba_surface_apply (va_size_max va) left ytop width height stride rgba len s = Some (result, s') \<and>
      surface_wf s' \<and> rs_pixels s' \<noteq> None \<and> rs_writers s' = rs_writers s"
  proof (cases rgba)
    case None
    then show ?thesis using s by (auto simp: native_rgba_surface_apply_def)
  next
    case (Some data)
    then have b: "len \<le> length data" "len \<le> va_size_max va" "len < 2 ^ 33" "2 ^ 32 - 1 \<le> va_size_max va"
      using buf by (auto simp: buffer_ok_def)
    obtain px where px: "rs_pixels s = Some px" using s(2) by blast
    from apply_clipped [OF s(1,2) b] obtain result s' where
      r: "native_rgba_surface_apply (va_size_max va) left ytop width height stride (Some data) len s = Some (result, s')" "surface_wf s'"
      by blast
    have "rs_pixels s' \<noteq> None \<and> rs_writers s' = rs_writers s"
      using r(1) apply_cases [OF px b(2,4), of left ytop width height stride data] px by (auto split: if_splits)
    then show ?thesis using r Some by blast
  qed
  then obtain result s' where r: "native_rgba_surface_apply (va_size_max va) left ytop width height stride rgba len s = Some (result, s')"
    "surface_wf s'" "rs_pixels s' \<noteq> None" "rs_writers s' = rs_writers s" by blast
  define a where "a = app\<lparr>ap_rgba := Some (s'\<lparr>rs_writers := rs_writers s' @ [(i, e)]\<rparr>)\<rparr>"
  have "video_inv m a"
    using video_inv_canvas [OF inv(1), of a] inv Some s(3) r(2-4)
    by (auto simp: a_def video_inv_def canvases_ok_def canvas_ok_def canvas_of_def surface_wf_def)
  then show ?thesis using Some r(1) by (simp add: apply_update_def a_def)
qed

lemma bitmap_inv:
  assumes inv: "video_inv m app" and buf: "buffer_ok (va_size_max va) rgba len"
  shows "\<exists>app'. on_bitmap_update va i left ytop width height stride rgba len app = Some app' \<and> video_inv m app'"
proof -
  let ?s = "slot i app"
  define recent where "recent = (ss_video_seen ?s \<and> ss_video_epoch ?s = ss_connect_epoch ?s \<and>
    va_now_ms va - ss_video_last_au_ms ?s < NATIVE_VIDEO_PATH_HOLD_MS)"
  define a where "a = put_slot i (?s\<lparr>ss_video_via_bitmap := True\<rparr>) app"
  define e where "e = ss_connect_epoch (slot i a)"
  define b where "b = (if ap_rgba a \<noteq> None \<and> \<not> native_rgba_owner_matches a i e then native_close_rgba_locked False True a else a)"
  obtain go c where c: "leave_video va i e b = (go, c)" by fastforce
  have skip: "video_inv m (put_slot i (?s\<lparr>ss_video_via_bitmap := v\<rparr>) app)" for v using inv by (simp add: put_slot_inv)
  have a: "video_inv m a" unfolding a_def by (rule skip)
  have b: "video_inv m b" "canvas_of i e b"
    using a video_inv_canvas [OF a close_rgba(1)] close_rgba
    by (auto simp: b_def video_inv_def canvas_of_def native_rgba_owner_matches_def)
  note c' = leave_video_inv [OF b(1) c]
  have "canvas_of i e c" using canvas_of_view [OF c'(2)] b(2) by simp
  note d = prepare_canvas_inv [OF c'(1) this, of va]
  obtain result f where f: "apply_update va i e left ytop width height stride rgba len (prepare_canvas va i e c) = Some (result, f)"
    "video_inv m f" using apply_update_inv [OF d buf] by blast
  have fin: "video_inv m (put_slot i ((slot i f)\<lparr>ss_video_ok_frames := n\<rparr>) f)" for n using f(2) by (simp add: put_slot_inv)
  have run: "on_bitmap_update va i left ytop width height stride rgba len app =
    (if \<not> native_slot_is_active i app \<or> as_armed (ss_snapshot ?s) \<and> recent
     then Some (put_slot i (?s\<lparr>ss_video_via_bitmap := \<not> recent\<rparr>) app)
     else if rgba = None \<or> len = 0 \<or> width = 0 \<or> height = 0 then Some (decoder_error i a)
     else if \<not> go then Some c
     else if result = NATIVE_RGBA_OK
     then Some (put_slot i ((slot i f)\<lparr>ss_video_ok_frames := ss_video_ok_frames (slot i f) + 1\<rparr>) f)
     else Some (decoder_error i f))"
    unfolding on_bitmap_update_def Let_def recent_def [symmetric] a_def [symmetric] e_def [symmetric] b_def [symmetric] c
    by (cases go; cases result) (simp_all add: f)
  show ?thesis unfolding run using skip a c'(1) f(2) fin by auto
qed

end
