(* ===== verification/Video_Monitor.thy ===== *)
theory Video_Monitor
  imports Video_Safety
begin

text \<open>
  The second half of the video path: access units into the shared decoder, the start and the end of
  connections, and all operations interleaved.
\<close>

section \<open>Compressed video\<close>

text \<open>The decoder is the connection's own; \<open>fresh\<close>, it was taken over with this access unit.\<close>

definition owned :: "Monitor \<Rightarrow> nat \<Rightarrow> bool \<Rightarrow> App \<Rightarrow> bool" where
  "owned m i fresh app \<longleftrightarrow> i = ap_active_index app \<and> ap_video app \<noteq> None \<and> ap_video_owner_slot app = int i \<and>
     ap_video_owner_epoch app = ss_connect_epoch (slot i app) \<and>
     monitor_all m (ap_log app) = Some ((seen app)\<lparr>mo_decoder := Some (i, ss_connect_epoch (slot i app), fresh)\<rparr>) \<and>
     length (ap_sessions app) = NATIVE_SETTINGS_MAX_SESSIONS \<and> i < NATIVE_SETTINGS_MAX_SESSIONS \<and> canvases_ok app"

lemma owned_inv:
  assumes "video_inv m app" "i = ap_active_index app" "ap_video app \<noteq> None" "ap_video_owner_slot app = int i"
    "ap_video_owner_epoch app = ss_connect_epoch (slot i app)"
  shows "owned m i False app"
  using assms by (simp add: owned_def video_inv_def decoder_ok_def seen_def)

lemma feed_event_inv:
  assumes "owned m i fresh app" "fresh \<longrightarrow> seed"
  shows "video_inv m (log_event (FeedVideo i (ss_connect_epoch (slot i app)) seed)
    (app\<lparr>ap_video_last_feed_ms := t, ap_video_feed_started := True\<rparr>))"
proof -
  have "map ss_connect_epoch (ap_sessions app) ! i = ss_connect_epoch (slot i app)"
    using assms(1) by (simp add: owned_def slot_def)
  then show ?thesis using assms
    by (auto simp: owned_def video_inv_def decoder_ok_def canvases_ok_def log_event_def seen_def)
qed

lemma feed_inv:
  assumes "owned m i fresh app" "fresh \<longrightarrow> seed"
  shows "video_inv m (feed_decoder va i au seed app)"
proof -
  define a where "a = log_event (FeedVideo i (ss_connect_epoch (slot i app)) seed)
    (app\<lparr>ap_video_last_feed_ms := va_now_ms va, ap_video_feed_started := True\<rparr>)"
  have a: "video_inv m a" unfolding a_def by (rule feed_event_inv [OF assms])
  have k: "video_inv m (a\<lparr>ap_decoder_keyframe_pending := b\<rparr>)" "video_inv m (a\<lparr>ap_decoder_keyframe_pending := b, ap_video_refresh_needed := c\<rparr>)"
    for b c using a by (simp_all add: video_inv_def decoder_ok_def canvases_ok_def seen_def)
  have n: "video_inv m (native_note_video_frame l t (put_slot i ((slot i a)\<lparr>ss_video_ok_frames := f\<rparr>)
      (a\<lparr>ap_decoder_keyframe_pending := False\<rparr>)))" for l t f
  proof -
    have "video_inv m (put_slot i ((slot i a)\<lparr>ss_video_ok_frames := f\<rparr>) (a\<lparr>ap_decoder_keyframe_pending := False\<rparr>))"
      using k(1) by (simp add: put_slot_inv)
    then show ?thesis using video_inv_view [OF note_frame_views(2,1)] by blast
  qed
  show ?thesis unfolding feed_decoder_def Let_def a_def [symmetric]
    using a k n by (cases "va_feed va") simp_all
qed

lemma take_decoder_inv:
  assumes inv: "video_inv m app" and act: "i = ap_active_index app" and go: "take_decoder i seed w h app = (go, app')"
  shows "(ap_video app' = None \<or> \<not> go \<longrightarrow> video_inv m app') \<and> ap_active_index app' = i \<and>
    (go \<and> ap_video app' \<noteq> None \<longrightarrow> (video_inv m app' \<and> owned m i False app') \<or>
       seed \<and> owned m i True app' \<and> nv_width (video_of app') = w \<and> nv_height (video_of app') = h)"
proof -
  let ?s = "slot i app"
  have i: "i < length (ap_sessions app)" using inv act by (simp add: video_inv_def decoder_ok_def)
  show ?thesis
  proof (cases "ap_video app \<noteq> None \<and> (ap_video_owner_slot app \<noteq> int i \<or> ap_video_owner_epoch app \<noteq> ss_connect_epoch ?s \<or>
      nv_codec (video_of app) \<noteq> ss_video_codec ?s)")
    case False
    then have "go" "app' = app" using go by (auto simp: take_decoder_def)
    then show ?thesis using False inv act owned_inv [OF inv act] by auto
  next
    case True
    show ?thesis
    proof (cases seed)
      case False
      then have "\<not> go" "app' = put_slot i (?s\<lparr>ss_keyframe_wait_drops := ss_keyframe_wait_drops ?s + 1\<rparr>) app"
        using go True by (auto simp: take_decoder_def Let_def)
      then show ?thesis using inv act by (simp add: put_slot_inv)
    next
      case seed: True
      define a where "a = put_slot i (?s\<lparr>ss_keyframe_wait_drops := 0\<rparr>) app"
      have a0: "video_inv m a" unfolding a_def using inv by (subst put_slot_inv) simp_all
      have a1: "ap_active_index a = i" "ap_video a = ap_video app" "slot i a = ?s\<lparr>ss_keyframe_wait_drops := 0\<rparr>"
        "video_of a = video_of app"
        using act i by (simp_all add: a_def put_slot_def slot_def video_of_def)
      note a = a0 a1
      show ?thesis
      proof (cases "w = nv_width (video_of a) \<and> h = nv_height (video_of a) \<and> ss_video_codec ?s = nv_codec (video_of a)")
        case False
        then have "app' = close_video a" using go True seed by (auto simp: take_decoder_def Let_def a_def)
        then show ?thesis using close_video_inv [OF a(1)] a(2,3) True by (simp add: close_video_def log_event_def)
      next
        case dims: True
        define b where "b = log_event (HandVideo i (ss_connect_epoch ?s)) (a\<lparr>ap_video_owner_slot := int i,
          ap_video_owner_epoch := ss_connect_epoch ?s, ap_decoder_keyframe_pending := False\<rparr>)"
        have "go" "app' = b" using go True seed dims by (auto simp: take_decoder_def Let_def a_def b_def)
        moreover have "owned m i True b"
          using a True act i
          by (auto simp: b_def owned_def video_inv_def decoder_ok_def canvases_ok_def log_event_def seen_def slot_def)
        moreover have "ap_video b = ap_video a" "ap_active_index b = i" "video_of b = video_of a" "ap_video a \<noteq> None"
          using a True by (simp_all add: b_def log_event_def video_of_def)
        ultimately show ?thesis using seed dims by auto
      qed
    qed
  qed
qed

lemma open_inv:
  assumes "video_inv m app" "i = ap_active_index app" "ap_video app = None" "open_decoder va i w h app = (go, app')"
  shows "if go then owned m i False app' else video_inv m app'"
proof -
  have i: "i < length (ap_sessions app)" using assms(1,2) by (simp add: video_inv_def decoder_ok_def)
  have md: "video_inv m (app\<lparr>ap_media := b\<rparr>)" for b
    using assms(1) by (simp add: video_inv_def decoder_ok_def canvases_ok_def seen_def)
  define a where "a = (\<lambda>b. log_event (OpenVideo i (ss_connect_epoch (slot i app)))
    (app\<lparr>ap_media := b, ap_video := Some \<lparr>nv_width = w, nv_height = h, nv_codec = ss_video_codec (slot i app)\<rparr>,
       ap_video_owner_slot := int i, ap_video_owner_epoch := ss_connect_epoch (slot i app)\<rparr>))"
  have "map ss_connect_epoch (ap_sessions app) ! i = ss_connect_epoch (slot i app)" using i by (simp add: slot_def)
  then have "owned m i False (a b)" for b
    using assms(1-3) unfolding a_def owned_def video_inv_def decoder_ok_def canvases_ok_def
    by (simp add: log_event_def seen_def slot_def)
  moreover have "app' = a True \<or> app' = a (ap_media app)" if "go"
    using assms(3,4) that by (auto simp: open_decoder_def Let_def a_def slot_def log_event_def split: if_splits)
  moreover have "app' = decoder_error i (app\<lparr>ap_media := ap_media app \<or> va_media va\<rparr>)" if "\<not> go"
    using assms(3,4) that by (auto simp: open_decoder_def Let_def split: if_splits)
  ultimately show ?thesis using md by auto
qed

lemma leave_bitmap_inv:
  assumes "video_inv m app" "leave_bitmap i app = (go, app')"
  shows "video_inv m app'" "decoder_view app' = decoder_view app"
proof -
  define a where "a = native_close_rgba_locked False True app"
  have a: "video_inv m a" "decoder_view a = decoder_view app"
    using video_inv_canvas [OF assms(1) close_rgba(1)] close_rgba(1,2) assms(1) by (simp_all add: a_def video_inv_def)
  obtain b c where n: "native_note_graphics_path_switch i a = (b, c)" by fastforce
  have "video_inv m c" "decoder_view c = decoder_view app"
    using path_switch_inv [OF n] a path_switch_views(2) [of i a] n by simp_all
  then show "video_inv m app'" "decoder_view app' = decoder_view app"
    using assms a n by (auto simp: leave_bitmap_def Let_def a_def split: if_splits)
qed

lemma resize_decoder_inv:
  assumes "video_inv m app"
  shows "video_inv m (resize_decoder w h app)" "ap_active_index (resize_decoder w h app) = ap_active_index app"
    "resize_decoder w h app = app \<or> ap_video (resize_decoder w h app) = None"
  using assms close_video_inv by (auto simp: resize_decoder_def close_video_def log_event_def)

lemma decode_inv:
  assumes inv: "video_inv m app" and act: "i = ap_active_index app" and take: "take_decoder i seed w h app = (True, a)"
    and opn: "open_decoder va i w h (resize_decoder w h a) = (go, b)"
  shows "if go then video_inv m (feed_decoder va i au seed b) else video_inv m b"
proof -
  note t = take_decoder_inv [OF inv act take]
  show ?thesis
  proof (cases "ap_video a = None")
    case True
    then have "video_inv m a" "resize_decoder w h a = a" using t by (simp_all add: resize_decoder_def)
    then show ?thesis using open_inv [of m a i va w h go b] t True opn feed_inv by (auto split: if_splits)
  next
    case False
    show ?thesis
    proof (cases "video_inv m a \<and> owned m i False a")
      case True
      note r = resize_decoder_inv [OF conjunct1 [OF True], of w h]
      show ?thesis
      proof (cases "ap_video (resize_decoder w h a) = None")
        case True
        then show ?thesis using open_inv [of m "resize_decoder w h a" i va w h go b] \<open>video_inv m a \<and> owned m i False a\<close> r t opn feed_inv
          by (auto split: if_splits)
      next
        case False
        with r(3) have "resize_decoder w h a = a" by simp
        then show ?thesis using opn \<open>ap_video a \<noteq> None\<close> True feed_inv by (auto simp: open_decoder_def)
      qed
    next
      case fresh: False
      then have f: "seed" "owned m i True a" "nv_width (video_of a) = w" "nv_height (video_of a) = h" using t False by auto
      then have "resize_decoder w h a = a" by (simp add: resize_decoder_def)
      then show ?thesis using opn False f feed_inv by (auto simp: open_decoder_def)
    qed
  qed
qed

lemma ingest_locked_inv:
  assumes inv: "video_inv m app"
  shows "video_inv m (native_video_ingest_au_locked va i data pts app)"
proof -
  obtain valid seed where sc: "scan_au (ss_video_codec (slot i app)) data = (valid, seed)" by fastforce
  define a where "a = native_note_video_stream (va_now_ms va) i valid (put_slot i ((slot i app)\<lparr>ss_video_via_bitmap := False\<rparr>) app)"
  have a: "video_inv m a"
    using inv video_inv_view [OF note_stream_views(2,1)] by (simp add: a_def put_slot_inv)
  let ?s = "slot i a" and ?w = "ucast (ss_desktop_width (slot i a)) :: u16" and ?h = "ucast (ss_desktop_height (slot i a)) :: u16"
  obtain r snap where sn: "native_au_snapshot_append (ss_snapshot ?s) data valid seed pts = (r, snap)" by fastforce
  obtain g1 b where b: "leave_bitmap i a = (g1, b)" by fastforce
  obtain g2 c where c: "take_decoder i seed ?w ?h b = (g2, c)" by fastforce
  obtain g3 d where d: "open_decoder va i ?w ?h (resize_decoder ?w ?h c) = (g3, d)" by fastforce
  have run: "native_video_ingest_au_locked va i data pts app =
    (if as_armed (ss_snapshot ?s) then put_slot i (?s\<lparr>ss_snapshot := snap, ss_snapshot_last_au_ms := va_now_ms va,
        ss_snapshot_idr_ready := native_au_snapshot_ready snap\<rparr>) a
     else if \<not> native_slot_is_active i a then a
     else if data = None \<or> data = Some [] then decoder_error i a
     else if \<not> g1 then b else if \<not> g2 then c else if \<not> g3 then d else feed_decoder va i (the data) seed d)"
    unfolding native_video_ingest_au_locked_def sc Let_def a_def [symmetric] prod.case sn
    by (cases g1; cases g2; cases g3) (simp_all add: b c d)
  have "video_inv m (if \<not> g1 then b else if \<not> g2 then c else if \<not> g3 then d else feed_decoder va i (the data) seed d)"
    if "native_slot_is_active i a"
  proof -
    note lb = leave_bitmap_inv [OF a b]
    have act: "i = ap_active_index b" using that lb(2) by (simp add: native_slot_is_active_def decoder_view_def)
    show ?thesis
    proof (cases "g1 \<and> g2")
      case False
      then show ?thesis using lb(1) take_decoder_inv [OF lb(1) act c] by auto
    next
      case True
      then show ?thesis using decode_inv [OF lb(1) act, of seed ?w ?h c va g3 d "the data"] c d by auto
    qed
  qed
  then show ?thesis unfolding run using a by (simp add: put_slot_inv)
qed

lemma video_au_inv:
  assumes "video_inv m app"
  shows "video_inv m (on_video_au va mem i codec data pts app)"
proof -
  have "video_inv m (native_video_ingest_au va mem i k data pts app)" for k
    unfolding native_video_ingest_au_def Let_def
    by (rule ingest_locked_inv) (use assms in \<open>simp add: put_slot_inv\<close>)
  moreover have "video_inv m (native_slot_report_terminal i st code app)" for st code
    using assms video_inv_view [OF terminal_views(2,1)] unfolding native_slot_report_terminal_def by blast
  ultimately show ?thesis by (simp add: on_video_au_def)
qed

section \<open>Connections\<close>

lemma stop_slot_inv: "video_inv m app \<Longrightarrow> video_inv m (stop_slot_video i app)"
  by (simp add: stop_slot_video_def put_slot_inv)

lemma stop_media_inv:
  assumes "video_inv m app"
  shows "video_inv m (native_stop_media app)"
proof -
  define a where "a = native_reset_rgba_owner ((close_canvas True (ap_rgba app) app)\<lparr>ap_rgba := None\<rparr>)"
  have "canvases_ok a" using assms
    by (simp add: a_def video_inv_def canvases_ok_def native_reset_rgba_owner_def)
  then have a: "video_inv m a" using video_inv_canvas [OF assms, of a] by (simp add: a_def)
  define b where "b = native_close_hub_return_rgba_locked a"
  have b: "video_inv m b"
    using video_inv_canvas [OF a canvas_views_close_hub(1)] canvas_views_close_hub(2) a by (simp add: b_def video_inv_def)
  define c where "c = (if ap_video b \<noteq> None then log_event CloseVideo b else b)\<lparr>ap_video := None, ap_media := False\<rparr>"
  have c: "video_inv m c"
    using b by (auto simp: c_def video_inv_def decoder_ok_def canvases_ok_def log_event_def seen_def)
  have d: "video_inv m ((destroy_texture t c)\<lparr>ap_pending_texture_destroy := None\<rparr>) = video_inv m c" for t
    by (rule video_inv_view) simp_all
  show ?thesis
    unfolding native_stop_media_def Let_def a_def [symmetric] b_def [symmetric]
      c_def [symmetric] using c d by simp
qed

lemma connect_inv:
  assumes inv: "video_inv m app" and i: "i < NATIVE_SETTINGS_MAX_SESSIONS"
  shows "video_inv m (connect_slot_video arm mem runtime started i app)"
proof -
  define a where "a = stop_slot_video i app"
  have a: "video_inv m a" unfolding a_def by (rule stop_slot_inv [OF inv])
  define b where "b = (if ap_hub_return_rgba a \<noteq> None \<and> ap_hub_return_replacement_slot a = int i
    then native_arm_hub_return_replacement_locked i (ss_connect_epoch (slot i a) + 1) (ss_video_ok_frames (slot i a)) a else a)"
  have b: "video_inv m b" using a video_inv_view [of b a m] by (simp add: b_def)
  have step: "video_inv m (log_event (Reconnect i) (put_slot i s b))"
    if "ss_connect_epoch s = ss_connect_epoch (slot i b) + 1" for s
  proof -
    have len: "i < length (ap_sessions b)" using b i by (simp add: video_inv_def decoder_ok_def)
    have "map ss_connect_epoch (ap_sessions (put_slot i s b)) =
        (map ss_connect_epoch (ap_sessions b))[i := map ss_connect_epoch (ap_sessions b) ! i + 1]"
      using that len by (simp add: put_slot_def slot_def map_update)
    then show ?thesis using b canvas_put_slot [of i s b]
      by (auto simp: video_inv_def decoder_ok_def canvases_ok_def canvas_view_def log_event_def seen_def put_slot_def)
  qed
  have fin: "video_inv m (native_present_invalidate (c\<lparr>ap_decoder_errors := x, ap_tiles_dropped_under_video := y,
      ap_decoder_keyframe_pending := z, ap_exit_code := w\<rparr>)) = video_inv m c" for c x y z w
    by (rule video_inv_view) (simp_all add: decoder_view_def canvas_view_def native_present_invalidate_def)
  show ?thesis
    unfolding connect_slot_video_def Let_def a_def [symmetric] b_def [symmetric]
    by (auto simp: fin intro!: step)
qed

section \<open>Interleavings\<close>

text \<open>One operation of a worker or of the SDL thread.\<close>

datatype VideoOp =
    OpBitmap VideoAnswers nat u32 u32 u32 u32 u32 "bytes option" nat
  | OpVideo VideoAnswers "bytes option" nat nat "bytes option" u64
  | OpReplay VideoAnswers nat "bytes option" u64
  | OpReport SessionReport
  | OpDraw bool bool bool nat
  | OpHandoff nat
  | OpConfigurator nat
  | OpConnectFromUi bool nat
  | OpHub bool int
  | OpDesktopSize nat u32 u32
  | OpStopSlot nat
  | OpConnect bool "bytes option" bool bool nat
  | OpStopMedia
  | OpDetachTextures

fun video_step :: "App \<Rightarrow> VideoOp \<Rightarrow> App option" where
  "video_step app (OpBitmap va i left ytop width height stride rgba len) =
     on_bitmap_update va i left ytop width height stride rgba len app"
| "video_step app (OpVideo va mem i codec data pts) = Some (on_video_au va mem i codec data pts app)"
| "video_step app (OpReplay va i data pts) = Some (native_video_ingest_au_locked va i data pts app)"
| "video_step app (OpReport r) = Some (report app r)"
| "video_step app (OpDraw create update copy renderer) = Some (snd (native_draw_rgba_frame create update copy renderer app))"
| "video_step app (OpHandoff target) = Some (handoff_locked target app)"
| "video_step app (OpConfigurator target) = Some (configurator_locked target app)"
| "video_step app (OpConnectFromUi hub i) = Some (connect_locked hub i app)"
| "video_step app (OpHub visible return_slot) = Some (app\<lparr>ap_hub_visible := visible, ap_hub_return_slot := return_slot\<rparr>)"
| "video_step app (OpDesktopSize i w h) = Some (put_slot i ((slot i app)\<lparr>ss_desktop_width := w, ss_desktop_height := h\<rparr>) app)"
| "video_step app (OpStopSlot i) = Some (stop_slot_video i app)"
| "video_step app (OpConnect arm mem runtime started i) = Some (connect_slot_video arm mem runtime started i app)"
| "video_step app OpStopMedia = Some (native_stop_media app)"
| "video_step app OpDetachTextures = Some (native_destroy_rgba_renderer_textures app)"

text \<open>The slots named are the program's, and a bitmap's buffer holds what the callback says.\<close>

fun op_ok :: "VideoOp \<Rightarrow> bool" where
  "op_ok (OpBitmap va i left ytop width height stride rgba len) \<longleftrightarrow> buffer_ok (va_size_max va) rgba len"
| "op_ok (OpHandoff i) \<longleftrightarrow> i < NATIVE_SETTINGS_MAX_SESSIONS"
| "op_ok (OpConfigurator i) \<longleftrightarrow> i < NATIVE_SETTINGS_MAX_SESSIONS"
| "op_ok (OpConnectFromUi hub i) \<longleftrightarrow> i < NATIVE_SETTINGS_MAX_SESSIONS"
| "op_ok (OpConnect arm mem runtime started i) \<longleftrightarrow> i < NATIVE_SETTINGS_MAX_SESSIONS"
| "op_ok _ \<longleftrightarrow> True"

fun video_run :: "App \<Rightarrow> VideoOp list \<Rightarrow> App option" where
  "video_run app [] = Some app"
| "video_run app (op # ops) = (case video_step app op of None \<Rightarrow> None | Some app' \<Rightarrow> video_run app' ops)"

lemma report_views: "canvas_view (report app e) = canvas_view app" "decoder_view (report app e) = decoder_view app"
proof -
  show "canvas_view (report app e) = canvas_view app"
    by (cases e) (simp_all add: native_slot_record_state_def native_slot_report_terminal_def Let_def terminal_views)
  show "decoder_view (report app e) = decoder_view app"
    by (cases e) (simp_all add: native_slot_record_state_def native_slot_report_terminal_def Let_def terminal_views decoder_put_slot)
qed

lemma detach_inv:
  assumes "video_inv m app"
  shows "video_inv m (native_destroy_rgba_renderer_textures app)"
proof -
  obtain t r where r: "take_canvas_texture (ap_rgba app) = (t, r)" by fastforce
  obtain u h where h: "take_canvas_texture (ap_hub_return_rgba app) = (u, h)" by fastforce
  have ok: "canvas_ok ow e (snd (take_canvas_texture c)) = canvas_ok ow e c" for ow e c
    using take_texture_ok by (cases c) (simp_all add: take_canvas_texture_def case_prod_beta)
  define a where "a = app\<lparr>ap_rgba := r, ap_hub_return_rgba := h, ap_pending_texture_destroy := None\<rparr>"
  have "canvases_ok a" using assms ok [of _ _ "ap_rgba app"] ok [of _ _ "ap_hub_return_rgba app"] r h
    by (simp add: a_def video_inv_def canvases_ok_def)
  then have a: "video_inv m a" using video_inv_canvas [OF assms, of a] by (simp add: a_def)
  have "video_inv m (destroy_texture x b) = video_inv m b" for x b by (rule video_inv_view) simp_all
  then show ?thesis using a r h by (simp add: native_destroy_rgba_renderer_textures_def Let_def a_def)
qed

lemma step_inv:
  assumes "video_inv m app" "op_ok op"
  shows "\<exists>app'. video_step app op = Some app' \<and> video_inv m app'"
proof (cases op)
  case (OpBitmap va i left ytop width height stride rgba len)
  then show ?thesis using bitmap_inv [OF assms(1)] assms(2) by simp
next
  case (OpVideo va mem i codec data pts)
  then show ?thesis using video_au_inv [OF assms(1)] by simp
next
  case (OpReplay va i data pts)
  then show ?thesis using ingest_locked_inv [OF assms(1)] by simp
next
  case (OpReport r)
  then show ?thesis using assms(1) video_inv_view [OF report_views(2,1)] by simp
next
  case (OpDraw create update copy renderer)
  then show ?thesis using draw_inv [OF assms(1)] by simp
next
  case (OpHandoff i)
  then show ?thesis using handoff_inv [OF assms(1)] assms(2) by simp
next
  case (OpConfigurator i)
  then show ?thesis using configurator_inv [OF assms(1)] assms(2) by simp
next
  case (OpConnectFromUi hub i)
  then show ?thesis using connect_locked_inv [OF assms(1)] assms(2) by simp
next
  case (OpHub visible i)
  then show ?thesis using assms(1) by (simp add: video_inv_def decoder_ok_def canvases_ok_def seen_def)
next
  case (OpDesktopSize i w h)
  then show ?thesis using assms(1) by (simp add: put_slot_inv)
next
  case (OpStopSlot i)
  then show ?thesis using stop_slot_inv [OF assms(1)] by simp
next
  case (OpConnect arm mem runtime started i)
  then show ?thesis using connect_inv [OF assms(1)] assms(2) by simp
next
  case OpStopMedia
  then show ?thesis using stop_media_inv [OF assms(1)] by simp
next
  case OpDetachTextures
  then show ?thesis using detach_inv [OF assms(1)] by simp
qed

lemma run_inv:
  assumes "video_inv m app" "list_all op_ok ops"
  shows "\<exists>app'. video_run app ops = Some app' \<and> video_inv m app'"
  using assms
proof (induction ops arbitrary: app)
  case (Cons op ops)
  then obtain a where "video_step app op = Some a" "video_inv m a" using step_inv by fastforce
  then show ?case using Cons.IH [of a] Cons.prems by simp
qed simp

text \<open>The state before any picture: no canvas, no decoder, nothing logged.\<close>

definition dark :: "App \<Rightarrow> bool" where
  "dark app \<longleftrightarrow> ap_rgba app = None \<and> ap_hub_return_rgba app = None \<and> ap_video app = None \<and> ap_log app = [] \<and>
     length (ap_sessions app) = NATIVE_SETTINGS_MAX_SESSIONS \<and> ap_active_index app < NATIVE_SETTINGS_MAX_SESSIONS"

lemma dark_inv: "dark app \<Longrightarrow> video_inv (seen app) app"
  by (simp add: dark_def video_inv_def decoder_ok_def canvases_ok_def monitor_all_def)

section \<open>Properties\<close>


text \<open>Two bitmap updates, a frame, a switch to another slot's form and an update that now comes from behind.\<close>

definition example_answers :: VideoAnswers where
  "example_answers = \<lparr>va_now_ms = 5000, va_feed_ms = 5001, va_alloc_surface = True, va_alloc_pixels = True,
     va_size_max = 2 ^ 32 - 1, va_media = True, va_open = True, va_feed = NATIVE_VIDEO_OK\<rparr>"

definition example_ops :: "VideoOp list" where
  "example_ops = [OpBitmap example_answers 0 0 0 1 1 4 (Some [1, 2, 3, 4]) 4, OpDraw True True True 0, OpConfigurator 2,
     OpBitmap example_answers 0 0 0 1 1 4 (Some [1, 2, 3, 4]) 4, OpVideo example_answers None 2 0 (Some [0, 0, 1]) 9]"

lemma example_dark: "dark example_app"
  by (simp add: dark_def example_app_def NATIVE_SETTINGS_MAX_SESSIONS_def)

lemma example_ops_ok: "list_all op_ok example_ops"
  by (simp add: example_ops_def example_answers_def buffer_ok_def NATIVE_SETTINGS_MAX_SESSIONS_def)


end
