(* ===== verification/Video_Textures.thy ===== *)
theory Video_Textures
  imports Video_Monitor
begin

text \<open>
  The textures behind the canvases: who holds one, when it is destroyed and by which thread, over
  the same interleavings as \<open>Video_Monitor\<close>.
\<close>

section \<open>Who holds which texture\<close>

definition tex :: "NativeRgbaSurface option \<Rightarrow> nat list" where
  "tex canvas = (case canvas of None \<Rightarrow> [] | Some s \<Rightarrow> (case rs_texture s of None \<Rightarrow> [] | Some t \<Rightarrow> [t]))"

definition pending :: "nat option \<Rightarrow> nat list" where
  "pending t = (case t of None \<Rightarrow> [] | Some t \<Rightarrow> [t])"

lemma tex_simps [simp]: "tex None = []" "pending None = []" "pending (Some t) = [t]"
  "rs_texture s = None \<Longrightarrow> tex (Some s) = []" "rs_texture s = Some t \<Longrightarrow> tex (Some s) = [t]"
  by (simp_all add: tex_def pending_def)

text \<open>No texture has two holders, none is held after it was destroyed, and only the SDL thread destroys.\<close>

definition tex_inv :: "nat list \<Rightarrow> nat list \<Rightarrow> nat list \<Rightarrow> Textures \<Rightarrow> bool" where
  "tex_inv a b c tx \<longleftrightarrow> distinct (a @ b @ c @ map fst (tx_destroyed tx)) \<and>
     (\<forall>t\<in>set (a @ b @ c @ map fst (tx_destroyed tx)). t < tx_next tx) \<and> (\<forall>p\<in>set (tx_destroyed tx). snd p)"

definition tex_ok :: "App \<Rightarrow> bool" where
  "tex_ok app \<longleftrightarrow> tex_inv (tex (ap_rgba app)) (tex (ap_hub_return_rgba app)) (pending (ap_pending_texture_destroy app))
     (ap_textures app)"

definition tex_view where
  "tex_view app = (tex (ap_rgba app), tex (ap_hub_return_rgba app), ap_pending_texture_destroy app, ap_textures app)"

lemma tex_view_ok: "tex_view a = tex_view b \<Longrightarrow> tex_ok a = tex_ok b"
  by (simp add: tex_view_def tex_ok_def)

lemma tex_put_slot [simp]: "tex_view (put_slot i s app) = tex_view app"
  by (simp add: tex_view_def put_slot_def)

lemma tex_terminal [simp]: "tex_view (native_slot_report_terminal_reason i state reason code app) = tex_view app"
proof -
  have f: "tex_view (app\<lparr>ap_exit_code := x\<rparr>) = tex_view app" "tex_view (app\<lparr>ap_running := r\<rparr>) = tex_view app" for app x r
    by (simp_all add: tex_view_def)
  show ?thesis by (simp add: native_slot_report_terminal_reason_def Let_def f)
qed

lemma tex_frames [simp]:
  "tex_view (decoder_error i app) = tex_view app"
  "tex_view (log_event e app) = tex_view app" "tex_view (native_present_invalidate app) = tex_view app"
  "tex_view (native_clear_hub_return_replacement app) = tex_view app"
  "tex_view (native_arm_hub_return_replacement_locked i ep n app) = tex_view app"
  "tex_view (native_reset_rgba_owner app) = tex_view app"
  "tex_view (native_note_video_frame l t app) = tex_view app"
  "tex_view (native_note_video_stream t i v app) = tex_view app"
  "tex_view (close_video app) = tex_view app"
  "tex_view (app\<lparr>ap_decoder_errors := k\<rparr>) = tex_view app"
proof -
  show k: "tex_view (app\<lparr>ap_decoder_errors := k\<rparr>) = tex_view app" for app k by (simp add: tex_view_def)
  show "tex_view (decoder_error i app) = tex_view app"
    by (simp add: decoder_error_def native_slot_report_terminal_def k)
  show "tex_view (log_event e app) = tex_view app" "tex_view (close_video app) = tex_view app"
    by (simp_all add: log_event_def close_video_def tex_view_def)
  show "tex_view (native_note_video_stream t i v app) = tex_view app" by (simp add: native_note_video_stream_def)
qed (simp_all add: native_present_invalidate_def native_clear_hub_return_replacement_def
    native_arm_hub_return_replacement_locked_def native_reset_rgba_owner_def native_note_video_frame_def Let_def tex_view_def)

lemma tex_path_switch: "native_note_graphics_path_switch i app = (b, app') \<Longrightarrow> tex_view app' = tex_view app"
  by (auto simp: native_note_graphics_path_switch_def Let_def split: if_splits)

section \<open>Canvases\<close>

lemma take_texture: "native_rgba_surface_take_texture s = (t, s') \<Longrightarrow> t = rs_texture s \<and> rs_texture s' = None"
  by (auto simp: native_rgba_surface_take_texture_def Let_def split: option.splits)

lemma tex_inv_move:
  "tex_inv a b c tx = tex_inv b a c tx" "tex_inv a b c tx \<Longrightarrow> tex_inv [] b a tx"
  by (auto simp: tex_inv_def)

lemma tex_defer:
  assumes "tex_ok app"
  shows "tex_ok (native_defer_rgba_texture_destroy app)" "tex (ap_rgba (native_defer_rgba_texture_destroy app)) = []"
proof -
  have "tex_ok (native_defer_rgba_texture_destroy app) \<and> tex (ap_rgba (native_defer_rgba_texture_destroy app)) = []"
  proof (cases "ap_rgba app")
    case (Some s)
    obtain s' where t: "native_rgba_surface_take_texture s = (rs_texture s, s')" "rs_texture s' = None"
      using take_texture by (metis prod.collapse)
    show ?thesis
    proof (cases "rs_texture s")
      case None
      then show ?thesis using t assms Some by (simp add: native_defer_rgba_texture_destroy_def tex_ok_def)
    next
      case (Some x)
      then show ?thesis using t assms \<open>ap_rgba app = Some s\<close> tex_inv_move(2) [of "[x]"]
        by (simp add: native_defer_rgba_texture_destroy_def tex_ok_def)
    qed
  qed (use assms in \<open>simp add: native_defer_rgba_texture_destroy_def\<close>)
  then show "tex_ok (native_defer_rgba_texture_destroy app)" "tex (ap_rgba (native_defer_rgba_texture_destroy app)) = []" by simp_all
qed

lemma surface_close_tex: "native_rgba_surface_close sdl s tx =
    tx\<lparr>tx_destroyed := tx_destroyed tx @ map (\<lambda>t. (t, sdl)) (tex (Some s))\<rparr>"
  by (simp add: native_rgba_surface_close_def SDL_DestroyTexture_def tex_def split: option.split)

lemma tex_close_canvas: "ap_textures (close_canvas sdl c app) =
    (ap_textures app)\<lparr>tx_destroyed := tx_destroyed (ap_textures app) @ map (\<lambda>t. (t, sdl)) (tex c)\<rparr>"
  "ap_rgba (close_canvas sdl c app) = ap_rgba app" "ap_pending_texture_destroy (close_canvas sdl c app) = ap_pending_texture_destroy app"
  by (simp_all add: close_canvas_def surface_close_tex split: option.split)

lemma map_fst_tag [simp]: "map (fst \<circ> (\<lambda>t. (t, b))) a = a"
  by (simp add: comp_def)

text \<open>A closed canvas' texture moves from its holder to the destroyed ones, on the SDL thread.\<close>

lemma tex_inv_close:
  "tex_inv a b c tx \<Longrightarrow> tex_inv [] b c (tx\<lparr>tx_destroyed := tx_destroyed tx @ map (\<lambda>t. (t, True)) a\<rparr>)"
  "tex_inv a b c tx \<Longrightarrow> tex_inv a [] c (tx\<lparr>tx_destroyed := tx_destroyed tx @ map (\<lambda>t. (t, True)) b\<rparr>)"
  "tex_inv a b c tx \<Longrightarrow> tex_inv a b [] (tx\<lparr>tx_destroyed := tx_destroyed tx @ map (\<lambda>t. (t, True)) c\<rparr>)"
  by (auto simp: tex_inv_def)

lemma tex_close_rgba:
  assumes "tex_ok app" "sdl \<or> defer"
  shows "tex_ok (native_close_rgba_locked sdl defer app)"
proof (cases "ap_rgba app = None")
  case True
  then show ?thesis using assms(1) tex_view_ok [OF tex_frames(6)] by (simp add: native_close_rgba_locked_def)
next
  case False
  define a where "a = (if defer then native_defer_rgba_texture_destroy app else app)"
  have a: "tex_ok a" "defer \<Longrightarrow> tex (ap_rgba a) = []" using tex_defer [OF assms(1)] assms(1) by (simp_all add: a_def)
  have "tex_ok ((close_canvas sdl (ap_rgba a) a)\<lparr>ap_rgba := None\<rparr>)"
  proof (cases sdl)
    case True
    then show ?thesis using tex_inv_close(1) [OF a(1) [unfolded tex_ok_def]] by (simp add: tex_ok_def tex_close_canvas)
  next
    case False
    then have "tex (ap_rgba a) = []" using a(2) assms(2) by simp
    then show ?thesis using a(1) by (simp add: tex_ok_def tex_close_canvas)
  qed
  moreover have "native_close_rgba_locked sdl defer app =
      native_reset_rgba_owner ((close_canvas sdl (ap_rgba a) a)\<lparr>ap_rgba := None\<rparr>)"
    using False unfolding native_close_rgba_locked_def Let_def a_def by (simp only: if_False)
  ultimately show ?thesis using tex_view_ok [OF tex_frames(6)] by (simp only:)
qed

lemma tex_close_hub: "tex_ok app \<Longrightarrow> tex_ok (native_close_hub_return_rgba_locked app)"
proof -
  assume "tex_ok app"
  then have "tex_ok ((close_canvas True (ap_hub_return_rgba app) app)\<lparr>ap_hub_return_rgba := None,
      ap_hub_return_rgba_owner_slot := - 1, ap_hub_return_rgba_owner_epoch := 0\<rparr>)"
    using tex_inv_close(2) by (simp add: tex_ok_def tex_close_canvas)
  then show ?thesis
    using tex_view_ok [OF tex_frames(4)] by (simp add: native_close_hub_return_rgba_locked_def Let_def)
qed

lemma tex_capture: "tex_ok app \<Longrightarrow> tex_ok (native_capture_hub_return_rgba_locked app)"
proof -
  assume ok: "tex_ok app"
  have "tex_ok (app\<lparr>ap_hub_return_rgba := ap_rgba app, ap_hub_return_rgba_owner_slot := x,
      ap_hub_return_rgba_owner_epoch := y, ap_rgba := None\<rparr>)" if "ap_hub_return_rgba app = None" for x y
    using ok that by (simp add: tex_ok_def tex_inv_def)
  then show ?thesis using ok tex_view_ok [OF tex_frames(4)] tex_view_ok [OF tex_frames(6)]
    by (simp add: native_capture_hub_return_rgba_locked_def Let_def)
qed

lemma tex_promote:
  assumes "tex_ok app"
  shows "tex_ok (snd (native_promote_hub_return_rgba_locked True i e app))"
proof -
  define a where "a = native_close_rgba_locked True False app"
  have a: "tex_ok a" "ap_rgba a = None" using tex_close_rgba [OF assms] close_rgba(3) by (simp_all add: a_def)
  have "tex_ok (a\<lparr>ap_rgba := ap_hub_return_rgba a, ap_rgba_owner_slot := x, ap_rgba_owner_epoch := y,
      ap_hub_return_rgba := None, ap_hub_return_rgba_owner_slot := z, ap_hub_return_rgba_owner_epoch := w\<rparr>)" for x y z w
    using a tex_inv_move(1) by (simp add: tex_ok_def)
  then show ?thesis using assms tex_view_ok [OF tex_frames(4)]
    by (simp add: native_promote_hub_return_rgba_locked_def Let_def a_def)
qed

lemma tex_destroy_pending:
  assumes "tex_ok app"
  shows "tex_ok ((destroy_texture (ap_pending_texture_destroy app) app)\<lparr>ap_pending_texture_destroy := None\<rparr>)"
  using assms tex_inv_close(3) [of "tex (ap_rgba app)" "tex (ap_hub_return_rgba app)" "pending (ap_pending_texture_destroy app)"]
  by (cases "ap_pending_texture_destroy app") (simp_all add: tex_ok_def destroy_texture_def SDL_DestroyTexture_def)

section \<open>Operations\<close>

lemma tex_inv_new: "tex_inv [] b c tx \<Longrightarrow> tex_inv [tx_next tx] b c (tx\<lparr>tx_next := tx_next tx + 1\<rparr>)"
  unfolding tex_inv_def by (auto simp: less_Suc_eq)

lemma render_tex:
  assumes "native_rgba_surface_render create update copy r s tx = (result, s', tx')"
    and inv: "tex_inv (tex (Some s)) b c tx"
  shows "tex_inv (tex (Some s')) b c tx'"
proof -
  let ?d = "\<lambda>s tx. tx\<lparr>tx_destroyed := tx_destroyed tx @ map (\<lambda>t. (t, True)) (tex (Some s))\<rparr>"
  obtain r1 s1 t1 where e: "native_rgba_ensure_texture create r s tx = (r1, s1, t1)" using prod_cases3 by blast
  have "(tex (Some s1) = tex (Some s) \<and> t1 = tx) \<or> (tex (Some s1) = [] \<and> t1 = ?d s tx) \<or>
      (tex (Some s1) = [tx_next tx] \<and> t1 = (?d s tx)\<lparr>tx_next := tx_next tx + 1\<rparr>)"
    using e by (auto simp: native_rgba_ensure_texture_def native_rgba_drop_texture_def SDL_DestroyTexture_def tex_def
        split: if_splits option.splits prod.splits)
  then have "tex_inv (tex (Some s1)) b c t1"
    using inv tex_inv_close(1) [OF inv] tex_inv_new [OF tex_inv_close(1) [OF inv]] by auto
  moreover have "(tex (Some s') = tex (Some s1) \<and> tx' = t1) \<or> (tex (Some s') = [] \<and> tx' = ?d s1 t1) \<or> (s' = s \<and> tx' = tx)"
    using assms(1) e by (auto simp: native_rgba_surface_render_def native_rgba_drop_texture_def SDL_DestroyTexture_def Let_def tex_def
        split: if_splits option.splits)
  ultimately show ?thesis using inv tex_inv_close(1) by auto
qed

lemma tex_view_eq: "tex_view a = tex_view b \<Longrightarrow> tex_ok b \<Longrightarrow> tex_ok a"
  using tex_view_ok by blast

lemma tex_activate:
  "tex_ok app \<Longrightarrow> tex_ok (native_present_invalidate (log_event e app\<lparr>ap_active_index := i\<rparr>))"
  "tex_ok app \<Longrightarrow> tex_ok (native_present_invalidate (log_event e app\<lparr>ap_active_index := i, ap_video_refresh_needed := b\<rparr>))"
  by (simp_all add: tex_ok_def native_present_invalidate_def log_event_def)

lemma tex_handoff:
  assumes "tex_ok app"
  shows "tex_ok (handoff_locked target app)"
proof -
  define a where "a = (if ss_snapshot_pending (slot target app)
    then put_slot target ((slot target app)\<lparr>ss_snapshot_pending := False,
      ss_snapshot := native_au_snapshot_reset (ss_snapshot (slot target app)), ss_snapshot_idr_ready := False\<rparr>) app else app)"
  have a: "tex_ok a" by (rule tex_view_eq [OF _ assms]) (simp add: a_def)
  obtain ok p where p: "native_promote_hub_return_rgba_locked True target (ss_connect_epoch (slot target a)) a = (ok, p)" by fastforce
  have po: "tex_ok p" using tex_promote [OF a, of target "ss_connect_epoch (slot target a)"] p by simp
  define c where "c = (\<lambda>x. native_close_rgba_locked True False x)"
  have c: "tex_ok (c a)" "tex_ok (c p)" using tex_close_rgba a po by (simp_all add: c_def)
  define b where "b = (if ap_hub_return_rgba a \<noteq> None \<and> ap_hub_return_rgba_owner_slot a = int target
    then (if ok then p else native_arm_hub_return_replacement_locked target (ss_connect_epoch (slot target a))
       (ss_video_ok_frames (slot target p)) (c p))
    else if ap_hub_return_rgba (c a) \<noteq> None then native_close_hub_return_rgba_locked (c a) else c a)"
  have "tex_ok b"
    using po c tex_close_hub [OF c(1)] tex_view_eq [OF tex_frames(5) c(2)] unfolding b_def by (auto split: if_splits)
  moreover have "handoff_locked target app =
      native_present_invalidate (log_event (Activate target) b\<lparr>ap_active_index := target, ap_video_refresh_needed := False\<rparr>)"
    unfolding handoff_locked_def Let_def b_def c_def a_def [symmetric] p by (cases ok) simp_all
  ultimately show ?thesis using tex_activate(2) by simp
qed

lemma tex_draw:
  assumes "tex_ok app"
  shows "tex_ok (snd (native_draw_rgba_frame create update copy r app))"
proof -
  define a where "a = (destroy_texture (ap_pending_texture_destroy app) app)\<lparr>ap_pending_texture_destroy := None\<rparr>"
  have a: "tex_ok a" unfolding a_def by (rule tex_destroy_pending [OF assms])
  have d: "tex_ok app'"
    if s: "surface = (if drawing then ap_hub_return_rgba a else if active_rgba_ready a then ap_rgba a else None)"
      and draw: "draw_canvas create update copy r drawing surface a = (status, failed, drawing', app')"
    for surface drawing status failed drawing' app'
  proof (cases "surface = None \<or> \<not> rs_has_frame (the surface)")
    case True
    then show ?thesis using draw a by (auto simp: draw_canvas_def split: option.splits)
  next
    case False
    then obtain c where c: "surface = Some c" "rs_has_frame c" by auto
    obtain result c' tx where r: "native_rgba_surface_render create update copy r c (ap_textures a) = (result, c', tx)"
      using prod_cases3 by blast
    define b where "b = (if drawing then a\<lparr>ap_hub_return_rgba := Some c', ap_textures := tx\<rparr>
      else a\<lparr>ap_rgba := Some c', ap_textures := tx\<rparr>)"
    have "tex_ok b"
    proof (cases drawing)
      case True
      then have "tex_inv (tex (Some c)) (tex (ap_rgba a)) (pending (ap_pending_texture_destroy a)) (ap_textures a)"
        using a s c tex_inv_move(1) by (simp add: tex_ok_def)
      from render_tex [OF r this] show ?thesis using True tex_inv_move(1) by (simp add: b_def tex_ok_def)
    next
      case False
      then have "ap_rgba a = Some c" using s c by (simp split: if_splits)
      then have "tex_inv (tex (Some c)) (tex (ap_hub_return_rgba a)) (pending (ap_pending_texture_destroy a)) (ap_textures a)"
        using a by (simp add: tex_ok_def)
      from render_tex [OF r this] show ?thesis using False by (simp add: b_def tex_ok_def)
    qed
    moreover have "tex_ok (native_close_hub_return_rgba_locked b)" using calculation by (rule tex_close_hub)
    moreover have "tex_ok (log_event e (native_present_invalidate b))" for e
      by (rule tex_view_eq [OF _ \<open>tex_ok b\<close>]) simp
    ultimately show ?thesis
      using draw c r unfolding draw_canvas_def b_def by (auto simp: Let_def split: if_splits)
  qed
  let ?d = "ap_hub_return_rgba a \<noteq> None \<and> \<not> replacement_ready a"
  let ?s = "if ?d then ap_hub_return_rgba a else if active_rgba_ready a then ap_rgba a else None"
  obtain status failed d' b where b: "draw_canvas create update copy r ?d ?s a = (status, failed, d', b)"
    using prod_cases4 by blast
  have "tex_ok b" by (rule d [OF refl b])
  then have "tex_ok (snd (snd (draw_rgba_locked create update copy r app)))"
    using tex_close_hub [OF \<open>tex_ok b\<close>] b unfolding draw_rgba_locked_def Let_def a_def [symmetric] by simp
  then show ?thesis
    using tex_view_ok [OF tex_terminal] tex_view_ok [OF tex_frames(10)]
    by (simp add: native_draw_rgba_frame_def native_slot_report_terminal_def case_prod_beta)
qed

lemma open_tex: "native_rgba_surface_open n x y sdl w h tx = (c, tx') \<Longrightarrow> tx' = tx \<and> tex c = []"
  by (auto simp: native_rgba_surface_open_def native_rgba_surface_resize_def surface_zero_def native_rgba_surface_close_def
      Let_def split: option.splits if_splits)

lemma resize_tex: "native_rgba_surface_resize n x sdl w h s tx = (result, s', tx') \<Longrightarrow> rs_texture s = None \<Longrightarrow>
    tx' = tx \<and> rs_texture s' = None"
  by (auto simp: native_rgba_surface_resize_def Let_def split: option.splits if_splits)

lemma tex_prepare:
  assumes "tex_ok app"
  shows "tex_ok (prepare_canvas va i e app)"
proof -
  let ?w = "ucast (ss_desktop_width (slot i app)) :: u16" and ?h = "ucast (ss_desktop_height (slot i app)) :: u16"
  show ?thesis
  proof (cases "ap_rgba app")
    case None
    obtain c tx where o: "native_rgba_surface_open (va_size_max va) (va_alloc_surface va) (va_alloc_pixels va) False ?w ?h
        (ap_textures app) = (c, tx)" by fastforce
    then show ?thesis using open_tex [OF o] None assms
      by (cases c) (simp_all add: prepare_canvas_def tex_ok_def)
  next
    case (Some s)
    define d where "d = native_defer_rgba_texture_destroy app"
    have d: "tex_ok d" "tex (ap_rgba d) = []" using tex_defer [OF assms] by (simp_all add: d_def)
    have "ap_rgba d \<noteq> None" using Some by (simp add: d_def native_defer_rgba_texture_destroy_def split: option.split prod.split)
    then obtain s' where s': "ap_rgba d = Some s'" by blast
    then have t: "rs_texture s' = None" using d(2) by (cases "rs_texture s'") simp_all
    obtain result s'' tx where r: "native_rgba_surface_resize (va_size_max va) (va_alloc_pixels va) False ?w ?h s' (ap_textures d) =
        (result, s'', tx)" using prod_cases3 by blast
    note rt = resize_tex [OF r t]
    have "tex_ok (native_reset_rgba_owner (d\<lparr>ap_rgba := None, ap_textures := native_rgba_surface_close False s'' tx\<rparr>))"
      using d s' rt by (simp add: tex_ok_def native_reset_rgba_owner_def surface_close_tex)
    moreover have "tex_ok (d\<lparr>ap_rgba := Some s'', ap_textures := tx\<rparr>)" using d s' rt by (simp add: tex_ok_def)
    ultimately show ?thesis
      using Some r s' assms by (simp add: prepare_canvas_def Let_def d_def [symmetric])
  qed
qed

lemma tex_leave_video: "leave_video va i e app = (go, app') \<Longrightarrow> tex_view app' = tex_view app"
proof -
  have t: "tex_view (app\<lparr>ap_tiles_dropped_under_video := k\<rparr>) = tex_view app" for k by (simp add: tex_view_def)
  show "leave_video va i e app = (go, app') \<Longrightarrow> tex_view app' = tex_view app"
    by (auto simp: leave_video_def Let_def t dest!: tex_path_switch split: option.splits if_splits prod.splits)
qed

lemma apply_same_texture: "native_rgba_surface_apply n l y w h st rgba len s = Some (result, s') \<Longrightarrow> rs_texture s' = rs_texture s"
  by (auto simp: native_rgba_surface_apply_def Let_def split: option.splits if_splits)

lemma tex_apply: "apply_update va i e l y w h st rgba len app = Some (result, app') \<Longrightarrow> tex_view app' = tex_view app"
  by (auto simp: apply_update_def tex_view_def tex_def dest!: apply_same_texture split: option.splits)

lemma tex_bitmap:
  assumes "tex_ok app" "on_bitmap_update va i l y w h st rgba len app = Some app'"
  shows "tex_ok app'"
proof -
  define a where "a = put_slot i ((slot i app)\<lparr>ss_video_via_bitmap := True\<rparr>) app"
  define e where "e = ss_connect_epoch (slot i a)"
  define b where "b = (if ap_rgba a \<noteq> None \<and> \<not> native_rgba_owner_matches a i e then native_close_rgba_locked False True a else a)"
  obtain go c where c: "leave_video va i e b = (go, c)" by fastforce
  have a: "tex_ok a" by (rule tex_view_eq [OF _ assms(1)]) (simp add: a_def)
  have b: "tex_ok b" using a tex_close_rgba [OF a] by (simp add: b_def)
  have c': "tex_ok c" by (rule tex_view_eq [OF tex_leave_video [OF c] b])
  note d = tex_prepare [OF c', of va i e]
  have put: "tex_ok (put_slot j s x)" "tex_ok (decoder_error j x)" if "tex_ok x" for j s x
    using tex_view_eq [OF tex_put_slot that] tex_view_eq [OF tex_frames(1) that] by simp_all
  have f: "tex_ok x" if "apply_update va i e l y w h st rgba len (prepare_canvas va i e c) = Some (result, x)" for result x
    by (rule tex_view_eq [OF tex_apply [OF that] d])
  show ?thesis
    using assms(2) put(1) [OF assms(1)] put [OF a] c' put [OF f]
    unfolding on_bitmap_update_def Let_def a_def [symmetric] e_def [symmetric] b_def [symmetric] c
    by (auto split: if_splits bool.splits option.splits prod.splits NativeRgbaResult.splits)
qed

lemma tex_take_decoder: "take_decoder i seed w h app = (go, app') \<Longrightarrow> tex_view app' = tex_view app"
proof -
  have o: "tex_view (x\<lparr>ap_video_owner_slot := a, ap_video_owner_epoch := b, ap_decoder_keyframe_pending := c\<rparr>) = tex_view x" for x a b c
    by (simp add: tex_view_def)
  show "take_decoder i seed w h app = (go, app') \<Longrightarrow> tex_view app' = tex_view app"
    by (auto simp: take_decoder_def Let_def o split: if_splits)
qed

lemma tex_open_decoder: "open_decoder va i w h app = (go, app') \<Longrightarrow> tex_view app' = tex_view app"
proof -
  have o: "tex_view (x\<lparr>ap_media := m\<rparr>) = tex_view x"
    "tex_view (x\<lparr>ap_media := m, ap_video := v, ap_video_owner_slot := a, ap_video_owner_epoch := b\<rparr>) = tex_view x" for x m v a b
    by (simp_all add: tex_view_def)
  show "open_decoder va i w h app = (go, app') \<Longrightarrow> tex_view app' = tex_view app"
    by (auto simp: open_decoder_def Let_def o split: if_splits)
qed

lemma tex_resize_decoder: "tex_view (resize_decoder w h app) = tex_view app"
  by (simp add: resize_decoder_def)

lemma tex_feed: "tex_view (feed_decoder va i au seed app) = tex_view app"
proof -
  have o: "tex_view (x\<lparr>ap_video_last_feed_ms := m, ap_video_feed_started := b\<rparr>) = tex_view x"
    "tex_view (x\<lparr>ap_decoder_keyframe_pending := b\<rparr>) = tex_view x"
    "tex_view (x\<lparr>ap_decoder_keyframe_pending := b, ap_video_refresh_needed := c\<rparr>) = tex_view x" for x m b c
    by (simp_all add: tex_view_def)
  show ?thesis by (cases "va_feed va") (simp_all add: feed_decoder_def Let_def o)
qed

lemma tex_leave_bitmap:
  assumes "tex_ok app" "leave_bitmap i app = (go, app')"
  shows "tex_ok app'"
proof -
  define a where "a = native_close_rgba_locked False True app"
  have a: "tex_ok a" unfolding a_def by (rule tex_close_rgba [OF assms(1)]) simp
  obtain b c where n: "native_note_graphics_path_switch i a = (b, c)" by fastforce
  have "tex_ok c" by (rule tex_view_eq [OF tex_path_switch [OF n] a])
  then show ?thesis using assms a n by (auto simp: leave_bitmap_def Let_def a_def split: if_splits)
qed

lemma tex_ingest:
  assumes "tex_ok app"
  shows "tex_ok (native_video_ingest_au_locked va i data pts app)"
proof -
  obtain valid seed where sc: "scan_au (ss_video_codec (slot i app)) data = (valid, seed)" by fastforce
  define a where "a = native_note_video_stream (va_now_ms va) i valid (put_slot i ((slot i app)\<lparr>ss_video_via_bitmap := False\<rparr>) app)"
  have a: "tex_ok a" by (rule tex_view_eq [OF _ assms]) (simp add: a_def)
  let ?s = "slot i a" and ?w = "ucast (ss_desktop_width (slot i a)) :: u16" and ?h = "ucast (ss_desktop_height (slot i a)) :: u16"
  obtain r snap where sn: "native_au_snapshot_append (ss_snapshot ?s) data valid seed pts = (r, snap)" by fastforce
  obtain g1 b where b: "leave_bitmap i a = (g1, b)" by fastforce
  obtain g2 c where c: "take_decoder i seed ?w ?h b = (g2, c)" by fastforce
  obtain g3 d where d: "open_decoder va i ?w ?h (resize_decoder ?w ?h c) = (g3, d)" by fastforce
  have ok: "tex_ok b" using tex_leave_bitmap [OF a b] .
  have "tex_view c = tex_view b" by (rule tex_take_decoder [OF c])
  moreover have "tex_view d = tex_view c" using tex_open_decoder [OF d] tex_resize_decoder by simp
  ultimately have cd: "tex_ok c" "tex_ok d" "tex_ok (feed_decoder va i au seed d)" for au
    using ok tex_view_ok tex_view_ok [OF tex_feed] by blast+
  have put: "tex_ok (put_slot i s a)" "tex_ok (decoder_error i a)" for s
    using tex_view_eq [OF tex_put_slot a] tex_view_eq [OF tex_frames(1) a] by simp_all
  show ?thesis
    unfolding native_video_ingest_au_locked_def sc Let_def a_def [symmetric] prod.case sn
    using a put ok cd by (cases g1; cases g2; cases g3) (simp_all add: b c d)
qed

lemma tex_video_au:
  assumes "tex_ok app"
  shows "tex_ok (on_video_au va mem i codec data pts app)"
proof -
  have "tex_ok (native_video_ingest_au va mem i k data pts app)" for k
    unfolding native_video_ingest_au_def Let_def
    by (rule tex_ingest, rule tex_view_eq [OF _ assms]) simp
  moreover have "tex_ok (native_slot_report_terminal i st code app)" for st code
    unfolding native_slot_report_terminal_def by (rule tex_view_eq [OF tex_terminal assms])
  ultimately show ?thesis by (simp add: on_video_au_def)
qed

lemma tex_stop_media:
  assumes "tex_ok app"
  shows "tex_ok (native_stop_media app)"
proof -
  define a where "a = native_reset_rgba_owner ((close_canvas True (ap_rgba app) app)\<lparr>ap_rgba := None\<rparr>)"
  have "tex_ok ((close_canvas True (ap_rgba app) app)\<lparr>ap_rgba := None\<rparr>)"
    using tex_inv_close(1) [OF assms [unfolded tex_ok_def]] by (simp add: tex_ok_def tex_close_canvas)
  then have "tex_ok a" unfolding a_def by (rule tex_view_eq [OF tex_frames(6)])
  then have b: "tex_ok (native_close_hub_return_rgba_locked a)" by (rule tex_close_hub)
  define c where "c = (if ap_video (native_close_hub_return_rgba_locked a) \<noteq> None
    then log_event CloseVideo (native_close_hub_return_rgba_locked a) else native_close_hub_return_rgba_locked a)
    \<lparr>ap_video := None, ap_media := False\<rparr>"
  have "tex_view c = tex_view (native_close_hub_return_rgba_locked a)" by (simp add: c_def tex_view_def log_event_def)
  then have "tex_ok c" using b by (rule tex_view_eq)
  from tex_destroy_pending [OF this] show ?thesis
    unfolding native_stop_media_def Let_def a_def [symmetric] c_def [symmetric] .
qed

lemma tex_detach:
  assumes "tex_ok app"
  shows "tex_ok (native_destroy_rgba_renderer_textures app)"
proof -
  have t: "tex (snd (take_canvas_texture c)) = [] \<and> pending (fst (take_canvas_texture c)) = tex c" for c
    using take_texture by (cases c) (auto simp: take_canvas_texture_def case_prod_beta pending_def tex_def prod_eq_iff split: option.split)
  obtain x r where r: "take_canvas_texture (ap_rgba app) = (x, r)" by fastforce
  obtain y h where h: "take_canvas_texture (ap_hub_return_rgba app) = (y, h)" by fastforce
  define a where "a = app\<lparr>ap_rgba := r, ap_hub_return_rgba := h, ap_pending_texture_destroy := None\<rparr>"
  have d: "ap_textures (destroy_texture z b) = (ap_textures b)\<lparr>tx_destroyed := tx_destroyed (ap_textures b) @ map (\<lambda>t. (t, True)) (pending z)\<rparr>"
    "ap_rgba (destroy_texture z b) = ap_rgba b" "ap_hub_return_rgba (destroy_texture z b) = ap_hub_return_rgba b"
    "ap_pending_texture_destroy (destroy_texture z b) = ap_pending_texture_destroy b" for z b
    by (simp_all add: destroy_texture_def SDL_DestroyTexture_def pending_def split: option.split)
  have e: "tex r = []" "pending x = tex (ap_rgba app)" "tex h = []" "pending y = tex (ap_hub_return_rgba app)"
    using t [of "ap_rgba app"] t [of "ap_hub_return_rgba app"] r h by simp_all
  have f: "native_destroy_rgba_renderer_textures app =
      destroy_texture (ap_pending_texture_destroy app) (destroy_texture y (destroy_texture x a))"
    using r h by (simp add: native_destroy_rgba_renderer_textures_def Let_def a_def)
  show ?thesis
    using tex_inv_close(3) [OF tex_inv_close(2) [OF tex_inv_close(1) [OF assms [unfolded tex_ok_def]]]]
    unfolding f tex_ok_def d by (simp add: a_def e)
qed

lemma tex_report: "tex_view (report app e) = tex_view app"
  by (cases e) (simp_all add: native_slot_record_state_def native_slot_report_terminal_def Let_def)

lemma tex_connect: "tex_view (connect_slot_video arm mem runtime started i app) = tex_view app"
proof -
  have o: "tex_view (x\<lparr>ap_decoder_errors := a, ap_tiles_dropped_under_video := b, ap_decoder_keyframe_pending := c, ap_exit_code := d\<rparr>) = tex_view x"
    for x a b c d by (simp add: tex_view_def)
  show ?thesis by (simp add: connect_slot_video_def stop_slot_video_def Let_def o)
qed

lemma tex_step:
  assumes "tex_ok app" "video_step app op = Some app'"
  shows "tex_ok app'"
proof (cases op)
  case (OpBitmap va i left ytop width height stride rgba len)
  then show ?thesis using tex_bitmap [OF assms(1)] assms(2) by simp
next
  case (OpConfigurator i)
  have "tex_ok (native_close_rgba_locked True False (native_capture_hub_return_rgba_locked app))"
    using tex_close_rgba [OF tex_capture [OF assms(1)]] by simp
  then show ?thesis using OpConfigurator assms(2) tex_activate(1) by (auto simp: configurator_locked_def Let_def)
next
  case (OpConnectFromUi hub i)
  define a where "a = (if hub then native_capture_hub_return_rgba_locked app else app)"
  have a: "tex_ok a" using assms(1) tex_capture by (simp add: a_def)
  have "tex_ok (if ap_hub_return_rgba a \<noteq> None then native_arm_hub_return_replacement_locked i e n a else a)" for e n
    by (rule tex_view_eq [OF _ a]) simp
  from tex_close_rgba [OF this] have "tex_ok (native_close_rgba_locked True False
      (if ap_hub_return_rgba a \<noteq> None then native_arm_hub_return_replacement_locked i e n a else a))" for e n by simp
  then have "tex_ok (connect_locked hub i app)"
    unfolding connect_locked_def Let_def a_def [symmetric] by (intro tex_activate(2))
  then show ?thesis using OpConnectFromUi assms(2) by simp
next
  case (OpHub visible i)
  then show ?thesis using assms by (auto simp: tex_ok_def)
qed (use assms tex_video_au tex_ingest tex_draw tex_handoff tex_stop_media tex_detach tex_view_eq [OF tex_report]
    tex_view_eq [OF tex_connect] tex_view_eq [OF tex_put_slot] in \<open>auto simp: stop_slot_video_def\<close>)

lemma tex_run: "tex_ok app \<Longrightarrow> video_run app ops = Some app' \<Longrightarrow> tex_ok app'"
proof (induction ops arbitrary: app)
  case (Cons op ops)
  then show ?case using tex_step by (auto split: option.splits)
qed simp

section \<open>Properties\<close>

text \<open>
  C39: SDL's rule that a renderer's textures are destroyed on its own thread is kept.  From a dark screen,
  in every interleaving of the sessions' workers (which close, resize and replace canvases) and the
  SDL thread (which draws them and tears them down), \<open>SDL_DestroyTexture\<close> is called at most once
  per texture and by the SDL thread only, and neither a canvas nor the hand-over slot still holds a
  destroyed texture or one that another of them holds.
\<close>

theorem textures_destroyed_once_by_sdl_thread:
  assumes "dark app" "ap_pending_texture_destroy app = None" "tx_destroyed (ap_textures app) = []"
    and "video_run app ops = Some app'"
  shows "distinct (tex (ap_rgba app') @ tex (ap_hub_return_rgba app') @ pending (ap_pending_texture_destroy app') @
      map fst (tx_destroyed (ap_textures app'))) \<and>
    list_all snd (tx_destroyed (ap_textures app'))"
proof -
  have "tex_ok app" using assms(1-3) by (simp add: dark_def tex_ok_def tex_inv_def)
  from tex_run [OF this assms(4)] show ?thesis by (auto simp: tex_ok_def tex_inv_def list_all_iff)
qed

text \<open>A frame is drawn, the slot's canvas is then resized by its worker, and the next frame drains the texture.\<close>

definition texture_ops :: "VideoOp list" where
  "texture_ops = [OpBitmap example_answers 0 0 0 1 1 4 (Some [1, 2, 3, 4]) 4, OpDraw True True True 0,
     OpDesktopSize 0 800 600, OpBitmap example_answers 0 0 0 1 1 4 (Some [1, 2, 3, 4]) 4, OpDraw True True True 0]"

theorem textures_destroyed_once_by_sdl_thread_witness:
  "\<exists>app'. video_run example_app texture_ops = Some app' \<and>
    distinct (tex (ap_rgba app') @ tex (ap_hub_return_rgba app') @ pending (ap_pending_texture_destroy app') @
      map fst (tx_destroyed (ap_textures app'))) \<and> list_all snd (tx_destroyed (ap_textures app'))"
proof -
  have ok: "list_all op_ok texture_ops"
    by (simp add: texture_ops_def example_answers_def buffer_ok_def)
  obtain app' where run: "video_run example_app texture_ops = Some app'"
    using run_inv [OF dark_inv [OF example_dark] ok] by blast
  have "ap_pending_texture_destroy example_app = None" "tx_destroyed (ap_textures example_app) = []"
    by (simp_all add: example_app_def)
  from textures_destroyed_once_by_sdl_thread [OF example_dark this run] run show ?thesis by blast
qed

end
