(* ===== verification/Audio_Source.thy ===== *)
theory Audio_Source
  imports Audio_Jitter "HOL-Library.Signed_Division"
begin

text \<open>
  One playback source of the audio mix, \<open>native/src/audio_pipeline_source.c\<close>: a lock-free ring the
  session's RDP worker pushes decoded frames into and the mixer's pump thread reads through a sample
  rate converter, with the generations that hand a format change or a talkspurt boundary over, the
  trim of an excessive backlog, the playout gate and the rate correction.  Cursors are 32-bit words
  that wrap.  The converter belongs to miniaudio: \<open>conv\<close> says how many frames it consumes and
  produces, \<open>reset_ok\<close> whether it can be set up.  The floating point side (fade envelope, gains,
  meters, the ratio handed to the converter) is left out; the fade's frame counters are kept.
\<close>

section \<open>Data\<close>

definition NATIVE_AUDIO_PIPELINE_SAMPLE_RATE :: u32 where "NATIVE_AUDIO_PIPELINE_SAMPLE_RATE = 48000"
definition NATIVE_AUDIO_PIPELINE_CHANNELS :: nat where "NATIVE_AUDIO_PIPELINE_CHANNELS = 2"
definition NATIVE_AUDIO_PIPELINE_BLOCK_FRAMES :: int where "NATIVE_AUDIO_PIPELINE_BLOCK_FRAMES = 480"
definition NATIVE_AUDIO_PIPELINE_CAPACITY_FRAMES :: nat where "NATIVE_AUDIO_PIPELINE_CAPACITY_FRAMES = 65536"
definition NATIVE_AUDIO_STALE_BURST_MS :: u32 where "NATIVE_AUDIO_STALE_BURST_MS = 100"
definition NATIVE_AUDIO_HARD_TRIM_ERROR_MS :: u32 where "NATIVE_AUDIO_HARD_TRIM_ERROR_MS = 80"
definition NATIVE_AUDIO_HARD_TRIM_KEEP_MS :: u32 where "NATIVE_AUDIO_HARD_TRIM_KEEP_MS = 20"
definition NATIVE_AUDIO_FADE_FRAMES :: nat where "NATIVE_AUDIO_FADE_FRAMES = 240"
definition NATIVE_AUDIO_MAX_CORRECTION_PPM :: int where "NATIVE_AUDIO_MAX_CORRECTION_PPM = 5000"
definition NATIVE_AUDIO_CORRECTION_STEP_PPM :: int where "NATIVE_AUDIO_CORRECTION_STEP_PPM = 250"

abbreviation CAP :: nat where "CAP \<equiv> NATIVE_AUDIO_PIPELINE_CAPACITY_FRAMES"

type_synonym frame = "i16 \<times> i16"

record NativeAudioSource =
  so_ring :: "frame list"
  so_converter_initialized :: bool
  so_read_cursor :: u32
  so_write_cursor :: u32
  so_reset_cursor :: u32
  so_format_generation :: u32
  so_pending_sample_rate :: u32
  so_pending_channels :: u32
  so_open :: bool
  so_trim_requested :: bool
  so_talkspurt_cursor :: u32
  so_talkspurt_generation :: u32
  so_last_push_ms :: u32
  so_target_delay_ms :: u32
  so_jitter_p95_ms :: u32
  so_correction_ppm :: int
  so_underruns :: u32
  so_hard_corrections :: u32
  so_overflows :: u32
  so_producer_sample_rate :: u32
  so_producer_channels :: u16
  so_jitter :: NativeAudioJitterController
  so_applied_generation :: u32
  so_seen_talkspurt_generation :: u32
  so_sample_rate :: u32
  so_channels :: u16
  so_live :: bool
  so_rebuffering :: bool
  so_trim_after_fade :: bool
  so_fade_out_remaining :: nat
  so_fade_in_remaining :: nat
  so_current_correction_ppm :: int
  so_drift_integral_ppm :: int

record NativeAudioSourceStats =
  au_open :: bool
  au_queue_ms :: u32
  au_target_delay_ms :: u32
  au_jitter_p95_ms :: u32
  au_src_correction_ppm :: int
  au_underruns :: u32
  au_hard_corrections :: u32
  au_overflows :: u32

section \<open>The queue and its target\<close>

definition source_available_frames :: "NativeAudioSource \<Rightarrow> nat" where
  "source_available_frames s = min (unat (so_write_cursor s - so_read_cursor s)) CAP"

definition native_audio_source_queue_ms :: "NativeAudioSource \<Rightarrow> u32" where
  "native_audio_source_queue_ms s =
     (let rate = so_pending_sample_rate s in
      if rate \<noteq> 0 then word_of_nat (source_available_frames s * 1000 div unat rate) else 0)"

definition source_raise_target :: "u32 \<Rightarrow> NativeAudioSource \<Rightarrow> NativeAudioSource" where
  "source_raise_target desired_ms s =
     (let desired_ms = clamp_u32 desired_ms NATIVE_AUDIO_JITTER_TARGET_MIN_MS NATIVE_AUDIO_JITTER_TARGET_MAX_MS in
      if so_target_delay_ms s < desired_ms then s\<lparr>so_target_delay_ms := desired_ms\<rparr> else s)"

text \<open>The arrival controller: the new target, and whether a talkspurt begins.\<close>

definition arrival_target :: "u32 \<Rightarrow> u32 \<Rightarrow> u32 \<Rightarrow> NativeAudioSource \<Rightarrow> bool \<times> NativeAudioSource" where
  "arrival_target frames timestamp_ms now_ms s =
     (case native_audio_jitter_update (so_jitter s) frames (so_producer_sample_rate s) timestamp_ms now_ms
        (so_underruns s) (so_target_delay_ms s) of (update, jitter) \<Rightarrow>
      let s = s\<lparr>so_jitter := jitter, so_jitter_p95_ms := ju_jitter_p95_ms update\<rparr>;
          s = (case ju_target_action update of
                 TARGET_UNCHANGED \<Rightarrow> s
               | TARGET_SET \<Rightarrow> s\<lparr>so_target_delay_ms := ju_target_delay_ms update\<rparr>
               | TARGET_RAISE \<Rightarrow> source_raise_target (ju_target_delay_ms update) s
               | TARGET_DECAY \<Rightarrow> s\<lparr>so_target_delay_ms := ju_target_delay_ms update\<rparr>) in
      (ju_talkspurt update, s))"

definition store_talkspurt_cursor :: "u32 \<Rightarrow> NativeAudioSource \<Rightarrow> NativeAudioSource" where
  "store_talkspurt_cursor write_boundary s = s\<lparr>so_talkspurt_cursor := write_boundary\<rparr>"

definition bump_talkspurt_generation :: "NativeAudioSource \<Rightarrow> NativeAudioSource" where
  "bump_talkspurt_generation s = s\<lparr>so_talkspurt_generation := so_talkspurt_generation s + 1\<rparr>"

definition source_update_arrival_controller :: "u32 \<Rightarrow> u32 \<Rightarrow> u32 \<Rightarrow> u32 \<Rightarrow> NativeAudioSource \<Rightarrow> NativeAudioSource" where
  "source_update_arrival_controller frames timestamp_ms now_ms write_boundary s =
     (case arrival_target frames timestamp_ms now_ms s of (talkspurt, s) \<Rightarrow>
      if talkspurt then bump_talkspurt_generation (store_talkspurt_cursor write_boundary s) else s)"

section \<open>Discontinuities\<close>

definition source_reset_converter :: "bool \<Rightarrow> NativeAudioSource \<Rightarrow> NativeAudioSource" where
  "source_reset_converter reset_ok s = s\<lparr>so_converter_initialized := reset_ok\<rparr>"

definition source_advance_read_cursor :: "u32 \<Rightarrow> NativeAudioSource \<Rightarrow> NativeAudioSource" where
  "source_advance_read_cursor boundary s =
     (let advance = boundary - so_read_cursor s in
      if unat advance \<le> CAP then s\<lparr>so_read_cursor := boundary\<rparr> else s)"

text \<open>Once the generation \<open>g\<close> has been loaded and found new.\<close>

definition apply_generation_at :: "bool \<Rightarrow> u32 \<Rightarrow> NativeAudioSource \<Rightarrow> NativeAudioSource" where
  "apply_generation_at reset_ok g s =
     (let s = s\<lparr>so_sample_rate := so_pending_sample_rate s, so_channels := ucast (so_pending_channels s)\<rparr>;
          s = source_advance_read_cursor (so_reset_cursor s) s in
      source_reset_converter reset_ok (s\<lparr>so_applied_generation := g, so_live := False, so_rebuffering := True,
        so_trim_after_fade := False, so_fade_out_remaining := 0, so_fade_in_remaining := 0,
        so_current_correction_ppm := 0, so_drift_integral_ppm := 0, so_correction_ppm := 0\<rparr>))"

definition source_apply_generation :: "bool \<Rightarrow> NativeAudioSource \<Rightarrow> bool \<times> NativeAudioSource" where
  "source_apply_generation reset_ok s =
     (let g = so_format_generation s in
      if g = so_applied_generation s then (False, s) else (True, apply_generation_at reset_ok g s))"

definition apply_talkspurt_at :: "u32 \<Rightarrow> NativeAudioSource \<Rightarrow> NativeAudioSource" where
  "apply_talkspurt_at g s =
     (let s = source_advance_read_cursor (so_talkspurt_cursor s) s in
      s\<lparr>so_seen_talkspurt_generation := g, so_live := False, so_rebuffering := True, so_trim_after_fade := False,
        so_fade_out_remaining := 0, so_fade_in_remaining := 0, so_current_correction_ppm := 0, so_correction_ppm := 0\<rparr>)"

definition source_apply_talkspurt :: "NativeAudioSource \<Rightarrow> bool \<times> NativeAudioSource" where
  "source_apply_talkspurt s =
     (let g = so_talkspurt_generation s in
      if g = so_seen_talkspurt_generation s then (False, s) else (True, apply_talkspurt_at g s))"

section \<open>Trimming\<close>

text \<open>Frames over what the target keeps, given a loaded write cursor.\<close>

definition trim_excess :: "u32 \<Rightarrow> NativeAudioSource \<Rightarrow> nat" where
  "trim_excess write s =
     (let keep_frames_64 = unat (so_target_delay_ms s + NATIVE_AUDIO_HARD_TRIM_KEEP_MS) * unat (so_sample_rate s) div 1000;
          keep_frames = min keep_frames_64 (2 ^ 32 - 1) in
      unat (write - so_read_cursor s) - keep_frames)"

definition trim_at :: "u32 \<Rightarrow> NativeAudioSource \<Rightarrow> nat \<times> NativeAudioSource" where
  "trim_at write s =
     (let excess = trim_excess write s in
      if excess = 0 then (0, s\<lparr>so_trim_requested := False\<rparr>)
      else (excess, s\<lparr>so_read_cursor := so_read_cursor s + word_of_nat excess, so_current_correction_ppm := 0,
              so_correction_ppm := 0, so_trim_requested := False, so_hard_corrections := so_hard_corrections s + 1\<rparr>))"

definition source_trim_to_target :: "NativeAudioSource \<Rightarrow> nat \<times> NativeAudioSource" where
  "source_trim_to_target s = trim_at (so_write_cursor s) s"

section \<open>Rate correction\<close>

definition clamp_ppm :: "int \<Rightarrow> int" where
  "clamp_ppm ppm = max (- NATIVE_AUDIO_MAX_CORRECTION_PPM) (min NATIVE_AUDIO_MAX_CORRECTION_PPM ppm)"

definition correction_proportional :: "int \<Rightarrow> int" where
  "correction_proportional error_ms =
     (let magnitude = \<bar>error_ms\<bar> in
      if magnitude > 10 then
        let p = min magnitude 50 * NATIVE_AUDIO_MAX_CORRECTION_PPM div 50 in if error_ms < 0 then - p else p
      else 0)"

definition correction_integral_step :: "int \<Rightarrow> int" where
  "correction_integral_step error_ms =
     (let integral_step = error_ms sdiv 4 in
      if integral_step = 0 \<and> error_ms \<noteq> 0 then (if error_ms < 0 then - 1 else 1) else integral_step)"

definition source_update_rate_correction :: "NativeAudioSource \<Rightarrow> NativeAudioSource" where
  "source_update_rate_correction s =
     (if \<not> so_converter_initialized s \<or> so_sample_rate s = 0 \<or> \<not> so_live s
      then s\<lparr>so_current_correction_ppm := 0, so_correction_ppm := 0\<rparr>
      else
        let error_ms = sint (native_audio_source_queue_ms s) - sint (so_target_delay_ms s) -
              NATIVE_AUDIO_PIPELINE_BLOCK_FRAMES * 1000 div uint NATIVE_AUDIO_PIPELINE_SAMPLE_RATE;
            integral_step = correction_integral_step error_ms;
            s = (if integral_step \<noteq> 0 then s\<lparr>so_drift_integral_ppm := clamp_ppm (so_drift_integral_ppm s + integral_step)\<rparr> else s);
            desired = clamp_ppm (correction_proportional error_ms + so_drift_integral_ppm s);
            current = so_current_correction_ppm s;
            current = (if desired > current + NATIVE_AUDIO_CORRECTION_STEP_PPM then current + NATIVE_AUDIO_CORRECTION_STEP_PPM
                       else if desired < current - NATIVE_AUDIO_CORRECTION_STEP_PPM then current - NATIVE_AUDIO_CORRECTION_STEP_PPM
                       else desired) in
        s\<lparr>so_current_correction_ppm := current, so_correction_ppm := current\<rparr>)"

section \<open>Reading through the converter\<close>

text \<open>The converter's answer to \<open>contiguous\<close> offered frames and \<open>room\<close> wanted ones: consumed, produced, success.\<close>

type_synonym converter = "NativeAudioSource \<Rightarrow> nat \<Rightarrow> nat \<Rightarrow> nat \<times> nat \<times> bool"

definition ring_slice :: "nat \<Rightarrow> nat \<Rightarrow> NativeAudioSource \<Rightarrow> frame list" where
  "ring_slice ring_pos n s = map (\<lambda>k. so_ring s ! (ring_pos + k)) [0..<n]"

text \<open>The frames handed to the converter are returned beside the count of the frames it produced.\<close>

partial_function (option) convert_loop :: "bool \<Rightarrow> converter \<Rightarrow> nat \<Rightarrow> nat \<Rightarrow> frame list \<Rightarrow> NativeAudioSource \<Rightarrow>
    (nat \<times> bool \<times> frame list \<times> NativeAudioSource) option" where
  "convert_loop reset_ok conv frames produced taken s =
     (if produced < frames \<and> so_converter_initialized s then
        let write = so_write_cursor s in
        (case source_apply_generation reset_ok s of (format_changed, s) \<Rightarrow>
         case source_apply_talkspurt s of (talkspurt_changed, s) \<Rightarrow>
           if format_changed \<or> talkspurt_changed then Some (produced, True, taken, s)
           else
             let available = unat (write - so_read_cursor s) in
             if available = 0 then Some (produced, False, taken, s)
             else
               let ring_pos = unat (so_read_cursor s) mod CAP;
                   contiguous = min (CAP - ring_pos) available in
               (case conv s contiguous (frames - produced) of (input_count, output_count, success) \<Rightarrow>
                  let taken = taken @ ring_slice ring_pos input_count s;
                      s = (if input_count > 0 then s\<lparr>so_read_cursor := so_read_cursor s + word_of_nat input_count\<rparr> else s);
                      produced = produced + output_count in
                  if \<not> success \<or> input_count = 0 \<and> output_count = 0 then Some (produced, False, taken, s)
                  else convert_loop reset_ok conv frames produced taken s))
      else Some (produced, False, taken, s))"

definition source_convert_frames :: "bool \<Rightarrow> converter \<Rightarrow> nat \<Rightarrow> NativeAudioSource \<Rightarrow>
    (nat \<times> bool \<times> frame list \<times> NativeAudioSource) option" where
  "source_convert_frames reset_ok conv frames s = convert_loop reset_ok conv frames 0 [] s"

text \<open>The fade counters over a number of frames.\<close>

primrec envelope_counters :: "nat \<Rightarrow> NativeAudioSource \<Rightarrow> NativeAudioSource" where
  "envelope_counters 0 s = s"
| "envelope_counters (Suc n) s = envelope_counters n
     (if so_fade_out_remaining s > 0 then s\<lparr>so_fade_out_remaining := so_fade_out_remaining s - 1\<rparr>
      else if so_fade_in_remaining s > 0 then s\<lparr>so_fade_in_remaining := so_fade_in_remaining s - 1\<rparr> else s)"

definition source_mark_unavailable :: "NativeAudioSource \<Rightarrow> NativeAudioSource" where
  "source_mark_unavailable s = s\<lparr>so_live := False, so_rebuffering := True\<rparr>"

definition trim_margin :: "NativeAudioSource \<Rightarrow> u32" where
  "trim_margin s = max (so_target_delay_ms s) NATIVE_AUDIO_HARD_TRIM_ERROR_MS"

definition excessive_backlog :: "NativeAudioSource \<Rightarrow> bool" where
  "excessive_backlog s \<longleftrightarrow> native_audio_source_queue_ms s > so_target_delay_ms s + trim_margin s"

text \<open>Whether the source plays, and whether a trim is wanted.\<close>

definition source_prepare_playout :: "u32 \<Rightarrow> NativeAudioSource \<Rightarrow> bool \<times> bool \<times> NativeAudioSource" where
  "source_prepare_playout now_ms s =
     (let s = (if so_rebuffering s \<and> (so_trim_requested s \<or> excessive_backlog s)
               then (case source_trim_to_target s of (dropped, s) \<Rightarrow>
                 if dropped > 0 then s\<lparr>so_fade_in_remaining := NATIVE_AUDIO_FADE_FRAMES\<rparr> else s)
               else s);
          trim_requested = (so_trim_requested s \<or> excessive_backlog s);
          queue_ms = native_audio_source_queue_ms s;
          stale_short_burst = (queue_ms > 0 \<and> now_ms - so_last_push_ms s \<ge> NATIVE_AUDIO_STALE_BURST_MS);
          s = (if so_rebuffering s \<and> (queue_ms \<ge> so_target_delay_ms s \<or> stale_short_burst)
               then s\<lparr>so_rebuffering := False, so_live := True, so_fade_in_remaining := NATIVE_AUDIO_FADE_FRAMES\<rparr> else s) in
      (so_live s, trim_requested, s))"

definition source_prepare_live_read :: "bool \<Rightarrow> NativeAudioSource \<Rightarrow> NativeAudioSource" where
  "source_prepare_live_read trim_requested s = source_update_rate_correction
     (if \<not> so_trim_after_fade s \<and> so_fade_out_remaining s = 0 \<and> trim_requested
      then s\<lparr>so_trim_after_fade := True, so_fade_out_remaining := NATIVE_AUDIO_FADE_FRAMES, so_fade_in_remaining := 0\<rparr>
      else s)"

section \<open>One read of the mixer\<close>

text \<open>The trim a finished fade-out was for.\<close>

definition trim_after_fade :: "NativeAudioSource \<Rightarrow> NativeAudioSource" where
  "trim_after_fade s =
     (if so_trim_after_fade s \<and> so_fade_out_remaining s = 0
      then source_update_rate_correction ((snd (source_trim_to_target s))
        \<lparr>so_trim_after_fade := False, so_fade_in_remaining := NATIVE_AUDIO_FADE_FRAMES\<rparr>)
      else s)"

definition render_segment :: "nat \<Rightarrow> NativeAudioSource \<Rightarrow> nat" where
  "render_segment room s =
     (if so_fade_out_remaining s > 0 \<and> room > so_fade_out_remaining s then so_fade_out_remaining s else room)"

lemma render_segment_pos: "0 < room \<Longrightarrow> 0 < render_segment room s"
  by (simp add: render_segment_def)

function render_loop :: "bool \<Rightarrow> converter \<Rightarrow> nat \<Rightarrow> nat \<Rightarrow> bool \<Rightarrow> frame list \<Rightarrow> NativeAudioSource \<Rightarrow>
    (bool \<times> frame list \<times> NativeAudioSource) option" where
  "render_loop reset_ok conv frames offset underrun taken s =
     (if offset < frames then
        let s = trim_after_fade s;
            segment = render_segment (frames - offset) s in
        (case source_convert_frames reset_ok conv segment s of
           None \<Rightarrow> None
         | Some (produced, discontinuity_applied, read, s) \<Rightarrow>
             let underrun = (underrun \<or> \<not> discontinuity_applied \<and> produced < segment);
                 gain_frames = (if discontinuity_applied then frames - offset else segment) in
             render_loop reset_ok conv frames (offset + gain_frames) underrun (taken @ read) (envelope_counters gain_frames s))
      else Some (underrun, taken, s))"
  by pat_completeness auto
termination
proof (relation "measure (\<lambda>(_, _, frames, offset, _). frames - offset)", goal_cases)
  case (2 reset_ok conv frames offset underrun taken s s1 segment x p y d z m s2 u gain_frames)
  then have "0 < segment" using render_segment_pos [of "frames - offset" s1] by simp
  with 2 show ?case by auto
qed simp

declare render_loop.simps [simp del]

definition source_render_live :: "bool \<Rightarrow> converter \<Rightarrow> nat \<Rightarrow> NativeAudioSource \<Rightarrow>
    (bool \<times> frame list \<times> NativeAudioSource) option" where
  "source_render_live reset_ok conv frames s = render_loop reset_ok conv frames 0 False [] s"

definition source_handle_underrun :: "NativeAudioSource \<Rightarrow> NativeAudioSource" where
  "source_handle_underrun s =
     (let s = s\<lparr>so_underruns := so_underruns s + 1\<rparr>;
          s = source_raise_target (so_target_delay_ms s + NATIVE_AUDIO_JITTER_TARGET_HEADROOM_MS) s in
      s\<lparr>so_live := False, so_rebuffering := True, so_trim_after_fade := False, so_fade_out_remaining := 0,
        so_fade_in_remaining := 0, so_current_correction_ppm := 0, so_correction_ppm := 0\<rparr>)"

text \<open>The frames handed to the converter and the new state.\<close>

definition source_read :: "bool \<Rightarrow> converter \<Rightarrow> u32 \<Rightarrow> nat \<Rightarrow> NativeAudioSource \<Rightarrow> (frame list \<times> NativeAudioSource) option" where
  "source_read reset_ok conv now_ms frames s =
     (if frames = 0 then Some ([], s)
      else
        let s = snd (source_apply_generation reset_ok s);
            s = snd (source_apply_talkspurt s) in
        if \<not> so_open s \<or> \<not> so_converter_initialized s
        then Some ([], envelope_counters frames (source_mark_unavailable s))
        else (case source_prepare_playout now_ms s of
            (False, _, s) \<Rightarrow> Some ([], envelope_counters frames (s\<lparr>so_current_correction_ppm := 0, so_correction_ppm := 0\<rparr>))
          | (True, trim_requested, s) \<Rightarrow>
              (case source_render_live reset_ok conv frames (source_prepare_live_read trim_requested s) of
                 None \<Rightarrow> None
               | Some (underrun, taken, s) \<Rightarrow> Some (taken, if underrun then source_handle_underrun s else s))))"

section \<open>The producer\<close>

text \<open>A source as \<open>native_audio_sources_init\<close> leaves it.\<close>

definition native_audio_source_init :: "u32 \<Rightarrow> NativeAudioSource" where
  "native_audio_source_init now_ms = \<lparr>so_ring = replicate CAP (0, 0), so_converter_initialized = False,
     so_read_cursor = 0, so_write_cursor = 0, so_reset_cursor = 0, so_format_generation = 0,
     so_pending_sample_rate = NATIVE_AUDIO_PIPELINE_SAMPLE_RATE,
     so_pending_channels = word_of_nat NATIVE_AUDIO_PIPELINE_CHANNELS, so_open = False, so_trim_requested = False,
     so_talkspurt_cursor = 0, so_talkspurt_generation = 0, so_last_push_ms = 0,
     so_target_delay_ms = NATIVE_AUDIO_JITTER_TARGET_INITIAL_MS, so_jitter_p95_ms = 0, so_correction_ppm = 0,
     so_underruns = 0, so_hard_corrections = 0, so_overflows = 0,
     so_producer_sample_rate = NATIVE_AUDIO_PIPELINE_SAMPLE_RATE,
     so_producer_channels = word_of_nat NATIVE_AUDIO_PIPELINE_CHANNELS,
     so_jitter = native_audio_jitter_reset now_ms 0, so_applied_generation = 0, so_seen_talkspurt_generation = 0,
     so_sample_rate = NATIVE_AUDIO_PIPELINE_SAMPLE_RATE,
     so_channels = word_of_nat NATIVE_AUDIO_PIPELINE_CHANNELS, so_live = False, so_rebuffering = True,
     so_trim_after_fade = False, so_fade_out_remaining = 0, so_fade_in_remaining = 0, so_current_correction_ppm = 0,
     so_drift_integral_ppm = 0\<rparr>"

definition source_format_ok :: "u32 \<Rightarrow> u16 \<Rightarrow> bool" where
  "source_format_ok sample_rate channels \<longleftrightarrow> \<not> (sample_rate < 8000 \<or> sample_rate > 192000 \<or> channels = 0 \<or>
     unat channels > NATIVE_AUDIO_PIPELINE_CHANNELS)"

text \<open>A format is stored with its boundary; the generation publishes it.\<close>

definition store_source_format :: "u32 \<Rightarrow> u32 \<Rightarrow> u16 \<Rightarrow> NativeAudioSource \<Rightarrow> NativeAudioSource" where
  "store_source_format now_ms sample_rate channels s =
     s\<lparr>so_producer_sample_rate := sample_rate, so_producer_channels := channels,
       so_jitter := native_audio_jitter_reset now_ms (so_underruns s), so_jitter_p95_ms := 0,
       so_target_delay_ms := NATIVE_AUDIO_JITTER_TARGET_INITIAL_MS, so_pending_sample_rate := sample_rate,
       so_pending_channels := ucast channels, so_reset_cursor := so_write_cursor s\<rparr>"

definition bump_format_generation :: "NativeAudioSource \<Rightarrow> NativeAudioSource" where
  "bump_format_generation s = s\<lparr>so_format_generation := so_format_generation s + 1\<rparr>"

definition native_audio_pipeline_set_source_format :: "u32 \<Rightarrow> u32 \<Rightarrow> u16 \<Rightarrow> NativeAudioSource \<Rightarrow> bool \<times> NativeAudioSource" where
  "native_audio_pipeline_set_source_format now_ms sample_rate channels s =
     (if \<not> source_format_ok sample_rate channels then (False, s)
      else (True, (bump_format_generation (store_source_format now_ms sample_rate channels s))\<lparr>so_open := True\<rparr>))"

definition store_source_close :: "NativeAudioSource \<Rightarrow> NativeAudioSource" where
  "store_source_close s = s\<lparr>so_open := False, so_reset_cursor := so_write_cursor s\<rparr>"

definition native_audio_pipeline_close_source :: "NativeAudioSource \<Rightarrow> NativeAudioSource" where
  "native_audio_pipeline_close_source s =
     (let s = bump_format_generation (store_source_close s) in
      s\<lparr>so_jitter := native_audio_jitter_mark_discontinuity (so_jitter s)\<rparr>)"

text \<open>The frame at an index of the interleaved samples; mono is doubled.\<close>

definition sample_frame :: "u16 \<Rightarrow> i16 list \<Rightarrow> nat \<Rightarrow> frame" where
  "sample_frame channels samples i =
     (if unat channels = NATIVE_AUDIO_PIPELINE_CHANNELS then (samples ! (2 * i), samples ! (2 * i + 1))
      else (samples ! i, samples ! i))"

text \<open>The frames a push may write: those the free space takes.\<close>

definition push_room :: "nat \<Rightarrow> NativeAudioSource \<Rightarrow> nat" where
  "push_room frames s = min frames (CAP - unat (so_write_cursor s - so_read_cursor s))"

definition note_overflow :: "nat \<Rightarrow> nat \<Rightarrow> NativeAudioSource \<Rightarrow> NativeAudioSource" where
  "note_overflow frames to_write s =
     (if frames - to_write > 0 then s\<lparr>so_trim_requested := True, so_overflows := so_overflows s + 1\<rparr> else s)"

text \<open>The copy loop, a contiguous run of the ring at a time.\<close>

function push_copy_loop :: "(nat \<Rightarrow> frame) \<Rightarrow> u32 \<Rightarrow> nat \<Rightarrow> nat \<Rightarrow> frame list \<Rightarrow> frame list" where
  "push_copy_loop frame_at write to_write copied ring =
     (if copied < to_write then
        let ring_pos = unat (write + word_of_nat copied) mod CAP;
            contiguous = min (CAP - ring_pos) (to_write - copied) in
        push_copy_loop frame_at write to_write (copied + contiguous)
          (take ring_pos ring @ map (\<lambda>k. frame_at (copied + k)) [0..<contiguous] @ drop (ring_pos + contiguous) ring)
      else ring)"
  by pat_completeness auto
termination
  by (relation "measure (\<lambda>(_, _, to_write, copied, _). to_write - copied)")
    (auto simp: NATIVE_AUDIO_PIPELINE_CAPACITY_FRAMES_def)

declare push_copy_loop.simps [simp del]

definition publish_write :: "nat \<Rightarrow> u32 \<Rightarrow> NativeAudioSource \<Rightarrow> NativeAudioSource" where
  "publish_write to_write now_ms s =
     (if to_write > 0 then s\<lparr>so_write_cursor := so_write_cursor s + word_of_nat to_write, so_last_push_ms := now_ms\<rparr> else s)"

definition native_audio_pipeline_push :: "i16 list \<Rightarrow> nat \<Rightarrow> u32 \<Rightarrow> u32 \<Rightarrow> NativeAudioSource \<Rightarrow> nat \<times> NativeAudioSource" where
  "native_audio_pipeline_push samples frames timestamp_ms now_ms s =
     (if frames = 0 \<or> \<not> so_open s \<or> so_producer_sample_rate s = 0 \<or> so_producer_channels s = 0 then (0, s)
      else
        let s = source_update_arrival_controller (word_of_nat frames) timestamp_ms now_ms (so_write_cursor s) s;
            to_write = push_room frames s;
            s = note_overflow frames to_write s;
            s = s\<lparr>so_ring := push_copy_loop (sample_frame (so_producer_channels s) samples) (so_write_cursor s)
                   to_write 0 (so_ring s)\<rparr> in
        (frames - to_write, publish_write to_write now_ms s))"

definition native_audio_pipeline_get_source_stats :: "NativeAudioSource \<Rightarrow> NativeAudioSourceStats" where
  "native_audio_pipeline_get_source_stats s = \<lparr>au_open = so_open s, au_queue_ms = native_audio_source_queue_ms s,
     au_target_delay_ms = so_target_delay_ms s, au_jitter_p95_ms = so_jitter_p95_ms s,
     au_src_correction_ppm = so_correction_ppm s, au_underruns = so_underruns s,
     au_hard_corrections = so_hard_corrections s, au_overflows = so_overflows s\<rparr>"

end
