(* ===== verification/Audio_Ring.thy ===== *)
theory Audio_Ring
  imports Audio_Source
begin

text \<open>
  The audio ring between its two threads.  The session's worker and the mixer's pump share it without
  a lock, so every access to a shared field is a step of its own here: the copy of a single frame, a
  load, the publication of a cursor or a generation.  The steps are the pieces \<open>Audio_Source\<close> builds
  the operations from.  A cursor is a 32-bit word that wraps; beside the program's state the run keeps
  how many frames there really were: those published, those handed to the converter with their
  position, the position the read cursor stands for and the positions of the loaded boundaries.
\<close>

section \<open>Runs of the two threads\<close>

text \<open>The worker: idle, about to publish a format (or a close), about to publish a talkspurt, about to
  measure the free space, or copying.\<close>

datatype PushPc = PushIdle | PushBump | PushTalkspurt "frame list" | PushRoom "frame list" | PushCopy "frame list" nat

text \<open>
  The pump: between the steps of \<open>source_read\<close> after some trims, at the check of the two generations
  (with the write cursor loaded before it, within the conversion loop), with a new generation loaded,
  past the checks, copying frames out, or with the write cursor loaded for a trim.
\<close>

datatype ReadPc =
    ReadIdle nat
  | ReadCheck nat "u32 option"
  | ReadGeneration nat "u32 option" u32
  | ReadSpurt nat "u32 option" bool
  | ReadTalkspurt nat u32
  | ReadOffer u32
  | ReadTake u32 nat nat
  | ReadTrim nat u32

record RingRun =
  rr_source :: NativeAudioSource
  rr_push :: PushPc
  rr_read :: ReadPc
  rr_published :: "frame list"
  rr_taken :: "(nat \<times> frame) list"
  rr_rd :: nat
  rr_rc :: nat
  rr_tc :: nat
  rr_snap :: nat

text \<open>What the ring's protocol reads and writes; any other field of the source may change at any time.\<close>

definition ring_view where
  "ring_view s = (so_ring s, so_read_cursor s, so_write_cursor s, so_reset_cursor s, so_format_generation s,
     so_talkspurt_cursor s, so_talkspurt_generation s, so_applied_generation s, so_seen_talkspurt_generation s)"

definition moved :: "NativeAudioSource \<Rightarrow> RingRun \<Rightarrow> RingRun" where
  "moved s r = r\<lparr>rr_source := s, rr_rd := rr_rd r + unat (so_read_cursor s - so_read_cursor (rr_source r))\<rparr>"

definition after_checks :: "nat \<Rightarrow> u32 option \<Rightarrow> bool \<Rightarrow> ReadPc" where
  "after_checks t wo changed = (case wo of Some w \<Rightarrow> if changed then ReadIdle 0 else ReadOffer w | None \<Rightarrow> ReadIdle 0)"

inductive push_step :: "RingRun \<Rightarrow> RingRun \<Rightarrow> bool" where
  set_format: "rr_push r = PushIdle \<Longrightarrow> source_format_ok sample_rate channels \<Longrightarrow>
    push_step r (r\<lparr>rr_source := store_source_format now_ms sample_rate channels (rr_source r),
      rr_rc := length (rr_published r), rr_push := PushBump\<rparr>)"
| close: "rr_push r = PushIdle \<Longrightarrow>
    push_step r (r\<lparr>rr_source := store_source_close (rr_source r), rr_rc := length (rr_published r), rr_push := PushBump\<rparr>)"
| bump: "rr_push r = PushBump \<Longrightarrow>
    push_step r (r\<lparr>rr_source := (bump_format_generation (rr_source r)), rr_push := PushIdle\<rparr>)"
| arrival: "rr_push r = PushIdle \<Longrightarrow> arrival_target (word_of_nat (length fs)) timestamp_ms now_ms (rr_source r) = (talkspurt, s) \<Longrightarrow>
    push_step r (if talkspurt
      then r\<lparr>rr_source := store_talkspurt_cursor (so_write_cursor s) s, rr_tc := length (rr_published r), rr_push := PushTalkspurt fs\<rparr>
      else r\<lparr>rr_source := s, rr_push := PushRoom fs\<rparr>)"
| spurt: "rr_push r = PushTalkspurt fs \<Longrightarrow>
    push_step r (r\<lparr>rr_source := bump_talkspurt_generation (rr_source r), rr_push := PushRoom fs\<rparr>)"
| room: "rr_push r = PushRoom fs \<Longrightarrow> n = push_room (length fs) (rr_source r) \<Longrightarrow>
    push_step r (r\<lparr>rr_source := note_overflow (length fs) n (rr_source r), rr_push := PushCopy (take n fs) 0\<rparr>)"
| copy: "rr_push r = PushCopy fs c \<Longrightarrow> c < length fs \<Longrightarrow> pos = unat (so_write_cursor (rr_source r) + word_of_nat c) mod CAP \<Longrightarrow>
    push_step r (r\<lparr>rr_source := (rr_source r)\<lparr>so_ring := (so_ring (rr_source r))[pos := fs ! c]\<rparr>, rr_push := PushCopy fs (Suc c)\<rparr>)"
| publish: "rr_push r = PushCopy fs (length fs) \<Longrightarrow>
    push_step r (r\<lparr>rr_source := publish_write (length fs) now_ms (rr_source r), rr_published := rr_published r @ fs,
      rr_push := PushIdle\<rparr>)"
| producer_local: "ring_view s = ring_view (rr_source r) \<Longrightarrow> push_step r (r\<lparr>rr_source := s\<rparr>)"

inductive read_step :: "RingRun \<Rightarrow> RingRun \<Rightarrow> bool" where
  check: "rr_read r = ReadIdle t \<Longrightarrow> read_step r (r\<lparr>rr_read := ReadCheck t None\<rparr>)"
| load_write: "rr_read r = ReadIdle t \<Longrightarrow>
    read_step r (r\<lparr>rr_read := ReadCheck t (Some (so_write_cursor (rr_source r))), rr_snap := length (rr_published r)\<rparr>)"
| same_generation: "rr_read r = ReadCheck t wo \<Longrightarrow> so_format_generation (rr_source r) = so_applied_generation (rr_source r) \<Longrightarrow>
    read_step r (r\<lparr>rr_read := ReadSpurt t wo False\<rparr>)"
| new_generation: "rr_read r = ReadCheck t wo \<Longrightarrow> so_format_generation (rr_source r) = g \<Longrightarrow> g \<noteq> so_applied_generation (rr_source r) \<Longrightarrow>
    read_step r (r\<lparr>rr_read := ReadGeneration t wo g\<rparr>)"
| apply_generation: "rr_read r = ReadGeneration t wo g \<Longrightarrow>
    read_step r ((moved (apply_generation_at reset_ok g (rr_source r)) r)\<lparr>rr_read := ReadSpurt t wo True\<rparr>)"
| same_talkspurt: "rr_read r = ReadSpurt t wo changed \<Longrightarrow>
    so_talkspurt_generation (rr_source r) = so_seen_talkspurt_generation (rr_source r) \<Longrightarrow>
    read_step r (r\<lparr>rr_read := after_checks t wo changed\<rparr>)"
| new_talkspurt: "rr_read r = ReadSpurt t wo changed \<Longrightarrow> so_talkspurt_generation (rr_source r) = g \<Longrightarrow>
    g \<noteq> so_seen_talkspurt_generation (rr_source r) \<Longrightarrow> read_step r (r\<lparr>rr_read := ReadTalkspurt t g\<rparr>)"
| apply_talkspurt: "rr_read r = ReadTalkspurt t g \<Longrightarrow>
    read_step r ((moved (apply_talkspurt_at g (rr_source r)) r)\<lparr>rr_read := ReadIdle 0\<rparr>)"
| offer: "rr_read r = ReadOffer w \<Longrightarrow> available = unat (w - so_read_cursor (rr_source r)) \<Longrightarrow>
    n \<le> min (CAP - unat (so_read_cursor (rr_source r)) mod CAP) available \<Longrightarrow>
    read_step r (r\<lparr>rr_read := ReadTake w 0 n\<rparr>)"
| take_frame: "rr_read r = ReadTake w k n \<Longrightarrow> k < n \<Longrightarrow> pos = unat (so_read_cursor (rr_source r)) mod CAP + k \<Longrightarrow>
    read_step r (r\<lparr>rr_taken := rr_taken r @ [(rr_rd r + k, so_ring (rr_source r) ! pos)], rr_read := ReadTake w (Suc k) n\<rparr>)"
| commit: "rr_read r = ReadTake w n n \<Longrightarrow>
    read_step r ((moved ((rr_source r)\<lparr>so_read_cursor := so_read_cursor (rr_source r) + word_of_nat n\<rparr>) r)\<lparr>rr_read := ReadIdle 0\<rparr>)"
| load_trim: "rr_read r = ReadIdle t \<Longrightarrow> t < 2 \<Longrightarrow>
    read_step r (r\<lparr>rr_read := ReadTrim t (so_write_cursor (rr_source r)), rr_snap := length (rr_published r)\<rparr>)"
| do_trim: "rr_read r = ReadTrim t w \<Longrightarrow>
    read_step r ((moved (snd (trim_at w (rr_source r))) r)\<lparr>rr_read := ReadIdle (Suc t)\<rparr>)"
| consumer_local: "ring_view s = ring_view (rr_source r) \<Longrightarrow> read_step r (r\<lparr>rr_source := s\<rparr>)"

text \<open>Every interleaving of the two.\<close>

inductive ring_run :: "u32 \<Rightarrow> RingRun \<Rightarrow> bool" for now_ms where
  init: "ring_run now_ms \<lparr>rr_source = native_audio_source_init now_ms, rr_push = PushIdle, rr_read = ReadIdle 0,
    rr_published = [], rr_taken = [], rr_rd = 0, rr_rc = 0, rr_tc = 0, rr_snap = 0\<rparr>"
| push: "ring_run now_ms r \<Longrightarrow> push_step r r' \<Longrightarrow> ring_run now_ms r'"
| read: "ring_run now_ms r \<Longrightarrow> read_step r r' \<Longrightarrow> ring_run now_ms r'"

section \<open>The invariant\<close>

text \<open>The read position is past a boundary by at most so many full rings.\<close>

definition behind :: "nat \<Rightarrow> nat \<Rightarrow> nat \<Rightarrow> bool" where
  "behind slack rd bc \<longleftrightarrow> rd \<le> bc + slack * CAP"

definition format_pending :: "RingRun \<Rightarrow> bool" where
  "format_pending r \<longleftrightarrow> so_format_generation (rr_source r) \<noteq> so_applied_generation (rr_source r)"

definition spurt_pending :: "RingRun \<Rightarrow> bool" where
  "spurt_pending r \<longleftrightarrow> so_talkspurt_generation (rr_source r) \<noteq> so_seen_talkspurt_generation (rr_source r)"

definition cursors_ok :: "RingRun \<Rightarrow> bool" where
  "cursors_ok r \<longleftrightarrow> length (so_ring (rr_source r)) = CAP \<and>
     so_read_cursor (rr_source r) = word_of_nat (rr_rd r) \<and>
     so_write_cursor (rr_source r) = word_of_nat (length (rr_published r)) \<and>
     so_reset_cursor (rr_source r) = word_of_nat (rr_rc r) \<and> so_talkspurt_cursor (rr_source r) = word_of_nat (rr_tc r) \<and>
     rr_rd r \<le> length (rr_published r) \<and> length (rr_published r) \<le> rr_rd r + CAP \<and>
     rr_rc r \<le> length (rr_published r) \<and> rr_tc r \<le> length (rr_published r)"

definition queue_ok :: "RingRun \<Rightarrow> bool" where
  "queue_ok r \<longleftrightarrow> (\<forall>k. rr_rd r \<le> k \<and> k < length (rr_published r) \<longrightarrow> so_ring (rr_source r) ! (k mod CAP) = rr_published r ! k)"

fun push_ok :: "PushPc \<Rightarrow> RingRun \<Rightarrow> bool" where
  "push_ok PushIdle r \<longleftrightarrow> True"
| "push_ok PushBump r \<longleftrightarrow> rr_rc r = length (rr_published r)"
| "push_ok (PushTalkspurt fs) r \<longleftrightarrow> rr_tc r = length (rr_published r)"
| "push_ok (PushRoom fs) r \<longleftrightarrow> True"
| "push_ok (PushCopy fs c) r \<longleftrightarrow> length (rr_published r) + length fs \<le> rr_rd r + CAP \<and> c \<le> length fs \<and>
     (\<forall>j < c. so_ring (rr_source r) ! ((length (rr_published r) + j) mod CAP) = fs ! j)"

definition snap_ok :: "u32 \<Rightarrow> RingRun \<Rightarrow> bool" where
  "snap_ok w r \<longleftrightarrow> w = word_of_nat (rr_snap r) \<and> rr_rd r \<le> rr_snap r \<and> rr_snap r \<le> length (rr_published r)"

definition offered :: "u32 \<Rightarrow> RingRun \<Rightarrow> bool" where
  "offered w r \<longleftrightarrow> snap_ok w r \<and> (format_pending r \<longrightarrow> rr_snap r \<le> rr_rc r) \<and> (spurt_pending r \<longrightarrow> rr_snap r \<le> rr_tc r)"

definition pending_ok :: "nat \<Rightarrow> nat \<Rightarrow> RingRun \<Rightarrow> bool" where
  "pending_ok fslack tslack r \<longleftrightarrow> (format_pending r \<longrightarrow> behind fslack (rr_rd r) (rr_rc r)) \<and>
     (spurt_pending r \<longrightarrow> behind tslack (rr_rd r) (rr_tc r))"

fun read_ok :: "ReadPc \<Rightarrow> RingRun \<Rightarrow> bool" where
  "read_ok (ReadIdle t) r \<longleftrightarrow> t \<le> 2 \<and> pending_ok (1 + t) t r"
| "read_ok (ReadCheck t wo) r \<longleftrightarrow> t \<le> 2 \<and> pending_ok (1 + t) t r \<and> (\<forall>w. wo = Some w \<longrightarrow> snap_ok w r)"
| "read_ok (ReadGeneration t wo g) r \<longleftrightarrow> t \<le> 2 \<and> behind (1 + t) (rr_rd r) (rr_rc r) \<and>
     (so_format_generation (rr_source r) \<noteq> g \<longrightarrow> behind 0 (rr_rd r) (rr_rc r)) \<and>
     (spurt_pending r \<longrightarrow> behind t (rr_rd r) (rr_tc r))"
| "read_ok (ReadSpurt t wo changed) r \<longleftrightarrow> t \<le> 2 \<and> pending_ok 0 (1 + t) r \<and>
     (\<forall>w. wo = Some w \<and> \<not> changed \<longrightarrow> snap_ok w r \<and> (format_pending r \<longrightarrow> rr_snap r \<le> rr_rc r))"
| "read_ok (ReadTalkspurt t g) r \<longleftrightarrow> t \<le> 2 \<and> (format_pending r \<longrightarrow> behind 0 (rr_rd r) (rr_rc r)) \<and>
     behind (1 + t) (rr_rd r) (rr_tc r) \<and> (so_talkspurt_generation (rr_source r) \<noteq> g \<longrightarrow> behind 0 (rr_rd r) (rr_tc r))"
| "read_ok (ReadOffer w) r \<longleftrightarrow> offered w r"
| "read_ok (ReadTake w k n) r \<longleftrightarrow> offered w r \<and> k \<le> n \<and> n \<le> rr_snap r - rr_rd r \<and> n \<le> CAP - rr_rd r mod CAP"
| "read_ok (ReadTrim t w) r \<longleftrightarrow> t < 2 \<and> pending_ok (1 + t) t r \<and> snap_ok w r"

definition taken_count :: "RingRun \<Rightarrow> nat" where
  "taken_count r = rr_rd r + (case rr_read r of ReadTake w k n \<Rightarrow> k | _ \<Rightarrow> 0)"

definition taken_ok :: "RingRun \<Rightarrow> bool" where
  "taken_ok r \<longleftrightarrow> sorted_wrt (<) (map fst (rr_taken r)) \<and>
     (\<forall>(k, f) \<in> set (rr_taken r). k < length (rr_published r) \<and> k < taken_count r \<and> f = rr_published r ! k)"

definition ring_inv :: "RingRun \<Rightarrow> bool" where
  "ring_inv r \<longleftrightarrow> cursors_ok r \<and> queue_ok r \<and> push_ok (rr_push r) r \<and> read_ok (rr_read r) r \<and> taken_ok r"

section \<open>Cursor arithmetic\<close>

lemma ring_cap_pos: "0 < CAP" by (simp add: NATIVE_AUDIO_PIPELINE_CAPACITY_FRAMES_def)

lemma cursor_distance:
  assumes "a \<le> b" "b - a < 2 ^ 32"
  shows "unat (word_of_nat b - word_of_nat a :: u32) = b - a"
proof -
  have "(word_of_nat b - word_of_nat a :: u32) = word_of_nat (b - a)" using assms(1) by (simp add: of_nat_diff)
  then show ?thesis using assms(2) by (simp add: unat_of_nat take_bit_nat_eq_self)
qed

lemma cursor_distance_cap:
  assumes "a \<le> b" "b \<le> a + CAP"
  shows "unat (word_of_nat b - word_of_nat a :: u32) = b - a"
  by (rule cursor_distance) (use assms in \<open>auto simp: NATIVE_AUDIO_PIPELINE_CAPACITY_FRAMES_def\<close>)

lemma unat_uminus_word:
  assumes "0 < unat (d :: u32)"
  shows "unat (- d) = 2 ^ 32 - unat d"
  using assms unat_sub_if' [of "0 :: u32" d] by simp

lemma cursor_behind:
  assumes "b < a" "a \<le> b + 4 * CAP"
  shows "CAP < unat (word_of_nat b - word_of_nat a :: u32)"
proof -
  define d :: u32 where "d = word_of_nat a - word_of_nat b"
  have d: "unat d = a - b" unfolding d_def
    by (rule cursor_distance) (use assms in \<open>auto simp: NATIVE_AUDIO_PIPELINE_CAPACITY_FRAMES_def\<close>)
  then have "unat (- d) = 2 ^ 32 - (a - b)" using unat_uminus_word [of d] assms(1) by simp
  moreover have "(word_of_nat b - word_of_nat a :: u32) = - d" by (simp add: d_def)
  ultimately show ?thesis using assms by (simp add: NATIVE_AUDIO_PIPELINE_CAPACITY_FRAMES_def)
qed

lemma cursor_mod: "unat (word_of_nat k :: u32) mod CAP = k mod CAP"
proof -
  have "(k mod 2 ^ 32) mod 2 ^ 16 = k mod (2 :: nat) ^ 16"
    by (rule mod_mod_cancel) (simp add: dvd_def le_imp_power_dvd)
  then show ?thesis by (simp add: unat_of_nat take_bit_eq_mod NATIVE_AUDIO_PIPELINE_CAPACITY_FRAMES_def)
qed

lemma cursor_mod_add: "unat (word_of_nat k + word_of_nat c :: u32) mod CAP = (k + c) mod CAP"
  using cursor_mod [of "k + c"] by simp

text \<open>A boundary only ever moves the read cursor forward, however the cursors have wrapped.\<close>

lemma advance_result:
  assumes "so_read_cursor s = word_of_nat rd" "bc \<le> rd + CAP" "behind 3 rd bc"
  shows "source_advance_read_cursor (word_of_nat bc) s = s\<lparr>so_read_cursor := word_of_nat (max rd bc)\<rparr>"
proof (cases "rd \<le> bc")
  case True
  then show ?thesis using assms cursor_distance_cap [of rd bc]
    by (simp add: source_advance_read_cursor_def max_def)
next
  case False
  then have "CAP < unat (word_of_nat bc - word_of_nat rd :: u32)"
    by (intro cursor_behind) (use assms(3) in \<open>auto simp: behind_def\<close>)
  with False assms(1) show ?thesis by (simp add: source_advance_read_cursor_def max_def)
qed

lemma window_inj:
  assumes "i mod CAP = j mod CAP" "m \<le> i" "i < m + CAP" "m \<le> j" "j < m + CAP"
  shows "i = j"
proof -
  have "(m + (i - m)) mod CAP = (m + (j - m)) mod CAP" using assms by simp
  then have "i - m = j - m" by (rule ring_index_inj) (use assms in auto)
  then show ?thesis using assms(2,4) by simp
qed

section \<open>The worker keeps the invariant\<close>

text \<open>What the pump relies on: boundaries only move forward, and a new generation has the newest one.\<close>

lemma read_ok_rely:
  assumes "read_ok pc r" "rr_rd r' = rr_rd r" "rr_snap r' = rr_snap r" "rr_rc r \<le> rr_rc r'" "rr_tc r \<le> rr_tc r'"
    and "length (rr_published r) \<le> length (rr_published r')" "rr_rd r \<le> length (rr_published r)"
    and "so_applied_generation (rr_source r') = so_applied_generation (rr_source r)"
    and "so_seen_talkspurt_generation (rr_source r') = so_seen_talkspurt_generation (rr_source r)"
    and "so_format_generation (rr_source r') = so_format_generation (rr_source r) \<or> rr_rc r' = length (rr_published r')"
    and "so_talkspurt_generation (rr_source r') = so_talkspurt_generation (rr_source r) \<or> rr_tc r' = length (rr_published r')"
  shows "read_ok pc r'"
proof -
  have behind: "behind n (rr_rd r) bc \<Longrightarrow> bc \<le> bc' \<Longrightarrow> behind n (rr_rd r') bc'" for n bc bc'
    using assms(2) by (simp add: behind_def)
  have newest: "behind n (rr_rd r') (length (rr_published r'))" for n using assms(2,6,7) by (simp add: behind_def)
  have fp: "format_pending r \<or> rr_rc r' = length (rr_published r')" if "format_pending r'"
    using that assms(8,10) by (auto simp: format_pending_def)
  have sp: "spurt_pending r \<or> rr_tc r' = length (rr_published r')" if "spurt_pending r'"
    using that assms(9,11) by (auto simp: spurt_pending_def)
  have format: "format_pending r' \<Longrightarrow> behind n (rr_rd r') (rr_rc r')"
    if "format_pending r \<longrightarrow> behind n (rr_rd r) (rr_rc r)" for n
    using fp that behind [OF _ assms(4)] newest by metis
  have spurt: "spurt_pending r' \<Longrightarrow> behind n (rr_rd r') (rr_tc r')"
    if "spurt_pending r \<longrightarrow> behind n (rr_rd r) (rr_tc r)" for n
    using sp that behind [OF _ assms(5)] newest by metis
  have pend: "pending_ok f t r'" if "pending_ok f t r" for f t
    using that format spurt by (simp add: pending_ok_def)
  have snap: "snap_ok w r'" if "snap_ok w r" for w
    using that assms(2,3,6) by (simp add: snap_ok_def)
  have sfp: "format_pending r' \<Longrightarrow> rr_snap r' \<le> rr_rc r'" if "snap_ok w r" "format_pending r \<longrightarrow> rr_snap r \<le> rr_rc r" for w
    using fp that assms(3,4,6) by (auto simp: snap_ok_def)
  have ssp: "spurt_pending r' \<Longrightarrow> rr_snap r' \<le> rr_tc r'" if "snap_ok w r" "spurt_pending r \<longrightarrow> rr_snap r \<le> rr_tc r" for w
    using sp that assms(3,5,6) by (auto simp: snap_ok_def)
  have off: "offered w r'" if "offered w r" for w
    using that snap sfp ssp by (auto simp: offered_def)
  have gen: "so_format_generation (rr_source r') \<noteq> g \<Longrightarrow> behind n (rr_rd r') (rr_rc r')"
    if "so_format_generation (rr_source r) \<noteq> g \<longrightarrow> behind n (rr_rd r) (rr_rc r)" for g n
    using that assms(10) behind [OF _ assms(4)] newest by metis
  have tgen: "so_talkspurt_generation (rr_source r') \<noteq> g \<Longrightarrow> behind n (rr_rd r') (rr_tc r')"
    if "so_talkspurt_generation (rr_source r) \<noteq> g \<longrightarrow> behind n (rr_rd r) (rr_tc r)" for g n
    using that assms(11) behind [OF _ assms(5)] newest by metis
  show ?thesis
  proof (cases pc)
    case (ReadIdle t)
    then show ?thesis using assms(1) pend by simp
  next
    case (ReadCheck t wo)
    then show ?thesis using assms(1) pend snap by simp
  next
    case (ReadGeneration t wo g)
    then show ?thesis using assms(1) behind [OF _ assms(4)] gen [of g 0] spurt [of t] by simp
  next
    case (ReadSpurt t wo changed)
    then show ?thesis using assms(1) pend snap sfp by auto
  next
    case (ReadTalkspurt t g)
    then show ?thesis using assms(1) behind [OF _ assms(5)] tgen [of g 0] format [of 0] by simp
  next
    case (ReadOffer w)
    then show ?thesis using assms(1) off by simp
  next
    case (ReadTake w k n)
    then show ?thesis using assms(1) off assms(2,3) by simp
  next
    case (ReadTrim t w)
    then show ?thesis using assms(1) pend snap by simp
  qed
qed

lemma arrival_view: "arrival_target n ts now s = (talk, s') \<Longrightarrow> ring_view s' = ring_view s"
  by (auto simp: arrival_target_def ring_view_def source_raise_target_def Let_def
      split: prod.splits NativeAudioJitterTargetAction.splits if_splits)

lemma overflow_view: "ring_view (note_overflow n m s) = ring_view s"
  by (simp add: note_overflow_def ring_view_def)

lemma ring_view_fields:
  "ring_view s' = ring_view s \<longleftrightarrow> so_ring s' = so_ring s \<and> so_read_cursor s' = so_read_cursor s \<and>
     so_write_cursor s' = so_write_cursor s \<and> so_reset_cursor s' = so_reset_cursor s \<and>
     so_format_generation s' = so_format_generation s \<and> so_talkspurt_cursor s' = so_talkspurt_cursor s \<and>
     so_talkspurt_generation s' = so_talkspurt_generation s \<and> so_applied_generation s' = so_applied_generation s \<and>
     so_seen_talkspurt_generation s' = so_seen_talkspurt_generation s"
  by (auto simp: ring_view_def)

lemma push_ok_view:
  assumes "push_ok pc r" "so_ring (rr_source r') = so_ring (rr_source r)" "rr_rd r \<le> rr_rd r'" "rr_rc r' = rr_rc r"
    "rr_tc r' = rr_tc r" "rr_published r' = rr_published r"
  shows "push_ok pc r'"
  using assms by (cases pc) auto

lemma ring_inv_view:
  assumes "ring_inv r" "ring_view s = ring_view (rr_source r)"
  shows "ring_inv (r\<lparr>rr_source := s\<rparr>)"
proof -
  let ?r' = "r\<lparr>rr_source := s\<rparr>"
  note v = assms(2) [unfolded ring_view_fields]
  have "read_ok (rr_read r) ?r'"
    by (rule read_ok_rely [of _ r]) (use assms(1) v in \<open>auto simp: ring_inv_def cursors_ok_def\<close>)
  moreover have "push_ok (rr_push r) ?r'"
    by (rule push_ok_view [of _ r]) (use assms(1) v in \<open>auto simp: ring_inv_def\<close>)
  moreover have "cursors_ok ?r'" "queue_ok ?r'" "taken_ok ?r'"
    using assms(1) v by (auto simp: ring_inv_def cursors_ok_def queue_ok_def taken_ok_def taken_count_def)
  ultimately show ?thesis by (simp add: ring_inv_def)
qed

text \<open>A step of the worker that only touches the source, a boundary and where it stands itself.\<close>

lemma push_frame_inv:
  assumes "ring_inv r" "so_ring s = so_ring (rr_source r)" "so_read_cursor s = so_read_cursor (rr_source r)"
    and "so_write_cursor s = so_write_cursor (rr_source r)"
    and "so_reset_cursor s = word_of_nat rc" "rr_rc r \<le> rc" "rc \<le> length (rr_published r)"
    and "so_talkspurt_cursor s = word_of_nat tc" "rr_tc r \<le> tc" "tc \<le> length (rr_published r)"
    and "so_applied_generation s = so_applied_generation (rr_source r)"
    and "so_seen_talkspurt_generation s = so_seen_talkspurt_generation (rr_source r)"
    and "so_format_generation s = so_format_generation (rr_source r) \<or> rc = length (rr_published r)"
    and "so_talkspurt_generation s = so_talkspurt_generation (rr_source r) \<or> tc = length (rr_published r)"
    and "push_ok pc (r\<lparr>rr_source := s, rr_rc := rc, rr_tc := tc, rr_push := pc\<rparr>)"
  shows "ring_inv (r\<lparr>rr_source := s, rr_rc := rc, rr_tc := tc, rr_push := pc\<rparr>)"
proof -
  let ?r' = "r\<lparr>rr_source := s, rr_rc := rc, rr_tc := tc, rr_push := pc\<rparr>"
  have "read_ok (rr_read r) ?r'"
    by (rule read_ok_rely [of _ r]) (use assms in \<open>auto simp: ring_inv_def cursors_ok_def\<close>)
  moreover have "cursors_ok ?r'" "queue_ok ?r'" "taken_ok ?r'"
    using assms by (auto simp: ring_inv_def cursors_ok_def queue_ok_def taken_ok_def taken_count_def)
  ultimately show ?thesis using assms(15) by (simp add: ring_inv_def)
qed

lemma copy_inv:
  assumes inv: "ring_inv r" and pc: "rr_push r = PushCopy fs c" and c: "c < length fs"
    and pos: "pos = unat (so_write_cursor (rr_source r) + word_of_nat c) mod CAP"
  shows "ring_inv (r\<lparr>rr_source := (rr_source r)\<lparr>so_ring := (so_ring (rr_source r))[pos := fs ! c]\<rparr>, rr_push := PushCopy fs (Suc c)\<rparr>)"
    (is "ring_inv ?r'")
proof -
  let ?wr = "length (rr_published r)"
  have cur: "cursors_ok r" and q: "queue_ok r" and rd: "read_ok (rr_read r) r" and tk: "taken_ok r"
    using inv by (auto simp: ring_inv_def)
  have p: "?wr + length fs \<le> rr_rd r + CAP" "\<forall>j < c. so_ring (rr_source r) ! ((?wr + j) mod CAP) = fs ! j"
    using inv pc by (auto simp: ring_inv_def)
  have posn: "pos = (?wr + c) mod CAP"
    using pos cur by (simp add: cursors_ok_def cursor_mod_add del: of_nat_add)
  have len: "length (so_ring (rr_source r)) = CAP" and le: "rr_rd r \<le> ?wr" "?wr \<le> rr_rd r + CAP"
    using cur by (auto simp: cursors_ok_def)
  have poslt: "pos < CAP" using posn ring_cap_pos by simp
  have other: "so_ring (rr_source ?r') ! (k mod CAP) = so_ring (rr_source r) ! (k mod CAP)"
    if "rr_rd r \<le> k" "k < ?wr + length fs" "k \<noteq> ?wr + c" for k
  proof -
    have "k mod CAP \<noteq> pos"
      using window_inj [of k "?wr + c" "rr_rd r"] that posn p(1) le c by auto
    then show ?thesis by simp
  qed
  have "queue_ok ?r'"
    using q other by (auto simp: queue_ok_def)
  moreover have "push_ok (PushCopy fs (Suc c)) ?r'"
  proof -
    have "so_ring (rr_source ?r') ! ((?wr + j) mod CAP) = fs ! j" if "j < Suc c" for j
    proof (cases "j = c")
      case True
      then show ?thesis using posn poslt len by simp
    next
      case False
      then show ?thesis using other [of "?wr + j"] that p(2) le c by simp
    qed
    then show ?thesis using p(1) c by simp
  qed
  moreover have "read_ok (rr_read r) ?r'"
    by (rule read_ok_rely [of _ r]) (use rd le in auto)
  moreover have "cursors_ok ?r'" "taken_ok ?r'"
    using cur tk by (auto simp: cursors_ok_def taken_ok_def taken_count_def)
  ultimately show ?thesis by (simp add: ring_inv_def)
qed

lemma publish_fields:
  "so_write_cursor (publish_write n now_ms s) = so_write_cursor s + word_of_nat n"
  "so_ring (publish_write n now_ms s) = so_ring s" "so_read_cursor (publish_write n now_ms s) = so_read_cursor s"
  "so_reset_cursor (publish_write n now_ms s) = so_reset_cursor s"
  "so_talkspurt_cursor (publish_write n now_ms s) = so_talkspurt_cursor s"
  "so_format_generation (publish_write n now_ms s) = so_format_generation s"
  "so_talkspurt_generation (publish_write n now_ms s) = so_talkspurt_generation s"
  "so_applied_generation (publish_write n now_ms s) = so_applied_generation s"
  "so_seen_talkspurt_generation (publish_write n now_ms s) = so_seen_talkspurt_generation s"
  by (auto simp: publish_write_def)

lemma publish_frames_inv:
  assumes inv: "ring_inv r" and pc: "rr_push r = PushCopy fs (length fs)"
  shows "ring_inv (r\<lparr>rr_source := publish_write (length fs) now_ms (rr_source r), rr_published := rr_published r @ fs,
      rr_push := PushIdle\<rparr>)" (is "ring_inv ?r'")
proof -
  let ?wr = "length (rr_published r)"
  have cur: "cursors_ok r" and q: "queue_ok r" and rd: "read_ok (rr_read r) r" and tk: "taken_ok r"
    using inv by (auto simp: ring_inv_def)
  have p: "?wr + length fs \<le> rr_rd r + CAP" "\<forall>j < length fs. so_ring (rr_source r) ! ((?wr + j) mod CAP) = fs ! j"
    using inv pc by (auto simp: ring_inv_def)
  have "queue_ok ?r'"
    unfolding queue_ok_def
  proof (intro allI impI)
    fix k assume k: "rr_rd ?r' \<le> k \<and> k < length (rr_published ?r')"
    show "so_ring (rr_source ?r') ! (k mod CAP) = rr_published ?r' ! k"
    proof (cases "k < ?wr")
      case True
      then show ?thesis using q k by (simp add: queue_ok_def publish_fields nth_append)
    next
      case False
      then show ?thesis using p(2) [rule_format, of "k - ?wr"] k by (auto simp: publish_fields nth_append)
    qed
  qed
  moreover have "read_ok (rr_read r) ?r'"
    by (rule read_ok_rely [of _ r]) (use rd cur in \<open>auto simp: publish_fields cursors_ok_def\<close>)
  moreover have "cursors_ok ?r'"
    using cur p(1) by (simp add: cursors_ok_def publish_fields)
  moreover have "taken_ok ?r'"
    using tk by (fastforce simp: taken_ok_def taken_count_def nth_append)
  ultimately show ?thesis by (simp add: ring_inv_def)
qed

lemma boundaries_kept:
  "r\<lparr>rr_source := s, rr_rc := rr_rc r, rr_tc := rr_tc r, rr_push := p\<rparr> = r\<lparr>rr_source := s, rr_push := p\<rparr>"
  by simp

lemma push_step_inv:
  assumes "push_step r r'" "ring_inv r"
  shows "ring_inv r'"
  using assms
proof (cases rule: push_step.cases)
  case (set_format sample_rate channels now_ms)
  show ?thesis
    using push_frame_inv [OF assms(2), of "store_source_format now_ms sample_rate channels (rr_source r)"
        "length (rr_published r)" "rr_tc r" PushBump] assms(2)
    unfolding set_format(1) by (simp add: store_source_format_def ring_inv_def cursors_ok_def)
next
  case close
  show ?thesis
    using push_frame_inv [OF assms(2), of "store_source_close (rr_source r)" "length (rr_published r)" "rr_tc r" PushBump] assms(2)
    unfolding close(1) by (simp add: store_source_close_def ring_inv_def cursors_ok_def)
next
  case bump
  show ?thesis
    using push_frame_inv [OF assms(2), of "bump_format_generation (rr_source r)" "rr_rc r" "rr_tc r" PushIdle, unfolded boundaries_kept] assms(2) bump(2)
    unfolding bump(1) by (simp add: bump_format_generation_def ring_inv_def cursors_ok_def)
next
  case (arrival fs timestamp_ms now_ms talkspurt s)
  note v = arrival_view [OF arrival(3), unfolded ring_view_fields]
  have wr: "so_write_cursor s = word_of_nat (length (rr_published r))" using v assms(2) by (simp add: ring_inv_def cursors_ok_def)
  show ?thesis
    using push_frame_inv [OF assms(2), of "store_talkspurt_cursor (so_write_cursor s) s" "rr_rc r" "length (rr_published r)" "PushTalkspurt fs"]
      push_frame_inv [OF assms(2), of s "rr_rc r" "rr_tc r" "PushRoom fs"] assms(2) v wr
    unfolding arrival(1) by (simp add: store_talkspurt_cursor_def ring_inv_def cursors_ok_def)
next
  case (spurt fs)
  show ?thesis
    using push_frame_inv [OF assms(2), of "bump_talkspurt_generation (rr_source r)" "rr_rc r" "rr_tc r" "PushRoom fs", unfolded boundaries_kept] assms(2) spurt(2)
    unfolding spurt(1) by (simp add: bump_talkspurt_generation_def ring_inv_def cursors_ok_def)
next
  case (room fs n)
  note v = overflow_view [of "length fs" n "rr_source r", unfolded ring_view_fields]
  have cur: "cursors_ok r" using assms(2) by (simp add: ring_inv_def)
  have used: "unat (so_write_cursor (rr_source r) - so_read_cursor (rr_source r)) = length (rr_published r) - rr_rd r"
    using cur by (simp add: cursors_ok_def cursor_distance_cap)
  have "length (rr_published r) + length (take n fs) \<le> rr_rd r + CAP"
    using room(3) used cur by (auto simp: push_room_def cursors_ok_def)
  then show ?thesis
    using push_frame_inv [OF assms(2), of "note_overflow (length fs) n (rr_source r)" "rr_rc r" "rr_tc r" "PushCopy (take n fs) 0"] cur v
    unfolding room(1) by (simp add: cursors_ok_def)
next
  case (copy fs c pos)
  then show ?thesis using copy_inv [OF assms(2)] by blast
next
  case (publish fs now_ms)
  then show ?thesis using publish_frames_inv [OF assms(2)] by blast
next
  case (producer_local s)
  then show ?thesis using ring_inv_view [OF assms(2)] by blast
qed

section \<open>The pump keeps the invariant\<close>

lemma moved_rd:
  assumes "cursors_ok r" "so_read_cursor s = word_of_nat rd'" "rr_rd r \<le> rd'" "rd' \<le> length (rr_published r)"
  shows "rr_rd (moved s r) = rd'"
proof -
  have "unat (word_of_nat rd' - word_of_nat (rr_rd r) :: u32) = rd' - rr_rd r"
    by (rule cursor_distance_cap) (use assms in \<open>auto simp: cursors_ok_def\<close>)
  then show ?thesis using assms by (simp add: moved_def cursors_ok_def)
qed

lemma move_inv:
  assumes inv: "ring_inv r" and rd: "so_read_cursor s = word_of_nat rd'" "rr_rd r \<le> rd'" "rd' \<le> length (rr_published r)"
    and tk: "taken_count r \<le> rd'"
    and same: "so_ring s = so_ring (rr_source r)" "so_write_cursor s = so_write_cursor (rr_source r)"
      "so_reset_cursor s = so_reset_cursor (rr_source r)" "so_talkspurt_cursor s = so_talkspurt_cursor (rr_source r)"
    and pc: "read_ok pc (r\<lparr>rr_source := s, rr_rd := rd'\<rparr>)"
  shows "ring_inv ((moved s r)\<lparr>rr_read := pc\<rparr>)"
proof -
  let ?r' = "r\<lparr>rr_source := s, rr_rd := rd', rr_read := pc\<rparr>"
  have cur: "cursors_ok r" using inv by (simp add: ring_inv_def)
  have "moved s r = r\<lparr>rr_source := s, rr_rd := rd'\<rparr>"
    using moved_rd [OF cur rd] by (simp add: moved_def)
  then have r': "(moved s r)\<lparr>rr_read := pc\<rparr> = ?r'" by simp
  have "push_ok (rr_push r) ?r'"
    by (rule push_ok_view [of _ r]) (use inv same rd in \<open>auto simp: ring_inv_def\<close>)
  moreover have "cursors_ok ?r'" "queue_ok ?r'"
    using inv rd same by (auto simp: ring_inv_def cursors_ok_def queue_ok_def)
  moreover have "taken_ok ?r'"
    using inv tk by (fastforce simp: ring_inv_def taken_ok_def taken_count_def)
  moreover have "read_ok pc ?r'"
    using pc by (cases pc) (auto simp: pending_ok_def offered_def snap_ok_def format_pending_def spurt_pending_def)
  ultimately show ?thesis unfolding r' by (simp add: ring_inv_def)
qed

text \<open>A step that only changes where the pump stands.\<close>

lemma stand_inv:
  assumes "ring_inv r" "read_ok pc (r\<lparr>rr_snap := snap\<rparr>)" "taken_count r = rr_rd r" "\<And>w k n. pc = ReadTake w k n \<Longrightarrow> k = 0"
  shows "ring_inv (r\<lparr>rr_read := pc, rr_snap := snap\<rparr>)"
proof -
  let ?r' = "r\<lparr>rr_read := pc, rr_snap := snap\<rparr>"
  have "push_ok (rr_push r) ?r'"
    by (rule push_ok_view [of _ r]) (use assms(1) in \<open>auto simp: ring_inv_def\<close>)
  moreover have "read_ok pc ?r'"
    using assms(2) by (cases pc) (auto simp: pending_ok_def offered_def snap_ok_def format_pending_def spurt_pending_def)
  moreover have "cursors_ok ?r'" "queue_ok ?r'" using assms(1) by (auto simp: ring_inv_def cursors_ok_def queue_ok_def)
  moreover have "taken_count r \<le> taken_count ?r'" using assms(3) by (simp add: taken_count_def)
  then have "taken_ok ?r'" using assms(1) by (fastforce simp: ring_inv_def taken_ok_def)
  ultimately show ?thesis by (simp add: ring_inv_def)
qed

lemma snap_kept: "r\<lparr>rr_read := pc, rr_snap := rr_snap r\<rparr> = r\<lparr>rr_read := pc\<rparr>" "r\<lparr>rr_snap := rr_snap r\<rparr> = r"
  by simp_all

lemmas stand_here = stand_inv [where snap = "rr_snap r" and r = r for r, unfolded snap_kept]

lemma boundary_move:
  assumes "cursors_ok r" "boundary = word_of_nat bc" "bc \<le> length (rr_published r)" "behind 3 (rr_rd r) bc"
    and "so_read_cursor s = so_read_cursor (rr_source r)"
  shows "source_advance_read_cursor boundary s = s\<lparr>so_read_cursor := word_of_nat (max (rr_rd r) bc)\<rparr>"
  using advance_result [of s "rr_rd r" bc] assms by (simp add: cursors_ok_def)

lemma behind_mono: "behind m rd bc \<Longrightarrow> m \<le> n \<Longrightarrow> behind n rd bc"
  by (force simp: behind_def intro: order_trans mult_le_mono1)

lemma behind_0: "behind 0 rd bc \<longleftrightarrow> rd \<le> bc"
  by (simp add: behind_def)

lemma behind_max:
  assumes "behind m rd bc" "bc' \<le> rd + CAP"
  shows "behind (Suc m) (max rd bc') bc"
  using assms by (auto simp: behind_def max_def)

lemma behind_add: "behind m rd bc \<Longrightarrow> d \<le> CAP \<Longrightarrow> behind (Suc m) (rd + d) bc"
  by (simp add: behind_def)

lemma apply_generation_inv:
  assumes inv: "ring_inv r" and pc: "rr_read r = ReadGeneration t wo g"
  shows "ring_inv ((moved (apply_generation_at reset_ok g (rr_source r)) r)\<lparr>rr_read := ReadSpurt t wo True\<rparr>)"
proof -
  let ?s = "apply_generation_at reset_ok g (rr_source r)" and ?rd = "max (rr_rd r) (rr_rc r)"
  have cur: "cursors_ok r" and ok: "read_ok (ReadGeneration t wo g) r" using inv pc by (auto simp: ring_inv_def)
  have "behind 3 (rr_rd r) (rr_rc r)" by (rule behind_mono [of "1 + t"]) (use ok in auto)
  then have adv: "source_advance_read_cursor (so_reset_cursor (rr_source r)) (rr_source r
      \<lparr>so_sample_rate := rate, so_channels := ch\<rparr>) = rr_source r
      \<lparr>so_sample_rate := rate, so_channels := ch, so_read_cursor := word_of_nat ?rd\<rparr>" for rate ch
    by (subst boundary_move [OF cur, where bc = "rr_rc r"]) (use cur in \<open>auto simp: cursors_ok_def\<close>)
  note fields = adv apply_generation_at_def Let_def source_reset_converter_def
  have le: "?rd \<le> length (rr_published r)" "rr_rc r \<le> rr_rd r + CAP" using cur by (auto simp: cursors_ok_def)
  have "read_ok (ReadSpurt t wo True) (r\<lparr>rr_source := ?s, rr_rd := ?rd\<rparr>)"
    using ok behind_max [OF _ le(2), of t "rr_tc r"]
    by (auto simp: fields pending_ok_def format_pending_def spurt_pending_def behind_0)
  then show ?thesis
    by (intro move_inv [OF inv, where rd' = ?rd]) (use le pc in \<open>auto simp: fields taken_count_def\<close>)
qed

lemma apply_talkspurt_inv:
  assumes inv: "ring_inv r" and pc: "rr_read r = ReadTalkspurt t g"
  shows "ring_inv ((moved (apply_talkspurt_at g (rr_source r)) r)\<lparr>rr_read := ReadIdle 0\<rparr>)"
proof -
  let ?s = "apply_talkspurt_at g (rr_source r)" and ?rd = "max (rr_rd r) (rr_tc r)"
  have cur: "cursors_ok r" and ok: "read_ok (ReadTalkspurt t g) r" using inv pc by (auto simp: ring_inv_def)
  have "behind 3 (rr_rd r) (rr_tc r)" by (rule behind_mono [of "1 + t"]) (use ok in auto)
  then have adv: "source_advance_read_cursor (so_talkspurt_cursor (rr_source r)) (rr_source r) =
      rr_source r\<lparr>so_read_cursor := word_of_nat ?rd\<rparr>"
    by (subst boundary_move [OF cur, where bc = "rr_tc r"]) (use cur in \<open>auto simp: cursors_ok_def\<close>)
  note fields = adv apply_talkspurt_at_def Let_def
  have le: "?rd \<le> length (rr_published r)" "rr_tc r \<le> rr_rd r + CAP" using cur by (auto simp: cursors_ok_def)
  have "read_ok (ReadIdle 0) (r\<lparr>rr_source := ?s, rr_rd := ?rd\<rparr>)"
    using ok behind_max [OF _ le(2), of 0 "rr_rc r"]
    by (auto simp: fields pending_ok_def format_pending_def spurt_pending_def behind_0)
  then show ?thesis
    by (intro move_inv [OF inv, where rd' = ?rd]) (use le pc in \<open>auto simp: fields taken_count_def\<close>)
qed

lemma offered_available:
  assumes "cursors_ok r" "snap_ok w r"
  shows "unat (w - so_read_cursor (rr_source r)) = rr_snap r - rr_rd r" "rr_snap r \<le> rr_rd r + CAP"
  using assms cursor_distance_cap [of "rr_rd r" "rr_snap r"] by (auto simp: snap_ok_def cursors_ok_def)

lemma take_frame_inv:
  assumes inv: "ring_inv r" and pc: "rr_read r = ReadTake w k n" and k: "k < n"
    and pos: "pos = unat (so_read_cursor (rr_source r)) mod CAP + k"
  shows "ring_inv (r\<lparr>rr_taken := rr_taken r @ [(rr_rd r + k, so_ring (rr_source r) ! pos)], rr_read := ReadTake w (Suc k) n\<rparr>)"
    (is "ring_inv ?r'")
proof -
  have cur: "cursors_ok r" and ok: "read_ok (ReadTake w k n) r" and tk: "taken_ok r" and q: "queue_ok r"
    using inv pc by (auto simp: ring_inv_def)
  have bound: "rr_rd r + k < rr_snap r" "rr_snap r \<le> length (rr_published r)"
    using ok k by (auto simp: offered_def snap_ok_def)
  have base: "unat (so_read_cursor (rr_source r)) mod CAP = rr_rd r mod CAP"
    using cur by (simp add: cursors_ok_def cursor_mod)
  have "k < CAP - rr_rd r mod CAP" using ok k less_le_trans [of k n] by simp
  then have "rr_rd r mod CAP + k < CAP" by linarith
  then have "pos = (rr_rd r + k) mod CAP" using pos base mod_add_left_eq [of "rr_rd r" CAP k] by simp
  then have frame: "so_ring (rr_source r) ! pos = rr_published r ! (rr_rd r + k)"
    using q bound by (simp add: queue_ok_def)
  have "taken_ok ?r'"
    using tk frame bound pc by (fastforce simp: taken_ok_def taken_count_def sorted_wrt_append)
  moreover have "push_ok (rr_push r) ?r'"
    by (rule push_ok_view [of _ r]) (use inv in \<open>auto simp: ring_inv_def\<close>)
  moreover have "cursors_ok ?r'" "queue_ok ?r'" using cur q by (auto simp: cursors_ok_def queue_ok_def)
  moreover have "read_ok (ReadTake w (Suc k) n) ?r'"
    using ok k by (simp add: offered_def snap_ok_def format_pending_def spurt_pending_def)
  ultimately show ?thesis by (simp add: ring_inv_def)
qed

lemma commit_inv:
  assumes inv: "ring_inv r" and pc: "rr_read r = ReadTake w n n"
  shows "ring_inv ((moved ((rr_source r)\<lparr>so_read_cursor := so_read_cursor (rr_source r) + word_of_nat n\<rparr>) r)\<lparr>rr_read := ReadIdle 0\<rparr>)"
proof -
  have cur: "cursors_ok r" and ok: "read_ok (ReadTake w n n) r" using inv pc by (auto simp: ring_inv_def)
  have bound: "rr_rd r + n \<le> rr_snap r" "rr_snap r \<le> length (rr_published r)"
    using ok by (auto simp: offered_def snap_ok_def)
  show ?thesis
    by (rule move_inv [OF inv, where rd' = "rr_rd r + n"])
      (use cur ok bound pc in \<open>auto simp: cursors_ok_def taken_count_def offered_def pending_ok_def format_pending_def
         spurt_pending_def behind_def\<close>)
qed

lemma trim_inv:
  assumes inv: "ring_inv r" and pc: "rr_read r = ReadTrim t w"
  shows "ring_inv ((moved (snd (trim_at w (rr_source r))) r)\<lparr>rr_read := ReadIdle (Suc t)\<rparr>)"
proof -
  let ?e = "trim_excess w (rr_source r)"
  have cur: "cursors_ok r" and ok: "read_ok (ReadTrim t w) r" using inv pc by (auto simp: ring_inv_def)
  have e: "?e \<le> rr_snap r - rr_rd r" "rr_snap r \<le> rr_rd r + CAP"
    using offered_available [OF cur, of w] ok by (auto simp: trim_excess_def Let_def)
  then have le: "?e \<le> CAP" "rr_rd r + ?e \<le> length (rr_published r)" using ok by (auto simp: snap_ok_def)
  have cursor: "so_read_cursor (snd (trim_at w (rr_source r))) = word_of_nat (rr_rd r + ?e)"
    using cur by (simp add: trim_at_def Let_def cursors_ok_def)
  show ?thesis
    by (rule move_inv [OF inv cursor])
      (use le pc ok behind_add [OF _ le(1)] in \<open>auto simp: trim_at_def Let_def taken_count_def pending_ok_def format_pending_def
         spurt_pending_def\<close>)
qed

lemma read_step_inv:
  assumes "read_step r r'" "ring_inv r"
  shows "ring_inv r'"
proof -
  have cur: "cursors_ok r" and ok: "read_ok (rr_read r) r" using assms(2) by (auto simp: ring_inv_def)
  note stand = stand_inv [OF assms(2)] and here = stand_inv [OF assms(2), where snap = "rr_snap r", unfolded snap_kept]
  note views = pending_ok_def format_pending_def spurt_pending_def snap_ok_def offered_def
  from assms(1) show ?thesis
  proof (cases rule: read_step.cases)
    case (check t)
    then show ?thesis using here [of "ReadCheck t None"] ok by (simp add: taken_count_def)
  next
    case (load_write t)
    then show ?thesis
      using stand [of "ReadCheck t (Some (so_write_cursor (rr_source r)))" "length (rr_published r)"] ok cur
      by (simp add: taken_count_def views cursors_ok_def)
  next
    case (same_generation t wo)
    then show ?thesis using here [of "ReadSpurt t wo False"] ok behind_mono [of t _ _ "Suc t"]
      by (auto simp: taken_count_def views)
  next
    case (new_generation t wo g)
    then show ?thesis using here [of "ReadGeneration t wo g"] ok by (auto simp: taken_count_def views)
  next
    case (apply_generation t wo g reset_ok)
    then show ?thesis using apply_generation_inv [OF assms(2)] by blast
  next
    case (same_talkspurt t wo changed)
    then show ?thesis
      using here [of "after_checks t wo changed"] ok behind_mono [of 0 _ _ 1]
      by (auto simp: taken_count_def views after_checks_def split: option.splits)
  next
    case (new_talkspurt t wo changed g)
    then show ?thesis using here [of "ReadTalkspurt t g"] ok by (auto simp: taken_count_def views)
  next
    case (apply_talkspurt t g)
    then show ?thesis using apply_talkspurt_inv [OF assms(2)] by blast
  next
    case (offer w available n)
    have w: "snap_ok w r" using ok offer(2) by (simp add: offered_def)
    have "n \<le> CAP - rr_rd r mod CAP" "n \<le> rr_snap r - rr_rd r"
      using offer(3,4) offered_available [OF cur w] cur by (auto simp: cursors_ok_def cursor_mod)
    then show ?thesis using here [of "ReadTake w 0 n"] ok offer(1,2) by (simp add: taken_count_def)
  next
    case (take_frame w k n pos)
    then show ?thesis using take_frame_inv [OF assms(2)] by blast
  next
    case (commit w n)
    then show ?thesis using commit_inv [OF assms(2)] by blast
  next
    case (load_trim t)
    then show ?thesis
      using stand [of "ReadTrim t (so_write_cursor (rr_source r))" "length (rr_published r)"] ok cur
      by (simp add: taken_count_def views cursors_ok_def)
  next
    case (do_trim t w)
    then show ?thesis using trim_inv [OF assms(2)] by blast
  next
    case (consumer_local s)
    then show ?thesis using ring_inv_view [OF assms(2)] by blast
  qed
qed

lemma ring_run_inv: "ring_run now_ms r \<Longrightarrow> ring_inv r"
proof (induction rule: ring_run.induct)
  case init
  show ?case
    by (simp add: ring_inv_def cursors_ok_def queue_ok_def taken_ok_def pending_ok_def format_pending_def spurt_pending_def
        native_audio_source_init_def)
next
  case (push r r')
  then show ?case using push_step_inv by blast
next
  case (read r r')
  then show ?case using read_step_inv by blast
qed

section \<open>The operations are such runs\<close>

text \<open>The copy loop writes the frames one after the other.\<close>

definition write_frames :: "(nat \<Rightarrow> frame) \<Rightarrow> u32 \<Rightarrow> nat list \<Rightarrow> frame list \<Rightarrow> frame list" where
  "write_frames f write js ring = foldl (\<lambda>ring j. ring[unat (write + word_of_nat j) mod CAP := f j]) ring js"

lemma run_of_updates:
  assumes "p + m \<le> length ring"
  shows "foldl (\<lambda>ring j. ring[p + (j - c) := f j]) ring [c..<c + m] =
    take p ring @ map (\<lambda>k. f (c + k)) [0..<m] @ drop (p + m) ring"
  using assms
proof (induction m)
  case (Suc m)
  have "foldl (\<lambda>ring j. ring[p + (j - c) := f j]) ring [c..<c + Suc m] =
      (take p ring @ map (\<lambda>k. f (c + k)) [0..<m] @ drop (p + m) ring)[p + m := f (c + m)]"
    using Suc by simp
  also have "\<dots> = take p ring @ map (\<lambda>k. f (c + k)) [0..<m] @ (drop (p + m) ring)[0 := f (c + m)]"
    using Suc.prems by (simp add: list_update_append)
  also have "(drop (p + m) ring)[0 := f (c + m)] = f (c + m) # drop (p + Suc m) ring"
    using Suc.prems by (cases "drop (p + m) ring") (auto simp: drop_Suc dest: drop_eq_Nil [THEN iffD1] simp flip: drop_drop tl_drop)
  finally show ?case by simp
qed simp

lemma wrapped_position:
  assumes "pos = unat (wr + word_of_nat c :: u32) mod CAP" "pos + (j - c) < CAP" "c \<le> j"
  shows "unat (wr + word_of_nat j :: u32) mod CAP = pos + (j - c)"
proof -
  obtain w where w: "wr = word_of_nat w" by (metis word_nat_cases)
  have "(w + j) mod CAP = ((w + c) mod CAP + (j - c)) mod CAP" using assms(3) mod_add_left_eq [of "w + c" CAP "j - c"] by simp
  moreover have "pos = (w + c) mod CAP" using assms(1) unfolding w cursor_mod_add .
  ultimately show ?thesis using assms(2) unfolding w cursor_mod_add by simp
qed

lemma push_copy_loop_frames:
  assumes "length ring = CAP"
  shows "push_copy_loop f wr n c ring = write_frames f wr [c..<n] ring"
  using assms
proof (induction f wr n c ring rule: push_copy_loop.induct)
  case (1 f wr n c ring)
  show ?case
  proof (cases "c < n")
    case False
    then show ?thesis by (simp add: push_copy_loop.simps [of f wr n c ring] write_frames_def)
  next
    case True
    define p where "p = unat (wr + word_of_nat c) mod CAP"
    define m where "m = min (CAP - p) (n - c)"
    define ring' where "ring' = take p ring @ map (\<lambda>k. f (c + k)) [0..<m] @ drop (p + m) ring"
    have p: "p < CAP" using ring_cap_pos by (simp add: p_def)
    have m: "p + m \<le> CAP" "c + m \<le> n" using True p by (auto simp: m_def)
    have len: "length ring' = CAP" using 1(2) p m by (simp add: ring'_def)
    have "write_frames f wr [c..<c + m] ring = foldl (\<lambda>ring j. ring[p + (j - c) := f j]) ring [c..<c + m]"
      unfolding write_frames_def
      by (rule foldl_cong) (use wrapped_position [OF p_def] m in auto)
    also have "\<dots> = ring'" using run_of_updates [of p m ring] m 1(2) by (simp add: ring'_def)
    finally have chunk: "write_frames f wr [c..<c + m] ring = ring'" .
    have "push_copy_loop f wr n c ring = push_copy_loop f wr n (c + m) ring'"
      by (subst push_copy_loop.simps) (simp add: True p_def m_def ring'_def Let_def del: of_nat_add)
    also have "\<dots> = write_frames f wr [c + m..<n] ring'"
      using 1(1) [OF True p_def m_def] len by (simp add: ring'_def)
    also have "\<dots> = write_frames f wr ([c..<c + m] @ [c + m..<n]) ring"
      using chunk by (simp add: write_frames_def)
    also have "[c..<c + m] @ [c + m..<n] = [c..<n]" using m(2) upt_add_eq_append [of c "c + m" "n - (c + m)"] by simp
    finally show ?thesis .
  qed
qed

lemma pc_kept: "rr_push r = p \<Longrightarrow> r\<lparr>rr_push := p\<rparr> = r" "rr_read r = q \<Longrightarrow> r\<lparr>rr_read := q\<rparr> = r"
  by (cases r; simp)+

lemma copy_steps:
  assumes "rr_push r = PushCopy fs c" "c \<le> length fs"
  shows "push_step\<^sup>*\<^sup>* r (r\<lparr>rr_source := (rr_source r)\<lparr>so_ring :=
      write_frames ((!) fs) (so_write_cursor (rr_source r)) [c..<length fs] (so_ring (rr_source r))\<rparr>,
    rr_push := PushCopy fs (length fs)\<rparr>)"
  using assms
proof (induction "length fs - c" arbitrary: r c)
  case 0
  then show ?case by (simp add: write_frames_def pc_kept)
next
  case (Suc m)
  define pos where "pos = unat (so_write_cursor (rr_source r) + word_of_nat c) mod CAP"
  define r1 where "r1 = r\<lparr>rr_source := (rr_source r)\<lparr>so_ring := (so_ring (rr_source r))[pos := fs ! c]\<rparr>, rr_push := PushCopy fs (Suc c)\<rparr>"
  have c: "c < length fs" using Suc.hyps(2) by simp
  have "push_step r r1" unfolding r1_def by (rule push_step.copy [OF Suc.prems(1) c pos_def])
  also have "push_step\<^sup>*\<^sup>* r1 (r1\<lparr>rr_source := (rr_source r1)\<lparr>so_ring :=
      write_frames ((!) fs) (so_write_cursor (rr_source r1)) [Suc c..<length fs] (so_ring (rr_source r1))\<rparr>,
    rr_push := PushCopy fs (length fs)\<rparr>)"
    by (rule Suc.hyps(1)) (use Suc.hyps(2) c in \<open>auto simp: r1_def\<close>)
  also have "r1\<lparr>rr_source := (rr_source r1)\<lparr>so_ring :=
      write_frames ((!) fs) (so_write_cursor (rr_source r1)) [Suc c..<length fs] (so_ring (rr_source r1))\<rparr>,
    rr_push := PushCopy fs (length fs)\<rparr> = r\<lparr>rr_source := (rr_source r)\<lparr>so_ring :=
      write_frames ((!) fs) (so_write_cursor (rr_source r)) [c..<length fs] (so_ring (rr_source r))\<rparr>,
    rr_push := PushCopy fs (length fs)\<rparr>"
    using c by (simp add: r1_def pos_def upt_conv_Cons write_frames_def)
  finally show ?case .
qed

lemma write_frames_cong: "(\<And>j. j \<in> set js \<Longrightarrow> f j = g j) \<Longrightarrow> write_frames f wr js ring = write_frames g wr js ring"
  unfolding write_frames_def by (rule foldl_cong) auto

lemma arrival_steps:
  assumes "rr_push r = PushIdle"
  shows "\<exists>tc. push_step\<^sup>*\<^sup>* r (r\<lparr>rr_tc := tc, rr_source :=
      source_update_arrival_controller (word_of_nat (length fs)) ts now_ms (so_write_cursor (rr_source r)) (rr_source r),
    rr_push := PushRoom fs\<rparr>)"
proof -
  obtain talkspurt s where a: "arrival_target (word_of_nat (length fs)) ts now_ms (rr_source r) = (talkspurt, s)" by fastforce
  note v = arrival_view [OF a, unfolded ring_view_fields]
  note step = push_step.arrival [OF assms(1) a]
  let ?r1 = "r\<lparr>rr_source := store_talkspurt_cursor (so_write_cursor s) s, rr_tc := length (rr_published r), rr_push := PushTalkspurt fs\<rparr>"
  let ?r2 = "r\<lparr>rr_tc := length (rr_published r),
    rr_source := bump_talkspurt_generation (store_talkspurt_cursor (so_write_cursor s) s), rr_push := PushRoom fs\<rparr>"
  show ?thesis
  proof (cases talkspurt)
    case True
    then have "push_step r ?r1" using step by simp
    moreover have "push_step ?r1 ?r2" using push_step.spurt [of ?r1 fs] by simp
    ultimately have "push_step\<^sup>*\<^sup>* r ?r2" by (metis r_into_rtranclp rtranclp.rtrancl_into_rtrancl)
    then show ?thesis using True a v by (auto simp: source_update_arrival_controller_def)
  next
    case False
    then have "push_step\<^sup>*\<^sup>* r (r\<lparr>rr_tc := rr_tc r, rr_source := s, rr_push := PushRoom fs\<rparr>)" using step by auto
    moreover have "source_update_arrival_controller (word_of_nat (length fs)) ts now_ms (so_write_cursor (rr_source r)) (rr_source r) = s"
      using False a by (simp add: source_update_arrival_controller_def)
    ultimately show ?thesis by metis
  qed
qed

text \<open>A push nobody interferes with is \<open>native_audio_pipeline_push\<close>; what is published is what it accepted.\<close>

lemma push_is_steps:
  assumes idle: "rr_push r = PushIdle" and len: "length (so_ring (rr_source r)) = CAP"
    and opened: "so_open (rr_source r)" "so_producer_sample_rate (rr_source r) \<noteq> 0" "so_producer_channels (rr_source r) \<noteq> 0"
    and fs: "fs = map (sample_frame (so_producer_channels (rr_source r)) samples) [0..<frames]" "0 < frames"
    and push: "native_audio_pipeline_push samples frames ts now_ms (rr_source r) = (dropped, s)"
  shows "\<exists>tc. push_step\<^sup>*\<^sup>* r (r\<lparr>rr_tc := tc, rr_source := s, rr_published := rr_published r @ take (frames - dropped) fs\<rparr>)"
proof -
  define s1 where "s1 = source_update_arrival_controller (word_of_nat frames) ts now_ms (so_write_cursor (rr_source r)) (rr_source r)"
  define n where "n = push_room frames s1"
  define s2 where "s2 = note_overflow frames n s1"
  have lenfs: "length fs = frames" and n: "n \<le> frames" by (simp_all add: fs(1) n_def push_room_def)
  have s1: "so_ring s1 = so_ring (rr_source r)" "so_write_cursor s1 = so_write_cursor (rr_source r)"
      "so_producer_channels s1 = so_producer_channels (rr_source r)"
    by (auto simp: s1_def source_update_arrival_controller_def arrival_target_def source_raise_target_def Let_def
        store_talkspurt_cursor_def bump_talkspurt_generation_def split: prod.splits NativeAudioJitterTargetAction.splits if_splits)
  have s2: "so_ring s2 = so_ring s1" "so_write_cursor s2 = so_write_cursor s1" "so_producer_channels s2 = so_producer_channels s1"
    by (simp_all add: s2_def note_overflow_def)
  let ?ring = "write_frames ((!) (take n fs)) (so_write_cursor s2) [0..<n] (so_ring s2)"
  obtain tc where 1: "push_step\<^sup>*\<^sup>* r (r\<lparr>rr_tc := tc, rr_source := s1, rr_push := PushRoom fs\<rparr>)" (is "push_step\<^sup>*\<^sup>* r ?r1")
    using arrival_steps [OF idle, of fs ts now_ms] unfolding lenfs s1_def by blast
  let ?r2 = "r\<lparr>rr_tc := tc, rr_source := s2, rr_push := PushCopy (take n fs) 0\<rparr>"
  let ?r3 = "r\<lparr>rr_tc := tc, rr_source := s2\<lparr>so_ring := ?ring\<rparr>, rr_push := PushCopy (take n fs) n\<rparr>"
  let ?r4 = "r\<lparr>rr_tc := tc, rr_source := publish_write n now_ms (s2\<lparr>so_ring := ?ring\<rparr>),
    rr_published := rr_published r @ take n fs, rr_push := PushIdle\<rparr>"
  have 2: "push_step ?r1 ?r2" using push_step.room [of ?r1 fs n] by (simp add: lenfs n_def s2_def)
  have 3: "push_step\<^sup>*\<^sup>* ?r2 ?r3" using copy_steps [of ?r2 "take n fs" 0] n lenfs by simp
  have 4: "push_step ?r3 ?r4" using push_step.publish [of ?r3 "take n fs" now_ms] n lenfs by simp
  from 1 2 3 4 have steps: "push_step\<^sup>*\<^sup>* r ?r4"
    by (meson rtranclp.rtrancl_into_rtrancl rtranclp_trans)
  have "?ring = write_frames (sample_frame (so_producer_channels s2) samples) (so_write_cursor s2) [0..<n] (so_ring s2)"
    by (rule write_frames_cong) (use n in \<open>auto simp: fs(1) s1 s2\<close>)
  then have "?ring = push_copy_loop (sample_frame (so_producer_channels s2) samples) (so_write_cursor s2) n 0 (so_ring s2)"
    using len by (simp add: push_copy_loop_frames s1 s2)
  then have "s = publish_write n now_ms (s2\<lparr>so_ring := ?ring\<rparr>)" "dropped = frames - n"
    using push opened fs(2) by (auto simp: native_audio_pipeline_push_def Let_def s1_def n_def s2_def)
  then show ?thesis using steps n idle by (intro exI [of _ tc]) (simp add: pc_kept)
qed

text \<open>A run of the pump alone, from between two steps of \<open>source_read\<close> to another such point.\<close>

definition pump :: "NativeAudioSource \<Rightarrow> nat \<Rightarrow> frame list \<Rightarrow> NativeAudioSource \<Rightarrow> nat \<Rightarrow> bool" where
  "pump s t frames s' t' \<longleftrightarrow> (\<forall>r. rr_source r = s \<and> rr_read r = ReadIdle t \<longrightarrow>
     (\<exists>r'. read_step\<^sup>*\<^sup>* r r' \<and> rr_source r' = s' \<and> rr_read r' = ReadIdle t' \<and>
        map snd (rr_taken r') = map snd (rr_taken r) @ frames))"

lemma pump_refl [intro]: "pump s t [] s t"
  unfolding pump_def by (metis append_Nil2 rtranclp.rtrancl_refl)

lemma pump_trans: "pump s t a s1 t1 \<Longrightarrow> pump s1 t1 b s2 t2 \<Longrightarrow> pump s t (a @ b) s2 t2"
  unfolding pump_def
proof (intro allI impI)
  fix r :: RingRun
  assume 1: "\<forall>r. rr_source r = s \<and> rr_read r = ReadIdle t \<longrightarrow> (\<exists>r'. read_step\<^sup>*\<^sup>* r r' \<and> rr_source r' = s1 \<and>
      rr_read r' = ReadIdle t1 \<and> map snd (rr_taken r') = map snd (rr_taken r) @ a)"
    and 2: "\<forall>r. rr_source r = s1 \<and> rr_read r = ReadIdle t1 \<longrightarrow> (\<exists>r'. read_step\<^sup>*\<^sup>* r r' \<and> rr_source r' = s2 \<and>
      rr_read r' = ReadIdle t2 \<and> map snd (rr_taken r') = map snd (rr_taken r) @ b)"
    and r: "rr_source r = s \<and> rr_read r = ReadIdle t"
  obtain r1 where r1: "read_step\<^sup>*\<^sup>* r r1" "rr_source r1 = s1 \<and> rr_read r1 = ReadIdle t1"
      "map snd (rr_taken r1) = map snd (rr_taken r) @ a" using 1 r by blast
  obtain r2 where r2: "read_step\<^sup>*\<^sup>* r1 r2" "rr_source r2 = s2" "rr_read r2 = ReadIdle t2"
      "map snd (rr_taken r2) = map snd (rr_taken r1) @ b" using 2 r1(2) by blast
  show "\<exists>r'. read_step\<^sup>*\<^sup>* r r' \<and> rr_source r' = s2 \<and> rr_read r' = ReadIdle t2 \<and>
      map snd (rr_taken r') = map snd (rr_taken r) @ a @ b"
    using rtranclp_trans [OF r1(1) r2(1)] r2(2-) r1(3) by (intro exI [of _ r2]) simp
qed

lemma pump_local: "ring_view s' = ring_view s \<Longrightarrow> pump s t [] s' t"
  unfolding pump_def
proof (intro allI impI)
  fix r :: RingRun assume "ring_view s' = ring_view s" "rr_source r = s \<and> rr_read r = ReadIdle t"
  then have "read_step r (r\<lparr>rr_source := s'\<rparr>)" by (intro read_step.consumer_local) simp
  with \<open>rr_source r = s \<and> rr_read r = ReadIdle t\<close>
  show "\<exists>r'. read_step\<^sup>*\<^sup>* r r' \<and> rr_source r' = s' \<and> rr_read r' = ReadIdle t \<and> map snd (rr_taken r') = map snd (rr_taken r) @ []"
    by (intro exI [of _ "r\<lparr>rr_source := s'\<rparr>"]) auto
qed

lemma pump_trim:
  assumes "t < 2" shows "pump s t [] (snd (source_trim_to_target s)) (Suc t)"
  unfolding pump_def
proof (intro allI impI)
  fix r :: RingRun assume r: "rr_source r = s \<and> rr_read r = ReadIdle t"
  let ?r1 = "r\<lparr>rr_read := ReadTrim t (so_write_cursor s), rr_snap := length (rr_published r)\<rparr>"
  let ?r2 = "(moved (snd (trim_at (so_write_cursor s) s)) ?r1)\<lparr>rr_read := ReadIdle (Suc t)\<rparr>"
  have "read_step r ?r1" using read_step.load_trim [of r t] r assms by simp
  moreover have "read_step ?r1 ?r2" using read_step.do_trim [of ?r1 t "so_write_cursor s"] r by simp
  ultimately have "read_step\<^sup>*\<^sup>* r ?r2" by (metis r_into_rtranclp rtranclp.rtrancl_into_rtrancl)
  then show "\<exists>r'. read_step\<^sup>*\<^sup>* r r' \<and> rr_source r' = snd (source_trim_to_target s) \<and> rr_read r' = ReadIdle (Suc t) \<and>
      map snd (rr_taken r') = map snd (rr_taken r) @ []"
    by (intro exI [of _ ?r2]) (simp add: source_trim_to_target_def moved_def)
qed

text \<open>The two checks; with the write cursor loaded before them the offer follows.\<close>

lemma check_steps:
  assumes "rr_read r = ReadCheck t wo" "source_apply_generation reset_ok (rr_source r) = (c1, s1)"
    and "source_apply_talkspurt s1 = (c2, s2)"
  shows "\<exists>r'. read_step\<^sup>*\<^sup>* r r' \<and> rr_source r' = s2 \<and> rr_read r' = after_checks t wo (c1 \<or> c2) \<and> rr_taken r' = rr_taken r"
proof -
  have 1: "\<exists>r1. read_step\<^sup>*\<^sup>* r r1 \<and> rr_source r1 = s1 \<and> rr_read r1 = ReadSpurt t wo c1 \<and> rr_taken r1 = rr_taken r"
  proof (cases c1)
    case True
    let ?g = "so_format_generation (rr_source r)"
    have g: "?g \<noteq> so_applied_generation (rr_source r)" "s1 = apply_generation_at reset_ok ?g (rr_source r)"
      using assms(2) True by (auto simp: source_apply_generation_def Let_def split: if_splits)
    let ?r1 = "r\<lparr>rr_read := ReadGeneration t wo ?g\<rparr>"
    let ?r2 = "(moved (apply_generation_at reset_ok ?g (rr_source ?r1)) ?r1)\<lparr>rr_read := ReadSpurt t wo True\<rparr>"
    have "read_step r ?r1" by (rule read_step.new_generation [OF assms(1) refl g(1)])
    moreover have "read_step ?r1 ?r2" by (rule read_step.apply_generation) simp
    ultimately have "read_step\<^sup>*\<^sup>* r ?r2" by (metis r_into_rtranclp rtranclp.rtrancl_into_rtrancl)
    then show ?thesis using g True by (intro exI [of _ ?r2]) (simp add: moved_def)
  next
    case False
    then have "so_format_generation (rr_source r) = so_applied_generation (rr_source r)" "s1 = rr_source r"
      using assms(2) by (auto simp: source_apply_generation_def Let_def split: if_splits)
    then show ?thesis using read_step.same_generation [OF assms(1)] False
      by (intro exI [of _ "r\<lparr>rr_read := ReadSpurt t wo False\<rparr>"]) auto
  qed
  then obtain r1 where r1: "read_step\<^sup>*\<^sup>* r r1" "rr_source r1 = s1" "rr_read r1 = ReadSpurt t wo c1" "rr_taken r1 = rr_taken r" by blast
  show ?thesis
  proof (cases c2)
    case True
    let ?g = "so_talkspurt_generation (rr_source r1)"
    have g: "?g \<noteq> so_seen_talkspurt_generation (rr_source r1)" "s2 = apply_talkspurt_at ?g (rr_source r1)"
      using assms(3) True r1(2) by (auto simp: source_apply_talkspurt_def Let_def split: if_splits)
    let ?r2 = "r1\<lparr>rr_read := ReadTalkspurt t ?g\<rparr>"
    let ?r3 = "(moved (apply_talkspurt_at ?g (rr_source ?r2)) ?r2)\<lparr>rr_read := ReadIdle 0\<rparr>"
    have "read_step r1 ?r2" by (rule read_step.new_talkspurt [OF r1(3) refl g(1)])
    moreover have "read_step ?r2 ?r3" by (rule read_step.apply_talkspurt) simp
    ultimately have "read_step\<^sup>*\<^sup>* r ?r3" using r1(1) by (meson rtranclp.rtrancl_into_rtrancl)
    then show ?thesis using g True r1(4)
      by (intro exI [of _ ?r3]) (auto simp: moved_def after_checks_def split: option.splits)
  next
    case False
    then have g: "so_talkspurt_generation (rr_source r1) = so_seen_talkspurt_generation (rr_source r1)" "s2 = rr_source r1"
      using assms(3) r1(2) by (auto simp: source_apply_talkspurt_def Let_def split: if_splits)
    have "read_step r1 (r1\<lparr>rr_read := after_checks t wo c1\<rparr>)" by (rule read_step.same_talkspurt [OF r1(3) g(1)])
    with r1(1) have "read_step\<^sup>*\<^sup>* r (r1\<lparr>rr_read := after_checks t wo c1\<rparr>)" by (rule rtranclp.rtrancl_into_rtrancl)
    then show ?thesis using g(2) False r1(4) by auto
  qed
qed

lemma pump_checks:
  assumes "source_apply_generation reset_ok s = (c1, s1)" "source_apply_talkspurt s1 = (c2, s2)"
  shows "pump s t [] s2 0"
  unfolding pump_def
proof (intro allI impI)
  fix r :: RingRun assume r: "rr_source r = s \<and> rr_read r = ReadIdle t"
  let ?r1 = "r\<lparr>rr_read := ReadCheck t None\<rparr>"
  have "read_step r ?r1" using read_step.check [of r t] r by simp
  moreover obtain r' where "read_step\<^sup>*\<^sup>* ?r1 r'" "rr_source r' = s2" "rr_read r' = after_checks t None (c1 \<or> c2)"
      "rr_taken r' = rr_taken ?r1"
    using check_steps [of ?r1 t None reset_ok] assms r by auto
  ultimately show "\<exists>r'. read_step\<^sup>*\<^sup>* r r' \<and> rr_source r' = s2 \<and> rr_read r' = ReadIdle 0 \<and> map snd (rr_taken r') = map snd (rr_taken r) @ []"
    by (intro exI [of _ r']) (auto simp: after_checks_def intro: converse_rtranclp_into_rtranclp)
qed

lemma take_steps:
  assumes "rr_read r = ReadTake w k n" "k \<le> n"
  shows "\<exists>r'. read_step\<^sup>*\<^sup>* r r' \<and> rr_source r' = rr_source r \<and> rr_read r' = ReadTake w n n \<and>
    map snd (rr_taken r') = map snd (rr_taken r) @
      map (\<lambda>j. so_ring (rr_source r) ! (unat (so_read_cursor (rr_source r)) mod CAP + j)) [k..<n]"
  using assms
proof (induction "n - k" arbitrary: r k)
  case 0
  then show ?case by (intro exI [of _ r]) simp
next
  case (Suc m)
  let ?r1 = "r\<lparr>rr_taken := rr_taken r @ [(rr_rd r + k, so_ring (rr_source r) ! (unat (so_read_cursor (rr_source r)) mod CAP + k))],
    rr_read := ReadTake w (Suc k) n\<rparr>"
  have k: "k < n" and m: "m = n - Suc k" using Suc.hyps(2) by simp_all
  have "read_step r ?r1" by (rule read_step.take_frame [OF Suc.prems(1) k refl])
  moreover obtain r' where "read_step\<^sup>*\<^sup>* ?r1 r'" "rr_source r' = rr_source ?r1" "rr_read r' = ReadTake w n n"
      "map snd (rr_taken r') = map snd (rr_taken ?r1) @
        map (\<lambda>j. so_ring (rr_source ?r1) ! (unat (so_read_cursor (rr_source ?r1)) mod CAP + j)) [Suc k..<n]"
    using Suc.hyps(1) [OF m, of ?r1] k by auto
  ultimately show ?case using k
    by (intro exI [of _ r']) (auto simp: upt_conv_Cons intro: converse_rtranclp_into_rtranclp)
qed

lemma pump_offer:
  assumes "source_apply_generation reset_ok s = (False, s)" "source_apply_talkspurt s = (False, s)"
    and "n \<le> min (CAP - unat (so_read_cursor s) mod CAP) (unat (so_write_cursor s - so_read_cursor s))"
  shows "pump s t (ring_slice (unat (so_read_cursor s) mod CAP) n s) (s\<lparr>so_read_cursor := so_read_cursor s + word_of_nat n\<rparr>) 0"
  unfolding pump_def
proof (intro allI impI)
  fix r :: RingRun assume r: "rr_source r = s \<and> rr_read r = ReadIdle t"
  let ?w = "so_write_cursor s" and ?s' = "s\<lparr>so_read_cursor := so_read_cursor s + word_of_nat n\<rparr>"
  let ?r1 = "r\<lparr>rr_read := ReadCheck t (Some ?w), rr_snap := length (rr_published r)\<rparr>"
  have 1: "read_step r ?r1" using read_step.load_write [of r t] r by simp
  obtain r2 where 2: "read_step\<^sup>*\<^sup>* ?r1 r2" "rr_source r2 = s" "rr_read r2 = ReadOffer ?w" "rr_taken r2 = rr_taken r"
    using check_steps [of ?r1 t "Some ?w" reset_ok False s False s] assms(1,2) r by (auto simp: after_checks_def)
  let ?r3 = "r2\<lparr>rr_read := ReadTake ?w 0 n\<rparr>"
  have 3: "read_step r2 ?r3" using read_step.offer [OF 2(3) refl, of n] assms(3) 2(2) by simp
  obtain r4 where 4: "read_step\<^sup>*\<^sup>* ?r3 r4" "rr_source r4 = s" "rr_read r4 = ReadTake ?w n n"
      "map snd (rr_taken r4) = map snd (rr_taken r) @ ring_slice (unat (so_read_cursor s) mod CAP) n s"
    using take_steps [of ?r3 ?w 0 n] 2(2,4) by (auto simp: ring_slice_def)
  let ?r5 = "(moved ?s' r4)\<lparr>rr_read := ReadIdle 0\<rparr>"
  have 5: "read_step r4 ?r5" using read_step.commit [OF 4(3)] 4(2) by simp
  have "read_step\<^sup>*\<^sup>* r ?r5"
    using 1 2(1) 3 4(1) 5 by (meson converse_rtranclp_into_rtranclp rtranclp.rtrancl_into_rtrancl rtranclp_trans)
  then show "\<exists>r'. read_step\<^sup>*\<^sup>* r r' \<and> rr_source r' = ?s' \<and> rr_read r' = ReadIdle 0 \<and>
      map snd (rr_taken r') = map snd (rr_taken r) @ ring_slice (unat (so_read_cursor s) mod CAP) n s"
    using 4(4) by (intro exI [of _ ?r5]) (simp add: moved_def)
qed

text \<open>What miniaudio promises: it consumes and produces no more than it was given.\<close>

definition converter_ok :: "converter \<Rightarrow> bool" where
  "converter_ok conv \<longleftrightarrow> (\<forall>s contiguous room. fst (conv s contiguous room) \<le> contiguous \<and> fst (snd (conv s contiguous room)) \<le> room)"

definition fade_flag :: "NativeAudioSource \<Rightarrow> NativeAudioSource \<Rightarrow> bool" where
  "fade_flag s s' \<longleftrightarrow> (so_trim_after_fade s' \<longrightarrow> so_trim_after_fade s)"

lemma unat_read_advance:
  assumes "n \<le> unat (w - read :: u32)"
  shows "unat (w - (read + word_of_nat n)) = unat (w - read) - n"
proof -
  have n: "unat (word_of_nat n :: u32) = n" 
    using le_less_trans [OF assms unsigned_less] by (simp add: unat_of_nat take_bit_nat_eq_self)
  have eq: "w - (read + word_of_nat n) = (w - read) - word_of_nat n" by simp
  show ?thesis unfolding eq using n assms unat_sub [of "word_of_nat n" "w - read"] by (simp add: word_le_nat_alt)
qed

lemma convert_is_steps:
  assumes "converter_ok conv" "produced \<le> frames"
  shows "\<exists>p d frames_read s' t'. convert_loop reset_ok conv frames produced taken s = Some (p, d, taken @ frames_read, s') \<and>
    p \<le> frames \<and> pump s t frames_read s' t' \<and> t' \<le> t \<and> fade_flag s s'"
  using assms(2)
proof (induction "frames - produced + unat (so_write_cursor s - so_read_cursor s)" arbitrary: produced taken s t rule: less_induct)
  case less
  obtain c1 s1 c2 s2 where checks: "source_apply_generation reset_ok s = (c1, s1)" "source_apply_talkspurt s1 = (c2, s2)" by fastforce
  show ?case
  proof (cases "produced < frames \<and> so_converter_initialized s")
    case False
    then show ?thesis using less.prems by (subst convert_loop.simps) (auto simp: fade_flag_def)
  next
    case go: True
    show ?thesis
    proof (cases "c1 \<or> c2")
      case True
      have "convert_loop reset_ok conv frames produced taken s = Some (produced, True, taken @ [], s2)"
        using go True checks by (subst convert_loop.simps) simp
      moreover have "fade_flag s s2"
        using checks True by (auto simp: fade_flag_def source_apply_generation_def source_apply_talkspurt_def apply_generation_at_def
            apply_talkspurt_at_def source_reset_converter_def source_advance_read_cursor_def Let_def split: if_splits)
      ultimately show ?thesis using pump_checks [OF checks] less.prems by blast
    next
      case False
      then have same: "s1 = s" "s2 = s" "source_apply_generation reset_ok s = (False, s)" "source_apply_talkspurt s = (False, s)"
        using checks by (auto simp: source_apply_generation_def source_apply_talkspurt_def Let_def split: if_splits)
      let ?available = "unat (so_write_cursor s - so_read_cursor s)" and ?pos = "unat (so_read_cursor s) mod CAP"
      show ?thesis
      proof (cases "?available = 0")
        case True
        have "convert_loop reset_ok conv frames produced taken s = Some (produced, False, taken @ [], s)"
          using go True same by (subst convert_loop.simps) simp
        then show ?thesis using less.prems by (auto simp: fade_flag_def)
      next
        case avail: False
        define contiguous where "contiguous = min (CAP - ?pos) ?available"
        obtain n m ok where conv: "conv s contiguous (frames - produced) = (n, m, ok)" by (metis prod_cases3)
        have nm: "n \<le> contiguous" "m \<le> frames - produced"
          using assms(1) conv unfolding converter_ok_def by (metis fst_conv, metis fst_conv snd_conv)
        define s3 where "s3 = s\<lparr>so_read_cursor := so_read_cursor s + word_of_nat n\<rparr>"
        have s3: "s3 = (if n > 0 then s\<lparr>so_read_cursor := so_read_cursor s + word_of_nat n\<rparr> else s)" by (simp add: s3_def)
        have off: "pump s t (ring_slice ?pos n s) s3 0"
          using pump_offer [OF same(3,4), of n] nm(1) unfolding s3_def contiguous_def by blast
        have flag: "fade_flag s s3" by (simp add: fade_flag_def s3_def)
        have step: "convert_loop reset_ok conv frames produced taken s =
            (if \<not> ok \<or> n = 0 \<and> m = 0 then Some (produced + m, False, taken @ ring_slice ?pos n s, s3)
             else convert_loop reset_ok conv frames (produced + m) (taken @ ring_slice ?pos n s) s3)"
          using go avail same conv
          by (subst convert_loop.simps) (simp add: contiguous_def Let_def s3)
        show ?thesis
        proof (cases "\<not> ok \<or> n = 0 \<and> m = 0")
          case True
          then show ?thesis using step off flag nm(2) less.prems by auto
        next
          case False
          have "?available - n = unat (so_write_cursor s3 - so_read_cursor s3)"
            using unat_read_advance [of n "so_write_cursor s" "so_read_cursor s"] nm(1) by (simp add: s3_def contiguous_def)
          then have "frames - (produced + m) + unat (so_write_cursor s3 - so_read_cursor s3) < frames - produced + ?available"
            using False nm go avail by (auto simp: contiguous_def)
          note smaller = this
          have le: "produced + m \<le> frames" using nm(2) less.prems by simp
          obtain p d fr s' t' where rec: "convert_loop reset_ok conv frames (produced + m) (taken @ ring_slice ?pos n s) s3 =
              Some (p, d, (taken @ ring_slice ?pos n s) @ fr, s')" "p \<le> frames" "pump s3 0 fr s' t'" "t' \<le> 0" "fade_flag s3 s'"
            using less.hyps [OF smaller le, of "taken @ ring_slice ?pos n s" 0] by blast
          have "fade_flag s s'" using flag rec(5) by (simp add: fade_flag_def)
          then show ?thesis using step False rec pump_trans [OF off rec(3)] by auto
        qed
      qed
    qed
  qed
qed

lemma rate_correction_view: "ring_view (source_update_rate_correction s) = ring_view s"
    "so_trim_after_fade (source_update_rate_correction s) = so_trim_after_fade s"
  by (simp_all add: source_update_rate_correction_def ring_view_def Let_def)

lemma envelope_view: "ring_view (envelope_counters n s) = ring_view s"
    "so_trim_after_fade (envelope_counters n s) = so_trim_after_fade s"
  by (induction n arbitrary: s) (simp_all add: ring_view_def)

lemma trim_flag: "so_trim_after_fade (snd (source_trim_to_target s)) = so_trim_after_fade s"
  by (simp add: source_trim_to_target_def trim_at_def Let_def)

text \<open>At most one trim after the fade, and only while its flag is set.\<close>

definition trims_left :: "NativeAudioSource \<Rightarrow> nat \<Rightarrow> bool" where
  "trims_left s t \<longleftrightarrow> t \<le> (if so_trim_after_fade s then 1 else 2)"

lemma trim_after_fade_is_steps:
  assumes "trims_left s t"
  shows "\<exists>t'. pump s t [] (trim_after_fade s) t' \<and> trims_left (trim_after_fade s) t'"
proof (cases "so_trim_after_fade s \<and> so_fade_out_remaining s = 0")
  case True
  let ?s1 = "snd (source_trim_to_target s)"
  have "t < 2" using assms True by (simp add: trims_left_def)
  then have "pump s t [] ?s1 (Suc t)" by (rule pump_trim)
  moreover have "pump ?s1 (Suc t) [] (trim_after_fade s) (Suc t)"
    by (rule pump_local) (simp add: trim_after_fade_def True rate_correction_view, simp add: ring_view_def)
  ultimately have "pump s t [] (trim_after_fade s) (Suc t)" by (metis append_Nil pump_trans)
  moreover have "trims_left (trim_after_fade s) (Suc t)"
    using \<open>t < 2\<close> True by (simp add: trims_left_def trim_after_fade_def rate_correction_view)
  ultimately show ?thesis by blast
qed (use assms in \<open>auto simp: trim_after_fade_def\<close>)

lemma render_is_steps:
  assumes "converter_ok conv" "trims_left s t"
  shows "\<exists>u frames_read s' t'. render_loop reset_ok conv frames offset underrun taken s = Some (u, taken @ frames_read, s') \<and>
    pump s t frames_read s' t' \<and> t' \<le> 2"
  using assms(2)
proof (induction "frames - offset" arbitrary: offset underrun taken s t rule: less_induct)
  case less
  show ?case
  proof (cases "offset < frames")
    case False
    then show ?thesis using less.prems
      by (subst render_loop.simps) (auto simp: trims_left_def split: if_splits)
  next
    case True
    define s1 where "s1 = trim_after_fade s"
    define segment where "segment = render_segment (frames - offset) s1"
    have seg: "0 < segment" "segment \<le> frames - offset"
      using True by (auto simp: segment_def render_segment_def)
    obtain t1 where 1: "pump s t [] s1 t1" "trims_left s1 t1"
      using trim_after_fade_is_steps [OF less.prems] by (auto simp: s1_def)
    obtain p d fr s2 t2 where 2: "source_convert_frames reset_ok conv segment s1 = Some (p, d, fr, s2)"
        "pump s1 t1 fr s2 t2" "t2 \<le> t1" "fade_flag s1 s2"
      using convert_is_steps [OF assms(1), of 0 segment reset_ok "[]" s1 t1] by (auto simp: source_convert_frames_def)
    define gain where "gain = (if d then frames - offset else segment)"
    define s3 where "s3 = envelope_counters gain s2"
    have 3: "pump s2 t2 [] s3 t2" by (rule pump_local) (simp add: s3_def envelope_view)
    have left: "trims_left s3 t2"
      using 1(2) 2(3,4) by (auto simp: s3_def envelope_view trims_left_def fade_flag_def split: if_splits)
    have smaller: "frames - (offset + gain) < frames - offset" using seg True by (auto simp: gain_def)
    obtain u fr' s' t' where rec: "render_loop reset_ok conv frames (offset + gain) (underrun \<or> \<not> d \<and> p < segment) (taken @ fr) s3 =
        Some (u, (taken @ fr) @ fr', s')" "pump s3 t2 fr' s' t'" "t' \<le> 2"
      using less.hyps [OF smaller left, of "underrun \<or> \<not> d \<and> p < segment" "taken @ fr"] by blast
    have "render_loop reset_ok conv frames offset underrun taken s = Some (u, taken @ fr @ fr', s')"
      using True 2(1) rec(1)
      by (subst render_loop.simps, cases d) (simp_all add: Let_def s1_def [symmetric] segment_def [symmetric] gain_def s3_def)
    moreover have "pump s t (fr @ fr') s' t'"
      using pump_trans [OF pump_trans [OF pump_trans [OF 1(1) 2(2)] 3] rec(2)] by simp
    ultimately show ?thesis using rec(3) by blast
  qed
qed

lemma pump_into: "pump s t a s1 t1 \<Longrightarrow> ring_view s2 = ring_view s1 \<Longrightarrow> pump s t a s2 t1"
  using pump_trans [OF _ pump_local, of s t a s1 t1 s2] by simp

text \<open>The playout gate moves the ring by the trim of a rebuffering source only.\<close>

definition gate_trims :: "NativeAudioSource \<Rightarrow> bool" where
  "gate_trims s \<longleftrightarrow> so_rebuffering s \<and> (so_trim_requested s \<or> excessive_backlog s)"

lemma playout_view:
  "ring_view (snd (snd (source_prepare_playout now_ms s))) = ring_view (if gate_trims s then snd (source_trim_to_target s) else s)"
proof -
  define s1 where "s1 = (if gate_trims s then (case source_trim_to_target s of (dropped, s) \<Rightarrow>
    if dropped > 0 then s\<lparr>so_fade_in_remaining := NATIVE_AUDIO_FADE_FRAMES\<rparr> else s) else s)"
  have "ring_view s1 = ring_view (if gate_trims s then snd (source_trim_to_target s) else s)"
    by (simp add: s1_def split_def ring_view_def)
  moreover have "ring_view (snd (snd (source_prepare_playout now_ms s))) = ring_view s1"
    unfolding source_prepare_playout_def gate_trims_def [symmetric] Let_def s1_def [symmetric] by (simp add: ring_view_def)
  ultimately show ?thesis by simp
qed

text \<open>One read of the mixer: it returns, and unless somebody interferes it is a run of the pump.\<close>

lemma read_is_steps:
  assumes "converter_ok conv" "t \<le> 2"
  shows "\<exists>frames_read s' t'. source_read reset_ok conv now_ms frames s = Some (frames_read, s') \<and> pump s t frames_read s' t' \<and> t' \<le> 2"
proof (cases "frames = 0")
  case True
  then show ?thesis using assms(2) by (auto simp: source_read_def)
next
  case False
  obtain c1 s1 c2 s2 where checks: "source_apply_generation reset_ok s = (c1, s1)" "source_apply_talkspurt s1 = (c2, s2)" by fastforce
  have p2: "pump s t [] s2 0" by (rule pump_checks [OF checks])
  show ?thesis
  proof (cases "\<not> so_open s2 \<or> \<not> so_converter_initialized s2")
    case True
    have "ring_view (envelope_counters frames (source_mark_unavailable s2)) = ring_view s2"
      by (simp add: envelope_view source_mark_unavailable_def ring_view_fields)
    then have "pump s t [] (envelope_counters frames (source_mark_unavailable s2)) 0" by (rule pump_into [OF p2])
    then show ?thesis using True False checks by (auto simp: source_read_def Let_def)
  next
    case open_: False
    define s3 where "s3 = (if gate_trims s2 then snd (source_trim_to_target s2) else s2)"
    obtain t3 where p3: "pump s t [] s3 t3" "t3 \<le> 1"
    proof (cases "gate_trims s2")
      case True
      then show ?thesis using that [of 1] pump_trans [OF p2 pump_trim [of 0 s2]] by (simp add: s3_def)
    next
      case False
      then show ?thesis using that [of 0] p2 by (simp add: s3_def)
    qed
    obtain live trim s4 where play: "source_prepare_playout now_ms s2 = (live, trim, s4)" by (metis prod_cases3)
    then have "ring_view s4 = ring_view s3" using playout_view [of now_ms s2] by (simp add: s3_def)
    then have p4: "pump s t [] s4 t3" by (rule pump_into [OF p3(1)])
    show ?thesis
    proof (cases live)
      case False
      have "pump s t [] (envelope_counters frames (s4\<lparr>so_current_correction_ppm := 0, so_correction_ppm := 0\<rparr>)) t3"
        by (rule pump_into [OF p4]) (simp add: envelope_view ring_view_fields)
      then show ?thesis using False open_ \<open>frames \<noteq> 0\<close> checks play p3(2) by (auto simp: source_read_def Let_def)
    next
      case True
      define s5 where "s5 = source_prepare_live_read trim s4"
      have "ring_view s5 = ring_view s4"
        unfolding s5_def source_prepare_live_read_def rate_correction_view by (simp add: ring_view_fields)
      then have p5: "pump s t [] s5 t3" by (rule pump_into [OF p4])
      have "trims_left s5 t3" using p3(2) by (simp add: trims_left_def)
      then obtain u fr s6 t6 where r: "render_loop reset_ok conv frames 0 False [] s5 = Some (u, [] @ fr, s6)" "pump s5 t3 fr s6 t6" "t6 \<le> 2"
        using render_is_steps [OF assms(1)] by blast
      have "pump s t fr s6 t6" using pump_trans [OF p5 r(2)] by simp
      then have "pump s t fr (if u then source_handle_underrun s6 else s6) t6"
      proof (rule pump_into)
        show "ring_view (if u then source_handle_underrun s6 else s6) = ring_view s6"
          by (simp add: source_handle_underrun_def Let_def source_raise_target_def ring_view_fields)
      qed
      moreover have "source_read reset_ok conv now_ms frames s = Some (fr, if u then source_handle_underrun s6 else s6)"
        using True open_ \<open>frames \<noteq> 0\<close> checks play r(1) by (simp add: source_read_def Let_def source_render_live_def s5_def)
      ultimately show ?thesis using r(3) by blast
    qed
  qed
qed

lemma ring_run_push_steps: "push_step\<^sup>*\<^sup>* r r' \<Longrightarrow> ring_run now_ms r \<Longrightarrow> ring_run now_ms r'"
  by (induction rule: rtranclp_induct) (auto intro: ring_run.push)

lemma ring_run_read_steps: "read_step\<^sup>*\<^sup>* r r' \<Longrightarrow> ring_run now_ms r \<Longrightarrow> ring_run now_ms r'"
  by (induction rule: rtranclp_induct) (auto intro: ring_run.read)

lemma run_available:
  assumes "ring_run now_ms r"
  shows "source_available_frames (rr_source r) = length (rr_published r) - rr_rd r"
proof -
  have "cursors_ok r" using ring_run_inv [OF assms] by (simp add: ring_inv_def)
  then show ?thesis
    using cursor_distance_cap [of "rr_rd r" "length (rr_published r)"]
    by (auto simp: source_available_frames_def cursors_ok_def min_def)
qed

lemma run_push:
  assumes "ring_run now_ms r" "rr_push r = PushIdle" "so_open (rr_source r)" "so_producer_sample_rate (rr_source r) \<noteq> 0"
    "so_producer_channels (rr_source r) \<noteq> 0" "0 < frames" "native_audio_pipeline_push samples frames ts ms (rr_source r) = (dropped, s)"
  shows "\<exists>r'. ring_run now_ms r' \<and> rr_source r' = s \<and> rr_read r' = rr_read r \<and> rr_published r' = rr_published r @
    take (frames - dropped) (map (sample_frame (so_producer_channels (rr_source r)) samples) [0..<frames])"
proof -
  have "length (so_ring (rr_source r)) = CAP" using ring_run_inv [OF assms(1)] by (simp add: ring_inv_def cursors_ok_def)
  from push_is_steps [OF assms(2) this assms(3-5) refl assms(6,7)]
  obtain tc where steps: "push_step\<^sup>*\<^sup>* r (r\<lparr>rr_tc := tc, rr_source := s, rr_published := rr_published r @
    take (frames - dropped) (map (sample_frame (so_producer_channels (rr_source r)) samples) [0..<frames])\<rparr>)" by blast
  show ?thesis using ring_run_push_steps [OF steps assms(1)] by force
qed

lemma run_read:
  assumes "ring_run now_ms r" "rr_read r = ReadIdle t" "converter_ok conv"
  shows "\<exists>r' taken. source_read reset_ok conv ms frames (rr_source r) = Some (taken, rr_source r') \<and> ring_run now_ms r' \<and>
    map snd (rr_taken r') = map snd (rr_taken r) @ taken"
proof -
  have "t \<le> 2" using ring_run_inv [OF assms(1)] assms(2) by (simp add: ring_inv_def)
  from read_is_steps [OF assms(3) this] obtain taken s' t' where
    r: "source_read reset_ok conv ms frames (rr_source r) = Some (taken, s')" "pump (rr_source r) t taken s' t'" by blast
  from r(2) assms(2) obtain r' where "read_step\<^sup>*\<^sup>* r r'" "rr_source r' = s'" "map snd (rr_taken r') = map snd (rr_taken r) @ taken"
    unfolding pump_def by blast
  then show ?thesis using ring_run_read_steps [OF _ assms(1)] r(1) by blast
qed

section \<open>Properties\<close>

text \<open>
  C40: the lock-free audio ring hands over what was pushed.  Under every interleaving of the worker's and
  the pump's accesses, across every wrap of the 32-bit cursors, format change, talkspurt, overflow and
  trim: the frames the pump hands to the converter are published ones, each at most once and in
  order, never one that is being overwritten; what the queue length counts is what was published
  and not yet passed.  A push that runs alone publishes exactly the frames it reports as accepted, and
  a read that runs alone returns, both by steps of that interleaving.
\<close>

theorem audio_ring_hands_over_published_frames:
  assumes "ring_run now_ms r" "converter_ok conv"
  shows "sorted_wrt (<) (map fst (rr_taken r)) \<and>
    (\<forall>(k, f) \<in> set (rr_taken r). k < length (rr_published r) \<and> f = rr_published r ! k) \<and>
    source_available_frames (rr_source r) = length (rr_published r) - rr_rd r \<and>
    (rr_push r = PushIdle \<and> so_open (rr_source r) \<and> so_producer_sample_rate (rr_source r) \<noteq> 0 \<and>
       so_producer_channels (rr_source r) \<noteq> 0 \<and> 0 < frames \<and>
       native_audio_pipeline_push samples frames ts ms (rr_source r) = (dropped, s) \<longrightarrow>
     (\<exists>r'. ring_run now_ms r' \<and> rr_source r' = s \<and> rr_read r' = rr_read r \<and> rr_published r' = rr_published r @
        take (frames - dropped) (map (sample_frame (so_producer_channels (rr_source r)) samples) [0..<frames]))) \<and>
    (rr_read r = ReadIdle t \<longrightarrow>
     (\<exists>r' taken. source_read reset_ok conv clock n (rr_source r) = Some (taken, rr_source r') \<and> ring_run now_ms r' \<and>
        map snd (rr_taken r') = map snd (rr_taken r) @ taken))"
proof -
  have "taken_ok r" using ring_run_inv [OF assms(1)] by (simp add: ring_inv_def)
  then have 1: "sorted_wrt (<) (map fst (rr_taken r))"
      "\<forall>(k, f) \<in> set (rr_taken r). k < length (rr_published r) \<and> f = rr_published r ! k"
    by (auto simp: taken_ok_def)
  show ?thesis
    by (intro conjI 1 run_available [OF assms(1)] impI) (use run_push [OF assms(1)] run_read [OF assms(1) _ assms(2)] in blast)+
qed

text \<open>A stereo format is set, one frame is pushed and the mixer reads.\<close>

definition example_converter :: converter where
  "example_converter s contiguous room = (min contiguous room, min contiguous room, True)"

definition example_run :: RingRun where
  "example_run = \<lparr>rr_source = native_audio_source_init 0, rr_push = PushIdle, rr_read = ReadIdle 0, rr_published = [],
     rr_taken = [], rr_rd = 0, rr_rc = 0, rr_tc = 0, rr_snap = 0\<rparr>"

definition example_open :: RingRun where
  "example_open = example_run\<lparr>rr_source := snd (native_audio_pipeline_set_source_format 0 48000 2 (native_audio_source_init 0)),
     rr_rc := 0\<rparr>"

lemma example_open_run: "ring_run 0 example_open"
proof -
  let ?r1 = "example_run\<lparr>rr_source := store_source_format 0 48000 2 (native_audio_source_init 0), rr_rc := 0, rr_push := PushBump\<rparr>"
  let ?r2 = "example_run\<lparr>rr_source := bump_format_generation (rr_source ?r1), rr_rc := 0\<rparr>"
  have "ring_run 0 example_run" unfolding example_run_def by (rule ring_run.init)
  moreover have "push_step example_run ?r1"
    using push_step.set_format [of example_run 48000 2 0]
    by (simp add: example_run_def source_format_ok_def NATIVE_AUDIO_PIPELINE_CHANNELS_def)
  moreover have "push_step ?r1 ?r2" using push_step.bump [of ?r1] by (simp add: example_run_def)
  moreover have "push_step ?r2 example_open"
    using push_step.producer_local [of "rr_source example_open" ?r2]
    by (simp add: example_open_def example_run_def native_audio_pipeline_set_source_format_def source_format_ok_def
        NATIVE_AUDIO_PIPELINE_CHANNELS_def ring_view_def)
  ultimately show ?thesis by (meson ring_run.push)
qed

theorem audio_ring_hands_over_published_frames_witness:
  "\<exists>r taken s. ring_run 0 r \<and> rr_published r = [(3, 4)] \<and> source_read True example_converter 0 480 (rr_source r) = Some (taken, s)"
proof -
  have conv: "converter_ok example_converter" by (simp add: converter_ok_def example_converter_def)
  note claim = audio_ring_hands_over_published_frames [OF _ conv]
  let ?s = "rr_source example_open"
  have fields: "so_open ?s" "so_producer_sample_rate ?s = 48000" "so_producer_channels ?s = 2"
      "so_write_cursor ?s = 0" "so_read_cursor ?s = 0" "rr_push example_open = PushIdle" "rr_published example_open = []"
    by (simp_all add: example_open_def example_run_def native_audio_pipeline_set_source_format_def source_format_ok_def
        NATIVE_AUDIO_PIPELINE_CHANNELS_def store_source_format_def bump_format_generation_def native_audio_source_init_def)
  have same: "so_write_cursor (source_update_arrival_controller n ts ms b s) = so_write_cursor s"
      "so_read_cursor (source_update_arrival_controller n ts ms b s) = so_read_cursor s" for n ts ms b s
    by (auto simp: source_update_arrival_controller_def arrival_target_def source_raise_target_def Let_def
        store_talkspurt_cursor_def bump_talkspurt_generation_def split: prod.splits NativeAudioJitterTargetAction.splits if_splits)
  obtain s where push: "native_audio_pipeline_push [3, 4] 1 0 0 ?s = (0, s)"
    by (auto simp: native_audio_pipeline_push_def fields Let_def push_room_def same NATIVE_AUDIO_PIPELINE_CAPACITY_FRAMES_def)
  obtain r where r: "ring_run 0 r" "rr_source r = s" "rr_published r = [(3, 4)]" "rr_read r = ReadIdle 0"
    using claim [OF example_open_run, where frames = 1 and samples = "[3, 4]" and ts = 0 and ms = 0 and dropped = 0 and s = s
        and t = 0 and reset_ok = True and clock = 0 and n = 480] fields push
    by (auto simp: sample_frame_def NATIVE_AUDIO_PIPELINE_CHANNELS_def example_open_def example_run_def)
  have "rr_read r = ReadIdle 0 \<longrightarrow> (\<exists>r' taken. source_read True example_converter 0 480 (rr_source r) = Some (taken, rr_source r') \<and>
      ring_run 0 r' \<and> map snd (rr_taken r') = map snd (rr_taken r) @ taken)"
    using claim [OF r(1), where frames = 1 and samples = "[3, 4]" and ts = 0 and ms = 0 and dropped = 0 and s = s
      and t = 0 and reset_ok = True and clock = 0 and n = 480] by (elim conjE)
  with r(1,3,4) show ?thesis by blast
qed

end
