(* ===== verification/Session_Switch.thy ===== *)
theory Session_Switch
  imports Video_Ingest Session_Status Native_Pointer "HOL-Library.Signed_Division"
begin

text \<open>
  Switching between live sessions, on the SDL thread: \<open>native/src/native_switch.c\<close> (the per-tick
  coordinator), \<open>native_switch_recovery.c\<close> (backgrounding, snapshot replay, deferred switches),
  \<open>native_switch_handoff.c\<close> (the hand-over), \<open>native_switch_navigation.c\<close> (colour keys, HUB,
  configurator), \<open>native_session.c\<close> (start and stop of a slot), \<open>native_session_supervisor.c\<close>
  (sessions that ended), \<open>native_streaming_transition.c\<close>, \<open>native_hub_actions_navigation.c\<close> and the
  transaction of \<open>native_hub_actions_connect.c\<close>.  The video state is \<open>App\<close> of \<open>Native_App\<close>, the
  input state \<open>PointerApp\<close> of \<open>Native_Pointer\<close>; the record here adds the fields only the SDL thread
  touches.  A session handle is its slot index.  Requests to the servers, to the capture module, the
  evdev grab and the change of ownership are logged in the order they happen.

  Outside: the clock, \<open>malloc\<close>, the start of a worker, the decoder, the storage and the evdev
  reader.  Their answers are functions of how many calls the log holds, so that a clock moves while
  calls are made.  The configurator exists (\<open>preconnect_ui\<close> is not NULL); calls that only repaint
  it, the SDL cursor, the audio pipeline's controls and the logging are left out.
\<close>

definition NATIVE_SWITCH_KEYFRAME_TIMEOUT_MS :: u32 where "NATIVE_SWITCH_KEYFRAME_TIMEOUT_MS = 2000"
definition NATIVE_INDICATOR_SHOW_MS :: u32 where "NATIVE_INDICATOR_SHOW_MS = 1500"
definition NATIVE_SNAPSHOT_QUIET_MS :: u32 where "NATIVE_SNAPSHOT_QUIET_MS = 500"
definition NATIVE_PENDING_SWITCH_TIMEOUT_MS :: u32 where "NATIVE_PENDING_SWITCH_TIMEOUT_MS = 8000"
definition NATIVE_MIXER_OVERLAY_IDLE_HIDE_MS :: u32 where "NATIVE_MIXER_OVERLAY_IDLE_HIDE_MS = 6000"
definition NATIVE_UI_MIXER_CHANNELS :: int where "NATIVE_UI_MIXER_CHANNELS = int NATIVE_SETTINGS_MAX_SESSIONS + 1"

datatype SwitchCall =
    CaptureForeground int
  | WithdrawCapture nat
  | PublishCapture nat
  | SetOwner nat
  | SuppressOutput nat bool
  | RequestRefresh nat
  | StopWorker nat
  | StartWorker nat bool
  | GrabInput
  | UngrabInput
  | SaveSettings
  | UiRequestConnect nat
  | UiCancelHubClose
  | UiSlotStatus nat NativePreconnectSessionState RdpDisconnectReason string
  | UiSlotState nat NativePreconnectSessionState

record SwitchSlot =
  sl_suppressed :: bool
  sl_refresh_ineffective :: bool
  sl_snapshot_deadline_ticks :: u32
  sl_snapshot_retry_used :: bool
  sl_session_started_s :: u32
  sl_runtime_active :: bool

record Switcher =
  sw_app :: App
  sw_pointer :: PointerApp
  sw_slots :: "SwitchSlot list"
  sw_pending_switch_target :: int
  sw_pending_switch_deadline_ticks :: u32
  sw_switch_deadline_ticks :: u32
  sw_switch_baseline_frames :: u32
  sw_switch_reconnect_used :: bool
  sw_snapshot_force :: bool
  sw_hub_connect_target :: int
  sw_hub_open_key_held :: bool
  sw_hub_open_button_held :: bool
  sw_indicator_slot :: int
  sw_indicator_until_ticks :: u32
  sw_indicator_drawn :: bool
  sw_switch_splash_drawn :: bool
  sw_ui_last_state :: "RdpState option" \<comment> \<open>None for -1\<close>
  sw_input_locks_synced :: bool
  sw_mixer_available :: bool
  sw_mixer_overlay_selected :: int
  sw_mixer_overlay_hide_ticks :: u32
  sw_mixer_overlay_ok_held :: bool
  sw_mixer_overlay_dragging :: bool
  sw_mixer_overlay_dismiss_button :: u8
  sw_mixer_overlay_dismiss_pending :: bool
  sw_mixer_overlay_pointer_buttons :: u8
  sw_mixer_overlay_sdl_buttons :: u8
  sw_mixer_settings_dirty :: bool
  sw_mixer_settings_save_ticks :: u32
  sw_calls :: "SwitchCall list"

text \<open>The outside's answers, by the number of calls made so far.\<close>

record SwitchAnswers =
  wa_ticks :: "nat \<Rightarrow> u32"
  wa_now_ms :: "nat \<Rightarrow> u32"
  wa_now_s :: "nat \<Rightarrow> u32"
  wa_mem :: "nat \<Rightarrow> bytes option"
  wa_start :: "nat \<Rightarrow> bool"
  wa_save :: "nat \<Rightarrow> bool"
  wa_video :: "nat \<Rightarrow> nat \<Rightarrow> VideoAnswers"
  wa_keyboard_focus :: bool
  wa_evdev_buttons :: "u8 option"

section \<open>Access\<close>

definition active :: "Switcher \<Rightarrow> nat" where
  "active w = ap_active_index (sw_app w)"

definition sess :: "nat \<Rightarrow> Switcher \<Rightarrow> NativeSessionSlot" where
  "sess i w = slot i (sw_app w)"

definition sl :: "nat \<Rightarrow> Switcher \<Rightarrow> SwitchSlot" where
  "sl i w = sw_slots w ! i"

definition in_app :: "(App \<Rightarrow> App) \<Rightarrow> Switcher \<Rightarrow> Switcher" where
  "in_app f w = w\<lparr>sw_app := f (sw_app w)\<rparr>"

definition in_pointer :: "(PointerApp \<Rightarrow> PointerApp) \<Rightarrow> Switcher \<Rightarrow> Switcher" where
  "in_pointer f w = w\<lparr>sw_pointer := f (sw_pointer w)\<rparr>"

definition in_input :: "(NativeInput \<Rightarrow> NativeInput) \<Rightarrow> Switcher \<Rightarrow> Switcher" where
  "in_input f = in_pointer (\<lambda>p. p\<lparr>pa_input := f (pa_input p)\<rparr>)"

definition put_sess :: "nat \<Rightarrow> NativeSessionSlot \<Rightarrow> Switcher \<Rightarrow> Switcher" where
  "put_sess i s = in_app (put_slot i s)"

definition put_sl :: "nat \<Rightarrow> SwitchSlot \<Rightarrow> Switcher \<Rightarrow> Switcher" where
  "put_sl i s w = w\<lparr>sw_slots := (sw_slots w)[i := s]\<rparr>"

definition call :: "SwitchCall \<Rightarrow> Switcher \<Rightarrow> Switcher" where
  "call c w = w\<lparr>sw_calls := sw_calls w @ [c]\<rparr>"

definition calls_made :: "Switcher \<Rightarrow> nat" where
  "calls_made w = length (sw_calls w)"

definition ticks :: "SwitchAnswers \<Rightarrow> Switcher \<Rightarrow> u32" where
  "ticks wa w = wa_ticks wa (calls_made w)"

definition now_ms :: "SwitchAnswers \<Rightarrow> Switcher \<Rightarrow> u32" where
  "now_ms wa w = wa_now_ms wa (calls_made w)"

definition set_suppressed :: "nat \<Rightarrow> bool \<Rightarrow> Switcher \<Rightarrow> Switcher" where
  "set_suppressed i b w = put_sl i ((sl i w)\<lparr>sl_suppressed := b\<rparr>) w"

definition set_snapshot_pending :: "nat \<Rightarrow> bool \<Rightarrow> Switcher \<Rightarrow> Switcher" where
  "set_snapshot_pending i b w = put_sess i ((sess i w)\<lparr>ss_snapshot_pending := b\<rparr>) w"

text \<open>\<open>SDL_TICKS_PASSED\<close>.\<close>

definition ticks_passed :: "u32 \<Rightarrow> u32 \<Rightarrow> bool" where
  "ticks_passed a b \<longleftrightarrow> sint (b - a) \<le> 0"

definition report_network_error :: "nat \<Rightarrow> Switcher \<Rightarrow> Switcher" where
  "report_network_error i = in_app (native_slot_report_terminal i RDP_STATE_NETWORK_ERROR (rdp_state_exit_code RDP_STATE_NETWORK_ERROR))"

definition streaming_visible :: "Switcher \<Rightarrow> bool" where
  "streaming_visible w = pa_streaming_visible (sw_pointer w)"

definition set_streaming_visible :: "bool \<Rightarrow> Switcher \<Rightarrow> Switcher" where
  "set_streaming_visible b = in_pointer (\<lambda>p. p\<lparr>pa_streaming_visible := b\<rparr>)"

definition mixer_visible :: "Switcher \<Rightarrow> bool" where
  "mixer_visible w = pa_mixer_overlay_visible (sw_pointer w)"

definition set_mixer_visible :: "bool \<Rightarrow> Switcher \<Rightarrow> Switcher" where
  "set_mixer_visible b = in_pointer (\<lambda>p. p\<lparr>pa_mixer_overlay_visible := b\<rparr>)"

definition native_show_session_indicator :: "SwitchAnswers \<Rightarrow> nat \<Rightarrow> Switcher \<Rightarrow> Switcher" where
  "native_show_session_indicator wa i w =
     w\<lparr>sw_indicator_slot := int i, sw_indicator_until_ticks := ticks wa w + NATIVE_INDICATOR_SHOW_MS, sw_indicator_drawn := False\<rparr>"

text \<open>The publication of a new owner; both views of the one variable.\<close>

definition publish_owner :: "nat \<Rightarrow> (App \<Rightarrow> App) \<Rightarrow> Switcher \<Rightarrow> Switcher" where
  "publish_owner target locked w =
     call (SetOwner target) (in_pointer (\<lambda>p. p\<lparr>pa_active_index := int target\<rparr>) (in_app locked w))"

section \<open>Input and the mixer overlay\<close>

definition native_streaming_input_focused :: "SwitchAnswers \<Rightarrow> Switcher \<Rightarrow> bool" where
  "native_streaming_input_focused wa w \<longleftrightarrow>
     \<not> pa_window_unfocused (sw_pointer w) \<and> \<not> pa_app_backgrounded (sw_pointer w) \<and> wa_keyboard_focus wa"

definition native_start_streaming_input :: "SwitchAnswers \<Rightarrow> Switcher \<Rightarrow> Switcher" where
  "native_start_streaming_input wa w = (if native_streaming_input_focused wa w then call GrabInput w else w)"

definition native_stop_streaming_input :: "SwitchAnswers \<Rightarrow> Switcher \<Rightarrow> Switcher" where
  "native_stop_streaming_input wa w =
     (let w = in_pointer native_flush_held_inputs w;
          w = in_input (native_input_set_active False) w;
          w = in_pointer (\<lambda>p. p\<lparr>pa_pointer_warp_pending := False\<rparr>) w;
          w = call UngrabInput (w\<lparr>sw_hub_open_key_held := False, sw_hub_open_button_held := False\<rparr>) in
      case wa_evdev_buttons wa of
        Some held \<Rightarrow> if mixer_visible w then w\<lparr>sw_mixer_overlay_pointer_buttons := held\<rparr> else w
      | None \<Rightarrow> w)"

definition native_mixer_overlay_touch :: "SwitchAnswers \<Rightarrow> Switcher \<Rightarrow> Switcher" where
  "native_mixer_overlay_touch wa w = w\<lparr>sw_mixer_overlay_hide_ticks := ticks wa w + NATIVE_MIXER_OVERLAY_IDLE_HIDE_MS\<rparr>"

definition native_mixer_overlay_flush_settings :: "SwitchAnswers \<Rightarrow> Switcher \<Rightarrow> Switcher" where
  "native_mixer_overlay_flush_settings wa w =
     (if sw_mixer_settings_dirty w then
        let w = call SaveSettings w;
            w = w\<lparr>sw_mixer_settings_dirty := \<not> wa_save wa (calls_made w)\<rparr> in
        w\<lparr>sw_mixer_settings_save_ticks := ticks wa w + 1000\<rparr>
      else w)"

definition warp_to_virtual :: "PointerApp \<Rightarrow> PointerApp" where
  "warp_to_virtual p = p\<lparr>pa_warps := pa_warps p @ [(pa_virtual_mouse_x p, pa_virtual_mouse_y p)]\<rparr>"

definition native_mixer_overlay_hide :: "SwitchAnswers \<Rightarrow> Switcher \<Rightarrow> Switcher" where
  "native_mixer_overlay_hide wa w =
     (let w = native_mixer_overlay_flush_settings wa w in
      if \<not> mixer_visible w then w
      else if sw_mixer_overlay_dismiss_button w \<noteq> 0 \<or> sw_mixer_overlay_pointer_buttons w \<noteq> 0
      then w\<lparr>sw_mixer_overlay_dismiss_pending := True\<rparr>
      else
        let w = (set_mixer_visible False w)\<lparr>sw_mixer_overlay_dragging := False, sw_mixer_overlay_dismiss_button := 0,
              sw_mixer_overlay_dismiss_pending := False, sw_mixer_overlay_pointer_buttons := 0,
              sw_mixer_overlay_sdl_buttons := 0\<rparr>;
            w = (if streaming_visible w \<and> \<not> pa_window_unfocused (sw_pointer w) \<and> ss_current_state (sess (active w) w) = RDP_STATE_ACTIVE
                 then
                   let w = native_start_streaming_input wa w in
                   if wa_keyboard_focus wa then in_pointer warp_to_virtual w else w
                 else w) in
        in_app native_present_invalidate w)"

definition native_mixer_overlay_force_hide :: "SwitchAnswers \<Rightarrow> Switcher \<Rightarrow> Switcher" where
  "native_mixer_overlay_force_hide wa w = native_mixer_overlay_hide wa
     (w\<lparr>sw_mixer_overlay_dismiss_button := 0, sw_mixer_overlay_dismiss_pending := False,
        sw_mixer_overlay_pointer_buttons := 0, sw_mixer_overlay_sdl_buttons := 0\<rparr>)"

text \<open>The mask of the buttons the session still holds: left, right and middle, by SDL's numbers 1, 3 and 2.\<close>

definition seed_buttons :: "bool list \<Rightarrow> u8" where
  "seed_buttons held =
     (if held ! (NATIVE_INPUT_BUTTON_LEFT - 1) then 1 else 0) OR (if held ! (NATIVE_INPUT_BUTTON_RIGHT - 1) then 4 else 0) OR
     (if held ! (NATIVE_INPUT_BUTTON_MIDDLE - 1) then 2 else 0)"

definition native_mixer_overlay_show :: "SwitchAnswers \<Rightarrow> Switcher \<Rightarrow> Switcher" where
  "native_mixer_overlay_show wa w =
     (if ap_rgba (sw_app w) \<noteq> None \<or> \<not> sw_mixer_available w
      then native_show_session_indicator wa (active w) w
      else
        let w = (set_mixer_visible True w)\<lparr>sw_mixer_overlay_selected := int (active w), sw_mixer_overlay_ok_held := False,
              sw_indicator_slot := -1, sw_mixer_overlay_dragging := False, sw_mixer_overlay_dismiss_button := 0,
              sw_mixer_overlay_dismiss_pending := False,
              sw_mixer_overlay_pointer_buttons := seed_buttons (pa_held_mouse (sw_pointer w)), sw_mixer_overlay_sdl_buttons := 0\<rparr>;
            w = native_stop_streaming_input wa w;
            w = in_input (native_input_set_active False) w in
        native_mixer_overlay_touch wa w)"

definition native_mixer_overlay_select :: "SwitchAnswers \<Rightarrow> int \<Rightarrow> Switcher \<Rightarrow> Switcher" where
  "native_mixer_overlay_select wa i w = native_mixer_overlay_touch wa
     (if 0 \<le> i \<and> i < NATIVE_UI_MIXER_CHANNELS then w\<lparr>sw_mixer_overlay_selected := i\<rparr> else w)"

section \<open>Slots\<close>

definition pause_capture :: "Switcher \<Rightarrow> Switcher" where
  "pause_capture w = call (CaptureForeground (-1)) w"

definition native_duck_retarget :: "Switcher \<Rightarrow> Switcher" where
  "native_duck_retarget w = call (CaptureForeground (int (active w))) w"

definition native_any_slot_connected :: "Switcher \<Rightarrow> bool" where
  "native_any_slot_connected w \<longleftrightarrow> list_ex (\<lambda>i. ss_rdp (sess i w)) [0..<NATIVE_SETTINGS_MAX_SESSIONS]"

definition native_stop_slot :: "nat \<Rightarrow> Switcher \<Rightarrow> Switcher" where
  "native_stop_slot i w =
     (let w = (if i = active w then in_input (native_input_set_session None) (in_input (native_input_set_active False) w) else w);
          w = (if ss_rdp (sess i w) then call (WithdrawCapture i) (call (StopWorker i) (call (WithdrawCapture i) w)) else w);
          w = in_app (stop_slot_video i) w in
      put_sl i ((sl i w)\<lparr>sl_suppressed := False, sl_session_started_s := 0, sl_runtime_active := False\<rparr>) w)"

text \<open>\<open>native_input_init\<close> with the window's size kept; the log of sent events is the model's, not the program's.\<close>

definition reset_input :: "NativeInput \<Rightarrow> NativeInput" where
  "reset_input inp =
     (let window_width = ucast (in_window_width inp) :: u16;
          window_height = ucast (in_window_height inp) :: u16;
          fresh = (native_input_init None (word_of_nat NATIVE_RDP_INITIAL_DESKTOP_WIDTH) (word_of_nat NATIVE_RDP_INITIAL_DESKTOP_HEIGHT))\<lparr>in_sent := in_sent inp\<rparr> in
      if window_width \<noteq> 0 \<and> window_height \<noteq> 0 then native_input_set_window_size window_width window_height fresh else fresh)"

definition native_slot_connect :: "SwitchAnswers \<Rightarrow> nat \<Rightarrow> bool \<Rightarrow> Switcher \<Rightarrow> bool \<times> Switcher" where
  "native_slot_connect wa i arm_snapshot w =
     (let started_s = sl_session_started_s (sl i w);
          runtime_active = sl_runtime_active (sl i w);
          w = native_stop_slot i w;
          started = wa_start wa (calls_made w);
          w = in_app (connect_slot_video arm_snapshot (wa_mem wa (calls_made w)) runtime_active started i) w;
          w = (if i = active w then in_input reset_input w else w);
          w = call (StartWorker i started) w in
      if \<not> started then (False, w)
      else
        let w = call (PublishCapture i) w;
            w = put_sl i ((sl i w)\<lparr>sl_session_started_s := started_s, sl_runtime_active := runtime_active\<rparr>) w in
        (True, if i = active w then in_input (native_input_set_session (Some i)) w else w))"

definition native_stop_all_sessions :: "Switcher \<Rightarrow> Switcher" where
  "native_stop_all_sessions w =
     in_app native_stop_media (foldl (\<lambda>w i. native_stop_slot i w) (call UngrabInput w) [0..<NATIVE_SETTINGS_MAX_SESSIONS])"

section \<open>Backgrounding and replay\<close>

text \<open>A session out of sight is silenced, or reconnected out of sight to cache a keyframe.\<close>

definition suppress_plainly :: "nat \<Rightarrow> Switcher \<Rightarrow> Switcher" where
  "suppress_plainly i w = set_suppressed i True (call (SuppressOutput i False) w)"

definition native_background_slot :: "SwitchAnswers \<Rightarrow> nat \<Rightarrow> Switcher \<Rightarrow> Switcher" where
  "native_background_slot wa i w =
     (if \<not> ss_rdp (sess i w) \<or> sl_suppressed (sl i w) then w
      else if (sl_refresh_ineffective (sl i w) \<or> sw_snapshot_force w) \<and> ss_current_state (sess i w) = RDP_STATE_ACTIVE then
        (case native_slot_connect wa i True w of
           (False, w) \<Rightarrow> report_network_error i w
         | (True, w) \<Rightarrow>
             if as_armed (ss_snapshot (sess i w))
             then (let w = set_snapshot_pending i True w in put_sl i ((sl i w)\<lparr>sl_snapshot_deadline_ticks := 0\<rparr>) w)
             else suppress_plainly i w)
      else suppress_plainly i w)"

text \<open>The cached units, fed one after the other until the session fails or the program stops.\<close>

fun replay_units :: "(nat \<Rightarrow> VideoAnswers) \<Rightarrow> nat \<Rightarrow> nat \<Rightarrow> (bytes \<times> u64) list \<Rightarrow> App \<Rightarrow> App" where
  "replay_units va k i [] app = app"
| "replay_units va k i ((au, pts) # units) app =
     (let app = native_video_ingest_au_locked (va k) i (Some au) pts app in
      if \<not> ap_running app \<or> ss_session_failed (slot i app) then app else replay_units va (Suc k) i units app)"

definition native_snapshot_replay :: "SwitchAnswers \<Rightarrow> nat \<Rightarrow> Switcher \<Rightarrow> bool \<times> Switcher" where
  "native_snapshot_replay wa i w =
     (let snap = ss_snapshot (sess i w);
          w = put_sess i ((sess i w)\<lparr>ss_snapshot := snap_zero, ss_snapshot_idr_ready := False\<rparr>) w in
      if \<not> native_au_snapshot_ready snap then (False, w)
      else if now_ms wa w - ss_snapshot_last_au_ms (sess i w) < NATIVE_SNAPSHOT_QUIET_MS then (False, w)
      else
        let baseline = ss_video_ok_frames (sess i w);
            w = in_app (replay_units (wa_video wa (calls_made w)) 0 i (snap_chain snap)) w in
        (ss_video_ok_frames (sess i w) \<noteq> baseline, w))"

section \<open>The hand-over\<close>

definition resume_and_refresh :: "nat \<Rightarrow> Switcher \<Rightarrow> Switcher" where
  "resume_and_refresh i w = call (RequestRefresh i) (call (SuppressOutput i True) w)"

text \<open>A silenced session coming back: replay its cache, or reconnect it, or ask for a keyframe.\<close>

definition resume_target :: "SwitchAnswers \<Rightarrow> nat \<Rightarrow> Switcher \<Rightarrow> Switcher" where
  "resume_target wa target w =
     (case native_snapshot_replay wa target (set_suppressed target False w) of
        (True, w) \<Rightarrow> call (SuppressOutput target True) w
      | (False, w) \<Rightarrow>
          if ss_session_failed (sess target w) then w
          else if sl_refresh_ineffective (sl target w) then
            (case native_slot_connect wa target False w of
               (True, w) \<Rightarrow> w
             | (False, w) \<Rightarrow> report_network_error target w)
          else resume_and_refresh target w)"

definition retarget_input :: "nat \<Rightarrow> Switcher \<Rightarrow> Switcher" where
  "retarget_input target w =
     (let s = sess target w;
          w = in_input (native_input_set_session (Some target)) w;
          w = in_input (native_input_set_desktop_size (ucast (ss_desktop_width s)) (ucast (ss_desktop_height s))) w in
      in_pointer native_request_pointer_window_size_update (w\<lparr>sw_input_locks_synced := False\<rparr>))"

definition native_complete_session_switch :: "SwitchAnswers \<Rightarrow> nat \<Rightarrow> Switcher \<Rightarrow> bool \<times> Switcher" where
  "native_complete_session_switch wa target w =
     (let old_index = active w in
      if \<not> ss_rdp (sess target w) \<or> ss_session_failed (sess target w) then (False, w)
      else if old_index = target then (True, native_show_session_indicator wa target w)
      else
        let w = w\<lparr>sw_pending_switch_target := -1\<rparr>;
            w = native_mixer_overlay_hide wa w;
            w = in_pointer native_flush_held_inputs w;
            w = in_input (native_input_set_active False) w;
            switch_baseline = ss_video_ok_frames (sess target w);
            w = pause_capture w;
            snapshot_pending = ss_snapshot_pending (sess target w);
            w = publish_owner target (handoff_locked target) w;
            w = native_duck_retarget w;
            w = retarget_input target w;
            w = native_background_slot wa old_index w;
            w = (if \<not> snapshot_pending \<and> sl_suppressed (sl target w) then resume_target wa target w else w);
            w = w\<lparr>sw_switch_deadline_ticks := ticks wa w + NATIVE_SWITCH_KEYFRAME_TIMEOUT_MS,
                  sw_switch_baseline_frames := switch_baseline, sw_switch_reconnect_used := False\<rparr> in
        (True, native_show_session_indicator wa target w))"

section \<open>Deferred switches\<close>

definition clear_pending_switch :: "Switcher \<Rightarrow> Switcher" where
  "clear_pending_switch w = w\<lparr>sw_pending_switch_target := -1\<rparr>"

definition native_prepare_pending_switch :: "SwitchAnswers \<Rightarrow> nat \<Rightarrow> Switcher \<Rightarrow> Switcher" where
  "native_prepare_pending_switch wa target w =
     (if ss_snapshot_pending (sess target w) then w
      else
        let reconnect = (sl_refresh_ineffective (sl target w) \<or> sw_snapshot_force w);
            (ok, w) = (if reconnect
               then (case native_slot_connect wa target True (put_sl target ((sl target w)\<lparr>sl_snapshot_retry_used := True\<rparr>) w) of
                   (True, w) \<Rightarrow> (True, w)
                 | (False, w) \<Rightarrow> (False, report_network_error target w))
               else (True, put_sess target ((sess target w)\<lparr>
                   ss_snapshot := snd (native_au_snapshot_arm (wa_mem wa (calls_made w)) (ss_snapshot (sess target w))),
                   ss_snapshot_idr_ready := False\<rparr>) w)) in
        if \<not> ok then w
        else if \<not> as_armed (ss_snapshot (sess target w))
        then snd (native_complete_session_switch wa target (clear_pending_switch w))
        else
          let w = set_snapshot_pending target True w;
              w = put_sl target ((sl target w)\<lparr>sl_suppressed := False, sl_snapshot_deadline_ticks := 0\<rparr>) w in
          if reconnect then w else resume_and_refresh target w)"

section \<open>The tick\<close>

definition native_switch_watchdog_baseline :: "nat \<Rightarrow> Switcher \<Rightarrow> Switcher" where
  "native_switch_watchdog_baseline i w = w\<lparr>sw_switch_baseline_frames := ss_video_ok_frames (sess i w)\<rparr>"

definition native_switch_watchdog_start :: "SwitchAnswers \<Rightarrow> u32 \<Rightarrow> Switcher \<Rightarrow> Switcher" where
  "native_switch_watchdog_start wa timeout_ms w =
     w\<lparr>sw_switch_deadline_ticks := ticks wa w + timeout_ms, sw_switch_reconnect_used := False\<rparr>"

text \<open>One hidden session that is caching its keyframe.\<close>

definition tick_slot :: "SwitchAnswers \<Rightarrow> Switcher \<Rightarrow> nat \<Rightarrow> Switcher" where
  "tick_slot wa w i =
     (let s = sess i w;
          answer_press = (\<lambda>w. if int i = sw_pending_switch_target w
            then snd (native_complete_session_switch wa i (clear_pending_switch w)) else w) in
      if \<not> ss_snapshot_pending s \<or> i = active w then w
      else if \<not> ss_rdp s \<or> ss_current_state s \<noteq> RDP_STATE_ACTIVE then w
      else if ss_snapshot_idr_ready s then set_snapshot_pending i False (suppress_plainly i w)
      else if \<not> as_armed (ss_snapshot s) then answer_press (set_snapshot_pending i False (suppress_plainly i w))
      else if sl_snapshot_deadline_ticks (sl i w) = 0
      then put_sl i ((sl i w)\<lparr>sl_snapshot_deadline_ticks := ticks wa w + NATIVE_SWITCH_KEYFRAME_TIMEOUT_MS\<rparr>) w
      else if \<not> ticks_passed (ticks wa w) (sl_snapshot_deadline_ticks (sl i w)) then w
      else if int i = sw_pending_switch_target w \<and> \<not> sl_snapshot_retry_used (sl i w) \<and> \<not> ss_video_via_bitmap s
      then native_prepare_pending_switch wa i
        (set_snapshot_pending i False (put_sl i ((sl i w)\<lparr>sl_refresh_ineffective := True\<rparr>) w))
      else
        let w = put_sess i (s\<lparr>ss_snapshot := native_au_snapshot_reset (ss_snapshot s)\<rparr>) w in
        answer_press (set_snapshot_pending i False (suppress_plainly i w)))"

definition stream_ready :: "SwitchAnswers \<Rightarrow> nat \<Rightarrow> Switcher \<Rightarrow> bool" where
  "stream_ready wa i w \<longleftrightarrow> ss_snapshot_idr_ready (sess i w) \<and>
     now_ms wa w - ss_snapshot_last_au_ms (sess i w) \<ge> NATIVE_SNAPSHOT_QUIET_MS"

definition tick_deferred :: "SwitchAnswers \<Rightarrow> Switcher \<Rightarrow> Switcher" where
  "tick_deferred wa w =
     (if sw_pending_switch_target w < 0 then w
      else
        let target = nat (sw_pending_switch_target w);
            s = sess target w in
        if \<not> ss_rdp s \<or> ss_session_failed s then clear_pending_switch w
        else if \<not> ss_snapshot_pending s \<and> sl_suppressed (sl target w) \<and> stream_ready wa target w
        then snd (native_complete_session_switch wa target (clear_pending_switch w))
        else if ticks_passed (ticks wa w) (sw_pending_switch_deadline_ticks w)
        then snd (native_complete_session_switch wa target (clear_pending_switch w))
        else w)"

definition tick_refresh :: "SwitchAnswers \<Rightarrow> Switcher \<Rightarrow> Switcher" where
  "tick_refresh wa w =
     (if \<not> ap_video_refresh_needed (sw_app w) then w
      else
        let w = in_app (\<lambda>app. app\<lparr>ap_video_refresh_needed := False\<rparr>) w;
            i = active w in
        if ss_rdp (sess i w) \<and> ss_current_state (sess i w) = RDP_STATE_ACTIVE then
          let w = native_switch_watchdog_baseline i w;
              w = call (RequestRefresh i) w in
          native_switch_watchdog_start wa NATIVE_SWITCH_KEYFRAME_TIMEOUT_MS w
        else w)"

definition tick_watchdog :: "SwitchAnswers \<Rightarrow> Switcher \<Rightarrow> Switcher" where
  "tick_watchdog wa w =
     (let i = active w; s = sess i w in
      if sw_switch_deadline_ticks w = 0 then w
      else if ss_video_ok_frames s \<noteq> sw_switch_baseline_frames w then w\<lparr>sw_switch_deadline_ticks := 0\<rparr>
      else if ss_rdp s \<and> ss_current_state s \<noteq> RDP_STATE_ACTIVE
      then w\<lparr>sw_switch_deadline_ticks := ticks wa w + NATIVE_SWITCH_KEYFRAME_TIMEOUT_MS\<rparr>
      else if \<not> ticks_passed (ticks wa w) (sw_switch_deadline_ticks w) then w
      else if \<not> sw_switch_reconnect_used w \<and> ss_rdp s \<and> ss_current_state s = RDP_STATE_ACTIVE then
        let w = put_sl i ((sl i w)\<lparr>sl_refresh_ineffective := True\<rparr>) w;
            w = native_switch_watchdog_baseline i w;
            w = native_switch_watchdog_start wa (2 * NATIVE_SWITCH_KEYFRAME_TIMEOUT_MS) w;
            w = w\<lparr>sw_switch_reconnect_used := True\<rparr> in
        (case native_slot_connect wa i False w of
           (True, w) \<Rightarrow> w
         | (False, w) \<Rightarrow> report_network_error i w)
      else w\<lparr>sw_switch_deadline_ticks := 0\<rparr>)"

definition native_switch_tick :: "SwitchAnswers \<Rightarrow> Switcher \<Rightarrow> Switcher" where
  "native_switch_tick wa w =
     tick_watchdog wa (tick_refresh wa (tick_deferred wa (foldl (tick_slot wa) w [0..<NATIVE_SETTINGS_MAX_SESSIONS])))"

section \<open>Navigation\<close>

definition native_show_hub :: "SwitchAnswers \<Rightarrow> Switcher \<Rightarrow> Switcher" where
  "native_show_hub wa w =
     (if \<not> streaming_visible w \<or> mixer_visible w then w
      else
        let i = active w;
            w = native_stop_streaming_input wa (clear_pending_switch w);
            w = in_input (native_input_set_active False) w;
            w = w\<lparr>sw_indicator_slot := -1, sw_indicator_drawn := False, sw_switch_splash_drawn := False\<rparr>;
            w = set_streaming_visible False (in_app native_present_invalidate w);
            w = in_app (\<lambda>app. app\<lparr>ap_hub_visible := True, ap_hub_return_slot := int i\<rparr>) w in
        w\<lparr>sw_hub_connect_target := -1, sw_ui_last_state := None\<rparr>)"

definition native_show_slot_configurator :: "SwitchAnswers \<Rightarrow> nat \<Rightarrow> Switcher \<Rightarrow> Switcher" where
  "native_show_slot_configurator wa target w =
     (let w = (clear_pending_switch w)\<lparr>sw_hub_connect_target := -1\<rparr>;
          old_index = active w;
          w = (if old_index \<noteq> target then
                 let w = native_stop_streaming_input wa w;
                     w = in_input (native_input_set_active False) w;
                     w = pause_capture w;
                     w = publish_owner target (configurator_locked target) w;
                     w = native_duck_retarget w;
                     w = native_background_slot wa old_index w;
                     w = in_input (native_input_set_session (if ss_rdp (sess target w) then Some target else None)) w in
                 w\<lparr>sw_switch_deadline_ticks := 0\<rparr>
               else w) in
      (set_streaming_visible False w)\<lparr>sw_ui_last_state := None\<rparr>)"

definition native_request_session_switch :: "SwitchAnswers \<Rightarrow> int \<Rightarrow> Switcher \<Rightarrow> Switcher" where
  "native_request_session_switch wa t w =
     (if t < 0 \<or> t \<ge> int NATIVE_SETTINGS_MAX_SESSIONS then w
      else
        let target = nat t; s = sess target w in
        if mixer_visible w then
          (if target = active w then native_mixer_overlay_hide wa w else native_mixer_overlay_select wa t w)
        else if target = active w \<and> sw_pending_switch_target w \<ge> 0
        then native_show_session_indicator wa target (clear_pending_switch w)
        else if native_slot_is_live_stream_target s then
          let w = (in_app (\<lambda>app. app\<lparr>ap_hub_visible := False\<rparr>) w)\<lparr>sw_hub_connect_target := -1\<rparr> in
          if target = active w \<and> streaming_visible w then native_mixer_overlay_show wa w
          else if t = sw_pending_switch_target w then w
          else
            let ready_now = (ss_video_via_bitmap s \<or>
              \<not> ss_snapshot_pending s \<and> (\<not> sl_suppressed (sl target w) \<or> stream_ready wa target w)) in
            if ready_now then snd (native_complete_session_switch wa target (clear_pending_switch w))
            else
              let w = w\<lparr>sw_pending_switch_target := t,
                    sw_pending_switch_deadline_ticks := ticks wa w + NATIVE_PENDING_SWITCH_TIMEOUT_MS\<rparr>;
                  w = put_sl target ((sl target w)\<lparr>sl_snapshot_retry_used := False\<rparr>) w;
                  w = native_show_session_indicator wa target w in
              if sl_suppressed (sl target w) \<and> ss_snapshot_idr_ready (sess target w) then w
              else native_prepare_pending_switch wa target w
        else if ss_rdp s then w
        else call (UiRequestConnect target) (native_show_slot_configurator wa target w))"

text \<open>The neighbours on the ring, nearest first; C's remainder has the dividend's sign.\<close>

definition ring_candidate :: "nat \<Rightarrow> int \<Rightarrow> nat \<Rightarrow> nat" where
  "ring_candidate i direction step =
     (let c = (int i + direction * int step) smod int NATIVE_SETTINGS_MAX_SESSIONS in
      nat (if c < 0 then c + int NATIVE_SETTINGS_MAX_SESSIONS else c))"

definition native_ring_switch :: "SwitchAnswers \<Rightarrow> int \<Rightarrow> Switcher \<Rightarrow> Switcher" where
  "native_ring_switch wa direction w =
     (case List.find (\<lambda>i. native_slot_is_live_stream_target (sess i w))
        (map (ring_candidate (active w) direction) [1..<NATIVE_SETTINGS_MAX_SESSIONS]) of
        Some candidate \<Rightarrow> native_request_session_switch wa (int candidate) w
      | None \<Rightarrow> native_show_session_indicator wa (active w) w)"

section \<open>Sessions that ended\<close>

definition survivor :: "nat \<Rightarrow> Switcher \<Rightarrow> nat option" where
  "survivor i w = foldl (\<lambda>best j. if j \<noteq> i \<and> native_slot_is_live_stream_target (sess j w) \<and>
     ss_current_state (sess j w) = RDP_STATE_ACTIVE then Some j else best) None [0..<NATIVE_SETTINGS_MAX_SESSIONS]"

text \<open>What the configurator is told about the session that ended.\<close>

definition publish_terminal_status :: "nat \<Rightarrow> Switcher \<Rightarrow> Switcher" where
  "publish_terminal_status i w =
     (let s = sess i w;
          reason = native_session_terminal_reason (ss_terminal_state s) (ss_terminal_reason s)
            (ss_was_active s \<or> sl_runtime_active (sl i w));
          ui_state = native_session_terminal_ui_state (ss_terminal_state s) reason in
      call (UiSlotStatus i ui_state reason (st_detail (native_session_status ui_state reason))) w)"

text \<open>The session on screen ended and none takes over.\<close>

definition leave_streaming :: "SwitchAnswers \<Rightarrow> nat \<Rightarrow> Switcher \<Rightarrow> Switcher" where
  "leave_streaming wa i w =
     (let w = native_stop_slot i (native_stop_streaming_input wa w);
          w = set_streaming_visible False (w\<lparr>sw_switch_deadline_ticks := 0\<rparr>) in
      (native_mixer_overlay_force_hide wa w)\<lparr>sw_ui_last_state := None\<rparr>)"

definition drain_active :: "SwitchAnswers \<Rightarrow> nat \<Rightarrow> Switcher \<Rightarrow> Switcher" where
  "drain_active wa i w =
     (let (switched, best, w) = (case survivor i w of
            Some j \<Rightarrow> if streaming_visible w
              then (case native_complete_session_switch wa j w of
                  (True, w) \<Rightarrow> (True, Some j, w)
                | (False, w) \<Rightarrow> (False, None, w))
              else (False, Some j, w)
          | None \<Rightarrow> (False, None, w)) in
      if switched then native_stop_slot i w
      else if best \<noteq> None then (native_stop_slot i w)\<lparr>sw_ui_last_state := None\<rparr>
      else leave_streaming wa i w)"

definition pending_return_live :: "Switcher \<Rightarrow> bool" where
  "pending_return_live w \<longleftrightarrow> 0 \<le> sw_pending_switch_target w \<and> sw_pending_switch_target w < int NATIVE_SETTINGS_MAX_SESSIONS \<and>
     native_slot_is_live_stream_target (sess (nat (sw_pending_switch_target w)) w)"

definition supervise_slot :: "SwitchAnswers \<Rightarrow> Switcher \<Rightarrow> nat \<Rightarrow> Switcher" where
  "supervise_slot wa w i =
     (if \<not> ss_session_failed (sess i w) then w
      else
        let w = publish_terminal_status i w;
            w = (if int i = sw_hub_connect_target w then w\<lparr>sw_hub_connect_target := -1\<rparr> else w);
            w = (if i = active w then drain_active wa i w else native_stop_slot i w);
            w = (if \<not> streaming_visible w \<and> \<not> ap_hub_visible (sw_app w) \<and> \<not> pending_return_live w
                 then call UiCancelHubClose w else w) in
        if \<not> native_any_slot_connected w then in_app native_stop_media w else w)"

definition native_session_supervisor_tick :: "SwitchAnswers \<Rightarrow> Switcher \<Rightarrow> Switcher" where
  "native_session_supervisor_tick wa w = foldl (supervise_slot wa) w [0..<NATIVE_SETTINGS_MAX_SESSIONS]"

section \<open>Entering the stream\<close>

definition loop_arm_streaming_input :: "SwitchAnswers \<Rightarrow> Switcher \<Rightarrow> bool \<times> Switcher" where
  "loop_arm_streaming_input wa w =
     (let s = sess (active w) w;
          input_streaming = (streaming_visible w \<and> ss_rdp s \<and> ss_current_state s = RDP_STATE_ACTIVE \<and>
            \<not> mixer_visible w \<and> native_streaming_input_focused wa w);
          w = in_input (native_input_set_active input_streaming) w;
          desk_w = ucast (ss_desktop_width s) :: u16;
          desk_h = ucast (ss_desktop_height s) :: u16;
          inp = pa_input (sw_pointer w);
          w = (if ss_rdp s \<and> desk_w \<noteq> 0 \<and> desk_h \<noteq> 0 \<and>
                  (desk_w \<noteq> ucast (in_desktop_width inp) \<or> desk_h \<noteq> ucast (in_desktop_height inp))
               then in_pointer native_request_pointer_window_size_update (in_input (native_input_set_desktop_size desk_w desk_h) w)
               else w);
          w = (if input_streaming \<and> \<not> sw_input_locks_synced w
               then (in_input (\<lambda>inp. snd (native_input_sync_locks False True False inp)) w)\<lparr>sw_input_locks_synced := True\<rparr>
               else if \<not> input_streaming then w\<lparr>sw_input_locks_synced := False\<rparr> else w) in
      (input_streaming, w))"

text \<open>The screen goes to the active session.\<close>

definition enter_streaming :: "SwitchAnswers \<Rightarrow> bool \<Rightarrow> Switcher \<Rightarrow> Switcher" where
  "enter_streaming wa hub_connect_ready w =
     (let i = active w;
          w = (if hub_connect_ready
               then (in_app (\<lambda>app. app\<lparr>ap_hub_visible := False\<rparr>) w)\<lparr>sw_hub_connect_target := -1\<rparr> else w);
          w = (if sl_suppressed (sl i w) then
                 native_switch_watchdog_start wa NATIVE_SWITCH_KEYFRAME_TIMEOUT_MS
                   (resume_and_refresh i (native_switch_watchdog_baseline i (set_suppressed i False w)))
               else w);
          w = call SaveSettings w;
          w = (if native_streaming_input_focused wa w
               then in_pointer warp_to_virtual (native_start_streaming_input wa w) else w);
          w = in_app (\<lambda>app. app\<lparr>ap_hub_visible := False\<rparr>) (set_streaming_visible True w) in
      native_show_session_indicator wa (active w) w)"

definition native_streaming_transition_tick :: "SwitchAnswers \<Rightarrow> Switcher \<Rightarrow> Switcher" where
  "native_streaming_transition_tick wa w =
     (let s = sess (active w) w;
          w = snd (loop_arm_streaming_input wa w);
          w = (if ss_rdp s \<and> Some (ss_current_state s) \<noteq> sw_ui_last_state w \<and> ss_current_state s \<noteq> RDP_STATE_ACTIVE
               then w\<lparr>sw_ui_last_state := Some (ss_current_state s)\<rparr> else w);
          hub_connect_ready = (sw_hub_connect_target w = int (active w)) in
      if ss_rdp s \<and> ss_current_state s = RDP_STATE_ACTIVE \<and> \<not> streaming_visible w \<and> sw_pending_switch_target w < 0 \<and>
         (\<not> ap_hub_visible (sw_app w) \<or> hub_connect_ready)
      then enter_streaming wa hub_connect_ready w else w)"

section \<open>The HUB\<close>

text \<open>Where BACK leads: the screen the HUB was opened from, or an active session, or one that is coming back.\<close>

definition hub_return_target :: "Switcher \<Rightarrow> nat option" where
  "hub_return_target w =
     (let r = ap_hub_return_slot (sw_app w); live = (\<lambda>i. native_slot_is_live_stream_target (sess i w)) in
      if 0 \<le> r \<and> r < int NATIVE_SETTINGS_MAX_SESSIONS \<and> live (nat r) then Some (nat r)
      else
        case List.find (\<lambda>i. live i \<and> ss_current_state (sess i w) = RDP_STATE_ACTIVE) [0..<NATIVE_SETTINGS_MAX_SESSIONS] of
          Some i \<Rightarrow> Some i
        | None \<Rightarrow> List.find (\<lambda>i. live i \<and> ss_snapshot_pending (sess i w)) [0..<NATIVE_SETTINGS_MAX_SESSIONS])"

text \<open>\<open>close\<close> and \<open>activate\<close> are the two one-shot requests of the configurator.\<close>

definition native_hub_actions_drain_navigation :: "SwitchAnswers \<Rightarrow> bool \<Rightarrow> int option \<Rightarrow> Switcher \<Rightarrow> bool \<times> Switcher" where
  "native_hub_actions_drain_navigation wa close activate w =
     (if close then
        (True,
         if \<not> ap_hub_visible (sw_app w) then call UiCancelHubClose w
         else
           case hub_return_target w of
             Some i \<Rightarrow>
               let w = native_request_session_switch wa (int i) w in
               if ap_hub_visible (sw_app w) then call UiCancelHubClose w else w
           | None \<Rightarrow> call UiCancelHubClose w)
      else
        case activate of
          Some i \<Rightarrow> (True, native_request_session_switch wa i w)
        | None \<Rightarrow> (False, w))"

text \<open>
  The transaction of \<open>native_hub_actions_drain_connect\<close>, after the request was validated and the
  settings stored: first the old worker of the slot and the server going to the background, then the hand-over.
\<close>

definition hub_prepare :: "nat \<Rightarrow> NativeSessionConfig \<Rightarrow> Switcher \<Rightarrow> Switcher" where
  "hub_prepare requested session w =
     (let old_index = active w;
          w = put_sl requested ((sl requested w)\<lparr>sl_session_started_s := 0, sl_runtime_active := False\<rparr>) w;
          w = native_stop_slot requested w;
          w = (if native_session_endpoint_changed (ss_config (sess requested w)) session
               then put_sl requested ((sl requested w)\<lparr>sl_refresh_ineffective := False\<rparr>) w else w);
          w = put_sess requested ((sess requested w)\<lparr>ss_config := session\<rparr>) w;
          w = (if old_index \<noteq> requested \<and> ss_rdp (sess old_index w) \<and> \<not> sl_suppressed (sl old_index w)
               then call (SuppressOutput old_index False) w else w) in
      (clear_pending_switch w)\<lparr>sw_switch_deadline_ticks := 0\<rparr>)"

definition hub_connect :: "SwitchAnswers \<Rightarrow> nat \<Rightarrow> NativeSessionConfig \<Rightarrow> bool \<Rightarrow> Switcher \<Rightarrow> Switcher" where
  "hub_connect wa requested session connect_from_hub w =
     (let old_index = active w;
          w = hub_prepare requested session w;
          w = pause_capture w;
          w = publish_owner requested (connect_locked connect_from_hub requested) w;
          w = native_duck_retarget w;
          w = (if old_index \<noteq> requested then native_background_slot wa old_index w else w)\<lparr>sw_ui_last_state := None\<rparr> in
      case native_slot_connect wa requested False w of
        (False, w) \<Rightarrow>
          let w = (if sw_hub_connect_target w = int requested then w\<lparr>sw_hub_connect_target := -1\<rparr> else w) in
          if \<not> native_any_slot_connected w then in_app native_stop_media w else w
      | (True, w) \<Rightarrow> in_pointer native_update_pointer_window_size w)"

text \<open>\<open>native_hub_runtime_publish\<close>: the session clock and the state on the card; the audio figures are left out.\<close>

definition publish_slot :: "u32 \<Rightarrow> Switcher \<Rightarrow> nat \<Rightarrow> Switcher" where
  "publish_slot runtime_now w i =
     (let s = sess i w;
          exists = (ss_rdp s \<and> \<not> ss_session_failed s);
          w = (if \<not> exists
               then put_sl i ((sl i w)\<lparr>sl_session_started_s := 0, sl_runtime_active := False\<rparr>) w
               else if ss_current_state s = RDP_STATE_ACTIVE \<and> \<not> sl_runtime_active (sl i w)
               then put_sl i ((sl i w)\<lparr>sl_session_started_s := runtime_now, sl_runtime_active := True\<rparr>) w
               else w) in
      if \<not> exists then w
      else call (UiSlotState i (if ss_current_state s = RDP_STATE_ACTIVE then NATIVE_PRECONNECT_SESSION_CONNECTED
        else if ss_reconnecting s then NATIVE_PRECONNECT_SESSION_RECONNECTING
        else NATIVE_PRECONNECT_SESSION_CONNECTING)) w)"

definition native_hub_runtime_publish :: "SwitchAnswers \<Rightarrow> Switcher \<Rightarrow> Switcher" where
  "native_hub_runtime_publish wa w = foldl (publish_slot (wa_now_s wa (calls_made w))) w [0..<NATIVE_SETTINGS_MAX_SESSIONS]"

section \<open>Focus and forwarded input\<close>

text \<open>The window loses or regains the focus (\<open>native_handle_sdl_event\<close>, \<open>native_resume_streaming_input\<close>).\<close>

definition focus_lost :: "SwitchAnswers \<Rightarrow> Switcher \<Rightarrow> Switcher" where
  "focus_lost wa w =
     (let w = in_pointer (\<lambda>p. p\<lparr>pa_window_unfocused := True\<rparr>) w;
          w = (if mixer_visible w then
                 let dismissing = (sw_mixer_overlay_dismiss_button w \<noteq> 0 \<or> sw_mixer_overlay_dismiss_pending w);
                     w = w\<lparr>sw_mixer_overlay_dragging := False, sw_mixer_overlay_pointer_buttons := 0\<rparr> in
                 if dismissing
                 then native_mixer_overlay_hide wa (w\<lparr>sw_mixer_overlay_dismiss_button := 0, sw_mixer_overlay_dismiss_pending := False\<rparr>)
                 else w
               else w) in
      native_stop_streaming_input wa w)"

definition native_resume_streaming_input :: "SwitchAnswers \<Rightarrow> Switcher \<Rightarrow> Switcher" where
  "native_resume_streaming_input wa w =
     (if \<not> native_streaming_input_focused wa w \<or> \<not> streaming_visible w \<or> ss_current_state (sess (active w) w) \<noteq> RDP_STATE_ACTIVE \<or>
         mixer_visible w then w
      else in_pointer warp_to_virtual (native_start_streaming_input wa w))"

definition focus_gained :: "SwitchAnswers \<Rightarrow> Switcher \<Rightarrow> Switcher" where
  "focus_gained wa w = native_resume_streaming_input wa (in_pointer (\<lambda>p. p\<lparr>pa_window_unfocused := \<not> wa_keyboard_focus wa\<rparr>) w)"

text \<open>A forwarded button or key, and its tracking.\<close>

definition forward_button :: "int \<Rightarrow> int \<Rightarrow> NativeInputButton \<Rightarrow> bool \<Rightarrow> PointerApp \<Rightarrow> PointerApp" where
  "forward_button x y button down p =
     (let p = native_set_virtual_mouse_position x y p;
          p = p\<lparr>pa_input := snd (native_input_pointer_button (pa_virtual_mouse_x p) (pa_virtual_mouse_y p) button down (pa_input p))\<rparr> in
      native_track_button button down p)"

definition forward_key :: "u8 \<Rightarrow> bool \<Rightarrow> bool \<Rightarrow> PointerApp \<Rightarrow> PointerApp" where
  "forward_key scancode extended down p =
     (case native_input_key scancode down extended (pa_input p) of (sent, inp) \<Rightarrow>
        let p = p\<lparr>pa_input := inp\<rparr> in
        if sent then native_track_key scancode extended down p else p)"

definition forward_motion :: "int \<Rightarrow> int \<Rightarrow> PointerApp \<Rightarrow> PointerApp" where
  "forward_motion x y p =
     (let p = native_set_virtual_mouse_position x y p in p\<lparr>pa_input := snd (native_input_pointer_move x y (pa_input p))\<rparr>)"

end
