(* ===== verification/Session_Seats.thy ===== *)
theory Session_Seats
  imports Session_Switch Video_Monitor
begin

text \<open>
  What the video path leaves alone: which slot is on screen and which slots have a running session.
  Callbacks, replays, drawing and reports change neither; a hand-over changes the slot on screen only.
\<close>

section \<open>Who is on screen and which sessions run\<close>

definition seats where
  "seats app = (ap_active_index app, map ss_rdp (ap_sessions app))"

lemma seats_put [simp]: "ss_rdp s = ss_rdp (slot i app) \<Longrightarrow> seats (put_slot i s app) = seats app"
  by (cases "i < length (ap_sessions app)")
    (simp_all add: seats_def put_slot_def slot_def map_update list_update_same_conv list_update_beyond)

text \<open>Fields of the other parts of the state.\<close>

lemma seats_fields [simp]:
  "seats (app\<lparr>ap_video_refresh_needed := x0\<rparr>) = seats app"
  "seats (app\<lparr>ap_rgba := x1\<rparr>) = seats app"
  "seats (app\<lparr>ap_rgba_owner_slot := x2\<rparr>) = seats app"
  "seats (app\<lparr>ap_rgba_owner_epoch := x3\<rparr>) = seats app"
  "seats (app\<lparr>ap_hub_return_rgba := x4\<rparr>) = seats app"
  "seats (app\<lparr>ap_hub_return_rgba_owner_slot := x5\<rparr>) = seats app"
  "seats (app\<lparr>ap_hub_return_rgba_owner_epoch := x6\<rparr>) = seats app"
  "seats (app\<lparr>ap_hub_return_replacement_slot := x7\<rparr>) = seats app"
  "seats (app\<lparr>ap_hub_return_replacement_epoch := x8\<rparr>) = seats app"
  "seats (app\<lparr>ap_hub_return_replacement_baseline_frames := x9\<rparr>) = seats app"
  "seats (app\<lparr>ap_hub_visible := x10\<rparr>) = seats app"
  "seats (app\<lparr>ap_hub_return_slot := x11\<rparr>) = seats app"
  "seats (app\<lparr>ap_media := x12\<rparr>) = seats app"
  "seats (app\<lparr>ap_video := x13\<rparr>) = seats app"
  "seats (app\<lparr>ap_video_owner_slot := x14\<rparr>) = seats app"
  "seats (app\<lparr>ap_video_owner_epoch := x15\<rparr>) = seats app"
  "seats (app\<lparr>ap_decoder_errors := x16\<rparr>) = seats app"
  "seats (app\<lparr>ap_tiles_dropped_under_video := x17\<rparr>) = seats app"
  "seats (app\<lparr>ap_video_frames_window := x18\<rparr>) = seats app"
  "seats (app\<lparr>ap_video_bytes_window := x19\<rparr>) = seats app"
  "seats (app\<lparr>ap_video_pacing_window_ms := x20\<rparr>) = seats app"
  "seats (app\<lparr>ap_video_last_feed_ms := x21\<rparr>) = seats app"
  "seats (app\<lparr>ap_video_pacing_started := x22\<rparr>) = seats app"
  "seats (app\<lparr>ap_video_feed_started := x23\<rparr>) = seats app"
  "seats (app\<lparr>ap_decoder_keyframe_pending := x24\<rparr>) = seats app"
  "seats (app\<lparr>ap_video_plane_punched := x25\<rparr>) = seats app"
  "seats (app\<lparr>ap_running := x26\<rparr>) = seats app"
  "seats (app\<lparr>ap_exit_code := x27\<rparr>) = seats app"
  "seats (app\<lparr>ap_interactive_ui := x28\<rparr>) = seats app"
  "seats (app\<lparr>ap_pending_texture_destroy := x29\<rparr>) = seats app"
  "seats (app\<lparr>ap_textures := x30\<rparr>) = seats app"
  "seats (app\<lparr>ap_log := x31\<rparr>) = seats app"
  by (simp_all add: seats_def)

lemma seats_terminal [simp]:
  "seats (native_slot_report_terminal_reason i state reason code app) = seats app"
  "seats (native_slot_report_terminal i state code app) = seats app" "seats (decoder_error i app) = seats app"
proof -
  have f: "seats (app\<lparr>ap_exit_code := x\<rparr>) = seats app" "seats (app\<lparr>ap_running := r\<rparr>) = seats app"
    "seats (app\<lparr>ap_decoder_errors := k\<rparr>) = seats app" for app x r k
    by (simp_all add: seats_def)
  show t: "seats (native_slot_report_terminal_reason i state reason code app) = seats app" for state reason code app
    by (simp add: native_slot_report_terminal_reason_def Let_def f)
  then show "seats (native_slot_report_terminal i state code app) = seats app" for state code app
    by (simp add: native_slot_report_terminal_def)
  then show "seats (decoder_error i app) = seats app" by (simp add: decoder_error_def f)
qed

lemma seats_frames [simp]:
  "seats (log_event e app) = seats app" "seats (native_present_invalidate app) = seats app"
  "seats (native_clear_hub_return_replacement app) = seats app"
  "seats (native_arm_hub_return_replacement_locked i ep n app) = seats app"
  "seats (native_reset_rgba_owner app) = seats app"
  "seats (native_note_video_frame l t app) = seats app"
  "seats (native_note_video_stream t i v app) = seats app"
  "seats (close_video app) = seats app" "seats (destroy_texture x app) = seats app"
  "seats (close_canvas sdl c app) = seats app" "seats (native_defer_rgba_texture_destroy app) = seats app"
proof -
  show "seats (native_note_video_stream t i v app) = seats app" by (simp add: native_note_video_stream_def)
qed (simp_all add: log_event_def native_present_invalidate_def native_clear_hub_return_replacement_def close_canvas_def
      native_arm_hub_return_replacement_locked_def native_reset_rgba_owner_def native_note_video_frame_def Let_def
      close_video_def destroy_texture_def native_defer_rgba_texture_destroy_def
      seats_def split: option.split prod.split)

section \<open>Bitmaps\<close>

lemma seats_close_rgba [simp]: "seats (native_close_rgba_locked sdl defer app) = seats app"
  by (simp add: native_close_rgba_locked_def Let_def)

lemma seats_close_hub [simp]: "seats (native_close_hub_return_rgba_locked app) = seats app"
  by (simp add: native_close_hub_return_rgba_locked_def Let_def)

lemma seats_capture [simp]: "seats (native_capture_hub_return_rgba_locked app) = seats app"
  by (simp add: native_capture_hub_return_rgba_locked_def Let_def)

lemma seats_promote [simp]: "seats (snd (native_promote_hub_return_rgba_locked sdl i e app)) = seats app"
  by (simp add: native_promote_hub_return_rgba_locked_def Let_def)

lemma seats_path_switch: "native_note_graphics_path_switch i app = (b, app') \<Longrightarrow> seats app' = seats app"
  by (auto simp: native_note_graphics_path_switch_def Let_def split: if_splits)

lemma seats_leave_video: "leave_video va i e app = (go, app') \<Longrightarrow> seats app' = seats app"
  by (auto simp: leave_video_def Let_def dest!: seats_path_switch split: option.splits if_splits prod.splits)

lemma seats_prepare [simp]: "seats (prepare_canvas va i e app) = seats app"
  by (auto simp: prepare_canvas_def Let_def split: option.split prod.split NativeRgbaResult.split)

lemma seats_apply: "apply_update va i e l y w h st rgba len app = Some (result, app') \<Longrightarrow> seats app' = seats app"
  by (auto simp: apply_update_def split: option.splits)

lemma seats_bitmap:
  assumes "on_bitmap_update va i l y w h st rgba len app = Some app'"
  shows "seats app' = seats app"
proof -
  define a where "a = put_slot i ((slot i app)\<lparr>ss_video_via_bitmap := True\<rparr>) app"
  define e where "e = ss_connect_epoch (slot i a)"
  define b where "b = (if ap_rgba a \<noteq> None \<and> \<not> native_rgba_owner_matches a i e then native_close_rgba_locked False True a else a)"
  obtain go c where c: "leave_video va i e b = (go, c)" by fastforce
  have "seats c = seats app" using seats_leave_video [OF c] by (simp add: b_def a_def)
  moreover have "seats x = seats c" if "apply_update va i e l y w h st rgba len (prepare_canvas va i e c) = Some (result, x)" for result x
    using seats_apply [OF that] by simp
  moreover have "seats a = seats app" by (simp add: a_def)
  ultimately show ?thesis
    using assms unfolding on_bitmap_update_def Let_def a_def [symmetric] e_def [symmetric] b_def [symmetric] c
    by (auto split: if_splits bool.splits option.splits prod.splits NativeRgbaResult.splits)
qed

section \<open>Access units\<close>

lemma seats_take_decoder: "take_decoder i seed w h app = (go, app') \<Longrightarrow> seats app' = seats app"
  by (auto simp: take_decoder_def Let_def split: if_splits)

lemma seats_open_decoder: "open_decoder va i w h app = (go, app') \<Longrightarrow> seats app' = seats app"
  by (auto simp: open_decoder_def Let_def split: if_splits)

lemma seats_resize_decoder [simp]: "seats (resize_decoder w h app) = seats app"
  by (simp add: resize_decoder_def)

lemma seats_feed [simp]: "seats (feed_decoder va i au seed app) = seats app"
  by (cases "va_feed va") (simp_all add: feed_decoder_def Let_def)

lemma seats_leave_bitmap: "leave_bitmap i app = (go, app') \<Longrightarrow> seats app' = seats app"
  by (auto simp: leave_bitmap_def Let_def dest!: seats_path_switch split: if_splits prod.splits)

lemma seats_ingest [simp]: "seats (native_video_ingest_au_locked va i data pts app) = seats app"
proof -
  obtain valid seed where sc: "scan_au (ss_video_codec (slot i app)) data = (valid, seed)" by fastforce
  define a where "a = native_note_video_stream (va_now_ms va) i valid (put_slot i ((slot i app)\<lparr>ss_video_via_bitmap := False\<rparr>) app)"
  let ?s = "slot i a" and ?w = "ucast (ss_desktop_width (slot i a)) :: u16" and ?h = "ucast (ss_desktop_height (slot i a)) :: u16"
  obtain r snap where sn: "native_au_snapshot_append (ss_snapshot ?s) data valid seed pts = (r, snap)" by fastforce
  obtain g1 b where b: "leave_bitmap i a = (g1, b)" by fastforce
  obtain g2 c where c: "take_decoder i seed ?w ?h b = (g2, c)" by fastforce
  obtain g3 d where d: "open_decoder va i ?w ?h (resize_decoder ?w ?h c) = (g3, d)" by fastforce
  have a: "seats a = seats app" by (simp add: a_def)
  have bcd: "seats b = seats app" "seats c = seats app" "seats d = seats app"
    using seats_leave_bitmap [OF b] seats_take_decoder [OF c] seats_open_decoder [OF d] a by simp_all
  show ?thesis
    unfolding native_video_ingest_au_locked_def sc Let_def a_def [symmetric] prod.case sn
    using a bcd by (cases g1; cases g2; cases g3) (simp_all add: b c d)
qed

lemma seats_replay [simp]: "seats (replay_units va k i us app) = seats app"
  by (induction va k i us app rule: replay_units.induct) (simp_all add: Let_def)

lemma seats_video_au [simp]: "seats (on_video_au va mem i codec data pts app) = seats app"
  by (simp add: on_video_au_def native_video_ingest_au_def Let_def)

lemma seats_report [simp]: "seats (report app e) = seats app"
  by (cases e) (simp_all add: native_slot_record_state_def Let_def)

section \<open>Drawing and teardown\<close>

lemma seats_stop_media [simp]: "seats (native_stop_media app) = seats app"
  by (simp add: native_stop_media_def Let_def)

lemma seats_owner: "seats (app\<lparr>ap_active_index := t\<rparr>) = (t, snd (seats app))"
  by (simp add: seats_def)

lemma seats_handoff: "seats (handoff_locked t app) = (t, snd (seats app))"
proof -
  define a where "a = (if ss_snapshot_pending (slot t app) then put_slot t ((slot t app)\<lparr>ss_snapshot_pending := False,
    ss_snapshot := native_au_snapshot_reset (ss_snapshot (slot t app)), ss_snapshot_idr_ready := False\<rparr>) app else app)"
  have "seats a = seats app" by (simp add: a_def)
  then show ?thesis unfolding handoff_locked_def Let_def a_def [symmetric]
    by (auto simp: seats_owner split: prod.split bool.split) (metis seats_promote snd_conv)+
qed

lemma seats_configurator: "seats (configurator_locked t app) = (t, snd (seats app))"
  by (simp add: configurator_locked_def Let_def seats_owner)

lemma seats_connect_locked: "seats (connect_locked hub t app) = (t, snd (seats app))"
  by (simp add: connect_locked_def Let_def seats_owner)

lemma seats_draw_canvas: "draw_canvas create update copy r drawing surface app = (status, failed, drawing', app') \<Longrightarrow> seats app' = seats app"
  by (auto simp: draw_canvas_def Let_def split: option.splits if_splits prod.splits)

lemma seats_draw [simp]: "seats (snd (native_draw_rgba_frame create update copy r app)) = seats app"
proof -
  define a where "a = (destroy_texture (ap_pending_texture_destroy app) app)\<lparr>ap_pending_texture_destroy := None\<rparr>"
  let ?d = "ap_hub_return_rgba a \<noteq> None \<and> \<not> replacement_ready a"
  let ?s = "if ?d then ap_hub_return_rgba a else if active_rgba_ready a then ap_rgba a else None"
  obtain status failed d' b where b: "draw_canvas create update copy r ?d ?s a = (status, failed, d', b)"
    using prod_cases4 by blast
  have "seats b = seats app" using seats_draw_canvas [OF b] by (simp add: a_def)
  then have "seats (snd (snd (draw_rgba_locked create update copy r app))) = seats app"
    using b unfolding draw_rgba_locked_def Let_def a_def [symmetric] by simp
  then show ?thesis by (simp add: native_draw_rgba_frame_def case_prod_beta)
qed

end
