(* ===== verification/Switch_Safety.thy ===== *)
theory Switch_Safety
  imports Session_Seats
begin

text \<open>
  The SDL thread's operations of \<open>Session_Switch\<close> interleaved with the workers' callbacks: input
  goes to the session on screen and to no other, the forwarder never holds the handle of a stopped
  worker, camera and microphone are closed whenever the owner of the screen changes, and the video
  path keeps the invariant of \<open>Video_Monitor\<close>.
\<close>

section \<open>Who is sent what\<close>

fun event_session :: "RdpInput \<Rightarrow> nat" where
  "event_session (SendPointerMove s x y) = s"
| "event_session (SendPointerButton s x y b down) = s"
| "event_session (SendPointerWheel s x y d) = s"
| "event_session (SendKey s scancode down extended) = s"
| "event_session (SendSync s scroll num caps) = s"

text \<open>The forwarder between two moments: the same session and arming, and events only for that session.\<close>

definition forwards :: "NativeInput \<Rightarrow> NativeInput \<Rightarrow> bool" where
  "forwards a b \<longleftrightarrow> in_session b = in_session a \<and> in_active b = in_active a \<and>
     (\<exists>es. in_sent b = in_sent a @ es \<and> (\<forall>e\<in>set es. native_input_ready a \<and> Some (event_session e) = in_session a))"

lemma forwards_refl [simp]: "forwards a a"
  by (simp add: forwards_def)

lemma forwards_ready: "forwards a b \<Longrightarrow> native_input_ready b = native_input_ready a"
  by (simp add: forwards_def native_input_ready_def)

lemma forwards_trans:
  assumes "forwards a b" "forwards b c"
  shows "forwards a c"
proof -
  obtain es where es: "in_sent b = in_sent a @ es" "\<forall>e\<in>set es. native_input_ready a \<and> Some (event_session e) = in_session a"
    using assms(1) by (auto simp: forwards_def)
  obtain fs where fs: "in_sent c = in_sent b @ fs" "\<forall>e\<in>set fs. native_input_ready b \<and> Some (event_session e) = in_session b"
    using assms(2) by (auto simp: forwards_def)
  have "in_session b = in_session a" "in_session c = in_session a" "in_active c = in_active a"
    using assms by (auto simp: forwards_def)
  then show ?thesis using es fs forwards_ready [OF assms(1)] unfolding forwards_def
    by (intro conjI exI [of _ "es @ fs"]) auto
qed

lemma map_last_frame [simp]:
  "in_session (map_last x y inp) = in_session inp" "in_active (map_last x y inp) = in_active inp"
  "in_sent (map_last x y inp) = in_sent inp"
  by (simp_all add: map_last_def split: prod.splits)

lemma forwards_calls [simp]:
  "forwards inp (snd (native_input_pointer_move x y inp))"
  "forwards inp (snd (native_input_pointer_button x y b down inp))"
  "forwards inp (snd (native_input_pointer_wheel x y d inp))"
  "forwards inp (snd (native_input_key sc down ext inp))"
  "forwards inp (snd (native_input_sync_locks s n c inp))"
  by (auto simp: forwards_def native_input_pointer_move_def native_input_pointer_button_def native_input_key_def
      native_input_pointer_wheel_def native_input_sync_locks_def Let_def send_def native_input_ready_def)

text \<open>The fields of the pointer state that say where input goes.\<close>

definition route_view where
  "route_view p = (pa_active_index p, pa_mixer_overlay_visible p, pa_streaming_visible p, pa_window_unfocused p, pa_app_backgrounded p)"

definition pointer_forwards :: "PointerApp \<Rightarrow> PointerApp \<Rightarrow> bool" where
  "pointer_forwards p q \<longleftrightarrow> forwards (pa_input p) (pa_input q) \<and> pa_active_index q = pa_active_index p"

lemma pointer_forwards_refl [simp]: "pointer_forwards p p"
  by (simp add: pointer_forwards_def)

lemma pointer_forwards_trans: "pointer_forwards p q \<Longrightarrow> pointer_forwards q r \<Longrightarrow> pointer_forwards p r"
  using forwards_trans unfolding pointer_forwards_def by metis

lemma pointer_forwards_foldl: "(\<And>p x. pointer_forwards p (f p x)) \<Longrightarrow> pointer_forwards p (foldl f p xs)"
proof (induction xs arbitrary: p)
  case (Cons x xs)
  then show ?case using pointer_forwards_trans by fastforce
qed simp

lemma flush_forwards: "pointer_forwards p (native_flush_held_inputs p)"
proof -
  have "pointer_forwards p (flush_button x y p b)" "pointer_forwards p (flush_key p k)" for p x y b k
    by (simp_all add: flush_button_def flush_key_def pointer_forwards_def)
  then have "pointer_forwards p (foldl (flush_button x y) p bs)" "pointer_forwards p (foldl flush_key p ks)" for p x y bs ks
    by (simp_all add: pointer_forwards_foldl)
  then show ?thesis unfolding native_flush_held_inputs_def by (rule pointer_forwards_trans)
qed

lemma window_size_forwards [simp]: "pointer_forwards p (native_request_pointer_window_size_update p)"
  "pointer_forwards p (native_update_pointer_window_size p)"
  by (simp_all add: pointer_forwards_def forwards_def native_request_pointer_window_size_update_def
      native_update_pointer_window_size_def native_sync_input_window_size_def native_set_virtual_mouse_position_def
      native_input_set_window_size_def Let_def)

section \<open>Camera and microphone\<close>

text \<open>
  A watcher of the calls: it knows the owner of the screen and the session that may capture.  It
  accepts a change of the owner only while no session may capture, and opens capture only for the
  owner.
\<close>

fun watch_call :: "nat \<times> int \<Rightarrow> SwitchCall \<Rightarrow> (nat \<times> int) option" where
  "watch_call (own, fg) (CaptureForeground f) = (if f = -1 \<or> f = int own then Some (own, f) else None)"
| "watch_call (own, fg) (SetOwner t) = (if fg = -1 then Some (t, fg) else None)"
| "watch_call s _ = Some s"

definition watch :: "nat \<times> int \<Rightarrow> SwitchCall list \<Rightarrow> (nat \<times> int) option" where
  "watch s cs = foldl (\<lambda>s c. Option.bind s (\<lambda>s. watch_call s c)) (Some s) cs"

lemma watch_snoc [simp]: "watch s (cs @ [c]) = Option.bind (watch s cs) (\<lambda>s. watch_call s c)"
  by (simp add: watch_def)

lemma watch_neutral:
  "watch_call s (WithdrawCapture i) = Some s" "watch_call s (PublishCapture i) = Some s"
  "watch_call s (SuppressOutput i b) = Some s" "watch_call s (RequestRefresh i) = Some s"
  "watch_call s (StopWorker i) = Some s" "watch_call s (StartWorker i b) = Some s"
  "watch_call s GrabInput = Some s" "watch_call s UngrabInput = Some s" "watch_call s SaveSettings = Some s"
  "watch_call s (UiRequestConnect i) = Some s" "watch_call s UiCancelHubClose = Some s"
  "watch_call s (UiSlotStatus i st re tx) = Some s" "watch_call s (UiSlotState i st) = Some s"
  by (cases s; simp)+

section \<open>Between operations, and inside one\<close>

text \<open>What holds all the time, for a watcher that started in \<open>s0\<close> and a video monitor that started in \<open>m\<close>.\<close>

definition core :: "nat \<times> int \<Rightarrow> Monitor \<Rightarrow> Switcher \<Rightarrow> bool" where
  "core s0 m w \<longleftrightarrow> video_inv m (sw_app w) \<and> length (sw_slots w) = NATIVE_SETTINGS_MAX_SESSIONS \<and>
     pa_active_index (sw_pointer w) = int (active w) \<and> sw_pending_switch_target w < int NATIVE_SETTINGS_MAX_SESSIONS \<and>
     watch s0 (sw_calls w) \<noteq> None"

definition inp :: "Switcher \<Rightarrow> NativeInput" where
  "inp w = pa_input (sw_pointer w)"

text \<open>The forwarder holds no handle, or the running session on screen.\<close>

definition seated :: "Switcher \<Rightarrow> bool" where
  "seated w \<longleftrightarrow> in_session (inp w) = None \<or> in_session (inp w) = Some (active w) \<and> ss_rdp (sess (active w) w)"

definition connected :: "Switcher \<Rightarrow> bool list" where
  "connected w = map ss_rdp (ap_sessions (sw_app w))"

text \<open>
  A part of an operation that leaves the owner alone: it keeps \<open>core\<close> and where capture goes, sends
  events only while the forwarder is armed and only to the session it holds, and keeps it seated.
\<close>

definition keeps_pending :: "Switcher \<Rightarrow> Switcher \<Rightarrow> bool" where
  "keeps_pending a b \<longleftrightarrow> (sw_pending_switch_target b = sw_pending_switch_target a \<or> sw_pending_switch_target b = -1) \<and>
     sw_pending_switch_deadline_ticks b = sw_pending_switch_deadline_ticks a"

lemma keeps_pending_trans: "keeps_pending a b \<Longrightarrow> keeps_pending b c \<Longrightarrow> keeps_pending a c"
  by (auto simp: keeps_pending_def)

definition steady :: "nat \<times> int \<Rightarrow> Monitor \<Rightarrow> Switcher \<Rightarrow> Switcher \<Rightarrow> bool" where
  "steady s0 m a b \<longleftrightarrow> (core s0 m a \<longrightarrow>
     core s0 m b \<and> keeps_pending a b \<and> active b = active a \<and> watch s0 (sw_calls b) = watch s0 (sw_calls a) \<and>
     (seated a \<longrightarrow> seated b) \<and> (in_active (inp b) \<longrightarrow> in_active (inp a) \<and> in_session (inp b) = in_session (inp a)) \<and>
     (\<exists>es. in_sent (inp b) = in_sent (inp a) @ es \<and>
        (\<forall>e\<in>set es. native_input_ready (inp a) \<and> Some (event_session e) = in_session (inp a))))"

lemma steady_refl [simp]: "steady s0 m w w"
  by (simp add: steady_def keeps_pending_def)

lemma steady_trans:
  assumes "steady s0 m a b" "steady s0 m b c"
  shows "steady s0 m a c"
  unfolding steady_def
proof (intro impI)
  assume a: "core s0 m a"
  then have b: "core s0 m b" "active b = active a" "watch s0 (sw_calls b) = watch s0 (sw_calls a)" "seated a \<longrightarrow> seated b"
    "in_active (inp b) \<longrightarrow> in_active (inp a) \<and> in_session (inp b) = in_session (inp a)"
    using assms(1) by (auto simp: steady_def)
  have c: "core s0 m c" "active c = active b" "watch s0 (sw_calls c) = watch s0 (sw_calls b)" "seated b \<longrightarrow> seated c"
    "in_active (inp c) \<longrightarrow> in_active (inp b) \<and> in_session (inp c) = in_session (inp b)"
    using assms(2) b(1) by (auto simp: steady_def)
  obtain es where es: "in_sent (inp b) = in_sent (inp a) @ es"
    "\<forall>e\<in>set es. native_input_ready (inp a) \<and> Some (event_session e) = in_session (inp a)"
    using assms(1) a by (auto simp: steady_def)
  obtain fs where fs: "in_sent (inp c) = in_sent (inp b) @ fs"
    "\<forall>e\<in>set fs. native_input_ready (inp b) \<and> Some (event_session e) = in_session (inp b)"
    using assms(2) b(1) by (auto simp: steady_def)
  have "\<forall>e\<in>set (es @ fs). native_input_ready (inp a) \<and> Some (event_session e) = in_session (inp a)"
    using es(2) fs(2) b(5) by (auto simp: native_input_ready_def)
  moreover have "in_sent (inp c) = in_sent (inp a) @ es @ fs" using es(1) fs(1) by simp
  moreover have "seated a \<longrightarrow> seated c" "active c = active a" "watch s0 (sw_calls c) = watch s0 (sw_calls a)"
    using b c by simp_all
  moreover have "in_active (inp c) \<longrightarrow> in_active (inp a) \<and> in_session (inp c) = in_session (inp a)"
    using b(5) c(5) by auto
  moreover have "keeps_pending a c" using assms a b(1) keeps_pending_trans by (auto simp: steady_def)
  ultimately show "core s0 m c \<and> keeps_pending a c \<and> active c = active a \<and> watch s0 (sw_calls c) = watch s0 (sw_calls a) \<and> (seated a \<longrightarrow> seated c) \<and>
      (in_active (inp c) \<longrightarrow> in_active (inp a) \<and> in_session (inp c) = in_session (inp a)) \<and>
      (\<exists>es. in_sent (inp c) = in_sent (inp a) @ es \<and>
        (\<forall>e\<in>set es. native_input_ready (inp a) \<and> Some (event_session e) = in_session (inp a)))"
    using c(1) by blast
qed

lemma steady_foldl: "(\<And>w x. steady s0 m w (f w x)) \<Longrightarrow> steady s0 m w (foldl f w xs)"
proof (induction xs arbitrary: w)
  case (Cons x xs)
  then show ?case using steady_trans by fastforce
qed simp

text \<open>Fields the relation does not look at.\<close>

definition switch_view where
  "switch_view w = (sw_app w, sw_pointer w, length (sw_slots w), sw_pending_switch_target w, sw_pending_switch_deadline_ticks w, sw_calls w)"

lemma steady_view: "switch_view b = switch_view a \<Longrightarrow> steady s0 m a b"
  by (auto simp: switch_view_def steady_def core_def active_def seated_def inp_def sess_def keeps_pending_def)

lemma switch_view_frames [simp]:
  "switch_view (put_sl i s w) = switch_view w" "switch_view (set_suppressed i b w) = switch_view w"
  "switch_view (native_show_session_indicator wa i w) = switch_view w"
  "switch_view (native_mixer_overlay_touch wa w) = switch_view w"
  "switch_view (native_mixer_overlay_select wa n w) = switch_view w"
  "switch_view (native_switch_watchdog_baseline i w) = switch_view w"
  "switch_view (native_switch_watchdog_start wa t w) = switch_view w"
  by (simp_all add: switch_view_def put_sl_def set_suppressed_def native_show_session_indicator_def
      native_mixer_overlay_touch_def native_mixer_overlay_select_def native_switch_watchdog_baseline_def
      native_switch_watchdog_start_def)

lemma steady_call: "(\<And>s. watch_call s c = Some s) \<Longrightarrow> steady s0 m w (call c w)"
  by (auto simp: steady_def core_def active_def seated_def inp_def sess_def call_def keeps_pending_def bind_eq_Some_conv)

lemma steady_neutral [simp]:
  "steady s0 m w (call (WithdrawCapture i) w)" "steady s0 m w (call (PublishCapture i) w)"
  "steady s0 m w (call (SuppressOutput i b) w)" "steady s0 m w (call (RequestRefresh i) w)"
  "steady s0 m w (call (StopWorker i) w)" "steady s0 m w (call (StartWorker i b) w)"
  "steady s0 m w (call GrabInput w)" "steady s0 m w (call UngrabInput w)" "steady s0 m w (call SaveSettings w)"
  "steady s0 m w (call (UiRequestConnect i) w)" "steady s0 m w (call UiCancelHubClose w)"
  "steady s0 m w (call (UiSlotStatus i st re tx) w)" "steady s0 m w (call (UiSlotState i st) w)"
  by (simp_all add: steady_call watch_neutral)

lemma steady_clear [simp]: "steady s0 m w (clear_pending_switch w)"
  by (auto simp: steady_def core_def active_def seated_def inp_def sess_def clear_pending_switch_def keeps_pending_def NATIVE_SETTINGS_MAX_SESSIONS_def)



lemma steady_pointer: "(\<And>p. pointer_forwards p (f p)) \<Longrightarrow> steady s0 m w (in_pointer f w)"
  unfolding steady_def pointer_forwards_def forwards_def
  by (auto simp: core_def seated_def inp_def in_pointer_def active_def keeps_pending_def sess_def)

lemma steady_disarm [simp]: "steady s0 m w (in_input (native_input_set_active False) w)"
  by (auto simp: steady_def core_def seated_def inp_def in_input_def in_pointer_def active_def keeps_pending_def sess_def native_input_set_active_def)

lemma seats_rdp: "seats a = seats b \<Longrightarrow> i < length (ap_sessions b) \<Longrightarrow> ss_rdp (slot i a) = ss_rdp (slot i b)"
  unfolding seats_def slot_def using map_eq_imp_length_eq nth_map by (metis prod.inject)

lemma core_bounds:
  "core s0 m w \<Longrightarrow> active w < NATIVE_SETTINGS_MAX_SESSIONS"
  "core s0 m w \<Longrightarrow> length (ap_sessions (sw_app w)) = NATIVE_SETTINGS_MAX_SESSIONS"
  "core s0 m w \<Longrightarrow> length (sw_slots w) = NATIVE_SETTINGS_MAX_SESSIONS"
  by (simp_all add: core_def video_inv_def decoder_ok_def active_def)

lemma steady_video:
  assumes "video_inv m (sw_app w) \<Longrightarrow> video_inv m (f (sw_app w))" "ap_active_index (f (sw_app w)) = ap_active_index (sw_app w)"
    and "core s0 m w \<Longrightarrow> in_session (inp w) \<noteq> None \<Longrightarrow> ss_rdp (slot (active w) (f (sw_app w))) = ss_rdp (slot (active w) (sw_app w))"
  shows "steady s0 m w (in_app f w)"
  using assms by (auto simp: steady_def core_def seated_def inp_def in_app_def active_def keeps_pending_def sess_def)

lemma steady_seats:
  assumes "video_inv m (sw_app w) \<Longrightarrow> video_inv m (f (sw_app w))" "seats (f (sw_app w)) = seats (sw_app w)"
  shows "steady s0 m w (in_app f w)"
  using assms seats_rdp [OF assms(2)] core_bounds
  by (intro steady_video) (auto simp: seats_def core_bounds)

lemma steady_put_sess:
  "ss_rdp s = ss_rdp (sess i w) \<Longrightarrow> ss_connect_epoch s = ss_connect_epoch (sess i w) \<Longrightarrow> steady s0 m w (put_sess i s w)"
  unfolding put_sess_def sess_def by (rule steady_seats) (simp_all add: put_slot_inv)

lemma steady_sl [simp]:
  "steady s0 m w (put_sl i s w)" "steady s0 m w (set_suppressed i b w)" "steady s0 m w (native_show_session_indicator wa i w)"
  "steady s0 m w (native_mixer_overlay_touch wa w)" "steady s0 m w (native_mixer_overlay_select wa n w)"
  "steady s0 m w (native_switch_watchdog_baseline i w)" "steady s0 m w (native_switch_watchdog_start wa t w)"
  by (simp_all add: steady_view)

lemma steady_report [simp]: "steady s0 m w (report_network_error i w)"
  unfolding report_network_error_def native_slot_report_terminal_def
  by (rule steady_seats) (simp_all add: video_inv_view [OF terminal_views(2) terminal_views(1)])

section \<open>Slots\<close>

lemma slot_put_other: "i \<noteq> j \<Longrightarrow> slot j (put_slot i s app) = slot j app"
  by (simp add: slot_def put_slot_def)

lemma slot_put_same: "i < length (ap_sessions app) \<Longrightarrow> slot i (put_slot i s app) = s"
  by (simp add: slot_def put_slot_def)

lemma stop_other: "i \<noteq> j \<Longrightarrow> slot j (stop_slot_video i app) = slot j app"
  by (simp add: stop_slot_video_def slot_put_other)

lemma connect_other: "i \<noteq> j \<Longrightarrow> slot j (connect_slot_video arm mem runtime started i app) = slot j app"
  by (auto simp: connect_slot_video_def Let_def slot_def put_slot_def stop_slot_video_def log_event_def native_present_invalidate_def
      native_arm_hub_return_replacement_locked_def)

lemma connect_same: "i < length (ap_sessions app) \<Longrightarrow> ss_rdp (slot i (connect_slot_video arm mem runtime started i app)) = started"
  by (auto simp: connect_slot_video_def Let_def slot_def put_slot_def stop_slot_video_def log_event_def native_present_invalidate_def
      native_arm_hub_return_replacement_locked_def)

lemma stop_active [simp]: "ap_active_index (stop_slot_video i app) = ap_active_index app"
  "ap_active_index (connect_slot_video arm mem runtime started i app) = ap_active_index app"
  by (simp_all add: connect_slot_video_def Let_def put_slot_def stop_slot_video_def log_event_def native_present_invalidate_def
      native_arm_hub_return_replacement_locked_def)

lemma steady_unseat: "steady s0 m w (in_input (native_input_set_session None) (in_input (native_input_set_active False) w))"
  by (auto simp: steady_def core_def seated_def inp_def in_input_def in_pointer_def active_def keeps_pending_def sess_def
      native_input_set_active_def native_input_set_session_def)

definition stop_calls :: "nat \<Rightarrow> Switcher \<Rightarrow> Switcher" where
  "stop_calls i w = (if ss_rdp (sess i w) then call (WithdrawCapture i) (call (StopWorker i) (call (WithdrawCapture i) w)) else w)"

lemma steady_stop_calls: "steady s0 m w (stop_calls i w)"
proof -
  have "steady s0 m w (call (WithdrawCapture i) (call (StopWorker i) (call (WithdrawCapture i) w)))"
    by (rule steady_trans, rule steady_trans) (rule steady_neutral)+
  then show ?thesis by (simp add: stop_calls_def)
qed

definition unseat :: "nat \<Rightarrow> Switcher \<Rightarrow> Switcher" where
  "unseat i w = (if i = active w then in_input (native_input_set_session None) (in_input (native_input_set_active False) w) else w)"

lemma unseat: "steady s0 m w (unseat i w)" "inp (stop_calls i w) = inp w" "active (stop_calls i w) = active w"
  "i = active w \<Longrightarrow> in_session (inp (unseat i w)) = None \<and> \<not> in_active (inp (unseat i w))" "active (unseat i w) = active w"
  using steady_unseat by (simp_all add: unseat_def inp_def stop_calls_def call_def active_def in_input_def in_pointer_def
      native_input_set_active_def native_input_set_session_def)

lemma stop_slot_parts: "native_stop_slot i w = (let w = in_app (stop_slot_video i) (stop_calls i (unseat i w)) in
    put_sl i ((sl i w)\<lparr>sl_suppressed := False, sl_session_started_s := 0, sl_runtime_active := False\<rparr>) w)"
  by (simp add: native_stop_slot_def stop_calls_def unseat_def Let_def)

lemma stop_slot_steady: "steady s0 m w (native_stop_slot i w)"
proof -
  define a where "a = stop_calls i (unseat i w)"
  have a: "steady s0 m w a" unfolding a_def by (rule steady_trans [OF unseat(1) steady_stop_calls])
  have "i \<noteq> active a" if "in_session (inp a) \<noteq> None"
    using that unseat(2-5) [of i] by (auto simp: a_def)
  then have "steady s0 m a (in_app (stop_slot_video i) a)"
    by (intro steady_video) (auto intro: stop_slot_inv simp: stop_other)
  from steady_trans [OF a this] show ?thesis
    unfolding stop_slot_parts Let_def a_def [symmetric] by (rule steady_trans [OF _ steady_sl(1)])
qed

lemma stop_slot_active:
  "i = active w \<Longrightarrow> in_session (inp (native_stop_slot i w)) = None \<and> \<not> in_active (inp (native_stop_slot i w))"
  "active (native_stop_slot i w) = active w" "seated w \<Longrightarrow> i \<noteq> active w \<Longrightarrow> inp (native_stop_slot i w) = inp w"
  using unseat(2-5) [of i w] unseat(2,3) [of i "unseat i w"]
  by (auto simp: stop_slot_parts Let_def inp_def active_def in_app_def put_sl_def unseat_def)

lemma reset_input_frame [simp]: "in_session (reset_input i) = None" "in_active (reset_input i) = False" "in_sent (reset_input i) = in_sent i"
  by (simp_all add: reset_input_def Let_def native_input_init_def native_input_set_window_size_def native_input_set_desktop_size_def)

lemma steady_reset: "steady s0 m w (in_input reset_input w)"
  by (auto simp: steady_def core_def seated_def inp_def in_input_def in_pointer_def active_def keeps_pending_def sess_def)

lemma steady_seat:
  assumes "\<not> in_active (inp w)" "ss_rdp (sess (active w) w)"
  shows "steady s0 m w (in_input (native_input_set_session (Some (active w))) w)" 
    "seated (in_input (native_input_set_session (Some (active w))) w)"
  using assms by (auto simp: steady_def core_def seated_def inp_def in_input_def in_pointer_def active_def keeps_pending_def sess_def native_input_set_session_def)

lemma slot_connect_steady:
  assumes i: "i < NATIVE_SETTINGS_MAX_SESSIONS"
  shows "steady s0 m w (snd (native_slot_connect wa i arm w))"
    and "core s0 m w \<Longrightarrow> i = active w \<Longrightarrow> seated (snd (native_slot_connect wa i arm w))"
    and "i = active w \<Longrightarrow> \<not> in_active (inp (snd (native_slot_connect wa i arm w)))"
proof -
  define a where "a = native_stop_slot i w"
  define st where "st = wa_start wa (calls_made a)"
  define f where "f = connect_slot_video arm (wa_mem wa (calls_made a)) (sl_runtime_active (sl i w)) st i"
  define b where "b = in_app f a"
  define c where "c = (if i = active b then in_input reset_input b else b)"
  define d where "d = call (StartWorker i st) c"
  define e where "e = put_sl i ((sl i (call (PublishCapture i) d))\<lparr>sl_session_started_s := sl_session_started_s (sl i w),
    sl_runtime_active := sl_runtime_active (sl i w)\<rparr>) (call (PublishCapture i) d)"
  have a: "steady s0 m w a" "active a = active w" unfolding a_def by (rule stop_slot_steady, rule stop_slot_active(2))
  have ab: "steady s0 m a b" unfolding b_def
  proof (rule steady_video)
    show "video_inv m (sw_app a) \<Longrightarrow> video_inv m (f (sw_app a))" unfolding f_def by (rule connect_inv [OF _ i])
    show "ap_active_index (f (sw_app a)) = ap_active_index (sw_app a)" by (simp add: f_def)
    show "ss_rdp (slot (active a) (f (sw_app a))) = ss_rdp (slot (active a) (sw_app a))" if "in_session (inp a) \<noteq> None"
    proof -
      have "i \<noteq> active a" using that stop_slot_active(1) [of i w] a(2) by (auto simp: a_def)
      then show ?thesis by (simp add: f_def connect_other)
    qed
  qed
  have ac: "active b = active w" using a by (simp add: b_def active_def in_app_def f_def)
  have bc: "steady s0 m b c" using steady_reset by (simp add: c_def)
  have cd: "steady s0 m c d" unfolding d_def by simp
  have de: "steady s0 m d e" unfolding e_def by (rule steady_trans [OF steady_neutral(2) steady_sl(1)])
  have w_d: "steady s0 m w d" using steady_trans [OF steady_trans [OF steady_trans [OF a(1) ab] bc] cd] .
  have act: "active d = active w" "active e = active w"
    using ac by (simp_all add: c_def d_def e_def active_def in_input_def in_pointer_def call_def put_sl_def)
  have seat: "\<not> in_active (inp e)" "in_session (inp e) = None" "in_session (inp d) = None" if "i = active w"
    using that ac by (simp_all add: e_def d_def c_def inp_def put_sl_def call_def in_input_def in_pointer_def)
  have run: "ss_rdp (sess i e) = st" if "core s0 m w"
  proof -
    have "core s0 m a" using a(1) that by (simp add: steady_def)
    then have "i < length (ap_sessions (sw_app a))" using core_bounds(2) i by simp
    then have "ss_rdp (slot i (f (sw_app a))) = st" unfolding f_def by (rule connect_same)
    moreover have "sw_app e = f (sw_app a)"
      by (cases "i = active b") (simp_all add: e_def d_def c_def b_def put_sl_def call_def in_input_def in_pointer_def in_app_def)
    ultimately show ?thesis by (simp add: sess_def)
  qed
  have r: "native_slot_connect wa i arm w = (if \<not> st then (False, d)
      else (True, if i = active e then in_input (native_input_set_session (Some i)) e else e))"
    unfolding native_slot_connect_def Let_def a_def [symmetric] st_def [symmetric] f_def [symmetric] b_def [symmetric]
      c_def [symmetric] d_def [symmetric] e_def [symmetric] by (simp add: e_def)
  have e_fin: "steady s0 m w (if i = active e then in_input (native_input_set_session (Some i)) e else e)" if st
  proof (cases "core s0 m w \<and> i = active e")
    case True
    then show ?thesis using steady_trans [OF steady_trans [OF w_d de]] steady_seat(1) [of e s0 m] seat(1) run act that by simp
  next
    case False
    then show ?thesis using steady_trans [OF w_d de] by (auto simp: steady_def)
  qed
  show "steady s0 m w (snd (native_slot_connect wa i arm w))" unfolding r using w_d e_fin by simp
  show "seated (snd (native_slot_connect wa i arm w))" if "core s0 m w" "i = active w"
    unfolding r using seat that act steady_seat(2) [of e] run by (auto simp: seated_def)
  have "in_active (inp d) = in_active (inp e)" by (simp add: e_def inp_def put_sl_def call_def)
  then show "\<not> in_active (inp (snd (native_slot_connect wa i arm w)))" if "i = active w"
    unfolding r using seat(1) [OF that] by (simp add: inp_def in_input_def in_pointer_def native_input_set_session_def)
qed

section \<open>Backgrounding and replay\<close>

lemma steady_pending [simp]: "steady s0 m w (set_snapshot_pending i b w)"
  unfolding set_snapshot_pending_def by (rule steady_put_sess) simp_all

lemma suppress_steady [simp]: "steady s0 m w (suppress_plainly i w)"
  unfolding suppress_plainly_def by (rule steady_trans [OF steady_neutral(3) steady_sl(2)])

lemma resume_steady [simp]: "steady s0 m w (resume_and_refresh i w)"
  unfolding resume_and_refresh_def by (rule steady_trans [OF steady_neutral(3) steady_neutral(4)])

lemma connect_result_steady:
  assumes "native_slot_connect wa i arm w = (ok, w')" "i < NATIVE_SETTINGS_MAX_SESSIONS"
  shows "steady s0 m w w'"
  using slot_connect_steady(1) [OF assms(2), of s0 m w wa arm] assms(1) by simp

lemma background_steady:
  assumes i: "i < NATIVE_SETTINGS_MAX_SESSIONS"
  shows "steady s0 m w (native_background_slot wa i w)"
proof -
  obtain ok a where a: "native_slot_connect wa i True w = (ok, a)" by fastforce
  note c = connect_result_steady [OF a i, of s0 m]
  have "steady s0 m w (report_network_error i a)" "steady s0 m w (suppress_plainly i a)"
    "steady s0 m w (put_sl i s (set_snapshot_pending i True a))" for s
    using steady_trans [OF c] steady_trans [OF steady_trans [OF c steady_pending] steady_sl(1)] by simp_all
  then show ?thesis by (cases ok) (simp_all add: native_background_slot_def a Let_def)
qed

lemma replay_video: "video_inv m app \<Longrightarrow> video_inv m (replay_units va k i us app)"
proof (induction us arbitrary: k app)
  case (Cons u us)
  then show ?case using ingest_locked_inv [OF Cons.prems, of "va k" i "Some (fst u)" "snd u"] by (cases u) (simp add: Let_def)
qed simp

lemma replay_steady:
  assumes "native_snapshot_replay wa i w = (ok, w')"
  shows "steady s0 m w w'"
proof -
  define a where "a = put_sess i ((sess i w)\<lparr>ss_snapshot := snap_zero, ss_snapshot_idr_ready := False\<rparr>) w"
  have a: "steady s0 m w a" unfolding a_def by (rule steady_put_sess) simp_all
  have "steady s0 m a (in_app (replay_units va k i us) a)" for va k us
    by (rule steady_seats) (simp_all add: replay_video)
  note r = steady_trans [OF a this]
  show ?thesis using assms a r unfolding native_snapshot_replay_def Let_def a_def [symmetric]
    by (auto split: if_splits)
qed

lemma resume_target_steady:
  assumes i: "i < NATIVE_SETTINGS_MAX_SESSIONS"
  shows "steady s0 m w (resume_target wa i w)"
proof -
  obtain ok a where a: "native_snapshot_replay wa i (set_suppressed i False w) = (ok, a)" by fastforce
  obtain ok2 b where b: "native_slot_connect wa i False a = (ok2, b)" by fastforce
  have wa: "steady s0 m w a" using steady_trans [OF steady_sl(2) replay_steady [OF a]] .
  have wb: "steady s0 m w b" using steady_trans [OF wa connect_result_steady [OF b i]] .
  show ?thesis
    using wa wb steady_trans [OF wa steady_neutral(3)] steady_trans [OF wa resume_steady] steady_trans [OF wb steady_report]
    by (cases ok; cases ok2) (simp_all add: resume_target_def a b)
qed

section \<open>The mixer overlay and the forwarder\<close>

lemma stop_input_steady: "steady s0 m w (native_stop_streaming_input wa w)"
proof -
  define a where "a = in_input (native_input_set_active False) (in_pointer native_flush_held_inputs w)"
  have a: "steady s0 m w a" unfolding a_def by (rule steady_trans [OF steady_pointer [OF flush_forwards] steady_disarm])
  have b: "steady s0 m a (in_pointer (\<lambda>p. p\<lparr>pa_pointer_warp_pending := False\<rparr>) a)"
    by (rule steady_pointer) (simp add: pointer_forwards_def)
  have c: "steady s0 m x (call UngrabInput (x\<lparr>sw_hub_open_key_held := False, sw_hub_open_button_held := False\<rparr>))" for x
    by (rule steady_trans [OF steady_view steady_neutral(8)]) (simp add: switch_view_def)
  have d: "steady s0 m x (x\<lparr>sw_mixer_overlay_pointer_buttons := held\<rparr>)" for x held
    by (rule steady_view) (simp add: switch_view_def)
  note e = steady_trans [OF steady_trans [OF a b] c]
  show ?thesis using e steady_trans [OF e d]
    unfolding native_stop_streaming_input_def Let_def a_def [symmetric] by (simp split: option.split)
qed

lemma flush_settings_steady: "steady s0 m w (native_mixer_overlay_flush_settings wa w)"
proof -
  have "steady s0 m w x" if "switch_view x = switch_view (call SaveSettings w)" for x
    using steady_trans [OF steady_neutral(9) steady_view [OF that]] .
  then show ?thesis by (simp add: native_mixer_overlay_flush_settings_def Let_def switch_view_def)
qed

lemma start_input_steady [simp]: "steady s0 m w (native_start_streaming_input wa w)"
  by (simp add: native_start_streaming_input_def)

lemma warp_steady [simp]: "steady s0 m w (in_pointer warp_to_virtual w)"
  by (rule steady_pointer) (simp add: warp_to_virtual_def pointer_forwards_def)

lemma visible_steady [simp]: "steady s0 m w (set_mixer_visible b w)" "steady s0 m w (set_streaming_visible b w)"
  unfolding set_mixer_visible_def set_streaming_visible_def by (rule steady_pointer, simp add: pointer_forwards_def)+

lemma invalidate_steady [simp]: "steady s0 m w (in_app native_present_invalidate w)"
  by (rule steady_seats) (simp_all add: video_inv_view [of "native_present_invalidate _", OF field_views(11,12)])

lemma hide_steady: "steady s0 m w (native_mixer_overlay_hide wa w)"
proof -
  define a where "a = native_mixer_overlay_flush_settings wa w"
  have a: "steady s0 m w a" unfolding a_def by (rule flush_settings_steady)
  define b where "b = (set_mixer_visible False a)\<lparr>sw_mixer_overlay_dragging := False, sw_mixer_overlay_dismiss_button := 0,
    sw_mixer_overlay_dismiss_pending := False, sw_mixer_overlay_pointer_buttons := 0, sw_mixer_overlay_sdl_buttons := 0\<rparr>"
  have "steady s0 m (set_mixer_visible False a) b" unfolding b_def by (rule steady_view) (simp add: switch_view_def)
  then have b: "steady s0 m w b" using steady_trans [OF steady_trans [OF a visible_steady(1)]] by blast
  have p: "steady s0 m a (a\<lparr>sw_mixer_overlay_dismiss_pending := True\<rparr>)" by (rule steady_view) (simp add: switch_view_def)
  have c: "steady s0 m w (in_pointer warp_to_virtual (native_start_streaming_input wa b))" "steady s0 m w (native_start_streaming_input wa b)"
    using steady_trans [OF steady_trans [OF b start_input_steady] warp_steady] steady_trans [OF b start_input_steady] .
  show ?thesis
    using a steady_trans [OF a p] steady_trans [OF b invalidate_steady] steady_trans [OF c(1) invalidate_steady] steady_trans [OF c(2) invalidate_steady]
    unfolding native_mixer_overlay_hide_def Let_def a_def [symmetric] b_def [symmetric] by simp
qed

lemma force_hide_steady: "steady s0 m w (native_mixer_overlay_force_hide wa w)"
  unfolding native_mixer_overlay_force_hide_def by (rule steady_trans [OF steady_view hide_steady]) (simp add: switch_view_def)

lemma show_steady: "steady s0 m w (native_mixer_overlay_show wa w)"
proof -
  have "steady s0 m w b" if "switch_view b = switch_view (set_mixer_visible True w)" for b
    using steady_trans [OF visible_steady(1) steady_view [OF that]] .
  note v = this
  show ?thesis unfolding native_mixer_overlay_show_def Let_def
    using steady_trans [OF steady_trans [OF steady_trans [OF v stop_input_steady] steady_disarm] steady_sl(4)]
    by (simp add: switch_view_def)
qed

section \<open>A change of owner\<close>

text \<open>A part of an operation in which the owner may change: as \<open>steady\<close>, but silent about the owner, capture and the seat.\<close>

definition flows :: "nat \<times> int \<Rightarrow> Monitor \<Rightarrow> Switcher \<Rightarrow> Switcher \<Rightarrow> bool" where
  "flows s0 m a b \<longleftrightarrow> (core s0 m a \<longrightarrow> core s0 m b \<and> keeps_pending a b \<and>
     (in_active (inp b) \<longrightarrow> in_active (inp a) \<and> in_session (inp b) = in_session (inp a)) \<and>
     (\<exists>es. in_sent (inp b) = in_sent (inp a) @ es \<and>
        (\<forall>e\<in>set es. native_input_ready (inp a) \<and> Some (event_session e) = in_session (inp a))))"

lemma steady_flows: "steady s0 m a b \<Longrightarrow> flows s0 m a b"
  unfolding steady_def flows_def by blast

lemma flows_trans:
  assumes "flows s0 m a b" "flows s0 m b c"
  shows "flows s0 m a c"
  unfolding flows_def
proof (intro impI)
  assume a: "core s0 m a"
  obtain es where es: "in_sent (inp b) = in_sent (inp a) @ es"
    "\<forall>e\<in>set es. native_input_ready (inp a) \<and> Some (event_session e) = in_session (inp a)"
    and b: "core s0 m b" "in_active (inp b) \<longrightarrow> in_active (inp a) \<and> in_session (inp b) = in_session (inp a)"
    using assms(1) a by (auto simp: flows_def)
  obtain fs where fs: "in_sent (inp c) = in_sent (inp b) @ fs"
    "\<forall>e\<in>set fs. native_input_ready (inp b) \<and> Some (event_session e) = in_session (inp b)"
    and c: "core s0 m c" "in_active (inp c) \<longrightarrow> in_active (inp b) \<and> in_session (inp c) = in_session (inp b)"
    using assms(2) b(1) by (auto simp: flows_def)
  have "\<forall>e\<in>set (es @ fs). native_input_ready (inp a) \<and> Some (event_session e) = in_session (inp a)"
    using es(2) fs(2) b(2) by (auto simp: native_input_ready_def)
  moreover have "in_sent (inp c) = in_sent (inp a) @ es @ fs" using es(1) fs(1) by simp
  moreover have "keeps_pending a c" using assms a b(1) keeps_pending_trans by (auto simp: flows_def)
  ultimately show "core s0 m c \<and> keeps_pending a c \<and> (in_active (inp c) \<longrightarrow> in_active (inp a) \<and> in_session (inp c) = in_session (inp a)) \<and>
      (\<exists>es. in_sent (inp c) = in_sent (inp a) @ es \<and>
        (\<forall>e\<in>set es. native_input_ready (inp a) \<and> Some (event_session e) = in_session (inp a)))"
    using b(2) c by auto
qed

text \<open>Capture paused, the new owner published, capture opened for it.\<close>

definition pivot :: "nat \<Rightarrow> (App \<Rightarrow> App) \<Rightarrow> Switcher \<Rightarrow> Switcher" where
  "pivot target locked w = native_duck_retarget (publish_owner target locked (pause_capture w))"

lemma pivot_fields:
  assumes "seats (locked (sw_app w)) = (target, snd (seats (sw_app w)))"
  shows "inp (pivot target locked w) = inp w" "active (pivot target locked w) = target"
    "snd (seats (sw_app (pivot target locked w))) = snd (seats (sw_app w))"
    "sw_slots (pivot target locked w) = sw_slots w" "sw_pending_switch_target (pivot target locked w) = sw_pending_switch_target w"
    "sw_app (pivot target locked w) = locked (sw_app w)" "keeps_pending w (pivot target locked w)"
  using assms by (simp_all add: pivot_def inp_def active_def native_duck_retarget_def publish_owner_def pause_capture_def call_def
      in_pointer_def in_app_def seats_def keeps_pending_def)

lemma watch_append: "watch s (cs @ ds) = foldl (\<lambda>s c. Option.bind s (\<lambda>s. watch_call s c)) (watch s cs) ds"
  by (simp add: watch_def)

lemma pivot_core:
  assumes "core s0 m w" "video_inv m (locked (sw_app w))" "seats (locked (sw_app w)) = (target, snd (seats (sw_app w)))"
  shows "core s0 m (pivot target locked w)" "watch s0 (sw_calls (pivot target locked w)) = Some (target, int target)"
proof -
  obtain own fg where "watch s0 (sw_calls w) = Some (own, fg)" using assms(1) by (auto simp: core_def)
  then show "watch s0 (sw_calls (pivot target locked w)) = Some (target, int target)"
    using assms(3) by (simp add: pivot_def native_duck_retarget_def publish_owner_def pause_capture_def call_def
        in_pointer_def in_app_def active_def seats_def watch_append del: watch_snoc)
  then show "core s0 m (pivot target locked w)"
    using assms pivot_fields [of locked w target] unfolding core_def
    by (simp add: pivot_def native_duck_retarget_def publish_owner_def pause_capture_def call_def in_pointer_def in_app_def)
qed

lemma pivot_flows:
  assumes "video_inv m (sw_app w) \<Longrightarrow> video_inv m (locked (sw_app w))"
    "seats (locked (sw_app w)) = (target, snd (seats (sw_app w)))"
  shows "flows s0 m w (pivot target locked w)"
  unfolding flows_def using pivot_core(1) [of s0 m w locked target] assms pivot_fields(1,7) [of locked w target] by (auto simp: core_def)

section \<open>Whole operations\<close>

text \<open>Between operations the forwarder is seated and only the session on screen may capture.\<close>

definition settled :: "nat \<times> int \<Rightarrow> Monitor \<Rightarrow> Switcher \<Rightarrow> bool" where
  "settled s0 m w \<longleftrightarrow> core s0 m w \<and> seated w \<and> watch s0 (sw_calls w) = Some (active w, int (active w))"

definition routed :: "nat \<times> int \<Rightarrow> Monitor \<Rightarrow> Switcher \<Rightarrow> Switcher \<Rightarrow> bool" where
  "routed s0 m a b \<longleftrightarrow> (settled s0 m a \<longrightarrow> settled s0 m b \<and>
     (in_active (inp b) \<longrightarrow> in_active (inp a) \<and> active b = active a) \<and>
     (\<exists>es. in_sent (inp b) = in_sent (inp a) @ es \<and> (\<forall>e\<in>set es. in_active (inp a) \<and> event_session e = active a)))"

lemma routed_refl [simp]: "routed s0 m w w"
  by (simp add: routed_def)

lemma routed_flows:
  assumes "flows s0 m a b" "settled s0 m a \<Longrightarrow> seated b \<and> watch s0 (sw_calls b) = Some (active b, int (active b)) \<and>
    (in_active (inp b) \<longrightarrow> active b = active a)"
  shows "routed s0 m a b"
  unfolding routed_def
proof (intro impI)
  assume a: "settled s0 m a"
  then obtain es where es: "in_sent (inp b) = in_sent (inp a) @ es"
    "\<forall>e\<in>set es. native_input_ready (inp a) \<and> Some (event_session e) = in_session (inp a)"
    and b: "core s0 m b" "in_active (inp b) \<longrightarrow> in_active (inp a)"
    using assms(1) by (auto simp: flows_def settled_def)
  have "\<forall>e\<in>set es. in_active (inp a) \<and> event_session e = active a"
    using es(2) a by (auto simp: settled_def seated_def native_input_ready_def)
  then show "settled s0 m b \<and> (in_active (inp b) \<longrightarrow> in_active (inp a) \<and> active b = active a) \<and>
     (\<exists>es. in_sent (inp b) = in_sent (inp a) @ es \<and> (\<forall>e\<in>set es. in_active (inp a) \<and> event_session e = active a))"
    using assms(2) [OF a] b es(1) by (auto simp: settled_def)
qed

lemma steady_routed: "steady s0 m a b \<Longrightarrow> routed s0 m a b"
  by (rule routed_flows [OF steady_flows]) (auto simp: steady_def settled_def)

lemma routed_trans:
  assumes "routed s0 m a b" "routed s0 m b c"
  shows "routed s0 m a c"
  unfolding routed_def
proof (intro impI)
  assume a: "settled s0 m a"
  obtain es where es: "in_sent (inp b) = in_sent (inp a) @ es" "\<forall>e\<in>set es. in_active (inp a) \<and> event_session e = active a"
    and b: "settled s0 m b" "in_active (inp b) \<longrightarrow> in_active (inp a) \<and> active b = active a"
    using assms(1) a by (auto simp: routed_def)
  obtain fs where fs: "in_sent (inp c) = in_sent (inp b) @ fs" "\<forall>e\<in>set fs. in_active (inp b) \<and> event_session e = active b"
    and c: "settled s0 m c" "in_active (inp c) \<longrightarrow> in_active (inp b) \<and> active c = active b"
    using assms(2) b(1) by (auto simp: routed_def)
  have "in_sent (inp c) = in_sent (inp a) @ es @ fs" "\<forall>e\<in>set (es @ fs). in_active (inp a) \<and> event_session e = active a"
    using es fs b(2) by auto
  then show "settled s0 m c \<and> (in_active (inp c) \<longrightarrow> in_active (inp a) \<and> active c = active a) \<and>
     (\<exists>es. in_sent (inp c) = in_sent (inp a) @ es \<and> (\<forall>e\<in>set es. in_active (inp a) \<and> event_session e = active a))"
    using b c by auto
qed

lemma routed_foldl: "(\<And>w x. x \<in> set xs \<Longrightarrow> routed s0 m w (f w x)) \<Longrightarrow> routed s0 m w (foldl f w xs)"
proof (induction xs arbitrary: w)
  case (Cons x xs)
  then show ?case using routed_trans [of s0 m w "f w x"] by simp
qed simp

lemmas steady_then = routed_trans [OF steady_routed]
lemma hide_seats: "seats (sw_app (native_mixer_overlay_hide wa w)) = seats (sw_app w)"
  by (auto simp: native_mixer_overlay_hide_def native_mixer_overlay_flush_settings_def Let_def call_def set_mixer_visible_def
      in_pointer_def in_app_def native_start_streaming_input_def)

lemma pending_bound: "core s0 m w \<Longrightarrow> sw_pending_switch_target w < int NATIVE_SETTINGS_MAX_SESSIONS"
  by (simp add: core_def)

text \<open>Retargeting seats the forwarder on the new owner, whose session runs.\<close>

lemma retarget_steady:
  assumes "\<not> in_active (inp w)" "ss_rdp (sess (active w) w)"
  shows "steady s0 m w (retarget_input (active w) w)" "core s0 m w \<Longrightarrow> seated (retarget_input (active w) w)"
proof -
  define a where "a = in_input (native_input_set_session (Some (active w))) w"
  define b where "b = in_input (native_input_set_desktop_size (ucast (ss_desktop_width (sess (active w) w)))
    (ucast (ss_desktop_height (sess (active w) w)))) a"
  have a: "steady s0 m w a" "seated a" unfolding a_def by (rule steady_seat [OF assms])+
  have b: "steady s0 m a b" unfolding b_def in_input_def
    by (rule steady_pointer) (simp add: pointer_forwards_def forwards_def native_input_set_desktop_size_def)
  have c: "steady s0 m b (in_pointer native_request_pointer_window_size_update (b\<lparr>sw_input_locks_synced := False\<rparr>))"
    by (rule steady_trans [OF steady_view steady_pointer]) (simp_all add: switch_view_def)
  show st: "steady s0 m w (retarget_input (active w) w)"
    using steady_trans [OF a(1) steady_trans [OF b c]] by (simp add: retarget_input_def Let_def a_def b_def)
  show "seated (retarget_input (active w) w)" if "core s0 m w"
  proof -
    have "core s0 m a" using a(1) that by (simp add: steady_def)
    then show ?thesis using a(2) steady_trans [OF b c] by (simp add: steady_def retarget_input_def Let_def a_def b_def)
  qed
qed

lemma switch_fields_steady: "steady s0 m w (w\<lparr>sw_switch_deadline_ticks := d, sw_switch_baseline_frames := n, sw_switch_reconnect_used := b\<rparr>)"
  by (rule steady_view) (simp add: switch_view_def)

lemma complete_effect:
  assumes t: "target < NATIVE_SETTINGS_MAX_SESSIONS" and r: "native_complete_session_switch wa target w = (ok, w')"
  shows "flows s0 m w w'" "routed s0 m w w'" "core s0 m w \<Longrightarrow> ok \<Longrightarrow> active w' = target"
    "ok \<longleftrightarrow> ss_rdp (sess target w) \<and> \<not> ss_session_failed (sess target w)"
proof -
  show ok: "ok \<longleftrightarrow> ss_rdp (sess target w) \<and> \<not> ss_session_failed (sess target w)"
    using r by (auto simp: native_complete_session_switch_def Let_def split: if_splits)
  consider (dead) "\<not> ok" "w' = w" | (here) "ok" "active w = target" "w' = native_show_session_indicator wa target w"
    | (go) "ok" "active w \<noteq> target"
    using r ok by (fastforce simp: native_complete_session_switch_def Let_def split: if_splits)
  then have "flows s0 m w w' \<and> routed s0 m w w' \<and> (core s0 m w \<longrightarrow> ok \<longrightarrow> active w' = target)"
  proof cases
    case dead
    then show ?thesis using steady_flows [OF steady_refl] by simp
  next
    case here
    then show ?thesis using steady_flows [OF steady_sl(3)] steady_routed [OF steady_sl(3)]
      by (simp add: native_show_session_indicator_def active_def)
  next
    case go
    define a where "a = native_mixer_overlay_hide wa (clear_pending_switch w)"
    define d where "d = in_input (native_input_set_active False) (in_pointer native_flush_held_inputs a)"
    define e where "e = pivot target (handoff_locked target) d"
    define f where "f = retarget_input target e"
    define g where "g = native_background_slot wa (active w) f"
    define h where "h = (if \<not> ss_snapshot_pending (sess target (pause_capture d)) \<and> sl_suppressed (sl target g)
      then resume_target wa target g else g)"
    define z where "z = h\<lparr>sw_switch_deadline_ticks := ticks wa h + NATIVE_SWITCH_KEYFRAME_TIMEOUT_MS,
      sw_switch_baseline_frames := ss_video_ok_frames (sess target d), sw_switch_reconnect_used := False\<rparr>"
    have wd: "steady s0 m w d"
      using steady_trans [OF steady_trans [OF steady_trans [OF steady_clear hide_steady] steady_pointer [OF flush_forwards]] steady_disarm]
      by (simp add: d_def a_def)
    have "seats (sw_app d) = seats (sw_app w)"
      using hide_seats [of wa "clear_pending_switch w"] by (simp add: d_def a_def clear_pending_switch_def in_input_def in_pointer_def)
    note piv = seats_handoff [of target "sw_app d"]
    have off: "\<not> in_active (inp d)"
      by (simp add: d_def inp_def in_input_def in_pointer_def native_input_set_active_def)
    note ef = pivot_fields [of "handoff_locked target" d target, OF piv, folded e_def]
    have act: "active e = target" by (rule ef)
    have de: "flows s0 m d e" unfolding e_def by (rule pivot_flows) (use t piv handoff_inv in blast)+
    have z: "w' = native_show_session_indicator wa target z"
      using r go ok unfolding native_complete_session_switch_def Let_def z_def h_def g_def f_def e_def d_def a_def pivot_def
        clear_pending_switch_def
      by (simp add: pivot_def)
    show ?thesis
    proof (cases "core s0 m w")
      case False
      then show ?thesis by (simp add: flows_def routed_def settled_def)
    next
      case True
      then have d: "core s0 m d" using wd by (simp add: steady_def)
      then have e: "core s0 m e" using de by (simp add: flows_def)
      have "active w < NATIVE_SETTINGS_MAX_SESSIONS" by (rule core_bounds(1) [OF True])
      note wb = background_steady [OF this]
      have rdp: "ss_rdp (sess (active e) e)"
      proof -
        have "map ss_rdp (ap_sessions (sw_app e)) = map ss_rdp (ap_sessions (sw_app w))"
          using ef(3) \<open>seats (sw_app d) = seats (sw_app w)\<close> by (simp add: seats_def)
        then have "map ss_rdp (ap_sessions (sw_app e)) ! target = map ss_rdp (ap_sessions (sw_app w)) ! target" by simp
        then show ?thesis using t core_bounds(2) [OF True] core_bounds(2) [OF e] go(1) ok act by (simp add: sess_def slot_def)
      qed
      have off_e: "\<not> in_active (inp e)" using off ef(1) by simp
      note f = retarget_steady [OF off_e rdp, unfolded act, folded f_def]
      have fg: "steady s0 m f g" unfolding g_def by (rule wb)
      have gh: "steady s0 m g h" unfolding h_def using resume_target_steady [OF t] by simp
      have hz: "steady s0 m h z" unfolding z_def by (rule switch_fields_steady)
      have f': "steady s0 m f w'"
        using steady_trans [OF steady_trans [OF steady_trans [OF fg gh] hz] steady_sl(3)] z by simp
      have e': "steady s0 m e w'" by (rule steady_trans [OF f(1) f'])
      have cf: "core s0 m f" "seated f" using f e by (auto simp: steady_def)
      have hv: "video_inv m (handoff_locked target (sw_app d))" using d t handoff_inv by (simp add: core_def)
      have w': "active w' = target" "seated w'" "watch s0 (sw_calls w') = Some (target, int target)" "\<not> in_active (inp w')"
        using e' e act f' cf off_e pivot_core(2) [of s0 m d "handoff_locked target" target, OF d hv piv] by (auto simp: steady_def e_def)
      have fl: "flows s0 m w w'" using flows_trans [OF flows_trans [OF steady_flows [OF wd] de] steady_flows [OF e']] .
      then show ?thesis using w' by (auto intro: routed_flows)
    qed
  qed
  then show "flows s0 m w w'" "routed s0 m w w'" "core s0 m w \<Longrightarrow> ok \<Longrightarrow> active w' = target" by blast+
qed
section \<open>The operations\<close>

lemma flows_foldl: "(\<And>w x. x \<in> set xs \<Longrightarrow> flows s0 m w (f w x)) \<Longrightarrow> flows s0 m w (foldl f w xs)"
proof (induction xs arbitrary: w)
  case Nil
  then show ?case using steady_flows [OF steady_refl] by simp
next
  case (Cons x xs)
  then show ?case using flows_trans [of s0 m w "f w x"] by simp
qed

text \<open>An operation that keeps the deadline of a deferred switch, too.\<close>

definition wired :: "nat \<times> int \<Rightarrow> Monitor \<Rightarrow> Switcher \<Rightarrow> Switcher \<Rightarrow> bool" where
  "wired s0 m a b \<longleftrightarrow> flows s0 m a b \<and> routed s0 m a b"

lemma wired_refl [simp]: "wired s0 m w w"
  using steady_flows [OF steady_refl] by (simp add: wired_def)

lemma steady_wired: "steady s0 m a b \<Longrightarrow> wired s0 m a b"
  using steady_flows steady_routed by (auto simp: wired_def)

lemma wired_trans: "wired s0 m a b \<Longrightarrow> wired s0 m b c \<Longrightarrow> wired s0 m a c"
  using flows_trans routed_trans unfolding wired_def by blast

lemma wired_routed: "wired s0 m a b \<Longrightarrow> routed s0 m a b"
  by (simp add: wired_def)

lemma wired_foldl: "(\<And>w x. x \<in> set xs \<Longrightarrow> wired s0 m w (f w x)) \<Longrightarrow> wired s0 m w (foldl f w xs)"
  using flows_foldl routed_foldl unfolding wired_def by blast

lemmas steady_wired_trans = wired_trans [OF steady_wired]

lemma complete_wired:
  assumes "target < NATIVE_SETTINGS_MAX_SESSIONS"
  shows "wired s0 m w (snd (native_complete_session_switch wa target w))"
proof -
  obtain ok w' where r: "native_complete_session_switch wa target w = (ok, w')" by fastforce
  then show ?thesis using complete_effect(1,2) [OF assms r] by (simp add: wired_def)
qed

lemma arm_steady: "steady s0 m w (put_sess i ((sess i w)\<lparr>ss_snapshot := s, ss_snapshot_idr_ready := b\<rparr>) w)"
  "steady s0 m w (put_sess i ((sess i w)\<lparr>ss_snapshot := s\<rparr>) w)"
  by (rule steady_put_sess; simp)+

lemma prepare_wired:
  assumes t: "target < NATIVE_SETTINGS_MAX_SESSIONS"
  shows "wired s0 m w (native_prepare_pending_switch wa target w)"
proof -
  define v where "v = put_sl target ((sl target w)\<lparr>sl_snapshot_retry_used := True\<rparr>) w"
  obtain ok c where c: "native_slot_connect wa target True v = (ok, c)" by fastforce
  have wv: "steady s0 m w v" by (simp add: v_def)
  have wc: "steady s0 m w c" by (rule steady_trans [OF wv connect_result_steady [OF c t]])
  have rest: "wired s0 m w (if \<not> as_armed (ss_snapshot (sess target x))
      then snd (native_complete_session_switch wa target (clear_pending_switch x))
      else let y = put_sl target (s x) (set_snapshot_pending target True x) in if b then y else resume_and_refresh target y)"
    if "steady s0 m w x" for x b s
    using steady_wired_trans [OF steady_trans [OF that steady_clear] complete_wired [OF t]]
      steady_trans [OF steady_trans [OF that steady_pending] steady_sl(1)]
      steady_trans [OF steady_trans [OF steady_trans [OF that steady_pending] steady_sl(1)] resume_steady]
    by (auto simp: Let_def intro: steady_wired)
  let ?s = "\<lambda>x. (sl target (set_snapshot_pending target True x))\<lparr>sl_suppressed := False, sl_snapshot_deadline_ticks := 0\<rparr>"
  define u where "u = put_sess target ((sess target w)\<lparr>ss_snapshot := snd (native_au_snapshot_arm (wa_mem wa (calls_made w)) (ss_snapshot (sess target w))),
    ss_snapshot_idr_ready := False\<rparr>) w"
  have wu: "steady s0 m w u" unfolding u_def by (rule arm_steady)
  note r = rest [OF wc, where s = ?s and b = True] rest [OF wu, where s = ?s and b = False]
  have d: "native_prepare_pending_switch wa target w = (if ss_snapshot_pending (sess target w) then w
      else if sl_refresh_ineffective (sl target w) \<or> sw_snapshot_force w
      then (if \<not> ok then report_network_error target c
            else if \<not> as_armed (ss_snapshot (sess target c)) then snd (native_complete_session_switch wa target (clear_pending_switch c))
            else put_sl target (?s c) (set_snapshot_pending target True c))
      else if \<not> as_armed (ss_snapshot (sess target u)) then snd (native_complete_session_switch wa target (clear_pending_switch u))
      else resume_and_refresh target (put_sl target (?s u) (set_snapshot_pending target True u)))"
    unfolding native_prepare_pending_switch_def Let_def v_def [symmetric] u_def [symmetric] c by (cases ok) simp_all
  show ?thesis unfolding d using r steady_wired [OF steady_trans [OF wc steady_report]] 
    by (cases "as_armed (ss_snapshot (sess target c))"; cases "as_armed (ss_snapshot (sess target u))") (simp_all add: Let_def)
qed

lemma tick_slot_wired:
  assumes i: "i < NATIVE_SETTINGS_MAX_SESSIONS"
  shows "wired s0 m w (tick_slot wa w i)"
proof -
  have q: "steady s0 m x (set_snapshot_pending i False (suppress_plainly i x))" for x
    by (rule steady_trans [OF suppress_steady steady_pending])
  have ans: "wired s0 m w (if b then snd (native_complete_session_switch wa i (clear_pending_switch x)) else x)"
    if "steady s0 m w x" for x b
    using steady_wired_trans [OF steady_trans [OF that steady_clear] complete_wired [OF i]] steady_wired [OF that] by simp
  have learn: "steady s0 m w (set_snapshot_pending i False (put_sl i s w))" for s
    by (rule steady_trans [OF steady_sl(1) steady_pending])
  note r = arm_steady(2) [of s0 m w i]
  show ?thesis unfolding tick_slot_def Let_def
    using steady_wired [OF q] ans [OF q] ans [OF steady_trans [OF r q]] steady_wired_trans [OF learn prepare_wired [OF i]]
      steady_wired [OF steady_sl(1)] by simp
qed

lemma deferred_wired: "core s0 m w \<Longrightarrow> wired s0 m w (tick_deferred wa w)"
proof -
  assume c: "core s0 m w"
  let ?t = "nat (sw_pending_switch_target w)"
  have t: "?t < NATIVE_SETTINGS_MAX_SESSIONS" using pending_bound [OF c] by (auto simp: nat_less_iff NATIVE_SETTINGS_MAX_SESSIONS_def)
  show ?thesis unfolding tick_deferred_def Let_def
    using steady_wired [OF steady_clear] steady_wired_trans [OF steady_clear complete_wired [OF t]] by simp
qed

lemma refresh_steady: "steady s0 m w (tick_refresh wa w)"
proof -
  have n: "steady s0 m w (in_app (\<lambda>app. app\<lparr>ap_video_refresh_needed := False\<rparr>) w)" for w
    by (rule steady_seats) (simp_all add: video_inv_def decoder_ok_def canvases_ok_def seen_def)
  show ?thesis unfolding tick_refresh_def Let_def
    using n steady_trans [OF steady_trans [OF steady_trans [OF n steady_sl(6)] steady_neutral(4)] steady_sl(7)] by simp
qed

lemma watchdog_steady: "core s0 m w \<Longrightarrow> steady s0 m w (tick_watchdog wa w)"
proof -
  assume c: "core s0 m w"
  have i: "active w < NATIVE_SETTINGS_MAX_SESSIONS" by (rule core_bounds(1) [OF c])
  have f: "steady s0 m x (x\<lparr>sw_switch_deadline_ticks := d\<rparr>)" "steady s0 m x (x\<lparr>sw_switch_reconnect_used := b\<rparr>)" for x d b
    by (rule steady_view, simp add: switch_view_def)+
  define v where "v = (native_switch_watchdog_start wa (2 * NATIVE_SWITCH_KEYFRAME_TIMEOUT_MS)
    (native_switch_watchdog_baseline (active w) (put_sl (active w) ((sl (active w) w)\<lparr>sl_refresh_ineffective := True\<rparr>) w)))\<lparr>
      sw_switch_reconnect_used := True\<rparr>"
  have wv: "steady s0 m w v" unfolding v_def
    by (rule steady_trans [OF steady_trans [OF steady_trans [OF steady_sl(1) steady_sl(6)] steady_sl(7)] f(2)])
  obtain ok x where x: "native_slot_connect wa (active w) False v = (ok, x)" by fastforce
  have wx: "steady s0 m w x" by (rule steady_trans [OF wv connect_result_steady [OF x i]])
  show ?thesis using f wx steady_trans [OF wx steady_report] x
    unfolding tick_watchdog_def Let_def v_def [symmetric] by (cases ok) simp_all
qed

lemma wired_core: "wired s0 m a b \<Longrightarrow> core s0 m a \<Longrightarrow> core s0 m b"
  by (simp add: wired_def flows_def)

lemma wired_cases: "(core s0 m a \<Longrightarrow> wired s0 m a b) \<Longrightarrow> wired s0 m a b"
  by (auto simp: wired_def flows_def routed_def settled_def)

lemma tick_slots_wired: "wired s0 m w (foldl (tick_slot wa) w [0..<NATIVE_SETTINGS_MAX_SESSIONS])"
  by (rule wired_foldl) (simp add: tick_slot_wired)

lemma tick_wired: "wired s0 m w (native_switch_tick wa w)"
proof (rule wired_cases)
  assume c: "core s0 m w"
  define a where "a = foldl (tick_slot wa) w [0..<NATIVE_SETTINGS_MAX_SESSIONS]"
  have wa': "wired s0 m w a" unfolding a_def by (rule tick_slots_wired)
  have wb: "wired s0 m w (tick_deferred wa a)" using wired_trans [OF wa' deferred_wired] wired_core [OF wa' c] by blast
  have wc: "wired s0 m w (tick_refresh wa (tick_deferred wa a))"
    using wired_trans [OF wb steady_wired [OF refresh_steady]] .
  show "wired s0 m w (native_switch_tick wa w)"
    unfolding native_switch_tick_def a_def [symmetric]
    using wired_trans [OF wc steady_wired [OF watchdog_steady]] wired_core [OF wc c] by blast
qed
lemma hub_fields_steady [simp]: "steady s0 m w (in_app (\<lambda>app. app\<lparr>ap_hub_visible := b\<rparr>) w)"
  "steady s0 m w (in_app (\<lambda>app. app\<lparr>ap_hub_visible := b, ap_hub_return_slot := n\<rparr>) w)"
  by (rule steady_seats; simp add: video_inv_def decoder_ok_def canvases_ok_def seen_def)+

lemma plain_steady:
  "steady s0 m w (w\<lparr>sw_hub_connect_target := h\<rparr>)" "steady s0 m w (w\<lparr>sw_hub_connect_target := h, sw_ui_last_state := u\<rparr>)"
  "steady s0 m w (w\<lparr>sw_ui_last_state := u\<rparr>)" "steady s0 m w (w\<lparr>sw_switch_deadline_ticks := d\<rparr>)"
  "steady s0 m w (w\<lparr>sw_indicator_slot := n, sw_indicator_drawn := b, sw_switch_splash_drawn := c\<rparr>)"
  "steady s0 m w (w\<lparr>sw_input_locks_synced := b\<rparr>)"
  by (rule steady_view, simp add: switch_view_def)+

lemma show_hub_steady: "steady s0 m w (native_show_hub wa w)"
proof -
  have "steady s0 m w (in_input (native_input_set_active False) (native_stop_streaming_input wa (clear_pending_switch w)))"
    by (rule steady_trans [OF steady_trans [OF steady_clear stop_input_steady] steady_disarm])
  note a = steady_trans [OF steady_trans [OF steady_trans [OF steady_trans [OF steady_trans [OF this plain_steady(5)]
      invalidate_steady] visible_steady(2)] hub_fields_steady(2)] plain_steady(2)]
  show ?thesis using a by (simp add: native_show_hub_def Let_def)
qed

text \<open>The configurator of another slot takes the screen; the forwarder may hold a stale handle until the end of it.\<close>

lemma seat_or_clear:
  "seated (in_input (native_input_set_session (if ss_rdp (sess (active w) w) then Some (active w) else None)) w)"
  by (simp add: seated_def inp_def in_input_def in_pointer_def active_def sess_def native_input_set_session_def)

lemma set_session_flows: "\<not> in_active (inp w) \<Longrightarrow> flows s0 m w (in_input (native_input_set_session h) w)"
  by (simp add: flows_def core_def inp_def in_input_def in_pointer_def active_def keeps_pending_def native_input_set_session_def)

lemma configurator_wired:
  assumes t: "target < NATIVE_SETTINGS_MAX_SESSIONS"
  shows "wired s0 m w (native_show_slot_configurator wa target w)"
proof (rule wired_cases)
  assume c: "core s0 m w"
  define v where "v = (clear_pending_switch w)\<lparr>sw_hub_connect_target := -1\<rparr>"
  have wv: "steady s0 m w v" unfolding v_def by (rule steady_trans [OF steady_clear plain_steady(1)])
  have fin: "steady s0 m x ((set_streaming_visible False x)\<lparr>sw_ui_last_state := None\<rparr>)" for x
    by (rule steady_trans [OF visible_steady(2) plain_steady(3)])
  show "wired s0 m w (native_show_slot_configurator wa target w)"
  proof (cases "active v = target")
    case True
    then show ?thesis using steady_wired [OF steady_trans [OF wv fin]]
      unfolding native_show_slot_configurator_def Let_def v_def [symmetric] by simp
  next
    case False
    define d where "d = in_input (native_input_set_active False) (native_stop_streaming_input wa v)"
    define e where "e = pivot target (configurator_locked target) d"
    define g where "g = native_background_slot wa (active v) e"
    define h where "h = in_input (native_input_set_session (if ss_rdp (sess target g) then Some target else None)) g"
    define z where "z = (set_streaming_visible False (h\<lparr>sw_switch_deadline_ticks := 0\<rparr>))\<lparr>sw_ui_last_state := None\<rparr>"
    have wd: "steady s0 m w d" unfolding d_def
      by (rule steady_trans [OF steady_trans [OF wv stop_input_steady] steady_disarm])
    have off: "\<not> in_active (inp d)" by (simp add: d_def inp_def in_input_def in_pointer_def native_input_set_active_def)
    note piv = seats_configurator [of target "sw_app d"]
    note ef = pivot_fields [of "configurator_locked target" d target, OF piv, folded e_def]
    have d: "core s0 m d" using wd c by (simp add: steady_def)
    have hv: "video_inv m (configurator_locked target (sw_app d))" using d t configurator_inv by (simp add: core_def)
    note pc = pivot_core [of s0 m d "configurator_locked target" target, OF d hv piv, folded e_def]
    have de: "flows s0 m d e" unfolding e_def by (rule pivot_flows) (use hv piv in auto)
    have "active v < NATIVE_SETTINGS_MAX_SESSIONS" using core_bounds(1) [OF c] wv c by (simp add: steady_def)
    then have eg: "steady s0 m e g" unfolding g_def by (rule background_steady)
    have g: "active g = target" "core s0 m g" "\<not> in_active (inp g)" "watch s0 (sw_calls g) = Some (target, int target)"
      using eg pc ef(1,2) off by (auto simp: steady_def)
    have gh: "flows s0 m g h" unfolding h_def by (rule set_session_flows [OF g(3)])
    have h: "seated h" "active h = target" "core s0 m h" "\<not> in_active (inp h)" "watch s0 (sw_calls h) = Some (target, int target)"
      using seat_or_clear [of g, unfolded g(1), folded h_def] g gh
      by (simp_all add: h_def flows_def inp_def in_input_def in_pointer_def active_def native_input_set_session_def)
    have hz: "steady s0 m h z" unfolding z_def by (rule steady_trans [OF plain_steady(4) fin])
    have z: "native_show_slot_configurator wa target w = z"
      using False unfolding native_show_slot_configurator_def Let_def v_def [symmetric] z_def h_def g_def e_def d_def pivot_def
      by simp
    have fl: "flows s0 m w z"
      using flows_trans [OF flows_trans [OF flows_trans [OF flows_trans [OF steady_flows [OF wd] de] steady_flows [OF eg]] gh] steady_flows [OF hz]] .
    have "seated z" "active z = target" "\<not> in_active (inp z)" "watch s0 (sw_calls z) = Some (target, int target)"
      using hz h by (auto simp: steady_def)
    then have "routed s0 m w z" using fl by (auto intro: routed_flows)
    then show ?thesis using fl unfolding z by (simp add: wired_def)
  qed
qed

lemma routed_cases: "(core s0 m a \<Longrightarrow> routed s0 m a b) \<Longrightarrow> routed s0 m a b"
  by (auto simp: routed_def settled_def)

lemma defer_routed:
  assumes "t < int NATIVE_SETTINGS_MAX_SESSIONS"
  shows "routed s0 m w (w\<lparr>sw_pending_switch_target := t, sw_pending_switch_deadline_ticks := d\<rparr>)"
  using assms by (auto simp: routed_def settled_def core_def seated_def inp_def active_def sess_def)

lemma routed_if: "routed s0 m w x \<Longrightarrow> routed s0 m w y \<Longrightarrow> routed s0 m w (if b then x else y)"
  by simp

lemma request_routed: "routed s0 m w (native_request_session_switch wa t w)"
proof (cases "t < 0 \<or> t \<ge> int NATIVE_SETTINGS_MAX_SESSIONS")
  case True
  then show ?thesis by (simp add: native_request_session_switch_def)
next
  case False
  then have t: "nat t < NATIVE_SETTINGS_MAX_SESSIONS" "t < int NATIVE_SETTINGS_MAX_SESSIONS" by auto
  define v where "v = (in_app (\<lambda>app. app\<lparr>ap_hub_visible := False\<rparr>) w)\<lparr>sw_hub_connect_target := -1\<rparr>"
  have wv: "steady s0 m w v" unfolding v_def by (rule steady_trans [OF hub_fields_steady(1) plain_steady(1)])
  define x where "x = v\<lparr>sw_pending_switch_target := t, sw_pending_switch_deadline_ticks := ticks wa v + NATIVE_PENDING_SWITCH_TIMEOUT_MS\<rparr>"
  define y where "y = native_show_session_indicator wa (nat t) (put_sl (nat t) ((sl (nat t) x)\<lparr>sl_snapshot_retry_used := False\<rparr>) x)"
  have wy: "routed s0 m w y"
    using routed_trans [OF steady_then [OF wv defer_routed [OF t(2)]] steady_routed [OF steady_trans [OF steady_sl(1) steady_sl(3)]]]
    by (simp add: y_def x_def)
  note c = wired_routed [OF complete_wired [OF t(1)]] wired_routed [OF prepare_wired [OF t(1)]] wired_routed [OF configurator_wired [OF t(1)]]
  have f: "routed s0 m w (native_mixer_overlay_hide wa w)" "routed s0 m w (native_mixer_overlay_select wa t w)"
    "routed s0 m w (native_show_session_indicator wa (nat t) (clear_pending_switch w))"
    "routed s0 m w (native_mixer_overlay_show wa v)" "routed s0 m w v"
    "routed s0 m w (snd (native_complete_session_switch wa (nat t) (clear_pending_switch v)))"
    "routed s0 m w (native_prepare_pending_switch wa (nat t) y)"
    "routed s0 m w (call (UiRequestConnect (nat t)) (native_show_slot_configurator wa (nat t) w))"
    using steady_routed [OF hide_steady] steady_routed [OF steady_sl(5)] steady_routed [OF steady_trans [OF steady_clear steady_sl(3)]]
      steady_routed [OF steady_trans [OF wv show_steady]] steady_routed [OF wv] steady_then [OF steady_trans [OF wv steady_clear] c(1)]
      routed_trans [OF wy c(2)] routed_trans [OF c(3) steady_routed [OF steady_neutral(10)]] by simp_all
  show ?thesis
    unfolding native_request_session_switch_def Let_def v_def [symmetric] x_def [symmetric] y_def [symmetric]
    by (intro routed_if routed_refl f wy)
qed

lemma ring_routed: "routed s0 m w (native_ring_switch wa d w)"
  using request_routed steady_routed [OF steady_sl(3)] by (simp add: native_ring_switch_def split: option.split)

lemma navigation_routed: "routed s0 m w (snd (native_hub_actions_drain_navigation wa close act w))"
  using steady_routed [OF steady_neutral(11)] request_routed routed_trans [OF request_routed steady_routed [OF steady_neutral(11)]]
  by (simp add: native_hub_actions_drain_navigation_def Let_def split: option.split)

section \<open>Sessions that ended\<close>

lemma survivor_bound: "survivor i w = Some j \<Longrightarrow> j < NATIVE_SETTINGS_MAX_SESSIONS \<and> ss_rdp (sess j w) \<and> \<not> ss_session_failed (sess j w) \<and> j \<noteq> i"
proof -
  let ?P = "\<lambda>j. j \<noteq> i \<and> native_slot_is_live_stream_target (sess j w) \<and> ss_current_state (sess j w) = RDP_STATE_ACTIVE"
  have "foldl (\<lambda>best j. if ?P j then Some j else best) b xs = Some j \<Longrightarrow> b = Some j \<or> j \<in> set xs \<and> ?P j" for b xs
    by (induction xs arbitrary: b) (auto split: if_splits)
  from this [of None "[0..<NATIVE_SETTINGS_MAX_SESSIONS]"] show "survivor i w = Some j \<Longrightarrow> ?thesis"
    by (auto simp: survivor_def native_slot_is_live_stream_target_def)
qed

lemma leave_streaming_steady: "steady s0 m w (leave_streaming wa i w)"
  unfolding leave_streaming_def Let_def
  by (rule steady_trans [OF steady_trans [OF steady_trans [OF steady_trans [OF steady_trans [OF stop_input_steady stop_slot_steady]
      plain_steady(4)] visible_steady(2)] force_hide_steady] plain_steady(3)])

lemma drain_active_routed: "routed s0 m w (drain_active wa i w)"
proof -
  have stop: "routed s0 m w (native_stop_slot i x)" "routed s0 m w ((native_stop_slot i x)\<lparr>sw_ui_last_state := None\<rparr>)"
    "routed s0 m w (leave_streaming wa i x)" if "routed s0 m w x" for x
    using routed_trans [OF that steady_routed [OF stop_slot_steady]] routed_trans [OF that steady_routed [OF leave_streaming_steady]]
      routed_trans [OF that steady_routed [OF steady_trans [OF stop_slot_steady plain_steady(3)]]] by simp_all
  show ?thesis
  proof (cases "survivor i w")
    case None
    then show ?thesis using stop [OF routed_refl] by (simp add: drain_active_def)
  next
    case (Some j)
    then have j: "j < NATIVE_SETTINGS_MAX_SESSIONS" using survivor_bound by blast
    obtain ok x where x: "native_complete_session_switch wa j w = (ok, x)" by fastforce
    have "routed s0 m w x" by (rule complete_effect(2) [OF j x])
    then show ?thesis using Some x stop [OF routed_refl] stop [of x] by (cases ok) (simp_all add: drain_active_def)
  qed
qed

lemma stop_media_steady: "steady s0 m w (in_app native_stop_media w)"
  by (rule steady_seats) (simp_all add: stop_media_inv)

lemma status_steady: "steady s0 m w (publish_terminal_status i w)"
  unfolding publish_terminal_status_def Let_def by (rule steady_neutral)

lemma supervise_slot_routed: "routed s0 m w (supervise_slot wa w i)"
proof -
  define a where "a = publish_terminal_status i w"
  define b where "b = (if int i = sw_hub_connect_target a then a\<lparr>sw_hub_connect_target := -1\<rparr> else a)"
  define c where "c = (if i = active b then drain_active wa i b else native_stop_slot i b)"
  define d where "d = (if \<not> streaming_visible c \<and> \<not> ap_hub_visible (sw_app c) \<and> \<not> pending_return_live c
    then call UiCancelHubClose c else c)"
  have "steady s0 m w b" using steady_trans [OF status_steady plain_steady(1)] status_steady by (simp add: b_def a_def)
  then have "routed s0 m w c"
    using steady_then [OF _ drain_active_routed] steady_then [OF _ steady_routed [OF stop_slot_steady]] by (simp add: c_def)
  then have d: "routed s0 m w d" using routed_trans [OF _ steady_routed [OF steady_neutral(11)]] by (simp add: d_def)
  then show ?thesis
    using routed_trans [OF d steady_routed [OF stop_media_steady]]
    unfolding supervise_slot_def Let_def a_def [symmetric] b_def [symmetric] c_def [symmetric] d_def [symmetric] by simp
qed

lemma supervisor_routed: "routed s0 m w (native_session_supervisor_tick wa w)"
  unfolding native_session_supervisor_tick_def by (rule routed_foldl) (rule supervise_slot_routed)

lemma publish_steady: "steady s0 m w (native_hub_runtime_publish wa w)"
proof -
  have "steady s0 m w (publish_slot t w i)" for t w i
    using steady_trans [OF steady_sl(1) steady_neutral(13)] by (simp add: publish_slot_def Let_def)
  then show ?thesis unfolding native_hub_runtime_publish_def by (rule steady_foldl)
qed

section \<open>A connection started from the HUB\<close>

lemma hub_prepare_steady: "steady s0 m w (hub_prepare requested session w)"
proof -
  define a where "a = native_stop_slot requested (put_sl requested ((sl requested w)\<lparr>sl_session_started_s := 0, sl_runtime_active := False\<rparr>) w)"
  define b where "b = (if native_session_endpoint_changed (ss_config (sess requested a)) session
    then put_sl requested ((sl requested a)\<lparr>sl_refresh_ineffective := False\<rparr>) a else a)"
  define c where "c = put_sess requested ((sess requested b)\<lparr>ss_config := session\<rparr>) b"
  have a: "steady s0 m w a" unfolding a_def by (rule steady_trans [OF steady_sl(1) stop_slot_steady])
  have b: "steady s0 m w b" using a steady_trans [OF a steady_sl(1)] by (simp add: b_def)
  have "steady s0 m b c" unfolding c_def by (rule steady_put_sess) simp_all
  note c = steady_trans [OF b this]
  note fin = steady_trans [OF steady_trans [OF _ steady_clear] plain_steady(4)]
  show ?thesis using fin [OF c] fin [OF steady_trans [OF c steady_neutral(3)]]
    unfolding hub_prepare_def Let_def a_def [symmetric] b_def [symmetric] c_def [symmetric] by simp
qed

lemma hub_connect_routed:
  assumes t: "requested < NATIVE_SETTINGS_MAX_SESSIONS"
  shows "routed s0 m w (hub_connect wa requested session hub w)"
proof (rule routed_cases)
  assume c: "core s0 m w"
  define d where "d = hub_prepare requested session w"
  define e where "e = pivot requested (connect_locked hub requested) d"
  define g where "g = (if active w \<noteq> requested then native_background_slot wa (active w) e else e)\<lparr>sw_ui_last_state := None\<rparr>"
  obtain ok h where h: "native_slot_connect wa requested False g = (ok, h)" by fastforce
  define k where "k = (if sw_hub_connect_target h = int requested then h\<lparr>sw_hub_connect_target := -1\<rparr> else h)"
  define z where "z = (if ok then in_pointer native_update_pointer_window_size h
    else if \<not> native_any_slot_connected k then in_app native_stop_media k else k)"
  have z: "hub_connect wa requested session hub w = z"
    unfolding hub_connect_def Let_def d_def [symmetric] e_def [unfolded pivot_def, symmetric] g_def [symmetric] h k_def z_def
    by (cases ok) simp_all
  have wd: "steady s0 m w d" unfolding d_def by (rule hub_prepare_steady)
  note piv = seats_connect_locked [of hub requested "sw_app d"]
  note ef = pivot_fields [of "connect_locked hub requested" d requested, OF piv, folded e_def]
  have d: "core s0 m d" using wd c by (simp add: steady_def)
  have hv: "video_inv m (connect_locked hub requested (sw_app d))" using d t connect_locked_inv by (simp add: core_def)
  note pc = pivot_core [of s0 m d "connect_locked hub requested" requested, OF d hv piv, folded e_def]
  have de: "flows s0 m d e" unfolding e_def by (rule pivot_flows) (use hv piv in auto)
  have eg: "steady s0 m e g"
    using plain_steady(3) steady_trans [OF background_steady [OF core_bounds(1) [OF c]] plain_steady(3)] by (simp add: g_def)
  have g: "active g = requested" "core s0 m g" "watch s0 (sw_calls g) = Some (requested, int requested)"
    using eg pc ef(2) by (auto simp: steady_def)
  have gh: "steady s0 m g h" by (rule connect_result_steady [OF h t])
  have sh: "seated h" "\<not> in_active (inp h)"
    using slot_connect_steady(2) [OF t g(2) g(1) [symmetric], of wa False] slot_connect_steady(3) [OF t g(1) [symmetric], of wa False]
    unfolding h snd_conv by blast+
  have hk: "steady s0 m h k" using plain_steady(1) by (simp add: k_def)
  have hz: "steady s0 m h z" using steady_pointer [of native_update_pointer_window_size] hk steady_trans [OF hk stop_media_steady]
    by (simp add: z_def)
  have ch: "core s0 m h" "active h = requested" "watch s0 (sw_calls h) = Some (requested, int requested)"
    using gh g by (auto simp: steady_def)
  have "seated z" "active z = requested" "\<not> in_active (inp z)" "watch s0 (sw_calls z) = Some (requested, int requested)"
    using hz sh ch by (auto simp: steady_def)
  moreover have "flows s0 m w z"
    using flows_trans [OF flows_trans [OF steady_flows [OF wd] de] steady_flows [OF steady_trans [OF eg steady_trans [OF gh hz]]]] .
  ultimately show "routed s0 m w (hub_connect wa requested session hub w)" unfolding z by (auto intro: routed_flows)
qed
section \<open>All operations, interleaved\<close>

text \<open>As \<open>routed\<close>, for operations that may arm the forwarder or start a deferred switch.\<close>

definition serves :: "nat \<times> int \<Rightarrow> Monitor \<Rightarrow> Switcher \<Rightarrow> Switcher \<Rightarrow> bool" where
  "serves s0 m a b \<longleftrightarrow> (settled s0 m a \<longrightarrow> settled s0 m b \<and> (in_active (inp b) \<longrightarrow> active b = active a) \<and>
     (\<exists>es. in_sent (inp b) = in_sent (inp a) @ es \<and> (\<forall>e\<in>set es. event_session e = active a)))"

lemma routed_serves: "routed s0 m a b \<Longrightarrow> serves s0 m a b"
  unfolding routed_def serves_def by blast

lemma serves_steady:
  assumes "serves s0 m a b" "steady s0 m b c"
  shows "serves s0 m a c"
  unfolding serves_def
proof (intro impI)
  assume a: "settled s0 m a"
  obtain es where es: "in_sent (inp b) = in_sent (inp a) @ es" "\<forall>e\<in>set es. event_session e = active a"
    and b: "settled s0 m b" "in_active (inp b) \<longrightarrow> active b = active a"
    using assms(1) a by (auto simp: serves_def)
  obtain fs where fs: "in_sent (inp c) = in_sent (inp b) @ fs" "\<forall>e\<in>set fs. in_active (inp b) \<and> event_session e = active b"
    and c: "settled s0 m c" "in_active (inp c) \<longrightarrow> in_active (inp b) \<and> active c = active b"
    using steady_routed [OF assms(2)] b(1) by (auto simp: routed_def)
  have "in_sent (inp c) = in_sent (inp a) @ es @ fs" "\<forall>e\<in>set (es @ fs). event_session e = active a"
    using es fs b(2) by auto
  then show "settled s0 m c \<and> (in_active (inp c) \<longrightarrow> active c = active a) \<and>
     (\<exists>es. in_sent (inp c) = in_sent (inp a) @ es \<and> (\<forall>e\<in>set es. event_session e = active a))"
    using b(2) c by auto
qed

lemma arming_serves: "serves s0 m w (in_input (native_input_set_active b) w)"
  by (auto simp: serves_def settled_def core_def seated_def inp_def in_input_def in_pointer_def active_def sess_def native_input_set_active_def)

lemma desktop_size_steady: "steady s0 m w (in_pointer native_request_pointer_window_size_update (in_input (native_input_set_desktop_size x y) w))"
  unfolding in_input_def
proof (rule steady_trans)
  show "steady s0 m w (in_pointer (\<lambda>p. p\<lparr>pa_input := native_input_set_desktop_size x y (pa_input p)\<rparr>) w)"
    by (rule steady_pointer) (simp add: pointer_forwards_def forwards_def native_input_set_desktop_size_def)
qed (rule steady_pointer, simp)

lemma locks_steady: "steady s0 m w ((in_input (\<lambda>inp. snd (native_input_sync_locks s n c inp)) w)\<lparr>sw_input_locks_synced := b\<rparr>)"
  unfolding in_input_def by (rule steady_trans [OF steady_pointer plain_steady(6)]) (simp add: pointer_forwards_def)

lemma arm_serves: "serves s0 m w (snd (loop_arm_streaming_input wa w))"
proof -
  note d = serves_steady [OF arming_serves desktop_size_steady]
  show ?thesis
    using arming_serves d serves_steady [OF arming_serves locks_steady] serves_steady [OF d locks_steady]
      serves_steady [OF arming_serves plain_steady(6)] serves_steady [OF d plain_steady(6)]
    unfolding loop_arm_streaming_input_def Let_def by (simp only: snd_conv split: if_split) blast
qed

lemma enter_steady: "steady s0 m w (enter_streaming wa r w)"
proof -
  define a where "a = (if r then (in_app (\<lambda>app. app\<lparr>ap_hub_visible := False\<rparr>) w)\<lparr>sw_hub_connect_target := -1\<rparr> else w)"
  define b where "b = (if sl_suppressed (sl (active w) a) then native_switch_watchdog_start wa NATIVE_SWITCH_KEYFRAME_TIMEOUT_MS
    (resume_and_refresh (active w) (native_switch_watchdog_baseline (active w) (set_suppressed (active w) False a))) else a)"
  have a: "steady s0 m w a" using steady_trans [OF hub_fields_steady(1) plain_steady(1)] by (simp add: a_def)
  have b: "steady s0 m w b"
    using a steady_trans [OF steady_trans [OF steady_trans [OF steady_trans [OF a steady_sl(2)] steady_sl(6)] resume_steady] steady_sl(7)]
    by (simp add: b_def)
  have fin: "steady s0 m x (native_show_session_indicator wa n (in_app (\<lambda>app. app\<lparr>ap_hub_visible := False\<rparr>) (set_streaming_visible True x)))" for x n
    by (rule steady_trans [OF steady_trans [OF visible_steady(2) hub_fields_steady(1)] steady_sl(3)])
  note c = steady_trans [OF b steady_neutral(9)]
  show ?thesis using steady_trans [OF c fin] steady_trans [OF steady_trans [OF steady_trans [OF c start_input_steady] warp_steady] fin]
    unfolding enter_streaming_def Let_def a_def [symmetric] b_def [symmetric] by simp
qed

lemma transition_serves: "serves s0 m w (native_streaming_transition_tick wa w)"
proof -
  define a where "a = snd (loop_arm_streaming_input wa w)"
  define b where "b = (if ss_rdp (sess (active w) w) \<and> Some (ss_current_state (sess (active w) w)) \<noteq> sw_ui_last_state a \<and>
    ss_current_state (sess (active w) w) \<noteq> RDP_STATE_ACTIVE
    then a\<lparr>sw_ui_last_state := Some (ss_current_state (sess (active w) w))\<rparr> else a)"
  have a: "serves s0 m w a" unfolding a_def by (rule arm_serves)
  have b: "serves s0 m w b" using a serves_steady [OF a plain_steady(3)] by (simp add: b_def)
  show ?thesis using b serves_steady [OF b enter_steady]
    unfolding native_streaming_transition_tick_def Let_def a_def [symmetric] b_def [symmetric] by simp
qed

text \<open>One operation of the SDL thread, or one callback of a worker or frame drawn (\<open>SwVideo\<close>).\<close>

datatype SwitchOp =
    SwTick SwitchAnswers
  | SwSupervise SwitchAnswers
  | SwPublish SwitchAnswers
  | SwTransition SwitchAnswers
  | SwNavigate SwitchAnswers bool "int option"
  | SwConnect SwitchAnswers nat NativeSessionConfig bool
  | SwColourKey SwitchAnswers int
  | SwRing SwitchAnswers int
  | SwShowHub SwitchAnswers
  | SwMixerShow SwitchAnswers
  | SwMixerHide SwitchAnswers
  | SwFocusLost SwitchAnswers
  | SwFocusGained SwitchAnswers
  | SwMotion int int
  | SwButton int int NativeInputButton bool
  | SwKey u8 bool bool
  | SwVideo VideoOp

fun switch_step :: "Switcher \<Rightarrow> SwitchOp \<Rightarrow> Switcher option" where
  "switch_step w (SwTick wa) = Some (native_switch_tick wa w)"
| "switch_step w (SwSupervise wa) = Some (native_session_supervisor_tick wa w)"
| "switch_step w (SwPublish wa) = Some (native_hub_runtime_publish wa w)"
| "switch_step w (SwTransition wa) = Some (native_streaming_transition_tick wa w)"
| "switch_step w (SwNavigate wa close act) = Some (snd (native_hub_actions_drain_navigation wa close act w))"
| "switch_step w (SwConnect wa i session hub) = Some (hub_connect wa i session hub w)"
| "switch_step w (SwColourKey wa t) = Some (native_request_session_switch wa t w)"
| "switch_step w (SwRing wa d) = Some (native_ring_switch wa d w)"
| "switch_step w (SwShowHub wa) = Some (native_show_hub wa w)"
| "switch_step w (SwMixerShow wa) = Some (native_mixer_overlay_show wa w)"
| "switch_step w (SwMixerHide wa) = Some (native_mixer_overlay_hide wa w)"
| "switch_step w (SwFocusLost wa) = Some (focus_lost wa w)"
| "switch_step w (SwFocusGained wa) = Some (focus_gained wa w)"
| "switch_step w (SwMotion x y) = Some (in_pointer (forward_motion x y) w)"
| "switch_step w (SwButton x y button down) = Some (in_pointer (forward_button x y button down) w)"
| "switch_step w (SwKey scancode extended down) = Some (in_pointer (forward_key scancode extended down) w)"
| "switch_step w (SwVideo op) = (case video_step (sw_app w) op of None \<Rightarrow> None | Some app \<Rightarrow> Some (w\<lparr>sw_app := app\<rparr>))"

text \<open>The slots named are the program's; the video operations are those of the workers and the drawing.\<close>

fun callback :: "VideoOp \<Rightarrow> bool" where
  "callback (OpBitmap va i left ytop width height stride rgba len) \<longleftrightarrow> True"
| "callback (OpVideo va mem i codec data pts) \<longleftrightarrow> True"
| "callback (OpReport r) \<longleftrightarrow> True"
| "callback (OpDraw create update copy renderer) \<longleftrightarrow> True"
| "callback (OpDesktopSize i w h) \<longleftrightarrow> True"
| "callback _ \<longleftrightarrow> False"

fun switch_op_ok :: "SwitchOp \<Rightarrow> bool" where
  "switch_op_ok (SwConnect wa i session hub) \<longleftrightarrow> i < NATIVE_SETTINGS_MAX_SESSIONS"
| "switch_op_ok (SwVideo op) \<longleftrightarrow> op_ok op \<and> callback op"
| "switch_op_ok _ \<longleftrightarrow> True"

fun switch_run :: "Switcher \<Rightarrow> SwitchOp list \<Rightarrow> Switcher option" where
  "switch_run w [] = Some w"
| "switch_run w (op # ops) = (case switch_step w op of None \<Rightarrow> None | Some w' \<Rightarrow> switch_run w' ops)"

lemma focus_lost_steady: "steady s0 m w (focus_lost wa w)"
proof -
  define a where "a = in_pointer (\<lambda>p. p\<lparr>pa_window_unfocused := True\<rparr>) w"
  have a: "steady s0 m w a" unfolding a_def by (rule steady_pointer) (simp add: pointer_forwards_def)
  have b: "steady s0 m x (x\<lparr>sw_mixer_overlay_dragging := u, sw_mixer_overlay_pointer_buttons := v\<rparr>)"
    "steady s0 m x (x\<lparr>sw_mixer_overlay_dismiss_button := n, sw_mixer_overlay_dismiss_pending := u\<rparr>)" for x u v n
    by (rule steady_view, simp add: switch_view_def)+
  note h = steady_trans [OF steady_trans [OF b(1) b(2)] hide_steady]
  show ?thesis using steady_trans [OF a stop_input_steady] steady_trans [OF a steady_trans [OF h stop_input_steady]]
      steady_trans [OF a steady_trans [OF b(1) stop_input_steady]]
    unfolding focus_lost_def Let_def a_def [symmetric] by simp
qed

lemma focus_gained_steady: "steady s0 m w (focus_gained wa w)"
proof -
  have a: "steady s0 m w (in_pointer (\<lambda>p. p\<lparr>pa_window_unfocused := b\<rparr>) w)" for b
    by (rule steady_pointer) (simp add: pointer_forwards_def)
  show ?thesis using a steady_trans [OF a steady_trans [OF start_input_steady warp_steady]]
    unfolding focus_gained_def native_resume_streaming_input_def by simp
qed

lemma events_steady:
  "steady s0 m w (in_pointer (forward_motion x y) w)" "steady s0 m w (in_pointer (forward_button x y b down) w)"
  "steady s0 m w (in_pointer (forward_key sc ext down) w)"
proof -
  have f: "forwards i i'" if "native_input_key sc down ext i = (sent, i')" for i i' sent
    using forwards_calls(4) [of i sc down ext] that by simp
  show "steady s0 m w (in_pointer (forward_key sc ext down) w)"
    by (rule steady_pointer) (auto simp: forward_key_def pointer_forwards_def Let_def native_track_key_def dest: f split: prod.split)
qed (rule steady_pointer, simp add: forward_motion_def forward_button_def pointer_forwards_def Let_def
    native_set_virtual_mouse_position_def native_track_button_def)+

lemma callback_steady:
  assumes "op_ok op" "callback op" "core s0 m w"
  shows "\<exists>app. video_step (sw_app w) op = Some app \<and> steady s0 m w (w\<lparr>sw_app := app\<rparr>)"
proof -
  have v: "video_inv m (sw_app w)" using assms(3) by (simp add: core_def)
  obtain app where app: "video_step (sw_app w) op = Some app" "video_inv m app" using step_inv [OF v assms(1)] by blast
  have "seats app = seats (sw_app w)" using app(1) assms(2) by (cases op) (auto dest: seats_bitmap)
  then have "steady s0 m w (in_app (\<lambda>_. app) w)" using app(2) by (intro steady_seats) simp_all
  then show ?thesis using app(1) by (simp add: in_app_def)
qed

lemma step_serves:
  assumes "switch_op_ok op" "settled s0 m w"
  shows "\<exists>w'. switch_step w op = Some w' \<and> serves s0 m w w'"
proof -
  have c: "core s0 m w" using assms(2) by (simp add: settled_def)
  note s = routed_serves [OF steady_routed]
  show ?thesis
  proof (cases op)
    case (SwVideo vop)
    then show ?thesis using assms(1) callback_steady [OF _ _ c, of vop] by (auto intro: s)
  next
    case (SwConnect wa i session hub)
    then show ?thesis using assms(1) routed_serves [OF hub_connect_routed] by simp
  qed (auto intro: transition_serves routed_serves wired_routed tick_wired supervisor_routed navigation_routed request_routed
      ring_routed s publish_steady show_hub_steady show_steady hide_steady focus_lost_steady focus_gained_steady events_steady)
qed

lemma run_settled:
  assumes "list_all switch_op_ok ops" "settled s0 m w"
  shows "\<exists>w'. switch_run w ops = Some w' \<and> settled s0 m w'"
  using assms
proof (induction ops arbitrary: w)
  case (Cons op ops)
  obtain w' where w': "switch_step w op = Some w'" "serves s0 m w w'"
    using step_serves [of op s0 m w] Cons.prems by auto
  then have "settled s0 m w'" using Cons.prems by (simp add: serves_def)
  then show ?case using Cons.IH [of w'] Cons.prems w'(1) by simp
qed simp
section \<open>Properties\<close>

text \<open>A dark screen, no handle in the forwarder, nothing asked of anyone yet.\<close>

definition switch_start :: "Switcher \<Rightarrow> bool" where
  "switch_start w \<longleftrightarrow> dark (sw_app w) \<and> length (sw_slots w) = NATIVE_SETTINGS_MAX_SESSIONS \<and>
     pa_active_index (sw_pointer w) = int (active w) \<and> sw_pending_switch_target w < int NATIVE_SETTINGS_MAX_SESSIONS \<and>
     in_session (inp w) = None \<and> sw_calls w = []"

lemma start_settled: "switch_start w \<Longrightarrow> settled (active w, int (active w)) (seen (sw_app w)) w"
  using dark_inv by (simp add: switch_start_def settled_def core_def seated_def watch_def)

lemma settled_video:
  assumes "settled s0 m w"
  shows "\<exists>mo. monitor_all m (ap_log (sw_app w)) = Some mo \<and> mo_active mo = active w"
  using assms by (simp add: settled_def core_def video_inv_def decoder_ok_def seen_def active_def)

text \<open>
  C5: switching isolates the sessions.  From a dark screen, every interleaving of the SDL thread's
  operations (ticks, deferred switches, colour keys, HUB and configurator, connections, sessions
  that end, focus changes, mouse and keyboard) with the workers' callbacks runs to its end.  Then the
  input forwarder holds no handle, or the handle of the running session on screen; only the session
  on screen may capture, and at every change of the owner none could; and the video monitor has
  accepted all that happened.  Whatever operation comes next, the input events it sends go to the
  session that is on screen when it starts, and if it leaves another session on screen, it leaves
  the forwarder disarmed.
\<close>

theorem switching_isolates_sessions:
  assumes "switch_start w0" "list_all switch_op_ok ops"
  shows "\<exists>w. switch_run w0 ops = Some w \<and>
    (in_session (inp w) = None \<or> in_session (inp w) = Some (active w) \<and> ss_rdp (sess (active w) w)) \<and>
    watch (active w0, int (active w0)) (sw_calls w) = Some (active w, int (active w)) \<and>
    (\<exists>m. monitor_all (seen (sw_app w0)) (ap_log (sw_app w)) = Some m \<and> mo_active m = active w) \<and>
    (\<forall>op. switch_op_ok op \<longrightarrow> (\<exists>w' es. switch_step w op = Some w' \<and> in_sent (inp w') = in_sent (inp w) @ es \<and>
      (\<forall>e\<in>set es. event_session e = active w) \<and> (in_active (inp w') \<longrightarrow> active w' = active w)))"
proof -
  obtain w where w: "switch_run w0 ops = Some w" "settled (active w0, int (active w0)) (seen (sw_app w0)) w"
    using run_settled [OF assms(2) start_settled [OF assms(1)]] by blast
  then show ?thesis using settled_video [OF w(2)] step_serves [OF _ w(2)]
    unfolding serves_def by (intro exI [of _ w]) (auto simp: settled_def seated_def, fastforce+)
qed

definition example_seat :: PointerApp where
  "example_seat = \<lparr>pa_input = native_input_init None 1920 1080, pa_active_index = 0, pa_mixer_overlay_visible = False,
     pa_streaming_visible = True, pa_wheel_step = 120, pa_wheel_scroll_divisor = 1, pa_wheel_accumulator = 0,
     pa_virtual_mouse_x = 0, pa_virtual_mouse_y = 0, pa_pointer_clamp_pending = False, pa_pointer_warp_pending = False,
     pa_pointer_warp_x = 0, pa_pointer_warp_y = 0, pa_pointer_warp_slot = - 1, pa_render_width = 1920,
     pa_render_height = 1080, pa_window_unfocused = False, pa_app_backgrounded = False,
     pa_held_mouse = replicate 3 False, pa_held_keys = replicate 64 0, pa_warps = []\<rparr>"

definition example_switcher :: Switcher where
  "example_switcher = \<lparr>sw_app = example_app, sw_pointer = example_seat,
     sw_slots = replicate 4 \<lparr>sl_suppressed = True, sl_refresh_ineffective = False, sl_snapshot_deadline_ticks = 0,
       sl_snapshot_retry_used = False, sl_session_started_s = 0, sl_runtime_active = True\<rparr>,
     sw_pending_switch_target = 2, sw_pending_switch_deadline_ticks = 8000, sw_switch_deadline_ticks = 0,
     sw_switch_baseline_frames = 0, sw_switch_reconnect_used = False, sw_snapshot_force = False, sw_hub_connect_target = - 1,
     sw_hub_open_key_held = False, sw_hub_open_button_held = False, sw_indicator_slot = - 1, sw_indicator_until_ticks = 0,
     sw_indicator_drawn = False, sw_switch_splash_drawn = False, sw_ui_last_state = None, sw_input_locks_synced = False,
     sw_mixer_available = True, sw_mixer_overlay_selected = 0, sw_mixer_overlay_hide_ticks = 0, sw_mixer_overlay_ok_held = False,
     sw_mixer_overlay_dragging = False, sw_mixer_overlay_dismiss_button = 0, sw_mixer_overlay_dismiss_pending = False,
     sw_mixer_overlay_pointer_buttons = 0, sw_mixer_overlay_sdl_buttons = 0, sw_mixer_settings_dirty = False,
     sw_mixer_settings_save_ticks = 0, sw_calls = []\<rparr>"

definition example_world :: SwitchAnswers where
  "example_world = \<lparr>wa_ticks = (\<lambda>n. 9000 + of_nat n), wa_now_ms = (\<lambda>n. 9000 + of_nat n), wa_now_s = (\<lambda>n. 9),
     wa_mem = (\<lambda>n. None), wa_start = (\<lambda>n. True), wa_save = (\<lambda>n. True), wa_video = (\<lambda>n k. example_answers),
     wa_keyboard_focus = True, wa_evdev_buttons = None\<rparr>"

lemma example_start: "switch_start example_switcher"
  using example_dark by (simp add: switch_start_def example_switcher_def example_seat_def active_def example_app_def inp_def
      NATIVE_SETTINGS_MAX_SESSIONS_def native_input_init_def native_input_set_window_size_def native_input_set_desktop_size_def)

definition example_presses :: "SwitchOp list" where
  "example_presses = [SwTransition example_world, SwButton 10 10 1 True, SwColourKey example_world 2, SwTick example_world,
     SwSupervise example_world, SwConnect example_world 3 native_session_config_defaults False, SwFocusLost example_world]"

theorem switching_isolates_sessions_witness:
  "\<exists>w. switch_run example_switcher example_presses = Some w \<and>
    (in_session (inp w) = None \<or> in_session (inp w) = Some (active w) \<and> ss_rdp (sess (active w) w)) \<and>
    watch (0, 0) (sw_calls w) = Some (active w, int (active w))"
proof -
  have "list_all switch_op_ok example_presses" by (simp add: example_presses_def NATIVE_SETTINGS_MAX_SESSIONS_def)
  from switching_isolates_sessions [OF example_start this] show ?thesis
    by (auto simp: active_def example_switcher_def example_app_def)
qed

text \<open>The end of a deferred switch.\<close>

lemma deferred_answered:
  assumes c: "core s0 m w" and late: "\<And>n. ticks_passed (wa_ticks wa n) (sw_pending_switch_deadline_ticks w)"
  shows "sw_pending_switch_target (tick_deferred wa w) < 0"
    and "0 \<le> sw_pending_switch_target w \<Longrightarrow> ss_rdp (sess (nat (sw_pending_switch_target w)) w) \<Longrightarrow>
      \<not> ss_session_failed (sess (nat (sw_pending_switch_target w)) w) \<Longrightarrow>
      int (active (tick_deferred wa w)) = sw_pending_switch_target w"
proof -
  let ?t = "nat (sw_pending_switch_target w)"
  have t: "?t < NATIVE_SETTINGS_MAX_SESSIONS" using pending_bound [OF c] by (auto simp: nat_less_iff NATIVE_SETTINGS_MAX_SESSIONS_def)
  have cc: "core s0 m (clear_pending_switch w)" using steady_clear c by (fastforce simp: steady_def)
  obtain ok w' where r: "native_complete_session_switch wa ?t (clear_pending_switch w) = (ok, w')" by fastforce
  have "keeps_pending (clear_pending_switch w) w'" using complete_effect(1) [OF t r, of s0 m] cc by (simp add: flows_def)
  then have p: "sw_pending_switch_target w' = -1" by (simp add: keeps_pending_def clear_pending_switch_def)
  have same: "sess i (clear_pending_switch w) = sess i w" for i by (simp add: sess_def clear_pending_switch_def)
  have d: "tick_deferred wa w = (if sw_pending_switch_target w < 0 then w
      else if \<not> ss_rdp (sess ?t w) \<or> ss_session_failed (sess ?t w) then clear_pending_switch w else w')"
    using late r by (simp add: tick_deferred_def Let_def ticks_def)
  show "sw_pending_switch_target (tick_deferred wa w) < 0" using p by (simp add: d clear_pending_switch_def)
  show "int (active (tick_deferred wa w)) = sw_pending_switch_target w"
    if "0 \<le> sw_pending_switch_target w" "ss_rdp (sess ?t w)" "\<not> ss_session_failed (sess ?t w)"
    using that complete_effect(3,4) [OF t r] cc same by (simp add: d)
qed



end
