(* ===== verification/Config_Files.thy ===== *)
theory Config_Files
  imports Settings_Text
begin

text \<open>
  The file system as the settings code uses it: the calls of \<open>native/src/config_paths.c\<close> and
  \<open>native/src/native_config_storage.c\<close> to POSIX, with what their documentation promises.  A disk has
  directories and files; a directory knows, beside its present entries, the entry tables a power
  loss may still bring back (those since its last \<open>fsync\<close>), and a file whether its data was
  synchronised.  A machine adds the number of calls made so far and, for the proofs only, every
  earlier state of the disk.

  Which calls fail (no permission, no space, an I/O error, no memory) is the parameter
  \<open>sy_refuses\<close>, which may depend on the time of the call; \<open>sy_euid\<close> and \<open>sy_pid\<close> are the process's
  effective user and its number.  Directories are reached by their path, as a whole: \<open>dk_path\<close> says
  whether the path's last component is a symbolic link and which directory it leads to.  A symbolic
  link to a file leads to a name in a directory; a link to a second link is not followed.
\<close>

section \<open>Disks and machines\<close>

datatype Entry = File nat | Link nat string

record FileNode =
  fl_regular :: bool
  fl_owner :: nat
  fl_mode :: nat
  fl_data :: string
  fl_synced :: bool

record DirNode =
  dn_is_dir :: bool
  dn_owner :: nat
  dn_mode :: nat
  dn_entries :: "string \<Rightarrow> Entry option"
  dn_unsynced :: "(string \<Rightarrow> Entry option) list"

record Disk =
  dk_path :: "string \<Rightarrow> (bool \<times> nat) option"
  dk_dirs :: "nat \<Rightarrow> DirNode option"
  dk_files :: "nat \<Rightarrow> FileNode option"
  dk_next :: nat

record Machine =
  mc_disk :: Disk
  mc_calls :: nat
  mc_past :: "Disk list"

datatype Call =
    Open string | OpenDirectory string | OpenAt nat string | Fdopen | Fstat | FstatDir nat
  | Fseek | Ftell | Calloc | CallocObject nat | Fread | Write | Fflush | Fsync | Fclose
  | Renameat nat string | FsyncDir nat | Unlinkat nat string
  | Mkdir string | Stat string | Lstat string | Chmod nat | Fopen string | Fputc | Remove string

record Sys =
  sy_refuses :: "nat \<Rightarrow> Call \<Rightarrow> bool"
  sy_euid :: nat
  sy_pid :: nat
  sy_partial :: "nat \<Rightarrow> nat" \<comment> \<open>how much of a buffer reached the file when its writing failed\<close>

text \<open>Whether a call may go ahead; the call is counted.\<close>

definition ask :: "Sys \<Rightarrow> Call \<Rightarrow> Machine \<Rightarrow> bool \<times> Machine" where
  "ask sys call m = (\<not> sy_refuses sys (mc_calls m) call, m\<lparr>mc_calls := mc_calls m + 1\<rparr>)"

definition set_disk :: "Disk \<Rightarrow> Machine \<Rightarrow> Machine" where
  "set_disk disk m = m\<lparr>mc_disk := disk, mc_past := mc_disk m # mc_past m\<rparr>"

text \<open>\<open>S_IWGRP | S_IWOTH\<close>, and the two modes the program creates with.\<close>

definition others_may_write :: "nat \<Rightarrow> bool" where
  "others_may_write mode \<longleftrightarrow> odd (mode div 16) \<or> odd (mode div 2)"

definition MODE_0700 :: nat where "MODE_0700 = 448"
definition MODE_0600 :: nat where "MODE_0600 = 384"
definition MODE_0644 :: nat where "MODE_0644 = 420"

lemma private_modes [simp]: "\<not> others_may_write MODE_0700" "\<not> others_may_write MODE_0600"
  by (simp_all add: others_may_write_def MODE_0700_def MODE_0600_def)

section \<open>Paths\<close>

text \<open>
  What the kernel reads of a path: everything before its last slash names the directory, the rest the
  entry; runs of slashes count as one.
\<close>

fun one_slash :: "string \<Rightarrow> string" where
  "one_slash [] = []"
| "one_slash (c # p) =
     (if c = CHR ''/'' \<and> p \<noteq> [] \<and> hd p = CHR ''/'' then one_slash p else c # one_slash p)"

definition canonical :: "string \<Rightarrow> string" where
  "canonical path =
     (let p = one_slash path in
      if 1 < length p \<and> last p = CHR ''/'' then butlast p else p)"

definition after_slash :: "string \<Rightarrow> string" where
  "after_slash path = rev (takeWhile (\<lambda>c. c \<noteq> CHR ''/'') (rev path))"

definition before_slash :: "string \<Rightarrow> string" where
  "before_slash path = take (length path - length (after_slash path) - 1) path"

definition has_slash :: "string \<Rightarrow> bool" where
  "has_slash path \<longleftrightarrow> CHR ''/'' \<in> set path"

definition walk :: "string \<Rightarrow> string" where
  "walk path =
     (if \<not> has_slash path then ''.''
      else if before_slash path = [] then ''/''
      else before_slash path)"

definition directory_at :: "Disk \<Rightarrow> string \<Rightarrow> nat option" where
  "directory_at disk path =
     (case dk_path disk (canonical path) of
        None \<Rightarrow> None
      | Some (_, d) \<Rightarrow>
        (case dk_dirs disk d of None \<Rightarrow> None | Some n \<Rightarrow> if dn_is_dir n then Some d else None))"

definition entry_at :: "Disk \<Rightarrow> nat \<Rightarrow> string \<Rightarrow> Entry option" where
  "entry_at disk d name = (case dk_dirs disk d of None \<Rightarrow> None | Some n \<Rightarrow> dn_entries n name)"

text \<open>The file an entry leads to, through one symbolic link.\<close>

definition follow :: "Disk \<Rightarrow> Entry option \<Rightarrow> nat option" where
  "follow disk e =
     (case e of
        None \<Rightarrow> None
      | Some (File i) \<Rightarrow> Some i
      | Some (Link d name) \<Rightarrow>
        (case entry_at disk d name of Some (File i) \<Rightarrow> Some i | _ \<Rightarrow> None))"

section \<open>Changes of the disk\<close>

text \<open>A new entry table of a directory: until the directory is synchronised, a power loss may undo it.\<close>

definition set_entries :: "nat \<Rightarrow> (string \<Rightarrow> Entry option) \<Rightarrow> Disk \<Rightarrow> Disk" where
  "set_entries d entries disk =
     (case dk_dirs disk d of
        None \<Rightarrow> disk
      | Some n \<Rightarrow> disk\<lparr>dk_dirs := (dk_dirs disk)(d \<mapsto>
          n\<lparr>dn_entries := entries, dn_unsynced := dn_entries n # dn_unsynced n\<rparr>)\<rparr>)"

definition set_file :: "nat \<Rightarrow> FileNode \<Rightarrow> Disk \<Rightarrow> Disk" where
  "set_file i f disk = disk\<lparr>dk_files := (dk_files disk)(i \<mapsto> f)\<rparr>"

definition new_file :: "nat \<Rightarrow> nat \<Rightarrow> FileNode" where
  "new_file owner mode =
     \<lparr>fl_regular = True, fl_owner = owner, fl_mode = mode, fl_data = [], fl_synced = False\<rparr>"

definition add_file :: "nat \<Rightarrow> string \<Rightarrow> FileNode \<Rightarrow> Disk \<Rightarrow> Disk" where
  "add_file d name f disk =
     set_entries d ((case dk_dirs disk d of None \<Rightarrow> Map.empty | Some n \<Rightarrow> dn_entries n)(name \<mapsto> File (dk_next disk)))
       (disk\<lparr>dk_files := (dk_files disk)(dk_next disk \<mapsto> f), dk_next := dk_next disk + 1\<rparr>)"

definition write_data :: "nat \<Rightarrow> string \<Rightarrow> Disk \<Rightarrow> Disk" where
  "write_data i text disk =
     (case dk_files disk i of
        None \<Rightarrow> disk | Some f \<Rightarrow> set_file i (f\<lparr>fl_data := text, fl_synced := False\<rparr>) disk)"

definition sync_data :: "nat \<Rightarrow> Disk \<Rightarrow> Disk" where
  "sync_data i disk =
     (case dk_files disk i of None \<Rightarrow> disk | Some f \<Rightarrow> set_file i (f\<lparr>fl_synced := True\<rparr>) disk)"

definition sync_entries :: "nat \<Rightarrow> Disk \<Rightarrow> Disk" where
  "sync_entries d disk =
     (case dk_dirs disk d of
        None \<Rightarrow> disk | Some n \<Rightarrow> disk\<lparr>dk_dirs := (dk_dirs disk)(d \<mapsto> n\<lparr>dn_unsynced := []\<rparr>)\<rparr>)"

definition remove_entry :: "nat \<Rightarrow> string \<Rightarrow> Disk \<Rightarrow> Disk" where
  "remove_entry d name disk =
     (case dk_dirs disk d of None \<Rightarrow> disk | Some n \<Rightarrow> set_entries d ((dn_entries n)(name := None)) disk)"

definition move_entry :: "nat \<Rightarrow> string \<Rightarrow> string \<Rightarrow> Disk \<Rightarrow> Disk" where
  "move_entry d from target disk =
     (case dk_dirs disk d of
        None \<Rightarrow> disk
      | Some n \<Rightarrow> set_entries d ((dn_entries n)(target := dn_entries n from, from := None)) disk)"

end
