(* ===== verification/Config_Storage.thy ===== *)
theory Config_Storage
  imports Config_Files
begin

text \<open>
  Where the settings are kept and how they are read and written: \<open>native/src/config_paths.c\<close> and
  \<open>native/src/native_config_storage.c\<close>, over the file system of \<open>Config_Files\<close>.  Operations return
  their verdict with the machine afterwards.  Paths and candidates are strings; a bounded buffer is
  its capacity.
\<close>

section \<open>Paths (\<open>config_paths.c\<close>)\<close>

definition NATIVE_PERSISTED_CONFIG_FILENAME :: string where
  "NATIVE_PERSISTED_CONFIG_FILENAME = ''settings.json''"
definition NATIVE_PERSISTED_CONFIG_PATH_MAX :: nat where "NATIVE_PERSISTED_CONFIG_PATH_MAX = 1024"
definition NATIVE_PERSISTED_CONFIG_MAX_CANDIDATES :: nat where "NATIVE_PERSISTED_CONFIG_MAX_CANDIDATES = 11"
definition NATIVE_CONFIG_MAX_FILE :: nat where "NATIVE_CONFIG_MAX_FILE = 128 * 1024"

lemmas config_consts = NATIVE_PERSISTED_CONFIG_FILENAME_def NATIVE_PERSISTED_CONFIG_PATH_MAX_def
  NATIVE_PERSISTED_CONFIG_MAX_CANDIDATES_def NATIVE_CONFIG_MAX_FILE_def

definition native_config_join_path :: "nat \<Rightarrow> string \<Rightarrow> string \<Rightarrow> string option" where
  "native_config_join_path cap dir name =
     (if cap = 0 \<or> dir = [] \<or> name = [] then None
      else
        let path = dir @ (if last dir = CHR ''/'' then [] else ''/'') @ name in
        if length path < cap then Some path else None)"

definition native_config_copy_path :: "nat \<Rightarrow> string \<Rightarrow> string option" where
  "native_config_copy_path cap src =
     (if cap = 0 \<or> src = [] then None else if length src \<ge> cap then None else Some src)"

definition native_config_parent_dir :: "nat \<Rightarrow> string \<Rightarrow> string option" where
  "native_config_parent_dir cap path =
     (if path = [] \<or> cap = 0 then None
      else if \<not> has_slash path then native_config_copy_path cap ''.''
      else
        let slash = length path - length (after_slash path) - 1;
            len = (if slash = 0 then 1 else slash) in
        if len = 0 \<or> len \<ge> cap then None else Some (take len path))"

text \<open>\<open>mkdir(path, 0700)\<close>: true when the directory was made or something has that name already.\<close>

definition mkdir_0700 :: "Sys \<Rightarrow> string \<Rightarrow> Machine \<Rightarrow> bool \<times> Machine" where
  "mkdir_0700 sys path m =
     (let (go, m) = ask sys (Mkdir path) m;
          disk = mc_disk m in
      if \<not> go then (False, m)
      else if dk_path disk (canonical path) \<noteq> None then (True, m)
      else
        case directory_at disk (walk (canonical path)) of
          None \<Rightarrow> (False, m)
        | Some _ \<Rightarrow>
          (True, set_disk (disk\<lparr>dk_path := (dk_path disk)(canonical path \<mapsto> (False, dk_next disk)),
             dk_dirs := (dk_dirs disk)(dk_next disk \<mapsto>
               \<lparr>dn_is_dir = True, dn_owner = sy_euid sys, dn_mode = MODE_0700, dn_entries = Map.empty,
                dn_unsynced = []\<rparr>),
             dk_next := dk_next disk + 1\<rparr>) m))"

text \<open>Every prefix that ends before a slash, from \<open>tmp + 1\<close> on; then the whole path.\<close>

fun mkdir_prefixes :: "Sys \<Rightarrow> string \<Rightarrow> nat list \<Rightarrow> Machine \<Rightarrow> bool \<times> Machine" where
  "mkdir_prefixes sys tmp [] m = (True, m)"
| "mkdir_prefixes sys tmp (p # ps) m =
     (if tmp ! p \<noteq> CHR ''/'' then mkdir_prefixes sys tmp ps m
      else
        let (ok, m) = mkdir_0700 sys (take p tmp) m in
        if \<not> ok then (False, m) else mkdir_prefixes sys tmp ps m)"

fun strip_slashes :: "nat \<Rightarrow> string \<Rightarrow> nat" where
  "strip_slashes len tmp =
     (if len > 1 \<and> tmp ! (len - 1) = CHR ''/'' then strip_slashes (len - 1) tmp else len)"

declare strip_slashes.simps [simp del]

definition native_config_mkdir_p :: "Sys \<Rightarrow> string \<Rightarrow> Machine \<Rightarrow> bool \<times> Machine" where
  "native_config_mkdir_p sys dir m =
     (if dir = [] then (False, m)
      else if dir = ''.'' \<or> dir = ''/'' then (True, m)
      else
        case native_config_copy_path NATIVE_PERSISTED_CONFIG_PATH_MAX dir of
          None \<Rightarrow> (False, m)
        | Some tmp \<Rightarrow>
          let tmp = take (strip_slashes (length tmp) tmp) tmp;
              (ok, m) = mkdir_prefixes sys tmp [1..<length tmp] m in
          if \<not> ok then (False, m)
          else
            let (ok, m) = mkdir_0700 sys tmp m in
            if \<not> ok then (False, m)
            else
              let (go, m) = ask sys (Stat tmp) m in
              (go \<and> directory_at (mc_disk m) tmp \<noteq> None, m))"

text \<open>The directory a path names itself, not through a symbolic link (\<open>lstat\<close> and \<open>S_ISDIR\<close>).\<close>

definition lstat_directory :: "Sys \<Rightarrow> string \<Rightarrow> Machine \<Rightarrow> (nat \<times> DirNode) option \<times> Machine" where
  "lstat_directory sys dir m =
     (let (go, m) = ask sys (Lstat dir) m in
      (if \<not> go then None
       else
         case dk_path (mc_disk m) (canonical dir) of
           Some (False, d) \<Rightarrow>
             (case dk_dirs (mc_disk m) d of
                None \<Rightarrow> None | Some n \<Rightarrow> if dn_is_dir n then Some (d, n) else None)
         | _ \<Rightarrow> None, m))"

definition native_config_dir_is_secure :: "Sys \<Rightarrow> string \<Rightarrow> Machine \<Rightarrow> bool \<times> Machine" where
  "native_config_dir_is_secure sys dir m =
     (if dir = [] then (False, m)
      else
        let (st, m) = lstat_directory sys dir m in
        (case st of
           None \<Rightarrow> False
         | Some (_, n) \<Rightarrow> dn_owner n = sy_euid sys \<and> \<not> others_may_write (dn_mode n), m))"

definition chmod_0700 :: "nat \<Rightarrow> Disk \<Rightarrow> Disk" where
  "chmod_0700 d disk =
     (case dk_dirs disk d of
        None \<Rightarrow> disk | Some n \<Rightarrow> disk\<lparr>dk_dirs := (dk_dirs disk)(d \<mapsto> n\<lparr>dn_mode := MODE_0700\<rparr>)\<rparr>)"

definition native_config_dir_secure_or_heal :: "Sys \<Rightarrow> string \<Rightarrow> Machine \<Rightarrow> bool \<times> Machine" where
  "native_config_dir_secure_or_heal sys dir m =
     (let (secure, m) = native_config_dir_is_secure sys dir m in
      if secure then (True, m)
      else
        let (st, m) = lstat_directory sys dir m in
        case st of
          None \<Rightarrow> (False, m)
        | Some (d, n) \<Rightarrow>
          if dn_owner n \<noteq> sy_euid sys then (False, m)
          else
            let (go, m) = ask sys (Chmod d) m in
            if \<not> go then (False, m)
            else native_config_dir_is_secure sys dir (set_disk (chmod_0700 d (mc_disk m)) m))"

text \<open>\<open>fopen(path, "wb")\<close>: the file a name leads to is emptied, or a new one is made.\<close>

definition fopen_write :: "Sys \<Rightarrow> string \<Rightarrow> Machine \<Rightarrow> nat option \<times> Machine" where
  "fopen_write sys path m =
     (let (go, m) = ask sys (Fopen path) m;
          disk = mc_disk m;
          name = after_slash path in
      if \<not> go then (None, m)
      else
        case directory_at disk (walk path) of
          None \<Rightarrow> (None, m)
        | Some d \<Rightarrow>
          (case follow disk (entry_at disk d name) of
             Some i \<Rightarrow> (Some i, set_disk (write_data i [] disk) m)
           | None \<Rightarrow>
             (case entry_at disk d name of
                Some (Link d2 name2) \<Rightarrow>
                  if entry_at disk d2 name2 \<noteq> None \<or> dk_dirs disk d2 = None then (None, m)
                  else (Some (dk_next disk),
                    set_disk (add_file d2 name2 (new_file (sy_euid sys) MODE_0644) disk) m)
              | _ \<Rightarrow> (Some (dk_next disk),
                  set_disk (add_file d name (new_file (sy_euid sys) MODE_0644) disk) m))))"

definition remove_path :: "Sys \<Rightarrow> string \<Rightarrow> Machine \<Rightarrow> bool \<times> Machine" where
  "remove_path sys path m =
     (let (go, m) = ask sys (Remove path) m;
          disk = mc_disk m in
      case directory_at disk (walk path) of
        None \<Rightarrow> (False, m)
      | Some d \<Rightarrow>
        if \<not> go \<or> entry_at disk d (after_slash path) = None then (False, m)
        else (True, set_disk (remove_entry d (after_slash path) disk) m))"

definition write_test_name :: "Sys \<Rightarrow> string" where
  "write_test_name sys = take 63 (''.write-test-'' @ dec (sy_pid sys) @ ''.tmp'')"

definition native_config_dir_writable :: "Sys \<Rightarrow> string \<Rightarrow> Machine \<Rightarrow> bool \<times> Machine" where
  "native_config_dir_writable sys dir m =
     (let (ok, m) = native_config_mkdir_p sys dir m in
      if \<not> ok then (False, m)
      else
        let (ok, m) = native_config_dir_secure_or_heal sys dir m in
        if \<not> ok then (False, m)
        else
          case native_config_join_path NATIVE_PERSISTED_CONFIG_PATH_MAX dir (write_test_name sys) of
            None \<Rightarrow> (False, m)
          | Some test_path \<Rightarrow>
            (case fopen_write sys test_path m of
               (None, m) \<Rightarrow> (False, m)
             | (Some i, m) \<Rightarrow>
               let (put, m) = ask sys Fputc m;
                   (closed, m) = ask sys Fclose m;
                   m = set_disk (write_data i (if put \<and> closed then [CHR 0x0A] else []) (mc_disk m)) m;
                   (removed, m) = remove_path sys test_path m in
               (put \<and> closed \<and> removed, m)))"

section \<open>The candidates\<close>

text \<open>\<open>NativeConfigPathCandidates\<close>: the paths with their \<open>from_env\<close> flags, in priority order.\<close>

type_synonym NativeConfigPathCandidates = "(string \<times> bool) list"

definition native_config_add_candidate_path ::
    "NativeConfigPathCandidates \<Rightarrow> string option \<Rightarrow> bool \<Rightarrow> bool \<times> NativeConfigPathCandidates" where
  "native_config_add_candidate_path candidates path from_env =
     (case path of
        None \<Rightarrow> (False, candidates)
      | Some path \<Rightarrow>
        if path = [] then (False, candidates)
        else if path \<in> set (map fst candidates) then (True, candidates)
        else if length candidates \<ge> NATIVE_PERSISTED_CONFIG_MAX_CANDIDATES then (False, candidates)
        else
          case native_config_copy_path NATIVE_PERSISTED_CONFIG_PATH_MAX path of
            None \<Rightarrow> (False, candidates)
          | Some copy \<Rightarrow> (True, candidates @ [(copy, from_env)]))"

definition native_config_add_candidate_dir ::
    "NativeConfigPathCandidates \<Rightarrow> string option \<Rightarrow> bool \<Rightarrow> bool \<times> NativeConfigPathCandidates" where
  "native_config_add_candidate_dir candidates dir from_env =
     (case dir of
        None \<Rightarrow> (False, candidates)
      | Some dir \<Rightarrow>
        if dir = [] then (False, candidates)
        else
          case native_config_join_path NATIVE_PERSISTED_CONFIG_PATH_MAX dir NATIVE_PERSISTED_CONFIG_FILENAME of
            None \<Rightarrow> (False, candidates)
          | Some path \<Rightarrow> native_config_add_candidate_path candidates (Some path) from_env)"

text \<open>A format with one \<open>%s\<close> is the text before it.\<close>

definition native_config_add_candidate_app_dir ::
    "NativeConfigPathCandidates \<Rightarrow> string \<Rightarrow> string \<Rightarrow> bool \<times> NativeConfigPathCandidates" where
  "native_config_add_candidate_app_dir candidates fmt appid =
     (if fmt @ appid = [] \<or> length (fmt @ appid) \<ge> NATIVE_PERSISTED_CONFIG_PATH_MAX then (False, candidates)
      else native_config_add_candidate_dir candidates (Some (fmt @ appid)) False)"

definition native_config_persisted_path_writable :: "Sys \<Rightarrow> string \<Rightarrow> Machine \<Rightarrow> bool \<times> Machine" where
  "native_config_persisted_path_writable sys path m =
     (case native_config_parent_dir NATIVE_PERSISTED_CONFIG_PATH_MAX path of
        None \<Rightarrow> (False, m)
      | Some dir \<Rightarrow> native_config_dir_writable sys dir m)"

fun save_candidate_loop :: "Sys \<Rightarrow> NativeConfigPathCandidates \<Rightarrow> nat \<Rightarrow> Machine \<Rightarrow> nat option \<times> Machine" where
  "save_candidate_loop sys [] i m = (None, m)"
| "save_candidate_loop sys ((path, from_env) # rest) i m =
     (let (ok, m) = native_config_persisted_path_writable sys path m in
      if \<not> ok then save_candidate_loop sys rest (i + 1) m else (Some i, m))"

definition native_config_find_persisted_save_candidate ::
    "Sys \<Rightarrow> NativeConfigPathCandidates \<Rightarrow> Machine \<Rightarrow> nat option \<times> Machine" where
  "native_config_find_persisted_save_candidate sys candidates m = save_candidate_loop sys candidates 0 m"

text \<open>What \<open>getenv\<close> and \<open>SDL_GetPrefPath\<close> answer.\<close>

record ConfigEnv =
  ce_settings_path :: "string option"
  ce_settings_dir :: "string option"
  ce_pref_path :: "string option"
  ce_appid :: "string option"
  ce_home :: "string option"
  ce_ignore_saved :: "string option"

definition native_config_app_id :: string where
  "native_config_app_id = ''com.truebest.lgnome.native''"

definition chosen_appid :: "ConfigEnv \<Rightarrow> string" where
  "chosen_appid env =
     (case ce_appid env of None \<Rightarrow> native_config_app_id | Some a \<Rightarrow> if a = [] then native_config_app_id else a)"

definition inapp_candidate :: "Sys \<Rightarrow> ConfigEnv \<Rightarrow> NativeConfigPathCandidates \<Rightarrow> NativeConfigPathCandidates" where
  "inapp_candidate sys env c =
     (case ce_home env of
        None \<Rightarrow> c
      | Some home \<Rightarrow>
        if home = [] \<or> home = ''/'' then c
        else
          let inapp_dir = home @ ''/settings/'' @ dec (sy_euid sys) in
          if length inapp_dir < NATIVE_PERSISTED_CONFIG_PATH_MAX
          then snd (native_config_add_candidate_dir c (Some inapp_dir) False) else c)"

text \<open>\<open>snprintf\<close> of \<open><root><appid>-<euid>\<close> and, when it fits, its candidate.\<close>

definition user_dir_candidate ::
    "Sys \<Rightarrow> string \<Rightarrow> string \<Rightarrow> NativeConfigPathCandidates \<Rightarrow> NativeConfigPathCandidates" where
  "user_dir_candidate sys root appid c =
     (let dir = root @ appid @ ''-'' @ dec (sy_euid sys) in
      if length dir < NATIVE_PERSISTED_CONFIG_PATH_MAX
      then snd (native_config_add_candidate_dir c (Some dir) False) else c)"

definition native_config_collect_persisted_candidates :: "Sys \<Rightarrow> ConfigEnv \<Rightarrow> NativeConfigPathCandidates" where
  "native_config_collect_persisted_candidates sys env =
     (let c = [];
          c = snd (native_config_add_candidate_path c (ce_settings_path env) True);
          c = snd (native_config_add_candidate_dir c (ce_settings_dir env) True);
          c = (case ce_pref_path env of
                 None \<Rightarrow> c | Some pref \<Rightarrow> snd (native_config_add_candidate_dir c (Some pref) False));
          appid = chosen_appid env;
          c = inapp_candidate sys env c;
          c = snd (native_config_add_candidate_app_dir c ''/var/luna/preferences/'' appid);
          c = snd (native_config_add_candidate_app_dir c ''/media/developer/apps/usr/palm/data/'' appid);
          c = snd (native_config_add_candidate_app_dir c ''/media/cryptofs/apps/usr/palm/data/'' appid);
          c = snd (native_config_add_candidate_app_dir c ''/media/internal/'' appid);
          c = user_dir_candidate sys ''/media/developer/temp/'' appid c;
          c = snd (native_config_add_candidate_app_dir c ''/var/run/'' appid) in
      user_dir_candidate sys ''/tmp/'' appid c)"

section \<open>Reading (\<open>native_config_storage.c\<close>)\<close>

text \<open>Missing, unreadable, or the whole text.\<close>

datatype FileRead = ReadMissing | ReadFailed | ReadText string

text \<open>
  \<open>open\<close> with its flags: a private file is not reached through a symbolic link.  A call that is refused
  fails with an \<open>errno\<close> other than ENOENT and ENOTDIR.
\<close>

definition open_read :: "Sys \<Rightarrow> string \<Rightarrow> bool \<Rightarrow> Machine \<Rightarrow> (nat \<times> FileNode) option option \<times> Machine" where
  "open_read sys path private_file m =
     (let (go, m) = ask sys (Open path) m;
          disk = mc_disk m in
      (if \<not> go then Some None
       else
         case directory_at disk (walk path) of
           None \<Rightarrow> None
         | Some d \<Rightarrow>
           (case entry_at disk d (after_slash path) of
              Some (Link d2 name2) \<Rightarrow>
                if private_file then Some None
                else (case follow disk (Some (Link d2 name2)) of
                        None \<Rightarrow> None
                      | Some i \<Rightarrow> map_option (\<lambda>f. Some (i, f)) (dk_files disk i))
            | Some (File i) \<Rightarrow> map_option (\<lambda>f. Some (i, f)) (dk_files disk i)
            | None \<Rightarrow> None), m))"

definition private_file_ok :: "Sys \<Rightarrow> FileNode \<Rightarrow> bool" where
  "private_file_ok sys f \<longleftrightarrow> fl_regular f \<and> fl_owner f = sy_euid sys \<and> \<not> others_may_write (fl_mode f)"

text \<open>The calls of the reader in their order, up to the first that fails.\<close>

fun ask_all :: "Sys \<Rightarrow> Call list \<Rightarrow> Machine \<Rightarrow> bool \<times> Machine" where
  "ask_all sys [] m = (True, m)"
| "ask_all sys (c # cs) m =
     (let (go, m) = ask sys c m in if \<not> go then (False, m) else ask_all sys cs m)"

definition native_config_read_file :: "Sys \<Rightarrow> string \<Rightarrow> bool \<Rightarrow> Machine \<Rightarrow> FileRead \<times> Machine" where
  "native_config_read_file sys path private_file m =
     (case open_read sys path private_file m of
        (None, m) \<Rightarrow> (ReadMissing, m)
      | (Some None, m) \<Rightarrow> (ReadFailed, m)
      | (Some (Some (i, f)), m) \<Rightarrow>
        let (ok, m) = (if private_file
                       then (let (go, m) = ask sys Fstat m in (go \<and> private_file_ok sys f, m))
                       else (True, m)) in
        if \<not> ok then (ReadFailed, m)
        else
          let (ok, m) = ask_all sys [Fdopen, Fseek, Ftell] m in
          if \<not> ok \<or> length (fl_data f) > NATIVE_CONFIG_MAX_FILE then (ReadFailed, m)
          else
            let (ok, m) = ask_all sys [Calloc, Fread] m in
            if \<not> ok \<or> CHR 0x00 \<in> set (fl_data f) then (ReadFailed, m)
            else (ReadText (fl_data f), m))"

text \<open>Whether the copy of the \<open>k\<close>-th session object can be allocated.\<close>

definition objects :: "Sys \<Rightarrow> Machine \<Rightarrow> nat \<Rightarrow> bool" where
  "objects sys m k \<longleftrightarrow> \<not> sy_refuses sys (mc_calls m) (CallocObject k)"

definition native_config_load_file :: "Sys \<Rightarrow> NativeSettings \<Rightarrow> string \<Rightarrow> bool \<Rightarrow> Machine \<Rightarrow>
    bool \<times> NativeSettings \<times> Machine" where
  "native_config_load_file sys settings path required m =
     (case native_config_read_file sys path False m of
        (ReadFailed, m) \<Rightarrow> (False, settings, m)
      | (ReadMissing, m) \<Rightarrow> (\<not> required, settings, m)
      | (ReadText json, m) \<Rightarrow>
        let (ok, settings) = native_settings_apply_json (objects sys m) settings json in
        (ok, settings, m))"

datatype NativeConfigLoadOutcome =
  NATIVE_CONFIG_LOAD_MISSING | NATIVE_CONFIG_LOAD_INVALID | NATIVE_CONFIG_LOAD_OK

definition native_config_try_load_candidate :: "Sys \<Rightarrow> NativeSettings \<Rightarrow> string \<Rightarrow> bool \<Rightarrow> Machine \<Rightarrow>
    NativeConfigLoadOutcome \<times> NativeSettings \<times> Machine" where
  "native_config_try_load_candidate sys settings path private_file m =
     (case native_config_read_file sys path private_file m of
        (ReadFailed, m) \<Rightarrow> (NATIVE_CONFIG_LOAD_INVALID, settings, m)
      | (ReadMissing, m) \<Rightarrow> (NATIVE_CONFIG_LOAD_MISSING, settings, m)
      | (ReadText json, m) \<Rightarrow>
        let (ok, settings) = native_settings_apply_json (objects sys m) settings json in
        (if ok then NATIVE_CONFIG_LOAD_OK else NATIVE_CONFIG_LOAD_INVALID, settings, m))"

text \<open>The trust a candidate needs before it is read: an explicit path of the user needs none.\<close>

definition candidate_trusted :: "Sys \<Rightarrow> string \<Rightarrow> bool \<Rightarrow> Machine \<Rightarrow> bool \<times> Machine" where
  "candidate_trusted sys path from_env m =
     (if from_env then (True, m)
      else
        case native_config_parent_dir NATIVE_PERSISTED_CONFIG_PATH_MAX path of
          None \<Rightarrow> (False, m)
        | Some dir \<Rightarrow> native_config_dir_secure_or_heal sys dir m)"

fun load_loop :: "Sys \<Rightarrow> NativeConfigPathCandidates \<Rightarrow> NativeSettings \<Rightarrow> Machine \<Rightarrow> NativeSettings \<times> Machine" where
  "load_loop sys [] settings m = (settings, m)"
| "load_loop sys ((path, from_env) # rest) settings m =
     (let (trusted, m) = candidate_trusted sys path from_env m in
      if \<not> trusted then load_loop sys rest settings m
      else
        case native_config_try_load_candidate sys settings path (\<not> from_env) m of
          (NATIVE_CONFIG_LOAD_OK, settings, m) \<Rightarrow> (settings, m)
        | (_, settings, m) \<Rightarrow> load_loop sys rest settings m)"

text \<open>The C function answers true on every path.\<close>

definition native_config_load_persisted :: "Sys \<Rightarrow> ConfigEnv \<Rightarrow> NativeSettings \<Rightarrow> bool \<Rightarrow> Machine \<Rightarrow>
    NativeSettings \<times> Machine" where
  "native_config_load_persisted sys env settings force_ignore m =
     (if force_ignore \<or> ce_ignore_saved env = Some ''1'' then (settings, m)
      else load_loop sys (native_config_collect_persisted_candidates sys env) settings m)"

section \<open>Writing (\<open>native_config_storage.c\<close>)\<close>

definition open_directory :: "Sys \<Rightarrow> string \<Rightarrow> Machine \<Rightarrow> nat option \<times> Machine" where
  "open_directory sys dir m =
     (let (go, m) = ask sys (OpenDirectory dir) m in
      (if \<not> go then None
       else
         case dk_path (mc_disk m) (canonical dir) of
           Some (False, _) \<Rightarrow> directory_at (mc_disk m) dir
         | _ \<Rightarrow> None, m))"

definition private_directory :: "Sys \<Rightarrow> nat \<Rightarrow> Machine \<Rightarrow> bool \<times> Machine" where
  "private_directory sys d m =
     (let (go, m) = ask sys (FstatDir d) m in
      (go \<and> (case dk_dirs (mc_disk m) d of
               None \<Rightarrow> False
             | Some n \<Rightarrow> dn_owner n = sy_euid sys \<and> \<not> others_may_write (dn_mode n)), m))"

definition unlinkat :: "Sys \<Rightarrow> nat \<Rightarrow> string \<Rightarrow> Machine \<Rightarrow> Machine" where
  "unlinkat sys d name m =
     (let (go, m) = ask sys (Unlinkat d name) m in
      if \<not> go \<or> entry_at (mc_disk m) d name = None then m
      else set_disk (remove_entry d name (mc_disk m)) m)"

text \<open>\<open>openat\<close> with O_CREAT, O_EXCL and O_NOFOLLOW, mode 0600.\<close>

definition create_exclusive :: "Sys \<Rightarrow> nat \<Rightarrow> string \<Rightarrow> Machine \<Rightarrow> nat option \<times> Machine" where
  "create_exclusive sys d name m =
     (let (go, m) = ask sys (OpenAt d name) m;
          disk = mc_disk m in
      if \<not> go \<or> entry_at disk d name \<noteq> None then (None, m)
      else (Some (dk_next disk), set_disk (add_file d name (new_file (sy_euid sys) MODE_0600) disk) m))"

text \<open>
  Writing \<open>text\<close> through a stdio buffer.  The buffer may reach the file at any time; until \<open>fflush\<close> the
  model lets some prefix of the text be there, and after a failed write or flush too.
\<close>

definition write_stream :: "Sys \<Rightarrow> nat \<Rightarrow> string \<Rightarrow> Machine \<Rightarrow> bool \<times> Machine" where
  "write_stream sys i text m =
     (let (go, m) = ask sys Write m in
      (go, set_disk (write_data i (take (sy_partial sys (mc_calls m)) text) (mc_disk m)) m))"

definition flush_stream :: "Sys \<Rightarrow> nat \<Rightarrow> string \<Rightarrow> Machine \<Rightarrow> bool \<times> Machine" where
  "flush_stream sys i text m =
     (let (go, m) = ask sys Fflush m in
      (go, set_disk (write_data i (if go then text else take (sy_partial sys (mc_calls m)) text) (mc_disk m)) m))"

definition sync_file :: "Sys \<Rightarrow> nat \<Rightarrow> Machine \<Rightarrow> bool \<times> Machine" where
  "sync_file sys i m =
     (let (go, m) = ask sys Fsync m in
      (go, if go then set_disk (sync_data i (mc_disk m)) m else m))"

text \<open>
  After a flush that succeeded there is nothing left for \<open>fclose\<close> to write; without one it writes what
  it can.
\<close>

definition close_stream :: "Sys \<Rightarrow> nat \<Rightarrow> bool \<Rightarrow> string \<Rightarrow> Machine \<Rightarrow> bool \<times> Machine" where
  "close_stream sys i flushed text m =
     (let (go, m) = ask sys Fclose m in
      (go, if flushed then m
           else set_disk (write_data i (if go then text else take (sy_partial sys (mc_calls m)) text) (mc_disk m)) m))"

definition renameat :: "Sys \<Rightarrow> nat \<Rightarrow> string \<Rightarrow> string \<Rightarrow> Machine \<Rightarrow> bool \<times> Machine" where
  "renameat sys d from target m =
     (let (go, m) = ask sys (Renameat d target) m in
      if \<not> go \<or> entry_at (mc_disk m) d from = None then (False, m)
      else (True, set_disk (move_entry d from target (mc_disk m)) m))"

definition sync_directory :: "Sys \<Rightarrow> nat \<Rightarrow> Machine \<Rightarrow> bool \<times> Machine" where
  "sync_directory sys d m =
     (let (go, m) = ask sys (FsyncDir d) m in
      (go, if go then set_disk (sync_entries d (mc_disk m)) m else m))"

text \<open>\<open>a && b\<close>: the second call is made only when the first verdict is true.\<close>

definition and_then :: "bool \<Rightarrow> (Machine \<Rightarrow> bool \<times> Machine) \<Rightarrow> Machine \<Rightarrow> bool \<times> Machine" where
  "and_then ok call m = (if ok then call m else (False, m))"

text \<open>From the open stream of the temporary file to its new name.\<close>

definition save_stream :: "Sys \<Rightarrow> string \<Rightarrow> nat \<Rightarrow> nat \<Rightarrow> string \<Rightarrow> string \<Rightarrow> Machine \<Rightarrow> bool \<times> Machine" where
  "save_stream sys text d i temporary name m =
     (let (ok, m) = write_stream sys i text m;
          (told, m) = ask sys Ftell m;
          ok = (ok \<and> told \<and> length text \<le> NATIVE_CONFIG_MAX_FILE);
          (flushed, m) = and_then ok (flush_stream sys i text) m;
          (ok, m) = and_then flushed (sync_file sys i) m;
          (closed, m) = close_stream sys i flushed text m;
          (ok, m) = and_then (ok \<and> closed) (renameat sys d temporary name) m;
          (ok, m) = and_then ok (sync_directory sys d) m in
      (ok, if ok then m else unlinkat sys d temporary m))"

definition native_settings_save_file_checked :: "Sys \<Rightarrow> NativeSettings \<Rightarrow> string \<Rightarrow> bool \<Rightarrow> Machine \<Rightarrow> bool \<times> Machine" where
  "native_settings_save_file_checked sys settings path private_dir m =
     (case native_config_parent_dir NATIVE_PERSISTED_CONFIG_PATH_MAX path of
        None \<Rightarrow> (False, m)
      | Some dir \<Rightarrow>
        let name = after_slash path;
            temporary = name @ ''.tmp'' in
        if length temporary \<ge> NATIVE_PERSISTED_CONFIG_PATH_MAX \<or> name = [] then (False, m)
        else
          case open_directory sys dir m of
            (None, m) \<Rightarrow> (False, m)
          | (Some d, m) \<Rightarrow>
            let (private, m) = (if private_dir then private_directory sys d m else (True, m)) in
            if \<not> private then (False, m)
            else
              let m = unlinkat sys d temporary m in
              case create_exclusive sys d temporary m of
                (None, m) \<Rightarrow> (False, m)
              | (Some i, m) \<Rightarrow>
                let (stream, m) = ask sys Fdopen m in
                if \<not> stream then (False, unlinkat sys d temporary m)
                else save_stream sys (native_settings_write_json settings) d i temporary name m)"

definition native_settings_save_file :: "Sys \<Rightarrow> NativeSettings \<Rightarrow> string \<Rightarrow> Machine \<Rightarrow> bool \<times> Machine" where
  "native_settings_save_file sys settings path m = native_settings_save_file_checked sys settings path False m"

text \<open>
  Whether a candidate before the chosen one holds settings a later launch would load instead: the
  index of the first candidate that loads, up to and including \<open>save_index\<close>'s turn.
\<close>

fun first_loadable :: "Sys \<Rightarrow> NativeSettings \<Rightarrow> NativeConfigPathCandidates \<Rightarrow> nat \<Rightarrow> Machine \<Rightarrow> nat option \<times> Machine" where
  "first_loadable sys settings [] i m = (None, m)"
| "first_loadable sys settings ((path, from_env) # rest) i m =
     (let (trusted, m) = candidate_trusted sys path from_env m in
      if \<not> trusted then first_loadable sys settings rest (i + 1) m
      else
        case native_config_try_load_candidate sys settings path (\<not> from_env) m of
          (NATIVE_CONFIG_LOAD_OK, _, m) \<Rightarrow> (Some i, m)
        | (_, _, m) \<Rightarrow> first_loadable sys settings rest (i + 1) m)"

definition native_config_save_persisted :: "Sys \<Rightarrow> ConfigEnv \<Rightarrow> NativeSettings \<Rightarrow> Machine \<Rightarrow> bool \<times> Machine" where
  "native_config_save_persisted sys env settings m =
     (let candidates = native_config_collect_persisted_candidates sys env in
      case native_config_find_persisted_save_candidate sys candidates m of
        (None, m) \<Rightarrow> (False, m)
      | (Some save_index, m) \<Rightarrow>
        let (loadable, m) = first_loadable sys settings candidates 0 m in
        if (case loadable of None \<Rightarrow> False | Some i \<Rightarrow> save_index > i) then (False, m)
        else native_settings_save_file_checked sys settings (fst (candidates ! save_index)) True m)"

end
