(* ===== verification/Config_Safety.thy ===== *)
theory Config_Safety
  imports Config_Storage
begin

text \<open>
  What the settings file can hold.  A power loss at any point of a save leaves the old document or
  the new one, never a mixture and never nothing; after a confirmed save it is the new one.
\<close>

section \<open>What a power loss may leave\<close>

text \<open>
  The entries \<open>name\<close> of a directory may come back with, and what the file such an entry leads to may
  then hold: anything when its data was not synchronised.  Links are not followed here.
\<close>

definition versions :: "Disk \<Rightarrow> nat \<Rightarrow> string \<Rightarrow> Entry option list" where
  "versions disk d name =
     (case dk_dirs disk d of
        None \<Rightarrow> [] | Some n \<Rightarrow> map (\<lambda>t. t name) (dn_entries n # dn_unsynced n))"

definition content_survives :: "Disk \<Rightarrow> Entry option \<Rightarrow> string option \<Rightarrow> bool" where
  "content_survives disk e c =
     (case e of
        None \<Rightarrow> c = None
      | Some (File i) \<Rightarrow>
        (case dk_files disk i of None \<Rightarrow> c = None | Some f \<Rightarrow> fl_synced f \<longrightarrow> c = Some (fl_data f))
      | Some (Link _ _) \<Rightarrow> True)"

definition may_survive :: "Disk \<Rightarrow> nat \<Rightarrow> string \<Rightarrow> string option \<Rightarrow> bool" where
  "may_survive disk d name c \<longleftrightarrow> list_ex (\<lambda>e. content_survives disk e c) (versions disk d name)"

text \<open>File numbers from \<open>dk_next\<close> on are free.\<close>

definition disk_wf :: "Disk \<Rightarrow> bool" where
  "disk_wf disk \<longleftrightarrow>
     (\<forall>d n. dk_dirs disk d = Some n \<longrightarrow>
        (\<forall>t \<in> set (dn_entries n # dn_unsynced n). \<forall>name i. t name = Some (File i) \<longrightarrow> i < dk_next disk))"

section \<open>The steps of a save\<close>

text \<open>Before the rename: the name has no entry it did not have at the start, and no old file changed.\<close>

definition calm :: "nat \<Rightarrow> string \<Rightarrow> Disk \<Rightarrow> Disk \<Rightarrow> bool" where
  "calm d name start disk \<longleftrightarrow> set (versions disk d name) \<subseteq> set (versions start d name) \<and>
     (\<forall>i < dk_next start. dk_files disk i = dk_files start i)"

text \<open>From the rename on: it may also lead to the new file, complete and synchronised.\<close>

definition replaced :: "nat \<Rightarrow> string \<Rightarrow> nat \<Rightarrow> string \<Rightarrow> Disk \<Rightarrow> Disk \<Rightarrow> bool" where
  "replaced d name i text start disk \<longleftrightarrow>
     (\<forall>e \<in> set (versions disk d name). e \<in> set (versions start d name) \<or>
        e = Some (File i) \<and> (\<exists>f. dk_files disk i = Some f \<and> fl_synced f \<and> fl_data f = text)) \<and>
     (\<forall>i < dk_next start. dk_files disk i = dk_files start i)"

lemma calm_replaced: "calm d name start disk \<Longrightarrow> replaced d name i text start disk"
  by (auto simp: calm_def replaced_def)

lemma calm_refl: "calm d name disk disk"
  by (simp add: calm_def)

lemma replaced_content:
  assumes "replaced d name i text start disk" "disk_wf start" "may_survive disk d name c"
  shows "may_survive start d name c \<or> c = Some text"
proof -
  from assms(3) obtain e where e: "e \<in> set (versions disk d name)" "content_survives disk e c"
    by (auto simp: may_survive_def list_ex_iff)
  from assms(1) e(1) consider "e \<in> set (versions start d name)"
    | "e = Some (File i)" "\<exists>f. dk_files disk i = Some f \<and> fl_synced f \<and> fl_data f = text"
    unfolding replaced_def by blast
  then show ?thesis
  proof cases
    case 1
    have "content_survives start e c"
    proof (cases e)
      case (Some x)
      show ?thesis
      proof (cases x)
        case (File j)
        then have "Some (File j) \<in> set (versions start d name)" using 1 Some by simp
        then have "j < dk_next start"
          using assms(2) by (force simp: versions_def disk_wf_def split: option.splits)
        then have "dk_files disk j = dk_files start j" using assms(1) by (simp add: replaced_def)
        then show ?thesis using e(2) Some File by (simp add: content_survives_def)
      qed (use Some in \<open>simp add: content_survives_def\<close>)
    qed (use e(2) in \<open>simp add: content_survives_def\<close>)
    with 1 show ?thesis by (auto simp: may_survive_def list_ex_iff)
  next
    case 2
    then show ?thesis using e(2) by (auto simp: content_survives_def)
  qed
qed

lemma dirs_file [simp]: "dk_dirs (set_file i f disk) = dk_dirs disk" "dk_dirs (write_data i t disk) = dk_dirs disk"
  "dk_dirs (sync_data i disk) = dk_dirs disk" "dk_next (write_data i t disk) = dk_next disk"
  "dk_next (sync_data i disk) = dk_next disk"
  by (simp_all add: set_file_def write_data_def sync_data_def split: option.splits)

lemma versions_file [simp]: "versions (write_data i t disk) d name = versions disk d name"
  "versions (sync_data i disk) d name = versions disk d name"
  by (simp_all add: versions_def)

lemma entry_file [simp]: "entry_at (write_data i t disk) d name = entry_at disk d name"
  "entry_at (sync_data i disk) d name = entry_at disk d name"
  by (simp_all add: entry_at_def)

lemma files_entries [simp]: "dk_files (set_entries d t disk) = dk_files disk" "dk_next (set_entries d t disk) = dk_next disk"
  "dk_files (remove_entry d a disk) = dk_files disk" "dk_next (remove_entry d a disk) = dk_next disk"
  "dk_files (move_entry d a b disk) = dk_files disk" "dk_next (move_entry d a b disk) = dk_next disk"
  "dk_files (sync_entries d disk) = dk_files disk" "dk_next (sync_entries d disk) = dk_next disk"
  by (simp_all add: set_entries_def remove_entry_def move_entry_def sync_entries_def split: option.splits)

lemma files_data [simp]: "j \<noteq> i \<Longrightarrow> dk_files (write_data i t disk) j = dk_files disk j"
  "j \<noteq> i \<Longrightarrow> dk_files (sync_data i disk) j = dk_files disk j"
  by (simp_all add: write_data_def sync_data_def set_file_def split: option.splits)

lemma files_same:
  "dk_files (write_data i t disk) i = map_option (\<lambda>f. f\<lparr>fl_data := t, fl_synced := False\<rparr>) (dk_files disk i)"
  "dk_files (sync_data i disk) i = map_option (\<lambda>f. f\<lparr>fl_synced := True\<rparr>) (dk_files disk i)"
  by (simp_all add: write_data_def sync_data_def set_file_def split: option.splits)

lemma versions_remove: "name \<noteq> a \<Longrightarrow> set (versions (remove_entry d a disk) d name) = set (versions disk d name)"
  by (auto simp: versions_def remove_entry_def set_entries_def split: option.splits)

lemma versions_move:
  "a \<noteq> name \<Longrightarrow> set (versions (move_entry d a name disk) d name) \<subseteq> insert (entry_at disk d a) (set (versions disk d name))"
  by (auto simp: versions_def move_entry_def set_entries_def entry_at_def split: option.splits)

lemma versions_sync: "set (versions (sync_entries d disk) d name) \<subseteq> set (versions disk d name)"
  by (auto simp: versions_def sync_entries_def split: option.splits)

lemma calm_data: "calm d name start disk \<Longrightarrow> dk_next start \<le> i \<Longrightarrow> calm d name start (write_data i t disk) \<and> calm d name start (sync_data i disk)"
  by (auto simp: calm_def)

lemma calm_remove: "calm d name start disk \<Longrightarrow> name \<noteq> a \<Longrightarrow> calm d name start (remove_entry d a disk)"
  by (simp add: calm_def versions_remove)

lemma calm_add:
  assumes "calm d name start disk" "name \<noteq> a" "dk_next start \<le> dk_next disk"
  shows "calm d name start (add_file d a f disk)"
proof -
  have "set (versions (add_file d a f disk) d name) = set (versions disk d name)"
    using assms(2) by (auto simp: versions_def add_file_def set_entries_def split: option.splits)
  then show ?thesis using assms(1,3) by (simp add: calm_def add_file_def)
qed

lemma replaced_remove: "replaced d name i text start disk \<Longrightarrow> name \<noteq> a \<Longrightarrow> replaced d name i text start (remove_entry d a disk)"
  by (simp add: replaced_def versions_remove)

lemma replaced_sync: "replaced d name i text start disk \<Longrightarrow> replaced d name i text start (sync_entries d disk)"
  using versions_sync [of d disk name] by (auto simp: replaced_def)

lemma replaced_move:
  assumes "calm d name start disk" "a \<noteq> name" "entry_at disk d a = Some (File i)"
    "dk_files disk i = Some f" "fl_synced f" "fl_data f = text"
  shows "replaced d name i text start (move_entry d a name disk)"
  using assms versions_move [OF assms(2), of d disk] by (auto simp: replaced_def calm_def)

section \<open>Every disk of a run\<close>

text \<open>The disks since the machine's past was \<open>past\<close>.\<close>

definition all_disks :: "Disk list \<Rightarrow> (Disk \<Rightarrow> bool) \<Rightarrow> Machine \<Rightarrow> bool" where
  "all_disks past P m \<longleftrightarrow> P (mc_disk m) \<and> (\<exists>new. mc_past m = new @ past \<and> (\<forall>disk \<in> set new. P disk))"

lemma all_disks_set [simp]: "all_disks past P m \<Longrightarrow> P disk \<Longrightarrow> all_disks past P (set_disk disk m)"
  by (auto simp: all_disks_def set_disk_def)

lemma disk_set [simp]: "mc_disk (set_disk disk m) = disk"
  by (simp add: set_disk_def)

lemma all_disks_mono: "all_disks past P m \<Longrightarrow> (\<And>disk. P disk \<Longrightarrow> Q disk) \<Longrightarrow> all_disks past Q m"
  by (auto simp: all_disks_def)

lemma ask_disk: "ask sys c m = (go, m') \<Longrightarrow> mc_disk m' = mc_disk m \<and> (all_disks past P m' \<longleftrightarrow> all_disks past P m)"
  by (auto simp: ask_def all_disks_def)

section \<open>The stream of the temporary file\<close>

text \<open>The temporary name leads to the new file, which holds \<open>Q\<close>.\<close>

definition stage :: "Disk list \<Rightarrow> nat \<Rightarrow> string \<Rightarrow> string \<Rightarrow> nat \<Rightarrow> Disk \<Rightarrow> (FileNode \<Rightarrow> bool) \<Rightarrow> Machine \<Rightarrow> bool" where
  "stage past d name temporary i start Q m \<longleftrightarrow> all_disks past (calm d name start) m \<and>
     entry_at (mc_disk m) d temporary = Some (File i) \<and>
     (\<exists>f. dk_files (mc_disk m) i = Some f \<and> Q f) \<and> dk_next start \<le> i"

lemma stage_ask: "ask sys c m = (go, m') \<Longrightarrow> stage past d name tmp i start Q m' = stage past d name tmp i start Q m"
  using ask_disk [of sys c m go m' past "calm d name start"] by (simp add: stage_def)

lemma stage_mono: "stage past d name tmp i start Q m \<Longrightarrow> (\<And>f. Q f \<Longrightarrow> R f) \<Longrightarrow> stage past d name tmp i start R m"
  by (auto simp: stage_def)

lemma stage_data:
  "stage past d name tmp i start Q m \<Longrightarrow>
   stage past d name tmp i start (\<lambda>f. fl_data f = t \<and> \<not> fl_synced f) (set_disk (write_data i t (mc_disk m)) m)"
  by (auto simp: stage_def all_disks_def set_disk_def calm_data files_same)

lemma stage_sync:
  "stage past d name tmp i start (\<lambda>f. fl_data f = t) m \<Longrightarrow>
   stage past d name tmp i start (\<lambda>f. fl_data f = t \<and> fl_synced f) (set_disk (sync_data i (mc_disk m)) m)"
  by (auto simp: stage_def all_disks_def set_disk_def calm_data files_same)

lemma write_stage:
  assumes "write_stream sys i text m = (go, m')" "stage past d name tmp i start Q m"
  shows "stage past d name tmp i start (\<lambda>_. True) m'"
proof -
  obtain g m1 where a: "ask sys Write m = (g, m1)" by fastforce
  from assms(1) have "m' = set_disk (write_data i (take (sy_partial sys (mc_calls m1)) text) (mc_disk m1)) m1"
    by (simp add: write_stream_def a)
  moreover have "stage past d name tmp i start Q m1" using stage_ask [OF a] assms(2) by blast
  ultimately show ?thesis by (auto intro: stage_mono [OF stage_data])
qed

lemma flush_stage:
  assumes "flush_stream sys i text m = (go, m')" "stage past d name tmp i start Q m"
  shows "stage past d name tmp i start (\<lambda>f. go \<longrightarrow> fl_data f = text) m'"
proof -
  obtain g m1 where a: "ask sys Fflush m = (g, m1)" by fastforce
  from assms(1) have e: "g = go"
    "m' = set_disk (write_data i (if go then text else take (sy_partial sys (mc_calls m1)) text) (mc_disk m1)) m1"
    by (auto simp: flush_stream_def a)
  have "stage past d name tmp i start Q m1" using stage_ask [OF a] assms(2) by blast
  from stage_data [OF this] show ?thesis unfolding e(2) by (rule stage_mono) simp
qed

lemma sync_stage:
  assumes "sync_file sys i m = (go, m')" "stage past d name tmp i start (\<lambda>f. fl_data f = text) m"
  shows "stage past d name tmp i start (\<lambda>f. fl_data f = text \<and> (go \<longrightarrow> fl_synced f)) m'"
proof -
  obtain g m1 where a: "ask sys Fsync m = (g, m1)" by fastforce
  from assms(1) have e: "g = go" "m' = (if go then set_disk (sync_data i (mc_disk m1)) m1 else m1)"
    by (auto simp: sync_file_def a)
  have s: "stage past d name tmp i start (\<lambda>f. fl_data f = text) m1" using stage_ask [OF a] assms(2) by blast
  show ?thesis
  proof (cases go)
    case True
    from stage_sync [OF s] show ?thesis unfolding e(2) using True by (auto elim: stage_mono)
  next
    case False
    then show ?thesis unfolding e(2) using s by (auto elim: stage_mono)
  qed
qed

lemma close_stage:
  assumes "close_stream sys i flushed text m = (go, m')" "stage past d name tmp i start Q m"
  shows "stage past d name tmp i start (\<lambda>f. flushed \<longrightarrow> Q f) m'"
proof -
  obtain g m1 where a: "ask sys Fclose m = (g, m1)" by fastforce
  from assms(1) have e: "g = go" "m' = (if flushed then m1 else
      set_disk (write_data i (if go then text else take (sy_partial sys (mc_calls m1)) text) (mc_disk m1)) m1)"
    by (auto simp: close_stream_def a)
  have s: "stage past d name tmp i start Q m1" using stage_ask [OF a] assms(2) by blast
  show ?thesis
    unfolding e(2) using s by (auto elim: stage_mono intro: stage_mono [OF stage_data])
qed

lemma unlink_replaced:
  assumes "all_disks past (replaced d name i text start) m" "name \<noteq> a"
  shows "all_disks past (replaced d name i text start) (unlinkat sys d a m)"
proof -
  obtain g m1 where a: "ask sys (Unlinkat d a) m = (g, m1)" by fastforce
  have s: "all_disks past (replaced d name i text start) m1" using ask_disk [OF a] assms(1) by blast
  have "replaced d name i text start (mc_disk m1)" using s by (simp add: all_disks_def)
  then show ?thesis
    unfolding unlinkat_def a using s replaced_remove [OF _ assms(2)] by simp
qed

text \<open>What a save's last calls leave, its verdict, and the file the verdict promises.\<close>

lemma save_stream_replaced:
  assumes save: "save_stream sys text d i tmp name m = (ok, m')"
    and st: "stage past d name tmp i start Q m" and ne: "tmp \<noteq> name"
  shows "all_disks past (replaced d name i text start) m'"
    "ok \<Longrightarrow> \<exists>f. dk_files (mc_disk m') i = Some f \<and> fl_data f = text \<and> fl_synced f \<and>
       length text \<le> NATIVE_CONFIG_MAX_FILE \<and>
       (\<exists>disk. mc_disk m' = sync_entries d (move_entry d tmp name disk) \<and> entry_at disk d tmp = Some (File i))"
proof -
  obtain w m1 where w: "write_stream sys i text m = (w, m1)" by fastforce
  obtain told m2 where t: "ask sys Ftell m1 = (told, m2)" by fastforce
  define ok1 where "ok1 \<longleftrightarrow> w \<and> told \<and> length text \<le> NATIVE_CONFIG_MAX_FILE"
  obtain fl m3 where f: "and_then ok1 (flush_stream sys i text) m2 = (fl, m3)" by fastforce
  obtain sy m4 where s: "and_then fl (sync_file sys i) m3 = (sy, m4)" by fastforce
  obtain cl m5 where c: "close_stream sys i fl text m4 = (cl, m5)" by fastforce
  obtain rn m6 where r: "and_then (sy \<and> cl) (renameat sys d tmp name) m5 = (rn, m6)" by fastforce
  obtain sd m7 where sd: "and_then rn (sync_directory sys d) m6 = (sd, m7)" by fastforce
  have fin: "ok = sd" "m' = (if sd then m7 else unlinkat sys d tmp m7)"
    using save by (auto simp: save_stream_def w t f s c r sd ok1_def [symmetric])
  have s1: "stage past d name tmp i start (\<lambda>_. True) m2"
    using write_stage [OF w st] stage_ask [OF t] by blast
  have s3: "stage past d name tmp i start (\<lambda>f. fl \<longrightarrow> fl_data f = text) m3" "fl \<Longrightarrow> ok1"
    using f s1 flush_stage [OF _ s1]
    by (auto simp: and_then_def split: if_splits elim: stage_mono)
  have s4: "stage past d name tmp i start (\<lambda>f. sy \<longrightarrow> fl_data f = text \<and> fl_synced f) m4" "sy \<Longrightarrow> fl"
  proof -
    show "sy \<Longrightarrow> fl" using s by (auto simp: and_then_def split: if_splits)
    show "stage past d name tmp i start (\<lambda>f. sy \<longrightarrow> fl_data f = text \<and> fl_synced f) m4"
    proof (cases fl)
      case True
      then have "sync_file sys i m3 = (sy, m4)" using s by (simp add: and_then_def)
      then have "stage past d name tmp i start (\<lambda>f. fl_data f = text \<and> (sy \<longrightarrow> fl_synced f)) m4"
        by (rule sync_stage) (use s3(1) True in simp)
      then show ?thesis by (rule stage_mono) simp
    next
      case False
      then show ?thesis using s s3(1) by (auto simp: and_then_def elim: stage_mono)
    qed
  qed
  have s5: "stage past d name tmp i start (\<lambda>f. sy \<longrightarrow> fl_data f = text \<and> fl_synced f) m5"
    using close_stage [OF c s4(1)] s4(2) by (auto elim!: stage_mono)
  have before: "all_disks past (replaced d name i text start) m5"
    using s5 by (auto simp: stage_def intro: all_disks_mono calm_replaced)
  have ren: "all_disks past (replaced d name i text start) m6 \<and>
      (rn \<longrightarrow> sy \<and> mc_disk m6 = move_entry d tmp name (mc_disk m5))"
  proof (cases "sy \<and> cl")
    case True
    obtain g m0 where a: "ask sys (Renameat d name) m5 = (g, m0)" by fastforce
    have d0: "mc_disk m0 = mc_disk m5" "all_disks past (replaced d name i text start) m0"
      using ask_disk [OF a] before by blast+
    have "entry_at (mc_disk m5) d tmp = Some (File i)" using s5 by (simp add: stage_def)
    then have e: "rn = g" "m6 = (if g then set_disk (move_entry d tmp name (mc_disk m0)) m0 else m0)"
      using r True by (auto simp: and_then_def renameat_def a d0 split: if_splits)
    have "replaced d name i text start (move_entry d tmp name (mc_disk m0))"
      using s5 True ne unfolding d0(1) stage_def
      by (auto intro!: replaced_move simp: all_disks_def)
    then show ?thesis using e d0 True by simp
  qed (use r before in \<open>auto simp: and_then_def\<close>)
  have syn: "all_disks past (replaced d name i text start) m7 \<and>
      (sd \<longrightarrow> rn \<and> mc_disk m7 = sync_entries d (mc_disk m6))"
  proof (cases rn)
    case True
    obtain g m0 where a: "ask sys (FsyncDir d) m6 = (g, m0)" by fastforce
    have d0: "mc_disk m0 = mc_disk m6" "all_disks past (replaced d name i text start) m0"
      using ask_disk [OF a] ren by blast+
    have e: "sd = g" "m7 = (if g then set_disk (sync_entries d (mc_disk m0)) m0 else m0)"
      using sd True by (auto simp: and_then_def sync_directory_def a split: if_splits)
    have "replaced d name i text start (sync_entries d (mc_disk m0))"
      using d0(2) by (intro replaced_sync) (simp add: all_disks_def)
    then show ?thesis using e d0 True by simp
  qed (use sd ren in \<open>auto simp: and_then_def\<close>)
  show "all_disks past (replaced d name i text start) m'"
    unfolding fin(2) using syn unlink_replaced [of past d name i "text" start m7 tmp sys] ne by auto
  show "\<exists>f. dk_files (mc_disk m') i = Some f \<and> fl_data f = text \<and> fl_synced f \<and>
       length text \<le> NATIVE_CONFIG_MAX_FILE \<and>
       (\<exists>disk. mc_disk m' = sync_entries d (move_entry d tmp name disk) \<and> entry_at disk d tmp = Some (File i))" if ok
  proof -
    have sd rn sy using that fin(1) syn ren by auto
    then have e: "mc_disk m' = sync_entries d (move_entry d tmp name (mc_disk m5))"
      using fin(2) syn ren by simp
    obtain f where f: "dk_files (mc_disk m5) i = Some f" "fl_data f = text" "fl_synced f"
      "entry_at (mc_disk m5) d tmp = Some (File i)"
      using s5 \<open>sy\<close> unfolding stage_def by blast
    have "length text \<le> NATIVE_CONFIG_MAX_FILE" using \<open>sy\<close> s4(2) s3(2) by (auto simp: ok1_def)
    then show ?thesis using e f by auto
  qed
qed

lemma unlink_calm:
  assumes "all_disks past (calm d name start) m" "name \<noteq> a"
  shows "all_disks past (calm d name start) (unlinkat sys d a m) \<and> dk_next (mc_disk (unlinkat sys d a m)) = dk_next (mc_disk m)"
proof -
  obtain g m1 where a: "ask sys (Unlinkat d a) m = (g, m1)" by fastforce
  have s: "all_disks past (calm d name start) m1" "mc_disk m1 = mc_disk m" using ask_disk [OF a] assms(1) by blast+
  have "calm d name start (mc_disk m1)" using s by (simp add: all_disks_def)
  then show ?thesis
    unfolding unlinkat_def a using s calm_remove [OF _ assms(2)] by simp
qed

lemma create_some:
  assumes "create_exclusive sys d tmp m = (Some i, m')"
  shows "i = dk_next (mc_disk m) \<and> mc_disk m' = add_file d tmp (new_file (sy_euid sys) MODE_0600) (mc_disk m)"
proof -
  obtain g m1 where a: "ask sys (OpenAt d tmp) m = (g, m1)" by fastforce
  then have "mc_disk m1 = mc_disk m" using ask_disk [OF a] by blast
  then show ?thesis using assms by (auto simp: create_exclusive_def Let_def a split: if_splits)
qed

lemma create_stage:
  assumes "create_exclusive sys d tmp m = (Some i, m')" "all_disks past (calm d name start) m"
    "tmp \<noteq> name" "dk_next start = dk_next (mc_disk m)" "dk_dirs (mc_disk m) d \<noteq> None"
  shows "stage past d name tmp i start (\<lambda>_. True) m'"
proof -
  obtain g m1 where a: "ask sys (OpenAt d tmp) m = (g, m1)" by fastforce
  have s: "all_disks past (calm d name start) m1" "mc_disk m1 = mc_disk m" using ask_disk [OF a] assms(2) by blast+
  let ?f = "new_file (sy_euid sys) MODE_0600"
  have e: "i = dk_next (mc_disk m)" "m' = set_disk (add_file d tmp ?f (mc_disk m)) m1"
    using assms(1) by (auto simp: create_exclusive_def Let_def a s(2) split: if_splits)
  have "calm d name start (mc_disk m)" using assms(2) by (simp add: all_disks_def)
  then have "calm d name start (add_file d tmp ?f (mc_disk m))"
    using calm_add [of d name start "mc_disk m" tmp ?f] assms(3,4) by simp
  then show ?thesis
    using s assms(4,5) unfolding e stage_def
    by (auto simp: add_file_def set_entries_def entry_at_def split: option.splits)
qed

text \<open>The directory of a path, as the save opens it.\<close>

lemma open_directory_disk:
  assumes "open_directory sys dir m = (od, m')"
  shows "mc_disk m' = mc_disk m \<and> (all_disks past P m' = all_disks past P m) \<and>
     (od \<noteq> None \<longrightarrow> od = directory_at (mc_disk m) dir)"
proof -
  obtain g m1 where a: "ask sys (OpenDirectory dir) m = (g, m1)" by fastforce
  have "m' = m1" "od \<noteq> None \<longrightarrow> od = directory_at (mc_disk m1) dir"
    using assms by (auto simp: open_directory_def a split: if_splits option.splits bool.splits)
  then show ?thesis using ask_disk [OF a] by simp
qed

lemma private_directory_disk:
  assumes "private_directory sys d m = (ok, m')"
  shows "mc_disk m' = mc_disk m \<and> (all_disks past P m' = all_disks past P m)"
proof -
  obtain g m1 where a: "ask sys (FstatDir d) m = (g, m1)" by fastforce
  then show ?thesis using assms ask_disk [OF a] by (simp add: private_directory_def)
qed

lemma create_none:
  assumes "create_exclusive sys d name m = (None, m')"
  shows "mc_disk m' = mc_disk m \<and> (all_disks past P m' = all_disks past P m)"
proof -
  obtain g m1 where a: "ask sys (OpenAt d name) m = (g, m1)" by fastforce
  have "m' = m1" using assms by (auto simp: create_exclusive_def a Let_def split: if_splits)
  then show ?thesis using ask_disk [OF a] by simp
qed

lemma temporary_differs [simp]: "name @ ''.tmp'' \<noteq> name" "name \<noteq> name @ ''.tmp''"
  by simp_all

text \<open>A save, up to the stream: either it stopped with nothing changed at the name, or the stream ran.\<close>

lemma save_cases:
  assumes save: "native_settings_save_file_checked sys s path private_dir m = (ok, m')"
    and dir: "native_config_parent_dir NATIVE_PERSISTED_CONFIG_PATH_MAX path = Some dir"
      "directory_at (mc_disk m) dir = Some d"
  shows "\<not> ok \<and> all_disks (mc_past m) (calm d (after_slash path) (mc_disk m)) m' \<or>
    (\<exists>i m1 disk. stage (mc_past m) d (after_slash path) (after_slash path @ ''.tmp'') i (mc_disk m) (\<lambda>_. True) m1 \<and>
       (disk = mc_disk m \<or> disk = remove_entry d (after_slash path @ ''.tmp'') (mc_disk m)) \<and>
       mc_disk m1 = add_file d (after_slash path @ ''.tmp'') (new_file (sy_euid sys) MODE_0600) disk \<and> i = dk_next disk \<and>
       save_stream sys (native_settings_write_json s) d i (after_slash path @ ''.tmp'') (after_slash path) m1 = (ok, m'))"
proof -
  let ?n = "after_slash path" and ?t = "after_slash path @ ''.tmp''"
  have c0: "all_disks (mc_past m) (calm d ?n (mc_disk m)) m" by (simp add: all_disks_def calm_refl)
  have dn: "dk_dirs (mc_disk m) d \<noteq> None"
    using dir(2) by (auto simp: directory_at_def split: option.splits if_splits)
  show ?thesis
  proof (cases "length ?t \<ge> NATIVE_PERSISTED_CONFIG_PATH_MAX \<or> ?n = []")
    case True
    then show ?thesis using save c0 by (auto simp: native_settings_save_file_checked_def dir(1))
  next
    case False
    obtain od m1 where od: "open_directory sys dir m = (od, m1)" by fastforce
    have d1: "mc_disk m1 = mc_disk m" "all_disks (mc_past m) (calm d ?n (mc_disk m)) m1"
      using open_directory_disk [OF od] c0 by blast+
    show ?thesis
    proof (cases od)
      case None
      then show ?thesis using save False d1(2) by (auto simp: native_settings_save_file_checked_def dir(1) od Let_def)
    next
      case (Some d')
      then have [simp]: "d' = d" using open_directory_disk [OF od] dir(2) by simp
      obtain pr m2 where pr: "(if private_dir then private_directory sys d m1 else (True, m1)) = (pr, m2)" by fastforce
      have d2: "mc_disk m2 = mc_disk m" "all_disks (mc_past m) (calm d ?n (mc_disk m)) m2"
        using pr d1 private_directory_disk [of sys d m1 pr m2] by (auto split: if_splits)
      define m3 where "m3 = unlinkat sys d ?t m2"
      have d3: "all_disks (mc_past m) (calm d ?n (mc_disk m)) m3" "dk_next (mc_disk m3) = dk_next (mc_disk m)"
        "dk_dirs (mc_disk m3) d \<noteq> None" "mc_disk m3 = mc_disk m \<or> mc_disk m3 = remove_entry d ?t (mc_disk m)"
      proof -
        show "all_disks (mc_past m) (calm d ?n (mc_disk m)) m3" "dk_next (mc_disk m3) = dk_next (mc_disk m)"
          using unlink_calm [OF d2(2), of ?t sys] d2(1) unfolding m3_def by simp_all
        obtain g m0 where "ask sys (Unlinkat d ?t) m2 = (g, m0)" by fastforce
        with ask_disk [OF this] d2(1) dn show "dk_dirs (mc_disk m3) d \<noteq> None"
          "mc_disk m3 = mc_disk m \<or> mc_disk m3 = remove_entry d ?t (mc_disk m)"
          by (auto simp: m3_def unlinkat_def remove_entry_def set_entries_def)
      qed
      obtain oi m4 where oi: "create_exclusive sys d ?t m3 = (oi, m4)" by fastforce
      have eq: "native_settings_save_file_checked sys s path private_dir m =
        (if \<not> pr then (False, m2)
         else case oi of None \<Rightarrow> (False, m4)
          | Some i \<Rightarrow> let (stream, m) = ask sys Fdopen m4 in
              if \<not> stream then (False, unlinkat sys d ?t m)
              else save_stream sys (native_settings_write_json s) d i ?t ?n m)"
        using False by (simp add: native_settings_save_file_checked_def dir(1) od Some pr Let_def
          m3_def [symmetric] oi split: option.splits)
      show ?thesis
      proof (cases "\<not> pr \<or> oi = None")
        case True
        then have "\<not> ok \<and> all_disks (mc_past m) (calm d ?n (mc_disk m)) m'"
          using save d2(2) create_none [of sys d ?t m3 m4] oi d3(1) unfolding eq by (auto split: if_splits)
        then show ?thesis by blast
      next
        case go: False
        then obtain i where i: "oi = Some i" by auto
        have st: "stage (mc_past m) d ?n ?t i (mc_disk m) (\<lambda>_. True) m4"
          by (rule create_stage [OF oi [unfolded i] d3(1)]) (use d3 in simp_all)
        obtain stream m5 where a: "ask sys Fdopen m4 = (stream, m5)" by fastforce
        from stage_ask [OF a] st have st5: "stage (mc_past m) d ?n ?t i (mc_disk m) (\<lambda>_. True) m5" by blast
        show ?thesis
        proof (cases stream)
          case True
          then have "save_stream sys (native_settings_write_json s) d i ?t ?n m5 = (ok, m')"
            using save go i unfolding eq by (simp add: a)
          moreover have "mc_disk m5 = add_file d ?t (new_file (sy_euid sys) MODE_0600) (mc_disk m3)" "i = dk_next (mc_disk m3)"
            using create_some [OF oi [unfolded i]] ask_disk [OF a] by simp_all
          ultimately show ?thesis using st5 d3(4) by blast
        next
          case False
          have "\<not> ok \<and> m' = unlinkat sys d ?t m5" using save go i False unfolding eq by (auto simp: a)
          then show ?thesis using unlink_calm [of "mc_past m" d ?n "mc_disk m" m5 ?t sys] st5 by (simp add: stage_def)
        qed
      qed
    qed
  qed
qed

lemma saved_version:
  assumes "mc_disk m' = sync_entries d (move_entry d tmp name disk)" "entry_at disk d tmp = Some (File i)" "tmp \<noteq> name"
  shows "versions (mc_disk m') d name = [Some (File i)]" "entry_at (mc_disk m') d name = Some (File i)"
  using assms by (auto simp: versions_def sync_entries_def move_entry_def set_entries_def entry_at_def
      split: option.splits)

lemma save_outcome:
  assumes "native_settings_save_file_checked sys s path private_dir m = (ok, m')"
    "native_config_parent_dir NATIVE_PERSISTED_CONFIG_PATH_MAX path = Some dir"
    "directory_at (mc_disk m) dir = Some d"
  shows "\<exists>i. all_disks (mc_past m) (replaced d (after_slash path) i (native_settings_write_json s) (mc_disk m)) m' \<and>
    (ok \<longrightarrow> versions (mc_disk m') d (after_slash path) = [Some (File i)] \<and>
       (\<exists>f. dk_files (mc_disk m') i = Some f \<and> fl_data f = native_settings_write_json s \<and> fl_synced f))"
proof -
  let ?n = "after_slash path" and ?t = "after_slash path @ ''.tmp''"
  consider "\<not> ok" "all_disks (mc_past m) (calm d ?n (mc_disk m)) m'"
    | i m1 where "stage (mc_past m) d ?n ?t i (mc_disk m) (\<lambda>_. True) m1"
        "save_stream sys (native_settings_write_json s) d i ?t ?n m1 = (ok, m')"
    using save_cases [OF assms] by blast
  then show ?thesis
  proof cases
    case 1
    then show ?thesis by (auto intro: all_disks_mono calm_replaced)
  next
    case (2 i m1)
    note r = save_stream_replaced [OF 2(2,1) temporary_differs(1)]
    show ?thesis
    proof (rule exI, intro conjI impI)
      show "all_disks (mc_past m) (replaced d ?n i (native_settings_write_json s) (mc_disk m)) m'" by (rule r(1))
      show "versions (mc_disk m') d ?n = [Some (File i)]" if ok
        using r(2) [OF that] saved_version(1) [of m' d ?t ?n _ i] by force
      show "\<exists>f. dk_files (mc_disk m') i = Some f \<and> fl_data f = native_settings_write_json s \<and> fl_synced f" if ok
        using r(2) [OF that] by blast
    qed
  qed
qed

section \<open>Crash safety\<close>

text \<open>
  C21: whichever calls fail and wherever the power is lost, a save leaves the settings file with the old
  document or the complete new one (in every state of the disk during and after the save, whatever a
  crash brings back of it); after a save that reports success only the new one can come back.
\<close>

theorem save_is_crash_safe:
  assumes "native_settings_save_file_checked sys s path private_dir m = (ok, m')"
    and "native_config_parent_dir NATIVE_PERSISTED_CONFIG_PATH_MAX path = Some dir"
    and "directory_at (mc_disk m) dir = Some d" "disk_wf (mc_disk m)"
    and "\<forall>c. may_survive (mc_disk m) d (after_slash path) c \<longrightarrow> c = old"
  shows "(\<exists>during. mc_past m' = during @ mc_past m \<and>
            (\<forall>disk \<in> set (mc_disk m' # during). \<forall>c. may_survive disk d (after_slash path) c \<longrightarrow>
               c = old \<or> c = Some (native_settings_write_json s))) \<and>
         (ok \<longrightarrow> (\<forall>c. may_survive (mc_disk m') d (after_slash path) c \<longleftrightarrow> c = Some (native_settings_write_json s)))"
proof -
  from save_outcome [OF assms(1,2,3)] obtain i where
    all: "all_disks (mc_past m) (replaced d (after_slash path) i (native_settings_write_json s) (mc_disk m)) m'"
    and fin: "ok \<longrightarrow> versions (mc_disk m') d (after_slash path) = [Some (File i)] \<and>
       (\<exists>f. dk_files (mc_disk m') i = Some f \<and> fl_data f = native_settings_write_json s \<and> fl_synced f)" by blast
  from all obtain during where past: "mc_past m' = during @ mc_past m"
    and rep: "\<forall>disk \<in> set (mc_disk m' # during).
      replaced d (after_slash path) i (native_settings_write_json s) (mc_disk m) disk"
    by (auto simp: all_disks_def)
  have "\<forall>disk \<in> set (mc_disk m' # during). \<forall>c. may_survive disk d (after_slash path) c \<longrightarrow>
      c = old \<or> c = Some (native_settings_write_json s)"
    using rep replaced_content [OF _ assms(4)] assms(5) by blast
  moreover have "may_survive (mc_disk m') d (after_slash path) c \<longleftrightarrow> c = Some (native_settings_write_json s)" if ok for c
    using fin that by (auto simp: may_survive_def content_survives_def)
  ultimately show ?thesis using past by blast
qed

text \<open>A television whose second \<open>fsync\<close> fails, saving over an old document.\<close>

definition demo_disk :: Disk where
  "demo_disk = \<lparr>dk_path = [''/s'' \<mapsto> (False, 0)],
     dk_dirs = [0 \<mapsto> \<lparr>dn_is_dir = True, dn_owner = 7, dn_mode = MODE_0700,
       dn_entries = [''settings.json'' \<mapsto> File 0], dn_unsynced = []\<rparr>],
     dk_files = [0 \<mapsto> \<lparr>fl_regular = True, fl_owner = 7, fl_mode = MODE_0600, fl_data = ''{}'', fl_synced = True\<rparr>],
     dk_next = 1\<rparr>"

definition demo_machine :: Machine where
  "demo_machine = \<lparr>mc_disk = demo_disk, mc_calls = 0, mc_past = []\<rparr>"

definition demo_sys :: Sys where
  "demo_sys = \<lparr>sy_refuses = (\<lambda>n c. c = FsyncDir 0), sy_euid = 7, sy_pid = 12, sy_partial = (\<lambda>n. n)\<rparr>"

lemma demo_path: "after_slash ''/s/settings.json'' = ''settings.json''"
  "native_config_parent_dir NATIVE_PERSISTED_CONFIG_PATH_MAX ''/s/settings.json'' = Some ''/s''"
  by (simp_all add: after_slash_def native_config_parent_dir_def has_slash_def config_consts)

lemma save_is_crash_safe_witness:
  "\<exists>during. mc_past (snd (native_settings_save_file_checked demo_sys native_settings_defaults ''/s/settings.json'' True demo_machine)) = during \<and>
    (\<forall>disk \<in> set during. \<forall>c. may_survive disk 0 ''settings.json'' c \<longrightarrow>
      c = Some ''{}'' \<or> c = Some (native_settings_write_json native_settings_defaults))"
proof -
  have "directory_at (mc_disk demo_machine) ''/s'' = Some 0" "disk_wf (mc_disk demo_machine)"
    "\<forall>c. may_survive (mc_disk demo_machine) 0 (after_slash ''/s/settings.json'') c \<longrightarrow> c = Some ''{}''"
    unfolding demo_path
    by (simp_all add: demo_machine_def demo_disk_def directory_at_def canonical_def disk_wf_def may_survive_def
      versions_def content_survives_def)
  from save_is_crash_safe [OF prod.collapse [symmetric] demo_path(2) this]
  show ?thesis unfolding demo_path by (auto simp: demo_machine_def)
qed

end
