(* ===== verification/Settings_Verdict.thy ===== *)
theory Settings_Verdict
  imports Settings_Text
begin

text \<open>
  Which texts load: the verdict of \<open>native_settings_apply_json\<close> is the same over any two well-formed
  settings, and the text the program writes itself has no NUL, so that a reader of C strings sees all
  of it.
\<close>

section \<open>Whether a document loads does not depend on the settings it is loaded over\<close>

lemma bind_none:
  "(x = None) = (y = None) \<Longrightarrow> (\<And>u v. x = Some u \<Longrightarrow> y = Some v \<Longrightarrow> (f u = None) = (g v = None)) \<Longrightarrow>
   (Option.bind x f = None) = (Option.bind y g = None)"
  by (cases x; cases y) auto

lemma reads_verdict:
  "(apply_json_string json k cap d = None) = (apply_json_string json k cap d' = None)"
  "(apply_json_u16 json k lo hi e = None) = (apply_json_u16 json k lo hi e' = None)"
  "(apply_json_i16 json k mn mx g = None) = (apply_json_i16 json k mn mx g' = None)"
  "(apply_json_bool json k b = None) = (apply_json_bool json k b' = None)"
  by (simp_all add: apply_json_string_def apply_json_u16_def apply_json_i16_def apply_json_bool_def
      split: json_read.splits)

lemma name_verdict:
  "(apply_session_name_json a json = None) = (apply_session_name_json b json = None)"
  by (auto simp: apply_session_name_json_def bind_eq_None_conv reads_verdict(1) [of json _ _ "sc_name a" "sc_name b"]
      split: option.splits)

lemma name_keeps:
  "apply_session_name_json a json = Some u \<Longrightarrow>
   sc_mixer_gain_db u = sc_mixer_gain_db a \<and> sc_desktop_scale_factor u = sc_desktop_scale_factor a"
  by (auto simp: apply_session_name_json_def bind_eq_Some_conv split: option.splits if_splits)

lemma scale_verdict:
  "native_desktop_scale_valid (sc_desktop_scale_factor a) \<Longrightarrow> native_desktop_scale_valid (sc_desktop_scale_factor b) \<Longrightarrow>
   (apply_desktop_scale_json a json = None) = (apply_desktop_scale_json b json = None)"
  by (simp add: apply_desktop_scale_json_def apply_json_u16_def split: json_read.splits)

lemma scale_keeps: "apply_desktop_scale_json a json = Some u \<Longrightarrow> sc_mixer_gain_db u = sc_mixer_gain_db a"
  by (auto simp: apply_desktop_scale_json_def bind_eq_Some_conv split: if_splits)

lemma gain_verdict:
  "sc_mixer_gain_db a mod NATIVE_SETTINGS_MIXER_STEP_DB = 0 \<Longrightarrow> sc_mixer_gain_db b mod NATIVE_SETTINGS_MIXER_STEP_DB = 0 \<Longrightarrow>
   (apply_mixer_gain_json a json = None) = (apply_mixer_gain_json b json = None)"
  by (simp add: apply_mixer_gain_json_def apply_json_i16_def split: json_read.splits)

lemma session_verdict:
  assumes "session_wf a" "session_wf b"
  shows "(apply_session_json a json = None) = (apply_session_json b json = None)"
  unfolding apply_session_json_def Let_def
proof (rule bind_none, rule name_verdict, goal_cases)
  case (1 a1 b1)
  have sc: "native_desktop_scale_valid (sc_desktop_scale_factor a1)" "native_desktop_scale_valid (sc_desktop_scale_factor b1)"
    and gn: "sc_mixer_gain_db a1 mod NATIVE_SETTINGS_MIXER_STEP_DB = 0" "sc_mixer_gain_db b1 mod NATIVE_SETTINGS_MIXER_STEP_DB = 0"
    using name_keeps [OF 1(1)] name_keeps [OF 1(2)] assms by (simp_all add: session_wf_def)
  show ?case
  proof (rule bind_none, rule scale_verdict [OF sc], goal_cases)
    case (1 a2 b2)
    note g2 = scale_keeps [OF 1(1)] scale_keeps [OF 1(2)]
    show ?case
      by ((rule bind_none, rule reads_verdict)+, rule bind_none, rule gain_verdict, simp add: g2 gn,
        simp add: g2 gn, (rule bind_none, rule reads_verdict)+, simp)
  qed
qed

lemma codec_verdict: "(apply_audio_codec_json a json = None) = (apply_audio_codec_json b json = None)"
  by (simp add: apply_audio_codec_json_def split: json_read.splits)

lemma codec_keeps:
  "apply_audio_codec_json a json = Some u \<Longrightarrow> ns_camera_width u = ns_camera_width a \<and> ns_camera_height u = ns_camera_height a"
  by (auto simp: apply_audio_codec_json_def split: json_read.splits if_splits)

lemma u16_parity:
  "apply_json_u16 json k lo hi d = Some v \<Longrightarrow> apply_json_u16 json k lo hi d' = Some v' \<Longrightarrow> even d \<Longrightarrow> even d' \<Longrightarrow>
   even v = even v'"
  by (auto simp: apply_json_u16_def split: json_read.splits)

lemma global_verdict:
  assumes "even (ns_camera_width a)" "even (ns_camera_height a)" "even (ns_camera_width b)" "even (ns_camera_height b)"
  shows "(apply_global_json a json = None) = (apply_global_json b json = None)"
  unfolding apply_global_json_def Let_def
proof ((rule bind_none, rule reads_verdict)+, rule bind_none, rule codec_verdict, goal_cases)
  case (1 u v u1 v1 a2 b2)
  have k: "even (ns_camera_width a2)" "even (ns_camera_height a2)" "even (ns_camera_width b2)" "even (ns_camera_height b2)"
    using codec_keeps [OF 1(5)] codec_keeps [OF 1(6)] assms by simp_all
  show ?case
  proof ((rule bind_none, rule reads_verdict)+, goal_cases)
    case (1 u v ua va w w' h h')
    from 1(5,6) k have "even w = even w'" by (auto dest: u16_parity)
    moreover from 1(7,8) k have "even h = even h'" by (auto dest: u16_parity)
    ultimately show ?case by simp
  qed
qed

lemma list_all_update: "list_all P xs \<Longrightarrow> P x \<Longrightarrow> list_all P (xs[i := x])"
  using set_update_subset_insert [of xs i x] by (auto simp: list_all_iff)

text \<open>The verdict on a whole document, for settings every load keeps well formed.\<close>

lemma sessions_verdict:
  "CHR 0x00 \<notin> set json \<Longrightarrow> length (ns_sessions a) = 4 \<Longrightarrow> list_all session_wf (ns_sessions a) \<Longrightarrow>
   length (ns_sessions b) = 4 \<Longrightarrow> list_all session_wf (ns_sessions b) \<Longrightarrow>
   (apply_sessions_array alloc i a json = None) = (apply_sessions_array alloc i b json = None)"
proof (induction alloc i a json arbitrary: b rule: apply_sessions_array.induct)
  case (1 alloc i a json)
  note wf = 1(4-7)
  show ?case
  proof (cases "find_session_object json i")
    case (FoundObject ob)
    show ?thesis
    proof (cases "alloc i")
      case True
      have obn: "CHR 0x00 \<notin> set ob" using found_object_text [OF FoundObject 1(3)] .
      show ?thesis
      proof (cases "session_slot_from_object ob i")
        case None
        have "(apply_sessions_array alloc (i + 1) a json = None) = (apply_sessions_array alloc (i + 1) b json = None)"
          using 1(1) [OF FoundObject _ None 1(3) wf] True by simp
        then show ?thesis
          using FoundObject True None by (subst (1 2) apply_sessions_array.simps) simp
      next
        case (Some slot)
        then have "slot < 4"
          by (auto simp: session_slot_from_object_def settings_consts find_Some_iff split: json_read.splits if_splits)
        then have w: "session_wf (ns_sessions a ! slot)" "session_wf (ns_sessions b ! slot)"
          using wf by (simp_all add: list_all_length)
        note v = session_verdict [OF w, of ob]
        show ?thesis
        proof (cases "apply_session_json (ns_sessions a ! slot) ob")
          case None
          with v have "apply_session_json (ns_sessions b ! slot) ob = None" by simp
          with None show ?thesis
            using FoundObject True Some by (subst (1 2) apply_sessions_array.simps) simp
        next
          case a: (Some ca)
          with v obtain cb where b: "apply_session_json (ns_sessions b ! slot) ob = Some cb" by fastforce
          from apply_session_ok [OF a w(1) obn] apply_session_ok [OF b w(2) obn]
          have c: "session_wf ca" "session_wf cb" .
          let ?a = "a\<lparr>ns_sessions := (ns_sessions a)[slot := ca]\<rparr>" and ?b = "b\<lparr>ns_sessions := (ns_sessions b)[slot := cb]\<rparr>"
          have "list_all session_wf (ns_sessions ?a)" "list_all session_wf (ns_sessions ?b)"
            using wf c by (simp_all add: list_all_update)
          then have "(apply_sessions_array alloc (i + 1) ?a json = None) = (apply_sessions_array alloc (i + 1) ?b json = None)"
            using 1(2) [OF FoundObject _ Some a, of ?b] 1(3) True wf by simp
          then show ?thesis
            using FoundObject True Some a b by (subst (1 2) apply_sessions_array.simps) simp
        qed
      qed
    qed (use FoundObject in \<open>subst (1 2) apply_sessions_array.simps, simp\<close>)
  qed (subst (1 2) apply_sessions_array.simps, simp)+
qed

lemma json_verdict:
  assumes "settings_wf a" "settings_wf b" "CHR 0x00 \<notin> set json"
  shows "fst (native_settings_apply_json alloc a json) = fst (native_settings_apply_json alloc b json)"
proof -
  have wf: "length (ns_sessions a) = 4" "list_all session_wf (ns_sessions a)"
    "length (ns_sessions b) = 4" "list_all session_wf (ns_sessions b)"
    using assms(1,2) by (simp_all add: settings_wf_def settings_consts)
  have even: "even (ns_camera_width a)" "even (ns_camera_height a)" "even (ns_camera_width b)" "even (ns_camera_height b)"
    using assms(1,2) by (simp_all add: settings_wf_def)
  have array: "((case apply_sessions_array alloc 0 a json of None \<Rightarrow> None | Some u \<Rightarrow> apply_global_json u json) = None) =
      ((case apply_sessions_array alloc 0 b json of None \<Rightarrow> None | Some u \<Rightarrow> apply_global_json u json) = None)"
  proof (cases "apply_sessions_array alloc 0 a json")
    case None
    with sessions_verdict [OF assms(3) wf, of alloc 0] show ?thesis by simp
  next
    case (Some u)
    with sessions_verdict [OF assms(3) wf, of alloc 0] obtain v where v: "apply_sessions_array alloc 0 b json = Some v"
      by fastforce
    from apply_sessions_ok [OF Some assms(3) wf(1,2)] apply_sessions_ok [OF v assms(3) wf(3,4)] even
    have "(apply_global_json u json = None) = (apply_global_json v json = None)" by (intro global_verdict) auto
    with Some v show ?thesis by simp
  qed
  have flat: "(apply_session_json (ns_sessions a ! 1) json = None) = (apply_session_json (ns_sessions b ! 1) json = None)"
    using wf by (intro session_verdict) (simp_all add: list_all_length)
  have glob: "(apply_global_json (a\<lparr>ns_sessions := xs\<rparr>) json = None) = (apply_global_json (b\<lparr>ns_sessions := ys\<rparr>) json = None)"
    for xs ys using even by (intro global_verdict) simp_all
  show ?thesis
  proof (cases "native_json_find_value json ''sessions''")
    case (Some v)
    with array show ?thesis
      by (auto simp: native_settings_apply_json_def Let_def split: option.split)
  next
    case None
    show ?thesis
    proof (cases "apply_session_json (ns_sessions a ! 1) json")
      case (Some u)
      with flat obtain v where "apply_session_json (ns_sessions b ! 1) json = Some v" by fastforce
      with Some None glob [of "(ns_sessions a)[1 := u]" "(ns_sessions b)[1 := v]"] show ?thesis
        by (auto simp: native_settings_apply_json_def Let_def NATIVE_SESSION_SLOT_GREEN_def split: option.split)
    qed (use None flat in \<open>simp add: native_settings_apply_json_def Let_def NATIVE_SESSION_SLOT_GREEN_def\<close>)
  qed
qed

section \<open>The text of a document has no NUL\<close>

lemma hex_digit_text: "n < 16 \<Longrightarrow> hex_digit n \<noteq> CHR 0x00"
proof -
  assume "n < 16"
  then have "below 16 n" by (simp add: below_iff)
  then show ?thesis by (simp add: below_simps) (elim disjE; simp add: hex_digit_def)
qed

lemma write_char_text: "CHR 0x00 \<notin> set (write_char c)"
proof (cases "code c < 0x20")
  case True
  have "code c div 16 < 16" using code_less [of c] by linarith
  then have "CHR 0x00 \<noteq> hex_digit (code c div 16)" "CHR 0x00 \<noteq> hex_digit (code c mod 16)"
    using hex_digit_text by (metis, metis mod_less_divisor zero_less_numeral)
  then show ?thesis using True by (simp add: write_char_def)
next
  case False
  then have "c \<noteq> CHR 0x00" by (auto simp: code_def)
  then show ?thesis using False by (simp add: write_char_def)
qed

lemma json_string_text: "CHR 0x00 \<notin> set (write_json_string s)"
  using write_char_text by (auto simp: write_json_string_def)

lemma dec_text: "CHR 0x00 \<notin> set (dec n)" "CHR 0x00 \<notin> set (idec i)"
proof -
  show d: "CHR 0x00 \<notin> set (dec n)" for n
    using dec_digits [of n] by (auto simp: list_all_iff digit_def code_def)
  show "CHR 0x00 \<notin> set (idec i)" using d by (auto simp: idec_def)
qed

lemma document_text: "CHR 0x00 \<notin> set (native_settings_write_json s)"
proof -
  have k: "CHR 0x00 \<notin> set (key_text k) \<longleftrightarrow> CHR 0x00 \<notin> set k" for k by (auto simp: key_text_def)
  have b: "CHR 0x00 \<notin> set (jbool v)" for v by (simp add: jbool_def)
  have "CHR 0x00 \<notin> set (write_session_json c slot)" for c slot
    unfolding write_session_json_def by (simp add: k json_string_text dec_text b slot_name_text)
  then show ?thesis
    unfolding native_settings_write_json_def by (simp add: k json_string_text dec_text b)
qed

section \<open>A document always fits\<close>

lemma dec_length: "n < 10 ^ k \<Longrightarrow> 0 < k \<Longrightarrow> length (dec n) \<le> k"
proof (induction n arbitrary: k rule: less_induct)
  case (less n)
  show ?case
  proof (cases "n < 10")
    case False
    then obtain k' where k: "k = Suc k'" "0 < k'" using less.prems by (cases k; cases "k - 1") auto
    then have "n div 10 < 10 ^ k'" using less.prems(1) by (simp add: div_less_iff_less_mult mult.commute)
    from less.IH [OF _ this k(2)] False show ?thesis by (subst dec.simps) (simp add: k)
  qed (use less.prems in \<open>subst dec.simps, simp\<close>)
qed

lemma dec_length_u16: "n \<le> 65535 \<Longrightarrow> length (dec n) \<le> 5"
  by (rule dec_length) simp_all

lemma idec_length: "- 99 \<le> i \<Longrightarrow> i \<le> 99 \<Longrightarrow> length (idec i) \<le> 3"
proof -
  assume "- 99 \<le> i" "i \<le> 99"
  then have "nat (- i) < 10 ^ 2" "nat i < 10 ^ 2" by auto
  then show ?thesis using dec_length [of "nat (- i)" 2] dec_length [of "nat i" 2] by (simp add: idec_def)
qed

lemma json_string_length: "text_ok s \<Longrightarrow> length (write_json_string s) \<le> 3068"
proof -
  assume t: "text_ok s"
  have "length (write_char c) \<le> 6" for c by (simp add: write_char_def)
  then have "length (concat (map write_char s)) \<le> 6 * length s"
    by (induction s) (simp_all add: add_mono)
  then show ?thesis using t by (simp add: write_json_string_def text_ok_def settings_consts)
qed

lemma jbool_length: "length (jbool b) \<le> 5"
  by (simp add: jbool_def)

lemma session_length:
  assumes "session_wf c"
  shows "length (write_session_json c slot) \<le> 16000"
proof -
  have t: "length (write_json_string (sc_name c)) \<le> 3068" "length (write_json_string (sc_host c)) \<le> 3068"
    "length (write_json_string (sc_username c)) \<le> 3068" "length (write_json_string (sc_password c)) \<le> 3068"
    "length (write_json_string (sc_domain c)) \<le> 3068"
    using assms by (auto simp: session_wf_def intro: json_string_length)
  have n: "length (dec (sc_port c)) \<le> 5" "length (dec (sc_fps c)) \<le> 5" "length (dec (sc_desktop_width c)) \<le> 5"
    "length (dec (sc_desktop_height c)) \<le> 5" "length (dec (sc_desktop_scale_factor c)) \<le> 5"
    "length (dec (sc_duck_mask c)) \<le> 5" "length (idec (sc_mixer_gain_db c)) \<le> 3"
    using assms by (auto simp: session_wf_def settings_consts native_desktop_scale_valid_def intro!: dec_length_u16 idec_length)
  have s: "length (native_session_slot_name i) \<le> 6" for i by (simp add: native_session_slot_name_def)
  show ?thesis
    using t n s [of "int slot"] jbool_length [of "sc_mixer_muted c"] jbool_length [of "sc_mixer_solo c"]
      jbool_length [of "sc_camera_redirect c"] jbool_length [of "sc_audio_input_redirect c"]
    by (simp add: write_session_json_def key_text_def)
qed

lemma document_fits:
  assumes "settings_wf s"
  shows "length (native_settings_write_json s) \<le> 128 * 1024"
proof -
  have l: "length (ns_sessions s) = 4" "list_all session_wf (ns_sessions s)"
    using assms by (simp_all add: settings_wf_def settings_consts)
  have c: "length (write_session_json (ns_sessions s ! i) i) \<le> 16000" if "i < 4" for i
    using l that by (intro session_length) (simp add: list_all_length)
  have t: "length (write_json_string (ns_camera_device_id s)) \<le> 3068" "length (write_json_string (ns_audio_input_device_id s)) \<le> 3068"
    using assms by (auto simp: settings_wf_def intro: json_string_length)
  have n: "length (dec (ns_wheel_step s)) \<le> 5" "length (dec (ns_wheel_scroll_divisor s)) \<le> 5"
    "length (dec (ns_camera_width s)) \<le> 5" "length (dec (ns_camera_height s)) \<le> 5" "length (dec (ns_camera_fps s)) \<le> 5"
    "length (idec (ns_audio_input_gain_db s)) \<le> 3"
    using assms by (auto simp: settings_wf_def settings_consts intro!: dec_length_u16 idec_length)
  have four: "[0..<4] = [0, 1, 2, 3::nat]" by (simp add: upt_rec)
  show ?thesis
    using c [of 0] c [of 1] c [of 2] c [of 3] t n jbool_length [of "ns_camera_enabled s"] jbool_length [of "ns_audio_input_enabled s"]
    by (simp add: native_settings_write_json_def key_text_def settings_consts four)
qed

section \<open>What a load leaves\<close>

lemma apply_json_keeps_wf:
  assumes "settings_wf s" "CHR 0x00 \<notin> set json" "native_settings_apply_json alloc s json = (ok, s')"
  shows "settings_wf s'" "\<not> ok \<Longrightarrow> s' = s"
proof -
  show same: "s' = s" if "\<not> ok"
    using that assms(3) by (auto simp: native_settings_apply_json_def Let_def split: if_splits option.splits)
  show "settings_wf s'"
    using apply_json_ok [of alloc s json s'] assms same by (cases ok) auto
qed

end
