(* ===== verification/Config_Restart.thy ===== *)
theory Config_Restart
  imports Config_Safety Settings_Verdict
begin

text \<open>
  Saved settings and the next launch.  Where the answers of the system do not change between two
  launches, what a candidate's directory and file say is a function of the disk; the save changes two
  entries of one directory, and the candidates before the one it chose keep holding nothing that loads,
  or hold the saved document itself.
\<close>

section \<open>A system whose answers do not change\<close>

definition stable :: "Sys \<Rightarrow> bool" where
  "stable sys \<longleftrightarrow> (\<forall>n c. sy_refuses sys n c = sy_refuses sys 0 c)"

definition refused :: "Sys \<Rightarrow> Call \<Rightarrow> bool" where
  "refused sys c = sy_refuses sys 0 c"

lemma ask_stable: "stable sys \<Longrightarrow> ask sys c m = (\<not> refused sys c, m\<lparr>mc_calls := mc_calls m + 1\<rparr>)"
proof -
  assume "stable sys"
  then have "sy_refuses sys (mc_calls m) c = sy_refuses sys 0 c" unfolding stable_def by blast
  then show ?thesis by (simp add: ask_def refused_def)
qed

definition healable :: "Sys \<Rightarrow> Disk \<Rightarrow> string \<Rightarrow> bool" where
  "healable sys disk dir \<longleftrightarrow> dir \<noteq> [] \<and> \<not> refused sys (Lstat dir) \<and>
     (case dk_path disk (canonical dir) of
        Some (False, d) \<Rightarrow>
          (case dk_dirs disk d of
             None \<Rightarrow> False
           | Some n \<Rightarrow> dn_is_dir n \<and> dn_owner n = sy_euid sys \<and>
               (others_may_write (dn_mode n) \<longrightarrow> \<not> refused sys (Chmod d)))
      | _ \<Rightarrow> False)"

text \<open>Directories of the user's own may have been tightened; nothing else changed.\<close>

definition tighter :: "Sys \<Rightarrow> nat \<Rightarrow> DirNode \<Rightarrow> DirNode \<Rightarrow> bool" where
  "tighter sys d n n' \<longleftrightarrow> n' = n \<or> n' = n\<lparr>dn_mode := MODE_0700\<rparr> \<and> \<not> refused sys (Chmod d)"

definition tightened :: "Sys \<Rightarrow> Disk \<Rightarrow> Disk \<Rightarrow> bool" where
  "tightened sys disk disk' \<longleftrightarrow> dk_path disk' = dk_path disk \<and> dk_files disk' = dk_files disk \<and>
     (\<forall>d. rel_option (tighter sys d) (dk_dirs disk d) (dk_dirs disk' d))"

lemma tighter_trans: "tighter sys d n n' \<Longrightarrow> tighter sys d n' n'' \<Longrightarrow> tighter sys d n n''"
  by (auto simp: tighter_def)

lemma tightened_refl [simp]: "tightened sys disk disk"
  by (auto simp: tightened_def tighter_def intro: option.rel_refl)

lemma tightened_trans:
  assumes "tightened sys a b" "tightened sys b c"
  shows "tightened sys a c"
proof -
  have "rel_option (tighter sys d) (dk_dirs a d) (dk_dirs c d)" for d
  proof -
    have "rel_option (tighter sys d) (dk_dirs a d) (dk_dirs b d)" "rel_option (tighter sys d) (dk_dirs b d) (dk_dirs c d)"
      using assms by (simp_all add: tightened_def)
    then show ?thesis
      by (cases "dk_dirs a d"; cases "dk_dirs b d"; cases "dk_dirs c d") (auto intro: tighter_trans)
  qed
  then show ?thesis using assms by (simp add: tightened_def)
qed

lemma tightened_dir:
  assumes "tightened sys a b"
  shows "dk_dirs a d = None \<and> dk_dirs b d = None \<or>
    (\<exists>n n'. dk_dirs a d = Some n \<and> dk_dirs b d = Some n' \<and> tighter sys d n n')"
proof -
  have "rel_option (tighter sys d) (dk_dirs a d) (dk_dirs b d)" using assms by (simp add: tightened_def)
  then show ?thesis by (cases "dk_dirs a d"; cases "dk_dirs b d") auto
qed

lemma tightened_healable:
  assumes "tightened sys a b"
  shows "healable sys b dir = healable sys a dir"
proof -
  have p: "dk_path b = dk_path a" using assms by (simp add: tightened_def)
  show ?thesis
  proof (cases "dk_path a (canonical dir)")
    case (Some x)
    obtain l d where x: "x = (l, d)" by fastforce
    show ?thesis
      using tightened_dir [OF assms, of d] Some x
      by (auto simp: healable_def p tighter_def split: bool.splits)
  qed (simp add: healable_def p)
qed

lemma tightened_chmod:
  "\<not> refused sys (Chmod d) \<Longrightarrow> tightened sys disk (chmod_0700 d disk)"
  by (auto simp: tightened_def chmod_0700_def tighter_def rel_option_iff split: option.splits)

lemma secure_stable:
  assumes "stable sys"
  shows "native_config_dir_is_secure sys dir m = (ok, m') \<Longrightarrow> mc_disk m' = mc_disk m \<and>
    (ok \<longleftrightarrow> dir \<noteq> [] \<and> \<not> refused sys (Lstat dir) \<and>
      (\<exists>d n. dk_path (mc_disk m) (canonical dir) = Some (False, d) \<and> dk_dirs (mc_disk m) d = Some n \<and>
         dn_is_dir n \<and> dn_owner n = sy_euid sys \<and> \<not> others_may_write (dn_mode n)))"
  by (auto simp: native_config_dir_is_secure_def lstat_directory_def ask_stable [OF assms] Let_def
      split: if_splits option.splits prod.splits bool.splits)

lemma lstat_stable:
  "stable sys \<Longrightarrow> lstat_directory sys dir m = (st, m') \<Longrightarrow> mc_disk m' = mc_disk m \<and>
    (st = Some (d, n) \<longleftrightarrow> \<not> refused sys (Lstat dir) \<and> dk_path (mc_disk m) (canonical dir) = Some (False, d) \<and>
       dk_dirs (mc_disk m) d = Some n \<and> dn_is_dir n)"
  by (auto simp: lstat_directory_def ask_stable Let_def split: if_splits option.splits prod.splits bool.splits)

lemma heal_stable:
  assumes "stable sys" "native_config_dir_secure_or_heal sys dir m = (ok, m')"
  shows "ok = healable sys (mc_disk m) dir \<and> tightened sys (mc_disk m) (mc_disk m')"
proof -
  obtain s1 m1 where s: "native_config_dir_is_secure sys dir m = (s1, m1)" by fastforce
  note k1 = secure_stable [OF assms(1) s]
  show ?thesis
  proof (cases s1)
    case True
    then have "ok" "m' = m1" using assms(2) by (simp_all add: native_config_dir_secure_or_heal_def s)
    then show ?thesis using k1 True by (auto simp: healable_def)
  next
    case False
    obtain st m2 where l: "lstat_directory sys dir m1 = (st, m2)" by fastforce
    note k2 = lstat_stable [OF assms(1) l]
    show ?thesis
    proof (cases st)
      case None
      then have "\<not> ok" "m' = m2" using assms(2) False by (simp_all add: native_config_dir_secure_or_heal_def s l)
      moreover have "\<not> healable sys (mc_disk m) dir"
        using k1 k2 None by (auto simp: healable_def split: option.splits bool.splits)
      ultimately show ?thesis using k1 k2 by simp
    next
      case (Some x)
      obtain d n where x: "x = (d, n)" by fastforce
      have dn: "\<not> refused sys (Lstat dir)" "dk_path (mc_disk m) (canonical dir) = Some (False, d)"
        "dk_dirs (mc_disk m) d = Some n" "dn_is_dir n" "mc_disk m2 = mc_disk m"
        using k1 k2 [of d n] Some x by simp_all
      have eq: "(if dn_owner n \<noteq> sy_euid sys then (False, m2)
          else if refused sys (Chmod d) then (False, m2\<lparr>mc_calls := mc_calls m2 + 1\<rparr>)
          else native_config_dir_is_secure sys dir (set_disk (chmod_0700 d (mc_disk m2)) (m2\<lparr>mc_calls := mc_calls m2 + 1\<rparr>))) = (ok, m')"
        using assms(2) False by (simp add: native_config_dir_secure_or_heal_def s l Some x ask_stable [OF assms(1)] split: if_split_asm)
      show ?thesis
      proof (cases "dn_owner n \<noteq> sy_euid sys \<or> refused sys (Chmod d)")
        case True
        then have "\<not> ok" "mc_disk m' = mc_disk m" using eq dn(5) by (auto split: if_splits)
        moreover have "\<not> healable sys (mc_disk m) dir" using True k1 False dn by (auto simp: healable_def)
        ultimately show ?thesis by simp
      next
        case go: False
        then have fin: "native_config_dir_is_secure sys dir (set_disk (chmod_0700 d (mc_disk m2)) (m2\<lparr>mc_calls := mc_calls m2 + 1\<rparr>)) = (ok, m')"
          using eq by simp
        from secure_stable [OF assms(1) fin] dn go
        have "mc_disk m' = chmod_0700 d (mc_disk m)" "ok = (dir \<noteq> [])" by (auto simp: chmod_0700_def)
        then show ?thesis using go dn tightened_chmod [of sys d "mc_disk m"] by (auto simp: healable_def)
      qed
    qed
  qed
qed

section \<open>Reading a candidate\<close>

definition opened :: "Sys \<Rightarrow> Disk \<Rightarrow> string \<Rightarrow> bool \<Rightarrow> (nat \<times> FileNode) option option" where
  "opened sys disk path private_file =
     (if refused sys (Open path) then Some None
      else
        case directory_at disk (walk path) of
          None \<Rightarrow> None
        | Some d \<Rightarrow>
          (case entry_at disk d (after_slash path) of
             None \<Rightarrow> None
           | Some e \<Rightarrow>
             if private_file \<and> (\<exists>d n. e = Link d n) then Some None
             else
               case follow disk (Some e) of
                 None \<Rightarrow> None | Some i \<Rightarrow> map_option (\<lambda>f. Some (i, f)) (dk_files disk i)))"

definition read_node :: "Sys \<Rightarrow> bool \<Rightarrow> FileNode \<Rightarrow> FileRead" where
  "read_node sys private_file f =
     (if private_file \<and> (refused sys Fstat \<or> \<not> private_file_ok sys f) \<or>
         refused sys Fdopen \<or> refused sys Fseek \<or> refused sys Ftell \<or> refused sys Calloc \<or> refused sys Fread \<or>
         length (fl_data f) > NATIVE_CONFIG_MAX_FILE \<or> CHR 0x00 \<in> set (fl_data f)
      then ReadFailed else ReadText (fl_data f))"

definition read_of :: "Sys \<Rightarrow> Disk \<Rightarrow> string \<Rightarrow> bool \<Rightarrow> FileRead" where
  "read_of sys disk path private_file =
     (case opened sys disk path private_file of
        None \<Rightarrow> ReadMissing | Some None \<Rightarrow> ReadFailed | Some (Some (i, f)) \<Rightarrow> read_node sys private_file f)"

lemma open_stable:
  assumes "stable sys"
  shows "fst (open_read sys path private_file m) = opened sys (mc_disk m) path private_file \<and>
    mc_disk (snd (open_read sys path private_file m)) = mc_disk m"
  by (auto simp: open_read_def opened_def ask_stable [OF assms] Let_def follow_def
      split: option.splits Entry.splits)

lemma read_stable:
  assumes "stable sys"
  shows "fst (native_config_read_file sys path private_file m) = read_of sys (mc_disk m) path private_file \<and>
    mc_disk (snd (native_config_read_file sys path private_file m)) = mc_disk m"
proof -
  obtain o1 m1 where o: "open_read sys path private_file m = (o1, m1)" by fastforce
  then have k: "o1 = opened sys (mc_disk m) path private_file" "mc_disk m1 = mc_disk m"
    using open_stable [OF assms, of path private_file m] by simp_all
  show ?thesis
  proof (cases o1)
    case (Some x)
    then show ?thesis
      using k by (cases x) (auto simp: native_config_read_file_def o read_of_def read_node_def ask_stable [OF assms] Let_def)
  qed (use k in \<open>simp add: native_config_read_file_def o read_of_def\<close>)
qed

lemma tightened_directory:
  assumes "tightened sys a b"
  shows "directory_at b path = directory_at a path" "entry_at b d name = entry_at a d name" "follow b e = follow a e"
proof -
  show e: "entry_at b d name = entry_at a d name" for d name
    using tightened_dir [OF assms, of d] by (auto simp: entry_at_def tighter_def)
  have p: "dk_path b = dk_path a" using assms by (simp add: tightened_def)
  show "directory_at b path = directory_at a path"
  proof (cases "dk_path a (canonical path)")
    case (Some x)
    then show ?thesis
      using tightened_dir [OF assms, of "snd x"] by (cases x) (auto simp: directory_at_def p tighter_def)
  qed (simp add: directory_at_def p)
  show "follow b e = follow a e" unfolding follow_def e by (rule refl)
qed

lemma tightened_read:
  assumes "tightened sys a b"
  shows "read_of sys b path private_file = read_of sys a path private_file"
proof -
  have files: "dk_files b = dk_files a" using assms by (simp add: tightened_def)
  have "opened sys b path private_file = opened sys a path private_file"
    unfolding opened_def tightened_directory [OF assms] files by (rule refl)
  then show ?thesis by (simp add: read_of_def)
qed

section \<open>Candidates that load\<close>

definition object_copies :: "Sys \<Rightarrow> nat \<Rightarrow> bool" where
  "object_copies sys k \<longleftrightarrow> \<not> refused sys (CallocObject k)"

definition trusts :: "Sys \<Rightarrow> Disk \<Rightarrow> string \<times> bool \<Rightarrow> bool" where
  "trusts sys disk c \<longleftrightarrow> snd c \<or>
     (case native_config_parent_dir NATIVE_PERSISTED_CONFIG_PATH_MAX (fst c) of
        None \<Rightarrow> False | Some dir \<Rightarrow> healable sys disk dir)"

definition loads :: "Sys \<Rightarrow> Disk \<Rightarrow> string \<times> bool \<Rightarrow> bool" where
  "loads sys disk c \<longleftrightarrow>
     (case read_of sys disk (fst c) (\<not> snd c) of
        ReadText json \<Rightarrow> fst (native_settings_apply_json (object_copies sys) native_settings_defaults json)
      | _ \<Rightarrow> False)"

lemma tightened_trusts: "tightened sys a b \<Longrightarrow> trusts sys b c = trusts sys a c"
  by (simp add: trusts_def tightened_healable split: option.split)

lemma tightened_loads: "tightened sys a b \<Longrightarrow> loads sys b c = loads sys a c"
  by (simp add: loads_def tightened_read)

lemma trust_stable:
  assumes "stable sys" "candidate_trusted sys path from_env m = (ok, m')"
  shows "ok = trusts sys (mc_disk m) (path, from_env) \<and> tightened sys (mc_disk m) (mc_disk m')"
  using assms heal_stable [OF assms(1)]
  by (auto simp: candidate_trusted_def trusts_def split: if_splits option.splits)

lemma objects_stable: "stable sys \<Longrightarrow> objects sys m = object_copies sys"
  unfolding objects_def object_copies_def refused_def stable_def by (intro ext) metis

lemma read_text_no_nul:
  "read_of sys disk path pf = ReadText json \<Longrightarrow> CHR 0x00 \<notin> set json"
  by (auto simp: read_of_def read_node_def split: option.splits if_splits)

text \<open>Trying one candidate: what it reads decides, and a failure changes nothing.\<close>

lemma try_stable:
  assumes "stable sys" "settings_wf s" "native_config_try_load_candidate sys s path (\<not> from_env) m = (r, s', m')"
  shows "(r = NATIVE_CONFIG_LOAD_OK) = loads sys (mc_disk m) (path, from_env)" "mc_disk m' = mc_disk m"
    "r \<noteq> NATIVE_CONFIG_LOAD_OK \<Longrightarrow> s' = s"
    "read_of sys (mc_disk m) path (\<not> from_env) = ReadText json \<Longrightarrow>
       s' = snd (native_settings_apply_json (object_copies sys) s json)"
proof -
  obtain f m1 where f: "native_config_read_file sys path (\<not> from_env) m = (f, m1)" by fastforce
  have k: "f = read_of sys (mc_disk m) path (\<not> from_env)" "mc_disk m1 = mc_disk m"
    using read_stable [OF assms(1), of path "\<not> from_env" m] by (simp_all add: f)
  have "(r = NATIVE_CONFIG_LOAD_OK) = loads sys (mc_disk m) (path, from_env) \<and> mc_disk m' = mc_disk m \<and>
    (r \<noteq> NATIVE_CONFIG_LOAD_OK \<longrightarrow> s' = s) \<and>
    (read_of sys (mc_disk m) path (\<not> from_env) = ReadText json \<longrightarrow>
       s' = snd (native_settings_apply_json (object_copies sys) s json))"
  proof (cases f)
    case (ReadText doc)
    obtain ok t where a: "native_settings_apply_json (object_copies sys) s doc = (ok, t)" by fastforce
    have n: "CHR 0x00 \<notin> set doc" using k(1) ReadText read_text_no_nul by metis
    from json_verdict [OF settings_defaults_wf assms(2) n, of "object_copies sys"] a
    have "fst (native_settings_apply_json (object_copies sys) native_settings_defaults doc) = ok" by simp
    moreover have "read_of sys (mc_disk m) path (\<not> from_env) = ReadText doc" using k(1) ReadText by simp
    moreover have "(r, s', m') = (if ok then NATIVE_CONFIG_LOAD_OK else NATIVE_CONFIG_LOAD_INVALID, t, m1)"
      using assms(3) a by (simp add: native_config_try_load_candidate_def f ReadText objects_stable [OF assms(1)])
    ultimately show ?thesis
      using k(2) a apply_json_keeps_wf(2) [OF assms(2) n a] by (auto simp: loads_def)
  next
    case ReadMissing
    moreover have "read_of sys (mc_disk m) path (\<not> from_env) = ReadMissing" using k(1) ReadMissing by simp
    ultimately show ?thesis
      using assms(3) k(2) by (auto simp: native_config_try_load_candidate_def f loads_def)
  next
    case ReadFailed
    moreover have "read_of sys (mc_disk m) path (\<not> from_env) = ReadFailed" using k(1) ReadFailed by simp
    ultimately show ?thesis
      using assms(3) k(2) by (auto simp: native_config_try_load_candidate_def f loads_def)
  qed
  then show "(r = NATIVE_CONFIG_LOAD_OK) = loads sys (mc_disk m) (path, from_env)" "mc_disk m' = mc_disk m"
    "r \<noteq> NATIVE_CONFIG_LOAD_OK \<Longrightarrow> s' = s"
    "read_of sys (mc_disk m) path (\<not> from_env) = ReadText json \<Longrightarrow>
       s' = snd (native_settings_apply_json (object_copies sys) s json)" by blast+
qed

text \<open>The check before a save: nothing before the answer loads.\<close>

lemma first_loadable_stable:
  assumes "stable sys" "settings_wf s"
  shows "first_loadable sys s cs i m = (r, m') \<Longrightarrow> tightened sys (mc_disk m) (mc_disk m') \<and>
    (\<forall>j < length cs. (case r of None \<Rightarrow> True | Some x \<Rightarrow> i + j < x) \<longrightarrow>
       \<not> (trusts sys (mc_disk m) (cs ! j) \<and> loads sys (mc_disk m) (cs ! j))) \<and> (\<forall>x. r = Some x \<longrightarrow> i \<le> x)"
proof (induction cs arbitrary: i m)
  case (Cons c cs)
  obtain path from_env where c: "c = (path, from_env)" by fastforce
  obtain t m1 where t: "candidate_trusted sys path from_env m = (t, m1)" by fastforce
  note kt = trust_stable [OF assms(1) t]
  obtain o1 s1 m2 where o: "native_config_try_load_candidate sys s path (\<not> from_env) m1 = (o1, s1, m2)"
    by (metis prod_cases3)
  note ko = try_stable [OF assms o]
  show ?case
  proof (cases "t \<and> o1 = NATIVE_CONFIG_LOAD_OK")
    case True
    then have "r = Some i" "m' = m2" using Cons.prems by (simp_all add: c t o)
    then show ?thesis using kt ko(2) by simp
  next
    case False
    define mm where "mm = (if t then m2 else m1)"
    have rest: "first_loadable sys s cs (i + 1) mm = (r, m')"
      using Cons.prems False by (cases o1) (auto simp: c t o mm_def split: if_splits)
    have tg: "tightened sys (mc_disk m) (mc_disk mm)" using kt ko(2) by (simp add: mm_def)
    note ih = Cons.IH [OF rest]
    have "\<not> (trusts sys (mc_disk m) c \<and> loads sys (mc_disk m) c)"
      using False kt ko(1) tightened_loads [of sys "mc_disk m" "mc_disk m1" c] by (auto simp: c)
    moreover have "\<forall>j < length cs. (case r of None \<Rightarrow> True | Some x \<Rightarrow> i + Suc j < x) \<longrightarrow>
       \<not> (trusts sys (mc_disk m) (cs ! j) \<and> loads sys (mc_disk m) (cs ! j))"
      using ih by (auto simp: tightened_trusts [OF tg] tightened_loads [OF tg] split: option.splits)
    ultimately show ?thesis
      using ih tightened_trans [OF tg] by (auto simp: nth_Cons less_Suc_eq_0_disj split: nat.split option.splits)
  qed
qed simp

text \<open>A launch: the first candidates hold nothing that loads, or the document \<open>doc\<close> itself; the next holds it.\<close>

lemma load_loop_step:
  assumes "candidate_trusted sys path from_env m = (tr, m1)"
    "native_config_try_load_candidate sys t path (\<not> from_env) m1 = (r, t1, m2)"
  shows "load_loop sys ((path, from_env) # rest) t m =
    (if tr \<and> r = NATIVE_CONFIG_LOAD_OK then (t1, m2)
     else load_loop sys rest (if tr then t1 else t) (if tr then m2 else m1))"
  using assms by (cases r) auto

lemma load_loop_saved:
  assumes "stable sys" "\<forall>t. settings_wf t \<longrightarrow> native_settings_apply_json (object_copies sys) t doc = (True, s)"
    and "trusts sys disk c0" "read_of sys disk (fst c0) (\<not> snd c0) = ReadText doc"
  shows "\<forall>c \<in> set cs. trusts sys disk c \<longrightarrow> loads sys disk c \<longrightarrow> read_of sys disk (fst c) (\<not> snd c) = ReadText doc \<Longrightarrow>
    tightened sys disk (mc_disk m) \<Longrightarrow> settings_wf t \<Longrightarrow> fst (load_loop sys (cs @ c0 # rest) t m) = s"
proof (induction cs arbitrary: t m)
  case Nil
  obtain path from_env where c: "c0 = (path, from_env)" by fastforce
  obtain tr m1 where t: "candidate_trusted sys path from_env m = (tr, m1)" by fastforce
  note kt = trust_stable [OF assms(1) t]
  obtain o1 s1 m2 where o: "native_config_try_load_candidate sys t path (\<not> from_env) m1 = (o1, s1, m2)"
    by (metis prod_cases3)
  note ko = try_stable [OF assms(1) Nil.prems(3) o]
  have tg: "tightened sys disk (mc_disk m1)" using Nil.prems(2) kt tightened_trans by blast
  have rd: "read_of sys (mc_disk m1) path (\<not> from_env) = ReadText doc"
    using assms(4) by (simp add: c tightened_read [OF tg])
  have tr using kt assms(3) tightened_trusts [OF Nil.prems(2), of c0] by (simp add: c)
  moreover have "loads sys (mc_disk m1) (path, from_env)"
    using rd assms(2) settings_defaults_wf by (simp add: loads_def)
  moreover have "s1 = s" using ko(4) [OF rd] assms(2) Nil.prems(3) by simp
  ultimately show ?case using ko(1) by (simp add: c load_loop_step [OF t o] del: load_loop.simps)
next
  case (Cons c cs)
  obtain path from_env where c: "c = (path, from_env)" by fastforce
  obtain tr m1 where t: "candidate_trusted sys path from_env m = (tr, m1)" by fastforce
  note kt = trust_stable [OF assms(1) t]
  obtain o1 s1 m2 where o: "native_config_try_load_candidate sys t path (\<not> from_env) m1 = (o1, s1, m2)"
    by (metis prod_cases3)
  note ko = try_stable [OF assms(1) Cons.prems(3) o]
  have tg: "tightened sys disk (mc_disk m1)" using Cons.prems(2) kt tightened_trans by blast
  show ?case
  proof (cases "tr \<and> o1 = NATIVE_CONFIG_LOAD_OK")
    case True
    have "trusts sys disk c" using True kt tightened_trusts [OF Cons.prems(2), of c] by (simp add: c)
    moreover have "loads sys disk c" using True ko(1) tightened_loads [OF tg, of c] by (simp add: c)
    ultimately have "read_of sys disk path (\<not> from_env) = ReadText doc" using Cons.prems(1) by (simp add: c)
    then have "s1 = s" using ko(4) assms(2) Cons.prems(3) tightened_read [OF tg] by simp
    then show ?thesis using True by (simp add: c load_loop_step [OF t o] del: load_loop.simps)
  next
    case False
    then have "load_loop sys ((c # cs) @ c0 # rest) t m = load_loop sys (cs @ c0 # rest) t (if tr then m2 else m1)"
      using ko(3) by (auto simp: c load_loop_step [OF t o] simp del: load_loop.simps)
    moreover have "tightened sys disk (mc_disk (if tr then m2 else m1))" using tg ko(2) by simp
    ultimately show ?thesis using Cons.IH Cons.prems by (simp del: load_loop.simps)
  qed
qed

section \<open>What a save changes\<close>

text \<open>Beside the new file, two entries of one directory.\<close>

definition same_dir :: "nat \<Rightarrow> string \<Rightarrow> string \<Rightarrow> nat \<Rightarrow> DirNode \<Rightarrow> DirNode \<Rightarrow> bool" where
  "same_dir d name tmp d' n n' \<longleftrightarrow> dn_is_dir n' = dn_is_dir n \<and> dn_owner n' = dn_owner n \<and> dn_mode n' = dn_mode n \<and>
     (\<forall>a. d' = d \<and> a \<in> {name, tmp} \<or> dn_entries n' a = dn_entries n a)"

definition frame :: "Sys \<Rightarrow> nat \<Rightarrow> string \<Rightarrow> string \<Rightarrow> nat \<Rightarrow> Disk \<Rightarrow> Disk \<Rightarrow> bool" where
  "frame sys d name tmp i start disk \<longleftrightarrow> dk_path disk = dk_path start \<and>
     (\<forall>j. j \<noteq> i \<longrightarrow> dk_files disk j = dk_files start j) \<and>
     (\<forall>d'. rel_option (same_dir d name tmp d') (dk_dirs start d') (dk_dirs disk d')) \<and>
     (\<forall>f. dk_files disk i = Some f \<longrightarrow> private_file_ok sys f)"

lemma path_changes [simp]: "dk_path (set_file i f disk) = dk_path disk" "dk_path (write_data i t disk) = dk_path disk"
  "dk_path (sync_data i disk) = dk_path disk" "dk_path (set_entries d e disk) = dk_path disk"
  "dk_path (remove_entry d a disk) = dk_path disk" "dk_path (move_entry d a b disk) = dk_path disk"
  "dk_path (sync_entries d disk) = dk_path disk"
  by (simp_all add: set_file_def write_data_def sync_data_def set_entries_def remove_entry_def move_entry_def
      sync_entries_def split: option.splits)

lemma frame_data:
  "frame sys d name tmp i start disk \<Longrightarrow> frame sys d name tmp i start (write_data i t disk)"
  "frame sys d name tmp i start disk \<Longrightarrow> frame sys d name tmp i start (sync_data i disk)"
  by (auto simp: frame_def files_same private_file_ok_def)

lemma same_dir_entries:
  "same_dir d name tmp d' n n' \<Longrightarrow> \<forall>a. d' = d \<and> a \<in> {name, tmp} \<or> t a = dn_entries n' a \<Longrightarrow>
   same_dir d name tmp d' n (n'\<lparr>dn_entries := t, dn_unsynced := u\<rparr>)"
  by (simp add: same_dir_def) metis

lemma frame_dirs:
  assumes "frame sys d name tmp i start disk" "dk_path disk' = dk_path disk" "dk_files disk' = dk_files disk"
    and "dk_dirs disk' = dk_dirs disk \<or> (\<exists>n t u. dk_dirs disk d = Some n \<and>
      dk_dirs disk' = (dk_dirs disk)(d \<mapsto> n\<lparr>dn_entries := t, dn_unsynced := u\<rparr>) \<and>
      (\<forall>a. a \<in> {name, tmp} \<or> t a = dn_entries n a))"
  shows "frame sys d name tmp i start disk'"
proof -
  have "rel_option (same_dir d name tmp d') (dk_dirs start d') (dk_dirs disk' d')" for d'
  proof -
    have r: "rel_option (same_dir d name tmp d') (dk_dirs start d') (dk_dirs disk d')"
      using assms(1) by (simp add: frame_def)
    show ?thesis
      using assms(4) r by (cases "dk_dirs start d'"; cases "dk_dirs disk d'") (auto intro!: same_dir_entries)
  qed
  then show ?thesis using assms(1-3) by (simp add: frame_def)
qed

lemma frame_node:
  assumes "frame sys d name tmp i start disk" "dk_dirs disk d = Some n" "\<forall>a. a \<in> {name, tmp} \<or> t a = dn_entries n a"
  shows "frame sys d name tmp i start (disk\<lparr>dk_dirs := (dk_dirs disk)(d \<mapsto> n\<lparr>dn_entries := t, dn_unsynced := u\<rparr>)\<rparr>)"
proof (rule frame_dirs [OF assms(1)])
  let ?k = "disk\<lparr>dk_dirs := (dk_dirs disk)(d \<mapsto> n\<lparr>dn_entries := t, dn_unsynced := u\<rparr>)\<rparr>"
  have "dk_dirs ?k = (dk_dirs disk)(d \<mapsto> n\<lparr>dn_entries := t, dn_unsynced := u\<rparr>)" by simp
  with assms(2,3) show "dk_dirs ?k = dk_dirs disk \<or> (\<exists>n t u. dk_dirs disk d = Some n \<and>
      dk_dirs ?k = (dk_dirs disk)(d \<mapsto> n\<lparr>dn_entries := t, dn_unsynced := u\<rparr>) \<and>
      (\<forall>a. a \<in> {name, tmp} \<or> t a = dn_entries n a))" by blast
qed simp_all

lemma frame_set:
  assumes "frame sys d name tmp i start disk"
    "\<And>n. dk_dirs disk d = Some n \<Longrightarrow> \<forall>a. a \<in> {name, tmp} \<or> t a = dn_entries n a"
  shows "frame sys d name tmp i start (set_entries d t disk)"
proof (cases "dk_dirs disk d")
  case (Some n)
  from frame_node [OF assms(1) Some assms(2) [OF Some]] show ?thesis by (simp add: set_entries_def Some)
qed (use assms(1) in \<open>simp add: set_entries_def\<close>)

lemma frame_entries:
  assumes "frame sys d name tmp i start disk"
  shows "frame sys d name tmp i start (remove_entry d tmp disk)" "frame sys d name tmp i start (move_entry d tmp name disk)"
    "frame sys d name tmp i start (sync_entries d disk)"
proof -
  show "frame sys d name tmp i start (remove_entry d tmp disk)"
  proof (cases "dk_dirs disk d")
    case (Some n)
    have "frame sys d name tmp i start (set_entries d ((dn_entries n)(tmp := None)) disk)"
      by (rule frame_set [OF assms]) (simp add: Some)
    then show ?thesis by (simp add: remove_entry_def Some)
  qed (use assms in \<open>simp add: remove_entry_def\<close>)
  show "frame sys d name tmp i start (move_entry d tmp name disk)"
  proof (cases "dk_dirs disk d")
    case (Some n)
    have "frame sys d name tmp i start (set_entries d ((dn_entries n)(name := dn_entries n tmp, tmp := None)) disk)"
      by (rule frame_set [OF assms]) (simp add: Some)
    then show ?thesis by (simp add: move_entry_def Some)
  qed (use assms in \<open>simp add: move_entry_def\<close>)
  show "frame sys d name tmp i start (sync_entries d disk)"
  proof (cases "dk_dirs disk d")
    case (Some n)
    from frame_node [OF assms Some, of "dn_entries n" "[]"] show ?thesis by (simp add: sync_entries_def Some)
  qed (use assms in \<open>simp add: sync_entries_def\<close>)
qed

text \<open>Any property of disks the calls on the stream keep.\<close>

lemma save_stream_keeps:
  assumes "save_stream sys text d i tmp name m = (ok, m')" "P (mc_disk m)"
    and "\<And>k t. P k \<Longrightarrow> P (write_data i t k)" "\<And>k. P k \<Longrightarrow> P (sync_data i k)" "\<And>k. P k \<Longrightarrow> P (remove_entry d tmp k)"
    "\<And>k. P k \<Longrightarrow> P (move_entry d tmp name k)" "\<And>k. P k \<Longrightarrow> P (sync_entries d k)"
  shows "P (mc_disk m')"
proof -
  have w: "P (mc_disk m) \<Longrightarrow> P (mc_disk (snd (write_stream sys i text m)))" for m
    using assms(3) by (simp add: write_stream_def ask_def)
  have f: "P (mc_disk m) \<Longrightarrow> P (mc_disk (snd (and_then b (flush_stream sys i text) m)))" for m b
    using assms(3) by (simp add: and_then_def flush_stream_def ask_def)
  have s: "P (mc_disk m) \<Longrightarrow> P (mc_disk (snd (and_then b (sync_file sys i) m)))" for m b
    using assms(4) by (simp add: and_then_def sync_file_def ask_def)
  have c: "P (mc_disk m) \<Longrightarrow> P (mc_disk (snd (close_stream sys i b text m)))" for m b
    using assms(3) by (simp add: close_stream_def ask_def)
  have r: "P (mc_disk m) \<Longrightarrow> P (mc_disk (snd (and_then b (renameat sys d tmp name) m)))" for m b
    using assms(6) by (simp add: and_then_def renameat_def ask_def)
  have e: "P (mc_disk m) \<Longrightarrow> P (mc_disk (snd (and_then b (sync_directory sys d) m)))" for m b
    using assms(7) by (simp add: and_then_def sync_directory_def ask_def)
  have u: "P (mc_disk m) \<Longrightarrow> P (mc_disk (unlinkat sys d tmp m))" for m
    using assms(5) by (simp add: unlinkat_def ask_def)
  have a: "mc_disk (snd (ask sys c m)) = mc_disk m" for c m by (simp add: ask_def)
  obtain w0 m1 where 1: "write_stream sys i text m = (w0, m1)" by fastforce
  obtain told m2 where 2: "ask sys Ftell m1 = (told, m2)" by fastforce
  define ok1 where "ok1 \<longleftrightarrow> w0 \<and> told \<and> length text \<le> NATIVE_CONFIG_MAX_FILE"
  obtain fl m3 where 3: "and_then ok1 (flush_stream sys i text) m2 = (fl, m3)" by fastforce
  obtain sy m4 where 4: "and_then fl (sync_file sys i) m3 = (sy, m4)" by fastforce
  obtain cl m5 where 5: "close_stream sys i fl text m4 = (cl, m5)" by fastforce
  obtain rn m6 where 6: "and_then (sy \<and> cl) (renameat sys d tmp name) m5 = (rn, m6)" by fastforce
  obtain sd m7 where 7: "and_then rn (sync_directory sys d) m6 = (sd, m7)" by fastforce
  have "m' = (if sd then m7 else unlinkat sys d tmp m7)"
    using assms(1) by (auto simp: save_stream_def 1 2 3 4 5 6 7 ok1_def [symmetric])
  moreover have "P (mc_disk m7)"
    using w [OF assms(2)] a [of Ftell m1] f [of m2 ok1] s [of m3 fl] c [of m4 fl] r [of m5 "sy \<and> cl"] e [of m6 rn]
    by (simp add: 1 2 3 4 5 6 7)
  ultimately show ?thesis using u by simp
qed

lemma same_dir_refl: "same_dir d name tmp d' n n"
  by (simp add: same_dir_def)

lemma frame_new:
  assumes "disk = start \<or> disk = remove_entry d tmp start" "i = dk_next disk"
  shows "frame sys d name tmp i start (add_file d tmp (new_file (sy_euid sys) MODE_0600) disk)"
proof -
  let ?f = "new_file (sy_euid sys) MODE_0600"
  define start' where "start' = start\<lparr>dk_files := (dk_files start)(i \<mapsto> ?f), dk_next := i + 1\<rparr>"
  define disk' where "disk' = disk\<lparr>dk_files := (dk_files disk)(i \<mapsto> ?f), dk_next := i + 1\<rparr>"
  have f0: "frame sys d name tmp i start start'"
    by (auto simp: frame_def start'_def private_file_ok_def new_file_def same_dir_refl option.rel_refl)
  have "disk' = start' \<or> disk' = remove_entry d tmp start'"
    using assms(1) by (auto simp: disk'_def start'_def remove_entry_def set_entries_def split: option.splits)
  then have f1: "frame sys d name tmp i start disk'" using f0 frame_entries(1) by metis
  have dd: "dk_dirs disk' = dk_dirs disk" by (simp add: disk'_def)
  have "add_file d tmp ?f disk =
      set_entries d ((case dk_dirs disk d of None \<Rightarrow> Map.empty | Some n \<Rightarrow> dn_entries n)(tmp \<mapsto> File i)) disk'"
    by (simp add: add_file_def disk'_def assms(2))
  also have "frame sys d name tmp i start \<dots>"
    by (rule frame_set [OF f1]) (simp add: dd)
  finally show ?thesis .
qed

text \<open>A save that succeeded: the checks it made of the directory, and the disk it left.\<close>

definition saved :: "Sys \<Rightarrow> nat \<Rightarrow> string \<Rightarrow> nat \<Rightarrow> string \<Rightarrow> Disk \<Rightarrow> Disk \<Rightarrow> bool" where
  "saved sys d name i doc start disk \<longleftrightarrow> frame sys d name (name @ ''.tmp'') i start disk \<and>
     entry_at disk d name = Some (File i) \<and> entry_at disk d (name @ ''.tmp'') = None \<and>
     (\<exists>f. dk_files disk i = Some f \<and> fl_data f = doc) \<and> length doc \<le> NATIVE_CONFIG_MAX_FILE"

lemma save_checks:
  assumes "stable sys" "native_settings_save_file_checked sys s path True m = (True, m')"
  shows "\<exists>dir d n. native_config_parent_dir NATIVE_PERSISTED_CONFIG_PATH_MAX path = Some dir \<and>
    \<not> refused sys (OpenDirectory dir) \<and> dk_path (mc_disk m) (canonical dir) = Some (False, d) \<and>
    directory_at (mc_disk m) dir = Some d \<and> dk_dirs (mc_disk m) d = Some n \<and> dn_is_dir n \<and>
    dn_owner n = sy_euid sys \<and> \<not> others_may_write (dn_mode n)"
proof -
  obtain dir where dir: "native_config_parent_dir NATIVE_PERSISTED_CONFIG_PATH_MAX path = Some dir"
    using assms(2) by (auto simp: native_settings_save_file_checked_def split: option.splits)
  obtain od m1 where od: "open_directory sys dir m = (od, m1)" by fastforce
  obtain d where d: "od = Some d"
    using assms(2) by (cases od) (auto simp: native_settings_save_file_checked_def dir od Let_def split: if_splits)
  obtain pr m2 where pr: "private_directory sys d m1 = (pr, m2)" by fastforce
  have pr1: pr using assms(2)
    by (auto simp: native_settings_save_file_checked_def dir od d pr Let_def split: if_splits)
  have o: "\<not> refused sys (OpenDirectory dir)" "directory_at (mc_disk m) dir = Some d" "mc_disk m1 = mc_disk m"
    "\<exists>x. dk_path (mc_disk m) (canonical dir) = Some (False, x)"
    using od d by (auto simp: open_directory_def ask_stable [OF assms(1)] split: if_splits option.splits bool.splits)
  then have "dk_path (mc_disk m) (canonical dir) = Some (False, d)"
    "\<exists>n. dk_dirs (mc_disk m) d = Some n \<and> dn_is_dir n"
    by (auto simp: directory_at_def split: option.splits if_splits)
  then show ?thesis
    using dir o pr pr1 by (auto simp: private_directory_def ask_stable [OF assms(1)])
qed

lemma save_saved:
  assumes "stable sys" "native_settings_save_file_checked sys s path True m = (True, m')"
    and "native_config_parent_dir NATIVE_PERSISTED_CONFIG_PATH_MAX path = Some dir" "directory_at (mc_disk m) dir = Some d"
  shows "\<exists>i. saved sys d (after_slash path) i (native_settings_write_json s) (mc_disk m) (mc_disk m')"
proof -
  let ?n = "after_slash path" and ?t = "after_slash path @ ''.tmp''" and ?doc = "native_settings_write_json s"
  from save_cases [OF assms(2,3,4)] obtain i m1 disk where
    st: "stage (mc_past m) d ?n ?t i (mc_disk m) (\<lambda>_. True) m1"
    and k: "disk = mc_disk m \<or> disk = remove_entry d ?t (mc_disk m)"
    and m1: "mc_disk m1 = add_file d ?t (new_file (sy_euid sys) MODE_0600) disk" "i = dk_next disk"
    and sv: "save_stream sys ?doc d i ?t ?n m1 = (True, m')" by blast
  have "frame sys d ?n ?t i (mc_disk m) (mc_disk m1)" unfolding m1(1) by (rule frame_new [OF k m1(2)])
  then have fr: "frame sys d ?n ?t i (mc_disk m) (mc_disk m')"
    by (rule save_stream_keeps [OF sv, where P = "frame sys d ?n ?t i (mc_disk m)"]) (rule frame_data frame_entries; assumption)+
  from save_stream_replaced(2) [OF sv st temporary_differs(1)] obtain f k' where
    f: "dk_files (mc_disk m') i = Some f" "fl_data f = ?doc" "length ?doc \<le> NATIVE_CONFIG_MAX_FILE"
    and k': "mc_disk m' = sync_entries d (move_entry d ?t ?n k')" "entry_at k' d ?t = Some (File i)" by blast
  have "entry_at (mc_disk m') d ?t = None"
    using k' by (auto simp: entry_at_def sync_entries_def move_entry_def set_entries_def split: option.splits)
  then show ?thesis using fr f saved_version(2) [OF k' temporary_differs(1)] unfolding saved_def by blast
qed

lemma saved_entry:
  assumes "saved sys d name i doc start disk"
  shows "entry_at disk d' a = entry_at start d' a \<or> entry_at disk d' a = None \<or> entry_at disk d' a = Some (File i)"
proof (cases "d' = d \<and> a \<in> {name, name @ ''.tmp''}")
  case False
  have "rel_option (same_dir d name (name @ ''.tmp'') d') (dk_dirs start d') (dk_dirs disk d')"
    using assms by (simp add: saved_def frame_def)
  then show ?thesis
    using False by (cases "dk_dirs start d'"; cases "dk_dirs disk d'") (auto simp: entry_at_def same_dir_def)
qed (use assms in \<open>auto simp: saved_def\<close>)

lemma saved_directory:
  assumes "saved sys d name i doc start disk"
  shows "directory_at disk path = directory_at start path" "healable sys disk dir = healable sys start dir"
proof -
  have p: "dk_path disk = dk_path start" using assms by (simp add: saved_def frame_def)
  have r: "rel_option (same_dir d name (name @ ''.tmp'') d') (dk_dirs start d') (dk_dirs disk d')" for d'
    using assms by (simp add: saved_def frame_def)
  show "directory_at disk path = directory_at start path"
  proof (cases "dk_path start (canonical path)")
    case (Some x)
    then show ?thesis
      using r [of "snd x"] by (cases x; cases "dk_dirs start (snd x)"; cases "dk_dirs disk (snd x)")
        (auto simp: directory_at_def p same_dir_def)
  qed (simp add: directory_at_def p)
  show "healable sys disk dir = healable sys start dir"
  proof (cases "dk_path start (canonical dir)")
    case (Some x)
    then show ?thesis
      using r [of "snd x"] by (cases x; cases "dk_dirs start (snd x)"; cases "dk_dirs disk (snd x)")
        (auto simp: healable_def p same_dir_def split: bool.splits)
  qed (simp add: healable_def p)
qed

lemma saved_trusts: "saved sys d name i doc start disk \<Longrightarrow> trusts sys disk c = trusts sys start c"
  by (simp add: trusts_def saved_directory split: option.split)

text \<open>Reading any candidate afterwards: as before, or nothing, or the saved document.\<close>

lemma read_node_data: "fl_data f = doc \<Longrightarrow> read_node sys pf f = ReadFailed \<or> read_node sys pf f = ReadText doc"
  by (simp add: read_node_def)

lemma saved_follow:
  assumes "saved sys d name i doc start disk"
  shows "follow disk (entry_at disk d' a) = follow start (entry_at start d' a) \<or>
    follow disk (entry_at disk d' a) = None \<or> follow disk (entry_at disk d' a) = Some i"
proof -
  note e = saved_entry [OF assms]
  show ?thesis
  proof (cases "entry_at disk d' a")
    case (Some x)
    show ?thesis
    proof (cases x)
      case (Link d2 b)
      then have s: "entry_at start d' a = Some (Link d2 b)" using e [of d' a] Some by auto
      from e [of d2 b] show ?thesis by (elim disjE) (simp_all add: Some Link s follow_def)
    next
      case (File j)
      have "entry_at start d' a = Some (File j) \<or> j = i" using e [of d' a] unfolding Some File by auto
      then show ?thesis by (elim disjE) (simp_all add: Some File follow_def)
    qed
  qed (simp add: follow_def)
qed

lemma saved_read:
  assumes "saved sys d name i doc start disk"
  shows "read_of sys disk path pf \<in> {read_of sys start path pf, ReadMissing, ReadFailed, ReadText doc}"
proof (cases "refused sys (Open path)")
  case False
  obtain f where f: "dk_files disk i = Some f" "fl_data f = doc" using assms by (auto simp: saved_def)
  have fs: "j \<noteq> i \<Longrightarrow> dk_files disk j = dk_files start j" for j using assms by (simp add: saved_def frame_def)
  show ?thesis
  proof (cases "directory_at start (walk path)")
    case (Some d')
    let ?a = "after_slash path"
    have op: "opened sys k path pf = (case entry_at k d' ?a of None \<Rightarrow> None | Some e \<Rightarrow>
        if pf \<and> (\<exists>d n. e = Link d n) then Some None
        else (case follow k (Some e) of None \<Rightarrow> None | Some i \<Rightarrow> map_option (\<lambda>f. Some (i, f)) (dk_files k i)))"
      if "directory_at k (walk path) = Some d'" for k
      using False that by (simp add: opened_def)
    note o1 = op [OF Some] and o2 = op [of disk, unfolded saved_directory [OF assms], OF Some]
    show ?thesis
    proof (cases "entry_at disk d' ?a")
      case None
      then show ?thesis using o2 by (simp add: read_of_def)
    next
      case e: (Some x)
      show ?thesis
      proof (cases "pf \<and> (\<exists>d n. x = Link d n)")
        case True
        then show ?thesis using o2 e by (simp add: read_of_def)
      next
        case plain: False
        have r2: "read_of sys disk path pf = (case follow disk (Some x) of None \<Rightarrow> ReadMissing
            | Some j \<Rightarrow> (case dk_files disk j of None \<Rightarrow> ReadMissing | Some f \<Rightarrow> read_node sys pf f))"
          using o2 e plain by (auto simp: read_of_def split: option.split)
        from saved_follow [OF assms, of d' ?a] e consider
          (old) "follow disk (Some x) = follow start (entry_at start d' ?a)" "follow disk (Some x) \<notin> {None, Some i}"
          | (gone) "follow disk (Some x) = None" | (new) "follow disk (Some x) = Some i"
          by (cases "follow disk (Some x) = None"; cases "follow disk (Some x) = Some i") auto
        then show ?thesis
        proof cases
          case old
          then obtain j where j: "follow disk (Some x) = Some j" "j \<noteq> i" by auto
          have "entry_at start d' ?a = Some x"
            using saved_entry [OF assms, of d' ?a] e j by (auto simp: follow_def)
          then have "read_of sys start path pf = read_of sys disk path pf"
            using o1 plain old j fs [OF j(2)] unfolding r2 by (auto simp: read_of_def split: option.split)
          then show ?thesis by simp
        next
          case gone
          then show ?thesis unfolding r2 by simp
        next
          case new
          then show ?thesis unfolding r2 using f read_node_data [OF f(2), of sys pf] by auto
        qed
      qed
    qed
  qed (use saved_directory(1) [OF assms, of "walk path"] in \<open>simp add: read_of_def opened_def\<close>)
qed (simp add: read_of_def opened_def)

section \<open>The next launch\<close>

text \<open>
  Reading works: no memory or I/O error, and a file can be opened in a directory that can.
\<close>

definition reads_work :: "Sys \<Rightarrow> NativeConfigPathCandidates \<Rightarrow> bool" where
  "reads_work sys candidates \<longleftrightarrow>
     (\<forall>c \<in> {Fstat, Fdopen, Fseek, Ftell, Calloc, Fread}. \<not> refused sys c) \<and>
     (\<forall>k. \<not> refused sys (CallocObject k)) \<and>
     (\<forall>(path, from_env) \<in> set candidates. \<forall>dir.
        native_config_parent_dir NATIVE_PERSISTED_CONFIG_PATH_MAX path = Some dir \<longrightarrow>
        \<not> refused sys (OpenDirectory dir) \<longrightarrow> \<not> refused sys (Open path))"

text \<open>The chosen candidate's directory passed the check.\<close>

lemma writable_lstat:
  assumes "stable sys" "native_config_persisted_path_writable sys path m = (True, m')"
    "native_config_parent_dir NATIVE_PERSISTED_CONFIG_PATH_MAX path = Some dir"
  shows "dir \<noteq> [] \<and> \<not> refused sys (Lstat dir)"
proof -
  obtain b m1 where k: "native_config_mkdir_p sys dir m = (b, m1)" by fastforce
  obtain h m2 where h: "native_config_dir_secure_or_heal sys dir m1 = (h, m2)" by fastforce
  have h using assms(2,3)
    by (auto simp: native_config_persisted_path_writable_def native_config_dir_writable_def k h split: if_splits)
  with heal_stable [OF assms(1) h] have "healable sys (mc_disk m1) dir" by simp
  then show ?thesis by (simp add: healable_def)
qed

lemma save_candidate_found:
  "save_candidate_loop sys cs i m = (Some j, m') \<Longrightarrow> i \<le> j \<and> j - i < length cs \<and>
   (\<exists>k k'. native_config_persisted_path_writable sys (fst (cs ! (j - i))) k = (True, k'))"
proof (induction cs arbitrary: i m)
  case (Cons c cs)
  obtain path from_env where c: "c = (path, from_env)" by fastforce
  obtain b m1 where b: "native_config_persisted_path_writable sys path m = (b, m1)" by fastforce
  show ?case
  proof (cases b)
    case True
    then show ?thesis using Cons.prems b by (auto simp: c)
  next
    case False
    with Cons.prems have r: "save_candidate_loop sys cs (i + 1) m1 = (Some j, m')" by (simp add: c b)
    from Cons.IH [OF r] show ?thesis
      by (auto simp: nth_Cons Suc_diff_le split: nat.split) (metis Suc_diff_Suc Suc_le_lessD diff_Suc_Suc nat.inject)+
  qed
qed simp

text \<open>
  The walk of the kernel and \<open>native_config_parent_dir\<close> agree on the directory.
\<close>

lemma path_split:
  assumes "has_slash path"
  shows "path = before_slash path @ CHR ''/'' # after_slash path"
proof -
  let ?P = "\<lambda>c. c \<noteq> CHR ''/''"
  have "dropWhile ?P (rev path) \<noteq> []" using assms by (auto simp: has_slash_def dropWhile_eq_Nil_conv)
  then obtain c r where d: "dropWhile ?P (rev path) = c # r" by (cases "dropWhile ?P (rev path)") auto
  have "c = CHR ''/''" using hd_dropWhile [of ?P "rev path"] d by simp
  with d have "rev path = takeWhile ?P (rev path) @ CHR ''/'' # r" using takeWhile_dropWhile_id [of ?P "rev path"] by simp
  then have "rev (rev path) = rev (takeWhile ?P (rev path) @ CHR ''/'' # r)" by (rule arg_cong)
  then have p: "path = rev r @ CHR ''/'' # after_slash path" by (simp add: after_slash_def)
  have len: "length path = length r + 1 + length (after_slash path)" using arg_cong [OF p, of length] by simp
  have "take (length r) (rev r @ CHR ''/'' # after_slash path) = rev r" by simp
  then have "take (length r) path = rev r" unfolding p [symmetric] .
  then have "before_slash path = rev r" by (simp add: before_slash_def len)
  with p show ?thesis by simp
qed

lemma parent_walk:
  assumes "native_config_parent_dir cap path = Some dir"
  shows "walk path = dir"
proof (cases "has_slash path")
  case False
  then show ?thesis using assms by (simp add: native_config_parent_dir_def walk_def native_config_copy_path_def split: if_splits)
next
  case True
  let ?slash = "length path - length (after_slash path) - 1"
  have len: "length path = length (before_slash path) + 1 + length (after_slash path)"
    using arg_cong [OF path_split [OF True], of length] by simp
  then have s: "?slash = length (before_slash path)" by simp
  have d: "dir = take (if ?slash = 0 then 1 else ?slash) path"
    using assms True by (auto simp: native_config_parent_dir_def Let_def split: if_splits)
  show ?thesis
  proof (cases "before_slash path = []")
    case b: True
    then have "path = CHR ''/'' # after_slash path" using path_split [OF True] by simp
    then have "take 1 path = ''/''" by (cases path) simp_all
    then show ?thesis using True b d s by (simp add: walk_def)
  next
    case b: False
    then show ?thesis using True d s by (simp add: walk_def before_slash_def)
  qed
qed

lemma save_persisted_stable:
  assumes stable: "stable sys" and wf: "settings_wf s"
    and save: "native_config_save_persisted sys env s m = (True, m')"
    and works: "reads_work sys cands" and cands: "cands = native_config_collect_persisted_candidates sys env"
  shows "\<exists>before c0 rest. cands = before @ c0 # rest \<and> trusts sys (mc_disk m') c0 \<and>
    read_of sys (mc_disk m') (fst c0) (\<not> snd c0) = ReadText (native_settings_write_json s) \<and>
    (\<forall>c \<in> set before. trusts sys (mc_disk m') c \<longrightarrow> loads sys (mc_disk m') c \<longrightarrow>
       read_of sys (mc_disk m') (fst c) (\<not> snd c) = ReadText (native_settings_write_json s))"
proof -
  let ?doc = "native_settings_write_json s"
  obtain oi m1 where f: "native_config_find_persisted_save_candidate sys cands m = (oi, m1)" by fastforce
  obtain i where i: "oi = Some i"
    using save f by (cases oi) (auto simp: native_config_save_persisted_def cands)
  obtain fl m2 where l: "first_loadable sys s cands 0 m1 = (fl, m2)" by fastforce
  have nl: "\<not> (case fl of None \<Rightarrow> False | Some x \<Rightarrow> i > x)"
    and sv: "native_settings_save_file_checked sys s (fst (cands ! i)) True m2 = (True, m')"
    using save f l unfolding native_config_save_persisted_def cands [symmetric] i Let_def
    by (auto split: if_splits)
  have found: "i < length cands"
    "\<exists>k k'. native_config_persisted_path_writable sys (fst (cands ! i)) k = (True, k')"
    using save_candidate_found [of sys cands 0 m i m1] f i
    by (auto simp: native_config_find_persisted_save_candidate_def)
  define c0 where "c0 = cands ! i"
  have split: "cands = take i cands @ c0 # drop (Suc i) cands" using found(1) by (simp add: c0_def id_take_nth_drop [symmetric])
  obtain dir d n where dir: "native_config_parent_dir NATIVE_PERSISTED_CONFIG_PATH_MAX (fst c0) = Some dir"
    "\<not> refused sys (OpenDirectory dir)" "dk_path (mc_disk m2) (canonical dir) = Some (False, d)"
    "directory_at (mc_disk m2) dir = Some d" "dk_dirs (mc_disk m2) d = Some n" "dn_is_dir n"
    "dn_owner n = sy_euid sys" "\<not> others_may_write (dn_mode n)"
    using save_checks [OF stable sv] by (auto simp: c0_def)
  obtain j where sd: "saved sys d (after_slash (fst c0)) j ?doc (mc_disk m2) (mc_disk m')"
    using save_saved [OF stable sv [folded c0_def] dir(1,4)] by blast
  have lst: "dir \<noteq> []" "\<not> refused sys (Lstat dir)"
    using writable_lstat [OF stable _ dir(1)] found(2) by (auto simp: c0_def)
  have "healable sys (mc_disk m2) dir" using lst dir by (simp add: healable_def)
  then have tr: "trusts sys (mc_disk m') c0"
    using dir(1) by (simp add: saved_trusts [OF sd]) (simp add: trusts_def)
  have "c0 \<in> set cands" using found(1) by (simp add: c0_def)
  then have op: "\<not> refused sys (Open (fst c0))"
    using works dir(1,2) unfolding reads_work_def by (cases c0) auto
  have rd: "read_of sys (mc_disk m') (fst c0) (\<not> snd c0) = ReadText ?doc"
  proof -
    obtain f where f: "dk_files (mc_disk m') j = Some f" "fl_data f = ?doc" using sd by (auto simp: saved_def)
    have fo: "private_file_ok sys f" "length ?doc \<le> NATIVE_CONFIG_MAX_FILE"
      "entry_at (mc_disk m') d (after_slash (fst c0)) = Some (File j)"
      using sd f by (auto simp: saved_def frame_def)
    have "directory_at (mc_disk m') (walk (fst c0)) = Some d"
      by (simp add: parent_walk [OF dir(1)] saved_directory [OF sd] dir(4))
    then have "opened sys (mc_disk m') (fst c0) (\<not> snd c0) = Some (Some (j, f))"
      using op fo(3) f by (simp add: opened_def follow_def)
    moreover have "\<forall>c \<in> {Fstat, Fdopen, Fseek, Ftell, Calloc, Fread}. \<not> refused sys c"
      using works by (simp add: reads_work_def)
    ultimately show ?thesis
      using fo f document_text [of s] by (simp add: read_of_def read_node_def)
  qed
  have before: "read_of sys (mc_disk m') (fst c) (\<not> snd c) = ReadText ?doc"
    if mem: "c \<in> set (take i cands)" and ld: "trusts sys (mc_disk m') c" "loads sys (mc_disk m') c" for c
  proof -
    obtain x where x: "x < i" "c = cands ! x" using mem found(1) by (auto simp: in_set_conv_nth)
    have "\<not> (trusts sys (mc_disk m1) c \<and> loads sys (mc_disk m1) c)"
      using first_loadable_stable [OF stable wf l] nl x found(1) by (auto split: option.splits)
    moreover have tg: "tightened sys (mc_disk m1) (mc_disk m2)" using first_loadable_stable [OF stable wf l] by simp
    ultimately have "\<not> loads sys (mc_disk m2) c"
      using ld(1) saved_trusts [OF sd] tightened_trusts [OF tg] tightened_loads [OF tg] by simp
    moreover have "read_of sys (mc_disk m') (fst c) (\<not> snd c) \<in>
        {read_of sys (mc_disk m2) (fst c) (\<not> snd c), ReadMissing, ReadFailed, ReadText ?doc}"
      by (rule saved_read [OF sd])
    ultimately show ?thesis using ld(2) by (auto simp: loads_def)
  qed
  show ?thesis using split tr rd before by blast
qed

text \<open>
  C6: settings whose save was confirmed are the settings of the next launch: whatever the other
  candidates hold, whatever was loaded before, and whatever directories were created, tightened or
  skipped on the way, \<open>native_config_load_persisted\<close> restores every field of them.
\<close>

theorem saved_settings_load_again:
  assumes "stable sys" "reads_work sys (native_config_collect_persisted_candidates sys env)"
    and "settings_wf s" "native_config_save_persisted sys env s m = (True, m')"
    and "settings_wf old" "mc_disk later = mc_disk m'" "ce_ignore_saved env \<noteq> Some ''1''"
  shows "fst (native_config_load_persisted sys env old False later) = s"
proof -
  let ?cands = "native_config_collect_persisted_candidates sys env" and ?doc = "native_settings_write_json s"
  obtain before c0 rest where c: "?cands = before @ c0 # rest"
    and c0: "trusts sys (mc_disk m') c0" "read_of sys (mc_disk m') (fst c0) (\<not> snd c0) = ReadText ?doc"
    and b: "\<forall>c \<in> set before. trusts sys (mc_disk m') c \<longrightarrow> loads sys (mc_disk m') c \<longrightarrow>
       read_of sys (mc_disk m') (fst c) (\<not> snd c) = ReadText ?doc"
    using save_persisted_stable [OF assms(1,3,4,2) refl] by blast
  have "object_copies sys = (\<lambda>_. True)"
    using assms(2) by (auto simp: object_copies_def reads_work_def)
  then have "\<forall>t. settings_wf t \<longrightarrow> native_settings_apply_json (object_copies sys) t ?doc = (True, s)"
    using apply_written_json [OF assms(3)] by (simp add: settings_wf_def settings_consts)
  from load_loop_saved [OF assms(1) this c0 b, of later old rest] assms(5,6,7)
  show ?thesis by (simp add: native_config_load_persisted_def c del: load_loop.simps)
qed

section \<open>Without faults a save succeeds\<close>

definition faultless :: "Sys \<Rightarrow> bool" where
  "faultless sys \<longleftrightarrow> (\<forall>n c. \<not> sy_refuses sys n c)"

lemma ask_faultless: "faultless sys \<Longrightarrow> ask sys c m = (True, m\<lparr>mc_calls := mc_calls m + 1\<rparr>)"
  by (simp add: ask_def faultless_def)

lemma save_stream_succeeds:
  assumes "faultless sys" "length doc \<le> NATIVE_CONFIG_MAX_FILE" "entry_at (mc_disk m) d tmp \<noteq> None"
  shows "fst (save_stream sys doc d i tmp name m)"
  using assms(2,3)
  by (simp add: save_stream_def write_stream_def flush_stream_def sync_file_def close_stream_def renameat_def
      sync_directory_def and_then_def ask_faultless [OF assms(1)] Let_def)

lemma save_succeeds:
  assumes "faultless sys" "settings_wf s"
    and "native_config_parent_dir NATIVE_PERSISTED_CONFIG_PATH_MAX path = Some dir"
    and "length (after_slash path @ ''.tmp'') < NATIVE_PERSISTED_CONFIG_PATH_MAX" "after_slash path \<noteq> []"
    and "dk_path (mc_disk m) (canonical dir) = Some (False, d)" "dk_dirs (mc_disk m) d = Some n" "dn_is_dir n"
    "dn_owner n = sy_euid sys" "\<not> others_may_write (dn_mode n)"
  shows "fst (native_settings_save_file_checked sys s path True m)"
proof -
  let ?t = "after_slash path @ ''.tmp''"
  have ask [simp]: "ask sys c m = (True, m\<lparr>mc_calls := mc_calls m + 1\<rparr>)" for c m by (rule ask_faultless [OF assms(1)])
  define m1 where "m1 = m\<lparr>mc_calls := mc_calls m + 1\<rparr>"
  define m2 where "m2 = m1\<lparr>mc_calls := mc_calls m1 + 1\<rparr>"
  have od: "open_directory sys dir m = (Some d, m1)"
    using assms(6-8) by (simp add: open_directory_def directory_at_def m1_def)
  have pr: "private_directory sys d m1 = (True, m2)"
    using assms(7-10) by (simp add: private_directory_def m1_def m2_def)
  define m3 where "m3 = unlinkat sys d ?t m2"
  have free: "entry_at (mc_disk m3) d ?t = None" "dk_dirs (mc_disk m3) d \<noteq> None"
    using assms(7) by (auto simp: m3_def m2_def m1_def unlinkat_def remove_entry_def set_entries_def entry_at_def)
  obtain i m4 where c: "create_exclusive sys d ?t m3 = (Some i, m4)"
    using free(1) by (simp add: create_exclusive_def Let_def)
  have e: "entry_at (mc_disk m4) d ?t = Some (File i)"
    using create_some [OF c] free(2) by (auto simp: entry_at_def add_file_def set_entries_def)
  have "fst (save_stream sys (native_settings_write_json s) d i ?t (after_slash path) (m4\<lparr>mc_calls := mc_calls m4 + 1\<rparr>))"
    by (rule save_stream_succeeds [OF assms(1)]) (use document_fits [OF assms(2)] in \<open>simp_all add: e NATIVE_CONFIG_MAX_FILE_def\<close>)
  then show ?thesis
    using assms(4,5)
    by (simp add: native_settings_save_file_checked_def assms(3) od pr m3_def [symmetric] c Let_def)
qed

definition quiet_sys :: Sys where
  "quiet_sys = \<lparr>sy_refuses = (\<lambda>n c. False), sy_euid = 7, sy_pid = 12, sy_partial = (\<lambda>n. n)\<rparr>"

definition demo_env :: ConfigEnv where
  "demo_env = \<lparr>ce_settings_path = Some ''/s/settings.json'', ce_settings_dir = None, ce_pref_path = None,
     ce_appid = None, ce_home = None, ce_ignore_saved = None\<rparr>"

lemma demo_find:
  "fst (native_config_find_persisted_save_candidate quiet_sys (native_config_collect_persisted_candidates quiet_sys demo_env) demo_machine) = Some 0"
  "dk_path (mc_disk (snd (native_config_find_persisted_save_candidate quiet_sys (native_config_collect_persisted_candidates quiet_sys demo_env) demo_machine))) ''/s'' = Some (False, 0)"
  "map_option (\<lambda>n. (dn_is_dir n, dn_owner n, others_may_write (dn_mode n))) (dk_dirs (mc_disk (snd (native_config_find_persisted_save_candidate quiet_sys
     (native_config_collect_persisted_candidates quiet_sys demo_env) demo_machine))) 0) = Some (True, 7, False)"
  "native_config_collect_persisted_candidates quiet_sys demo_env ! 0 = (''/s/settings.json'', True)"
  by code_simp+

lemma saved_settings_load_again_witness:
  "fst (native_config_load_persisted quiet_sys demo_env (native_settings_defaults\<lparr>ns_wheel_step := 9\<rparr>) False
     (snd (native_config_save_persisted quiet_sys demo_env native_settings_defaults demo_machine))) = native_settings_defaults"
proof -
  have st: "stable quiet_sys" and nf: "faultless quiet_sys" by (simp_all add: stable_def faultless_def quiet_sys_def)
  obtain m1 where f: "native_config_find_persisted_save_candidate quiet_sys
      (native_config_collect_persisted_candidates quiet_sys demo_env) demo_machine = (Some 0, m1)"
    using demo_find(1) by (metis prod.collapse)
  obtain fl m2 where fl: "first_loadable quiet_sys native_settings_defaults
      (native_config_collect_persisted_candidates quiet_sys demo_env) 0 m1 = (fl, m2)" by fastforce
  have tg: "tightened quiet_sys (mc_disk m1) (mc_disk m2)"
    using first_loadable_stable [OF st settings_defaults_wf fl] by simp
  obtain n where n: "dk_dirs (mc_disk m2) 0 = Some n" "dn_is_dir n" "dn_owner n = 7" "\<not> others_may_write (dn_mode n)"
    using tightened_dir [OF tg, of 0] demo_find(3) f by (auto simp: tighter_def)
  have "dk_path (mc_disk m2) (canonical ''/s'') = Some (False, 0)"
    using demo_find(2) f tg by (simp add: canonical_def tightened_def)
  then have "fst (native_settings_save_file_checked quiet_sys native_settings_defaults ''/s/settings.json'' True m2)"
    by (intro save_succeeds [OF nf settings_defaults_wf demo_path(2), of m2 0 n])
      (use n in \<open>simp_all add: demo_path quiet_sys_def config_consts\<close>)
  then have "fst (native_config_save_persisted quiet_sys demo_env native_settings_defaults demo_machine)"
    by (simp add: native_config_save_persisted_def f fl demo_find(4) split: option.split)
  then have save: "native_config_save_persisted quiet_sys demo_env native_settings_defaults demo_machine =
      (True, snd (native_config_save_persisted quiet_sys demo_env native_settings_defaults demo_machine))"
    by (metis prod.collapse)
  have "reads_work quiet_sys (native_config_collect_persisted_candidates quiet_sys demo_env)"
    by (simp add: reads_work_def refused_def quiet_sys_def)
  moreover have "settings_wf (native_settings_defaults\<lparr>ns_wheel_step := 9\<rparr>)"
    using settings_defaults_wf by (simp add: settings_wf_def)
  ultimately show ?thesis
    by (rule saved_settings_load_again [OF st _ settings_defaults_wf save _ refl]) (simp add: demo_env_def)
qed

end
