(* ===== verification/Config_Launch.thy ===== *)
theory Config_Launch
  imports Config_Storage Settings_Verdict
begin

text \<open>
  The settings a launch starts with: \<open>native/src/native_config_launch.c\<close> (webOS launch JSON and the
  command line) and the part of \<open>main\<close> that puts the defaults, the configuration file, the saved
  settings, the launch parameters and the command line together.  \<open>argv\<close> is the list of its strings,
  the program's name first.
\<close>

section \<open>A decoded string is shorter than its document\<close>

lemma read_hex_consumes: "read_hex n v p = Some (w, q) \<Longrightarrow> length p = n + length q"
proof (induction n v p rule: read_hex.induct)
  case (2 n v p)
  then show ?case by (cases p) (auto simp: hex_value_def code_def split: option.splits)
qed simp

lemma utf8_length: "length (utf8 cp) \<le> 4"
  by (simp add: utf8_def)

lemma read_unicode_shrinks: "read_unicode p = Some (b, q) \<Longrightarrow> length b + length q \<le> length p"
proof -
  assume r: "read_unicode p = Some (b, q)"
  then obtain cp p1 where c: "read_hex4 p = Some (cp, p1)"
    by (auto simp: read_unicode_def split: option.splits)
  then have l: "length p = 4 + length p1" using read_hex_consumes by (simp add: read_hex4_def)
  have "length b \<le> 4"
    using r c by (auto simp: read_unicode_def utf8_length split: if_splits option.splits)
  moreover have "length q \<le> length p1"
    using r c by (auto simp: read_unicode_def read_hex4_def dest!: read_hex_length split: if_splits option.splits)
  ultimately show ?thesis using l by simp
qed

lemma read_escape_shrinks: "read_escape p = Some (b, q) \<Longrightarrow> p \<noteq> [] \<and> length b + length q \<le> length p"
  by (cases p) (auto simp: read_escape_def Let_def dest!: read_unicode_shrinks split: if_splits)

lemma read_string_loop_shrinks:
  "read_string_loop cap w p = Some (out, q) \<Longrightarrow> length out + length q \<le> length w + length p"
proof (induction cap w p rule: read_string_loop.induct)
  case (1 cap w p)
  show ?case
  proof (cases "p = [] \<or> ch0 p = CHR 0x22")
    case True
    then show ?thesis using 1(2) by (subst (asm) read_string_loop.simps) auto
  next
    case False
    then have np: "\<not> code (ch0 p) < 0x20" using 1(2) by (subst (asm) read_string_loop.simps) (auto split: if_splits)
    obtain b r where br: "(if ch0 p = CHR 0x5C then read_escape (tl p) else Some ([ch0 p], tl p)) = Some (b, r)"
      using 1(2) False np by (subst (asm) read_string_loop.simps) (auto split: if_splits option.splits)
    have cap: "\<not> (case cap of None \<Rightarrow> False | Some n \<Rightarrow> length w \<ge> n \<or> length b \<ge> n - length w)"
      using 1(2) False np br by (subst (asm) read_string_loop.simps) (simp split: if_split_asm)
    have rec: "read_string_loop cap (w @ b) r = Some (out, q)"
      using 1(2) False np br cap by (subst (asm) read_string_loop.simps) (simp split: if_split_asm)
    have "length b + length r \<le> length p"
      using br False read_escape_shrinks [of "tl p" b r] by (cases p) (auto split: if_splits)
    then show ?thesis using 1(1) [OF False np br refl cap rec] by simp
  qed
qed

lemma read_string_member_length:
  "native_json_read_string json key cap = JRead s \<Longrightarrow> length s < length json"
proof -
  assume "native_json_read_string json key cap = JRead s"
  then obtain p q where "native_json_find_value json key = Some p" "read_string (Some cap) p = Some (s, q)"
    by (auto simp: native_json_read_string_def split: option.splits if_splits)
  moreover from this(2) obtain q' where "read_string_loop (Some cap) [] (tl p) = Some (s, q')"
    by (auto simp: read_string_def split: if_splits option.splits)
  ultimately show ?thesis using find_value_length read_string_loop_shrinks by fastforce
qed

section \<open>Launch JSON\<close>

definition native_config_apply_json_if_present :: "(nat \<Rightarrow> bool) \<Rightarrow> NativeSettings \<Rightarrow> string \<Rightarrow> bool \<times> NativeSettings" where
  "native_config_apply_json_if_present alloc settings json =
     (if \<not> native_settings_json_has_rdp_key json then (True, settings)
      else native_settings_apply_json alloc settings json)"

definition native_config_apply_launch_json_string ::
    "(nat \<Rightarrow> bool) \<Rightarrow> NativeSettings \<Rightarrow> string \<Rightarrow> string \<Rightarrow> bool \<times> NativeSettings" where
  "native_config_apply_launch_json_string alloc settings json key =
     (case native_json_find_value json key of
        None \<Rightarrow> (True, settings)
      | Some value \<Rightarrow>
        if ch0 (native_json_skip_ws value) \<noteq> CHR 0x22 then (True, settings)
        else
          case native_json_read_string json key NATIVE_CONFIG_MAX_FILE of
            JInvalid \<Rightarrow> (False, settings)
          | JAbsent \<Rightarrow> (True, settings)
          | JRead nested \<Rightarrow>
            let nested_json = native_json_skip_ws nested in
            if ch0 nested_json \<noteq> CHR ''{'' then (True, settings)
            else native_config_apply_json_if_present alloc settings nested_json)"

text \<open>
  One argument: the document itself, then the two nested ones.  What is only logged (whether anything
  was applied) is left out.  \<open>alloc i\<close> answers the allocations of the \<open>i\<close>-th document.
\<close>

definition apply_launch_argument :: "(nat \<Rightarrow> nat \<Rightarrow> bool) \<Rightarrow> NativeSettings \<Rightarrow> string \<Rightarrow> bool \<times> NativeSettings" where
  "apply_launch_argument alloc settings arg =
     (let params = native_json_skip_ws arg in
      if ch0 params \<noteq> CHR ''{'' then (True, settings)
      else
        let (ok, settings) = native_config_apply_json_if_present (alloc 0) settings params in
        if \<not> ok then (False, settings)
        else
          let (ok, settings) = native_config_apply_launch_json_string (alloc 1) settings params ''params'' in
          if \<not> ok then (False, settings)
          else native_config_apply_launch_json_string (alloc 2) settings params ''launchParams'')"

fun apply_launch_arguments :: "(nat \<Rightarrow> nat \<Rightarrow> bool) \<Rightarrow> NativeSettings \<Rightarrow> string list \<Rightarrow> bool \<times> NativeSettings" where
  "apply_launch_arguments alloc settings [] = (True, settings)"
| "apply_launch_arguments alloc settings (a # args) =
     (let (ok, settings) = apply_launch_argument alloc settings a in
      if \<not> ok then (False, settings)
      else apply_launch_arguments (\<lambda>i. alloc (i + 3)) settings args)"

definition native_config_apply_launch_params ::
    "(nat \<Rightarrow> nat \<Rightarrow> bool) \<Rightarrow> NativeSettings \<Rightarrow> string list \<Rightarrow> bool \<times> NativeSettings" where
  "native_config_apply_launch_params alloc settings argv = apply_launch_arguments alloc settings (drop 1 argv)"

text \<open>A flag of the document or of the documents nested in it; each nesting is shorter.\<close>

function native_config_launch_json_bool_enabled :: "string \<Rightarrow> string \<Rightarrow> bool" where
  "native_config_launch_json_bool_enabled json name =
     (if ch0 json \<noteq> CHR ''{'' then False
      else if native_json_read_bool json name = JRead True then True
      else
        (case native_json_read_string json ''params'' NATIVE_CONFIG_MAX_FILE of
           JRead nested \<Rightarrow> native_config_launch_json_bool_enabled (native_json_skip_ws nested) name
         | _ \<Rightarrow> False) \<or>
        (case native_json_read_string json ''launchParams'' NATIVE_CONFIG_MAX_FILE of
           JRead nested \<Rightarrow> native_config_launch_json_bool_enabled (native_json_skip_ws nested) name
         | _ \<Rightarrow> False))"
  by pat_completeness auto
termination
proof (relation "measure (\<lambda>(json, name). length json)", goal_cases)
  case (2 json name nested)
  then show ?case using read_string_member_length [of json _ _ nested] skip_ws_length [of nested] by fastforce
next
  case (3 json name nested)
  then show ?case using read_string_member_length [of json _ _ nested] skip_ws_length [of nested] by fastforce
qed simp

declare native_config_launch_json_bool_enabled.simps [simp del]

definition native_config_launch_ignores_saved_config :: "string list \<Rightarrow> bool" where
  "native_config_launch_ignores_saved_config argv =
     list_ex (\<lambda>a. native_config_launch_json_bool_enabled (native_json_skip_ws a) ''ignoreSavedConfig'') (drop 1 argv)"

definition native_camera_preview_requested :: "string list \<Rightarrow> bool" where
  "native_camera_preview_requested argv =
     list_ex (\<lambda>a. a = ''--camera-preview'' \<or>
       native_config_launch_json_bool_enabled (native_json_skip_ws a) ''cameraPreview'') (drop 1 argv)"

text \<open>The slot a name is for.\<close>

definition slot_of_name :: "string \<Rightarrow> int" where
  "slot_of_name name =
     (case List.find (\<lambda>slot. name = native_session_slot_name (int slot)) [0..<NATIVE_SETTINGS_MAX_SESSIONS] of
        None \<Rightarrow> -1 | Some slot \<Rightarrow> int slot)"

text \<open>A readable \<open>connectSlot\<close> of a document decides, even when it names no slot.\<close>

function native_config_launch_json_connect_slot :: "string \<Rightarrow> int" where
  "native_config_launch_json_connect_slot json =
     (if ch0 json \<noteq> CHR ''{'' then -1
      else
        case native_json_read_string json ''connectSlot'' 32 of
          JRead name \<Rightarrow> slot_of_name name
        | _ \<Rightarrow>
          let params = (case native_json_read_string json ''params'' NATIVE_CONFIG_MAX_FILE of
              JRead nested \<Rightarrow> native_config_launch_json_connect_slot (native_json_skip_ws nested) | _ \<Rightarrow> -1) in
          if params \<ge> 0 then params
          else
            let launch = (case native_json_read_string json ''launchParams'' NATIVE_CONFIG_MAX_FILE of
                JRead nested \<Rightarrow> native_config_launch_json_connect_slot (native_json_skip_ws nested) | _ \<Rightarrow> -1) in
            if launch \<ge> 0 then launch else -1)"
  by pat_completeness auto
termination
proof (relation "measure length", goal_cases)
  case (2 json nested)
  then show ?case using read_string_member_length [of json _ _ nested] skip_ws_length [of nested] by fastforce
next
  case (3 json x nested)
  then show ?case using read_string_member_length [of json _ _ nested] skip_ws_length [of nested] by fastforce
next
  case (4 json nested)
  then show ?case using read_string_member_length [of json _ _ nested] skip_ws_length [of nested] by fastforce
next
  case (5 json x nested)
  then show ?case using read_string_member_length [of json _ _ nested] skip_ws_length [of nested] by fastforce
qed simp

declare native_config_launch_json_connect_slot.simps [simp del]

section \<open>The command line\<close>

text \<open>\<open>strncmp(arg, name, n) == 0 && arg[n] == '='\<close>.\<close>

definition has_value :: "string \<Rightarrow> string \<Rightarrow> bool" where
  "has_value name arg \<longleftrightarrow> take (length name) arg = name \<and> length name < length arg \<and> arg ! length name = CHR ''=''"

fun arg_value_loop :: "string \<Rightarrow> string option \<Rightarrow> string list \<Rightarrow> string option" where
  "arg_value_loop name fallback [] = fallback"
| "arg_value_loop name fallback (a # args) =
     (if has_value name a then Some (drop (length name + 1) a)
      else if a = name then (case args of [] \<Rightarrow> None | v # _ \<Rightarrow> Some v)
      else arg_value_loop name fallback args)"

definition native_arg_value :: "string list \<Rightarrow> string \<Rightarrow> string option \<Rightarrow> string option" where
  "native_arg_value argv name fallback = arg_value_loop name fallback (drop 1 argv)"

definition native_arg_exists :: "string list \<Rightarrow> string \<Rightarrow> bool" where
  "native_arg_exists argv name \<longleftrightarrow> list_ex (\<lambda>a. a = name \<or> has_value name a) (drop 1 argv)"

definition cli_options :: "string list" where
  "cli_options = [''--config'', ''--connect-slot'', ''--host'', ''--user'', ''--username'', ''--password'',
     ''--domain'', ''--port'', ''--fps'', ''--wheel-step'', ''--wheel-scroll-divisor'', ''--audio-codec'']"

fun validate_arguments :: "string list \<Rightarrow> bool" where
  "validate_arguments [] = True"
| "validate_arguments (a # args) =
     (if a \<in> set cli_options \<and> (args = [] \<or> take 2 (hd args) = ''--'') then False
      else validate_arguments args)"

definition native_config_validate_cli :: "string list \<Rightarrow> bool" where
  "native_config_validate_cli argv = validate_arguments (drop 1 argv)"

definition native_connect_slot_requested :: "string list \<Rightarrow> int" where
  "native_connect_slot_requested argv =
     (case List.find (\<lambda>slot. slot \<ge> 0)
         (map (\<lambda>a. native_config_launch_json_connect_slot (native_json_skip_ws a)) (drop 1 argv)) of
        Some slot \<Rightarrow> slot
      | None \<Rightarrow>
        (case native_arg_value argv ''--connect-slot'' None of
           None \<Rightarrow> -1 | Some name \<Rightarrow> slot_of_name name))"

text \<open>One flag: absent, applied, or refused (the settings as they were).\<close>

definition with_green :: "(NativeSessionConfig \<Rightarrow> NativeSessionConfig) \<Rightarrow> NativeSettings \<Rightarrow> NativeSettings" where
  "with_green f s = s\<lparr>ns_sessions := (ns_sessions s)[nat NATIVE_SESSION_SLOT_GREEN := f (ns_sessions s ! nat NATIVE_SESSION_SLOT_GREEN)]\<rparr>"

definition apply_cli_string :: "string list \<Rightarrow> string \<Rightarrow> (string \<Rightarrow> NativeSettings \<Rightarrow> NativeSettings) \<Rightarrow>
    NativeSettings \<Rightarrow> bool \<times> NativeSettings" where
  "apply_cli_string argv arg_name store s =
     (case native_arg_value argv arg_name None of
        None \<Rightarrow> (True, s)
      | Some value \<Rightarrow>
        (case copy_config_string NATIVE_SETTINGS_STRING_MAX (Some value) of
           None \<Rightarrow> (False, s) | Some v \<Rightarrow> (True, store v s)))"

text \<open>
  \<open>strtoul(text, &end, 10)\<close> with its white space, its sign (a minus negates in \<open>unsigned long\<close>) and
  \<open>ERANGE\<close>; \<open>long\<close> has 32 bits.
\<close>

definition isspace :: "char \<Rightarrow> bool" where
  "isspace c \<longleftrightarrow> c = CHR '' '' \<or> (9 \<le> code c \<and> code c \<le> 13)"

definition parse_u16_text :: "string \<Rightarrow> nat \<Rightarrow> nat \<Rightarrow> nat option" where
  "parse_u16_text txt min_value max_value =
     (let p = dropWhile isspace txt;
          negative = (ch0 p = CHR ''-'');
          p = (if ch0 p = CHR ''-'' \<or> ch0 p = CHR ''+'' then tl p else p);
          magnitude = digits_value 0 p;
          value = (if negative then (2 ^ 32 - magnitude) mod 2 ^ 32 else magnitude) in
      if txt = [] \<or> \<not> digit (ch0 p) \<or> magnitude > 2 ^ 32 - 1 \<or> skip_digits p \<noteq> [] \<or>
         value < min_value \<or> value > max_value
      then None else Some value)"

definition apply_cli_u16 :: "string list \<Rightarrow> string \<Rightarrow> nat \<Rightarrow> nat \<Rightarrow> (nat \<Rightarrow> NativeSettings \<Rightarrow> NativeSettings) \<Rightarrow>
    NativeSettings \<Rightarrow> bool \<times> NativeSettings" where
  "apply_cli_u16 argv arg_name min_value max_value store s =
     (case native_arg_value argv arg_name None of
        None \<Rightarrow> (True, s)
      | Some value \<Rightarrow>
        (case parse_u16_text value min_value max_value of
           None \<Rightarrow> (False, s) | Some v \<Rightarrow> (True, store v s)))"

definition apply_cli_audio_codec :: "string list \<Rightarrow> NativeSettings \<Rightarrow> bool \<times> NativeSettings" where
  "apply_cli_audio_codec argv s =
     (case native_arg_value argv ''--audio-codec'' None of
        None \<Rightarrow> (True, s)
      | Some value \<Rightarrow>
        if value = ''auto'' \<or> value = ''opus'' then (True, s\<lparr>ns_audio_codec := NATIVE_AUDIO_CODEC_AUTO\<rparr>)
        else if value = ''pcm'' then (True, s\<lparr>ns_audio_codec := NATIVE_AUDIO_CODEC_PCM\<rparr>)
        else (False, s))"

text \<open>\<open>a && b && ...\<close>: the steps before the first that fails have happened.\<close>

fun run_steps :: "(NativeSettings \<Rightarrow> bool \<times> NativeSettings) list \<Rightarrow> NativeSettings \<Rightarrow> bool \<times> NativeSettings" where
  "run_steps [] s = (True, s)"
| "run_steps (f # fs) s = (let (ok, s) = f s in if \<not> ok then (False, s) else run_steps fs s)"

definition cli_steps :: "string list \<Rightarrow> (NativeSettings \<Rightarrow> bool \<times> NativeSettings) list" where
  "cli_steps argv =
    [apply_cli_string argv ''--host'' (\<lambda>v. with_green (\<lambda>c. c\<lparr>sc_host := v\<rparr>)),
     apply_cli_string argv ''--user'' (\<lambda>v. with_green (\<lambda>c. c\<lparr>sc_username := v\<rparr>)),
     apply_cli_string argv ''--username'' (\<lambda>v. with_green (\<lambda>c. c\<lparr>sc_username := v\<rparr>)),
     apply_cli_string argv ''--password'' (\<lambda>v. with_green (\<lambda>c. c\<lparr>sc_password := v\<rparr>)),
     apply_cli_string argv ''--domain'' (\<lambda>v. with_green (\<lambda>c. c\<lparr>sc_domain := v\<rparr>)),
     apply_cli_u16 argv ''--port'' 1 65535 (\<lambda>v. with_green (\<lambda>c. c\<lparr>sc_port := v\<rparr>)),
     apply_cli_u16 argv ''--fps'' 1 240 (\<lambda>v. with_green (\<lambda>c. c\<lparr>sc_fps := v\<rparr>)),
     apply_cli_u16 argv ''--wheel-step'' 1 120 (\<lambda>v s. s\<lparr>ns_wheel_step := v\<rparr>),
     apply_cli_u16 argv ''--wheel-scroll-divisor'' 1 120 (\<lambda>v s. s\<lparr>ns_wheel_scroll_divisor := v\<rparr>),
     apply_cli_audio_codec argv]"

definition native_config_apply_cli :: "string list \<Rightarrow> NativeSettings \<Rightarrow> bool \<times> NativeSettings" where
  "native_config_apply_cli argv s =
     (if \<not> native_config_validate_cli argv then (False, s) else run_steps (cli_steps argv) s)"

section \<open>Putting the settings together (\<open>main\<close>)\<close>

definition NATIVE_CONFIG_PATH :: string where "NATIVE_CONFIG_PATH = ''native/config.local.json''"

text \<open>The configuration file \<open>--config\<close> names; an option without a value gives no path.\<close>

definition load_config_file :: "Sys \<Rightarrow> string list \<Rightarrow> NativeSettings \<Rightarrow> Machine \<Rightarrow> bool \<times> NativeSettings \<times> Machine" where
  "load_config_file sys argv s m =
     (case native_arg_value argv ''--config'' (Some NATIVE_CONFIG_PATH) of
        None \<Rightarrow> (False, s, m)
      | Some path \<Rightarrow> native_config_load_file sys s path (native_arg_exists argv ''--config'') m)"

definition apply_launch_and_cli :: "(nat \<Rightarrow> nat \<Rightarrow> bool) \<Rightarrow> string list \<Rightarrow> NativeSettings \<Rightarrow> bool \<times> NativeSettings" where
  "apply_launch_and_cli alloc argv s =
     (let (ok, s) = native_config_apply_launch_params alloc s argv in
      if \<not> ok then (False, s) else native_config_apply_cli argv s)"

text \<open>
  The exit status when the launch stops here, else the settings it goes on with (the webOS build).
  \<open>sdl\<close> is what \<open>native_prepare_sdl_runtime\<close> answers.
\<close>

definition startup_settings :: "Sys \<Rightarrow> ConfigEnv \<Rightarrow> (nat \<Rightarrow> nat \<Rightarrow> bool) \<Rightarrow> (nat \<Rightarrow> nat \<Rightarrow> bool) \<Rightarrow> int \<Rightarrow>
    string list \<Rightarrow> Machine \<Rightarrow> (int + NativeSettings) \<times> Machine" where
  "startup_settings sys env alloc1 alloc2 sdl argv m =
     (if \<not> native_config_validate_cli argv then (Inl 2, m)
      else
        let (ok, s, m) = load_config_file sys argv native_settings_defaults m in
        if \<not> ok then (Inl 2, m)
        else
          let (ok, s) = apply_launch_and_cli alloc1 argv s in
          if \<not> ok then (Inl 2, m)
          else if sdl \<noteq> 0 then (Inl sdl, m)
          else
            let (s, m) = native_config_load_persisted sys env s (native_config_launch_ignores_saved_config argv) m;
                (ok, s, m) = (if native_arg_exists argv ''--config'' then load_config_file sys argv s m else (True, s, m)) in
            if \<not> ok then (Inl 2, m)
            else
              let (ok, s) = apply_launch_and_cli alloc2 argv s in
              if \<not> ok \<or> \<not> native_config_validate_runtime s then (Inl 2, m) else (Inr s, m))"

section \<open>The settings stay well formed\<close>

lemma skip_ws_text: "CHR 0x00 \<notin> set p \<Longrightarrow> CHR 0x00 \<notin> set (native_json_skip_ws p)"
  using set_mono_suffix [OF suffix_skip_ws [of p]] by blast

lemma if_present_wf:
  "settings_wf s \<Longrightarrow> CHR 0x00 \<notin> set json \<Longrightarrow> settings_wf (snd (native_config_apply_json_if_present alloc s json))"
  using apply_json_keeps_wf(1) [of s json alloc, OF _ _ prod.collapse [symmetric]]
  by (simp add: native_config_apply_json_if_present_def)

lemma nested_wf:
  assumes "settings_wf s" "CHR 0x00 \<notin> set json"
  shows "settings_wf (snd (native_config_apply_launch_json_string alloc s json key))"
proof -
  have "settings_wf (snd (native_config_apply_json_if_present alloc s (native_json_skip_ws nested)))"
    if "native_json_read_string json key NATIVE_CONFIG_MAX_FILE = JRead nested" for nested
    using read_string_ok [OF that assms(2)] by (intro if_present_wf assms(1) skip_ws_text) simp
  then show ?thesis
    using assms(1) by (auto simp: native_config_apply_launch_json_string_def Let_def split: option.split json_read.split)
qed

lemma launch_argument_wf:
  assumes "settings_wf s" "CHR 0x00 \<notin> set a"
  shows "settings_wf (snd (apply_launch_argument alloc s a))"
proof -
  let ?p = "native_json_skip_ws a"
  obtain ok1 s1 where 1: "native_config_apply_json_if_present (alloc 0) s ?p = (ok1, s1)" by fastforce
  obtain ok2 s2 where 2: "native_config_apply_launch_json_string (alloc 1) s1 ?p ''params'' = (ok2, s2)" by fastforce
  have p: "CHR 0x00 \<notin> set ?p" by (rule skip_ws_text [OF assms(2)])
  have s1: "settings_wf s1" using if_present_wf [OF assms(1) p, of "alloc 0"] 1 by simp
  have s2: "settings_wf s2" using nested_wf [OF s1 p, of "alloc 1" "''params''"] 2 by simp
  show ?thesis
    using assms(1) s1 s2 nested_wf [OF s2 p, of "alloc 2" "''launchParams''"]
    by (simp add: apply_launch_argument_def Let_def 1 2 [unfolded One_nat_def] split: if_splits)
qed

lemma launch_params_wf:
  "settings_wf s \<Longrightarrow> \<forall>a \<in> set args. CHR 0x00 \<notin> set a \<Longrightarrow> settings_wf (snd (apply_launch_arguments alloc s args))"
proof (induction alloc s args rule: apply_launch_arguments.induct)
  case (2 alloc s a args)
  obtain ok s' where a: "apply_launch_argument alloc s a = (ok, s')" by fastforce
  then have "settings_wf s'" using launch_argument_wf [of s a alloc] 2(2,3) by simp
  then show ?case using 2(1) [OF a [symmetric] refl] 2(3) a by auto
qed simp

lemma read_file_text: "native_config_read_file sys path pf m = (ReadText json, m') \<Longrightarrow> CHR 0x00 \<notin> set json"
  by (auto simp: native_config_read_file_def Let_def split: option.splits prod.splits if_splits)

lemma load_file_wf:
  assumes "settings_wf s" "native_config_load_file sys s path required m = (ok, s', m')"
  shows "settings_wf s'"
proof -
  obtain f m1 where f: "native_config_read_file sys path False m = (f, m1)" by fastforce
  show ?thesis
  proof (cases f)
    case (ReadText json)
    then show ?thesis
      using assms apply_json_keeps_wf(1) [OF assms(1) read_file_text [OF f [unfolded ReadText]]]
      by (auto simp: native_config_load_file_def f split: prod.splits)
  qed (use assms in \<open>auto simp: native_config_load_file_def f\<close>)
qed

lemma try_load_wf:
  assumes "settings_wf s" "native_config_try_load_candidate sys s path pf m = (r, s', m')"
  shows "settings_wf s'"
proof -
  obtain f m1 where f: "native_config_read_file sys path pf m = (f, m1)" by fastforce
  show ?thesis
  proof (cases f)
    case (ReadText json)
    then show ?thesis
      using assms apply_json_keeps_wf(1) [OF assms(1) read_file_text [OF f [unfolded ReadText]]]
      by (auto simp: native_config_try_load_candidate_def f split: prod.splits)
  qed (use assms in \<open>auto simp: native_config_try_load_candidate_def f\<close>)
qed

lemma load_loop_wf: "settings_wf s \<Longrightarrow> settings_wf (fst (load_loop sys cs s m))"
proof (induction cs arbitrary: s m)
  case (Cons c cs)
  obtain path env where c: "c = (path, env)" by fastforce
  obtain tr m1 where t: "candidate_trusted sys path env m = (tr, m1)" by fastforce
  obtain r s1 m2 where l: "native_config_try_load_candidate sys s path (\<not> env) m1 = (r, s1, m2)" by (metis prod_cases3)
  have "settings_wf s1" by (rule try_load_wf [OF Cons.prems l])
  then show ?case using Cons by (cases r) (simp_all add: c t l)
qed simp

lemma load_persisted_wf: "settings_wf s \<Longrightarrow> settings_wf (fst (native_config_load_persisted sys env s force_ignore m))"
  by (simp add: native_config_load_persisted_def load_loop_wf)

section \<open>What the command line leaves\<close>

lemma arg_value_text:
  "arg_value_loop name fallback args = Some v \<Longrightarrow> \<forall>a \<in> set args. CHR 0x00 \<notin> set a \<Longrightarrow> fallback = None \<Longrightarrow> CHR 0x00 \<notin> set v"
proof (induction name fallback args rule: arg_value_loop.induct)
  case (2 name fallback a args)
  then show ?case by (auto split: if_splits list.splits dest: in_set_dropD)
qed simp

lemma native_arg_text:
  "native_arg_value argv name None = Some v \<Longrightarrow> \<forall>a \<in> set argv. CHR 0x00 \<notin> set a \<Longrightarrow> CHR 0x00 \<notin> set v"
  unfolding native_arg_value_def by (rule arg_value_text [of _ _ "drop 1 argv"]) (auto dest: in_set_dropD)

abbreviation green :: "NativeSettings \<Rightarrow> NativeSessionConfig" where
  "green s \<equiv> ns_sessions s ! nat NATIVE_SESSION_SLOT_GREEN"

lemma green_wf:
  assumes "settings_wf s" "session_wf (green s) \<Longrightarrow> session_wf (f (green s))"
  shows "settings_wf (with_green f s)"
proof -
  have len: "length (ns_sessions s) = 4" and all: "list_all session_wf (ns_sessions s)"
    using assms(1) by (simp_all add: settings_wf_def settings_consts)
  then have "session_wf (f (green s))" using assms(2) by (simp add: list_all_length NATIVE_SESSION_SLOT_GREEN_def)
  then have "list_all session_wf (ns_sessions (with_green f s))"
    using all by (simp add: with_green_def list_all_update)
  then show ?thesis using assms(1) by (simp add: settings_wf_def with_green_def)
qed

lemma cli_string_wf:
  assumes "settings_wf s" "\<forall>a \<in> set argv. CHR 0x00 \<notin> set a"
    and "\<And>v. text_ok v \<Longrightarrow> settings_wf (store v s)"
  shows "settings_wf (snd (apply_cli_string argv name store s))"
  using assms(1,3) native_arg_text [OF _ assms(2), of name]
  by (auto simp: apply_cli_string_def copy_config_string_def text_ok_def settings_consts split: option.split)

lemma parse_range: "parse_u16_text txt lo hi = Some v \<Longrightarrow> lo \<le> v \<and> v \<le> hi"
  by (auto simp: parse_u16_text_def Let_def split: if_splits)

lemma cli_u16_wf:
  assumes "settings_wf s" "\<And>v. lo \<le> v \<Longrightarrow> v \<le> hi \<Longrightarrow> settings_wf (store v s)"
  shows "settings_wf (snd (apply_cli_u16 argv name lo hi store s))"
  using assms parse_range [of _ lo hi] by (auto simp: apply_cli_u16_def split: option.split)

lemma run_steps_wf:
  "\<forall>f \<in> set fs. \<forall>s. settings_wf s \<longrightarrow> settings_wf (snd (f s)) \<Longrightarrow> settings_wf s \<Longrightarrow> settings_wf (snd (run_steps fs s))"
proof (induction fs arbitrary: s)
  case (Cons f fs)
  obtain ok t where f: "f s = (ok, t)" by fastforce
  with Cons.prems have "settings_wf t" by (metis list.set_intros(1) snd_conv)
  then show ?case using Cons f by simp
qed simp

lemma cli_wf:
  assumes "\<forall>a \<in> set argv. CHR 0x00 \<notin> set a" "settings_wf s"
  shows "settings_wf (snd (native_config_apply_cli argv s))"
proof -
  have str: "settings_wf (snd (apply_cli_string argv name (\<lambda>v. with_green (f v)) s))"
    if "settings_wf s" "\<And>v c. text_ok v \<Longrightarrow> session_wf c \<Longrightarrow> session_wf (f v c)" for name f s
    by (rule cli_string_wf [OF that(1) assms(1)]) (intro green_wf that)
  have num: "settings_wf (snd (apply_cli_u16 argv name lo hi (\<lambda>v. with_green (f v)) s))"
    if "settings_wf s" "\<And>v c. lo \<le> v \<Longrightarrow> v \<le> hi \<Longrightarrow> session_wf c \<Longrightarrow> session_wf (f v c)" for name lo hi f s
    by (rule cli_u16_wf [OF that(1)]) (intro green_wf that)
  have "\<forall>f \<in> set (cli_steps argv). \<forall>s. settings_wf s \<longrightarrow> settings_wf (snd (f s))"
    unfolding cli_steps_def list.set ball_simps
    by (intro conjI allI impI str num cli_u16_wf TrueI; (simp add: session_wf_def; fail)?)
      (simp_all add: settings_wf_def apply_cli_audio_codec_def split: option.split)
  then show ?thesis using run_steps_wf assms(2) by (simp add: native_config_apply_cli_def)
qed

text \<open>A step keeps what it does not store; what the last step for a field stored stays.\<close>

definition keeps :: "(NativeSettings \<Rightarrow> 'a) \<Rightarrow> (NativeSettings \<Rightarrow> bool \<times> NativeSettings) \<Rightarrow> bool" where
  "keeps g f \<longleftrightarrow> (\<forall>s. length (ns_sessions s) = 4 \<longrightarrow>
     length (ns_sessions (snd (f s))) = 4 \<and> g (snd (f s)) = g s)"

lemma keeps_length: "keeps g f \<Longrightarrow> keeps (\<lambda>_. ()) f"
  by (simp add: keeps_def)

lemma keeps_green:
  assumes "\<And>v c. h (f v c) = h c"
  shows "keeps (\<lambda>s. h (green s)) (apply_cli_string argv name (\<lambda>v. with_green (f v)))"
  using assms by (auto simp: keeps_def apply_cli_string_def with_green_def NATIVE_SESSION_SLOT_GREEN_def split: option.split)

lemma keeps_green_u16:
  assumes "\<And>v c. h (f v c) = h c"
  shows "keeps (\<lambda>s. h (green s)) (apply_cli_u16 argv name lo hi (\<lambda>v. with_green (f v)))"
  using assms by (auto simp: keeps_def apply_cli_u16_def with_green_def NATIVE_SESSION_SLOT_GREEN_def split: option.split)

lemma keeps_global:
  assumes "\<And>v s. ns_sessions (store v s) = ns_sessions s" "\<And>v s. g (store v s) = g s"
  shows "keeps g (apply_cli_u16 argv name lo hi store)"
  using assms by (auto simp: keeps_def apply_cli_u16_def split: option.split)

lemma keeps_codec:
  assumes "\<And>v s. g (s\<lparr>ns_audio_codec := v\<rparr>) = g s"
  shows "keeps g (apply_cli_audio_codec argv)"
  using assms by (auto simp: keeps_def apply_cli_audio_codec_def split: option.split)

lemma keeps_run:
  "\<forall>f \<in> set fs. keeps g f \<Longrightarrow> length (ns_sessions s) = 4 \<Longrightarrow> run_steps fs s = (True, u) \<Longrightarrow>
   g u = g s \<and> length (ns_sessions u) = 4"
proof (induction fs arbitrary: s)
  case (Cons f fs)
  obtain ok t where f: "f s = (ok, t)" by fastforce
  have ok and rest: "run_steps fs t = (True, u)" using Cons.prems(3) f by (auto split: if_splits)
  have "length (ns_sessions t) = 4" "g t = g s"
    using Cons.prems(1,2) f unfolding keeps_def by (metis list.set_intros(1) snd_conv)+
  then show ?case using Cons.IH [OF _ _ rest] Cons.prems(1) by simp
qed simp

lemma run_steps_append:
  "run_steps (fs @ gs) s = (let (ok, t) = run_steps fs s in if \<not> ok then (False, t) else run_steps gs t)"
  by (induction fs arbitrary: s) (auto split: prod.split)

lemma last_store:
  assumes "run_steps (before @ f # after) s = (True, u)" "length (ns_sessions s) = 4"
    and "\<forall>h \<in> set before. keeps (\<lambda>_. ()) h" "keeps (\<lambda>_. ()) f" "\<forall>h \<in> set after. keeps g h"
  shows "\<exists>t t'. f t = (True, t') \<and> length (ns_sessions t) = 4 \<and> g u = g t'"
proof -
  obtain t where t: "run_steps before s = (True, t)" "run_steps (f # after) t = (True, u)"
    using assms(1) by (auto simp: run_steps_append split: prod.splits if_splits)
  obtain t' where t': "f t = (True, t')" "run_steps after t' = (True, u)"
    using t(2) by (auto split: prod.splits if_splits)
  have l: "length (ns_sessions t) = 4" using keeps_run [OF assms(3,2) t(1)] by simp
  then have "length (ns_sessions t') = 4" using assms(4) t'(1) unfolding keeps_def by (metis snd_conv)
  from keeps_run [OF assms(5) this t'(2)] t'(1) l show ?thesis by blast
qed

lemma cli_string_stores:
  "apply_cli_string argv name (\<lambda>v. with_green (f v)) t = (True, t') \<Longrightarrow> length (ns_sessions t) = 4 \<Longrightarrow>
   native_arg_value argv name None = Some v \<Longrightarrow> green t' = f v (green t)"
  by (auto simp: apply_cli_string_def copy_config_string_def with_green_def NATIVE_SESSION_SLOT_GREEN_def split: if_splits)

lemma cli_u16_stores:
  "apply_cli_u16 argv name lo hi store t = (True, t') \<Longrightarrow> native_arg_value argv name None = Some v \<Longrightarrow>
   \<exists>n. parse_u16_text v lo hi = Some n \<and> t' = store n t"
  by (auto simp: apply_cli_u16_def split: option.splits)

lemma steps_keep_length: "\<forall>h \<in> set (cli_steps argv). keeps (\<lambda>_. ()) h"
  unfolding cli_steps_def
  by (auto intro!: keeps_length [OF keeps_green [of "\<lambda>_. ()"]] keeps_length [OF keeps_green_u16 [of "\<lambda>_. ()"]]
      keeps_global keeps_codec)

text \<open>The \<open>k\<close>-th step has the last word on \<open>g\<close> when the steps after it keep \<open>g\<close>.\<close>

lemma step_last:
  assumes "run_steps (cli_steps argv) s = (True, u)" "length (ns_sessions s) = 4" "k < length (cli_steps argv)"
    and "list_all (keeps g) (drop (Suc k) (cli_steps argv))"
  shows "\<exists>t t'. (cli_steps argv ! k) t = (True, t') \<and> length (ns_sessions t) = 4 \<and> g u = g t'"
proof (rule last_store)
  show "run_steps (take k (cli_steps argv) @ cli_steps argv ! k # drop (Suc k) (cli_steps argv)) s = (True, u)"
    using assms(1,3) by (simp add: id_take_nth_drop [symmetric])
  show "\<forall>h \<in> set (take k (cli_steps argv)). keeps (\<lambda>_. ()) h" "keeps (\<lambda>_. ()) (cli_steps argv ! k)"
    using steps_keep_length [of argv] assms(3) by (auto dest: in_set_takeD)
  show "\<forall>h \<in> set (drop (Suc k) (cli_steps argv)). keeps g h" using assms(4) by (simp add: list_all_iff)
qed (use assms(2) in simp)

lemma cli_last_word:
  assumes run: "run_steps (cli_steps argv) s = (True, u)" and len: "length (ns_sessions s) = 4"
  shows "native_arg_value argv ''--host'' None = Some v \<Longrightarrow> sc_host (green u) = v"
    and "native_arg_value argv ''--username'' None = Some v \<Longrightarrow> sc_username (green u) = v"
    and "native_arg_value argv ''--password'' None = Some v \<Longrightarrow> sc_password (green u) = v"
    and "native_arg_value argv ''--domain'' None = Some v \<Longrightarrow> sc_domain (green u) = v"
    and "native_arg_value argv ''--port'' None = Some v \<Longrightarrow> parse_u16_text v 1 65535 = Some (sc_port (green u))"
    and "native_arg_value argv ''--fps'' None = Some v \<Longrightarrow> parse_u16_text v 1 240 = Some (sc_fps (green u))"
    and "native_arg_value argv ''--wheel-step'' None = Some v \<Longrightarrow> parse_u16_text v 1 120 = Some (ns_wheel_step u)"
    and "native_arg_value argv ''--wheel-scroll-divisor'' None = Some v \<Longrightarrow>
      parse_u16_text v 1 120 = Some (ns_wheel_scroll_divisor u)"
    and "native_arg_value argv ''--audio-codec'' None = Some v \<Longrightarrow>
      v \<in> {''auto'', ''opus''} \<and> ns_audio_codec u = NATIVE_AUDIO_CODEC_AUTO \<or>
      v = ''pcm'' \<and> ns_audio_codec u = NATIVE_AUDIO_CODEC_PCM"
proof -
  note kp = keeps_green_u16 keeps_green keeps_global keeps_codec
  note at = step_last [OF run len]
  note stores = cli_string_stores cli_u16_stores
  have green_store: "green (with_green f t) = f (green t)" if "length (ns_sessions t) = 4" for f t
    using that by (simp add: with_green_def NATIVE_SESSION_SLOT_GREEN_def)
  show "sc_host (green u) = v" if "native_arg_value argv ''--host'' None = Some v"
    using at [of 0 "\<lambda>s. sc_host (green s)"] cli_string_stores [OF _ _ that]
    by (auto simp: cli_steps_def keeps_green_u16 [where h = sc_host] keeps_green [where h = sc_host] keeps_global keeps_codec)
  show "sc_username (green u) = v" if "native_arg_value argv ''--username'' None = Some v"
    using at [of 2 "\<lambda>s. sc_username (green s)"] cli_string_stores [OF _ _ that]
    by (auto simp: cli_steps_def keeps_green_u16 [where h = sc_username] keeps_green [where h = sc_username] keeps_global keeps_codec)
  show "sc_password (green u) = v" if "native_arg_value argv ''--password'' None = Some v"
    using at [of 3 "\<lambda>s. sc_password (green s)"] cli_string_stores [OF _ _ that]
    by (auto simp: cli_steps_def keeps_green_u16 [where h = sc_password] keeps_green [where h = sc_password] keeps_global keeps_codec)
  show "sc_domain (green u) = v" if "native_arg_value argv ''--domain'' None = Some v"
    using at [of 4 "\<lambda>s. sc_domain (green s)"] cli_string_stores [OF _ _ that]
    by (auto simp: cli_steps_def keeps_green_u16 [where h = sc_domain] keeps_global keeps_codec)
  show "parse_u16_text v 1 65535 = Some (sc_port (green u))" if "native_arg_value argv ''--port'' None = Some v"
    using at [of 5 "\<lambda>s. sc_port (green s)"] cli_u16_stores [OF _ that]
    by (fastforce simp: cli_steps_def keeps_green_u16 [where h = sc_port] keeps_global keeps_codec green_store)
  show "parse_u16_text v 1 240 = Some (sc_fps (green u))" if "native_arg_value argv ''--fps'' None = Some v"
    using at [of 6 "\<lambda>s. sc_fps (green s)"] cli_u16_stores [OF _ that]
    by (fastforce simp: cli_steps_def keeps_global keeps_codec green_store)
  show "parse_u16_text v 1 120 = Some (ns_wheel_step u)" if "native_arg_value argv ''--wheel-step'' None = Some v"
    using at [of 7 ns_wheel_step] cli_u16_stores [OF _ that]
    by (fastforce simp: cli_steps_def keeps_global keeps_codec)
  show "parse_u16_text v 1 120 = Some (ns_wheel_scroll_divisor u)"
    if "native_arg_value argv ''--wheel-scroll-divisor'' None = Some v"
    using at [of 8 ns_wheel_scroll_divisor] cli_u16_stores [OF _ that]
    by (fastforce simp: cli_steps_def keeps_codec)
  show "v \<in> {''auto'', ''opus''} \<and> ns_audio_codec u = NATIVE_AUDIO_CODEC_AUTO \<or>
      v = ''pcm'' \<and> ns_audio_codec u = NATIVE_AUDIO_CODEC_PCM"
    if "native_arg_value argv ''--audio-codec'' None = Some v"
    using at [of 9 ns_audio_codec] that
    by (auto simp: cli_steps_def apply_cli_audio_codec_def split: if_splits)
qed


section \<open>The command line has the last word\<close>

lemma load_config_file_wf:
  "settings_wf s \<Longrightarrow> load_config_file sys argv s m = (ok, s', m') \<Longrightarrow> settings_wf s'"
  by (auto simp: load_config_file_def dest: load_file_wf split: option.splits)

lemma launch_and_cli_runs:
  assumes "apply_launch_and_cli alloc argv s = (True, u)" "settings_wf s" "\<forall>a \<in> set argv. CHR 0x00 \<notin> set a"
  shows "\<exists>t. native_config_apply_launch_params alloc s argv = (True, t) \<and> settings_wf t \<and>
    run_steps (cli_steps argv) t = (True, u) \<and> settings_wf u"
proof -
  obtain ok t where t: "native_config_apply_launch_params alloc s argv = (ok, t)" by fastforce
  then have c: ok "native_config_apply_cli argv t = (True, u)"
    using assms(1) by (auto simp: apply_launch_and_cli_def split: if_splits)
  have "settings_wf t"
    using launch_params_wf [OF assms(2), of "drop 1 argv" alloc] assms(3) t
    by (auto simp: native_config_apply_launch_params_def dest: in_set_dropD)
  moreover from cli_wf [OF assms(3) this] c(2) have "settings_wf u" by simp
  moreover have "run_steps (cli_steps argv) t = (True, u)"
    using c(2) by (auto simp: native_config_apply_cli_def split: if_splits)
  ultimately show ?thesis using t c(1) by simp
qed

text \<open>A launch that goes on ends with the launch parameters and the command line, over settings well formed.\<close>

lemma startup_ends_with_cli:
  assumes "\<forall>a \<in> set argv. CHR 0x00 \<notin> set a"
    and "startup_settings sys env alloc1 alloc2 sdl argv m = (Inr u, m')"
  shows "\<exists>s. settings_wf s \<and> apply_launch_and_cli alloc2 argv s = (True, u)"
    and "native_config_validate_runtime u" and "native_config_validate_cli argv"
proof -
  obtain ok1 s1 m1 where 1: "load_config_file sys argv native_settings_defaults m = (ok1, s1, m1)" by (metis prod_cases3)
  obtain ok2 s2 where 2: "apply_launch_and_cli alloc1 argv s1 = (ok2, s2)" by fastforce
  obtain s3 m3 where 3: "native_config_load_persisted sys env s2 (native_config_launch_ignores_saved_config argv) m1 = (s3, m3)"
    by fastforce
  obtain ok4 s4 m4 where 4: "(if native_arg_exists argv ''--config'' then load_config_file sys argv s3 m3 else (True, s3, m3)) =
      (ok4, s4, m4)" by (metis prod_cases3)
  obtain ok5 s5 where 5: "apply_launch_and_cli alloc2 argv s4 = (ok5, s5)" by fastforce
  have r: "ok1" "ok2" "ok5" "s5 = u" "native_config_validate_runtime u" "native_config_validate_cli argv"
    using assms(2) by (simp_all add: startup_settings_def 1 2 3 4 5 Let_def split: if_split_asm)
  have s1: "settings_wf s1" by (rule load_config_file_wf [OF settings_defaults_wf 1])
  have "settings_wf s2" using launch_and_cli_runs [of alloc1 argv s1 s2] s1 assms(1) 2 r(2) by fastforce
  then have "settings_wf s3" using load_persisted_wf [of s2] 3 by (metis fst_conv)
  then have "settings_wf s4" using 4 load_config_file_wf [of s3 sys argv m3] by (auto split: if_splits)
  then show "\<exists>s. settings_wf s \<and> apply_launch_and_cli alloc2 argv s = (True, u)" using 5 r(3,4) by auto
  show "native_config_validate_runtime u" "native_config_validate_cli argv" by (fact r)+
qed

text \<open>An absent flag keeps everything, so \<open>--user\<close> stays when there is no \<open>--username\<close>.\<close>

lemma keeps_absent: "native_arg_value argv name None = None \<Longrightarrow> keeps g (apply_cli_string argv name store)"
  by (simp add: keeps_def apply_cli_string_def)

lemma cli_user_stays:
  assumes "run_steps (cli_steps argv) s = (True, u)" "length (ns_sessions s) = 4"
    and "native_arg_value argv ''--user'' None = Some v" "native_arg_value argv ''--username'' None = None"
  shows "sc_username (green u) = v"
proof -
  have "keeps (\<lambda>s. sc_username (green s)) (apply_cli_string argv ''--username'' store)" for store
    by (rule keeps_absent [OF assms(4)])
  then show ?thesis
    using step_last [OF assms(1,2), of 1 "\<lambda>s. sc_username (green s)"] cli_string_stores [OF _ _ assms(3)]
    by (fastforce simp: cli_steps_def keeps_green_u16 [where h = sc_username] keeps_green [where h = sc_username]
        keeps_global keeps_codec)
qed

text \<open>A number below zero may wrap into the range: \<open>strtoul\<close> accepts the sign.\<close>

lemma negative_port_accepted: "parse_u16_text ''-4294967295'' 1 65535 = Some 1"
  by (simp add: parse_u16_text_def isspace_def ch0_def code_def digit_def Let_def)

text \<open>
  C10: the command line has the last word on the settings a launch starts with.  Whatever the
  configuration file, the saved settings and the launch documents say, whichever system calls and
  allocations fail: a launch that goes on starts with well-formed settings that pass the runtime
  check, and every flag given has its value in them, in range; so a flag whose value is refused
  ends the launch.
\<close>

theorem command_line_has_last_word:
  assumes "\<forall>a \<in> set argv. CHR 0x00 \<notin> set a"
    and "startup_settings sys env alloc1 alloc2 sdl argv m = (Inr u, m')"
  shows "settings_wf u \<and> native_config_validate_runtime u \<and> native_config_validate_cli argv \<and>
    (\<forall>v. (native_arg_value argv ''--host'' None = Some v \<longrightarrow> sc_host (green u) = v) \<and>
      (native_arg_value argv ''--username'' None = Some v \<longrightarrow> sc_username (green u) = v) \<and>
      (native_arg_value argv ''--user'' None = Some v \<and> native_arg_value argv ''--username'' None = None \<longrightarrow>
        sc_username (green u) = v) \<and>
      (native_arg_value argv ''--password'' None = Some v \<longrightarrow> sc_password (green u) = v) \<and>
      (native_arg_value argv ''--domain'' None = Some v \<longrightarrow> sc_domain (green u) = v) \<and>
      (native_arg_value argv ''--port'' None = Some v \<longrightarrow> parse_u16_text v 1 65535 = Some (sc_port (green u))) \<and>
      (native_arg_value argv ''--fps'' None = Some v \<longrightarrow> parse_u16_text v 1 240 = Some (sc_fps (green u))) \<and>
      (native_arg_value argv ''--wheel-step'' None = Some v \<longrightarrow> parse_u16_text v 1 120 = Some (ns_wheel_step u)) \<and>
      (native_arg_value argv ''--wheel-scroll-divisor'' None = Some v \<longrightarrow>
        parse_u16_text v 1 120 = Some (ns_wheel_scroll_divisor u)) \<and>
      (native_arg_value argv ''--audio-codec'' None = Some v \<longrightarrow>
        v \<in> {''auto'', ''opus''} \<and> ns_audio_codec u = NATIVE_AUDIO_CODEC_AUTO \<or>
        v = ''pcm'' \<and> ns_audio_codec u = NATIVE_AUDIO_CODEC_PCM))"
proof -
  note last = startup_ends_with_cli [OF assms]
  obtain s where s: "settings_wf s" "apply_launch_and_cli alloc2 argv s = (True, u)" using last(1) by blast
  obtain t where t: "settings_wf t" "run_steps (cli_steps argv) t = (True, u)" "settings_wf u"
    using launch_and_cli_runs [OF s(2,1) assms(1)] by blast
  have "length (ns_sessions t) = 4" using t(1) by (simp add: settings_wf_def settings_consts)
  from cli_last_word [OF t(2) this] cli_user_stays [OF t(2) this] t(3) last(2,3) show ?thesis by (intro conjI allI impI) blast+
qed

definition launch_sys :: Sys where
  "launch_sys = \<lparr>sy_refuses = (\<lambda>n c. False), sy_euid = 7, sy_pid = 12, sy_partial = (\<lambda>n. n)\<rparr>"

definition launch_env :: ConfigEnv where
  "launch_env = \<lparr>ce_settings_path = Some ''/s/settings.json'', ce_settings_dir = None, ce_pref_path = None,
     ce_appid = None, ce_home = None, ce_ignore_saved = None\<rparr>"

text \<open>The saved settings name another host.\<close>

definition launch_saved :: NativeSettings where
  "launch_saved = with_green (\<lambda>c. c\<lparr>sc_host := ''old'', sc_port := 1234\<rparr>) native_settings_defaults"

definition launch_machine :: Machine where
  "launch_machine = \<lparr>mc_disk =
     \<lparr>dk_path = [''/s'' \<mapsto> (False, 0)],
      dk_dirs = [0 \<mapsto> \<lparr>dn_is_dir = True, dn_owner = 7, dn_mode = MODE_0700,
        dn_entries = [''settings.json'' \<mapsto> File 0], dn_unsynced = []\<rparr>],
      dk_files = [0 \<mapsto> \<lparr>fl_regular = True, fl_owner = 7, fl_mode = MODE_0600,
        fl_data = native_settings_write_json launch_saved, fl_synced = True\<rparr>],
      dk_next = 1\<rparr>, mc_calls = 0, mc_past = []\<rparr>"

definition launch_argv :: "string list" where
  "launch_argv = [''lgnome'', ''--host=new'', ''--audio-codec'', ''pcm'']"

lemma launch_saved_wf: "settings_wf launch_saved"
  unfolding launch_saved_def
  by (rule green_wf [OF settings_defaults_wf]) (simp add: session_wf_def text_ok_def settings_consts)

lemma launch_first_candidate:
  "native_config_collect_persisted_candidates launch_sys launch_env =
     (''/s/settings.json'', True) # tl (native_config_collect_persisted_candidates launch_sys launch_env)"
proof -
  have "native_config_collect_persisted_candidates launch_sys launch_env \<noteq> []"
    "hd (native_config_collect_persisted_candidates launch_sys launch_env) = (''/s/settings.json'', True)"
    by code_simp+
  then show ?thesis by (metis list.collapse)
qed

lemma launch_reads:
  "native_config_read_file launch_sys NATIVE_CONFIG_PATH False launch_machine =
     (ReadMissing, launch_machine\<lparr>mc_calls := 1\<rparr>)"
  "\<exists>m. native_config_read_file launch_sys ''/s/settings.json'' False (launch_machine\<lparr>mc_calls := 1\<rparr>) =
     (ReadText (native_settings_write_json launch_saved), m)"
  using document_fits [OF launch_saved_wf] document_text [of launch_saved]
  by (simp_all add: native_config_read_file_def open_read_def ask_def launch_sys_def launch_machine_def directory_at_def
      walk_def canonical_def has_slash_def before_slash_def after_slash_def NATIVE_CONFIG_PATH_def entry_at_def
      NATIVE_CONFIG_MAX_FILE_def)

lemma launch_defaults_host: "length (ns_sessions native_settings_defaults) = 4"
  using settings_defaults_wf by (simp add: settings_wf_def settings_consts)

lemma launch_params_skipped: "apply_launch_arguments alloc s (drop 1 launch_argv) = (True, s)"
  by (simp add: launch_argv_def apply_launch_argument_def ch0_def)

lemma launch_cli:
  "native_config_apply_cli launch_argv s =
     (True, (with_green (\<lambda>c. c\<lparr>sc_host := ''new''\<rparr>) s)\<lparr>ns_audio_codec := NATIVE_AUDIO_CODEC_PCM\<rparr>)"
  by (simp add: native_config_apply_cli_def native_config_validate_cli_def cli_options_def launch_argv_def cli_steps_def
      apply_cli_string_def apply_cli_u16_def apply_cli_audio_codec_def native_arg_value_def has_value_def
      copy_config_string_def settings_consts)


definition launched :: NativeSettings where
  "launched = projr (fst (startup_settings launch_sys launch_env (\<lambda>_ _. True) (\<lambda>_ _. True) 0 launch_argv launch_machine))"

lemma launch_goes_on:
  "\<exists>m. startup_settings launch_sys launch_env (\<lambda>_ _. True) (\<lambda>_ _. True) 0 launch_argv launch_machine = (Inr launched, m)"
proof -
  let ?new = "\<lambda>s. (with_green (\<lambda>c. c\<lparr>sc_host := ''new''\<rparr>) s)\<lparr>ns_audio_codec := NATIVE_AUDIO_CODEC_PCM\<rparr>"
  obtain m2 where m2: "native_config_read_file launch_sys ''/s/settings.json'' False (launch_machine\<lparr>mc_calls := 1\<rparr>) =
      (ReadText (native_settings_write_json launch_saved), m2)" using launch_reads(2) by blast
  have argv: "native_arg_value launch_argv ''--config'' fb = fb" "\<not> native_arg_exists launch_argv ''--config''"
    "native_config_validate_cli launch_argv" "\<not> native_config_launch_ignores_saved_config launch_argv" for fb
    by (simp_all add: launch_argv_def native_arg_value_def native_arg_exists_def has_value_def native_config_validate_cli_def
        cli_options_def native_config_launch_ignores_saved_config_def native_config_launch_json_bool_enabled.simps ch0_def)
  have step: "apply_launch_and_cli alloc launch_argv s = (True, ?new s)" for alloc s
    by (simp add: apply_launch_and_cli_def native_config_apply_launch_params_def launch_params_skipped [unfolded One_nat_def] launch_cli)
  have "length (ns_sessions (?new native_settings_defaults)) = 4"
    by (simp add: with_green_def launch_defaults_host)
  moreover have "objects launch_sys m2 = (\<lambda>_. True)" by (simp add: objects_def launch_sys_def fun_eq_iff)
  ultimately have load: "native_config_load_persisted launch_sys launch_env (?new native_settings_defaults) False
      (launch_machine\<lparr>mc_calls := 1\<rparr>) = (launch_saved, m2)"
    by (subst native_config_load_persisted_def, subst launch_first_candidate)
      (simp add: launch_env_def candidate_trusted_def native_config_try_load_candidate_def m2 [unfolded One_nat_def]
        apply_written_json [OF launch_saved_wf])
  have "native_config_validate_runtime (?new launch_saved)" by code_simp
  then show ?thesis
    by (simp add: launched_def startup_settings_def load_config_file_def native_config_load_file_def argv launch_reads(1)
        step load [unfolded One_nat_def])
qed

lemma command_line_has_last_word_witness:
  "sc_host (green launched) = ''new'' \<and> ns_audio_codec launched = NATIVE_AUDIO_CODEC_PCM \<and> settings_wf launched"
proof -
  obtain m where "startup_settings launch_sys launch_env (\<lambda>_ _. True) (\<lambda>_ _. True) 0 launch_argv launch_machine =
      (Inr launched, m)" using launch_goes_on by blast
  from command_line_has_last_word [OF _ this]
  have last: "\<And>v. (native_arg_value launch_argv ''--host'' None = Some v \<longrightarrow> sc_host (green launched) = v) \<and>
      (native_arg_value launch_argv ''--audio-codec'' None = Some v \<longrightarrow>
        v \<in> {''auto'', ''opus''} \<and> ns_audio_codec launched = NATIVE_AUDIO_CODEC_AUTO \<or>
        v = ''pcm'' \<and> ns_audio_codec launched = NATIVE_AUDIO_CODEC_PCM)" and wf: "settings_wf launched"
    by (simp_all add: launch_argv_def)
  have "native_arg_value launch_argv ''--host'' None = Some ''new''"
    "native_arg_value launch_argv ''--audio-codec'' None = Some ''pcm''"
    by (simp_all add: launch_argv_def native_arg_value_def has_value_def)
  then show ?thesis using last [of "''new''"] last [of "''pcm''"] wf by simp
qed

end
