(* ===== verification/Spec2Isabelle.thy ===== *)
theory Spec2Isabelle
  imports Event_Queue Key_Queue Au_Snapshot H264_Seed Hevc_Annexb Camera_Stream Audio_Jitter Audio_Pcm
    Settings_Text Capture_Privacy Native_Pointer Session_Status Video_Textures Audio_Ring Switch_Safety
    Config_Restart Config_Launch
begin

text \<open>
  A model of lgnome, a remote desktop (RDP) client for webOS televisions.

  The program.  Up to four sessions to remote desktops are alive at a time, one per colour key.  Each has
  a worker thread inside the Rust library behind \<open>native/include/rdp_ffi.h\<close>, which calls back with
  video, bitmaps, audio and state; one SDL thread owns the window, the input devices and the decisions
  (connect, switch, stop).  One hardware decoder and one camera and microphone are shared, and belong to
  the session on screen.  The theories model the C side, \<open>native/src\<close> and \<open>native/include\<close>; a definition
  has the name of the function or type it models.

  Queues and containers.
    \<^item> \<open>Lg_Prelude\<close>: machine types, the generic lemmas on rings and lists, the collections of the library.
    \<^item> \<open>Fifo\<close>: the locale \<open>bounded_fifo\<close>, the contract of the program's bounded queues, with the drain and
      the interleaving lemmas; interpreted in \<open>Key_Queue\<close> and \<open>Camera_Stream\<close>.
    \<^item> \<open>Event_Queue\<close> (\<open>input_event_queue.c\<close>): evdev events in kernel time order; insertion is a stable
      sort, an overflow voids the history until it is taken.
    \<^item> \<open>Key_Queue\<close> (\<open>ui_key_queue.c\<close>): the configurator's keys.
    \<^item> \<open>Au_Snapshot\<close> (\<open>au_snapshot.c\<close>): the access units a switch replays; the packed buffer refines a list
      of units since the latest seed.

  Bitstreams.
    \<^item> \<open>Start_Code\<close>: the locale \<open>annexb_finder\<close>, the contract of the two copies of the start-code finder;
      interpreted in \<open>H264_Annexb\<close> and \<open>Hevc_Annexb\<close>.
    \<^item> \<open>H264_Annexb\<close>, \<open>H264_Seed\<close> (\<open>h264_annexb.c\<close>) and \<open>Hevc_Annexb\<close> (\<open>hevc_annexb.c\<close>): framing,
      classification and conversion; the scanners are compared with the framing of a list of NAL units.
    \<^item> \<open>Camera_Stream\<close> (\<open>camera_h264_stream.c\<close>): parameter-set cache, gate and bounded queue.

  Audio.
    \<^item> \<open>Audio_Jitter\<close> (\<open>audio_jitter.c\<close>): the histogram's 95th percentile is that of the window's samples;
      targets stay in range.
    \<^item> \<open>Audio_Pcm\<close> (\<open>audio_input_pcm.c\<close>): the microphone's packets are the linear resampling of its input.
    \<^item> \<open>Audio_Source\<close>, \<open>Audio_Ring\<close> (\<open>audio_pipeline_source.c\<close>): the lock-free ring between a worker and the
      mixer's pump, each access to a shared field a step of \<open>push_step\<close> or \<open>read_step\<close>.

  Settings.
    \<^item> \<open>Native_Json\<close> (\<open>native_json.c\<close>), \<open>Native_Settings\<close> (\<open>native_settings.c\<close>, \<open>native_config.c\<close>),
      \<open>Settings_Json\<close> (\<open>settings_json.c\<close>): scanner, data and policy, reading and writing.
    \<^item> \<open>Json_Text\<close>, \<open>Settings_Text\<close>, \<open>Settings_Verdict\<close>: what the scanner finds in text the program wrote; the
      round trip; that any text keeps settings well formed; that a text loads or fails whatever was loaded.
    \<^item> \<open>Config_Files\<close>, \<open>Config_Storage\<close> (\<open>config_paths.c\<close>, \<open>native_config_storage.c\<close>): a disk on which a
      power loss may undo what was not synchronised, and the load and the atomic save on it.
    \<^item> \<open>Config_Safety\<close>, \<open>Config_Restart\<close>: a save is all or nothing under faults and power loss; confirmed
      settings are the ones the next launch loads.
    \<^item> \<open>Config_Launch\<close> (\<open>native_config_launch.c\<close>, \<open>main.c\<close>): how a launch puts its settings together; the
      command line has the last word.

  Sessions, screen and input.
    \<^item> \<open>Input_Sdl\<close> (\<open>input_sdl.c\<close>), \<open>Native_Pointer\<close> (\<open>native_pointer.c\<close>): mapping, forwarding, held inputs,
      wheel accumulator, virtual mouse.
    \<^item> \<open>Rgba_Surface\<close> (\<open>video_rgba_sdl.c\<close>): the canvas; copies that would leave a buffer are None.
    \<^item> \<open>Native_App\<close>, \<open>Session_Status\<close> (\<open>native_app.h\<close>, \<open>native_rdp_state.c\<close>, \<open>ui_session_status.h\<close>): the
      shared state and the policy for states and verdicts of sessions.
    \<^item> \<open>Rgba_Owner\<close> (\<open>native_rgba_owner.c\<close>, \<open>native_presentation.c\<close>), \<open>Video_Ingest\<close>
      (\<open>native_rdp_video.c\<close>): who owns a canvas and who may feed the decoder.
    \<^item> \<open>Video_Safety\<close>, \<open>Video_Monitor\<close>, \<open>Video_Textures\<close>: all interleavings of callbacks, switches, reconnects
      and draws as one step relation; a monitor reads the log of video events and accepts every run.
    \<^item> \<open>Session_Switch\<close> (\<open>native_switch*.c\<close>, \<open>native_session.c\<close>, \<open>native_session_supervisor.c\<close>,
      \<open>native_hub_actions*.c\<close>, \<open>native_streaming_transition.c\<close> and the parts of \<open>native_input_route.c\<close>,
      \<open>native_sdl_events.c\<close> and \<open>native_mixer_overlay.c\<close> they call): the SDL thread's operations.
    \<^item> \<open>Session_Seats\<close>, \<open>Switch_Safety\<close>: these interleaved with the workers; input reaches the session on
      screen only, and a deferred switch is answered.
    \<^item> \<open>Capture_Redirect\<close>, \<open>Capture_Privacy\<close> (\<open>capture_slots.c\<close>, \<open>capture_redirect.c\<close> and the locked sections
      of \<open>capture_camera_worker.c\<close> and \<open>capture_audio_worker.c\<close>): camera and microphone payload goes to the
      foreground session only, over every interleaving of the locked sections.

  What is a parameter.  Answers of code outside the repository's C files are arguments: allocations
  (\<open>alloc\<close>, \<open>mem\<close>, \<open>sy_refuses\<close>), the clock, SDL's and the hardware decoder's answers, the sample
  rate converter (\<open>conv\<close>), the submissions to the Rust library (\<open>ffi\<close>, read from the calls made before).
  The answers of the switching operations (\<open>SwitchAnswers\<close>) are indexed by the number of calls made so
  far, so that each call may be answered differently.

  What is recorded for the theorems only.  Calls that leave the model are kept in logs: \<open>in_sent\<close>,
  \<open>im_calls\<close>, \<open>sw_calls\<close>, \<open>ap_log\<close>, \<open>tx_destroyed\<close>, \<open>pa_warps\<close>.  \<open>rs_writers\<close>, \<open>mc_past\<close> and the positions
  of \<open>RingRun\<close> beside the program's cursors are not fields of the program; no operation reads them.

  Bounds and termination.  Capacities are the code's (1024 events, 1023 keys, eight units and 8 MiB in the
  camera's queue, 65536 frames in an audio ring, 128 KiB of settings).  Most loops are structural or
  have a measure.  Four may in principle not end and are partial functions into option, None standing
  for no return: the resampler's output loop, the two wheel loops and the converter loop; the theorems
  of \<open>Audio_Pcm\<close>, \<open>Native_Pointer\<close> and \<open>Audio_Ring\<close> include that the operations built on them return.
  No definition has fuel.

  Not modelled.  Logging; guards against NULL arguments the callers never pass; the LVGL screens, their
  layout and the generated fonts; cursor shapes; the V4L2, ALSA, evdev, luna, Opus and NDL device code,
  whose data is the input of the modelled parts; the floating-point mix and its fades; SDL and process
  set-up and the main loop; the Rust library.  An operation of the SDL thread is taken as atomic but for
  its sections under \<open>video_lock\<close>, which the video path's step relation separates.  Paths are looked up
  as a whole, so a symbolic link in the middle of a path is not walked.
\<close>

end
